(* ===== verification/Prelude.thy ===== *)
theory Prelude
  imports Main "HOL-Library.Char_ord" "HOL-Library.List_Lexorder"
begin

section \<open>Prelude: the part of Rust's core and std the components use\<close>

text \<open>
  Shared by every component theory:
  \<^item> machine integers: a Rust \<open>u32\<close>/\<open>u64\<close> is a \<open>nat\<close> with its bound written out
    (\<open>u32_max\<close>, \<open>u64_max\<close>); \<open>sat_add32\<close> is \<open>saturating_add\<close>, \<open>u64_add\<close> the wrapping
    \<open>+\<close> of a release build; \<open>saturating_sub\<close> is the truncated subtraction of \<open>nat\<close>;
  \<^item> strings: a Rust \<open>&str\<close>/\<open>String\<close> is its UTF-8 byte sequence, an Isabelle
    \<open>string\<close> (one \<open>char\<close> per byte), so that \<open>len\<close> is \<open>length\<close>; byte comparison is
    the lexicographic order of \<open>HOL-Library.List_Lexorder\<close>;
  \<^item> the \<open>str\<close> methods the sources call (\<open>trim\<close>, \<open>starts_with\<close>, \<open>contains\<close>,
    \<open>split\<close>, \<open>lines\<close>, \<open>parse\<close>, \<open>is_char_boundary\<close>, ASCII case mapping);
  \<^item> generic lemmas on lists and maps, and the collections \<open>model_defs\<close> (definitions
    that component proofs unfold together) and \<open>inv_intros\<close>.
\<close>

named_theorems model_defs \<open>definitions unfolded together in component proofs\<close>
named_theorems inv_intros \<open>preservation lemmas of component invariants\<close>

subsection \<open>Machine integers\<close>

abbreviation u32_max :: nat where "u32_max \<equiv> 4294967295"
abbreviation u64_max :: nat where "u64_max \<equiv> 18446744073709551615"

definition sat_add32 :: "nat \<Rightarrow> nat \<Rightarrow> nat" where
  "sat_add32 a b = min (a + b) u32_max"

definition u64_add :: "nat \<Rightarrow> nat \<Rightarrow> nat" where
  "u64_add a b = (a + b) mod 2 ^ 64"

lemma sat_add32_le [simp]: "sat_add32 a b \<le> u32_max"
  by (simp add: sat_add32_def)

lemma sat_add32_ge: "a \<le> u32_max \<Longrightarrow> a \<le> sat_add32 a b"
  by (simp add: sat_add32_def)

lemma sat_add32_Suc: "a < u32_max \<Longrightarrow> sat_add32 a 1 = Suc a"
  by (simp add: sat_add32_def)

lemma sat_add32_one_le: "sat_add32 a 1 \<le> Suc a"
  by (simp add: sat_add32_def)

lemma sat_add32_one_pos: "0 < sat_add32 a 1"
  by (simp add: sat_add32_def)

lemma u64_add_exact: "a + b \<le> u64_max \<Longrightarrow> u64_add a b = a + b"
  by (simp add: u64_add_def)

subsection \<open>Bytes and character boundaries\<close>

definition byte :: "char \<Rightarrow> nat" where
  "byte c = of_char c"

lemma byte_less: "byte c < 256"
  by (simp add: byte_def)

text \<open>\<open>str::is_char_boundary\<close>: index 0, the length, or a byte that is not a UTF-8
  continuation byte.\<close>

definition is_cont_byte :: "char \<Rightarrow> bool" where
  "is_cont_byte c \<longleftrightarrow> 128 \<le> byte c \<and> byte c < 192"

definition is_char_boundary :: "string \<Rightarrow> nat \<Rightarrow> bool" where
  "is_char_boundary s i \<longleftrightarrow>
     i = 0 \<or> i = length s \<or> (i < length s \<and> \<not> is_cont_byte (s ! i))"

text \<open>The loop \<^verbatim>\<open>while !s.is_char_boundary(cut) { cut -= 1; }\<close>: it stops at 0 at the latest.\<close>

primrec floor_boundary :: "string \<Rightarrow> nat \<Rightarrow> nat" where
  "floor_boundary s 0 = 0"
| "floor_boundary s (Suc n) =
     (if is_char_boundary s (Suc n) then Suc n else floor_boundary s n)"

lemma floor_boundary_le: "floor_boundary s n \<le> n"
  by (induction n) (auto intro: le_SucI)

lemma floor_boundary_is_boundary: "is_char_boundary s (floor_boundary s n)"
  by (induction n) (auto simp: is_char_boundary_def)

lemma floor_boundary_maximal:
  "m \<le> n \<Longrightarrow> is_char_boundary s m \<Longrightarrow> m \<le> floor_boundary s n"
  by (induction n) (auto simp: le_Suc_eq)

text \<open>The marker \<^verbatim>\<open>"\u{2026} [truncated]"\<close> appended by every truncation helper: 15 bytes.\<close>

definition trunc_marker :: string where
  "trunc_marker = [CHR 0xE2, CHR 0x80, CHR 0xA6] @ '' [truncated]''"

lemma length_trunc_marker [simp]: "length trunc_marker = 15"
  by (simp add: trunc_marker_def)

subsection \<open>Searching and splitting\<close>

definition starts_with :: "string \<Rightarrow> string \<Rightarrow> bool" where
  "starts_with p s \<longleftrightarrow> take (length p) s = p"

fun contains_sub :: "string \<Rightarrow> string \<Rightarrow> bool" where
  "contains_sub p [] = (p = [])"
| "contains_sub p (c # s) = (starts_with p (c # s) \<or> contains_sub p s)"

text \<open>\<open>str::find\<close>: byte index of the first occurrence.\<close>

fun find_sub :: "string \<Rightarrow> string \<Rightarrow> nat option" where
  "find_sub p [] = (if p = [] then Some 0 else None)"
| "find_sub p (c # s) =
     (if starts_with p (c # s) then Some 0 else map_option Suc (find_sub p s))"

text \<open>\<open>split(c).next()\<close>: the part before the first \<open>c\<close> (all of it when there is none).\<close>

definition split_first :: "char \<Rightarrow> string \<Rightarrow> string" where
  "split_first c s = takeWhile (\<lambda>x. x \<noteq> c) s"

text \<open>\<open>split(c)\<close>: all the parts.\<close>

fun split_on :: "char \<Rightarrow> string \<Rightarrow> string list" where
  "split_on c [] = [[]]"
| "split_on c (x # xs) =
     (if x = c then [] # split_on c xs
      else (case split_on c xs of [] \<Rightarrow> [[x]] | w # ws \<Rightarrow> (x # w) # ws))"

lemma split_on_ne [simp]: "split_on c s \<noteq> []"
  by (cases s) (auto split: list.splits)

fun strip_prefix :: "string \<Rightarrow> string \<Rightarrow> string option" where
  "strip_prefix p s = (if starts_with p s then Some (drop (length p) s) else None)"

lemma starts_with_iff: "starts_with p s \<longleftrightarrow> (\<exists>t. s = p @ t)"
  by (metis append_eq_conv_conj append_take_drop_id starts_with_def)

lemma starts_with_length: "starts_with p s \<Longrightarrow> length p \<le> length s"
  by (auto simp: starts_with_iff)

lemma contains_sub_iff: "contains_sub p s \<longleftrightarrow> (\<exists>a b. s = a @ p @ b)"
proof (induction s)
  case Nil
  then show ?case by auto
next
  case (Cons c s)
  show ?case
  proof
    assume "contains_sub p (c # s)"
    then consider "starts_with p (c # s)" | "contains_sub p s" by auto
    then show "\<exists>a b. c # s = a @ p @ b"
    proof cases
      case 1
      then show ?thesis by (metis append_Nil starts_with_iff)
    next
      case 2
      with Cons.IH obtain a b where "s = a @ p @ b" by blast
      then show ?thesis by (metis append_Cons)
    qed
  next
    assume "\<exists>a b. c # s = a @ p @ b"
    then obtain a b where ab: "c # s = a @ p @ b" by blast
    show "contains_sub p (c # s)"
    proof (cases a)
      case Nil
      with ab have "starts_with p (c # s)" by (auto simp: starts_with_iff)
      then show ?thesis by simp
    next
      case (Cons x a')
      with ab have "s = a' @ p @ b" by simp
      with \<open>contains_sub p s = (\<exists>a b. s = a @ p @ b)\<close> show ?thesis by auto
    qed
  qed
qed

lemma find_sub_Some: "find_sub p s = Some i \<Longrightarrow> starts_with p (drop i s) \<and> i \<le> length s"
  by (induction s arbitrary: i) (auto split: if_splits simp: starts_with_def)

lemma find_sub_None_iff: "find_sub p s = None \<longleftrightarrow> \<not> contains_sub p s"
  by (induction s) auto

subsection \<open>Whitespace trimming\<close>

text \<open>
  \<open>str::trim\<close> removes the Unicode \<open>White_Space\<close> characters at both ends. \<open>ws_seqs\<close> lists
  their UTF-8 encodings; matching an encoding at the end of a valid UTF-8 string
  matches a whole character, because an encoding starts with its lead byte.
\<close>

definition ws_seqs :: "string list" where
  "ws_seqs =
    [[CHR 0x09], [CHR 0x0A], [CHR 0x0B], [CHR 0x0C], [CHR 0x0D], [CHR 0x20],
     [CHR 0xC2, CHR 0x85], [CHR 0xC2, CHR 0xA0], [CHR 0xE1, CHR 0x9A, CHR 0x80],
     [CHR 0xE2, CHR 0x80, CHR 0x80], [CHR 0xE2, CHR 0x80, CHR 0x81],
     [CHR 0xE2, CHR 0x80, CHR 0x82], [CHR 0xE2, CHR 0x80, CHR 0x83],
     [CHR 0xE2, CHR 0x80, CHR 0x84], [CHR 0xE2, CHR 0x80, CHR 0x85],
     [CHR 0xE2, CHR 0x80, CHR 0x86], [CHR 0xE2, CHR 0x80, CHR 0x87],
     [CHR 0xE2, CHR 0x80, CHR 0x88], [CHR 0xE2, CHR 0x80, CHR 0x89],
     [CHR 0xE2, CHR 0x80, CHR 0x8A], [CHR 0xE2, CHR 0x80, CHR 0xA8],
     [CHR 0xE2, CHR 0x80, CHR 0xA9], [CHR 0xE2, CHR 0x80, CHR 0xAF],
     [CHR 0xE2, CHR 0x81, CHR 0x9F], [CHR 0xE3, CHR 0x80, CHR 0x80]]"

definition match_front :: "string list \<Rightarrow> string \<Rightarrow> string option" where
  "match_front ws s = find (\<lambda>w. w \<noteq> [] \<and> starts_with w s) ws"

lemma match_front_Some: "match_front ws s = Some w \<Longrightarrow> w \<noteq> [] \<and> starts_with w s \<and> w \<in> set ws"
  by (auto simp: match_front_def find_Some_iff)

function strip_front :: "string list \<Rightarrow> string \<Rightarrow> string" where
  "strip_front ws s =
     (case match_front ws s of
        None \<Rightarrow> s
      | Some w \<Rightarrow> strip_front ws (drop (length w) s))"
  by pat_completeness auto
termination
proof (relation "measure (\<lambda>(ws, s). length s)")
  fix ws s w
  assume "match_front ws s = Some w"
  then have "w \<noteq> []" and "length w \<le> length s"
    by (auto dest: match_front_Some starts_with_length)
  then show "((ws, drop (length w) s), (ws, s)) \<in> measure (\<lambda>(ws, s). length s)"
    by (cases w) auto
qed simp

declare strip_front.simps [simp del]

definition trim_start :: "string \<Rightarrow> string" where
  "trim_start s = strip_front ws_seqs s"

definition trim_end :: "string \<Rightarrow> string" where
  "trim_end s = rev (strip_front (map rev ws_seqs) (rev s))"

definition trim :: "string \<Rightarrow> string" where
  "trim s = trim_end (trim_start s)"

lemma strip_front_suffix: "\<exists>t. s = t @ strip_front ws s"
proof (induction ws s rule: strip_front.induct)
  case (1 ws s)
  show ?case
  proof (cases "match_front ws s")
    case None
    then show ?thesis by (simp add: strip_front.simps)
  next
    case (Some w)
    from "1.IH" [OF Some] obtain t where "drop (length w) s = t @ strip_front ws (drop (length w) s)"
      by blast
    with Some have "s = (take (length w) s @ t) @ strip_front ws s"
      by (metis append.assoc append_take_drop_id option.simps(5) strip_front.simps)
    then show ?thesis by blast
  qed
qed

lemma strip_front_done: "match_front ws (strip_front ws s) = None"
proof (induction ws s rule: strip_front.induct)
  case (1 ws s)
  then show ?case
    by (cases "match_front ws s") (simp_all add: strip_front.simps [of ws s])
qed

lemma strip_front_id: "match_front ws s = None \<Longrightarrow> strip_front ws s = s"
  by (simp add: strip_front.simps)

lemma strip_front_idem [simp]: "strip_front ws (strip_front ws s) = strip_front ws s"
  by (simp add: strip_front_done strip_front_id)

lemma strip_front_length: "length (strip_front ws s) \<le> length s"
  by (metis length_append le_add2 strip_front_suffix)

lemma trim_start_length: "length (trim_start s) \<le> length s"
  by (simp add: trim_start_def strip_front_length)

lemma trim_length: "length (trim s) \<le> length s"
  by (metis length_rev order_trans strip_front_length trim_def trim_end_def trim_start_length)

lemma trim_Nil [simp]: "trim [] = []"
  by (simp add: trim_def trim_end_def trim_start_def strip_front.simps match_front_def
      ws_seqs_def starts_with_def)

subsection \<open>ASCII case mapping and classes\<close>

definition ascii_lower :: "char \<Rightarrow> char" where
  "ascii_lower c = (if 65 \<le> byte c \<and> byte c \<le> 90 then char_of (byte c + 32) else c)"

definition ascii_upper :: "char \<Rightarrow> char" where
  "ascii_upper c = (if 97 \<le> byte c \<and> byte c \<le> 122 then char_of (byte c - 32) else c)"

definition to_ascii_lowercase :: "string \<Rightarrow> string" where
  "to_ascii_lowercase s = map ascii_lower s"

definition to_ascii_uppercase :: "string \<Rightarrow> string" where
  "to_ascii_uppercase s = map ascii_upper s"

definition eq_ignore_ascii_case :: "string \<Rightarrow> string \<Rightarrow> bool" where
  "eq_ignore_ascii_case a b \<longleftrightarrow> to_ascii_lowercase a = to_ascii_lowercase b"

definition is_ascii_digit :: "char \<Rightarrow> bool" where
  "is_ascii_digit c \<longleftrightarrow> 48 \<le> byte c \<and> byte c \<le> 57"

definition is_ascii_alphabetic :: "char \<Rightarrow> bool" where
  "is_ascii_alphabetic c \<longleftrightarrow> (65 \<le> byte c \<and> byte c \<le> 90) \<or> (97 \<le> byte c \<and> byte c \<le> 122)"

definition is_ascii_alphanumeric :: "char \<Rightarrow> bool" where
  "is_ascii_alphanumeric c \<longleftrightarrow> is_ascii_digit c \<or> is_ascii_alphabetic c"

lemma byte_char_of: "n < 256 \<Longrightarrow> byte (char_of n) = n"
  by (simp add: byte_def)

lemma ascii_lower_idem [simp]: "ascii_lower (ascii_lower c) = ascii_lower c"
  by (simp add: ascii_lower_def byte_char_of)

lemma to_ascii_lowercase_idem [simp]:
  "to_ascii_lowercase (to_ascii_lowercase s) = to_ascii_lowercase s"
  by (simp add: to_ascii_lowercase_def)

lemma length_to_ascii_lowercase [simp]: "length (to_ascii_lowercase s) = length s"
  by (simp add: to_ascii_lowercase_def)

subsection \<open>Characters and Unicode lower case\<close>

text \<open>
  \<open>chars\<close> of a valid UTF-8 string: a lead byte with the continuation bytes after it.
  \<open>to_lowercase\<close> maps ASCII letters here; \<open>tbl\<close> is the Unicode table for the other
  characters, standard-library data that no theorem looks into. (The
  final-sigma rule of \<open>str::to_lowercase\<close> chooses between two non-ASCII results and no
  source inspects those.)
\<close>

function utf8_chars :: "string \<Rightarrow> string list" where
  "utf8_chars [] = []"
| "utf8_chars (c # cs) =
     (c # takeWhile is_cont_byte cs) # utf8_chars (dropWhile is_cont_byte cs)"
  by pat_completeness auto
termination
  by (relation "measure length") (auto simp: le_imp_less_Suc length_dropWhile_le)

lemma concat_utf8_chars [simp]: "concat (utf8_chars s) = s"
  by (induction s rule: utf8_chars.induct) auto

definition char_to_lowercase :: "(string \<Rightarrow> string) \<Rightarrow> string \<Rightarrow> string" where
  "char_to_lowercase tbl ch =
     (case ch of [c] \<Rightarrow> if byte c < 128 then [ascii_lower c] else tbl ch | _ \<Rightarrow> tbl ch)"

definition to_lowercase :: "(string \<Rightarrow> string) \<Rightarrow> string \<Rightarrow> string" where
  "to_lowercase tbl s = concat (map (char_to_lowercase tbl) (utf8_chars s))"

text \<open>\<open>str::split\<close> at the characters that satisfy a predicate, and \<open>split_whitespace\<close>.\<close>

fun split_chars :: "(string \<Rightarrow> bool) \<Rightarrow> string list \<Rightarrow> string list" where
  "split_chars sep [] = [[]]"
| "split_chars sep (c # cs) =
     (if sep c then [] # split_chars sep cs
      else (case split_chars sep cs of [] \<Rightarrow> [c] | w # ws \<Rightarrow> (c @ w) # ws))"

definition split_whitespace :: "string \<Rightarrow> string list" where
  "split_whitespace s = filter (\<lambda>w. w \<noteq> []) (split_chars (\<lambda>c. c \<in> set ws_seqs) (utf8_chars s))"

text \<open>\<open>lines().next().unwrap_or("")\<close>: up to the first newline, without a carriage return
  before it.\<close>

definition first_line :: "string \<Rightarrow> string" where
  "first_line s =
     (let l = takeWhile (\<lambda>c. c \<noteq> CHR 0x0A) s
      in if length l < length s \<and> l \<noteq> [] \<and> last l = CHR 0x0D then butlast l else l)"

subsection \<open>Decimal numbers\<close>

fun dec_of_nat :: "nat \<Rightarrow> string" where
  "dec_of_nat n =
     (if n < 10 then [char_of (48 + n)] else dec_of_nat (n div 10) @ [char_of (48 + n mod 10)])"

declare dec_of_nat.simps [simp del]

definition digits_value :: "string \<Rightarrow> nat" where
  "digits_value s = foldl (\<lambda>v c. 10 * v + (byte c - 48)) 0 s"

text \<open>\<open>str::parse\<close> for an unsigned type with maximum \<open>mx\<close>: an optional \<open>+\<close>, then one or
  more digits, and the value in range.\<close>

definition parse_unsigned :: "nat \<Rightarrow> string \<Rightarrow> nat option" where
  "parse_unsigned mx s =
     (let d = (case s of c # r \<Rightarrow> if c = CHR ''+'' then r else s | [] \<Rightarrow> [])
      in if d \<noteq> [] \<and> list_all is_ascii_digit d \<and> digits_value d \<le> mx
         then Some (digits_value d) else None)"

lemma parse_unsigned_bound: "parse_unsigned mx s = Some n \<Longrightarrow> n \<le> mx"
  by (auto simp: parse_unsigned_def Let_def split: if_splits)

lemma dec_of_nat_digits: "list_all is_ascii_digit (dec_of_nat n)"
proof (induction n rule: dec_of_nat.induct)
  case (1 n)
  have "is_ascii_digit (char_of (48 + m))" if "m < 10" for m :: nat
    using that by (simp add: is_ascii_digit_def byte_char_of)
  with "1" show ?case
    by (subst dec_of_nat.simps) simp
qed

lemma dec_of_nat_ne [simp]: "dec_of_nat n \<noteq> []"
  by (subst dec_of_nat.simps) simp

lemma digits_value_snoc: "digits_value (s @ [c]) = 10 * digits_value s + (byte c - 48)"
  by (simp add: digits_value_def)

lemma digits_value_dec_of_nat [simp]: "digits_value (dec_of_nat n) = n"
proof (induction n rule: dec_of_nat.induct)
  case (1 n)
  show ?case
  proof (cases "n < 10")
    case True
    then show ?thesis
      by (subst dec_of_nat.simps) (simp add: digits_value_def byte_char_of)
  next
    case False
    have "digits_value (dec_of_nat n) = 10 * (n div 10) + (byte (char_of (48 + n mod 10)) - 48)"
      using False "1.IH" by (subst dec_of_nat.simps) (simp add: digits_value_snoc)
    also have "\<dots> = n" by (simp add: byte_char_of)
    finally show ?thesis .
  qed
qed

lemma parse_dec_of_nat: "n \<le> mx \<Longrightarrow> parse_unsigned mx (dec_of_nat n) = Some n"
proof -
  assume n: "n \<le> mx"
  have "hd (dec_of_nat n) \<noteq> CHR ''+''"
    using dec_of_nat_digits [of n] dec_of_nat_ne [of n]
    by (cases "dec_of_nat n") (auto simp: is_ascii_digit_def byte_def)
  then show ?thesis
    using n dec_of_nat_digits [of n] dec_of_nat_ne [of n] digits_value_dec_of_nat [of n]
    by (cases "dec_of_nat n") (auto simp: parse_unsigned_def Let_def)
qed

subsection \<open>Lists\<close>

text \<open>\<open>join\<close> of a list of strings with a separator.\<close>

fun join :: "string \<Rightarrow> string list \<Rightarrow> string" where
  "join sep [] = []"
| "join sep [x] = x"
| "join sep (x # y # xs) = x @ sep @ join sep (y # xs)"

lemma sum_list_drop_le: "sum_list (drop n (xs :: nat list)) \<le> sum_list xs"
  by (metis append_take_drop_id le_add2 sum_list.append)

text \<open>\<open>Iterator::find_map\<close>: the first value the function yields.\<close>

fun find_map :: "('a \<Rightarrow> 'b option) \<Rightarrow> 'a list \<Rightarrow> 'b option" where
  "find_map f [] = None"
| "find_map f (x # xs) = (case f x of Some y \<Rightarrow> Some y | None \<Rightarrow> find_map f xs)"

lemma find_map_None_iff: "find_map f xs = None \<longleftrightarrow> (\<forall>x\<in>set xs. f x = None)"
  by (induction xs) (auto split: option.splits)

lemma find_map_SomeD:
  "find_map f xs = Some y \<Longrightarrow> \<exists>i < length xs. f (xs ! i) = Some y \<and> (\<forall>j < i. f (xs ! j) = None)"
proof (induction xs)
  case (Cons x xs)
  show ?case
  proof (cases "f x")
    case None
    with Cons obtain i where "i < length xs" "f (xs ! i) = Some y" "\<forall>j < i. f (xs ! j) = None" by auto
    with None show ?thesis by (intro exI [of _ "Suc i"]) (auto simp: less_Suc_eq_0_disj)
  next
    case (Some z)
    with Cons.prems show ?thesis by (intro exI [of _ 0]) simp
  qed
qed simp

lemma find_Some_in: "find P xs = Some x \<Longrightarrow> x \<in> set xs \<and> P x"
  by (auto simp: find_Some_iff)

lemma find_None_all: "find P xs = None \<longleftrightarrow> (\<forall>x\<in>set xs. \<not> P x)"
  by (auto simp: find_None_iff)

subsection \<open>JSON values\<close>

text \<open>\<open>serde_json::Value\<close>, with the numbers the modelled code stores.\<close>

datatype json = JNull | JBool bool | JNum nat | JStr string | JArr "json list" | JObj "(string \<times> json) list"

subsection \<open>Callers\<close>

text \<open>The identity a guest registered on its connection (\<^verbatim>\<open>philotic-client\<close>); its tool list plays no part here.\<close>

record GuestIdentity =
  gi_guest_id :: string
  gi_role :: string

end
