(* ===== verification/Tables.thy ===== *)
theory Tables
  imports Prelude
begin

section \<open>Keyed tables\<close>

text \<open>
  The keyed containers of the program: a SQLite table with a text primary key, listed in key
  order, and a \<open>HashMap\<close> with string keys. \<open>keyed_table\<close> is their contract and derives what
  clients need (the listing is determined by the contents); the ordered association list
  implements it. A \<open>HashMap\<close> iterates in no fixed order: where a source does, the model's order
  is the key order and the theorems speak about sets or lookups.
\<close>

subsection \<open>The contract\<close>

locale keyed_table =
  fixes get :: "'t \<Rightarrow> string \<Rightarrow> 'n option"
    and put :: "string \<Rightarrow> 'n \<Rightarrow> 't \<Rightarrow> 't"
    and del :: "string \<Rightarrow> 't \<Rightarrow> 't"
    and rows :: "'t \<Rightarrow> (string \<times> 'n) list"
    and wf :: "'t \<Rightarrow> bool"
  assumes get_put: "wf t \<Longrightarrow> get (put k n t) k' = (if k' = k then Some n else get t k')"
    and get_del: "wf t \<Longrightarrow> get (del k t) k' = (if k' = k then None else get t k')"
    and rows_get: "wf t \<Longrightarrow> (k, n) \<in> set (rows t) \<longleftrightarrow> get t k = Some n"
    and rows_ordered: "wf t \<Longrightarrow> sorted_wrt (<) (map fst (rows t))"
    and wf_put: "wf t \<Longrightarrow> wf (put k n t)"
    and wf_del: "wf t \<Longrightarrow> wf (del k t)"
begin

lemma rows_distinct: "wf t \<Longrightarrow> distinct (map fst (rows t))"
  using rows_ordered strict_sorted_iff by blast

text \<open>Two tables with the same lookups list the same rows: the listing is determined by the
  contents.\<close>

lemma rows_determined:
  assumes "wf t" "wf u" "\<And>k. get t k = get u k"
  shows "rows t = rows u"
proof (rule map_sorted_distinct_set_unique [where f = fst])
  show set: "set (rows t) = set (rows u)"
    using assms rows_get by auto
  have "inj_on fst (set (rows u))"
    using rows_distinct [OF assms(2)] by (simp add: distinct_map)
  then show "inj_on fst (set (rows t) \<union> set (rows u))" by (simp add: set)
  show "sorted (map fst (rows t))" "distinct (map fst (rows t))"
    "sorted (map fst (rows u))" "distinct (map fst (rows u))"
    using rows_ordered [OF assms(1)] rows_ordered [OF assms(2)] by (auto simp: strict_sorted_iff)
qed

lemma put_idem_rows: "wf t \<Longrightarrow> rows (put k n (put k m t)) = rows (put k n t)"
  by (rule rows_determined) (simp_all add: wf_put get_put)

lemma rows_put_set:
  "wf t \<Longrightarrow> set (rows (put k n t)) = insert (k, n) {(k', n'). (k', n') \<in> set (rows t) \<and> k' \<noteq> k}"
  by (auto simp: rows_get wf_put get_put split: if_splits)

end

subsection \<open>Ordered association lists\<close>

fun tbl_put :: "string \<Rightarrow> 'n \<Rightarrow> (string \<times> 'n) list \<Rightarrow> (string \<times> 'n) list" where
  "tbl_put k n [] = [(k, n)]"
| "tbl_put k n ((k', n') # t) =
     (if k = k' then (k, n) # t
      else if k < k' then (k, n) # (k', n') # t
      else (k', n') # tbl_put k n t)"

definition tbl_get :: "(string \<times> 'n) list \<Rightarrow> string \<Rightarrow> 'n option" where
  "tbl_get t k = map_of t k"

definition tbl_del :: "string \<Rightarrow> (string \<times> 'n) list \<Rightarrow> (string \<times> 'n) list" where
  "tbl_del k t = filter (\<lambda>r. fst r \<noteq> k) t"

definition tbl_wf :: "(string \<times> 'n) list \<Rightarrow> bool" where
  "tbl_wf t \<longleftrightarrow> sorted_wrt (<) (map fst t)"

lemma tbl_put_keys: "set (map fst (tbl_put k n t)) = insert k (set (map fst t))"
  by (induction k n t rule: tbl_put.induct) auto

lemma tbl_wf_put: "tbl_wf t \<Longrightarrow> tbl_wf (tbl_put k n t)"
proof (induction k n t rule: tbl_put.induct)
  case (2 k n k' n' t)
  then show ?case
    using tbl_put_keys [of k n t] by (fastforce simp: tbl_wf_def)
qed (simp add: tbl_wf_def)

lemma tbl_get_put: "tbl_get (tbl_put k n t) k' = (if k' = k then Some n else tbl_get t k')"
  by (induction k n t rule: tbl_put.induct) (auto simp: tbl_get_def)

lemma tbl_get_del: "tbl_get (tbl_del k t) k' = (if k' = k then None else tbl_get t k')"
  by (induction t) (auto simp: tbl_get_def tbl_del_def)

lemma tbl_wf_distinct: "tbl_wf t \<Longrightarrow> distinct (map fst t)"
  by (simp add: tbl_wf_def strict_sorted_iff)

interpretation tbl: keyed_table tbl_get tbl_put tbl_del "\<lambda>t. t" tbl_wf
proof
  fix t :: "(string \<times> 'n) list" and k k' :: string and n :: 'n
  show "tbl_get (tbl_put k n t) k' = (if k' = k then Some n else tbl_get t k')"
    by (rule tbl_get_put)
  show "tbl_get (tbl_del k t) k' = (if k' = k then None else tbl_get t k')"
    by (rule tbl_get_del)
  assume "tbl_wf t"
  then show "(k, n) \<in> set t \<longleftrightarrow> tbl_get t k = Some n" "sorted_wrt (<) (map fst t)"
    "tbl_wf (tbl_put k n t)" "tbl_wf (tbl_del k t)"
    using tbl_wf_put [of t k n] tbl_wf_distinct [of t]
    by (auto simp: tbl_get_def tbl_wf_def tbl_del_def sorted_wrt_map intro: sorted_wrt_filter)
qed

section \<open>Reading JSON objects\<close>

fun jget :: "json \<Rightarrow> string \<Rightarrow> json option" where
  "jget (JObj fs) k = tbl_get fs k"
| "jget _ k = None"

fun as_str :: "json \<Rightarrow> string option" where
  "as_str (JStr s) = Some s"
| "as_str _ = None"

end
