(* ===== verification/Autonomy.thy ===== *)
theory Autonomy
  imports Prelude
begin

section \<open>Autonomy grants: posture state machine, budgets, audit records\<close>

text \<open>
  Models \<^verbatim>\<open>crates/ansible-mesh-core/src/autonomy.rs\<close> and the envelope of
  \<^verbatim>\<open>crates/ansible-mesh-core/src/provenance.rs\<close>. A function that takes \<open>&mut AutonomyGrant\<close>
  returns the updated grant with its result; the clock and the environment reader are
  arguments, as in the source. The counters are \<open>u32\<close>/\<open>u64\<close>: \<open>grant_fits\<close> says a grant
  is a value of those types and every operation keeps it.
\<close>

subsection \<open>Lanes and the kill switch\<close>

datatype AutonomyLane = AutonomyLane (lane_str: string)

definition LANE_GRAPH_BRIDGE_EDGES :: string where "LANE_GRAPH_BRIDGE_EDGES = ''graph.bridge_edges''"
definition LANE_FLEET_HEAL_SLICES :: string where "LANE_FLEET_HEAL_SLICES = ''fleet.heal_slices''"
definition LANE_WORK_FILE_PROPOSALS :: string where "LANE_WORK_FILE_PROPOSALS = ''work.file_proposals''"
definition LANE_STEWARD_ACTIVE_CHECKINS :: string where
  "LANE_STEWARD_ACTIVE_CHECKINS = ''steward.active_checkins''"
definition LANE_WORK_EXECUTE_SLICES :: string where "LANE_WORK_EXECUTE_SLICES = ''work.execute_slices''"
definition LANE_MEMORY_HYGIENE :: string where "LANE_MEMORY_HYGIENE = ''memory.hygiene''"

definition KNOWN_LANES :: "string list" where
  "KNOWN_LANES =
    [LANE_GRAPH_BRIDGE_EDGES, LANE_FLEET_HEAL_SLICES, LANE_WORK_FILE_PROPOSALS,
     LANE_STEWARD_ACTIVE_CHECKINS, LANE_WORK_EXECUTE_SLICES, LANE_MEMORY_HYGIENE]"

definition AUTONOMY_KILL_SWITCH_ENV_PREFIX :: string where
  "AUTONOMY_KILL_SWITCH_ENV_PREFIX = ''PHILOTIC_AUTONOMY_DISABLE_''"

definition kill_switch_env_var :: "AutonomyLane \<Rightarrow> string" where
  "kill_switch_env_var lane =
     AUTONOMY_KILL_SWITCH_ENV_PREFIX
     @ map (\<lambda>c. if c = CHR ''.'' then CHR ''_'' else c) (to_ascii_uppercase (lane_str lane))"

definition lane_enabled :: "AutonomyLane \<Rightarrow> (string \<Rightarrow> string option) \<Rightarrow> bool" where
  "lane_enabled lane env =
     (case env (kill_switch_env_var lane) of
        None \<Rightarrow> True
      | Some value \<Rightarrow>
          (let v = to_ascii_lowercase (trim value)
           in v = [] \<or> v = ''0'' \<or> v = ''false''))"

subsection \<open>Posture\<close>

datatype AutonomyPosture = ProposalOnly | ConfirmFirst | AutoWithAudit

text \<open>The derived \<open>Ord\<close> of the enum: by autonomy level.\<close>

fun posture_level :: "AutonomyPosture \<Rightarrow> nat" where
  "posture_level ProposalOnly = 0"
| "posture_level ConfirmFirst = 1"
| "posture_level AutoWithAudit = 2"

lemma posture_level_inj: "posture_level p = posture_level q \<Longrightarrow> p = q"
  by (cases p; cases q) auto

instantiation AutonomyPosture :: linorder
begin

definition less_eq_AutonomyPosture :: "AutonomyPosture \<Rightarrow> AutonomyPosture \<Rightarrow> bool" where
  "less_eq_AutonomyPosture p q \<longleftrightarrow> posture_level p \<le> posture_level q"

definition less_AutonomyPosture :: "AutonomyPosture \<Rightarrow> AutonomyPosture \<Rightarrow> bool" where
  "less_AutonomyPosture p q \<longleftrightarrow> posture_level p < posture_level q"

instance
  by standard (auto simp: less_eq_AutonomyPosture_def less_AutonomyPosture_def
      intro: posture_level_inj)

end

fun promoted :: "AutonomyPosture \<Rightarrow> AutonomyPosture" where
  "promoted ProposalOnly = ConfirmFirst"
| "promoted ConfirmFirst = AutoWithAudit"
| "promoted AutoWithAudit = AutoWithAudit"

fun demoted :: "AutonomyPosture \<Rightarrow> AutonomyPosture" where
  "demoted AutoWithAudit = ConfirmFirst"
| "demoted ConfirmFirst = ProposalOnly"
| "demoted ProposalOnly = ProposalOnly"

lemma posture_level_promoted: "posture_level (promoted p) = min 2 (Suc (posture_level p))"
  by (cases p) auto

lemma posture_level_demoted: "posture_level (demoted p) = posture_level p - 1"
  by (cases p) auto

lemma posture_level_le: "posture_level p \<le> 2"
  by (cases p) auto

subsection \<open>Grant records\<close>

record AutonomyBudget =
  max_actions_per_day :: nat
  max_consecutive_failures :: nat

record AutonomyEarned =
  confirmed_good_outcomes :: nat
  required_for_promotion :: nat
  consecutive_failures :: nat

record AutonomyGrant =
  g_lane :: AutonomyLane
  g_posture :: AutonomyPosture
  g_budget :: AutonomyBudget
  g_earned :: AutonomyEarned
  frozen_until_operator_review :: bool
  actions_today :: nat
  action_day_utc :: nat
  g_updated_at :: nat

definition default_required_for_promotion :: nat where
  "default_required_for_promotion = 5"

definition AutonomyBudget_default :: AutonomyBudget where
  "AutonomyBudget_default = \<lparr>max_actions_per_day = 10, max_consecutive_failures = 3\<rparr>"

definition AutonomyEarned_default :: AutonomyEarned where
  "AutonomyEarned_default =
     \<lparr>confirmed_good_outcomes = 0,
      required_for_promotion = default_required_for_promotion,
      consecutive_failures = 0\<rparr>"

definition utc_day :: "nat \<Rightarrow> nat" where
  "utc_day now = now div 86400"

definition AutonomyGrant_new :: "AutonomyLane \<Rightarrow> nat \<Rightarrow> AutonomyGrant" where
  "AutonomyGrant_new lane now =
     \<lparr>g_lane = lane,
      g_posture = ProposalOnly,
      g_budget = AutonomyBudget_default,
      g_earned = AutonomyEarned_default,
      frozen_until_operator_review = False,
      actions_today = 0,
      action_day_utc = utc_day now,
      g_updated_at = now\<rparr>"

lemmas grant_defaults [model_defs] =
  AutonomyGrant_new_def AutonomyBudget_default_def AutonomyEarned_default_def
  default_required_for_promotion_def

subsection \<open>Posture state machine\<close>

datatype Outcome = ConfirmedGood | OperatorReversal | Failure

datatype Transition =
    NoChange
  | Promoted AutonomyPosture AutonomyPosture
  | Demoted AutonomyPosture AutonomyPosture
  | Frozen

definition promotion_eligible :: "AutonomyGrant \<Rightarrow> bool" where
  "promotion_eligible grant \<longleftrightarrow>
     \<not> frozen_until_operator_review grant
     \<and> g_posture grant \<noteq> AutoWithAudit
     \<and> confirmed_good_outcomes (g_earned grant) \<ge> required_for_promotion (g_earned grant)"

fun record_outcome :: "AutonomyGrant \<Rightarrow> Outcome \<Rightarrow> nat \<Rightarrow> AutonomyGrant \<times> Transition" where
  "record_outcome grant ConfirmedGood now =
     (let e = g_earned grant;
          g1 = grant\<lparr>g_updated_at := now,
                 g_earned := e\<lparr>consecutive_failures := 0,
                               confirmed_good_outcomes := sat_add32 (confirmed_good_outcomes e) 1\<rparr>\<rparr>
      in if promotion_eligible g1
         then (g1\<lparr>g_posture := promoted (g_posture g1),
                  g_earned := (g_earned g1)\<lparr>confirmed_good_outcomes := 0\<rparr>\<rparr>,
               Promoted (g_posture g1) (promoted (g_posture g1)))
         else (g1, NoChange))"
| "record_outcome grant OperatorReversal now =
     (let fr = g_posture grant;
          g1 = grant\<lparr>g_updated_at := now,
                 g_earned := (g_earned grant)\<lparr>confirmed_good_outcomes := 0\<rparr>,
                 g_posture := demoted fr\<rparr>
      in if g_posture g1 = fr then (g1, NoChange) else (g1, Demoted fr (g_posture g1)))"
| "record_outcome grant Failure now =
     (let e = g_earned grant;
          g1 = grant\<lparr>g_updated_at := now,
                 g_earned := e\<lparr>consecutive_failures := sat_add32 (consecutive_failures e) 1\<rparr>\<rparr>;
          ceiling_hit = consecutive_failures (g_earned g1) \<ge> max_consecutive_failures (g_budget g1)
      in if ceiling_hit \<and> \<not> frozen_until_operator_review g1
         then (g1\<lparr>frozen_until_operator_review := True\<rparr>, Frozen)
         else (g1, NoChange))"

definition try_consume_daily_action :: "AutonomyGrant \<Rightarrow> nat \<Rightarrow> AutonomyGrant \<times> bool" where
  "try_consume_daily_action grant now =
     (if frozen_until_operator_review grant then (grant, False)
      else
        (let today = utc_day now;
             g1 = (if action_day_utc grant \<noteq> today
                   then grant\<lparr>action_day_utc := today, actions_today := 0\<rparr> else grant)
         in if actions_today g1 \<ge> max_actions_per_day (g_budget g1) then (g1, False)
            else (g1\<lparr>actions_today := actions_today g1 + 1, g_updated_at := now\<rparr>, True)))"

text \<open>The operator action \<^verbatim>\<open>clear_autonomy_freeze\<close> of \<open>GraphDomain\<close>, on the grant itself.\<close>

definition clear_freeze :: "AutonomyGrant \<Rightarrow> nat \<Rightarrow> AutonomyGrant" where
  "clear_freeze grant now =
     grant\<lparr>frozen_until_operator_review := False,
           g_earned := (g_earned grant)\<lparr>consecutive_failures := 0\<rparr>,
           g_updated_at := now\<rparr>"

lemma clear_freeze_simps [simp]:
  "g_posture (clear_freeze g now) = g_posture g"
  "g_budget (clear_freeze g now) = g_budget g"
  "confirmed_good_outcomes (g_earned (clear_freeze g now)) = confirmed_good_outcomes (g_earned g)"
  "required_for_promotion (g_earned (clear_freeze g now)) = required_for_promotion (g_earned g)"
  "consecutive_failures (g_earned (clear_freeze g now)) = 0"
  "\<not> frozen_until_operator_review (clear_freeze g now)"
  "actions_today (clear_freeze g now) = actions_today g"
  "action_day_utc (clear_freeze g now) = action_day_utc g"
  by (simp_all add: clear_freeze_def)

subsection \<open>Provenance envelopes\<close>

datatype TrustTier = Observed | Inferred | Told

fun TrustTier_as_str :: "TrustTier \<Rightarrow> string" where
  "TrustTier_as_str Observed = ''observed''"
| "TrustTier_as_str Inferred = ''inferred''"
| "TrustTier_as_str Told = ''told''"

record ProvenanceEnvelope =
  pe_source :: string
  pe_author :: string
  pe_trust :: TrustTier
  pe_evidence :: "string list"
  pe_reversal :: "string option"

definition ProvenanceEnvelope_default :: ProvenanceEnvelope where
  "ProvenanceEnvelope_default =
     \<lparr>pe_source = [], pe_author = [], pe_trust = Inferred, pe_evidence = [], pe_reversal = None\<rparr>"

definition from_component :: "string \<Rightarrow> ProvenanceEnvelope" where
  "from_component component =
     \<lparr>pe_source = [], pe_author = component, pe_trust = Inferred, pe_evidence = [],
      pe_reversal = None\<rparr>"

definition from_agent :: "string \<Rightarrow> string option \<Rightarrow> ProvenanceEnvelope" where
  "from_agent agent_id role =
     \<lparr>pe_source = [],
      pe_author = (case role of
                     Some r \<Rightarrow> if r \<noteq> [] then agent_id @ ''/'' @ r else agent_id
                   | None \<Rightarrow> agent_id),
      pe_trust = Inferred, pe_evidence = [], pe_reversal = None\<rparr>"

definition with_source :: "ProvenanceEnvelope \<Rightarrow> string \<Rightarrow> ProvenanceEnvelope" where
  "with_source e s = e\<lparr>pe_source := s\<rparr>"

definition with_trust :: "ProvenanceEnvelope \<Rightarrow> TrustTier \<Rightarrow> ProvenanceEnvelope" where
  "with_trust e t = e\<lparr>pe_trust := t\<rparr>"

definition with_evidence :: "ProvenanceEnvelope \<Rightarrow> string list \<Rightarrow> ProvenanceEnvelope" where
  "with_evidence e ps = e\<lparr>pe_evidence := ps\<rparr>"

definition push_evidence :: "ProvenanceEnvelope \<Rightarrow> string \<Rightarrow> ProvenanceEnvelope" where
  "push_evidence e p = e\<lparr>pe_evidence := pe_evidence e @ [p]\<rparr>"

definition with_reversal :: "ProvenanceEnvelope \<Rightarrow> string \<Rightarrow> ProvenanceEnvelope" where
  "with_reversal e r = e\<lparr>pe_reversal := Some r\<rparr>"

definition is_empty_shell :: "ProvenanceEnvelope \<Rightarrow> bool" where
  "is_empty_shell e \<longleftrightarrow>
     pe_source e = [] \<and> pe_author e = [] \<and> pe_evidence e = [] \<and> pe_reversal e = None"

subsection \<open>Audit records\<close>

definition MAX_AUDIT_EVIDENCE_BYTES :: nat where
  "MAX_AUDIT_EVIDENCE_BYTES = 4096"

definition bound_evidence :: "string \<Rightarrow> string" where
  "bound_evidence evidence =
     (if length evidence \<le> MAX_AUDIT_EVIDENCE_BYTES then evidence
      else take (floor_boundary evidence MAX_AUDIT_EVIDENCE_BYTES) evidence @ trunc_marker)"

datatype AuditOutcome = AO_Pending | AO_ConfirmedGood | AO_Reversed | AO_Neutral

record AutonomyAuditRecord =
  audit_id :: string
  a_lane :: AutonomyLane
  action_summary :: string
  a_evidence :: string
  reversal_hint :: string
  posture_at_action :: AutonomyPosture
  a_outcome :: AuditOutcome
  a_created_at :: nat
  a_updated_at :: nat
  a_provenance :: "ProvenanceEnvelope option"

definition AutonomyAuditRecord_new ::
  "string \<Rightarrow> AutonomyLane \<Rightarrow> string \<Rightarrow> string \<Rightarrow> string \<Rightarrow> AutonomyPosture \<Rightarrow> nat \<Rightarrow> AutonomyAuditRecord"
where
  "AutonomyAuditRecord_new aid lane summary evidence hint posture now =
     \<lparr>audit_id = aid, a_lane = lane, action_summary = summary,
      a_evidence = bound_evidence evidence, reversal_hint = hint,
      posture_at_action = posture, a_outcome = AO_Pending,
      a_created_at = now, a_updated_at = now, a_provenance = None\<rparr>"

definition with_provenance :: "AutonomyAuditRecord \<Rightarrow> ProvenanceEnvelope \<Rightarrow> AutonomyAuditRecord" where
  "with_provenance r p = r\<lparr>a_provenance := Some p\<rparr>"

subsection \<open>Timeout-to-Neutral selection\<close>

definition ENV_NEUTRAL_AFTER_DAYS :: string where
  "ENV_NEUTRAL_AFTER_DAYS = ''PHILOTIC_AUTONOMY_NEUTRAL_AFTER_DAYS''"

definition DEFAULT_NEUTRAL_AFTER_DAYS :: nat where
  "DEFAULT_NEUTRAL_AFTER_DAYS = 7"

definition neutral_after_days_from_env :: "(string \<Rightarrow> string option) \<Rightarrow> nat" where
  "neutral_after_days_from_env env =
     (case Option.bind (env ENV_NEUTRAL_AFTER_DAYS) (\<lambda>v. parse_unsigned u64_max (trim v)) of
        Some v \<Rightarrow> if v > 0 then v else DEFAULT_NEUTRAL_AFTER_DAYS
      | None \<Rightarrow> DEFAULT_NEUTRAL_AFTER_DAYS)"

definition is_due_for_neutral :: "AutonomyAuditRecord \<Rightarrow> nat \<Rightarrow> nat \<Rightarrow> bool" where
  "is_due_for_neutral r now window_secs \<longleftrightarrow>
     a_outcome r = AO_Pending \<and> now - a_created_at r \<ge> window_secs"

definition select_due_for_neutral ::
  "AutonomyAuditRecord list \<Rightarrow> nat \<Rightarrow> nat \<Rightarrow> AutonomyAuditRecord list" where
  "select_due_for_neutral rs now window_secs = filter (\<lambda>r. is_due_for_neutral r now window_secs) rs"

definition pending_outcome_notice :: "string \<Rightarrow> string \<Rightarrow> string \<Rightarrow> string" where
  "pending_outcome_notice aid lane summary =
     ''autonomy outcome pending review: lane='' @ lane @ '' audit_id='' @ aid @ '' ''
     @ [CHR 0xE2, CHR 0x80, CHR 0x94] @ '' '' @ summary
     @ ''. Stamp it: `phil autonomy stamp '' @ aid @ '' confirmed_good|reversed|neutral`''"

subsection \<open>Trust-ledger status report\<close>

record LaneStatusReport =
  lsr_lane :: AutonomyLane
  lsr_posture :: AutonomyPosture
  lsr_frozen :: bool
  lsr_actions_today :: nat
  lsr_max_actions_per_day :: nat
  lsr_consecutive_failures :: nat
  lsr_max_consecutive_failures :: nat
  lsr_confirmed_good_streak :: nat
  lsr_required_for_promotion :: nat
  lsr_promotion_eligible :: bool

definition lane_status_report :: "AutonomyGrant \<Rightarrow> nat \<Rightarrow> LaneStatusReport" where
  "lane_status_report grant now =
     \<lparr>lsr_lane = g_lane grant,
      lsr_posture = g_posture grant,
      lsr_frozen = frozen_until_operator_review grant,
      lsr_actions_today = (if action_day_utc grant = utc_day now then actions_today grant else 0),
      lsr_max_actions_per_day = max_actions_per_day (g_budget grant),
      lsr_consecutive_failures = consecutive_failures (g_earned grant),
      lsr_max_consecutive_failures = max_consecutive_failures (g_budget grant),
      lsr_confirmed_good_streak = confirmed_good_outcomes (g_earned grant),
      lsr_required_for_promotion = required_for_promotion (g_earned grant),
      lsr_promotion_eligible = promotion_eligible grant\<rparr>"

section \<open>The life of a grant\<close>

text \<open>
  The ways a stored grant changes: an outcome is recorded, an action asks for a unit of the
  daily budget, the operator reviews a freeze. Each step logs an event with its clock
  reading; \<open>grant_run\<close> is the reflexive-transitive closure with its log.
\<close>

datatype grant_event =
    EvOutcome Outcome (ev_time: nat)
  | EvConsumed (ev_time: nat)
  | EvRefused (ev_time: nat)
  | EvReviewed (ev_time: nat)

inductive grant_run :: "AutonomyGrant \<Rightarrow> grant_event list \<Rightarrow> AutonomyGrant \<Rightarrow> bool" where
  run_start: "grant_run g [] g"
| run_outcome: "grant_run g es g1 \<Longrightarrow> record_outcome g1 out now = (g2, tr)
    \<Longrightarrow> grant_run g (es @ [EvOutcome out now]) g2"
| run_consume: "grant_run g es g1 \<Longrightarrow> try_consume_daily_action g1 now = (g2, ok)
    \<Longrightarrow> grant_run g (es @ [if ok then EvConsumed now else EvRefused now]) g2"
| run_review: "grant_run g es g1 \<Longrightarrow> grant_run g (es @ [EvReviewed now]) (clear_freeze g1 now)"

lemma grant_run_outcome_fst:
  "grant_run g es g1 \<Longrightarrow> grant_run g (es @ [EvOutcome out now]) (fst (record_outcome g1 out now))"
  by (metis prod.collapse run_outcome)

subsection \<open>Facts of the single operations\<close>

lemma record_outcome_keeps:
  assumes "record_outcome g out now = (g', tr)"
  shows "g_lane g' = g_lane g" "g_budget g' = g_budget g"
    "actions_today g' = actions_today g" "action_day_utc g' = action_day_utc g"
    "required_for_promotion (g_earned g') = required_for_promotion (g_earned g)"
  using assms by (cases out; auto simp: Let_def split: if_splits)+

lemma consume_keeps:
  assumes "try_consume_daily_action g now = (g', ok)"
  shows "g_lane g' = g_lane g" "g_budget g' = g_budget g" "g_earned g' = g_earned g"
    "g_posture g' = g_posture g"
    "frozen_until_operator_review g' = frozen_until_operator_review g"
    "ok \<Longrightarrow> \<not> frozen_until_operator_review g"
  using assms by (auto simp: try_consume_daily_action_def Let_def split: if_splits)

lemma record_outcome_posture_bound:
  assumes "record_outcome g out now = (g', tr)"
  shows "required_for_promotion (g_earned g) * posture_level (g_posture g')
           + confirmed_good_outcomes (g_earned g')
         \<le> required_for_promotion (g_earned g) * posture_level (g_posture g)
           + confirmed_good_outcomes (g_earned g) + (if out = ConfirmedGood then 1 else 0)"
proof (cases out)
  case ConfirmedGood
  have "sat_add32 (confirmed_good_outcomes (g_earned g)) 1
      \<le> Suc (confirmed_good_outcomes (g_earned g))"
    by (rule sat_add32_one_le)
  then show ?thesis
    using assms ConfirmedGood
    by (cases "g_posture g") (auto simp: Let_def promotion_eligible_def split: if_splits)
next
  case OperatorReversal
  then show ?thesis
    using assms
    by (auto simp: Let_def posture_level_demoted intro!: trans_le_add1 split: if_splits)
next
  case Failure
  then show ?thesis
    using assms by (auto simp: Let_def split: if_splits)
qed

lemma record_outcome_eligible:
  assumes "record_outcome g out now = (g', tr)" "0 < required_for_promotion (g_earned g)"
    and "promotion_eligible g'"
  shows "promotion_eligible g \<and> out = Failure"
  using assms
  by (cases out) (auto simp: Let_def promotion_eligible_def split: if_splits)

lemma record_outcome_frozen:
  assumes "record_outcome g out now = (g', tr)" "frozen_until_operator_review g"
  shows "frozen_until_operator_review g' \<and> posture_level (g_posture g') \<le> posture_level (g_posture g)"
  using assms
  by (cases out) (auto simp: Let_def promotion_eligible_def posture_level_demoted split: if_splits)

lemma consume_frozen:
  "frozen_until_operator_review g \<Longrightarrow> try_consume_daily_action g now = (g, False)"
  by (simp add: try_consume_daily_action_def)

lemma grant_run_keeps:
  "grant_run g es g' \<Longrightarrow> g_lane g' = g_lane g \<and> g_budget g' = g_budget g
     \<and> required_for_promotion (g_earned g') = required_for_promotion (g_earned g)"
  by (induction rule: grant_run.induct)
    (auto dest: record_outcome_keeps consume_keeps simp: clear_freeze_def)

subsection \<open>The grant stays a value of its machine types\<close>

definition grant_fits :: "AutonomyGrant \<Rightarrow> bool" where
  "grant_fits g \<longleftrightarrow>
     max_actions_per_day (g_budget g) \<le> u32_max \<and> max_consecutive_failures (g_budget g) \<le> u32_max
     \<and> confirmed_good_outcomes (g_earned g) \<le> u32_max
     \<and> required_for_promotion (g_earned g) \<le> u32_max
     \<and> consecutive_failures (g_earned g) \<le> u32_max \<and> actions_today g \<le> u32_max
     \<and> action_day_utc g \<le> u64_max \<and> g_updated_at g \<le> u64_max"

lemma grant_fits_new [inv_intros]: "now \<le> u64_max \<Longrightarrow> grant_fits (AutonomyGrant_new lane now)"
  by (simp add: grant_fits_def model_defs utc_day_def div_le_dividend [THEN order_trans])

lemma grant_fits_record_outcome [inv_intros]:
  "grant_fits g \<Longrightarrow> now \<le> u64_max \<Longrightarrow> grant_fits (fst (record_outcome g out now))"
  by (cases out) (auto simp: grant_fits_def Let_def)

lemma grant_fits_consume [inv_intros]:
  "grant_fits g \<Longrightarrow> now \<le> u64_max \<Longrightarrow> grant_fits (fst (try_consume_daily_action g now))"
  by (auto simp: grant_fits_def try_consume_daily_action_def Let_def utc_day_def
      div_le_dividend [THEN order_trans])

lemma grant_fits_clear_freeze [inv_intros]:
  "grant_fits g \<Longrightarrow> now \<le> u64_max \<Longrightarrow> grant_fits (clear_freeze g now)"
  by (simp add: grant_fits_def clear_freeze_def)

lemma grant_fits_run:
  assumes "grant_run g es g'" "grant_fits g" "\<forall>e\<in>set es. ev_time e \<le> u64_max"
  shows "grant_fits g'"
  using assms
proof (induction rule: grant_run.induct)
  case (run_outcome g es g1 out now g2 tr)
  then show ?case using grant_fits_record_outcome [of g1 now out] by simp
next
  case (run_consume g es g1 now g2 ok)
  then show ?case using grant_fits_consume [of g1 now] by (auto split: if_splits)
qed (auto intro: inv_intros)

subsection \<open>Trust is earned\<close>

definition good_count :: "grant_event list \<Rightarrow> nat" where
  "good_count es = length (filter (\<lambda>e. case e of EvOutcome ConfirmedGood _ \<Rightarrow> True | _ \<Rightarrow> False) es)"

lemma good_count_simps [simp]:
  "good_count [] = 0"
  "good_count (es @ [EvOutcome out t]) = good_count es + (if out = ConfirmedGood then 1 else 0)"
  "good_count (es @ [EvConsumed t]) = good_count es"
  "good_count (es @ [EvRefused t]) = good_count es"
  "good_count (es @ [EvReviewed t]) = good_count es"
  by (auto simp: good_count_def split: Outcome.splits)

text \<open>C4. Whatever the order in which outcomes are recorded, actions consume budget and the
  operator reviews freezes, the autonomy a lane holds is paid for by confirmed outcomes: each
  posture level gained costs \<open>required_for_promotion\<close> operator-confirmed good outcomes, and the
  streak shown by the grant counts confirmations not yet spent.\<close>

theorem posture_is_earned:
  assumes "grant_run g es g'"
  shows "required_for_promotion (g_earned g) * posture_level (g_posture g')
           + confirmed_good_outcomes (g_earned g')
         \<le> required_for_promotion (g_earned g) * posture_level (g_posture g)
           + confirmed_good_outcomes (g_earned g) + good_count es"
  using assms
proof (induction rule: grant_run.induct)
  case (run_outcome g es g1 out now g2 tr)
  then show ?case
    using record_outcome_posture_bound [of g1 out now g2 tr] grant_run_keeps [of g es g1] by auto
next
  case (run_consume g es g1 now g2 ok)
  then show ?case using consume_keeps(3,4) [of g1 now g2 ok] by auto
qed auto

lemma AutonomyGrant_new_simps [simp]:
  "required_for_promotion (g_earned (AutonomyGrant_new lane now)) = 5"
  "confirmed_good_outcomes (g_earned (AutonomyGrant_new lane now)) = 0"
  "g_posture (AutonomyGrant_new lane now) = ProposalOnly"
  "\<not> frozen_until_operator_review (AutonomyGrant_new lane now)"
  by (simp_all add: model_defs)

theorem posture_is_earned_witness:
  "let g = AutonomyGrant_new (AutonomyLane ''memory.hygiene'') 0;
       g' = fst (record_outcome g ConfirmedGood 1); es = [] @ [EvOutcome ConfirmedGood 1]
   in grant_run g es g'
      \<and> 5 * posture_level (g_posture g') + confirmed_good_outcomes (g_earned g') \<le> good_count es"
proof -
  let ?g = "AutonomyGrant_new (AutonomyLane ''memory.hygiene'') 0"
  have run: "grant_run ?g ([] @ [EvOutcome ConfirmedGood 1]) (fst (record_outcome ?g ConfirmedGood 1))"
    by (rule grant_run_outcome_fst [OF run_start])
  from posture_is_earned [OF this] run show ?thesis
    unfolding Let_def by (simp del: record_outcome.simps append.simps)
qed

text \<open>What one recorded outcome may do to a grant. A confirmed outcome moves the posture up
  exactly when the updated streak meets \<open>promotion_eligible\<close>, by one level, and then restarts the
  streak; an operator reversal moves it down exactly one level (never below the lowest) and
  restarts the streak; a failure never moves it, and freezes the lane exactly when the failure
  streak reaches the ceiling of a lane that is not frozen. The returned transition is the change
  made, and the daily budget is never touched.\<close>

theorem record_outcome_contract:
  "let good = fst (record_outcome g ConfirmedGood now);
       rever = fst (record_outcome g OperatorReversal now);
       fail = fst (record_outcome g Failure now);
       up = (\<not> frozen_until_operator_review g \<and> g_posture g < AutoWithAudit
             \<and> required_for_promotion (g_earned g)
               \<le> sat_add32 (confirmed_good_outcomes (g_earned g)) 1);
       hit = (\<not> frozen_until_operator_review g
              \<and> max_consecutive_failures (g_budget g)
                \<le> sat_add32 (consecutive_failures (g_earned g)) 1)
   in posture_level (g_posture good) = posture_level (g_posture g) + (if up then 1 else 0)
     \<and> confirmed_good_outcomes (g_earned good)
         = (if up then 0 else sat_add32 (confirmed_good_outcomes (g_earned g)) 1)
     \<and> consecutive_failures (g_earned good) = 0
     \<and> snd (record_outcome g ConfirmedGood now)
         = (if up then Promoted (g_posture g) (g_posture good) else NoChange)
     \<and> posture_level (g_posture rever) = posture_level (g_posture g) - 1
     \<and> confirmed_good_outcomes (g_earned rever) = 0
     \<and> snd (record_outcome g OperatorReversal now)
         = (if g_posture g = ProposalOnly then NoChange else Demoted (g_posture g) (g_posture rever))
     \<and> g_posture fail = g_posture g
     \<and> frozen_until_operator_review fail = (frozen_until_operator_review g \<or> hit)
     \<and> snd (record_outcome g Failure now) = (if hit then Frozen else NoChange)
     \<and> map (\<lambda>h. (actions_today h, action_day_utc h, g_budget h, g_updated_at h)) [good, rever, fail]
         = replicate 3 (actions_today g, action_day_utc g, g_budget g, now)"
proof -
  have lvl: "(g_posture g < AutoWithAudit) = (g_posture g \<noteq> AutoWithAudit)"
    by (cases "g_posture g") (simp_all add: less_AutonomyPosture_def)
  have dem: "(demoted (g_posture g) = g_posture g) = (g_posture g = ProposalOnly)"
    by (cases "g_posture g") simp_all
  have pro: "g_posture g \<noteq> AutoWithAudit
      \<Longrightarrow> posture_level (promoted (g_posture g)) = Suc (posture_level (g_posture g))"
    by (cases "g_posture g") simp_all
  show ?thesis
    by (simp add: Let_def promotion_eligible_def lvl dem pro posture_level_demoted numeral_3_eq_3)
qed

subsection \<open>The daily budget\<close>

definition consumed_on :: "nat \<Rightarrow> grant_event list \<Rightarrow> nat" where
  "consumed_on d es =
     length (filter (\<lambda>e. case e of EvConsumed t \<Rightarrow> utc_day t = d | _ \<Rightarrow> False) es)"

lemma consumed_on_simps [simp]:
  "consumed_on d [] = 0"
  "consumed_on d (es @ [EvConsumed t]) = consumed_on d es + (if utc_day t = d then 1 else 0)"
  "consumed_on d (es @ [EvRefused t]) = consumed_on d es"
  "consumed_on d (es @ [EvOutcome out t]) = consumed_on d es"
  "consumed_on d (es @ [EvReviewed t]) = consumed_on d es"
  by (auto simp: consumed_on_def)

text \<open>The counter counts the current day's actions, no later day has any, and every day is
  within the ceiling.\<close>

definition budget_inv :: "nat \<Rightarrow> grant_event list \<Rightarrow> AutonomyGrant \<Rightarrow> bool" where
  "budget_inv t es g \<longleftrightarrow>
     action_day_utc g \<le> utc_day t
     \<and> consumed_on (action_day_utc g) es \<le> actions_today g
     \<and> (\<forall>d > action_day_utc g. consumed_on d es = 0)
     \<and> (\<forall>d. consumed_on d es \<le> max_actions_per_day (g_budget g))"

lemma utc_day_mono: "s \<le> t \<Longrightarrow> utc_day s \<le> utc_day t"
  by (simp add: utc_day_def div_le_mono)

lemma budget_inv_consume:
  assumes "budget_inv s es g" "s \<le> now" "try_consume_daily_action g now = (g', ok)"
  shows "budget_inv now (es @ [if ok then EvConsumed now else EvRefused now]) g'"
proof (cases "frozen_until_operator_review g")
  case True
  then show ?thesis
    using assms utc_day_mono [OF assms(2)] by (auto simp: consume_frozen budget_inv_def)
next
  case False
  define base where "base = (if action_day_utc g = utc_day now then actions_today g else 0)"
  have day: "action_day_utc g \<le> utc_day now"
    using assms(1) utc_day_mono [OF assms(2)] by (auto simp: budget_inv_def)
  have base: "consumed_on (utc_day now) es \<le> base" "\<forall>d > utc_day now. consumed_on d es = 0"
    "\<forall>d. consumed_on d es \<le> max_actions_per_day (g_budget g)"
    using assms(1) day by (auto simp: budget_inv_def base_def)
  have g': "action_day_utc g' = utc_day now" "g_budget g' = g_budget g"
    "ok = (base < max_actions_per_day (g_budget g))" "actions_today g' = base + (if ok then 1 else 0)"
    using assms(3) False by (auto simp: try_consume_daily_action_def Let_def base_def split: if_splits)
  show ?thesis
    using base g' by (cases ok) (auto simp: budget_inv_def)
qed

definition last_time :: "nat \<Rightarrow> grant_event list \<Rightarrow> nat" where
  "last_time t0 es = (if es = [] then t0 else ev_time (last es))"

lemma budget_inv_run:
  assumes "grant_run g es g'" "budget_inv t0 [] g" "sorted (t0 # map ev_time es)"
  shows "budget_inv (last_time t0 es) es g'"
  using assms
proof (induction rule: grant_run.induct)
  case (run_start g)
  then show ?case by (simp add: last_time_def)
next
  case (run_outcome g es g1 out now g2 tr)
  then have "budget_inv (last_time t0 es) es g1" "last_time t0 es \<le> now"
    by (auto simp: last_time_def sorted_append)
  then show ?case
    using record_outcome_keeps [OF run_outcome.hyps(2)] utc_day_mono [of "last_time t0 es" now]
    by (auto simp: budget_inv_def last_time_def)
next
  case (run_consume g es g1 now g2 ok)
  then have "budget_inv (last_time t0 es) es g1" "last_time t0 es \<le> now"
    by (auto simp: last_time_def sorted_append split: if_splits)
  from budget_inv_consume [OF this run_consume.hyps(2)] show ?case
    by (simp add: last_time_def split: if_splits)
next
  case (run_review g es g1 now)
  then have "budget_inv (last_time t0 es) es g1" "last_time t0 es \<le> now"
    by (auto simp: last_time_def sorted_append)
  then show ?case
    using utc_day_mono [of "last_time t0 es" now] by (auto simp: budget_inv_def last_time_def)
qed

text \<open>C24. With a clock that does not run backwards, no interleaving of consults, recorded
  outcomes and operator reviews lets a new lane take more than \<open>max_actions_per_day\<close> actions on
  one UTC day; the rollover at midnight never hands a day's budget out twice.\<close>

theorem daily_budget_holds:
  assumes "grant_run (AutonomyGrant_new lane t0) es g" "sorted (t0 # map ev_time es)"
  shows "consumed_on d es \<le> max_actions_per_day AutonomyBudget_default"
proof -
  have "budget_inv t0 [] (AutonomyGrant_new lane t0)"
    by (simp add: budget_inv_def model_defs)
  from budget_inv_run [OF assms(1) this assms(2)] grant_run_keeps [OF assms(1)]
  show ?thesis by (simp add: budget_inv_def AutonomyGrant_new_def)
qed

lemma grant_run_new_consume1:
  "grant_run (AutonomyGrant_new lane 0) [EvConsumed 5]
     (fst (try_consume_daily_action (AutonomyGrant_new lane 0) 5))"
proof -
  have "try_consume_daily_action (AutonomyGrant_new lane 0) 5
      = (fst (try_consume_daily_action (AutonomyGrant_new lane 0) 5), True)"
    by (simp add: try_consume_daily_action_def model_defs utc_day_def)
  from grant_run.run_consume [OF grant_run.run_start this] show ?thesis by simp
qed

theorem daily_budget_holds_witness:
  "consumed_on 0 [EvConsumed 5] = 1
     \<and> consumed_on 0 [EvConsumed 5] \<le> max_actions_per_day AutonomyBudget_default"
  using daily_budget_holds [OF grant_run_new_consume1, of 0]
  by (simp add: consumed_on_def utc_day_def)

subsection \<open>The failure freeze\<close>

definition failure_count :: "grant_event list \<Rightarrow> nat" where
  "failure_count es = length (filter (\<lambda>e. case e of EvOutcome Failure _ \<Rightarrow> True | _ \<Rightarrow> False) es)"

fun is_good_event :: "grant_event \<Rightarrow> bool" where
  "is_good_event (EvOutcome out t) = (out = ConfirmedGood)"
| "is_good_event _ = False"

fun is_review_event :: "grant_event \<Rightarrow> bool" where
  "is_review_event (EvReviewed t) = True"
| "is_review_event _ = False"

fun is_consumed_event :: "grant_event \<Rightarrow> bool" where
  "is_consumed_event (EvConsumed t) = True"
| "is_consumed_event _ = False"

lemma frozen_run:
  assumes "grant_run g es g'" "frozen_until_operator_review g" "\<not> list_ex is_review_event es"
  shows "frozen_until_operator_review g' \<and> \<not> list_ex is_consumed_event es
     \<and> posture_level (g_posture g') \<le> posture_level (g_posture g)"
  using assms
proof (induction rule: grant_run.induct)
  case (run_outcome g es g1 out now g2 tr)
  then have "frozen_until_operator_review g1" "\<not> list_ex is_consumed_event es"
    "posture_level (g_posture g1) \<le> posture_level (g_posture g)" by auto
  then show ?case
    using record_outcome_frozen [OF run_outcome.hyps(2)] by auto
next
  case (run_consume g es g1 now g2 ok)
  then have "frozen_until_operator_review g1" "\<not> list_ex is_consumed_event es"
    "posture_level (g_posture g1) \<le> posture_level (g_posture g)" by auto
  then show ?case
    using run_consume.hyps(2) by (auto simp: consume_frozen)
qed auto

lemma failures_accumulate:
  assumes "grant_run g es g'" "\<not> list_ex is_good_event es" "\<not> list_ex is_review_event es"
  shows "frozen_until_operator_review g'
     \<or> (\<not> frozen_until_operator_review g
        \<and> (failure_count es = 0 \<or> consecutive_failures (g_earned g') < max_consecutive_failures (g_budget g))
        \<and> consecutive_failures (g_earned g')
           \<ge> min u32_max (consecutive_failures (g_earned g) + failure_count es))"
  using assms
proof (induction rule: grant_run.induct)
  case (run_outcome g es g1 out now g2 tr)
  then have IH: "frozen_until_operator_review g1
     \<or> (\<not> frozen_until_operator_review g
        \<and> (failure_count es = 0 \<or> consecutive_failures (g_earned g1) < max_consecutive_failures (g_budget g))
        \<and> consecutive_failures (g_earned g1)
           \<ge> min u32_max (consecutive_failures (g_earned g) + failure_count es))"
    by auto
  show ?case
  proof (cases "frozen_until_operator_review g1")
    case True
    then show ?thesis using record_outcome_frozen [OF run_outcome.hyps(2)] by blast
  next
    case False
    with IH run_outcome.hyps run_outcome.prems grant_run_keeps [OF run_outcome.hyps(1)]
    show ?thesis
      by (cases out)
        (auto simp: Let_def failure_count_def sat_add32_def split: if_splits)
  qed
next
  case (run_consume g es g1 now g2 ok)
  then show ?case
    using consume_keeps(3,5) [OF run_consume.hyps(2)]
    by (auto simp: failure_count_def)
qed (auto simp: failure_count_def)

text \<open>\<open>max_consecutive_failures\<close> failures with no confirmed outcome and no operator review
  among them freeze the lane, whatever else happens in between; and a frozen lane takes no
  action and gains no posture level until an operator review clears the freeze, however the
  following outcomes turn out.\<close>

theorem failure_freeze:
  assumes "grant_run g es g1" "\<not> list_ex is_good_event es" "\<not> list_ex is_review_event es"
    and "max_consecutive_failures (g_budget g) \<le> failure_count es"
    and "0 < failure_count es" "grant_fits g"
    and "grant_run g1 es' g2" "\<not> list_ex is_review_event es'"
  shows "frozen_until_operator_review g1 \<and> frozen_until_operator_review g2
     \<and> \<not> list_ex is_consumed_event es' \<and> posture_level (g_posture g2) \<le> posture_level (g_posture g1)"
proof -
  have "max_consecutive_failures (g_budget g) \<le> u32_max"
    using assms(6) by (simp add: grant_fits_def)
  with failures_accumulate [OF assms(1-3)] assms(4,5) have "frozen_until_operator_review g1" by auto
  with frozen_run [OF assms(7) this assms(8)] show ?thesis by blast
qed

lemma three_failures:
  "grant_run g [EvOutcome Failure 1, EvOutcome Failure 2, EvOutcome Failure 3]
     (fst (record_outcome (fst (record_outcome (fst (record_outcome g Failure 1)) Failure 2)) Failure 3))"
  using grant_run_outcome_fst [OF grant_run_outcome_fst [OF grant_run_outcome_fst [OF run_start]],
      of g Failure 1 Failure 2 Failure 3] by simp

lemma refused_when_frozen:
  "frozen_until_operator_review g \<Longrightarrow> grant_run g [EvRefused t] g"
  using run_consume [OF run_start consume_frozen, of g t] by simp

theorem failure_freeze_witness:
  "let g = AutonomyGrant_new (AutonomyLane ''fleet.heal_slices'') 0;
       es = [EvOutcome Failure 1, EvOutcome Failure 2, EvOutcome Failure 3];
       g1 = fst (record_outcome (fst (record_outcome (fst (record_outcome g Failure 1)) Failure 2)) Failure 3)
   in grant_run g es g1 \<and> grant_run g1 [EvRefused 4] g1
      \<and> frozen_until_operator_review g1 \<and> \<not> list_ex is_consumed_event [EvRefused 4]"
proof -
  let ?g = "AutonomyGrant_new (AutonomyLane ''fleet.heal_slices'') 0"
  have fr: "frozen_until_operator_review
     (fst (record_outcome (fst (record_outcome (fst (record_outcome ?g Failure 1)) Failure 2)) Failure 3))"
    by (simp add: model_defs sat_add32_def Let_def)
  have "grant_fits ?g" "max_consecutive_failures (g_budget ?g) = 3"
    by (simp_all add: grant_fits_new) (simp add: model_defs)
  then show ?thesis
    using failure_freeze [OF three_failures _ _ _ _ _ refused_when_frozen [OF fr, of 4]]
      three_failures [of ?g] refused_when_frozen [OF fr, of 4]
    by (simp add: Let_def failure_count_def del: record_outcome.simps)
qed

subsection \<open>Promotion eligibility between outcomes\<close>

lemma grant_run_eligible:
  assumes "grant_run g es g'" "0 < required_for_promotion (g_earned g)" "\<not> promotion_eligible g"
    and "\<not> list_ex is_review_event es"
  shows "\<not> promotion_eligible g'"
  using assms
proof (induction rule: grant_run.induct)
  case (run_outcome g es g1 out now g2 tr)
  then have "\<not> promotion_eligible g1" "0 < required_for_promotion (g_earned g1)"
    using grant_run_keeps [OF run_outcome.hyps(1)] by auto
  then show ?case using record_outcome_eligible [OF run_outcome.hyps(2)] by blast
next
  case (run_consume g es g1 now g2 ok)
  then show ?case
    using consume_keeps(3-5) [OF run_consume.hyps(2)] by (auto simp: promotion_eligible_def)
qed auto

text \<open>The status report shows what the state machine acts on: its action count is the one
  the next consult would start from, so the report's numbers decide that consult; and a lane
  that was never reviewed out of a freeze is never reported as eligible for promotion, because
  reaching the threshold promotes at once and a freeze suppresses eligibility.\<close>

theorem status_report_agrees:
  assumes "grant_run (AutonomyGrant_new lane t0) es g"
  shows "snd (try_consume_daily_action g now)
          = (\<not> lsr_frozen (lane_status_report g now)
             \<and> lsr_actions_today (lane_status_report g now)
               < lsr_max_actions_per_day (lane_status_report g now))
     \<and> (lsr_promotion_eligible (lane_status_report g now) \<longrightarrow> list_ex is_review_event es)"
  using grant_run_eligible [OF assms]
  by (auto simp: try_consume_daily_action_def lane_status_report_def promotion_eligible_def Let_def)

theorem status_report_agrees_witness:
  "\<not> lsr_promotion_eligible (lane_status_report (AutonomyGrant_new (AutonomyLane ''x'') 0) 7)
   \<and> snd (try_consume_daily_action (AutonomyGrant_new (AutonomyLane ''x'') 0) 7)"
  using status_report_agrees [OF run_start, of "AutonomyLane ''x''" 0 7]
  by (simp add: lane_status_report_def model_defs)

subsection \<open>The kill switch\<close>

text \<open>The environment kill switch of a known lane disables that lane and no other known
  lane, whatever else the environment holds: their variable names are pairwise distinct.\<close>

theorem kill_switch_isolates:
  assumes "l \<in> set KNOWN_LANES" "l' \<in> set KNOWN_LANES"
  shows "lane_enabled (AutonomyLane l) (env(kill_switch_env_var (AutonomyLane l') \<mapsto> ''1''))
         = (l \<noteq> l' \<and> lane_enabled (AutonomyLane l) env)"
proof -
  have one: "to_ascii_lowercase (trim ''1'') = ''1''"
    by code_simp
  have "distinct (map (\<lambda>l. kill_switch_env_var (AutonomyLane l)) KNOWN_LANES)"
    by code_simp
  then have inj: "inj_on (\<lambda>l. kill_switch_env_var (AutonomyLane l)) (set KNOWN_LANES)"
    by (simp add: distinct_map)
  show ?thesis
    using inj_onD [OF inj _ assms] by (auto simp: lane_enabled_def one Let_def)
qed

theorem kill_switch_isolates_witness:
  "\<not> lane_enabled (AutonomyLane ''graph.bridge_edges'') [''PHILOTIC_AUTONOMY_DISABLE_GRAPH_BRIDGE_EDGES'' \<mapsto> ''1'']
   \<and> lane_enabled (AutonomyLane ''memory.hygiene'') [''PHILOTIC_AUTONOMY_DISABLE_GRAPH_BRIDGE_EDGES'' \<mapsto> ''1'']"
proof -
  have k: "kill_switch_env_var (AutonomyLane ''graph.bridge_edges'')
      = ''PHILOTIC_AUTONOMY_DISABLE_GRAPH_BRIDGE_EDGES''"
    by code_simp
  have m: "''graph.bridge_edges'' \<in> set KNOWN_LANES" "''memory.hygiene'' \<in> set KNOWN_LANES"
    by code_simp+
  show ?thesis
    using kill_switch_isolates [OF m(1) m(1), of Map.empty] kill_switch_isolates [OF m(2) m(1), of Map.empty]
    by (simp add: k lane_enabled_def)
qed

subsection \<open>Bounded evidence\<close>

text \<open>\<open>bound_evidence\<close> keeps short evidence whole; longer evidence is cut at the last
  character boundary within \<open>MAX_AUDIT_EVIDENCE_BYTES\<close>, so no multi-byte character is split,
  and the stored text is that prefix followed by the marker, at most 15 bytes over the bound.\<close>

theorem bound_evidence_spec:
  "\<exists>cut \<le> MAX_AUDIT_EVIDENCE_BYTES.
     bound_evidence s = (if length s \<le> MAX_AUDIT_EVIDENCE_BYTES then s else take cut s @ trunc_marker)
     \<and> is_char_boundary s cut
     \<and> (\<forall>m \<le> MAX_AUDIT_EVIDENCE_BYTES. is_char_boundary s m \<longrightarrow> m \<le> cut)
     \<and> length (bound_evidence s) \<le> MAX_AUDIT_EVIDENCE_BYTES + 15"
  by (rule exI [of _ "floor_boundary s MAX_AUDIT_EVIDENCE_BYTES"])
    (auto simp: bound_evidence_def floor_boundary_le floor_boundary_is_boundary
      intro: floor_boundary_maximal min.coboundedI2)

theorem bound_evidence_spec_witness:
  "length (bound_evidence (replicate 5000 CHR ''a'')) \<le> 4111"
  using bound_evidence_spec [of "replicate 5000 CHR ''a''"]
  by (auto simp: MAX_AUDIT_EVIDENCE_BYTES_def)

text \<open>The bound itself is not kept: the marker is appended after the cut.\<close>

lemma bound_evidence_exceeds:
  "length (bound_evidence (replicate 5000 CHR ''a'')) = MAX_AUDIT_EVIDENCE_BYTES + 15"
proof -
  have "is_char_boundary (replicate 5000 CHR ''a'') 4096"
    by (simp add: is_char_boundary_def is_cont_byte_def byte_def)
  then have "floor_boundary (replicate 5000 CHR ''a'') 4096 = 4096"
    using floor_boundary_maximal [of 4096 4096] floor_boundary_le [of "replicate 5000 CHR ''a''" 4096]
    by (metis le_antisym le_refl)
  then show ?thesis by (simp add: bound_evidence_def MAX_AUDIT_EVIDENCE_BYTES_def)
qed

end
