(* ===== verification/HealQueue.thy ===== *)
theory HealQueue
  imports Prelude "HOL-Library.Multiset"
begin

section \<open>The self-heal queue and recurrence tracking\<close>

text \<open>
  Models \<^verbatim>\<open>crates/ansible-mesh-core/src/heal_queue.rs\<close> (evidence capping, the turn-failure
  classifier, the SQLite queue) and \<^verbatim>\<open>crates/heal-dispatcher/src/recurrence.rs\<close>. The table
  \<^verbatim>\<open>heal_queue\<close> is the list of its rows in insertion order; an id generated by the store
  (\<open>Ulid::new()\<close>) and the clock are arguments; an \<open>INSERT\<close> that meets an existing primary
  key is the error \<open>HqConstraint\<close>. SQL leaves the order of rows with equal timestamps
  open; the model takes insertion order and no theorem depends on it.
\<close>

subsection \<open>Records and constants\<close>

record HealQueueRow =
  hq_id :: string
  hq_guest :: string
  hq_timestamp :: int
  hq_raw_text :: string
  hq_severity :: string
  hq_status :: string
  hq_pattern_tag :: "string option"
  hq_heal_action :: "string option"
  hq_outcome :: "string option"

definition HEAL_WORK_ITEM_STATUS_OPEN :: string where "HEAL_WORK_ITEM_STATUS_OPEN = ''open''"
definition HEAL_WORK_ITEM_STATUS_CLOSED :: string where "HEAL_WORK_ITEM_STATUS_CLOSED = ''closed''"
definition MAX_HEAL_EVIDENCE_LINES :: nat where "MAX_HEAL_EVIDENCE_LINES = 20"
definition MAX_HEAL_EVIDENCE_BYTES :: nat where "MAX_HEAL_EVIDENCE_BYTES = 4096"
definition HEAL_FLOOD_WINDOW_SECS :: nat where "HEAL_FLOOD_WINDOW_SECS = 60"
definition MAX_TURN_FAILURE_RAW_BYTES :: nat where "MAX_TURN_FAILURE_RAW_BYTES = 2048"
definition HEAL_STDERR_DEDUP_SCAN_LIMIT :: nat where "HEAL_STDERR_DEDUP_SCAN_LIMIT = 64"

record HealWorkItemRecord =
  work_item_id :: string
  wi_pattern_tag :: string
  wi_guest_id :: string
  wi_count :: nat
  wi_window_secs :: nat
  wi_evidence :: "string list"
  wi_status :: string
  filed_by :: string
  wi_audit_id :: "string option"
  wi_created_at :: nat
  wi_last_seen :: nat

subsection \<open>Evidence capping\<close>

definition truncate_line :: "nat \<Rightarrow> string \<Rightarrow> string" where
  "truncate_line limit line =
     (if length line > limit
      then take (floor_boundary line (limit - length trunc_marker)) line @ trunc_marker
      else line)"

definition total_bytes :: "string list \<Rightarrow> nat" where
  "total_bytes v = sum_list (map length v)"

text \<open>The loop \<^verbatim>\<open>while kept.len() > 1 && total(&kept) > MAX { kept.remove(0); }\<close>.\<close>

fun drop_oldest :: "string list \<Rightarrow> string list" where
  "drop_oldest [] = []"
| "drop_oldest [l] = [l]"
| "drop_oldest (l # l' # ls) =
     (if total_bytes (l # l' # ls) > MAX_HEAL_EVIDENCE_BYTES then drop_oldest (l' # ls)
      else l # l' # ls)"

definition cap_evidence_lines :: "string list \<Rightarrow> string list" where
  "cap_evidence_lines lines =
     drop_oldest
       (map (truncate_line MAX_HEAL_EVIDENCE_BYTES)
         (drop (length lines - MAX_HEAL_EVIDENCE_LINES) lines))"

definition cap_turn_failure_text :: "string \<Rightarrow> string" where
  "cap_turn_failure_text line =
     (if length line \<le> MAX_TURN_FAILURE_RAW_BYTES then line
      else take (floor_boundary line (MAX_TURN_FAILURE_RAW_BYTES - length trunc_marker)) line
           @ trunc_marker)"

subsection \<open>The stderr dedup key\<close>

text \<open>The character loop of \<^verbatim>\<open>stderr_dedup_key\<close>; \<open>run\<close> is \<open>in_digit_run\<close>.\<close>

fun dedup_chars :: "(string \<Rightarrow> string) \<Rightarrow> bool \<Rightarrow> string list \<Rightarrow> string" where
  "dedup_chars tbl run [] = []"
| "dedup_chars tbl run (ch # chs) =
     (if (case ch of [c] \<Rightarrow> is_ascii_digit c | _ \<Rightarrow> False)
      then (if run then [] else ''#'') @ dedup_chars tbl True chs
      else char_to_lowercase tbl ch @ dedup_chars tbl False chs)"

definition stderr_dedup_key :: "(string \<Rightarrow> string) \<Rightarrow> string \<Rightarrow> string" where
  "stderr_dedup_key tbl raw_text = dedup_chars tbl False (utf8_chars (trim (first_line raw_text)))"

subsection \<open>Turn-failure classification\<close>

record TurnFailureClass =
  tf_severity :: string
  tf_pattern_tag :: string
  tf_heal_action :: string
  tf_provider :: "string option"

definition marker_value :: "string \<Rightarrow> string \<Rightarrow> string option" where
  "marker_value text key =
     (case find_sub key text of
        None \<Rightarrow> None
      | Some at \<Rightarrow>
          (let rest = drop (at + length key) text;
               value = trim (concat (takeWhile (\<lambda>ch. ch \<notin> set ws_seqs \<and> ch \<noteq> ''|'') (utf8_chars rest)))
           in if value \<noteq> [] then Some value else None))"

text \<open>The byte loop of \<^verbatim>\<open>has_standalone_status\<close>: \<open>prev\<close> is the byte before the rest.\<close>

definition glued_before :: "char option \<Rightarrow> bool" where
  "glued_before prev =
     (case prev of
        None \<Rightarrow> False
      | Some c \<Rightarrow> is_ascii_alphanumeric c \<or> c = CHR ''.'' \<or> c = CHR ''_'')"

definition glued_after :: "string \<Rightarrow> bool" where
  "glued_after rest =
     (case rest of [] \<Rightarrow> False | c # _ \<Rightarrow> is_ascii_alphanumeric c \<or> c = CHR ''.'')"

function status_scan :: "nat \<Rightarrow> nat \<Rightarrow> char option \<Rightarrow> string \<Rightarrow> bool" where
  "status_scan lo hi prev [] = False"
| "status_scan lo hi prev (c # cs) =
     (if is_ascii_digit c
      then (let run = takeWhile is_ascii_digit (c # cs);
                rest = dropWhile is_ascii_digit (c # cs)
            in if length run = 3 \<and> \<not> glued_before prev \<and> \<not> glued_after rest
                  \<and> lo \<le> digits_value run \<and> digits_value run \<le> hi
               then True
               else status_scan lo hi (Some (last run)) rest)
      else status_scan lo hi (Some c) cs)"
  by pat_completeness auto
termination
  by (relation "measure (\<lambda>(lo, hi, prev, s). length s)")
    (auto simp: le_imp_less_Suc length_dropWhile_le)

definition has_standalone_status :: "string \<Rightarrow> nat \<Rightarrow> nat \<Rightarrow> bool" where
  "has_standalone_status text lo hi = status_scan lo hi None text"

definition medium_class :: "string \<Rightarrow> string \<Rightarrow> string option \<Rightarrow> TurnFailureClass" where
  "medium_class tag action provider =
     \<lparr>tf_severity = ''medium'', tf_pattern_tag = tag, tf_heal_action = action, tf_provider = provider\<rparr>"

definition classify_turn_failure :: "(string \<Rightarrow> string) \<Rightarrow> string \<Rightarrow> TurnFailureClass option" where
  "classify_turn_failure tbl line =
     (let lower = to_lowercase tbl line in
      if contains_sub ''all model providers failed'' lower
         \<or> contains_sub ''delegation chain exceeded'' lower
         \<or> contains_sub ''turn_watchdog_timeout'' lower
         \<or> contains_sub ''turn watchdog evicted'' lower
         \<or> contains_sub ''content_blocked'' lower
      then None
      else if contains_sub ''response_route_unresolved'' lower
      then Some (medium_class ''response_route_unresolved'' ''escalate'' None)
      else if contains_sub ''cross_hotel_misroute'' lower
      then Some (medium_class ''cross_hotel_misroute'' ''escalate'' None)
      else if contains_sub ''duplicate_finalization'' lower
      then Some (medium_class ''duplicate_finalization'' ''escalate'' None)
      else if contains_sub ''orphaned_tool_result'' lower
      then Some (medium_class ''orphaned_tool_result'' ''escalate'' None)
      else
        (let provider = (case marker_value line ''provider='' of
                           Some p \<Rightarrow> if p \<noteq> ''unknown'' then Some p else None
                         | None \<Rightarrow> None);
             is_provider_failure = contains_sub ''kind=provider_failure'' lower
               \<or> contains_sub ''component=model-router'' lower
               \<or> contains_sub ''component=model_router'' lower
         in if \<not> is_provider_failure
            then (if contains_sub ''model_empty_response'' lower
                  then Some (medium_class ''model_empty_response'' ''escalate'' provider)
                  else None)
            else
              (let provider_label = (case provider of Some p \<Rightarrow> p | None \<Rightarrow> ''unknown'') in
               if contains_sub ''empty response'' lower \<or> contains_sub ''empty candidate'' lower
               then Some (medium_class ''model_empty_response'' ''escalate'' provider)
               else if has_standalone_status lower 400 499
               then Some (medium_class (''provider_4xx:'' @ provider_label) ''escalate'' provider)
               else if has_standalone_status lower 500 599
               then Some (medium_class (''provider_5xx:'' @ provider_label) ''escalate'' provider)
               else if contains_sub ''timed out'' lower \<or> contains_sub ''timeout'' lower
                       \<or> contains_sub ''deadline exceeded'' lower
               then Some (medium_class (''provider_timeout:'' @ provider_label) ''noop'' provider)
               else Some (medium_class (''provider_error:'' @ provider_label) ''escalate'' provider))))"

definition escalate_tags :: "string list" where
  "escalate_tags =
    [''provider_4xx'', ''provider_5xx'', ''provider_error'', ''model_empty_response'',
     ''stuck_turn_evicted'', ''fallback_exhausted'', ''paracrine_budget_exhausted'',
     ''response_route_unresolved'', ''cross_hotel_misroute'', ''duplicate_finalization'',
     ''orphaned_tool_result'', ''life_observe_parse_failed'', ''content_blocked'',
     ''host_load_high'', ''host_cpu_high'', ''host_mem_pressure'', ''host_disk_low'',
     ''service_probe_failed'', ''delivery_write_unconfirmed'', ''delivery_channel_closed'',
     ''emit_task_unknown_target_node'', ''provider_fallback'', ''external_api_4xx'',
     ''external_api_5xx'', ''seat_stood_down'']"

definition heal_action_for_pattern_tag :: "string \<Rightarrow> string" where
  "heal_action_for_pattern_tag tag =
     (let base = split_first CHR '':'' tag in
      if base \<in> set escalate_tags then ''escalate''
      else if base = ''subscriber_wedged'' then ''restart_guest''
      else if base = ''provider_timeout'' then ''noop''
      else if base = ''seat_lease_self_healed'' then ''noop''
      else ''noop'')"

subsection \<open>The SQLite queue\<close>

datatype hq_error = HqConstraint

type_synonym heal_queue = "HealQueueRow list"

definition insert_row :: "HealQueueRow \<Rightarrow> heal_queue \<Rightarrow> hq_error + heal_queue" where
  "insert_row r q = (if \<exists>r'\<in>set q. hq_id r' = hq_id r then Inl HqConstraint else Inr (q @ [r]))"

definition new_row :: "string \<Rightarrow> string \<Rightarrow> int \<Rightarrow> string \<Rightarrow> HealQueueRow" where
  "new_row rid guest now raw =
     \<lparr>hq_id = rid, hq_guest = guest, hq_timestamp = now, hq_raw_text = raw,
      hq_severity = ''unknown'', hq_status = ''pending'', hq_pattern_tag = None,
      hq_heal_action = None, hq_outcome = None\<rparr>"

definition recent_rows :: "heal_queue \<Rightarrow> string \<Rightarrow> int \<Rightarrow> heal_queue" where
  "recent_rows q guest cutoff =
     take HEAL_STDERR_DEDUP_SCAN_LIMIT
       (sort_key (\<lambda>r. - hq_timestamp r)
         (filter (\<lambda>r. hq_guest r = guest \<and> hq_timestamp r \<ge> cutoff) q))"

definition push_error_at ::
  "(string \<Rightarrow> string) \<Rightarrow> heal_queue \<Rightarrow> string \<Rightarrow> string \<Rightarrow> int \<Rightarrow> string \<Rightarrow> hq_error + heal_queue \<times> string"
where
  "push_error_at tbl q guest raw now fresh =
     (let key = stderr_dedup_key tbl raw;
          cutoff = now - int HEAL_FLOOD_WINDOW_SECS
      in case find (\<lambda>r. stderr_dedup_key tbl (hq_raw_text r) = key) (recent_rows q guest cutoff) of
           Some r \<Rightarrow> Inr (q, hq_id r)
         | None \<Rightarrow>
             (case insert_row (new_row fresh guest now raw) q of
                Inl e \<Rightarrow> Inl e
              | Inr q' \<Rightarrow> Inr (q', fresh)))"

definition push_classified_at ::
  "heal_queue \<Rightarrow> string \<Rightarrow> string \<Rightarrow> string \<Rightarrow> string \<Rightarrow> int \<Rightarrow> string
   \<Rightarrow> hq_error + heal_queue \<times> string option"
where
  "push_classified_at q guest raw severity tag now fresh =
     (let cutoff = now - int HEAL_FLOOD_WINDOW_SECS;
          recent = length (filter (\<lambda>r. hq_guest r = guest \<and> hq_pattern_tag r = Some tag
                                       \<and> hq_timestamp r \<ge> cutoff) q)
      in if recent > 0 then Inr (q, None)
         else case insert_row ((new_row fresh guest now raw)\<lparr>hq_severity := severity,
                                                             hq_pattern_tag := Some tag\<rparr>) q of
                Inl e \<Rightarrow> Inl e
              | Inr q' \<Rightarrow> Inr (q', Some fresh))"

definition pending_errors :: "heal_queue \<Rightarrow> nat \<Rightarrow> heal_queue" where
  "pending_errors q limit =
     take limit (sort_key hq_timestamp (filter (\<lambda>r. hq_status r = ''pending'') q))"

definition update_triage :: "heal_queue \<Rightarrow> string \<Rightarrow> string \<Rightarrow> string \<Rightarrow> string \<Rightarrow> heal_queue" where
  "update_triage q rid severity tag action =
     map (\<lambda>r. if hq_id r = rid
              then r\<lparr>hq_severity := severity, hq_pattern_tag := Some tag,
                     hq_heal_action := Some action, hq_status := ''assigned''\<rparr>
              else r) q"

definition resolve :: "heal_queue \<Rightarrow> string \<Rightarrow> string \<Rightarrow> heal_queue" where
  "resolve q rid outcome =
     map (\<lambda>r. if hq_id r = rid then r\<lparr>hq_outcome := Some outcome, hq_status := ''resolved''\<rparr> else r) q"

definition vacuum_old :: "heal_queue \<Rightarrow> nat \<Rightarrow> nat \<Rightarrow> heal_queue \<times> nat" where
  "vacuum_old q older_than_secs now =
     (let cutoff = int (now - older_than_secs);
          dead = (\<lambda>r. (hq_status r = ''resolved'' \<or> hq_status r = ''abandoned'')
                      \<and> hq_timestamp r < cutoff)
      in (filter (\<lambda>r. \<not> dead r) q, length (filter dead q)))"

definition abandon_note :: "int \<Rightarrow> string" where
  "abandon_note secs =
     ''abandoned: pending/assigned exceeded max age of ''
     @ (if secs < 0 then ''-'' @ dec_of_nat (nat (- secs)) else dec_of_nat (nat secs))
     @ ''s without dispatch (heal-queue abandon-vacuum, F10)''"

definition vacuum_abandoned_at :: "heal_queue \<Rightarrow> int \<Rightarrow> int \<Rightarrow> heal_queue \<times> nat" where
  "vacuum_abandoned_at q ceiling now =
     (let cutoff = now - max ceiling 0;
          stale = (\<lambda>r. (hq_status r = ''pending'' \<or> hq_status r = ''assigned'')
                       \<and> hq_timestamp r < cutoff)
      in (map (\<lambda>r. if stale r
                   then r\<lparr>hq_status := ''abandoned'', hq_outcome := Some (abandon_note ceiling)\<rparr>
                   else r) q,
          length (filter stale q)))"

subsection \<open>Recurrence tracking\<close>

record Breach =
  br_count :: nat
  br_evidence :: "string list"

record RecurrenceTracker =
  rt_threshold :: nat
  rt_window_secs :: nat
  rt_events :: "string \<times> string \<Rightarrow> (nat \<times> string) list"

definition DEFAULT_FILING_THRESHOLD :: nat where "DEFAULT_FILING_THRESHOLD = 5"
definition DEFAULT_FILING_WINDOW_SECS :: nat where "DEFAULT_FILING_WINDOW_SECS = 1800"

definition RecurrenceTracker_new :: "nat \<Rightarrow> nat \<Rightarrow> RecurrenceTracker" where
  "RecurrenceTracker_new threshold window_secs =
     \<lparr>rt_threshold = max threshold 1, rt_window_secs = max window_secs 1, rt_events = (\<lambda>_. [])\<rparr>"

definition RecurrenceTracker_from_env :: "(string \<Rightarrow> string option) \<Rightarrow> RecurrenceTracker" where
  "RecurrenceTracker_from_env env =
     RecurrenceTracker_new
       (case Option.bind (env ''PHILOTIC_HEAL_FILING_THRESHOLD'') (\<lambda>v. parse_unsigned u32_max (trim v)) of
          Some n \<Rightarrow> n | None \<Rightarrow> DEFAULT_FILING_THRESHOLD)
       (case Option.bind (env ''PHILOTIC_HEAL_FILING_WINDOW_SECS'') (\<lambda>v. parse_unsigned u64_max (trim v)) of
          Some n \<Rightarrow> n | None \<Rightarrow> DEFAULT_FILING_WINDOW_SECS)"

definition pop_stale :: "nat \<Rightarrow> (nat \<times> string) list \<Rightarrow> (nat \<times> string) list" where
  "pop_stale cutoff events = dropWhile (\<lambda>e. fst e < cutoff) events"

definition keep_last :: "nat \<Rightarrow> 'a list \<Rightarrow> 'a list" where
  "keep_last bound xs = drop (length xs - bound) xs"

definition record_occurrence ::
  "RecurrenceTracker \<Rightarrow> string \<Rightarrow> string \<Rightarrow> nat \<Rightarrow> string \<Rightarrow> RecurrenceTracker \<times> Breach option" where
  "record_occurrence t tag guest now raw =
     (let key = (tag, guest);
          cutoff = now - rt_window_secs t;
          events1 = pop_stale cutoff (rt_events t key) @ [(now, raw)];
          events2 = keep_last (max (rt_threshold t) 64) events1
      in if length events2 \<ge> rt_threshold t
         then (t\<lparr>rt_events := (rt_events t)(key := [])\<rparr>,
               Some \<lparr>br_count = length events2, br_evidence = cap_evidence_lines (map snd events2)\<rparr>)
         else (t\<lparr>rt_events := (rt_events t)(key := events2)\<rparr>, None))"

section \<open>Theorems\<close>

subsection \<open>Evidence stays within its budgets\<close>

lemma truncate_line_length: "15 \<le> limit \<Longrightarrow> length (truncate_line limit l) \<le> limit"
  using floor_boundary_le [of l "limit - 15"] by (auto simp: truncate_line_def min_def)

lemma total_bytes_simps [simp]:
  "total_bytes [] = 0" "total_bytes (l # ls) = length l + total_bytes ls"
  by (simp_all add: total_bytes_def)

lemma drop_oldest_suffix: "\<exists>k. drop_oldest ls = drop k ls \<and> (ls \<noteq> [] \<longrightarrow> k < length ls)"
proof (induction ls rule: drop_oldest.induct)
  case (3 l l' ls)
  show ?case
  proof (cases "total_bytes (l # l' # ls) > MAX_HEAL_EVIDENCE_BYTES")
    case True
    then obtain k where "drop_oldest (l' # ls) = drop k (l' # ls)" "k < length (l' # ls)"
      using "3.IH" by auto
    with True show ?thesis by (intro exI [of _ "Suc k"]) simp
  next
    case False
    then show ?thesis by (intro exI [of _ 0]) simp
  qed
qed (auto intro: exI [of _ 0])

lemma drop_oldest_bytes:
  "\<forall>l\<in>set ls. length l \<le> MAX_HEAL_EVIDENCE_BYTES \<Longrightarrow> total_bytes (drop_oldest ls) \<le> MAX_HEAL_EVIDENCE_BYTES"
  by (induction ls rule: drop_oldest.induct) auto

lemma last_drop_oldest: "ls \<noteq> [] \<Longrightarrow> drop_oldest ls \<noteq> [] \<and> last (drop_oldest ls) = last ls"
  using drop_oldest_suffix [of ls] by (auto simp: last_drop)

text \<open>Whatever a guest writes, the evidence attached to a work item is at most 20 lines and
  4096 bytes in total; it is a run of the newest lines, each cut on a character boundary if
  oversized, and the newest line itself is always there.\<close>

theorem cap_evidence_bounds:
  "length (cap_evidence_lines ls) \<le> MAX_HEAL_EVIDENCE_LINES
   \<and> total_bytes (cap_evidence_lines ls) \<le> MAX_HEAL_EVIDENCE_BYTES
   \<and> (\<exists>k. cap_evidence_lines ls = map (truncate_line MAX_HEAL_EVIDENCE_BYTES) (drop k ls))
   \<and> (ls = [] \<or> last (cap_evidence_lines ls) = truncate_line MAX_HEAL_EVIDENCE_BYTES (last ls)
                 \<and> cap_evidence_lines ls \<noteq> [])"
proof -
  let ?n = "length ls - MAX_HEAL_EVIDENCE_LINES"
  let ?k = "map (truncate_line MAX_HEAL_EVIDENCE_BYTES) (drop ?n ls)"
  have cap: "cap_evidence_lines ls = drop_oldest ?k" by (simp add: cap_evidence_lines_def)
  obtain k where k: "drop_oldest ?k = drop k ?k" using drop_oldest_suffix [of ?k] by blast
  have "total_bytes (drop_oldest ?k) \<le> MAX_HEAL_EVIDENCE_BYTES"
    by (rule drop_oldest_bytes) (auto simp: MAX_HEAL_EVIDENCE_BYTES_def intro!: truncate_line_length)
  moreover have "length (drop_oldest ?k) \<le> MAX_HEAL_EVIDENCE_LINES" by (simp add: k)
  moreover have "drop_oldest ?k = map (truncate_line MAX_HEAL_EVIDENCE_BYTES) (drop (k + ?n) ls)"
    by (simp add: k drop_map)
  moreover have "last (drop_oldest ?k) = truncate_line MAX_HEAL_EVIDENCE_BYTES (last ls)
      \<and> drop_oldest ?k \<noteq> []" if "ls \<noteq> []"
  proof -
    have "drop ?n ls \<noteq> []" using that by (simp add: MAX_HEAL_EVIDENCE_LINES_def) (cases ls; simp)
    then show ?thesis using last_drop_oldest [of ?k] by (simp add: last_map last_drop)
  qed
  ultimately show ?thesis unfolding cap by blast
qed

subsection \<open>Status codes\<close>

text \<open>The standalone status tokens of a text, declaratively: three digits not glued to their
  neighbours. \<open>prev\<close> is the byte before the text.\<close>

definition status_token :: "nat \<Rightarrow> nat \<Rightarrow> char option \<Rightarrow> string \<Rightarrow> string \<Rightarrow> string \<Rightarrow> bool" where
  "status_token lo hi prev a d b \<longleftrightarrow>
     length d = 3 \<and> list_all is_ascii_digit d
     \<and> \<not> glued_before (if a = [] then prev else Some (last a)) \<and> \<not> glued_after b
     \<and> lo \<le> digits_value d \<and> digits_value d \<le> hi"

lemma glued_digit: "is_ascii_digit c \<Longrightarrow> glued_before (Some c)"
  by (simp add: glued_before_def is_ascii_alphanumeric_def)

lemma token_skip_nondigit:
  assumes "\<not> is_ascii_digit c"
  shows "(\<exists>a d b. c # cs = a @ d @ b \<and> status_token lo hi prev a d b)
         \<longleftrightarrow> (\<exists>a d b. cs = a @ d @ b \<and> status_token lo hi (Some c) a d b)"
proof
  assume "\<exists>a d b. c # cs = a @ d @ b \<and> status_token lo hi prev a d b"
  then obtain a d b where tok: "c # cs = a @ d @ b" "status_token lo hi prev a d b" by blast
  moreover from tok assms have "a \<noteq> []"
    by (cases a; cases d) (auto simp: status_token_def)
  ultimately obtain a' where "cs = a' @ d @ b" "a = c # a'" by (cases a) auto
  with tok show "\<exists>a d b. cs = a @ d @ b \<and> status_token lo hi (Some c) a d b"
    by (intro exI [of _ a'] exI [of _ d] exI [of _ b])
      (auto simp: status_token_def split: if_splits)
next
  assume "\<exists>a d b. cs = a @ d @ b \<and> status_token lo hi (Some c) a d b"
  then obtain a d b where "cs = a @ d @ b" "status_token lo hi (Some c) a d b" by blast
  then show "\<exists>a d b. c # cs = a @ d @ b \<and> status_token lo hi prev a d b"
    by (intro exI [of _ "c # a"] exI [of _ d] exI [of _ b])
      (auto simp: status_token_def split: if_splits)
qed

text \<open>A token meets a maximal digit run at its start (and is the run) or starts after it.\<close>

lemma token_at_run:
  assumes "run @ rest = a @ d @ b" "list_all is_ascii_digit run" "run \<noteq> []"
    and "rest = [] \<or> \<not> is_ascii_digit (hd rest)" "status_token lo hi prev a d b"
  shows "a = [] \<and> d = run \<and> b = rest \<or> (\<exists>a'. a = run @ a' \<and> rest = a' @ d @ b)"
proof (cases "length run \<le> length a")
  case True
  then obtain a' where "a = run @ a'"
    using assms(1) by (metis append_eq_append_conv_if append_eq_conv_conj)
  then show ?thesis using assms(1) by auto
next
  case False
  then obtain r where r: "run = a @ r" "r \<noteq> []"
    using assms(1) by (auto simp: append_eq_append_conv2)
  have a: "a = []"
  proof (rule ccontr)
    assume "a \<noteq> []"
    then have "is_ascii_digit (last a)" using assms(2) r by (auto simp: list_all_iff)
    with assms(5) \<open>a \<noteq> []\<close> show False by (auto simp: status_token_def dest: glued_digit)
  qed
  have "d = run"
  proof (rule ccontr)
    assume ne: "d \<noteq> run"
    from assms(1) a have eq: "run @ rest = d @ b" by simp
    show False
    proof (cases "length d < length run")
      case True
      then obtain c where "run = d @ c" "c \<noteq> []" "b = c @ rest"
        using eq by (auto simp: append_eq_append_conv2)
      then have "glued_after b"
        using assms(2) by (cases c) (auto simp: glued_after_def is_ascii_alphanumeric_def)
      with assms(5) show False by (simp add: status_token_def)
    next
      case False
      with ne eq obtain c where "d = run @ c" "c \<noteq> []" "rest = c @ b"
        by (auto simp: append_eq_append_conv2)
      then show False using assms(4,5) by (cases c) (auto simp: status_token_def)
    qed
  qed
  then show ?thesis using a assms(1) by auto
qed

lemma token_skip_run:
  assumes "list_all is_ascii_digit run" "run \<noteq> []" "rest = [] \<or> \<not> is_ascii_digit (hd rest)"
  shows "(\<exists>a d b. run @ rest = a @ d @ b \<and> status_token lo hi prev a d b)
         \<longleftrightarrow> status_token lo hi prev [] run rest
             \<or> (\<exists>a d b. rest = a @ d @ b \<and> status_token lo hi (Some (last run)) a d b)"
    (is "?L \<longleftrightarrow> ?R")
proof
  assume ?L
  then obtain a d b where tok: "run @ rest = a @ d @ b" "status_token lo hi prev a d b" by blast
  from token_at_run [OF tok(1) assms tok(2)] show ?R
  proof
    assume "a = [] \<and> d = run \<and> b = rest"
    then show ?R using tok by simp
  next
    assume "\<exists>a'. a = run @ a' \<and> rest = a' @ d @ b"
    then obtain a' where "a = run @ a'" "rest = a' @ d @ b" by blast
    with tok(2) assms(2) have "rest = a' @ d @ b \<and> status_token lo hi (Some (last run)) a' d b"
      by (auto simp: status_token_def split: if_splits)
    then show ?R by blast
  qed
next
  assume ?R
  then show ?L
  proof
    assume "status_token lo hi prev [] run rest"
    then show ?L by (intro exI [of _ "[]"] exI [of _ run] exI [of _ rest]) simp
  next
    assume "\<exists>a d b. rest = a @ d @ b \<and> status_token lo hi (Some (last run)) a d b"
    then obtain a d b where "rest = a @ d @ b" "status_token lo hi (Some (last run)) a d b" by blast
    then show ?L using assms(2)
      by (intro exI [of _ "run @ a"] exI [of _ d] exI [of _ b])
        (auto simp: status_token_def split: if_splits)
  qed
qed

lemma status_scan_spec:
  "status_scan lo hi prev s \<longleftrightarrow> (\<exists>a d b. s = a @ d @ b \<and> status_token lo hi prev a d b)"
proof (induction lo hi prev s rule: status_scan.induct)
  case (1 lo hi prev)
  then show ?case by (auto simp: status_token_def)
next
  case (2 lo hi prev c cs)
  show ?case
  proof (cases "is_ascii_digit c")
    case False
    then show ?thesis using "2.IH"(2) token_skip_nondigit [OF False] by simp
  next
    case True
    define run where "run = takeWhile is_ascii_digit (c # cs)"
    define rest where "rest = dropWhile is_ascii_digit (c # cs)"
    have digits: "list_all is_ascii_digit run"
      by (auto simp: run_def list_all_iff dest: set_takeWhileD)
    have "run \<noteq> []" "rest = [] \<or> \<not> is_ascii_digit (hd rest)" "run @ rest = c # cs"
      using True hd_dropWhile [of is_ascii_digit "c # cs"] by (auto simp: run_def rest_def)
    note skip = token_skip_run [OF digits this(1,2), of lo hi prev, unfolded this(3)]
    have "status_scan lo hi prev (c # cs)
        = (status_token lo hi prev [] run rest \<or> status_scan lo hi (Some (last run)) rest)"
      unfolding status_scan.simps run_def [symmetric] rest_def [symmetric] Let_def
      using True digits by (simp add: status_token_def) blast
    moreover have "status_scan lo hi (Some (last run)) rest
        = (\<exists>a d b. rest = a @ d @ b \<and> status_token lo hi (Some (last run)) a d b)"
      if "\<not> status_token lo hi prev [] run rest"
      by (rule "2.IH"(1) [OF True run_def rest_def]) (use that digits in \<open>auto simp: status_token_def\<close>)
    ultimately show ?thesis using skip by blast
  qed
qed

text \<open>The byte scanner finds exactly the standalone status tokens: it answers yes iff the
  text has three digits with value in the range, not preceded by an ASCII letter, digit, dot or
  underscore and not followed by an ASCII letter, digit or dot.\<close>

theorem has_standalone_status_iff:
  "has_standalone_status text lo hi \<longleftrightarrow>
     (\<exists>a d b. text = a @ d @ b \<and> length d = 3 \<and> list_all is_ascii_digit d
        \<and> lo \<le> digits_value d \<and> digits_value d \<le> hi
        \<and> \<not> (a \<noteq> [] \<and> (is_ascii_alphanumeric (last a) \<or> last a = CHR ''.'' \<or> last a = CHR ''_''))
        \<and> \<not> (b \<noteq> [] \<and> (is_ascii_alphanumeric (hd b) \<or> hd b = CHR ''.'')))"
proof -
  have a: "glued_before (if a = [] then None else Some (last a))
      \<longleftrightarrow> a \<noteq> [] \<and> (is_ascii_alphanumeric (last a) \<or> last a = CHR ''.'' \<or> last a = CHR ''_'')"
    for a by (simp add: glued_before_def)
  have b: "glued_after b \<longleftrightarrow> b \<noteq> [] \<and> (is_ascii_alphanumeric (hd b) \<or> hd b = CHR ''.'')" for b
    by (cases b) (simp_all add: glued_after_def)
  show ?thesis
    unfolding has_standalone_status_def status_scan_spec status_token_def a b by blast
qed

subsection \<open>The classifier and the dispatcher agree\<close>

lemma heal_action_suffix:
  "CHR '':'' \<notin> set base \<Longrightarrow>
   heal_action_for_pattern_tag (base @ CHR '':'' # rest) = heal_action_for_pattern_tag base"
proof -
  assume no: "CHR '':'' \<notin> set base"
  then have "\<forall>x\<in>set base. x \<noteq> CHR '':''" by blast
  then have "split_first CHR '':'' (base @ CHR '':'' # rest) = base" "split_first CHR '':'' base = base"
    by (simp_all add: split_first_def takeWhile_append takeWhile_eq_all_conv)
  then show ?thesis by (simp add: heal_action_for_pattern_tag_def)
qed

lemma heal_actions [simp]:
  "heal_action_for_pattern_tag ''response_route_unresolved'' = ''escalate''"
  "heal_action_for_pattern_tag ''cross_hotel_misroute'' = ''escalate''"
  "heal_action_for_pattern_tag ''duplicate_finalization'' = ''escalate''"
  "heal_action_for_pattern_tag ''orphaned_tool_result'' = ''escalate''"
  "heal_action_for_pattern_tag ''model_empty_response'' = ''escalate''"
  "heal_action_for_pattern_tag ''provider_4xx'' = ''escalate''"
  "heal_action_for_pattern_tag ''provider_5xx'' = ''escalate''"
  "heal_action_for_pattern_tag ''provider_error'' = ''escalate''"
  "heal_action_for_pattern_tag ''provider_timeout'' = ''noop''"
  by (simp_all add: heal_action_for_pattern_tag_def split_first_def escalate_tags_def)

text \<open>The hotel's intake and the dispatcher agree on every classified failure: the action
  the classifier assigns is the one \<open>heal_action_for_pattern_tag\<close> derives from its tag, provider
  suffix included, and no provider or model failure is ever answered with a guest restart.\<close>

theorem classify_action_agrees:
  "case classify_turn_failure tbl line of
     None \<Rightarrow> True
   | Some c \<Rightarrow> heal_action_for_pattern_tag (tf_pattern_tag c) = tf_heal_action c
              \<and> tf_heal_action c \<in> {''escalate'', ''noop''} \<and> tf_severity c = ''medium''"
proof -
  have sfx: "heal_action_for_pattern_tag (''provider_4xx:'' @ p) = ''escalate''"
    "heal_action_for_pattern_tag (''provider_5xx:'' @ p) = ''escalate''"
    "heal_action_for_pattern_tag (''provider_error:'' @ p) = ''escalate''"
    "heal_action_for_pattern_tag (''provider_timeout:'' @ p) = ''noop''" for p
    using heal_action_suffix [of "''provider_4xx''" p] heal_action_suffix [of "''provider_5xx''" p]
      heal_action_suffix [of "''provider_error''" p] heal_action_suffix [of "''provider_timeout''" p]
    by simp_all
  show ?thesis
    unfolding classify_turn_failure_def Let_def
    by (simp add: medium_class_def sfx [simplified] split: option.splits)
qed

subsection \<open>The queue\<close>

definition ids_distinct :: "heal_queue \<Rightarrow> bool" where
  "ids_distinct q \<longleftrightarrow> distinct (map hq_id q)"

lemma ids_distinct_insert [inv_intros]:
  "ids_distinct q \<Longrightarrow> insert_row r q = Inr q' \<Longrightarrow> ids_distinct q'"
  by (fastforce simp: ids_distinct_def insert_row_def split: if_splits)

lemma map_hq_id_update [simp]:
  "map hq_id (update_triage q rid s tg a) = map hq_id q"
  "map hq_id (resolve q rid out) = map hq_id q"
  by (simp_all add: update_triage_def resolve_def o_def if_distrib cong: if_cong)

lemma set_recent_rows:
  "r \<in> set (recent_rows q guest cutoff) \<Longrightarrow> r \<in> set q \<and> hq_guest r = guest \<and> hq_timestamp r \<ge> cutoff"
  by (auto simp: recent_rows_def dest!: in_set_takeD)

text \<open>A raw error line is never lost silently: \<open>push_error_at\<close> returns the id of a row that
  is in the queue afterwards, was seen from the same guest within the flood window and carries
  the same dedup key (the new line itself when it was inserted); it inserts at most one row, at
  the end, and only a primary-key clash of the generated id makes it fail.\<close>

theorem push_error_at_spec:
  "case push_error_at tbl q guest raw now fresh of
     Inl e \<Rightarrow> fresh \<in> set (map hq_id q)
   | Inr (q', rid) \<Rightarrow>
       (q' = q \<or> q' = q @ [new_row fresh guest now raw] \<and> rid = fresh)
       \<and> (\<exists>r\<in>set q'. hq_id r = rid \<and> hq_guest r = guest
            \<and> now - int HEAL_FLOOD_WINDOW_SECS \<le> hq_timestamp r
            \<and> stderr_dedup_key tbl (hq_raw_text r) = stderr_dedup_key tbl raw)"
proof (cases "find (\<lambda>r. stderr_dedup_key tbl (hq_raw_text r) = stderr_dedup_key tbl raw)
                (recent_rows q guest (now - int HEAL_FLOOD_WINDOW_SECS))")
  case None
  then show ?thesis
    by (auto simp: push_error_at_def Let_def insert_row_def new_row_def split: if_splits)
next
  case (Some r)
  then have "r \<in> set (recent_rows q guest (now - int HEAL_FLOOD_WINDOW_SECS))"
    "stderr_dedup_key tbl (hq_raw_text r) = stderr_dedup_key tbl raw"
    by (auto dest: find_Some_in)
  then show ?thesis
    using Some set_recent_rows by (auto simp: push_error_at_def Let_def)
qed

subsubsection \<open>Flood control of classified entries\<close>

definition same_pattern :: "HealQueueRow \<Rightarrow> HealQueueRow \<Rightarrow> bool" where
  "same_pattern r s \<longleftrightarrow>
     hq_guest r = hq_guest s \<and> hq_pattern_tag r = hq_pattern_tag s \<and> hq_pattern_tag r \<noteq> None"

definition flood_sep :: "heal_queue \<Rightarrow> bool" where
  "flood_sep q \<longleftrightarrow>
     sorted_wrt (\<lambda>r s. same_pattern r s \<longrightarrow> hq_timestamp s > hq_timestamp r + int HEAL_FLOOD_WINDOW_SECS) q"

type_synonym classified_push = "string \<times> string \<times> string \<times> string \<times> int \<times> string"

text \<open>A run of classified pushes (guest, text, severity, tag, clock, generated id); a push that
  fails leaves the table as it is.\<close>

fun push_all :: "heal_queue \<Rightarrow> classified_push list \<Rightarrow> heal_queue" where
  "push_all q [] = q"
| "push_all q ((guest, raw, sev, tag, now, fresh) # ps) =
     push_all (case push_classified_at q guest raw sev tag now fresh of
                 Inl e \<Rightarrow> q | Inr (q', out) \<Rightarrow> q') ps"

fun push_time :: "classified_push \<Rightarrow> int" where
  "push_time (guest, raw, sev, tag, now, fresh) = now"

lemma push_classified_flood:
  assumes "flood_sep q" "push_classified_at q guest raw sev tag now fresh = Inr (q', out)"
  shows "flood_sep q'"
proof -
  have "hq_timestamp r + int HEAL_FLOOD_WINDOW_SECS < now"
    if "length (filter (\<lambda>r. hq_guest r = guest \<and> hq_pattern_tag r = Some tag
                            \<and> now - int HEAL_FLOOD_WINDOW_SECS \<le> hq_timestamp r) q) = 0"
      and "r \<in> set q" "hq_guest r = guest" "hq_pattern_tag r = Some tag" for r
    using that by (fastforce simp: filter_empty_conv)
  with assms show ?thesis
    by (auto simp: push_classified_at_def Let_def insert_row_def flood_sep_def sorted_wrt_append
        same_pattern_def new_row_def split: if_splits)
qed

lemma push_all_flood: "flood_sep q \<Longrightarrow> flood_sep (push_all q ps)"
proof (induction q ps rule: push_all.induct)
  case (2 q guest raw sev tag now fresh ps)
  then show ?case
    using push_classified_flood [OF "2.prems"] by (auto split: sum.splits)
qed auto

text \<open>However many classified failures are pushed, the queue never holds two rows of one
  (guest, pattern) pair within \<open>HEAL_FLOOD_WINDOW_SECS\<close> of each other; and the control drops only
  repeats: a push is collapsed exactly when the queue already holds a row of the same pair inside
  the window, otherwise the row is stored with the tag and severity it was given.\<close>

theorem flood_control:
  "flood_sep (push_all [] ps)
   \<and> (case push_classified_at q guest raw sev tag now fresh of
        Inl e \<Rightarrow> fresh \<in> set (map hq_id q)
      | Inr (q', None) \<Rightarrow> q' = q \<and> (\<exists>r\<in>set q. hq_guest r = guest \<and> hq_pattern_tag r = Some tag
                              \<and> now - int HEAL_FLOOD_WINDOW_SECS \<le> hq_timestamp r)
      | Inr (q', Some rid) \<Rightarrow>
          rid = fresh \<and> butlast q' = q \<and> last q' = \<lparr>hq_id = fresh, hq_guest = guest, hq_timestamp = now,
            hq_raw_text = raw, hq_severity = sev, hq_status = ''pending'', hq_pattern_tag = Some tag,
            hq_heal_action = None, hq_outcome = None\<rparr>)"
proof -
  have "flood_sep (push_all [] ps)" by (rule push_all_flood) (simp add: flood_sep_def)
  then show ?thesis
    by (auto simp: push_classified_at_def Let_def insert_row_def new_row_def filter_empty_conv
        split: if_splits)
qed

subsubsection \<open>Service order and ageing\<close>

text \<open>The dispatcher's batch is the oldest pending work: it holds only pending rows of the
  queue, in time order, fills up to the limit, and leaves out no pending row older than one it
  returns, so a backlog cannot starve old rows.\<close>

theorem pending_errors_fifo:
  "length (pending_errors q limit) = min limit (length (filter (\<lambda>r. hq_status r = ''pending'') q))
   \<and> (\<exists>rest. mset (pending_errors q limit @ rest) = mset (filter (\<lambda>r. hq_status r = ''pending'') q)
        \<and> sorted (map hq_timestamp (pending_errors q limit @ rest)))"
proof -
  let ?s = "sort_key hq_timestamp (filter (\<lambda>r. hq_status r = ''pending'') q)"
  have "mset (take limit ?s @ drop limit ?s) = mset (filter (\<lambda>r. hq_status r = ''pending'') q)"
    "sorted (map hq_timestamp (take limit ?s @ drop limit ?s))"
    unfolding append_take_drop_id by simp_all
  then show ?thesis
    unfolding pending_errors_def
    by (intro conjI exI [of _ "drop limit ?s"]) (simp_all add: min.commute)
qed

definition statuses_valid :: "heal_queue \<Rightarrow> bool" where
  "statuses_valid q \<longleftrightarrow>
     list_all (\<lambda>r. hq_status r \<in> {''pending'', ''assigned'', ''resolved'', ''abandoned''}) q"

lemma statuses_valid_insert:
  "statuses_valid q \<Longrightarrow> insert_row r q = Inr q' \<Longrightarrow> hq_status r = ''pending'' \<Longrightarrow> statuses_valid q'"
  by (auto simp: statuses_valid_def insert_row_def split: if_splits)

lemma statuses_valid_push [inv_intros]:
  "statuses_valid q \<Longrightarrow> push_error_at tbl q guest raw now fresh = Inr (q', rid) \<Longrightarrow> statuses_valid q'"
  "statuses_valid q \<Longrightarrow> push_classified_at q guest raw sev tag now fresh = Inr (q', out) \<Longrightarrow> statuses_valid q'"
  by (auto simp: push_error_at_def push_classified_at_def Let_def new_row_def
      elim: statuses_valid_insert split: if_splits option.splits sum.splits)

lemma statuses_valid_update [inv_intros]:
  "statuses_valid q \<Longrightarrow> statuses_valid (update_triage q rid s tg a)"
  "statuses_valid q \<Longrightarrow> statuses_valid (resolve q rid oc)"
  "statuses_valid q \<Longrightarrow> statuses_valid (fst (vacuum_old q secs nw))"
  "statuses_valid q \<Longrightarrow> statuses_valid (fst (vacuum_abandoned_at q c n))"
  by (induction q)
    (auto simp: statuses_valid_def update_triage_def resolve_def vacuum_old_def
      vacuum_abandoned_at_def Let_def)

text \<open>The two vacuum passes bound the age of everything in the table: after them no row is
  older than both limits, so a stalled dispatcher cannot grow the queue for ever. They take
  nothing else: rows newer than the abandon ceiling come through in order, and unless they were
  already terminal, unchanged and undeleted.\<close>

theorem vacuum_bounds_age:
  assumes "statuses_valid q"
  shows "(let q' = fst (vacuum_old (fst (vacuum_abandoned_at q ceiling (int now))) older now) in
     (\<forall>r\<in>set q'. int now - max ceiling 0 \<le> hq_timestamp r \<or> int (now - older) \<le> hq_timestamp r)
     \<and> filter (\<lambda>r. hq_status r \<in> {''pending'', ''assigned''}) q'
       = filter (\<lambda>r. hq_status r \<in> {''pending'', ''assigned''}
                     \<and> int now - max ceiling 0 \<le> hq_timestamp r) q)"
proof -
  let ?q' = "fst (vacuum_old (fst (vacuum_abandoned_at q ceiling (int now))) older now)"
  have "int now - max ceiling 0 \<le> hq_timestamp r \<or> int (now - older) \<le> hq_timestamp r"
    if "r \<in> set ?q'" for r
    using that assms
    by (fastforce simp: vacuum_old_def vacuum_abandoned_at_def Let_def statuses_valid_def list_all_iff
        split: if_splits)
  moreover have "filter (\<lambda>r. hq_status r \<in> {''pending'', ''assigned''}) ?q'
       = filter (\<lambda>r. hq_status r \<in> {''pending'', ''assigned''}
                     \<and> int now - max ceiling 0 \<le> hq_timestamp r) q"
    unfolding vacuum_old_def vacuum_abandoned_at_def Let_def fst_conv
  proof (induction q)
    case (Cons r q)
    then show ?case
      by (cases "hq_status r = ''pending'' \<or> hq_status r = ''assigned''";
          cases "hq_timestamp r < int now - max ceiling 0") auto
  qed simp
  ultimately show ?thesis by (simp add: Let_def)
qed

theorem vacuum_bounds_age_witness:
  "let q' = fst (vacuum_old (fst (vacuum_abandoned_at [new_row ''a'' ''g'' 0 ''x'', new_row ''b'' ''g'' 95 ''y'']
                10 (int 100))) 10 100)
   in \<forall>r\<in>set q'. 90 \<le> hq_timestamp r"
proof -
  have "statuses_valid [new_row ''a'' ''g'' 0 ''x'', new_row ''b'' ''g'' 95 ''y'']"
    by (simp add: statuses_valid_def new_row_def)
  from vacuum_bounds_age [OF this, of 10 100 10] show ?thesis by (simp add: Let_def)
qed

subsection \<open>Recurrence tracking refines a window count\<close>

text \<open>
  The specification keeps the whole log of a key since its last breach and counts, on each
  occurrence, the entries that lie in the window; the tracker prunes a queue instead.
\<close>

type_synonym occurrence = "(string \<times> string) \<times> nat \<times> string"

fun spec_run :: "nat \<Rightarrow> nat \<Rightarrow> (string \<times> string \<Rightarrow> (nat \<times> string) list) \<Rightarrow> occurrence list
  \<Rightarrow> Breach option list" where
  "spec_run th w lg [] = []"
| "spec_run th w lg ((key, now, raw) # os) =
     (let l = lg key @ [(now, raw)];
          hits = filter (\<lambda>e. now - w \<le> fst e) l
      in if th \<le> length hits
         then Some \<lparr>br_count = length hits, br_evidence = cap_evidence_lines (map snd hits)\<rparr>
              # spec_run th w (lg(key := [])) os
         else None # spec_run th w (lg(key := l)) os)"

fun tracker_run :: "RecurrenceTracker \<Rightarrow> occurrence list \<Rightarrow> Breach option list" where
  "tracker_run t [] = []"
| "tracker_run t (((tag, guest), now, raw) # os) =
     (case record_occurrence t tag guest now raw of (t', b) \<Rightarrow> b # tracker_run t' os)"

text \<open>The tracker's queue of a key is the part of the log from some cutoff on that later windows
  cannot reach behind.\<close>

definition tracks_key :: "nat \<Rightarrow> nat \<Rightarrow> nat \<Rightarrow> (nat \<times> string) list \<Rightarrow> (nat \<times> string) list \<Rightarrow> bool" where
  "tracks_key now w th l evs \<longleftrightarrow>
     sorted (map fst l) \<and> (\<forall>e\<in>set l. fst e \<le> now) \<and> length evs < th
     \<and> (\<exists>c \<le> now - w. evs = filter (\<lambda>e. c \<le> fst e) l)"

definition tracks :: "nat \<Rightarrow> (string \<times> string \<Rightarrow> (nat \<times> string) list) \<Rightarrow> RecurrenceTracker \<Rightarrow> bool" where
  "tracks now lg t \<longleftrightarrow>
     (\<forall>key. tracks_key now (rt_window_secs t) (rt_threshold t) (lg key) (rt_events t key))"

lemma tracks_key_mono: "tracks_key now0 w th l evs \<Longrightarrow> now0 \<le> now \<Longrightarrow> tracks_key now w th l evs"
proof -
  assume "tracks_key now0 w th l evs" "now0 \<le> now"
  moreover have "c \<le> now0 - w \<Longrightarrow> c \<le> now - w" for c using \<open>now0 \<le> now\<close> by linarith
  ultimately show ?thesis unfolding tracks_key_def by (metis le_trans)
qed

lemma tracks_key_Nil: "0 < th \<Longrightarrow> tracks_key now w th [] []"
  by (auto simp: tracks_key_def)

lemma tracks_key_snoc:
  assumes "tracks_key now0 w th l evs" "now0 \<le> now"
    and "length (filter (\<lambda>e. now - w \<le> fst e) (l @ [(now, raw)])) < th"
  shows "tracks_key now w th (l @ [(now, raw)]) (filter (\<lambda>e. now - w \<le> fst e) (l @ [(now, raw)]))"
  using assms by (auto simp: tracks_key_def sorted_append intro: exI [of _ "now - w"])

lemma pop_stale_filter:
  "sorted (map fst l) \<Longrightarrow> c \<le> cutoff
   \<Longrightarrow> pop_stale cutoff (filter (\<lambda>e. c \<le> fst e) l) = filter (\<lambda>e. cutoff \<le> fst e) l"
proof (induction l)
  case (Cons e l)
  show ?case
  proof (cases "fst e < cutoff")
    case True
    then show ?thesis using Cons by (auto simp: pop_stale_def)
  next
    case False
    then have "\<forall>x\<in>set (e # l). cutoff \<le> fst x" using Cons.prems by fastforce
    then have "filter (\<lambda>x. cutoff \<le> fst x) (e # l) = e # l" "filter (\<lambda>x. c \<le> fst x) (e # l) = e # l"
      using Cons.prems(2) by (auto simp: filter_id_conv)
    then show ?thesis using False by (simp add: pop_stale_def)
  qed
qed (simp add: pop_stale_def)

lemma record_occurrence_cases:
  fixes tag guest raw :: string
  assumes "tracks now0 lg t" "now0 \<le> now"
  defines "hits \<equiv> filter (\<lambda>e. now - rt_window_secs t \<le> fst e) (lg (tag, guest) @ [(now, raw)])"
  shows "record_occurrence t tag guest now raw =
     (if rt_threshold t \<le> length hits
      then (t\<lparr>rt_events := (rt_events t)((tag, guest) := [])\<rparr>,
            Some \<lparr>br_count = length hits, br_evidence = cap_evidence_lines (map snd hits)\<rparr>)
      else (t\<lparr>rt_events := (rt_events t)((tag, guest) := hits)\<rparr>, None))
     \<and> length hits \<le> rt_threshold t"
proof -
  let ?key = "(tag, guest)"
  have tk: "tracks_key now0 (rt_window_secs t) (rt_threshold t) (lg ?key) (rt_events t ?key)"
    using assms(1) by (simp add: tracks_def)
  then obtain c where c: "c \<le> now0 - rt_window_secs t"
    "rt_events t ?key = filter (\<lambda>e. c \<le> fst e) (lg ?key)" "sorted (map fst (lg ?key))"
    by (auto simp: tracks_key_def)
  have pop: "pop_stale (now - rt_window_secs t) (rt_events t ?key) @ [(now, raw)] = hits"
    using c assms(2) by (simp add: hits_def pop_stale_filter)
  have "length (pop_stale (now - rt_window_secs t) (rt_events t ?key)) \<le> length (rt_events t ?key)"
    by (simp add: pop_stale_def length_dropWhile_le)
  then have len: "length hits \<le> rt_threshold t" using tk pop [symmetric] by (simp add: tracks_key_def)
  then have keep: "keep_last (max (rt_threshold t) 64) hits = hits" by (simp add: keep_last_def)
  show ?thesis
    unfolding record_occurrence_def Let_def pop keep using len by simp
qed

lemma tracks_step:
  assumes "tracks now0 lg t" "now0 \<le> now" "record_occurrence t tag guest now raw = (t', b)"
  shows "tracks now (lg((tag, guest) := if b = None then lg (tag, guest) @ [(now, raw)] else [])) t'
    \<and> rt_threshold t' = rt_threshold t \<and> rt_window_secs t' = rt_window_secs t"
proof -
  have keys: "tracks_key now0 (rt_window_secs t) (rt_threshold t) (lg k) (rt_events t k)" for k
    using assms(1) unfolding tracks_def by blast
  from keys [of "(tag, guest)"] have pos: "0 < rt_threshold t" by (auto simp: tracks_key_def)
  have "\<exists>evs. t' = t\<lparr>rt_events := (rt_events t)((tag, guest) := evs)\<rparr>
      \<and> tracks_key now (rt_window_secs t) (rt_threshold t)
          (if b = None then lg (tag, guest) @ [(now, raw)] else []) evs"
    using record_occurrence_cases [OF assms(1,2), of tag guest raw] assms(3)
      tracks_key_snoc [OF keys assms(2), of "(tag, guest)" raw] tracks_key_Nil [OF pos]
    by (auto simp del: filter_append split: if_splits)
  then show ?thesis
    using tracks_key_mono [OF keys assms(2)] by (auto simp: tracks_def)
qed

lemma tracker_run_refines:
  "tracks now0 lg t \<Longrightarrow> sorted (now0 # map (fst \<circ> snd) os)
   \<Longrightarrow> tracker_run t os = spec_run (rt_threshold t) (rt_window_secs t) lg os"
proof (induction t os arbitrary: lg now0 rule: tracker_run.induct)
  case (2 t tag guest now raw os)
  obtain t' b where rec: "record_occurrence t tag guest now raw = (t', b)" by fastforce
  have le: "now0 \<le> now" using "2.prems"(2) by simp
  let ?lg = "lg((tag, guest) := if b = None then lg (tag, guest) @ [(now, raw)] else [])"
  have t': "tracks now ?lg t'" "rt_threshold t' = rt_threshold t" "rt_window_secs t' = rt_window_secs t"
    using tracks_step [OF "2.prems"(1) le rec] by auto
  have "sorted (now # map (fst \<circ> snd) os)" using "2.prems"(2) by (simp add: o_def)
  from "2.IH" [OF rec [symmetric] t'(1) this]
  have "tracker_run t' os = spec_run (rt_threshold t) (rt_window_secs t) ?lg os"
    unfolding t'(2,3) .
  then show ?case
    using record_occurrence_cases [OF "2.prems"(1) le, of tag guest raw] rec
    by (auto simp: Let_def split: if_splits)
qed simp

text \<open>C25. With a clock that does not run backwards, the sliding-window tracker reports exactly
  the breaches of the specification, with the same counts and evidence: on an occurrence it
  breaches iff the key's occurrences since its last breach that lie within the window reach the
  threshold. Its pruning and its memory bound never change an answer.\<close>

theorem tracker_refines_window_count:
  assumes "sorted (map (fst \<circ> snd) os)"
  shows "tracker_run (RecurrenceTracker_new threshold window_secs) os
         = spec_run (max threshold 1) (max window_secs 1) (\<lambda>_. []) os"
proof -
  have "tracks 0 (\<lambda>_. []) (RecurrenceTracker_new threshold window_secs)"
    by (auto simp: tracks_def RecurrenceTracker_new_def intro!: tracks_key_Nil)
  from tracker_run_refines [OF this] assms show ?thesis
    by (simp add: RecurrenceTracker_new_def)
qed

theorem tracker_refines_window_count_witness:
  "tracker_run (RecurrenceTracker_new 2 10)
     [((''panic'', ''g''), 0, ''a''), ((''panic'', ''g''), 20, ''b''), ((''panic'', ''g''), 25, ''c'')]
   = [None, None, Some \<lparr>br_count = 2, br_evidence = [''b'', ''c'']\<rparr>]"
proof -
  have "cap_evidence_lines [''b'', ''c''] = [''b'', ''c'']"
    by (simp add: cap_evidence_lines_def MAX_HEAL_EVIDENCE_LINES_def MAX_HEAL_EVIDENCE_BYTES_def
        truncate_line_def)
  then show ?thesis
    by (subst tracker_refines_window_count) (simp_all add: Let_def)
qed

end
