(* ===== verification/NodeStore.thy ===== *)
theory NodeStore
  imports Tables Autonomy HealQueue
begin

section \<open>The graph store\<close>

text \<open>
  Models the node half of the \<open>GraphAdapter\<close> contract
  (\<^verbatim>\<open>crates/ansible-mesh-core/src/storage.rs\<close>) and its SQLite implementation
  (\<^verbatim>\<open>sqlite_storage.rs\<close>). The table \<^verbatim>\<open>graph_nodes\<close> is an association list kept in the order of
  its primary key, which is also the order every \<open>SELECT\<close> of the adapter asks for. The JSON
  column holds the serialised record of the node's kind; \<open>node_data\<close> is that record, and a
  payload that does not deserialise as the caller's type is a decode error.

  A storage call can fail. The store carries the schedule of the failures to come, one flag per
  adapter call; a failing call changes nothing. The theorems hold for every schedule.
\<close>

subsection \<open>The table\<close>

datatype node_data =
    DGrant AutonomyGrant
  | DAudit AutonomyAuditRecord
  | DHealItem HealWorkItemRecord
  | DOther string

record GraphNode =
  node_key :: string
  node_kind :: string
  node_label :: "string option"
  node_payload :: node_data

type_synonym table = "(string \<times> GraphNode) list"

subsection \<open>Adapter calls\<close>

datatype gerror = StorageError | DecodeError

record graph_db =
  nodes :: table
  faults :: "bool list"

type_synonym 'a gm = "graph_db \<Rightarrow> (gerror + 'a) \<times> graph_db"

definition gret :: "'a \<Rightarrow> 'a gm" where
  "gret x = (\<lambda>s. (Inr x, s))"

definition gfail :: "gerror \<Rightarrow> 'a gm" where
  "gfail e = (\<lambda>s. (Inl e, s))"

text \<open>Rust's \<open>?\<close>: stop at the first error.\<close>

definition gbind :: "'a gm \<Rightarrow> ('a \<Rightarrow> 'b gm) \<Rightarrow> 'b gm" where
  "gbind m f = (\<lambda>s. case m s of (Inl e, s') \<Rightarrow> (Inl e, s') | (Inr x, s') \<Rightarrow> f x s')"

definition adapter_call :: "(table \<Rightarrow> 'a \<times> table) \<Rightarrow> 'a gm" where
  "adapter_call f =
     (\<lambda>s. case faults s of
            True # fs \<Rightarrow> (Inl StorageError, s\<lparr>faults := fs\<rparr>)
          | _ \<Rightarrow> (Inr (fst (f (nodes s))), s\<lparr>nodes := snd (f (nodes s)), faults := tl (faults s)\<rparr>))"

definition upsert_node :: "GraphNode \<Rightarrow> unit gm" where
  "upsert_node n = adapter_call (\<lambda>t. ((), tbl_put (node_key n) n t))"

definition get_node :: "string \<Rightarrow> GraphNode option gm" where
  "get_node k = adapter_call (\<lambda>t. (tbl_get t k, t))"

definition list_nodes_by_kind :: "string \<Rightarrow> GraphNode list gm" where
  "list_nodes_by_kind kind = adapter_call (\<lambda>t. (filter (\<lambda>n. node_kind n = kind) (map snd t), t))"

lemma gbind_assoc: "gbind (gbind m f) g = gbind m (\<lambda>x. gbind (f x) g)"
  by (auto simp: gbind_def fun_eq_iff split: prod.splits sum.splits)

lemma gbind_ret [simp]: "gbind (gret x) f = f x" "gbind m gret = m"
  by (auto simp: gbind_def gret_def fun_eq_iff split: prod.splits sum.splits)

end
