(* ===== verification/TrustLedger.thy ===== *)
theory TrustLedger
  imports NodeStore
begin

section \<open>The trust ledger: grants, audits and heal work items over the graph store\<close>

text \<open>
  Models the autonomy and heal-work-item methods of \<open>GraphDomain\<close>
  (\<^verbatim>\<open>crates/ansible-mesh-core/src/domain/mod.rs\<close>), the hotel's IPC handlers that call them
  (\<^verbatim>\<open>crates/aiua/src/service/ipc.rs\<close>: filing a heal work item, consuming an autonomous action,
  recording a reviewed outcome, the two status queries and the heal intake) and the
  timeout-to-Neutral sweep (\<^verbatim>\<open>crates/aiua/src/autonomy_sweep.rs\<close>). Every adapter call may fail.
  The text of a storage error and the log lines are left out; generated ids and clocks are
  arguments.
\<close>

subsection \<open>GraphDomain\<close>

definition NODE_KIND_AUTONOMY_GRANT :: string where "NODE_KIND_AUTONOMY_GRANT = ''autonomy_grant''"
definition NODE_KIND_AUTONOMY_AUDIT :: string where "NODE_KIND_AUTONOMY_AUDIT = ''autonomy_audit''"
definition NODE_KIND_HEAL_WORK_ITEM :: string where "NODE_KIND_HEAL_WORK_ITEM = ''heal_work_item''"

definition autonomy_grant_key :: "string \<Rightarrow> string" where
  "autonomy_grant_key lane = NODE_KIND_AUTONOMY_GRANT @ '':'' @ lane"

definition autonomy_audit_key :: "string \<Rightarrow> string" where
  "autonomy_audit_key aid = NODE_KIND_AUTONOMY_AUDIT @ '':'' @ aid"

definition heal_work_item_key :: "string \<Rightarrow> string" where
  "heal_work_item_key wid = NODE_KIND_HEAL_WORK_ITEM @ '':'' @ wid"

fun decode_grant :: "node_data \<Rightarrow> AutonomyGrant gm" where
  "decode_grant (DGrant g) = gret g"
| "decode_grant _ = gfail DecodeError"

fun decode_audit :: "node_data \<Rightarrow> AutonomyAuditRecord gm" where
  "decode_audit (DAudit a) = gret a"
| "decode_audit _ = gfail DecodeError"

fun decode_item :: "node_data \<Rightarrow> HealWorkItemRecord gm" where
  "decode_item (DHealItem i) = gret i"
| "decode_item _ = gfail DecodeError"

fun decode_all :: "(node_data \<Rightarrow> 'a gm) \<Rightarrow> GraphNode list \<Rightarrow> 'a list gm" where
  "decode_all dec [] = gret []"
| "decode_all dec (n # ns) =
     gbind (dec (node_payload n)) (\<lambda>x. gbind (decode_all dec ns) (\<lambda>xs. gret (x # xs)))"

definition upsert_autonomy_grant :: "AutonomyGrant \<Rightarrow> unit gm" where
  "upsert_autonomy_grant g =
     upsert_node \<lparr>node_key = autonomy_grant_key (lane_str (g_lane g)),
                  node_kind = NODE_KIND_AUTONOMY_GRANT,
                  node_label = Some (lane_str (g_lane g)), node_payload = DGrant g\<rparr>"

definition get_autonomy_grant :: "string \<Rightarrow> AutonomyGrant option gm" where
  "get_autonomy_grant lane =
     gbind (get_node (autonomy_grant_key lane)) (\<lambda>r.
       case r of None \<Rightarrow> gret None
               | Some n \<Rightarrow> gbind (decode_grant (node_payload n)) (\<lambda>g. gret (Some g)))"

definition get_or_create_autonomy_grant :: "string \<Rightarrow> nat \<Rightarrow> AutonomyGrant gm" where
  "get_or_create_autonomy_grant lane now =
     gbind (get_autonomy_grant lane) (\<lambda>r.
       case r of
         Some g \<Rightarrow> gret g
       | None \<Rightarrow>
           (let g = AutonomyGrant_new (AutonomyLane lane) now
            in gbind (upsert_autonomy_grant g) (\<lambda>_. gret g)))"

definition list_autonomy_grants :: "AutonomyGrant list gm" where
  "list_autonomy_grants = gbind (list_nodes_by_kind NODE_KIND_AUTONOMY_GRANT) (decode_all decode_grant)"

definition record_autonomy_audit :: "AutonomyAuditRecord \<Rightarrow> unit gm" where
  "record_autonomy_audit a =
     upsert_node \<lparr>node_key = autonomy_audit_key (audit_id a),
                  node_kind = NODE_KIND_AUTONOMY_AUDIT,
                  node_label = Some (lane_str (a_lane a)), node_payload = DAudit a\<rparr>"

fun posture_debug :: "AutonomyPosture \<Rightarrow> string" where
  "posture_debug ProposalOnly = ''ProposalOnly''"
| "posture_debug ConfirmFirst = ''ConfirmFirst''"
| "posture_debug AutoWithAudit = ''AutoWithAudit''"

definition freeze_audit :: "string \<Rightarrow> AutonomyGrant \<Rightarrow> nat \<Rightarrow> AutonomyAuditRecord" where
  "freeze_audit lane g now =
     (let cf = dec_of_nat (consecutive_failures (g_earned g));
          mx = dec_of_nat (max_consecutive_failures (g_budget g))
      in AutonomyAuditRecord_new
           (''freeze:'' @ lane @ '':'' @ dec_of_nat now) (g_lane g)
           (''lane frozen: '' @ cf @ '' consecutive failures reached ceiling '' @ mx)
           (''consecutive_failures='' @ cf @ '' max_consecutive_failures='' @ mx
            @ '' posture retained at '' @ posture_debug (g_posture g))
           ''operator review: clear via GraphDomain::clear_autonomy_freeze''
           (g_posture g) now)"

definition record_autonomy_outcome :: "string \<Rightarrow> Outcome \<Rightarrow> nat \<Rightarrow> Transition gm" where
  "record_autonomy_outcome lane out now =
     gbind (get_or_create_autonomy_grant lane now) (\<lambda>g0.
       (case record_outcome g0 out now of (g, transition) \<Rightarrow>
          gbind (upsert_autonomy_grant g) (\<lambda>_.
            if transition = Frozen
            then gbind (record_autonomy_audit (freeze_audit lane g now)) (\<lambda>_. gret transition)
            else gret transition)))"

definition clear_autonomy_freeze :: "string \<Rightarrow> nat \<Rightarrow> bool gm" where
  "clear_autonomy_freeze lane now =
     gbind (get_autonomy_grant lane) (\<lambda>r.
       case r of
         None \<Rightarrow> gret False
       | Some g \<Rightarrow> gbind (upsert_autonomy_grant (clear_freeze g now)) (\<lambda>_. gret True))"

definition get_autonomy_audit :: "string \<Rightarrow> AutonomyAuditRecord option gm" where
  "get_autonomy_audit aid =
     gbind (get_node (autonomy_audit_key aid)) (\<lambda>r.
       case r of None \<Rightarrow> gret None
               | Some n \<Rightarrow> gbind (decode_audit (node_payload n)) (\<lambda>a. gret (Some a)))"

definition list_all_autonomy_audits :: "AutonomyAuditRecord list gm" where
  "list_all_autonomy_audits =
     gbind (list_nodes_by_kind NODE_KIND_AUTONOMY_AUDIT) (\<lambda>ns.
       gbind (decode_all decode_audit ns) (\<lambda>out. gret (sort_key a_created_at out)))"

definition list_autonomy_audits_by_lane :: "string \<Rightarrow> AutonomyAuditRecord list gm" where
  "list_autonomy_audits_by_lane lane =
     gbind (list_nodes_by_kind NODE_KIND_AUTONOMY_AUDIT) (\<lambda>ns.
       gbind (decode_all decode_audit ns) (\<lambda>out.
         gret (sort_key a_created_at (filter (\<lambda>r. lane_str (a_lane r) = lane) out))))"

definition set_autonomy_audit_outcome :: "string \<Rightarrow> AuditOutcome \<Rightarrow> nat \<Rightarrow> bool gm" where
  "set_autonomy_audit_outcome aid out now =
     gbind (get_autonomy_audit aid) (\<lambda>r.
       case r of
         None \<Rightarrow> gret False
       | Some a \<Rightarrow>
           gbind (record_autonomy_audit (a\<lparr>a_outcome := out, a_updated_at := now\<rparr>)) (\<lambda>_. gret True))"

definition upsert_heal_work_item :: "HealWorkItemRecord \<Rightarrow> unit gm" where
  "upsert_heal_work_item i =
     upsert_node \<lparr>node_key = heal_work_item_key (work_item_id i),
                  node_kind = NODE_KIND_HEAL_WORK_ITEM,
                  node_label = Some (wi_pattern_tag i @ ''@'' @ wi_guest_id i),
                  node_payload = DHealItem i\<rparr>"

definition get_heal_work_item :: "string \<Rightarrow> HealWorkItemRecord option gm" where
  "get_heal_work_item wid =
     gbind (get_node (heal_work_item_key wid)) (\<lambda>r.
       case r of None \<Rightarrow> gret None
               | Some n \<Rightarrow> gbind (decode_item (node_payload n)) (\<lambda>i. gret (Some i)))"

definition list_heal_work_items :: "HealWorkItemRecord list gm" where
  "list_heal_work_items =
     gbind (list_nodes_by_kind NODE_KIND_HEAL_WORK_ITEM) (\<lambda>ns.
       gbind (decode_all decode_item ns) (\<lambda>out. gret (sort_key wi_created_at out)))"

definition find_open_heal_work_item :: "string \<Rightarrow> string \<Rightarrow> HealWorkItemRecord option gm" where
  "find_open_heal_work_item tag guest =
     gbind list_heal_work_items (\<lambda>items.
       gret (find (\<lambda>i. wi_status i = HEAL_WORK_ITEM_STATUS_OPEN \<and> wi_pattern_tag i = tag
                      \<and> wi_guest_id i = guest) items))"

definition close_heal_work_item :: "string \<Rightarrow> nat \<Rightarrow> bool gm" where
  "close_heal_work_item wid now =
     gbind (get_heal_work_item wid) (\<lambda>r.
       case r of
         None \<Rightarrow> gret False
       | Some i \<Rightarrow>
           gbind (upsert_heal_work_item
                    (i\<lparr>wi_status := HEAL_WORK_ITEM_STATUS_CLOSED, wi_last_seen := now\<rparr>))
             (\<lambda>_. gret True))"

subsection \<open>IPC responses\<close>

datatype IpcResponse =
    IpcSuccess string "json option"
  | IpcError string string
  | ConfigData string json

text \<open>The recurring \<^verbatim>\<open>match ... Err(e) => return IpcResponse::error(CORR, "STORAGE_ERROR", ..)\<close>.\<close>

definition or_storage_error ::
  "string \<Rightarrow> 'a gm \<Rightarrow> ('a \<Rightarrow> graph_db \<Rightarrow> IpcResponse \<times> graph_db) \<Rightarrow> graph_db \<Rightarrow> IpcResponse \<times> graph_db"
where
  "or_storage_error corr m k s =
     (case m s of (Inl e, s') \<Rightarrow> (IpcError corr ''STORAGE_ERROR'', s') | (Inr x, s') \<Rightarrow> k x s')"

fun posture_str :: "AutonomyPosture \<Rightarrow> string" where
  "posture_str ProposalOnly = ''proposal_only''"
| "posture_str ConfirmFirst = ''confirm_first''"
| "posture_str AutoWithAudit = ''auto_with_audit''"

fun transition_str :: "Transition \<Rightarrow> string" where
  "transition_str NoChange = ''no_change''"
| "transition_str (Promoted f t) = ''promoted''"
| "transition_str (Demoted f t) = ''demoted''"
| "transition_str Frozen = ''frozen''"

definition reply :: "string \<Rightarrow> (string \<times> json) list \<Rightarrow> IpcResponse" where
  "reply corr kvs = IpcSuccess corr (Some (JObj kvs))"

definition refusal_reason :: "AutonomyGrant \<Rightarrow> string" where
  "refusal_reason g =
     (if frozen_until_operator_review g then ''lane_frozen'' else ''daily_budget_exhausted'')"

subsection \<open>Consuming an autonomous action\<close>

definition handle_consume_autonomy_action ::
  "string \<Rightarrow> string \<Rightarrow> string \<Rightarrow> string \<Rightarrow> nat \<Rightarrow> (string \<Rightarrow> string option) \<Rightarrow> string
   \<Rightarrow> graph_db \<Rightarrow> IpcResponse \<times> graph_db"
where
  "handle_consume_autonomy_action lane summary evidence hint now env uuid s =
     (let corr = ''consume_autonomy_action'' in
      if trim lane = [] then (IpcError corr ''INVALID_LANE'', s)
      else if \<not> lane_enabled (AutonomyLane lane) env
      then (reply corr [(''allowed'', JBool False), (''reason'', JStr ''lane_disabled'')], s)
      else
        or_storage_error corr (get_or_create_autonomy_grant lane now) (\<lambda>g0 s0.
          if g_posture g0 = ProposalOnly
          then (reply corr [(''allowed'', JBool False), (''posture'', JStr ''proposal_only''),
                            (''reason'', JStr ''posture_proposal_only'')], s0)
          else
            (case try_consume_daily_action g0 now of (g, ok) \<Rightarrow>
               if \<not> ok
               then (reply corr [(''allowed'', JBool False), (''posture'', JStr (posture_str (g_posture g))),
                                 (''reason'', JStr (refusal_reason g))], s0)
               else
                 or_storage_error corr (upsert_autonomy_grant g) (\<lambda>_ s1.
                   (let aid = ''autonomy:'' @ lane @ '':'' @ uuid;
                        audit = AutonomyAuditRecord_new aid (AutonomyLane lane) summary evidence hint
                                  (g_posture g) now
                    in or_storage_error corr (record_autonomy_audit audit) (\<lambda>_ s2.
                         (reply corr [(''allowed'', JBool (g_posture g = AutoWithAudit)),
                                      (''posture'', JStr (posture_str (g_posture g))),
                                      (''audit_id'', JStr aid)], s2)) s1)) s0)) s)"

subsection \<open>Recording a reviewed outcome\<close>

definition outcome_of_str :: "string \<Rightarrow> (AuditOutcome \<times> Outcome option) option" where
  "outcome_of_str out =
     (if out = ''confirmed_good'' then Some (AO_ConfirmedGood, Some ConfirmedGood)
      else if out = ''reversed'' then Some (AO_Reversed, Some OperatorReversal)
      else if out = ''neutral'' then Some (AO_Neutral, None)
      else None)"

text \<open>A neutral review carries no grant outcome and stops at the stamp.\<close>

definition apply_grant_outcome :: "Outcome option \<Rightarrow> string \<Rightarrow> nat \<Rightarrow> Transition gm" where
  "apply_grant_outcome go lane now =
     (case go of Some out \<Rightarrow> record_autonomy_outcome lane out now | None \<Rightarrow> gret NoChange)"

definition handle_record_autonomy_outcome ::
  "string \<Rightarrow> string \<Rightarrow> nat \<Rightarrow> graph_db \<Rightarrow> IpcResponse \<times> graph_db" where
  "handle_record_autonomy_outcome aid out now s =
     (let corr = ''record_autonomy_outcome'' in
      case outcome_of_str out of
        None \<Rightarrow> (IpcError corr ''INVALID_OUTCOME'', s)
      | Some (audit_outcome, grant_outcome) \<Rightarrow>
          or_storage_error corr (get_autonomy_audit aid) (\<lambda>r s0.
            case r of
              None \<Rightarrow> (IpcError corr ''AUDIT_NOT_FOUND'', s0)
            | Some audit \<Rightarrow>
                (let lane = lane_str (a_lane audit) in
                 if a_outcome audit \<noteq> AO_Pending
                 then (reply corr [(''recorded'', JBool False), (''reason'', JStr ''already_recorded''),
                                   (''lane'', JStr lane)], s0)
                 else
                   or_storage_error corr (set_autonomy_audit_outcome aid audit_outcome now) (\<lambda>_ s1.
                     or_storage_error corr (apply_grant_outcome grant_outcome lane now) (\<lambda>transition s2.
                       (case get_autonomy_grant lane s2 of (r2, s3) \<Rightarrow>
                          (reply corr
                             [(''recorded'', JBool True), (''lane'', JStr lane),
                              (''transition'', JStr (transition_str transition)),
                              (''posture'', case r2 of
                                  Inr (Some g) \<Rightarrow> JStr (posture_str (g_posture g))
                                | _ \<Rightarrow> JNull)], s3))) s1) s0)) s)"

subsection \<open>Filing a heal work item\<close>

text \<open>What the heal queue's two pushes draw from outside: its clock and a generated id each, and
  the Unicode table of the dedup key.\<close>

record hq_env =
  he_tbl :: "string \<Rightarrow> string"
  he_now1 :: int
  he_id1 :: string
  he_now2 :: int
  he_id2 :: string

definition work_item_notice :: "string \<Rightarrow> string \<Rightarrow> nat \<Rightarrow> nat \<Rightarrow> string \<Rightarrow> string" where
  "work_item_notice tag guest occ window wid =
     ''work_item_filed: recurring pattern '' @ [CHR 0x27] @ tag @ [CHR 0x27] @ '' on '' @ guest @ '' (''
     @ dec_of_nat occ @ ''x/'' @ dec_of_nat window @ ''s) -> heal_work_item '' @ wid"

text \<open>Steps 5 and 6 of the handler: one resolved info row, then the throttled pending-outcome
  notice. Errors are only logged.\<close>

definition file_visibility ::
  "hq_env \<Rightarrow> string \<Rightarrow> string \<Rightarrow> nat \<Rightarrow> nat \<Rightarrow> string \<Rightarrow> AutonomyAuditRecord \<Rightarrow> heal_queue \<Rightarrow> heal_queue"
where
  "file_visibility he tag guest occ window wid audit q =
     (let q1 = (case push_error_at (he_tbl he) q guest (work_item_notice tag guest occ window wid)
                       (he_now1 he) (he_id1 he) of
                  Inl e \<Rightarrow> q
                | Inr (q', entry) \<Rightarrow>
                    resolve (update_triage q' entry ''info'' tag ''work_item_filed'') entry
                      ''work_item_filed'');
          notice = pending_outcome_notice (audit_id audit) LANE_FLEET_HEAL_SLICES (action_summary audit)
      in case push_classified_at q1 LANE_FLEET_HEAL_SLICES notice ''info'' ''autonomy_outcome_pending''
                (he_now2 he) (he_id2 he) of
           Inl e \<Rightarrow> q1
         | Inr (q2, _) \<Rightarrow> q2)"

definition filing_provenance :: "string \<Rightarrow> string list \<Rightarrow> string \<Rightarrow> ProvenanceEnvelope" where
  "filing_provenance tag evidence wid =
     with_reversal
       (with_evidence
         (with_trust (with_source (from_component ''heal-dispatcher'') tag) Observed) evidence)
       (''close_heal_work_item('' @ wid @ '') via GraphDomain::close_heal_work_item'')"

definition filing_audit ::
  "string \<Rightarrow> string \<Rightarrow> nat \<Rightarrow> nat \<Rightarrow> string list \<Rightarrow> AutonomyPosture \<Rightarrow> nat \<Rightarrow> string \<Rightarrow> AutonomyAuditRecord"
where
  "filing_audit tag guest occ window evidence posture now wid =
     with_provenance
       (AutonomyAuditRecord_new (''heal_filing:'' @ wid) (AutonomyLane LANE_FLEET_HEAL_SLICES)
         (''filed heal work item '' @ wid @ '': pattern '' @ [CHR 0x27] @ tag @ [CHR 0x27] @ '' on guest ''
          @ [CHR 0x27] @ guest @ [CHR 0x27] @ '' recurred '' @ dec_of_nat occ @ ''x within ''
          @ dec_of_nat window @ ''s'')
         (join [CHR 0x0A] evidence)
         ''close the work item (GraphDomain::close_heal_work_item)'' posture now)
       (filing_provenance tag evidence wid)"

definition filing_item ::
  "string \<Rightarrow> string \<Rightarrow> nat \<Rightarrow> nat \<Rightarrow> string list \<Rightarrow> nat \<Rightarrow> string \<Rightarrow> HealWorkItemRecord" where
  "filing_item tag guest occ window evidence now wid =
     \<lparr>work_item_id = wid, wi_pattern_tag = tag, wi_guest_id = guest, wi_count = occ,
      wi_window_secs = window, wi_evidence = evidence, wi_status = HEAL_WORK_ITEM_STATUS_OPEN,
      filed_by = ''heal-dispatcher'', wi_audit_id = Some (''heal_filing:'' @ wid),
      wi_created_at = now, wi_last_seen = now\<rparr>"

text \<open>Steps 1 to 4: the graph part. The \<open>Some\<close> answer carries the filed audit to the visibility
  steps.\<close>

definition file_heal_work_item_graph ::
  "string \<Rightarrow> string \<Rightarrow> nat \<Rightarrow> nat \<Rightarrow> string list \<Rightarrow> nat \<Rightarrow> (string \<Rightarrow> string option) \<Rightarrow> string
   \<Rightarrow> graph_db \<Rightarrow> IpcResponse \<times> graph_db \<times> AutonomyAuditRecord option"
where
  "file_heal_work_item_graph tag guest occ window lines now env wid s =
     (let corr = ''file_heal_work_item'';
          stop = (\<lambda>rs. (fst rs, snd rs, None));
          err = (\<lambda>s. (IpcError corr ''STORAGE_ERROR'', s, None))
      in if \<not> lane_enabled (AutonomyLane LANE_FLEET_HEAL_SLICES) env
         then (reply corr [(''filed'', JBool False), (''deduped'', JBool False),
                           (''reason'', JStr ''lane_disabled'')], s, None)
         else case find_open_heal_work_item tag guest s of
           (Inl e, s0) \<Rightarrow> err s0
         | (Inr (Some item), s0) \<Rightarrow>
             stop (or_storage_error corr
                     (upsert_heal_work_item
                        (item\<lparr>wi_count := sat_add32 (wi_count item) occ, wi_last_seen := now\<rparr>))
                     (\<lambda>_ s1. (reply corr [(''filed'', JBool False), (''deduped'', JBool True),
                                          (''work_item_id'', JStr (work_item_id item))], s1)) s0)
         | (Inr None, s0) \<Rightarrow>
             (case get_or_create_autonomy_grant LANE_FLEET_HEAL_SLICES now s0 of
                (Inl e, s1) \<Rightarrow> err s1
              | (Inr g0, s1) \<Rightarrow>
                  (case try_consume_daily_action g0 now of (g, ok) \<Rightarrow>
                     if \<not> ok
                     then (reply corr [(''filed'', JBool False), (''deduped'', JBool False),
                                       (''reason'', JStr (refusal_reason g))], s1, None)
                     else case upsert_autonomy_grant g s1 of
                       (Inl e, s2) \<Rightarrow> err s2
                     | (Inr _, s2) \<Rightarrow>
                         (let evidence = cap_evidence_lines lines;
                              audit = filing_audit tag guest occ window evidence (g_posture g) now wid
                          in case record_autonomy_audit audit s2 of
                               (Inl e, s3) \<Rightarrow> err s3
                             | (Inr _, s3) \<Rightarrow>
                                 (case upsert_heal_work_item
                                         (filing_item tag guest occ window evidence now wid) s3 of
                                    (Inl e, s4) \<Rightarrow> err s4
                                  | (Inr _, s4) \<Rightarrow>
                                      (reply corr [(''filed'', JBool True), (''deduped'', JBool False),
                                                   (''work_item_id'', JStr wid),
                                                   (''audit_id'', JStr (audit_id audit))],
                                       s4, Some audit))))))"

definition handle_file_heal_work_item ::
  "hq_env \<Rightarrow> string \<Rightarrow> string \<Rightarrow> nat \<Rightarrow> nat \<Rightarrow> string list \<Rightarrow> nat \<Rightarrow> (string \<Rightarrow> string option) \<Rightarrow> string
   \<Rightarrow> graph_db \<times> heal_queue option \<Rightarrow> IpcResponse \<times> graph_db \<times> heal_queue option"
where
  "handle_file_heal_work_item he tag guest occ window lines now env wid sq =
     (case file_heal_work_item_graph tag guest occ window lines now env wid (fst sq) of
        (resp, s, None) \<Rightarrow> (resp, s, snd sq)
      | (resp, s, Some audit) \<Rightarrow>
          (resp, s, map_option (file_visibility he tag guest occ window wid audit) (snd sq)))"

subsection \<open>Heal intake\<close>

definition push_turn_failure_heal_entry ::
  "(string \<Rightarrow> string) \<Rightarrow> string option \<Rightarrow> string \<Rightarrow> string \<Rightarrow> int \<Rightarrow> string \<Rightarrow> heal_queue option \<Rightarrow> heal_queue option"
where
  "push_turn_failure_heal_entry tbl caller code reason now fresh hq =
     (case hq of
        None \<Rightarrow> None
      | Some q \<Rightarrow>
          (let full_line = ''['' @ code @ ''] '' @ reason in
           case classify_turn_failure tbl full_line of
             None \<Rightarrow> Some q
           | Some cls \<Rightarrow>
               (let guest = (case tf_provider cls of
                               Some p \<Rightarrow> ''model-controller-'' @ p
                             | None \<Rightarrow> ''turn:'' @ (case caller of Some c \<Rightarrow> c | None \<Rightarrow> ''unknown''))
                in case push_classified_at q guest (cap_turn_failure_text full_line) (tf_severity cls)
                          (tf_pattern_tag cls) now fresh of
                     Inl e \<Rightarrow> Some q
                   | Inr (q', _) \<Rightarrow> Some q')))"

definition handle_push_heal_event ::
  "string \<Rightarrow> string \<Rightarrow> string \<Rightarrow> string \<Rightarrow> int \<Rightarrow> string \<Rightarrow> heal_queue option \<Rightarrow> IpcResponse \<times> heal_queue option"
where
  "handle_push_heal_event guest severity tag detail now fresh hq =
     (let corr = ''push_heal_event'' in
      case hq of
        None \<Rightarrow> (IpcError corr ''UNAVAILABLE'', None)
      | Some q \<Rightarrow>
          (case push_classified_at q guest (cap_turn_failure_text detail) severity tag now fresh of
             Inr (q', Some i) \<Rightarrow> (reply corr [(''collapsed'', JBool False), (''id'', JStr i)], Some q')
           | Inr (q', None) \<Rightarrow> (reply corr [(''collapsed'', JBool True)], Some q')
           | Inl e \<Rightarrow> (IpcError corr ''STORAGE_ERROR'', Some q)))"

subsection \<open>Queries\<close>

definition report_json :: "LaneStatusReport \<Rightarrow> json" where
  "report_json r =
     JObj [(''lane'', JStr (lane_str (lsr_lane r))), (''posture'', JStr (posture_str (lsr_posture r))),
           (''frozen_until_operator_review'', JBool (lsr_frozen r)),
           (''actions_today'', JNum (lsr_actions_today r)),
           (''max_actions_per_day'', JNum (lsr_max_actions_per_day r)),
           (''consecutive_failures'', JNum (lsr_consecutive_failures r)),
           (''max_consecutive_failures'', JNum (lsr_max_consecutive_failures r)),
           (''confirmed_good_streak'', JNum (lsr_confirmed_good_streak r)),
           (''required_for_promotion'', JNum (lsr_required_for_promotion r)),
           (''promotion_eligible'', JBool (lsr_promotion_eligible r))]"

definition handle_query_autonomy_status ::
  "string option \<Rightarrow> nat \<Rightarrow> graph_db \<Rightarrow> IpcResponse \<times> graph_db" where
  "handle_query_autonomy_status lane now s =
     (case lane of
        Some l \<Rightarrow>
          (case get_autonomy_grant l s of (r, s') \<Rightarrow>
             (ConfigData (''__autonomy_status__:'' @ l)
                (case r of Inr (Some g) \<Rightarrow> report_json (lane_status_report g now) | _ \<Rightarrow> JNull), s'))
      | None \<Rightarrow>
          (case list_autonomy_grants s of (r, s') \<Rightarrow>
             (ConfigData ''__autonomy_status__''
                (JArr (map (\<lambda>g. report_json (lane_status_report g now))
                         (case r of Inr gs \<Rightarrow> gs | Inl _ \<Rightarrow> []))), s')))"

definition handle_query_autonomy_pending :: "nat \<Rightarrow> graph_db \<Rightarrow> IpcResponse \<times> graph_db" where
  "handle_query_autonomy_pending now s =
     (case list_all_autonomy_audits s of (r, s') \<Rightarrow>
        (ConfigData ''__autonomy_pending__''
           (JArr (map (\<lambda>a. JObj [(''audit_id'', JStr (audit_id a)), (''lane'', JStr (lane_str (a_lane a))),
                                 (''action_summary'', JStr (action_summary a)),
                                 (''created_at'', JNum (a_created_at a)),
                                 (''age_secs'', JNum (now - a_created_at a))])
                    (filter (\<lambda>a. a_outcome a = AO_Pending)
                      (case r of Inr rs \<Rightarrow> rs | Inl _ \<Rightarrow> [])))), s'))"

subsection \<open>The timeout-to-Neutral sweep\<close>

record SweepOutcome =
  sw_hotel :: string
  sw_scanned :: nat
  sw_stamped :: "string list"
  sw_errors :: "(string \<times> gerror option) list"

definition sweep_one :: "nat \<Rightarrow> AutonomyAuditRecord \<Rightarrow> SweepOutcome \<times> graph_db \<Rightarrow> SweepOutcome \<times> graph_db" where
  "sweep_one now r os =
     (case os of (oc, s) \<Rightarrow>
        (case set_autonomy_audit_outcome (audit_id r) AO_Neutral now s of
           (Inr True, s') \<Rightarrow> (oc\<lparr>sw_stamped := sw_stamped oc @ [audit_id r]\<rparr>, s')
         | (Inr False, s') \<Rightarrow> (oc\<lparr>sw_errors := sw_errors oc @ [(audit_id r, None)]\<rparr>, s')
         | (Inl e, s') \<Rightarrow> (oc\<lparr>sw_errors := sw_errors oc @ [(audit_id r, Some e)]\<rparr>, s')))"

definition run_sweep :: "string \<Rightarrow> nat \<Rightarrow> nat \<Rightarrow> graph_db \<Rightarrow> SweepOutcome \<times> graph_db" where
  "run_sweep hotel now window_secs s =
     (let oc = \<lparr>sw_hotel = hotel, sw_scanned = 0, sw_stamped = [], sw_errors = []\<rparr> in
      case list_all_autonomy_audits s of
        (Inl e, s') \<Rightarrow> (oc\<lparr>sw_errors := [(''list_all_autonomy_audits'', Some e)]\<rparr>, s')
      | (Inr records, s') \<Rightarrow>
          fold (sweep_one now) (select_due_for_neutral records now window_secs)
            (oc\<lparr>sw_scanned := length records\<rparr>, s'))"

definition run_scheduled_sweep ::
  "(string \<Rightarrow> string option) \<Rightarrow> string \<Rightarrow> nat \<Rightarrow> graph_db \<Rightarrow> SweepOutcome \<times> graph_db" where
  "run_scheduled_sweep env hotel now_secs s =
     run_sweep hotel now_secs (min (neutral_after_days_from_env env * 86400) u64_max) s"

definition autonomy_sweep_job_id :: "string \<Rightarrow> string" where
  "autonomy_sweep_job_id hotel = ''autonomy-outcome-sweep:'' @ hotel"

section \<open>What the ledger holds\<close>

text \<open>
  \<open>ledger_wf\<close>: the table is in key order and every node sits under the key of its record and
  carries its kind; the nodes of other kinds keep off these keys. \<open>grants_of\<close>, \<open>audits_of\<close> and
  \<open>items_of\<close> are the abstract ledger, three maps; the domain operations are rewritten to
  updates of these maps, with \<open>fault\<close> saying that the next adapter call fails and \<open>tick\<close>
  consuming one entry of the schedule.
\<close>

definition node_ok :: "string \<Rightarrow> GraphNode \<Rightarrow> bool" where
  "node_ok k n \<longleftrightarrow> node_key n = k \<and>
     (case node_payload n of
        DGrant g \<Rightarrow> node_kind n = NODE_KIND_AUTONOMY_GRANT \<and> k = autonomy_grant_key (lane_str (g_lane g))
      | DAudit a \<Rightarrow> node_kind n = NODE_KIND_AUTONOMY_AUDIT \<and> k = autonomy_audit_key (audit_id a)
      | DHealItem i \<Rightarrow> node_kind n = NODE_KIND_HEAL_WORK_ITEM \<and> k = heal_work_item_key (work_item_id i)
      | DOther _ \<Rightarrow>
          node_kind n \<notin> {NODE_KIND_AUTONOMY_GRANT, NODE_KIND_AUTONOMY_AUDIT, NODE_KIND_HEAL_WORK_ITEM}
          \<and> \<not> starts_with (autonomy_grant_key []) k \<and> \<not> starts_with (autonomy_audit_key []) k
          \<and> \<not> starts_with (heal_work_item_key []) k)"

definition ledger_wf :: "graph_db \<Rightarrow> bool" where
  "ledger_wf s \<longleftrightarrow> tbl_wf (nodes s) \<and> list_all (\<lambda>r. node_ok (fst r) (snd r)) (nodes s)"

definition grants_of :: "graph_db \<Rightarrow> string \<Rightarrow> AutonomyGrant option" where
  "grants_of s lane =
     (case tbl_get (nodes s) (autonomy_grant_key lane) of
        Some n \<Rightarrow> (case node_payload n of DGrant g \<Rightarrow> Some g | _ \<Rightarrow> None) | None \<Rightarrow> None)"

definition audits_of :: "graph_db \<Rightarrow> string \<Rightarrow> AutonomyAuditRecord option" where
  "audits_of s aid =
     (case tbl_get (nodes s) (autonomy_audit_key aid) of
        Some n \<Rightarrow> (case node_payload n of DAudit a \<Rightarrow> Some a | _ \<Rightarrow> None) | None \<Rightarrow> None)"

definition items_of :: "graph_db \<Rightarrow> string \<Rightarrow> HealWorkItemRecord option" where
  "items_of s wid =
     (case tbl_get (nodes s) (heal_work_item_key wid) of
        Some n \<Rightarrow> (case node_payload n of DHealItem i \<Rightarrow> Some i | _ \<Rightarrow> None) | None \<Rightarrow> None)"

definition fault :: "graph_db \<Rightarrow> bool" where
  "fault s = (case faults s of b # _ \<Rightarrow> b | [] \<Rightarrow> False)"

definition tick :: "graph_db \<Rightarrow> graph_db" where
  "tick s = s\<lparr>faults := tl (faults s)\<rparr>"

definition put_node :: "GraphNode \<Rightarrow> graph_db \<Rightarrow> graph_db" where
  "put_node n s = s\<lparr>nodes := tbl_put (node_key n) n (nodes s), faults := tl (faults s)\<rparr>"

lemma tick_simps [simp]: "nodes (tick s) = nodes s" "ledger_wf (tick s) = ledger_wf s"
  "grants_of (tick s) = grants_of s" "audits_of (tick s) = audits_of s" "items_of (tick s) = items_of s"
  by (auto simp: tick_def ledger_wf_def grants_of_def audits_of_def items_of_def fun_eq_iff)

lemma adapter_call_eq:
  "adapter_call f s =
     (if fault s then (Inl StorageError, tick s)
      else (Inr (fst (f (nodes s))), (tick s)\<lparr>nodes := snd (f (nodes s))\<rparr>))"
  by (auto simp: adapter_call_def fault_def tick_def split: list.splits bool.splits)

lemma upsert_node_eq:
  "upsert_node n s = (if fault s then (Inl StorageError, tick s) else (Inr (), put_node n s))"
  by (simp add: upsert_node_def adapter_call_eq put_node_def tick_def)

lemma get_node_eq:
  "get_node k s = (if fault s then (Inl StorageError, tick s) else (Inr (tbl_get (nodes s) k), tick s))"
  by (simp add: get_node_def adapter_call_eq tick_def)

lemma list_nodes_eq:
  "list_nodes_by_kind kd s =
     (if fault s then (Inl StorageError, tick s)
      else (Inr (filter (\<lambda>n. node_kind n = kd) (map snd (nodes s))), tick s))"
  by (simp add: list_nodes_by_kind_def adapter_call_eq tick_def)

lemmas key_defs = autonomy_grant_key_def autonomy_audit_key_def heal_work_item_key_def
  NODE_KIND_AUTONOMY_GRANT_def NODE_KIND_AUTONOMY_AUDIT_def NODE_KIND_HEAL_WORK_ITEM_def

lemma keys_disjoint [simp]:
  "autonomy_grant_key a = autonomy_grant_key b \<longleftrightarrow> a = b"
  "autonomy_audit_key a = autonomy_audit_key b \<longleftrightarrow> a = b"
  "heal_work_item_key a = heal_work_item_key b \<longleftrightarrow> a = b"
  "autonomy_grant_key a \<noteq> autonomy_audit_key b" "autonomy_audit_key b \<noteq> autonomy_grant_key a"
  "autonomy_grant_key a \<noteq> heal_work_item_key b" "heal_work_item_key b \<noteq> autonomy_grant_key a"
  "autonomy_audit_key a \<noteq> heal_work_item_key b" "heal_work_item_key b \<noteq> autonomy_audit_key a"
  by (simp_all add: key_defs)

lemma keys_prefix [simp]:
  "starts_with (autonomy_grant_key []) (autonomy_grant_key a)"
  "starts_with (autonomy_audit_key []) (autonomy_audit_key a)"
  "starts_with (heal_work_item_key []) (heal_work_item_key a)"
  by (simp_all add: key_defs starts_with_def)

lemma ledger_wf_node:
  assumes "ledger_wf s" "tbl_get (nodes s) k = Some n" shows "node_ok k n"
proof -
  have "(k, n) \<in> set (nodes s)" using assms tbl.rows_get [of "nodes s" k n] by (simp add: ledger_wf_def)
  then show ?thesis using assms(1) by (auto simp: ledger_wf_def list_all_iff)
qed

lemma ledger_wf_put [inv_intros]:
  assumes "ledger_wf s" "node_ok (node_key n) n" shows "ledger_wf (put_node n s)"
proof -
  have "set (tbl_put (node_key n) n (nodes s)) \<subseteq> insert (node_key n, n) (set (nodes s))"
    using assms(1) tbl.rows_put_set [of "nodes s" "node_key n" n] by (auto simp: ledger_wf_def)
  then show ?thesis
    using assms tbl.wf_put [of "nodes s" "node_key n" n]
    by (auto simp: ledger_wf_def put_node_def list_all_iff)
qed

lemma grant_node_cases:
  "ledger_wf s \<Longrightarrow> tbl_get (nodes s) (autonomy_grant_key lane) = Some n
   \<Longrightarrow> \<exists>g. node_payload n = DGrant g \<and> lane_str (g_lane g) = lane"
  by (drule (1) ledger_wf_node) (auto simp: node_ok_def split: node_data.splits)

lemma audit_node_cases:
  "ledger_wf s \<Longrightarrow> tbl_get (nodes s) (autonomy_audit_key aid) = Some n
   \<Longrightarrow> \<exists>a. node_payload n = DAudit a \<and> audit_id a = aid"
  by (drule (1) ledger_wf_node) (auto simp: node_ok_def split: node_data.splits)

lemma item_node_cases:
  "ledger_wf s \<Longrightarrow> tbl_get (nodes s) (heal_work_item_key wid) = Some n
   \<Longrightarrow> \<exists>i. node_payload n = DHealItem i \<and> work_item_id i = wid"
  by (drule (1) ledger_wf_node) (auto simp: node_ok_def split: node_data.splits)

lemma grants_of_lane: "ledger_wf s \<Longrightarrow> grants_of s lane = Some g \<Longrightarrow> lane_str (g_lane g) = lane"
  by (auto simp: grants_of_def split: option.splits dest: grant_node_cases)

lemma audits_of_id: "ledger_wf s \<Longrightarrow> audits_of s aid = Some a \<Longrightarrow> audit_id a = aid"
  by (auto simp: audits_of_def split: option.splits dest: audit_node_cases)

lemma items_of_id: "ledger_wf s \<Longrightarrow> items_of s wid = Some i \<Longrightarrow> work_item_id i = wid"
  by (auto simp: items_of_def split: option.splits dest: item_node_cases)

subsection \<open>The domain operations on the three maps\<close>

definition grant_node :: "AutonomyGrant \<Rightarrow> GraphNode" where
  "grant_node g = \<lparr>node_key = autonomy_grant_key (lane_str (g_lane g)), node_kind = NODE_KIND_AUTONOMY_GRANT,
     node_label = Some (lane_str (g_lane g)), node_payload = DGrant g\<rparr>"

definition audit_node :: "AutonomyAuditRecord \<Rightarrow> GraphNode" where
  "audit_node a = \<lparr>node_key = autonomy_audit_key (audit_id a), node_kind = NODE_KIND_AUTONOMY_AUDIT,
     node_label = Some (lane_str (a_lane a)), node_payload = DAudit a\<rparr>"

definition item_node :: "HealWorkItemRecord \<Rightarrow> GraphNode" where
  "item_node i = \<lparr>node_key = heal_work_item_key (work_item_id i), node_kind = NODE_KIND_HEAL_WORK_ITEM,
     node_label = Some (wi_pattern_tag i @ ''@'' @ wi_guest_id i), node_payload = DHealItem i\<rparr>"

lemma node_ok_nodes [simp]:
  "node_ok (node_key (grant_node g)) (grant_node g)" "node_ok (node_key (audit_node a)) (audit_node a)"
  "node_ok (node_key (item_node i)) (item_node i)"
  by (simp_all add: node_ok_def grant_node_def audit_node_def item_node_def)

lemma put_node_wf [simp]:
  "ledger_wf s \<Longrightarrow> ledger_wf (put_node (grant_node g) s)"
  "ledger_wf s \<Longrightarrow> ledger_wf (put_node (audit_node a) s)"
  "ledger_wf s \<Longrightarrow> ledger_wf (put_node (item_node i) s)"
  by (simp_all add: ledger_wf_put)

lemma put_node_views [simp]:
  "grants_of (put_node (grant_node g) s) = (grants_of s)(lane_str (g_lane g) \<mapsto> g)"
  "audits_of (put_node (grant_node g) s) = audits_of s"
  "items_of (put_node (grant_node g) s) = items_of s"
  "grants_of (put_node (audit_node a) s) = grants_of s"
  "audits_of (put_node (audit_node a) s) = (audits_of s)(audit_id a \<mapsto> a)"
  "items_of (put_node (audit_node a) s) = items_of s"
  "grants_of (put_node (item_node i) s) = grants_of s"
  "audits_of (put_node (item_node i) s) = audits_of s"
  "items_of (put_node (item_node i) s) = (items_of s)(work_item_id i \<mapsto> i)"
  by (auto simp: grants_of_def audits_of_def items_of_def put_node_def grant_node_def audit_node_def
      item_node_def tbl_get_put fun_eq_iff)

lemma upserts_eq:
  "upsert_autonomy_grant g s = (if fault s then (Inl StorageError, tick s) else (Inr (), put_node (grant_node g) s))"
  "record_autonomy_audit a s = (if fault s then (Inl StorageError, tick s) else (Inr (), put_node (audit_node a) s))"
  "upsert_heal_work_item i s = (if fault s then (Inl StorageError, tick s) else (Inr (), put_node (item_node i) s))"
  by (simp_all add: upsert_autonomy_grant_def record_autonomy_audit_def upsert_heal_work_item_def
      upsert_node_eq grant_node_def audit_node_def item_node_def)

lemma gets_eq:
  assumes "ledger_wf s"
  shows "get_autonomy_grant lane s
           = (if fault s then (Inl StorageError, tick s) else (Inr (grants_of s lane), tick s))"
    and "get_autonomy_audit aid s
           = (if fault s then (Inl StorageError, tick s) else (Inr (audits_of s aid), tick s))"
    and "get_heal_work_item wid s
           = (if fault s then (Inl StorageError, tick s) else (Inr (items_of s wid), tick s))"
  using grant_node_cases [OF assms] audit_node_cases [OF assms] item_node_cases [OF assms]
  by (force simp: get_autonomy_grant_def get_autonomy_audit_def get_heal_work_item_def gbind_def gret_def
      get_node_eq grants_of_def audits_of_def items_of_def split: option.splits)+

lemma views_nodes:
  "nodes s = nodes s' \<Longrightarrow> grants_of s = grants_of s'" "nodes s = nodes s' \<Longrightarrow> audits_of s = audits_of s'"
  "nodes s = nodes s' \<Longrightarrow> items_of s = items_of s'"
  by (auto simp: grants_of_def audits_of_def items_of_def fun_eq_iff)

definition current_grant :: "graph_db \<Rightarrow> string \<Rightarrow> nat \<Rightarrow> AutonomyGrant" where
  "current_grant s lane now =
     (case grants_of s lane of Some g \<Rightarrow> g | None \<Rightarrow> AutonomyGrant_new (AutonomyLane lane) now)"

lemma get_or_create_effect:
  assumes "ledger_wf s" "get_or_create_autonomy_grant lane now s = (r, s')"
  shows "ledger_wf s'" "audits_of s' = audits_of s" "items_of s' = items_of s"
    "r = Inr g \<Longrightarrow> g = current_grant s lane now \<and> grants_of s' = (grants_of s)(lane \<mapsto> g)"
    "r = Inl e \<Longrightarrow> nodes s' = nodes s"
    "faults s = [] \<Longrightarrow> r = Inr (current_grant s lane now) \<and> faults s' = []"
proof -
  have new: "lane_str (g_lane (AutonomyGrant_new (AutonomyLane lane) now)) = lane"
    by (simp add: AutonomyGrant_new_def)
  have fa: "faults s = [] \<Longrightarrow> \<not> fault s \<and> \<not> fault (tick s) \<and> faults (tick s) = []
      \<and> faults (put_node n (tick s)) = []" for n
    by (simp add: fault_def tick_def put_node_def)
  note eqs = get_or_create_autonomy_grant_def gbind_def gret_def gets_eq [OF assms(1)] upserts_eq
    Let_def current_grant_def
  show "ledger_wf s'" "audits_of s' = audits_of s" "items_of s' = items_of s"
    using assms by (auto simp: eqs split: if_splits option.splits)
  show "r = Inr g \<Longrightarrow> g = current_grant s lane now \<and> grants_of s' = (grants_of s)(lane \<mapsto> g)"
    using assms(2) new
    by (auto simp: eqs fun_upd_idem split: if_splits option.splits)
  show "r = Inl e \<Longrightarrow> nodes s' = nodes s"
    using assms(2) by (auto simp: eqs split: if_splits option.splits)
  show "faults s = [] \<Longrightarrow> r = Inr (current_grant s lane now) \<and> faults s' = []"
    using assms(2) fa by (auto simp: eqs split: if_splits option.splits)
qed

lemma record_outcome_not_frozen:
  "out \<noteq> Failure \<Longrightarrow> snd (record_outcome g out now) \<noteq> Frozen"
  by (cases out) (auto simp: Let_def)

lemma record_outcome_lane: "g_lane (fst (record_outcome g out now)) = g_lane g"
  using record_outcome_keeps(1) by (metis prod.collapse)

lemma current_grant_lane: "ledger_wf s \<Longrightarrow> lane_str (g_lane (current_grant s lane now)) = lane"
  by (auto simp: current_grant_def AutonomyGrant_new_def split: option.splits dest: grants_of_lane)

lemma record_autonomy_outcome_effect:
  assumes "ledger_wf s" "out \<noteq> Failure" "record_autonomy_outcome lane out now s = (r, s')"
  shows "ledger_wf s'" "audits_of s' = audits_of s" "items_of s' = items_of s"
    "r = Inr tr \<Longrightarrow> tr = snd (record_outcome (current_grant s lane now) out now)
        \<and> grants_of s' = (grants_of s)(lane \<mapsto> fst (record_outcome (current_grant s lane now) out now))"
    "faults s = [] \<Longrightarrow> (\<exists>tr. r = Inr tr) \<and> faults s' = []"
proof -
  obtain r0 s0 where gc: "get_or_create_autonomy_grant lane now s = (r0, s0)" by fastforce
  note eff = get_or_create_effect [OF assms(1) gc]
  have lane: "lane_str (g_lane (fst (record_outcome (current_grant s lane now) out now))) = lane"
    using assms(1) by (simp add: record_outcome_lane current_grant_lane)
  have step: "(r, s') =
      (case r0 of Inl e \<Rightarrow> (Inl e, s0)
       | Inr g \<Rightarrow> (if fault s0 then (Inl StorageError, tick s0)
                   else (Inr (snd (record_outcome g out now)),
                         put_node (grant_node (fst (record_outcome g out now))) s0)))"
    using assms(3) gc record_outcome_not_frozen [OF assms(2)]
    by (auto simp: record_autonomy_outcome_def gbind_def gret_def upserts_eq case_prod_beta
        split: sum.splits)
  show "ledger_wf s'" "audits_of s' = audits_of s" "items_of s' = items_of s"
    using step eff(1-3) by (auto split: sum.splits if_splits)
  show "r = Inr tr \<Longrightarrow> tr = snd (record_outcome (current_grant s lane now) out now)
        \<and> grants_of s' = (grants_of s)(lane \<mapsto> fst (record_outcome (current_grant s lane now) out now))"
    using step eff(4) lane by (auto split: sum.splits if_splits)
  show "faults s = [] \<Longrightarrow> (\<exists>tr. r = Inr tr) \<and> faults s' = []"
    using step eff(6) by (auto simp: fault_def tick_def put_node_def split: sum.splits if_splits)
qed

lemma apply_grant_outcome_effect:
  assumes "ledger_wf s" "go \<noteq> Some Failure" "apply_grant_outcome go lane now s = (r, s')"
  shows "ledger_wf s'" "audits_of s' = audits_of s" "items_of s' = items_of s"
  using assms record_autonomy_outcome_effect(1-3) [OF assms(1)]
  by (auto simp: apply_grant_outcome_def gret_def split: option.splits)

lemma outcome_of_str_SomeD:
  "outcome_of_str out = Some (ao, go) \<Longrightarrow> ao \<noteq> AO_Pending \<and> go \<noteq> Some Failure"
  by (auto simp: outcome_of_str_def split: if_splits)

lemma set_audit_outcome_effect:
  assumes "ledger_wf s" "set_autonomy_audit_outcome aid out now s = (r, s')"
  shows "ledger_wf s'" "grants_of s' = grants_of s" "items_of s' = items_of s"
    "r = Inr True \<Longrightarrow> \<exists>a. audits_of s aid = Some a
        \<and> audits_of s' = (audits_of s)(aid \<mapsto> a\<lparr>a_outcome := out, a_updated_at := now\<rparr>)"
    "r \<noteq> Inr True \<Longrightarrow> nodes s' = nodes s" "r = Inr False \<Longrightarrow> audits_of s aid = None"
    "faults s = [] \<Longrightarrow> r = Inr (audits_of s aid \<noteq> None) \<and> faults s' = []"
proof -
  note eqs = set_autonomy_audit_outcome_def gbind_def gret_def gets_eq [OF assms(1)] upserts_eq
  have aid: "audits_of s aid = Some a \<Longrightarrow> audit_id a = aid" for a
    using assms(1) by (rule audits_of_id)
  show "ledger_wf s'" "grants_of s' = grants_of s" "items_of s' = items_of s"
    using assms by (auto simp: eqs split: if_splits option.splits)
  show "r = Inr True \<Longrightarrow> \<exists>a. audits_of s aid = Some a
        \<and> audits_of s' = (audits_of s)(aid \<mapsto> a\<lparr>a_outcome := out, a_updated_at := now\<rparr>)"
    "r \<noteq> Inr True \<Longrightarrow> nodes s' = nodes s" "r = Inr False \<Longrightarrow> audits_of s aid = None"
    using assms(2) aid by (auto simp: eqs split: if_splits option.splits)
  show "faults s = [] \<Longrightarrow> r = Inr (audits_of s aid \<noteq> None) \<and> faults s' = []"
    using assms(2) by (auto simp: eqs fault_def tick_def put_node_def split: if_splits option.splits)
qed

section \<open>Theorems\<close>

subsection \<open>A reviewed outcome counts once\<close>

text \<open>The state after the handler, by the stages it goes through: unchanged but for the
  schedule, or stamped and then carried through the grant update.\<close>

lemma handle_record_stages:
  assumes "ledger_wf s" "handle_record_autonomy_outcome aid out now s = (resp, s')"
  shows "nodes s' = nodes s \<or>
    (\<exists>a ao go s1 r2 s2. audits_of s aid = Some a \<and> a_outcome a = AO_Pending
       \<and> outcome_of_str out = Some (ao, go)
       \<and> set_autonomy_audit_outcome aid ao now (tick s) = (Inr True, s1)
       \<and> apply_grant_outcome go (lane_str (a_lane a)) now s1
           = (r2, s2)
       \<and> nodes s' = nodes s2)"
proof (cases "outcome_of_str out")
  case None
  then show ?thesis using assms by (simp add: handle_record_autonomy_outcome_def Let_def)
next
  case (Some p)
  obtain ao go where p: "p = (ao, go)" by fastforce
  note h = handle_record_autonomy_outcome_def Let_def or_storage_error_def Some p
  show ?thesis
  proof (cases "fault s \<or> audits_of s aid = None \<or> (\<exists>a. audits_of s aid = Some a \<and> a_outcome a \<noteq> AO_Pending)")
    case True
    then show ?thesis
      using assms(2) by (auto simp: h gets_eq(2) [OF assms(1)] split: if_splits)
  next
    case False
    then obtain a where a: "\<not> fault s" "audits_of s aid = Some a" "a_outcome a = AO_Pending" by auto
    let ?lane = "lane_str (a_lane a)"
    obtain r1 s1 where st: "set_autonomy_audit_outcome aid ao now (tick s) = (r1, s1)" by fastforce
    obtain r2 s2 where rc: "apply_grant_outcome go ?lane now s1 = (r2, s2)" by fastforce
    note eff = set_audit_outcome_effect [OF _ st]
    have wf1: "ledger_wf s1" using eff(1) assms(1) by simp
    have "go \<noteq> Some Failure" using Some p outcome_of_str_SomeD by blast
    then have wf2: "ledger_wf s2" using apply_grant_outcome_effect(1) [OF wf1] rc by blast
    have tail: "nodes (snd (get_autonomy_grant ?lane s2)) = nodes s2"
      by (simp add: gets_eq(1) [OF wf2])
    show ?thesis
    proof (cases "r1 = Inr True")
      case True
      then have "nodes s' = nodes s2"
        using assms(2) a st rc tail
        by (auto simp: h gets_eq(2) [OF assms(1)] case_prod_beta split: sum.splits)
      then show ?thesis using a \<open>outcome_of_str out = Some p\<close> p st rc True by blast
    next
      case False
      have "r1 \<noteq> Inr False" using eff(6) assms(1) a(2) by auto
      with False obtain e where "r1 = Inl e" by (cases r1) auto
      then have "s' = s1" using assms(2) a st by (simp add: h gets_eq(2) [OF assms(1)])
      then show ?thesis using eff(5) assms(1) False by simp
    qed
  qed
qed

lemma handle_record_effect:
  assumes "ledger_wf s" "handle_record_autonomy_outcome aid out now s = (resp, s')"
  shows "ledger_wf s'" "\<And>b. b \<noteq> aid \<Longrightarrow> audits_of s' b = audits_of s b"
    "nodes s' = nodes s \<or> (\<exists>a. audits_of s' aid = Some a \<and> a_outcome a \<noteq> AO_Pending)"
    "audits_of s aid = Some a \<Longrightarrow> a_outcome a \<noteq> AO_Pending \<Longrightarrow> nodes s' = nodes s"
    "items_of s' = items_of s" "dom (audits_of s) \<subseteq> dom (audits_of s')"
proof -
  have same: "nodes s' = nodes s \<Longrightarrow> ledger_wf s' \<and> audits_of s' = audits_of s \<and> items_of s' = items_of s"
    using assms(1) views_nodes(2,3) [of s' s] by (simp add: ledger_wf_def)
  have changed: "ledger_wf s' \<and> (\<forall>b. b \<noteq> aid \<longrightarrow> audits_of s' b = audits_of s b)
      \<and> (\<exists>a. audits_of s' aid = Some a \<and> a_outcome a \<noteq> AO_Pending) \<and> items_of s' = items_of s"
    if ne: "nodes s' \<noteq> nodes s"
  proof -
    from ne handle_record_stages [OF assms]
    obtain a :: AutonomyAuditRecord and ao go s1 r2 s2 where *:
      "outcome_of_str out = Some (ao, go)"
      "set_autonomy_audit_outcome aid ao now (tick s) = (Inr True, s1)"
      "apply_grant_outcome go (lane_str (a_lane a)) now s1
           = (r2, s2)" "nodes s' = nodes s2" by blast
    have eff: "ledger_wf s1" "\<exists>a. audits_of s1 = (audits_of s)(aid \<mapsto> a\<lparr>a_outcome := ao, a_updated_at := now\<rparr>)"
      "items_of s1 = items_of s"
      using set_audit_outcome_effect(1,3,4) [OF _ *(2)] assms(1) by auto
    have "go \<noteq> Some Failure" using *(1) outcome_of_str_SomeD by blast
    then have "ledger_wf s2 \<and> audits_of s2 = audits_of s1 \<and> items_of s2 = items_of s1"
      using apply_grant_outcome_effect [OF eff(1)] *(3) by blast
    then have "ledger_wf s' \<and> audits_of s' = audits_of s1 \<and> items_of s' = items_of s1"
      using *(4) views_nodes(2,3) [of s' s2] by (simp add: ledger_wf_def)
    moreover have "ao \<noteq> AO_Pending" using *(1) outcome_of_str_SomeD by blast
    ultimately show ?thesis using eff(2,3) by auto
  qed
  show "items_of s' = items_of s" using same changed by blast
  show "dom (audits_of s) \<subseteq> dom (audits_of s')"
  proof (cases "nodes s' = nodes s")
    case False
    with changed show ?thesis by (auto simp: dom_def)
  qed (simp add: same)
  show "ledger_wf s'" using same changed by blast
  show "audits_of s' b = audits_of s b" if "b \<noteq> aid" for b
    using same changed that by (cases "nodes s' = nodes s") auto
  show "nodes s' = nodes s \<or> (\<exists>a. audits_of s' aid = Some a \<and> a_outcome a \<noteq> AO_Pending)"
    using changed by blast
  show "audits_of s aid = Some a \<Longrightarrow> a_outcome a \<noteq> AO_Pending \<Longrightarrow> nodes s' = nodes s"
    using handle_record_stages [OF assms] by auto
qed

type_synonym review = "string \<times> string \<times> nat"

fun review_step :: "review \<Rightarrow> graph_db \<Rightarrow> graph_db" where
  "review_step (aid, out, now) s = snd (handle_record_autonomy_outcome aid out now s)"

definition reviewed :: "string \<Rightarrow> graph_db \<Rightarrow> bool" where
  "reviewed aid s \<longleftrightarrow> (\<exists>a. audits_of s aid = Some a \<and> a_outcome a \<noteq> AO_Pending)"

lemma review_step_keeps:
  "ledger_wf s \<Longrightarrow> ledger_wf (review_step c s) \<and> (reviewed aid s \<longrightarrow> reviewed aid (review_step c s))"
proof (cases c)
  case (fields b out now)
  assume wf: "ledger_wf s"
  obtain resp s' where h: "handle_record_autonomy_outcome b out now s = (resp, s')" by fastforce
  note eff = handle_record_effect [OF wf h]
  have "reviewed aid s'" if "reviewed aid s"
    using that eff(2) [of aid] eff(3) views_nodes(2) [of s' s]
    by (cases "b = aid") (auto simp: reviewed_def)
  then show ?thesis using eff(1) fields h by simp
qed

lemma fold_review_keeps:
  "ledger_wf s \<Longrightarrow> ledger_wf (fold review_step cs s)
     \<and> (reviewed aid s \<longrightarrow> reviewed aid (fold review_step cs s))"
proof (induction cs arbitrary: s)
  case (Cons c cs)
  then show ?case using review_step_keeps [of s c aid] by (simp del: review_step.simps)
qed simp

text \<open>C8. An audited action is counted at most once: in any sequence of reviews of any audits,
  with storage calls failing wherever they like, of two reviews of the same audit at most one
  changes anything in the store. A double confirmation never counts twice towards promotion.\<close>

theorem review_counts_once:
  assumes "ledger_wf s" "cs = cs1 @ (aid, out1, t1) # cs2 @ (aid, out2, t2) # cs3"
  shows "let before1 = fold review_step cs1 s; after1 = review_step (aid, out1, t1) before1;
             before2 = fold review_step cs2 after1; after2 = review_step (aid, out2, t2) before2
         in (nodes after1 = nodes before1 \<or> nodes after2 = nodes before2)
            \<and> fold review_step cs s = fold review_step cs3 after2"
proof -
  let ?b1 = "fold review_step cs1 s" and ?c1 = "(aid, out1, t1)" and ?c2 = "(aid, out2, t2)"
  let ?a1 = "review_step ?c1 ?b1"
  let ?b2 = "fold review_step cs2 ?a1"
  have wf: "ledger_wf ?b1" "ledger_wf ?a1" "ledger_wf ?b2"
    using assms(1) fold_review_keeps review_step_keeps by blast+
  obtain r1 s1 where h1: "handle_record_autonomy_outcome aid out1 t1 ?b1 = (r1, s1)" by fastforce
  obtain r2 s2 where h2: "handle_record_autonomy_outcome aid out2 t2 ?b2 = (r2, s2)" by fastforce
  have "nodes ?a1 = nodes ?b1 \<or> nodes (review_step ?c2 ?b2) = nodes ?b2"
  proof (cases "nodes ?a1 = nodes ?b1")
    case False
    then have "reviewed aid ?a1"
      using handle_record_effect(3) [OF wf(1) h1] h1 by (simp add: reviewed_def)
    then have "reviewed aid ?b2" using fold_review_keeps [OF wf(2)] by blast
    then show ?thesis
      using handle_record_effect(4) [OF wf(3) h2] h2 by (auto simp: reviewed_def)
  qed simp
  then show ?thesis using assms(2) by (simp add: Let_def)
qed

text \<open>A store with one pending audit of the given lane, for the examples.\<close>

definition demo_audit :: "string \<Rightarrow> AutonomyAuditRecord" where
  "demo_audit lane =
     AutonomyAuditRecord_new ''a1'' (AutonomyLane lane) ''bridge'' ''why'' ''undo'' ConfirmFirst 10"

definition demo_db :: "string \<Rightarrow> bool list \<Rightarrow> graph_db" where
  "demo_db lane fs = put_node (audit_node (demo_audit lane)) \<lparr>nodes = [], faults = False # fs\<rparr>"

lemma demo_db_wf [simp]: "ledger_wf (demo_db lane fs)"
  unfolding demo_db_def by (rule put_node_wf) (simp add: ledger_wf_def tbl_wf_def)

lemma demo_db_views [simp]:
  "audits_of (demo_db lane fs) = [''a1'' \<mapsto> demo_audit lane]" "grants_of (demo_db lane fs) = Map.empty"
  "faults (demo_db lane fs) = fs" "a_outcome (demo_audit lane) = AO_Pending"
  "lane_str (a_lane (demo_audit lane)) = lane"
  by (auto simp: demo_db_def demo_audit_def AutonomyAuditRecord_new_def audits_of_def grants_of_def
      tbl_get_def put_node_def audit_node_def fun_eq_iff)

theorem review_counts_once_witness:
  "let s = demo_db ''memory.hygiene'' [False, True]; c = (''a1'', ''confirmed_good'', 20);
       after1 = review_step c s; after2 = review_step c after1
   in nodes after1 = nodes s \<or> nodes after2 = nodes after1"
  using review_counts_once [of "demo_db ''memory.hygiene'' [False, True]"
      "[(''a1'', ''confirmed_good'', 20), (''a1'', ''confirmed_good'', 20)]" "[]" "''a1''"
      "''confirmed_good''" 20 "[]" "''confirmed_good''" 20 "[]"]
  by (simp add: Let_def del: review_step.simps)

text \<open>A review that meets no storage error does exactly what the operator asked: it stamps
  the pending audit, applies the matching outcome to the grant of the audit's lane (created at
  the lowest posture if the lane has none) and to no other grant, leaves every other audit and
  every work item alone; a neutral review stamps and touches no grant.\<close>

theorem review_applies_outcome:
  assumes "ledger_wf s" "faults s = []" "audits_of s aid = Some a" "a_outcome a = AO_Pending"
    and "outcome_of_str out = Some (ao, go)"
  shows "let s' = snd (handle_record_autonomy_outcome aid out now s); lane = lane_str (a_lane a)
         in audits_of s' = (audits_of s)(aid \<mapsto> a\<lparr>a_outcome := ao, a_updated_at := now\<rparr>)
          \<and> grants_of s' = (case go of
                None \<Rightarrow> grants_of s
              | Some o' \<Rightarrow> (grants_of s)(lane \<mapsto> fst (record_outcome (current_grant s lane now) o' now)))
          \<and> items_of s' = items_of s"
proof -
  let ?lane = "lane_str (a_lane a)"
  have nf: "\<not> fault s" "faults (tick s) = []" using assms(2) by (simp_all add: fault_def tick_def)
  obtain r1 s1 where st: "set_autonomy_audit_outcome aid ao now (tick s) = (r1, s1)" by fastforce
  note eff = set_audit_outcome_effect [OF _ st]
  have s1: "r1 = Inr True" "faults s1 = []" "ledger_wf s1" "items_of s1 = items_of s"
    "grants_of s1 = grants_of s"
    "audits_of s1 = (audits_of s)(aid \<mapsto> a\<lparr>a_outcome := ao, a_updated_at := now\<rparr>)"
    using eff assms(1,3) nf by auto
  obtain r2 s2 where rc: "apply_grant_outcome go ?lane now s1 = (r2, s2)" by fastforce
  have cur: "current_grant s1 ?lane now = current_grant s ?lane now"
    by (simp add: current_grant_def s1)
  have go: "go \<noteq> Some Failure" using assms(5) outcome_of_str_SomeD by blast
  have s2: "\<exists>tr. r2 = Inr tr" "ledger_wf s2" "items_of s2 = items_of s" "audits_of s2 = audits_of s1"
    "grants_of s2 = (case go of None \<Rightarrow> grants_of s
      | Some o' \<Rightarrow> (grants_of s)(?lane \<mapsto> fst (record_outcome (current_grant s ?lane now) o' now)))"
  proof -
    show "ledger_wf s2" "items_of s2 = items_of s" "audits_of s2 = audits_of s1"
      using apply_grant_outcome_effect [OF s1(3) go rc] s1(4) by simp_all
    have "(\<exists>tr. r2 = Inr tr) \<and> grants_of s2 = (case go of None \<Rightarrow> grants_of s
      | Some o' \<Rightarrow> (grants_of s)(?lane \<mapsto> fst (record_outcome (current_grant s ?lane now) o' now)))"
    proof (cases go)
      case None
      then show ?thesis using rc s1(5) by (auto simp: apply_grant_outcome_def gret_def)
    next
      case (Some o')
      then have o': "o' \<noteq> Failure" "record_autonomy_outcome ?lane o' now s1 = (r2, s2)"
        using go rc by (auto simp: apply_grant_outcome_def)
      from record_autonomy_outcome_effect(5) [OF s1(3) o' s1(2)] obtain tr where "r2 = Inr tr" by blast
      with record_autonomy_outcome_effect(4) [OF s1(3) o'] show ?thesis by (simp add: Some cur s1(5))
    qed
    then show "\<exists>tr. r2 = Inr tr" "grants_of s2 = (case go of None \<Rightarrow> grants_of s
      | Some o' \<Rightarrow> (grants_of s)(?lane \<mapsto> fst (record_outcome (current_grant s ?lane now) o' now)))"
      by blast+
  qed
  have "nodes (snd (handle_record_autonomy_outcome aid out now s)) = nodes s2"
    using assms(3-5) nf st rc s1(1) s2(1)
    by (auto simp: handle_record_autonomy_outcome_def Let_def or_storage_error_def
        gets_eq(2) [OF assms(1)] gets_eq(1) [OF s2(2)] split: prod.splits)
  from views_nodes [OF this] show ?thesis by (simp add: Let_def s1 s2)
qed

theorem review_applies_outcome_witness:
  "audits_of (snd (handle_record_autonomy_outcome ''a1'' ''neutral'' 20 (demo_db ''memory.hygiene'' []))) ''a1''
     = Some ((demo_audit ''memory.hygiene'')\<lparr>a_outcome := AO_Neutral, a_updated_at := 20\<rparr>)"
  using review_applies_outcome [of "demo_db ''memory.hygiene'' []" "''a1''" "demo_audit ''memory.hygiene''"
      "''neutral''" AO_Neutral None 20]
  by (simp add: Let_def outcome_of_str_def)

subsection \<open>No autonomous action without budget and audit\<close>

definition json_field :: "string \<Rightarrow> IpcResponse \<Rightarrow> json option" where
  "json_field k resp =
     (case resp of IpcSuccess _ (Some (JObj kvs)) \<Rightarrow> map_of kvs k | _ \<Rightarrow> None)"

lemma json_field_simps [simp]:
  "json_field k (IpcError c e) = None" "json_field k (reply c kvs) = map_of kvs k"
  by (simp_all add: json_field_def reply_def)

lemma consume_lane: "g_lane (fst (try_consume_daily_action g now)) = g_lane g"
  using consume_keeps(1) by (metis prod.collapse)

lemma consume_posture: "g_posture (fst (try_consume_daily_action g now)) = g_posture g"
  using consume_keeps(4) by (metis prod.collapse)

lemma consume_effect:
  assumes "ledger_wf s"
    and "handle_consume_autonomy_action lane summary evidence hint now env uuid s = (resp, s')"
  shows "(json_field ''allowed'' resp = Some (JBool True) \<longrightarrow>
           lane_enabled (AutonomyLane lane) env
           \<and> g_posture (current_grant s lane now) = AutoWithAudit
           \<and> snd (try_consume_daily_action (current_grant s lane now) now)
           \<and> grants_of s' = (grants_of s)(lane \<mapsto> fst (try_consume_daily_action (current_grant s lane now) now))
           \<and> json_field ''audit_id'' resp = Some (JStr (''autonomy:'' @ lane @ '':'' @ uuid))
           \<and> audits_of s' = (audits_of s)(''autonomy:'' @ lane @ '':'' @ uuid \<mapsto>
               AutonomyAuditRecord_new (''autonomy:'' @ lane @ '':'' @ uuid) (AutonomyLane lane)
                 summary evidence hint AutoWithAudit now))
       \<and> (\<not> lane_enabled (AutonomyLane lane) env \<longrightarrow> s' = s)
       \<and> ledger_wf s' \<and> items_of s' = items_of s \<and> dom (audits_of s) \<subseteq> dom (audits_of s')"
proof (cases "trim lane = [] \<or> \<not> lane_enabled (AutonomyLane lane) env")
  case True
  then show ?thesis
    using assms by (auto simp: handle_consume_autonomy_action_def Let_def split: if_splits)
next
  case False
  let ?g = "current_grant s lane now"
  let ?g' = "fst (try_consume_daily_action ?g now)"
  obtain r0 s0 where gc: "get_or_create_autonomy_grant lane now s = (r0, s0)" by fastforce
  note eff = get_or_create_effect [OF assms(1) gc]
  have lane: "lane_str (g_lane ?g') = lane"
    by (simp add: consume_lane current_grant_lane assms(1))
  show ?thesis
  proof (cases r0)
    case (Inl e)
    then show ?thesis
      using assms(2) False gc eff
      by (auto simp: handle_consume_autonomy_action_def Let_def or_storage_error_def)
  next
    case (Inr g)
    then have g: "g = ?g" "grants_of s0 = (grants_of s)(lane \<mapsto> ?g)" using eff(4) by auto
    show ?thesis
    proof (cases "g_posture ?g = ProposalOnly \<or> \<not> snd (try_consume_daily_action ?g now)")
      case True
      then show ?thesis
        using assms(2) False gc eff(1-3) Inr g
        by (auto simp: handle_consume_autonomy_action_def Let_def or_storage_error_def case_prod_beta
            split: if_splits)
    next
      case charged: False
      then show ?thesis
        using assms(2) False gc eff(1-3) Inr g lane
        by (auto simp: handle_consume_autonomy_action_def Let_def or_storage_error_def case_prod_beta
            upserts_eq consume_posture AutonomyAuditRecord_new_def split: if_splits)
    qed
  qed
qed

text \<open>C26. The hotel allows an autonomous action only with everything in place, whichever storage
  calls fail: the lane's kill switch is off, its posture is \<open>AutoWithAudit\<close>, it is not frozen and
  has budget left, and before the answer is given the charged grant and a pending audit record of
  the action (under the id that is returned) are in the store. With the kill switch set nothing is
  read or written at all.\<close>

theorem consume_is_guarded:
  assumes "ledger_wf s"
    and "handle_consume_autonomy_action lane summary evidence hint now env uuid s = (resp, s')"
  shows "(json_field ''allowed'' resp = Some (JBool True) \<longrightarrow>
           lane_enabled (AutonomyLane lane) env
           \<and> g_posture (current_grant s lane now) = AutoWithAudit
           \<and> snd (try_consume_daily_action (current_grant s lane now) now)
           \<and> grants_of s' = (grants_of s)(lane \<mapsto> fst (try_consume_daily_action (current_grant s lane now) now))
           \<and> json_field ''audit_id'' resp = Some (JStr (''autonomy:'' @ lane @ '':'' @ uuid))
           \<and> audits_of s' = (audits_of s)(''autonomy:'' @ lane @ '':'' @ uuid \<mapsto>
               AutonomyAuditRecord_new (''autonomy:'' @ lane @ '':'' @ uuid) (AutonomyLane lane)
                 summary evidence hint AutoWithAudit now))
       \<and> (\<not> lane_enabled (AutonomyLane lane) env \<longrightarrow> s' = s)
       \<and> ledger_wf s' \<and> items_of s' = items_of s"
  using consume_effect [OF assms] by blast

definition demo_grant_db :: graph_db where
  "demo_grant_db = put_node
     (grant_node ((AutonomyGrant_new (AutonomyLane ''graph.bridge_edges'') 0)\<lparr>g_posture := AutoWithAudit\<rparr>))
     \<lparr>nodes = [], faults = []\<rparr>"

lemma demo_grant_db_wf: "ledger_wf demo_grant_db"
  unfolding demo_grant_db_def by (rule put_node_wf) (simp add: ledger_wf_def tbl_wf_def)

theorem consume_is_guarded_witness:
  "let (resp, s') = handle_consume_autonomy_action ''graph.bridge_edges'' ''x'' ''y'' ''z'' 5 Map.empty ''u'' demo_grant_db
   in json_field ''allowed'' resp = Some (JBool True)
      \<and> map_option a_outcome (audits_of s' ''autonomy:graph.bridge_edges:u'') = Some AO_Pending"
proof -
  let ?h = "handle_consume_autonomy_action ''graph.bridge_edges'' ''x'' ''y'' ''z'' 5 Map.empty ''u'' demo_grant_db"
  have trim: "trim ''graph.bridge_edges'' \<noteq> []" by code_simp
  let ?g = "(AutonomyGrant_new (AutonomyLane ''graph.bridge_edges'') 0)\<lparr>g_posture := AutoWithAudit\<rparr>"
  obtain r0 s0 where gc: "get_or_create_autonomy_grant ''graph.bridge_edges'' 5 demo_grant_db = (r0, s0)"
    by fastforce
  have "current_grant demo_grant_db ''graph.bridge_edges'' 5 = ?g"
    by (simp add: current_grant_def demo_grant_db_def AutonomyGrant_new_def)
  moreover have "faults demo_grant_db = []" by (simp add: demo_grant_db_def put_node_def)
  ultimately have g: "r0 = Inr ?g" "faults s0 = []"
    using get_or_create_effect(6) [OF demo_grant_db_wf gc] by auto
  have "snd (try_consume_daily_action ?g 5)"
    by (simp add: try_consume_daily_action_def model_defs utc_day_def)
  then have "json_field ''allowed'' (fst ?h) = Some (JBool True)"
    using trim gc g
    by (simp add: handle_consume_autonomy_action_def Let_def or_storage_error_def lane_enabled_def
        upserts_eq case_prod_beta consume_posture fault_def put_node_def)
  with consume_is_guarded [OF demo_grant_db_wf, of "''graph.bridge_edges''" "''x''" "''y''" "''z''" 5 Map.empty
      "''u''" "fst ?h" "snd ?h"]
  show ?thesis by (simp add: Let_def case_prod_beta AutonomyAuditRecord_new_def)
qed

subsection \<open>Listings\<close>

lemma decode_all_eq:
  "\<forall>n\<in>set ns. dec (node_payload n) = gret (f n) \<Longrightarrow> decode_all dec ns s = (Inr (map f ns), s)"
  by (induction ns) (auto simp: gbind_def gret_def)

fun the_item :: "node_data \<Rightarrow> HealWorkItemRecord" where
  "the_item (DHealItem i) = i"

fun the_audit :: "node_data \<Rightarrow> AutonomyAuditRecord" where
  "the_audit (DAudit a) = a"

definition item_list :: "graph_db \<Rightarrow> HealWorkItemRecord list" where
  "item_list s = sort_key wi_created_at
     (map (the_item \<circ> node_payload)
       (filter (\<lambda>n. node_kind n = NODE_KIND_HEAL_WORK_ITEM) (map snd (nodes s))))"

definition audit_list :: "graph_db \<Rightarrow> AutonomyAuditRecord list" where
  "audit_list s = sort_key a_created_at
     (map (the_audit \<circ> node_payload)
       (filter (\<lambda>n. node_kind n = NODE_KIND_AUTONOMY_AUDIT) (map snd (nodes s))))"

lemma wf_nodes: "ledger_wf s \<Longrightarrow> (k, n) \<in> set (nodes s) \<Longrightarrow> node_ok k n \<and> tbl_get (nodes s) k = Some n"
  using tbl.rows_get [of "nodes s" k n] by (auto simp: ledger_wf_def list_all_iff)

lemma kinds_distinct [simp]:
  "NODE_KIND_AUTONOMY_GRANT \<noteq> NODE_KIND_AUTONOMY_AUDIT" "NODE_KIND_AUTONOMY_AUDIT \<noteq> NODE_KIND_AUTONOMY_GRANT"
  "NODE_KIND_AUTONOMY_GRANT \<noteq> NODE_KIND_HEAL_WORK_ITEM" "NODE_KIND_HEAL_WORK_ITEM \<noteq> NODE_KIND_AUTONOMY_GRANT"
  "NODE_KIND_AUTONOMY_AUDIT \<noteq> NODE_KIND_HEAL_WORK_ITEM" "NODE_KIND_HEAL_WORK_ITEM \<noteq> NODE_KIND_AUTONOMY_AUDIT"
  by (simp_all add: key_defs)

lemma node_kind_item:
  "node_ok k n \<Longrightarrow> node_kind n = NODE_KIND_HEAL_WORK_ITEM
   \<Longrightarrow> node_payload n = DHealItem (the_item (node_payload n))
       \<and> k = heal_work_item_key (work_item_id (the_item (node_payload n)))"
  by (auto simp: node_ok_def split: node_data.splits)

lemma node_kind_audit:
  "node_ok k n \<Longrightarrow> node_kind n = NODE_KIND_AUTONOMY_AUDIT
   \<Longrightarrow> node_payload n = DAudit (the_audit (node_payload n))
       \<and> k = autonomy_audit_key (audit_id (the_audit (node_payload n)))"
  by (auto simp: node_ok_def split: node_data.splits)

lemma lists_eq:
  assumes "ledger_wf s"
  shows "list_heal_work_items s
           = (if fault s then (Inl StorageError, tick s) else (Inr (item_list s), tick s))"
    and "list_all_autonomy_audits s
           = (if fault s then (Inl StorageError, tick s) else (Inr (audit_list s), tick s))"
proof -
  let ?items = "filter (\<lambda>n. node_kind n = NODE_KIND_HEAL_WORK_ITEM) (map snd (nodes s))"
  let ?audits = "filter (\<lambda>n. node_kind n = NODE_KIND_AUTONOMY_AUDIT) (map snd (nodes s))"
  have "\<forall>n\<in>set ?items. decode_item (node_payload n) = gret ((the_item \<circ> node_payload) n)"
  proof
    fix n assume "n \<in> set ?items"
    then obtain k where "(k, n) \<in> set (nodes s)" "node_kind n = NODE_KIND_HEAL_WORK_ITEM" by auto
    with wf_nodes [OF assms] node_kind_item
    have "node_payload n = DHealItem (the_item (node_payload n))" by blast
    then show "decode_item (node_payload n) = gret ((the_item \<circ> node_payload) n)"
      by (metis comp_apply decode_item.simps(1))
  qed
  from decode_all_eq [OF this]
  show "list_heal_work_items s
           = (if fault s then (Inl StorageError, tick s) else (Inr (item_list s), tick s))"
    by (simp add: list_heal_work_items_def gbind_def gret_def list_nodes_eq item_list_def o_def)
  have "\<forall>n\<in>set ?audits. decode_audit (node_payload n) = gret ((the_audit \<circ> node_payload) n)"
  proof
    fix n assume "n \<in> set ?audits"
    then obtain k where "(k, n) \<in> set (nodes s)" "node_kind n = NODE_KIND_AUTONOMY_AUDIT" by auto
    with wf_nodes [OF assms] node_kind_audit
    have "node_payload n = DAudit (the_audit (node_payload n))" by blast
    then show "decode_audit (node_payload n) = gret ((the_audit \<circ> node_payload) n)"
      by (metis comp_apply decode_audit.simps(1))
  qed
  from decode_all_eq [OF this]
  show "list_all_autonomy_audits s
           = (if fault s then (Inl StorageError, tick s) else (Inr (audit_list s), tick s))"
    by (simp add: list_all_autonomy_audits_def gbind_def gret_def list_nodes_eq audit_list_def o_def)
qed

lemma set_item_list: "ledger_wf s \<Longrightarrow> i \<in> set (item_list s) \<longleftrightarrow> items_of s (work_item_id i) = Some i"
proof
  assume wf: "ledger_wf s" and "i \<in> set (item_list s)"
  then obtain k n where "(k, n) \<in> set (nodes s)" "node_kind n = NODE_KIND_HEAL_WORK_ITEM"
    "i = the_item (node_payload n)" by (auto simp: item_list_def)
  with wf_nodes [OF wf] node_kind_item [of k n] show "items_of s (work_item_id i) = Some i"
    by (auto simp: items_of_def split: node_data.splits)
next
  assume wf: "ledger_wf s" and "items_of s (work_item_id i) = Some i"
  then obtain n where n: "tbl_get (nodes s) (heal_work_item_key (work_item_id i)) = Some n"
    "node_payload n = DHealItem i" by (auto simp: items_of_def split: option.splits node_data.splits)
  then have "(heal_work_item_key (work_item_id i), n) \<in> set (nodes s)" "node_kind n = NODE_KIND_HEAL_WORK_ITEM"
    using tbl.rows_get [of "nodes s" "heal_work_item_key (work_item_id i)" n] wf ledger_wf_node [OF wf n(1)]
    by (auto simp: ledger_wf_def node_ok_def)
  then show "i \<in> set (item_list s)" using n(2) by (force simp: item_list_def)
qed

lemma set_audit_list: "ledger_wf s \<Longrightarrow> a \<in> set (audit_list s) \<longleftrightarrow> audits_of s (audit_id a) = Some a"
proof
  assume wf: "ledger_wf s" and "a \<in> set (audit_list s)"
  then obtain k n where "(k, n) \<in> set (nodes s)" "node_kind n = NODE_KIND_AUTONOMY_AUDIT"
    "a = the_audit (node_payload n)" by (auto simp: audit_list_def)
  with wf_nodes [OF wf] node_kind_audit [of k n] show "audits_of s (audit_id a) = Some a"
    by (auto simp: audits_of_def split: node_data.splits)
next
  assume wf: "ledger_wf s" and "audits_of s (audit_id a) = Some a"
  then obtain n where n: "tbl_get (nodes s) (autonomy_audit_key (audit_id a)) = Some n"
    "node_payload n = DAudit a" by (auto simp: audits_of_def split: option.splits node_data.splits)
  then have "(autonomy_audit_key (audit_id a), n) \<in> set (nodes s)" "node_kind n = NODE_KIND_AUTONOMY_AUDIT"
    using tbl.rows_get [of "nodes s" "autonomy_audit_key (audit_id a)" n] wf ledger_wf_node [OF wf n(1)]
    by (auto simp: ledger_wf_def node_ok_def)
  then show "a \<in> set (audit_list s)" using n(2) by (force simp: audit_list_def)
qed

lemma find_open_eq:
  assumes "ledger_wf s" "find_open_heal_work_item tag guest s = (r, s')"
  shows "nodes s' = nodes s" "ledger_wf s'"
    "r = Inr None \<Longrightarrow> items_of s w = Some i \<Longrightarrow> wi_status i = HEAL_WORK_ITEM_STATUS_OPEN
       \<Longrightarrow> \<not> (wi_pattern_tag i = tag \<and> wi_guest_id i = guest)"
    "r = Inr (Some i) \<Longrightarrow> items_of s (work_item_id i) = Some i
       \<and> wi_status i = HEAL_WORK_ITEM_STATUS_OPEN \<and> wi_pattern_tag i = tag \<and> wi_guest_id i = guest"
proof -
  have eq: "(r, s') = (if fault s then (Inl StorageError, tick s)
      else (Inr (find (\<lambda>i. wi_status i = HEAL_WORK_ITEM_STATUS_OPEN \<and> wi_pattern_tag i = tag
                      \<and> wi_guest_id i = guest) (item_list s)), tick s))"
    using assms(2) by (simp add: find_open_heal_work_item_def gbind_def gret_def lists_eq(1) [OF assms(1)]
        split: if_splits)
  then show "nodes s' = nodes s" "ledger_wf s'" using assms(1) by (auto split: if_splits)
  show "r = Inr None \<Longrightarrow> items_of s w = Some i \<Longrightarrow> wi_status i = HEAL_WORK_ITEM_STATUS_OPEN
       \<Longrightarrow> \<not> (wi_pattern_tag i = tag \<and> wi_guest_id i = guest)"
    using eq set_item_list [OF assms(1), of i] items_of_id [OF assms(1)]
    by (auto simp: find_None_iff eq_commute [of None] split: if_splits)
  show "r = Inr (Some i) \<Longrightarrow> items_of s (work_item_id i) = Some i
       \<and> wi_status i = HEAL_WORK_ITEM_STATUS_OPEN \<and> wi_pattern_tag i = tag \<and> wi_guest_id i = guest"
  proof -
    assume "r = Inr (Some i)"
    with eq have "find (\<lambda>i. wi_status i = HEAL_WORK_ITEM_STATUS_OPEN \<and> wi_pattern_tag i = tag
                      \<and> wi_guest_id i = guest) (item_list s) = Some i"
      by (simp split: if_splits)
    from find_Some_in [OF this] show ?thesis using set_item_list [OF assms(1), of i] by blast
  qed
qed

subsection \<open>Reachable ledgers\<close>

text \<open>
  Every operation that writes the ledger, as steps. A filing draws a work-item id that no item
  has (a v4 UUID); the schedule of storage failures is refilled arbitrarily between requests.
\<close>

inductive ledger_reach :: "graph_db \<Rightarrow> bool" where
  lr_empty: "ledger_reach \<lparr>nodes = [], faults = fs\<rparr>"
| lr_faults: "ledger_reach s \<Longrightarrow> ledger_reach (s\<lparr>faults := fs\<rparr>)"
| lr_file: "ledger_reach s \<Longrightarrow> items_of s wid = None
    \<Longrightarrow> handle_file_heal_work_item he tag guest occ window lines now env wid (s, hq) = (resp, s', hq')
    \<Longrightarrow> ledger_reach s'"
| lr_close: "ledger_reach s \<Longrightarrow> close_heal_work_item wid now s = (r, s') \<Longrightarrow> ledger_reach s'"
| lr_consume: "ledger_reach s
    \<Longrightarrow> handle_consume_autonomy_action lane summary evidence hint now env uuid s = (resp, s')
    \<Longrightarrow> ledger_reach s'"
| lr_review: "ledger_reach s \<Longrightarrow> handle_record_autonomy_outcome aid out now s = (resp, s') \<Longrightarrow> ledger_reach s'"
| lr_clear: "ledger_reach s \<Longrightarrow> clear_autonomy_freeze lane now s = (rc, s') \<Longrightarrow> ledger_reach s'"
| lr_sweep: "ledger_reach s \<Longrightarrow> run_sweep hotel now window_secs s = (oc, s') \<Longrightarrow> ledger_reach s'"

definition same_open :: "HealWorkItemRecord \<Rightarrow> HealWorkItemRecord \<Rightarrow> bool" where
  "same_open i1 i2 \<longleftrightarrow>
     wi_status i1 = HEAL_WORK_ITEM_STATUS_OPEN \<and> wi_status i2 = HEAL_WORK_ITEM_STATUS_OPEN
     \<and> wi_pattern_tag i1 = wi_pattern_tag i2 \<and> wi_guest_id i1 = wi_guest_id i2"

definition one_open :: "(string \<rightharpoonup> HealWorkItemRecord) \<Rightarrow> bool" where
  "one_open m \<longleftrightarrow> (\<forall>w1 w2 i1 i2. m w1 = Some i1 \<longrightarrow> m w2 = Some i2 \<longrightarrow> same_open i1 i2 \<longrightarrow> w1 = w2)"

definition items_audited :: "(string \<rightharpoonup> HealWorkItemRecord) \<Rightarrow> string set \<Rightarrow> bool" where
  "items_audited m A \<longleftrightarrow> (\<forall>w i. m w = Some i \<longrightarrow> wi_audit_id i \<in> Some ` A)"

definition ledger_inv :: "graph_db \<Rightarrow> bool" where
  "ledger_inv s \<longleftrightarrow>
     ledger_wf s \<and> one_open (items_of s) \<and> items_audited (items_of s) (dom (audits_of s))"

lemma items_audited_mono: "items_audited m A \<Longrightarrow> A \<subseteq> B \<Longrightarrow> items_audited m B"
  unfolding items_audited_def by blast

lemma one_open_update:
  assumes "one_open m" "\<And>w' i'. m w' = Some i' \<Longrightarrow> same_open i' i \<Longrightarrow> w' = w"
  shows "one_open (m(w \<mapsto> i))"
  unfolding one_open_def
proof (intro allI impI)
  fix w1 w2 i1 i2
  assume *: "(m(w \<mapsto> i)) w1 = Some i1" "(m(w \<mapsto> i)) w2 = Some i2" "same_open i1 i2"
  have "same_open i2 i1" using *(3) by (auto simp: same_open_def)
  with * show "w1 = w2"
    using assms(2) [of w1 i1] assms(2) [of w2 i2] assms(1) [unfolded one_open_def, rule_format, of w1 i1 w2 i2]
    by (auto split: if_splits)
qed

lemma ledger_inv_items:
  "ledger_inv s \<Longrightarrow> ledger_wf s' \<Longrightarrow> items_of s' = items_of s
   \<Longrightarrow> dom (audits_of s) \<subseteq> dom (audits_of s') \<Longrightarrow> ledger_inv s'"
  by (auto simp: ledger_inv_def intro: items_audited_mono)

lemma ledger_inv_same: "ledger_inv s \<Longrightarrow> nodes s' = nodes s \<Longrightarrow> ledger_inv s'"
  using views_nodes [of s' s] by (simp add: ledger_inv_def ledger_wf_def)

lemma ledger_inv_put_item:
  assumes "ledger_inv s" "wi_audit_id i \<in> Some ` dom (audits_of s)"
    and "\<And>w' i'. items_of s w' = Some i' \<Longrightarrow> same_open i' i \<Longrightarrow> w' = work_item_id i"
  shows "ledger_inv (put_node (item_node i) s)"
  using assms one_open_update [of "items_of s" i "work_item_id i"]
  by (auto simp: ledger_inv_def items_audited_def)

text \<open>Rewriting a stored item that keeps its pattern and its audit, and does not reopen it, keeps
  the invariant.\<close>

lemma ledger_inv_update_item:
  assumes "ledger_inv s" "items_of s (work_item_id i) = Some i0"
    and "wi_pattern_tag i = wi_pattern_tag i0" "wi_guest_id i = wi_guest_id i0"
    and "wi_audit_id i = wi_audit_id i0"
    and "wi_status i = HEAL_WORK_ITEM_STATUS_OPEN \<Longrightarrow> wi_status i0 = HEAL_WORK_ITEM_STATUS_OPEN"
  shows "ledger_inv (put_node (item_node i) s)"
proof (rule ledger_inv_put_item [OF assms(1)])
  show "wi_audit_id i \<in> Some ` dom (audits_of s)"
    using assms(1,2,5) unfolding ledger_inv_def items_audited_def by metis
  fix w' i' assume *: "items_of s w' = Some i'" "same_open i' i"
  then have "same_open i' i0" using assms(3-6) by (simp add: same_open_def)
  then show "w' = work_item_id i"
    using assms(1,2) *(1) unfolding ledger_inv_def one_open_def by blast
qed

lemma get_or_create_inv:
  assumes "ledger_inv s" "get_or_create_autonomy_grant lane now s = (r, s')"
  shows "ledger_inv s'"
  using get_or_create_effect(1-3) [OF _ assms(2)] assms(1)
  by (auto simp: ledger_inv_def)

lemma ledger_inv_put_grant: "ledger_inv s \<Longrightarrow> ledger_inv (put_node (grant_node g) s)"
  by (auto simp: ledger_inv_def)

lemma ledger_inv_put_audit: "ledger_inv s \<Longrightarrow> ledger_inv (put_node (audit_node a) s)"
  by (rule ledger_inv_items) (auto simp: ledger_inv_def)

lemma ledger_inv_tick [simp]: "ledger_inv (tick s) = ledger_inv s"
  by (simp add: ledger_inv_def)

lemmas file_graph_defs = file_heal_work_item_graph_def Let_def or_storage_error_def upserts_eq
  case_prod_beta

text \<open>What filing does, by the point it stops at.\<close>

lemma file_graph_cases:
  assumes "ledger_inv s"
    and "file_heal_work_item_graph tag guest occ window lines now env wid s = (resp, s', fa)"
  obtains (unchanged) "nodes s' = nodes s" "fa = None" "json_field ''filed'' resp \<noteq> Some (JBool True)"
  | (bumped) i s0 where "items_of s (work_item_id i) = Some i" "wi_status i = HEAL_WORK_ITEM_STATUS_OPEN"
      "wi_pattern_tag i = tag" "wi_guest_id i = guest" "nodes s0 = nodes s"
      "s' = put_node (item_node (i\<lparr>wi_count := sat_add32 (wi_count i) occ, wi_last_seen := now\<rparr>)) s0"
      "fa = None" "json_field ''filed'' resp = Some (JBool False)"
  | (refused) r s0 where "get_or_create_autonomy_grant LANE_FLEET_HEAL_SLICES now s0 = (r, s')"
      "nodes s0 = nodes s" "fa = None" "json_field ''filed'' resp \<noteq> Some (JBool True)"
  | (charged) s0 g s1 k where "nodes s0 = nodes s"
      "get_or_create_autonomy_grant LANE_FLEET_HEAL_SLICES now s0 = (Inr g, s1)"
      "snd (try_consume_daily_action g now)" "lane_enabled (AutonomyLane LANE_FLEET_HEAL_SLICES) env"
      "\<And>w i. items_of s w = Some i \<Longrightarrow> wi_status i = HEAL_WORK_ITEM_STATUS_OPEN
         \<Longrightarrow> \<not> (wi_pattern_tag i = tag \<and> wi_guest_id i = guest)"
      "let g' = fst (try_consume_daily_action g now); ev = cap_evidence_lines lines;
           audit = filing_audit tag guest occ window ev (g_posture g') now wid;
           s2 = put_node (grant_node g') s1; s3 = put_node (audit_node audit) s2;
           s4 = put_node (item_node (filing_item tag guest occ window ev now wid)) s3
       in s' = (if k = 0 then tick s1 else if k = 1 then tick s2 else if k = 2 then tick s3 else s4)
          \<and> (json_field ''filed'' resp = Some (JBool True) \<longleftrightarrow> (k :: nat) \<ge> 3)
          \<and> fa = (if k \<ge> 3 then Some audit else None)"
proof (cases "lane_enabled (AutonomyLane LANE_FLEET_HEAL_SLICES) env")
  case False
  then show ?thesis using assms(2) by (intro unchanged) (auto simp: file_graph_defs)
next
  case enabled: True
  have wf: "ledger_wf s" using assms(1) by (simp add: ledger_inv_def)
  obtain r0 s0 where fo: "find_open_heal_work_item tag guest s = (r0, s0)" by fastforce
  note fo_eff = find_open_eq [OF wf fo]
  show ?thesis
  proof (cases r0)
    case (Inl e)
    then show ?thesis
      using assms(2) fo enabled fo_eff(1) by (intro unchanged) (auto simp: file_graph_defs)
  next
    case (Inr found)
    show ?thesis
    proof (cases found)
      case (Some i)
      then show ?thesis
        using assms(2) fo enabled Inr fo_eff(1) fo_eff(4) [of i]
        by (cases "fault s0") (auto simp: file_graph_defs intro: unchanged bumped)
    next
      case None
      obtain r1 s1 where gc: "get_or_create_autonomy_grant LANE_FLEET_HEAL_SLICES now s0 = (r1, s1)"
        by fastforce
      show ?thesis
      proof (cases r1)
        case (Inl e)
        then show ?thesis
          using assms(2) fo enabled Inr None gc fo_eff(1) by (intro refused [of s0]) (auto simp: file_graph_defs)
      next
        case g: (Inr g)
        show ?thesis
        proof (cases "snd (try_consume_daily_action g now)")
          case False
          then show ?thesis
            using assms(2) fo enabled Inr None gc g fo_eff(1)
            by (intro refused [of s0]) (auto simp: file_graph_defs)
        next
          case ok: True
          let ?g' = "fst (try_consume_daily_action g now)" and ?ev = "cap_evidence_lines lines"
          let ?s2 = "put_node (grant_node ?g') s1"
          let ?s3 = "put_node (audit_node (filing_audit tag guest occ window ?ev (g_posture ?g') now wid)) ?s2"
          define k :: nat where
            "k = (if fault s1 then 0 else if fault ?s2 then 1 else if fault ?s3 then 2 else 3)"
          show ?thesis
            using assms(2) fo enabled Inr None gc g ok fo_eff(1)
            by (intro charged [of s0 g s1 k])
              (auto simp: file_graph_defs k_def dest: fo_eff(3))
        qed
      qed
    qed
  qed
qed

lemma file_graph_inv:
  assumes "ledger_inv s" "items_of s wid = None"
    and "file_heal_work_item_graph tag guest occ window lines now env wid s = (resp, s', fa)"
  shows "ledger_inv s'"
  using assms(1,3)
proof (cases rule: file_graph_cases)
  case unchanged
  then show ?thesis using assms(1) by (simp add: ledger_inv_same)
next
  case (bumped i s0)
  have inv: "ledger_inv s0" using assms(1) bumped(5) by (simp add: ledger_inv_same)
  show ?thesis
    unfolding bumped(6)
    by (rule ledger_inv_update_item [OF inv, of _ i])
      (use bumped views_nodes(3) [of s0 s] in simp_all)
next
  case (refused r s0)
  then show ?thesis using get_or_create_inv ledger_inv_same [OF assms(1)] by blast
next
  case (charged s0 g s1 k)
  let ?g' = "fst (try_consume_daily_action g now)" and ?ev = "cap_evidence_lines lines"
  let ?audit = "filing_audit tag guest occ window ?ev (g_posture ?g') now wid"
  let ?s2 = "put_node (grant_node ?g') s1"
  let ?s3 = "put_node (audit_node ?audit) ?s2"
  have inv0: "ledger_inv s0" using charged(1) assms(1) by (simp add: ledger_inv_same)
  have inv1: "ledger_inv s1" by (rule get_or_create_inv [OF inv0 charged(2)])
  have inv3: "ledger_inv ?s3" "ledger_inv ?s2"
    using inv1 by (simp_all add: ledger_inv_put_grant ledger_inv_put_audit)
  have aid: "audit_id ?audit = ''heal_filing:'' @ wid"
    by (simp add: filing_audit_def with_provenance_def AutonomyAuditRecord_new_def)
  have items: "items_of ?s3 = items_of s"
    using get_or_create_effect(3) [OF _ charged(2)] inv0 views_nodes(3) [OF charged(1)]
    by (simp add: ledger_inv_def)
  have "ledger_inv (put_node (item_node (filing_item tag guest occ window ?ev now wid)) ?s3)"
    by (rule ledger_inv_put_item [OF inv3(1)])
      (use items charged(5) aid in \<open>auto simp: filing_item_def same_open_def\<close>)
  then show ?thesis using charged(6) inv1 inv3 by (auto simp: Let_def split: if_splits)
qed

subsection \<open>The sweep\<close>

lemma sweep_one_effect:
  assumes "ledger_wf s" "sweep_one now a (oc, s) = (oc', s')"
  shows "ledger_wf s'" "grants_of s' = grants_of s" "items_of s' = items_of s"
    "\<And>b. b \<noteq> audit_id a \<Longrightarrow> audits_of s' b = audits_of s b"
    "audits_of s' (audit_id a) = audits_of s (audit_id a) \<and> sw_stamped oc' = sw_stamped oc
     \<or> (\<exists>a0. audits_of s (audit_id a) = Some a0
          \<and> audits_of s' (audit_id a) = Some (a0\<lparr>a_outcome := AO_Neutral, a_updated_at := now\<rparr>))
        \<and> sw_stamped oc' = sw_stamped oc @ [audit_id a]"
    "faults s = [] \<Longrightarrow> audits_of s (audit_id a) \<noteq> None
       \<Longrightarrow> sw_stamped oc' = sw_stamped oc @ [audit_id a] \<and> sw_errors oc' = sw_errors oc \<and> faults s' = []"
proof -
  obtain r s1 where st: "set_autonomy_audit_outcome (audit_id a) AO_Neutral now s = (r, s1)" by fastforce
  note eff = set_audit_outcome_effect [OF assms(1) st]
  have s': "s' = s1"
    using assms(2) st by (auto simp: sweep_one_def split: sum.splits bool.splits)
  show "ledger_wf s'" "grants_of s' = grants_of s" "items_of s' = items_of s"
    using eff(1-3) s' by simp_all
  have stamped: "sw_stamped oc' = (if r = Inr True then sw_stamped oc @ [audit_id a] else sw_stamped oc)"
    "r = Inr True \<Longrightarrow> sw_errors oc' = sw_errors oc"
    using assms(2) st by (auto simp: sweep_one_def split: sum.splits bool.splits)
  show "audits_of s' b = audits_of s b" if "b \<noteq> audit_id a" for b
    using eff(4,5) views_nodes(2) [of s1 s] that s' by (cases "r = Inr True") auto
  show "audits_of s' (audit_id a) = audits_of s (audit_id a) \<and> sw_stamped oc' = sw_stamped oc
     \<or> (\<exists>a0. audits_of s (audit_id a) = Some a0
          \<and> audits_of s' (audit_id a) = Some (a0\<lparr>a_outcome := AO_Neutral, a_updated_at := now\<rparr>))
        \<and> sw_stamped oc' = sw_stamped oc @ [audit_id a]"
    using eff(4,5) views_nodes(2) [of s1 s] stamped s' by (cases "r = Inr True") auto
  show "faults s = [] \<Longrightarrow> audits_of s (audit_id a) \<noteq> None
       \<Longrightarrow> sw_stamped oc' = sw_stamped oc @ [audit_id a] \<and> sw_errors oc' = sw_errors oc \<and> faults s' = []"
    using eff(7) stamped s' by auto
qed

definition neutralised :: "nat \<Rightarrow> AutonomyAuditRecord \<Rightarrow> AutonomyAuditRecord" where
  "neutralised now a = a\<lparr>a_outcome := AO_Neutral, a_updated_at := now\<rparr>"

lemma fold_sweep_effect:
  assumes "ledger_wf s" "fold (sweep_one now) due (oc, s) = (oc', s')"
    and "distinct (map audit_id due)" "\<forall>a\<in>set due. audits_of s (audit_id a) = Some a"
  shows "ledger_wf s' \<and> grants_of s' = grants_of s \<and> items_of s' = items_of s
    \<and> (\<forall>b. audits_of s' b = audits_of s b
         \<or> (\<exists>a\<in>set due. b = audit_id a \<and> audits_of s' b = Some (neutralised now a) \<and> b \<in> set (sw_stamped oc')))
    \<and> set (sw_stamped oc) \<subseteq> set (sw_stamped oc')
    \<and> (faults s = [] \<longrightarrow> sw_stamped oc' = sw_stamped oc @ map audit_id due \<and> sw_errors oc' = sw_errors oc
         \<and> (\<forall>a\<in>set due. audits_of s' (audit_id a) = Some (neutralised now a)))"
  using assms
proof (induction due arbitrary: oc s)
  case Nil
  then show ?case by simp
next
  case (Cons a due)
  obtain oc1 s1 where one: "sweep_one now a (oc, s) = (oc1, s1)" by fastforce
  note eff = sweep_one_effect [OF Cons.prems(1) one]
  have ne: "audit_id b \<noteq> audit_id a" if "b \<in> set due" for b
    using Cons.prems(3) that by auto (metis imageI)
  have s1: "\<forall>b\<in>set due. audits_of s1 (audit_id b) = Some b"
    using Cons.prems(4) eff(4) ne by auto
  have rest: "fold (sweep_one now) due (oc1, s1) = (oc', s')" using Cons.prems(2) one by simp
  have IH: "ledger_wf s' \<and> grants_of s' = grants_of s1 \<and> items_of s' = items_of s1
    \<and> (\<forall>b. audits_of s' b = audits_of s1 b
         \<or> (\<exists>a\<in>set due. b = audit_id a \<and> audits_of s' b = Some (neutralised now a) \<and> b \<in> set (sw_stamped oc')))
    \<and> set (sw_stamped oc1) \<subseteq> set (sw_stamped oc')
    \<and> (faults s1 = [] \<longrightarrow> sw_stamped oc' = sw_stamped oc1 @ map audit_id due \<and> sw_errors oc' = sw_errors oc1
         \<and> (\<forall>a\<in>set due. audits_of s' (audit_id a) = Some (neutralised now a)))"
    using Cons.IH [OF eff(1) rest _ s1] Cons.prems(3) by simp
  have here: "audits_of s' (audit_id a) = audits_of s1 (audit_id a)" using IH ne by metis
  have a: "audits_of s (audit_id a) = Some a" using Cons.prems(4) by simp
  have step: "audits_of s1 (audit_id a) = audits_of s (audit_id a)
     \<or> audits_of s1 (audit_id a) = Some (neutralised now a) \<and> audit_id a \<in> set (sw_stamped oc1)"
    using eff(5) a by (auto simp: neutralised_def)
  have mono: "set (sw_stamped oc) \<subseteq> set (sw_stamped oc1)" using eff(5) by auto
  have all: "audits_of s' b = audits_of s b
         \<or> (\<exists>a\<in>set (a # due). b = audit_id a \<and> audits_of s' b = Some (neutralised now a)
              \<and> b \<in> set (sw_stamped oc'))" for b
  proof (cases "b = audit_id a")
    case True
    then show ?thesis using here step IH by auto
  next
    case False
    then have s1b: "audits_of s1 b = audits_of s b" by (rule eff(4))
    from IH have "audits_of s' b = audits_of s1 b
         \<or> (\<exists>a\<in>set due. b = audit_id a \<and> audits_of s' b = Some (neutralised now a) \<and> b \<in> set (sw_stamped oc'))"
      by blast
    then show ?thesis using s1b by auto
  qed
  have clean: "sw_stamped oc' = sw_stamped oc @ map audit_id (a # due) \<and> sw_errors oc' = sw_errors oc
         \<and> (\<forall>a\<in>set (a # due). audits_of s' (audit_id a) = Some (neutralised now a))"
    if "faults s = []"
  proof -
    have one': "sw_stamped oc1 = sw_stamped oc @ [audit_id a]" "sw_errors oc1 = sw_errors oc" "faults s1 = []"
      using eff(6) [OF that] a by auto
    then have "audits_of s1 (audit_id a) = Some (neutralised now a)"
      using eff(5) a by (auto simp: neutralised_def)
    then show ?thesis using IH one' here by auto
  qed
  show ?case using IH eff(2,3) all mono clean by (auto simp del: list.set)
qed

lemma distinct_map_sort_key: "distinct (map g (sort_key f xs)) \<longleftrightarrow> distinct (map g xs)"
  by (metis mset_map mset_sort mset_eq_imp_distinct_iff)

lemma audit_list_distinct: "ledger_wf s \<Longrightarrow> distinct (map audit_id (audit_list s))"
proof -
  assume wf: "ledger_wf s"
  let ?rows = "filter (\<lambda>r. node_kind (snd r) = NODE_KIND_AUTONOMY_AUDIT) (nodes s)"
  have "map (\<lambda>r. autonomy_audit_key (audit_id (the_audit (node_payload (snd r))))) ?rows = map fst ?rows"
    using wf_nodes [OF wf] node_kind_audit by (auto intro!: map_cong)
  then have keys: "map autonomy_audit_key (map (\<lambda>r. audit_id (the_audit (node_payload (snd r)))) ?rows)
      = map fst ?rows" by (simp only: map_map o_def)
  have "distinct (map fst ?rows)"
    using wf tbl_wf_distinct [of "nodes s"] by (simp add: ledger_wf_def distinct_map_filter)
  then have "distinct (map autonomy_audit_key (map (\<lambda>r. audit_id (the_audit (node_payload (snd r)))) ?rows))"
    by (simp only: keys)
  then have "distinct (map (\<lambda>r. audit_id (the_audit (node_payload (snd r)))) ?rows)"
    unfolding distinct_map by blast
  then show ?thesis
    by (simp add: audit_list_def distinct_map_sort_key filter_map o_def)
qed

lemma run_sweep_effect:
  assumes "ledger_wf s" "run_sweep hotel now window_secs s = (oc, s')"
  shows "ledger_wf s' \<and> grants_of s' = grants_of s \<and> items_of s' = items_of s
    \<and> (\<forall>aid. audits_of s' aid = audits_of s aid
         \<or> (\<exists>a. audits_of s aid = Some a \<and> is_due_for_neutral a now window_secs
              \<and> audits_of s' aid = Some (neutralised now a) \<and> aid \<in> set (sw_stamped oc)))
    \<and> (faults s = [] \<longrightarrow> sw_errors oc = []
         \<and> audits_of s' = (\<lambda>aid. map_option
              (\<lambda>a. if is_due_for_neutral a now window_secs then neutralised now a else a) (audits_of s aid)))"
proof (cases "fault s")
  case True
  then show ?thesis
    using assms by (auto simp: run_sweep_def Let_def lists_eq fault_def split: list.splits)
next
  case False
  let ?due = "select_due_for_neutral (audit_list s) now window_secs"
  let ?oc = "\<lparr>sw_hotel = hotel, sw_scanned = length (audit_list s), sw_stamped = [], sw_errors = []\<rparr>"
  have fold: "fold (sweep_one now) ?due (?oc, tick s) = (oc, s')"
    using assms False by (simp add: run_sweep_def Let_def lists_eq)
  have due: "distinct (map audit_id ?due)" "\<forall>a\<in>set ?due. audits_of (tick s) (audit_id a) = Some a"
    using audit_list_distinct [OF assms(1)] set_audit_list [OF assms(1)]
    by (auto simp: select_due_for_neutral_def distinct_map_filter)
  have mem: "a \<in> set ?due \<longleftrightarrow> audits_of s (audit_id a) = Some a \<and> is_due_for_neutral a now window_secs" for a
    using set_audit_list [OF assms(1), of a] by (auto simp: select_due_for_neutral_def)
  note eff = fold_sweep_effect [OF _ fold due, simplified, OF assms(1)]
  have each: "audits_of s' aid = audits_of s aid
         \<or> (\<exists>a. audits_of s aid = Some a \<and> is_due_for_neutral a now window_secs
              \<and> audits_of s' aid = Some (neutralised now a) \<and> aid \<in> set (sw_stamped oc))" for aid
    using eff mem by blast
  have "audits_of s' aid = map_option
      (\<lambda>a. if is_due_for_neutral a now window_secs then neutralised now a else a) (audits_of s aid)"
    if "faults s = []" for aid
  proof (cases "audits_of s aid")
    case None
    then show ?thesis using each [of aid] by auto
  next
    case (Some a)
    then have "audit_id a = aid" using audits_of_id [OF assms(1)] by blast
    moreover have "faults (tick s) = []" using that by (simp add: tick_def)
    ultimately show ?thesis using eff each [of aid] mem [of a] Some by auto
  qed
  moreover have "sw_errors oc = []" if "faults s = []"
    using eff that by (simp add: tick_def)
  ultimately show ?thesis using eff each by (auto simp: fun_eq_iff)
qed

text \<open>The timeout sweep is a bookkeeping wash: whatever storage calls fail, it changes no grant
  and no work item, and the only audits it changes were pending and past the window; those become
  Neutral and are reported as stamped. Without failures it stamps every such audit, across all
  lanes, and reports no error.\<close>

theorem sweep_stamps_exactly_due:
  assumes "ledger_wf s" "run_sweep hotel now window_secs s = (oc, s')"
  shows "grants_of s' = grants_of s \<and> items_of s' = items_of s
    \<and> (\<forall>aid. audits_of s' aid = audits_of s aid
         \<or> (\<exists>a. audits_of s aid = Some a \<and> is_due_for_neutral a now window_secs
              \<and> audits_of s' aid = Some (neutralised now a) \<and> aid \<in> set (sw_stamped oc)))
    \<and> (faults s = [] \<longrightarrow> sw_errors oc = []
         \<and> audits_of s' = (\<lambda>aid. map_option
              (\<lambda>a. if is_due_for_neutral a now window_secs then neutralised now a else a) (audits_of s aid)))"
  using run_sweep_effect [OF assms] by blast

theorem sweep_stamps_exactly_due_witness:
  "audits_of (snd (run_sweep ''h'' 1000 600 (demo_db ''memory.hygiene'' []))) ''a1''
     = Some (neutralised 1000 (demo_audit ''memory.hygiene''))"
  using sweep_stamps_exactly_due [OF demo_db_wf, of "''h''" 1000 600 "''memory.hygiene''" "[]"
      "fst (run_sweep ''h'' 1000 600 (demo_db ''memory.hygiene'' []))"
      "snd (run_sweep ''h'' 1000 600 (demo_db ''memory.hygiene'' []))"]
  by (simp add: is_due_for_neutral_def demo_audit_def AutonomyAuditRecord_new_def)

lemma close_inv:
  assumes "ledger_inv s" "close_heal_work_item wid now s = (r, s')"
  shows "ledger_inv s'"
proof -
  have wf: "ledger_wf s" using assms(1) by (simp add: ledger_inv_def)
  show ?thesis
  proof (cases "items_of s wid")
    case None
    then show ?thesis
      using assms by (auto simp: close_heal_work_item_def gbind_def gret_def gets_eq(3) [OF wf] split: if_splits)
  next
    case (Some i)
    let ?i = "i\<lparr>wi_status := HEAL_WORK_ITEM_STATUS_CLOSED, wi_last_seen := now\<rparr>"
    have "ledger_inv (put_node (item_node ?i) (tick s))"
      by (rule ledger_inv_update_item [of _ _ i])
        (use assms(1) Some items_of_id [OF wf Some] in
          \<open>simp_all add: HEAL_WORK_ITEM_STATUS_CLOSED_def HEAL_WORK_ITEM_STATUS_OPEN_def\<close>)
    then show ?thesis
      using assms Some
      by (auto simp: close_heal_work_item_def gbind_def gret_def gets_eq(3) [OF wf] upserts_eq
          split: if_splits)
  qed
qed

lemma clear_inv:
  assumes "ledger_inv s" "clear_autonomy_freeze lane now s = (r, s')"
  shows "ledger_inv s'"
proof -
  have wf: "ledger_wf s" using assms(1) by (simp add: ledger_inv_def)
  show ?thesis
    using assms
    by (auto simp: clear_autonomy_freeze_def gbind_def gret_def gets_eq(1) [OF wf] upserts_eq
        intro: ledger_inv_put_grant split: if_splits option.splits)
qed

lemma ledger_reach_inv: "ledger_reach s \<Longrightarrow> ledger_inv s"
proof (induction rule: ledger_reach.induct)
  case (lr_empty fs)
  then show ?case
    by (simp add: ledger_inv_def ledger_wf_def tbl_wf_def one_open_def items_audited_def items_of_def
        tbl_get_def)
next
  case (lr_faults s fs)
  then show ?case by (simp add: ledger_inv_same)
next
  case (lr_file s wid he tag guest occ window lines now env hq resp s' hq')
  obtain resp1 s1 fa where f: "file_heal_work_item_graph tag guest occ window lines now env wid s = (resp1, s1, fa)"
    by (metis prod_cases3)
  then have "s' = s1"
    using lr_file.hyps(3) by (auto simp: handle_file_heal_work_item_def split: option.splits)
  then show ?case using file_graph_inv [OF lr_file.IH lr_file.hyps(2) f] by simp
next
  case (lr_close s wid now r s')
  then show ?case by (blast intro: close_inv)
next
  case (lr_consume s lane summary evidence hint now env uuid resp s')
  then show ?case
    using consume_effect [OF _ lr_consume.hyps(2)] ledger_inv_items [of s s'] by (simp add: ledger_inv_def)
next
  case (lr_review s aid out now resp s')
  then show ?case
    using handle_record_effect [OF _ lr_review.hyps(2)] ledger_inv_items [of s s']
    by (simp add: ledger_inv_def)
next
  case (lr_clear s lane now rc s')
  then show ?case by (blast intro: clear_inv)
next
  case (lr_sweep s hotel now window_secs oc s')
  have wf: "ledger_wf s" using lr_sweep.IH by (simp add: ledger_inv_def)
  from run_sweep_effect [OF wf lr_sweep.hyps(2)]
  have "audits_of s b \<noteq> None \<Longrightarrow> audits_of s' b \<noteq> None" for b by (metis option.distinct(1))
  then show ?case
    using run_sweep_effect [OF wf lr_sweep.hyps(2)] ledger_inv_items [OF lr_sweep.IH, of s'] by blast
qed

text \<open>In every ledger the hotel can reach, through any mix of filings, closings, consults,
  reviews, freeze clearings and sweeps with storage calls failing anywhere, there is at most one
  open heal work item per (pattern, guest), every work item points at an audit record that is in
  the store, and the table is well formed.\<close>

theorem reachable_ledgers_deduped:
  assumes "ledger_reach s"
  shows "ledger_wf s \<and> one_open (items_of s)
     \<and> (\<forall>wid i. items_of s wid = Some i \<longrightarrow>
          (\<exists>aid a. wi_audit_id i = Some aid \<and> audits_of s aid = Some a \<and> audit_id a = aid))"
proof -
  have inv: "ledger_wf s" "one_open (items_of s)" "items_audited (items_of s) (dom (audits_of s))"
    using ledger_reach_inv [OF assms] by (simp_all add: ledger_inv_def)
  have "\<exists>aid a. wi_audit_id i = Some aid \<and> audits_of s aid = Some a \<and> audit_id a = aid"
    if "items_of s wid = Some i" for wid i
    using inv(3) that audits_of_id [OF inv(1)] unfolding items_audited_def by blast
  with inv show ?thesis by blast
qed

definition demo_he :: hq_env where
  "demo_he = \<lparr>he_tbl = (\<lambda>s. s), he_now1 = 100, he_id1 = ''q1'', he_now2 = 100, he_id2 = ''q2''\<rparr>"

definition demo_filing :: "IpcResponse \<times> graph_db \<times> heal_queue option" where
  "demo_filing = handle_file_heal_work_item demo_he ''panic'' ''g1'' 5 1800 [''boom''] 100 Map.empty ''w1''
     (\<lparr>nodes = [], faults = []\<rparr>, None)"

lemma demo_filing_reach: "ledger_reach (fst (snd demo_filing))"
proof -
  have "items_of \<lparr>nodes = [], faults = []\<rparr> ''w1'' = None" by (simp add: items_of_def tbl_get_def)
  from lr_file [OF lr_empty this, of demo_he "''panic''" "''g1''" 5 1800 "[''boom'']" 100 Map.empty None
      "fst demo_filing" "fst (snd demo_filing)" "snd (snd demo_filing)"]
  show ?thesis by (simp add: demo_filing_def)
qed

theorem reachable_ledgers_deduped_witness:
  "ledger_reach (fst (snd demo_filing)) \<and> one_open (items_of (fst (snd demo_filing)))"
  using demo_filing_reach reachable_ledgers_deduped [OF demo_filing_reach] by blast

subsection \<open>Filing\<close>

text \<open>A filing is reported only when it is done and paid for, whichever storage calls fail: the
  lane's kill switch is off, one unit of the daily budget of \<open>fleet.heal_slices\<close> was available and
  is charged, the work item is stored open with the capped evidence, and a pending audit record
  with the provenance of the filing is stored under the id the item names.\<close>

theorem filing_is_audited:
  assumes "ledger_reach s"
    and "handle_file_heal_work_item he tag guest occ window lines now env wid (s, hq) = (resp, s', hq')"
    and "json_field ''filed'' resp = Some (JBool True)"
  shows "let g = current_grant s LANE_FLEET_HEAL_SLICES now; ev = cap_evidence_lines lines;
             audit = filing_audit tag guest occ window ev (g_posture g) now wid
         in lane_enabled (AutonomyLane LANE_FLEET_HEAL_SLICES) env
          \<and> snd (try_consume_daily_action g now)
          \<and> grants_of s' = (grants_of s)(LANE_FLEET_HEAL_SLICES \<mapsto> fst (try_consume_daily_action g now))
          \<and> items_of s' = (items_of s)(wid \<mapsto> filing_item tag guest occ window ev now wid)
          \<and> audits_of s' = (audits_of s)(''heal_filing:'' @ wid \<mapsto> audit) \<and> a_outcome audit = AO_Pending"
proof -
  have inv: "ledger_inv s" by (rule ledger_reach_inv [OF assms(1)])
  obtain fa where f: "file_heal_work_item_graph tag guest occ window lines now env wid s = (resp, s', fa)"
    using assms(2) by (auto simp: handle_file_heal_work_item_def split: prod.splits option.splits)
  from inv f show ?thesis
  proof (cases rule: file_graph_cases)
    case (charged s0 g s1 k)
    have s0: "ledger_wf s0" "grants_of s0 = grants_of s" "audits_of s0 = audits_of s" "items_of s0 = items_of s"
      using inv views_nodes [OF charged(1)] charged(1) by (simp_all add: ledger_inv_def ledger_wf_def)
    note eff = get_or_create_effect [OF s0(1) charged(2)]
    have g: "g = current_grant s LANE_FLEET_HEAL_SLICES now"
      "grants_of s1 = (grants_of s)(LANE_FLEET_HEAL_SLICES \<mapsto> g)"
      using eff(4) s0(2) by (auto simp: current_grant_def)
    have lane: "lane_str (g_lane (fst (try_consume_daily_action g now))) = LANE_FLEET_HEAL_SLICES"
      using current_grant_lane [of s0 LANE_FLEET_HEAL_SLICES now] s0 g(1)
      by (simp add: consume_lane current_grant_def)
    have ids: "audit_id (filing_audit tag guest occ window ev p now wid) = ''heal_filing:'' @ wid"
      "a_outcome (filing_audit tag guest occ window ev p now wid) = AO_Pending"
      "work_item_id (filing_item tag guest occ window ev now wid) = wid" for ev p
      by (simp_all add: filing_audit_def with_provenance_def AutonomyAuditRecord_new_def filing_item_def)
    show ?thesis
      using charged(3,4,6) assms(3) eff(2,3) s0(3,4) g lane
      by (simp add: Let_def ids consume_posture split: if_splits)
  qed (use assms(3) in simp_all)
qed

theorem filing_is_audited_witness:
  "items_of (fst (snd demo_filing)) ''w1'' \<noteq> None
   \<and> json_field ''filed'' (fst demo_filing) = Some (JBool True)"
proof -
  let ?s0 = "\<lparr>nodes = [], faults = []\<rparr>"
  have wf: "ledger_wf ?s0" by (simp add: ledger_wf_def tbl_wf_def)
  obtain r0 s0 where gc: "get_or_create_autonomy_grant LANE_FLEET_HEAL_SLICES 100 (tick ?s0) = (r0, s0)"
    by fastforce
  have cur: "current_grant ?s0 LANE_FLEET_HEAL_SLICES 100 = AutonomyGrant_new (AutonomyLane LANE_FLEET_HEAL_SLICES) 100"
    by (simp add: current_grant_def grants_of_def tbl_get_def)
  have r0: "r0 = Inr (AutonomyGrant_new (AutonomyLane LANE_FLEET_HEAL_SLICES) 100)" "faults s0 = []"
    using get_or_create_effect(6) [OF _ gc] wf cur by (simp_all add: tick_def current_grant_def grants_of_def tbl_get_def)
  have "snd (try_consume_daily_action (AutonomyGrant_new (AutonomyLane LANE_FLEET_HEAL_SLICES) 100) 100)"
    by (simp add: try_consume_daily_action_def model_defs utc_day_def)
  moreover have "find_open_heal_work_item tag guest ?s0 = (Inr None, tick ?s0)" for tag guest
    by (simp add: find_open_heal_work_item_def gbind_def gret_def lists_eq [OF wf] fault_def item_list_def)
  ultimately have filed: "json_field ''filed'' (fst demo_filing) = Some (JBool True)"
    using gc r0
    by (simp add: demo_filing_def handle_file_heal_work_item_def file_graph_defs lane_enabled_def
        fault_def put_node_def)
  have "demo_filing = (fst demo_filing, fst (snd demo_filing), snd (snd demo_filing))" by simp
  from filing_is_audited [OF lr_empty this [unfolded demo_filing_def], folded demo_filing_def, OF filed] filed
  show ?thesis by (simp add: Let_def)
qed

end
