(* ===== verification/Leases.thy ===== *)
theory Leases
  imports Tables
begin

section \<open>Runtime leases: the hotel's registry\<close>

text \<open>
  Models \<^verbatim>\<open>crates/aiua/src/service/lease.rs\<close> and the envelope of
  \<^verbatim>\<open>crates/philotic-client/src/lib.rs\<close>. The registry's two \<open>HashMap\<close>s are keyed tables; a
  connection id (a \<open>Uuid\<close>) is a natural number; an observer is the list of the events it is
  given, returned by each operation. Epochs and timestamps are \<open>u64\<close>; \<open>u64_add\<close> keeps the
  wrap-around of \<open>now + ttl\<close> and of the epoch counter visible.
\<close>

subsection \<open>Data\<close>

datatype LeaseStatus = LeaseActive | LeaseReleasing | LeaseExpired | LeaseRevoked

record LeaseEnvelope =
  lease_type :: string
  lease_scope :: string
  authority_hotel :: string
  authority_component :: "string option"
  owner_guest_id :: string
  owner_hotel :: "string option"
  owner_component_type :: "string option"
  lease_epoch :: nat
  lease_expires_at :: nat
  last_heartbeat_at :: nat
  lease_status :: LeaseStatus
  delegated_from :: "string option"
  lease_metadata :: json

definition is_active :: "LeaseEnvelope \<Rightarrow> bool" where
  "is_active e \<longleftrightarrow> lease_status e = LeaseActive"

datatype LeaseObserverEventKind =
    LeaseGrantedEv | LeaseRenewedEv | LeaseReleasedEv | LeaseRevokedEv | LeaseExpiredEv | StaleOwnerDropped

record LeaseObserverEvent =
  ev_kind :: LeaseObserverEventKind
  ev_lease :: LeaseEnvelope

type_synonym conn = nat

record ActiveLease =
  conn_id :: conn
  envelope :: LeaseEnvelope

datatype LeaseAcquireOutcome = Granted LeaseEnvelope | Denied LeaseEnvelope

datatype LeaseRenewOutcome = Renewed LeaseEnvelope | LeaseLost "LeaseEnvelope option"

record RuntimeLeaseRegistry =
  active :: "(string \<times> ActiveLease) list"
  next_epoch :: "(string \<times> nat) list"

definition registry_default :: RuntimeLeaseRegistry where
  "registry_default = \<lparr>active = [], next_epoch = []\<rparr>"

subsection \<open>Operations\<close>

definition active_leases_for_connection :: "RuntimeLeaseRegistry \<Rightarrow> conn \<Rightarrow> LeaseEnvelope list" where
  "active_leases_for_connection reg c =
     map (envelope \<circ> snd) (filter (\<lambda>r. conn_id (snd r) = c) (active reg))"

definition drop_if_stale ::
  "RuntimeLeaseRegistry \<Rightarrow> string \<Rightarrow> (LeaseEnvelope \<Rightarrow> bool)
   \<Rightarrow> RuntimeLeaseRegistry \<times> LeaseEnvelope option \<times> LeaseObserverEvent list" where
  "drop_if_stale reg scope is_stale =
     (case tbl_get (active reg) scope of
        Some l \<Rightarrow>
          if is_stale (envelope l)
          then (reg\<lparr>active := tbl_del scope (active reg)\<rparr>, Some (envelope l),
                [\<lparr>ev_kind = (if lease_expires_at (envelope l) > 0 \<and> \<not> is_active (envelope l)
                            then LeaseExpiredEv else StaleOwnerDropped),
                  ev_lease = envelope l\<rparr>])
          else (reg, None, [])
      | None \<Rightarrow> (reg, None, []))"

definition mark_expired ::
  "RuntimeLeaseRegistry \<Rightarrow> string \<Rightarrow> RuntimeLeaseRegistry \<times> LeaseEnvelope option \<times> LeaseObserverEvent list"
where
  "mark_expired reg scope =
     (case tbl_get (active reg) scope of
        None \<Rightarrow> (reg, None, [])
      | Some l \<Rightarrow>
          (let removed = (envelope l)\<lparr>lease_status := LeaseExpired\<rparr>
           in (reg\<lparr>active := tbl_del scope (active reg)\<rparr>, Some removed,
               [\<lparr>ev_kind = LeaseExpiredEv, ev_lease = removed\<rparr>])))"

definition epoch_of :: "RuntimeLeaseRegistry \<Rightarrow> string \<Rightarrow> nat" where
  "epoch_of reg scope = (case tbl_get (next_epoch reg) scope of Some n \<Rightarrow> n | None \<Rightarrow> 0)"

definition acquire ::
  "RuntimeLeaseRegistry \<Rightarrow> conn \<Rightarrow> LeaseEnvelope \<Rightarrow> nat \<Rightarrow> nat
   \<Rightarrow> RuntimeLeaseRegistry \<times> LeaseAcquireOutcome \<times> LeaseObserverEvent list" where
  "acquire reg owner candidate ttl_secs now =
     (case tbl_get (active reg) (lease_scope candidate) of
        Some existing \<Rightarrow>
          if conn_id existing = owner then (reg, Granted (envelope existing), [])
          else (reg, Denied (envelope existing), [])
      | None \<Rightarrow>
          (let epoch = u64_add (epoch_of reg (lease_scope candidate)) 1;
               lease = candidate\<lparr>lease_epoch := epoch, lease_expires_at := u64_add now ttl_secs,
                                 last_heartbeat_at := now, lease_status := LeaseActive\<rparr>
           in (reg\<lparr>next_epoch := tbl_put (lease_scope candidate) epoch (next_epoch reg),
                   active := tbl_put (lease_scope candidate) \<lparr>conn_id = owner, envelope = lease\<rparr> (active reg)\<rparr>,
               Granted lease, [\<lparr>ev_kind = LeaseGrantedEv, ev_lease = lease\<rparr>])))"

definition renew ::
  "RuntimeLeaseRegistry \<Rightarrow> string \<Rightarrow> conn \<Rightarrow> nat \<Rightarrow> nat \<Rightarrow> nat
   \<Rightarrow> RuntimeLeaseRegistry \<times> LeaseRenewOutcome \<times> LeaseObserverEvent list" where
  "renew reg scope owner epoch ttl_secs now =
     (case tbl_get (active reg) scope of
        None \<Rightarrow> (reg, LeaseLost None, [])
      | Some existing \<Rightarrow>
          if conn_id existing \<noteq> owner \<or> lease_epoch (envelope existing) \<noteq> epoch
          then (reg, LeaseLost (Some (envelope existing)), [])
          else
            (let lease = (envelope existing)\<lparr>lease_expires_at := u64_add now ttl_secs,
                            last_heartbeat_at := now, lease_status := LeaseActive\<rparr>
             in (reg\<lparr>active := tbl_put scope (existing\<lparr>envelope := lease\<rparr>) (active reg)\<rparr>,
                 Renewed lease, [\<lparr>ev_kind = LeaseRenewedEv, ev_lease = lease\<rparr>])))"

definition release ::
  "RuntimeLeaseRegistry \<Rightarrow> string \<Rightarrow> conn
   \<Rightarrow> RuntimeLeaseRegistry \<times> LeaseEnvelope option \<times> LeaseObserverEvent list" where
  "release reg scope owner =
     (case tbl_get (active reg) scope of
        None \<Rightarrow> (reg, None, [])
      | Some existing \<Rightarrow>
          if conn_id existing \<noteq> owner then (reg, None, [])
          else
            (let removed = (envelope existing)\<lparr>lease_status := LeaseReleasing\<rparr>
             in (reg\<lparr>active := tbl_del scope (active reg)\<rparr>, Some removed,
                 [\<lparr>ev_kind = LeaseReleasedEv, ev_lease = removed\<rparr>])))"

definition inspect :: "RuntimeLeaseRegistry \<Rightarrow> string \<Rightarrow> LeaseEnvelope option" where
  "inspect reg scope = map_option envelope (tbl_get (active reg) scope)"

text \<open>\<open>runtime_lease_is_expired\<close> of the handlers, with the clock as an argument.\<close>

definition runtime_lease_is_expired :: "nat \<Rightarrow> LeaseEnvelope \<Rightarrow> bool" where
  "runtime_lease_is_expired now lease \<longleftrightarrow> lease_expires_at lease > 0 \<and> now \<ge> lease_expires_at lease"

text \<open>On disconnect the handlers release every lease of the connection.\<close>

definition remove_leases :: "RuntimeLeaseRegistry \<Rightarrow> conn \<Rightarrow> RuntimeLeaseRegistry" where
  "remove_leases reg c =
     fold (\<lambda>scope r. fst (release r scope c)) (map lease_scope (active_leases_for_connection reg c)) reg"

subsection \<open>Fencing, as a contract\<close>

text \<open>
  What a lease provider promises its holders: a scope has at most one holder, known by its
  connection and epoch; a holder that appears new carries an epoch above every epoch handed
  out before. From that alone, epochs fence: a holder once replaced never comes back.
\<close>

locale lease_provider =
  fixes holds :: "'s \<Rightarrow> string \<Rightarrow> ('c \<times> nat) option"
    and issued :: "'s \<Rightarrow> string \<Rightarrow> nat"
    and ok :: "'s \<Rightarrow> bool"
    and step :: "'s \<Rightarrow> 's \<Rightarrow> bool"
  assumes holds_issued: "ok s \<Longrightarrow> holds s k = Some (c, e) \<Longrightarrow> e \<le> issued s k"
    and issued_mono: "ok s \<Longrightarrow> step s s' \<Longrightarrow> issued s k \<le> issued s' k"
    and new_holder: "ok s \<Longrightarrow> step s s' \<Longrightarrow> holds s' k = Some (c, e)
          \<Longrightarrow> holds s k = Some (c, e) \<or> issued s k < e"
    and ok_step: "ok s \<Longrightarrow> step s s' \<Longrightarrow> ok s'"
begin

lemma ok_steps: "step\<^sup>*\<^sup>* s s' \<Longrightarrow> ok s \<Longrightarrow> ok s'"
  by (induction rule: rtranclp_induct) (auto intro: ok_step)

lemma issued_steps: "step\<^sup>*\<^sup>* s s' \<Longrightarrow> ok s \<Longrightarrow> issued s k \<le> issued s' k"
proof (induction rule: rtranclp_induct)
  case (step y z)
  then show ?case using issued_mono [of y z k] ok_steps by fastforce
qed simp

text \<open>A holder seen later is the one seen now or has an epoch above all issued until now.\<close>

lemma later_holder:
  "step\<^sup>*\<^sup>* s s' \<Longrightarrow> ok s \<Longrightarrow> holds s' k = Some (c, e) \<Longrightarrow> holds s k = Some (c, e) \<or> issued s k < e"
proof (induction arbitrary: c e rule: rtranclp_induct)
  case (step y z)
  then have "ok y" "issued s k \<le> issued y k" using ok_steps issued_steps by blast+
  then show ?case using step new_holder [of y z k c e] by fastforce
qed simp

lemma epochs_increase:
  assumes "step\<^sup>*\<^sup>* s s'" "ok s" "holds s k = Some (c, e)" "holds s' k = Some (c', e')"
  shows "(c', e') = (c, e) \<or> e < e'"
  using later_holder [OF assms(1,2,4)] holds_issued [OF assms(2,3)] assms(3) by auto

lemma replaced_never_returns:
  assumes "step\<^sup>*\<^sup>* s s1" "step\<^sup>*\<^sup>* s1 s2" "ok s"
    and "holds s k = Some (c, e)" "holds s1 k \<noteq> Some (c, e)"
  shows "holds s2 k \<noteq> Some (c', e)"
proof
  assume h2: "holds s2 k = Some (c', e)"
  have ok1: "ok s1" by (rule ok_steps [OF assms(1,3)])
  have "e \<le> issued s1 k"
    using holds_issued [OF assms(3,4)] issued_steps [OF assms(1,3), of k] by simp
  with later_holder [OF assms(2) ok1 h2] have "holds s1 k = Some (c', e)" by auto
  with epochs_increase [OF assms(1,3,4)] assms(5) show False by auto
qed

end

subsection \<open>The registry keeps the contract\<close>

definition holder :: "RuntimeLeaseRegistry \<Rightarrow> string \<Rightarrow> (conn \<times> nat) option" where
  "holder reg scope =
     map_option (\<lambda>l. (conn_id l, lease_epoch (envelope l))) (tbl_get (active reg) scope)"

definition registry_ok :: "RuntimeLeaseRegistry \<Rightarrow> bool" where
  "registry_ok reg \<longleftrightarrow> tbl_wf (active reg) \<and> tbl_wf (next_epoch reg)
     \<and> (\<forall>k l. tbl_get (active reg) k = Some l
          \<longrightarrow> lease_scope (envelope l) = k \<and> lease_epoch (envelope l) \<le> epoch_of reg k)"

text \<open>One operation of the registry. Epochs do not run out: a scope is granted fewer than
  \<open>2 ^ 64\<close> times.\<close>

inductive lease_step :: "RuntimeLeaseRegistry \<Rightarrow> RuntimeLeaseRegistry \<Rightarrow> bool" where
  ls_acquire: "epoch_of reg (lease_scope cand) < u64_max \<Longrightarrow> lease_step reg (fst (acquire reg c cand ttl now))"
| ls_renew: "lease_step reg (fst (renew reg scope c e ttl now))"
| ls_release: "lease_step reg (fst (release reg scope c))"
| ls_drop: "lease_step reg (fst (drop_if_stale reg scope stale))"
| ls_expire: "lease_step reg (fst (mark_expired reg scope))"

inductive_cases lease_stepE: "lease_step reg reg'"

lemma holder_acquire:
  assumes "registry_ok reg"
  shows "holder (fst (acquire reg c cand ttl now)) k =
     (if k = lease_scope cand \<and> holder reg k = None
      then Some (c, u64_add (epoch_of reg k) 1) else holder reg k)"
    and "epoch_of (fst (acquire reg c cand ttl now)) k =
     (if k = lease_scope cand \<and> holder reg k = None then u64_add (epoch_of reg k) 1 else epoch_of reg k)"
  by (auto simp: acquire_def holder_def epoch_of_def Let_def tbl_get_put split: option.splits)

lemma holder_other:
  assumes "registry_ok reg"
  shows "holder (fst (renew reg scope c e ttl now)) k = holder reg k"
    and "epoch_of (fst (renew reg scope c e ttl now)) k = epoch_of reg k"
    and "holder (fst (release reg scope c)) k
           = (if k = scope \<and> (\<exists>e. holder reg k = Some (c, e)) then None else holder reg k)"
    and "epoch_of (fst (release reg scope c)) k = epoch_of reg k"
    and "holder (fst (drop_if_stale reg scope stale)) k = holder reg k
           \<or> k = scope \<and> holder (fst (drop_if_stale reg scope stale)) k = None"
    and "epoch_of (fst (drop_if_stale reg scope stale)) k = epoch_of reg k"
    and "holder (fst (mark_expired reg scope)) k = (if k = scope then None else holder reg k)"
    and "epoch_of (fst (mark_expired reg scope)) k = epoch_of reg k"
  using assms
  by (auto simp: registry_ok_def renew_def release_def drop_if_stale_def mark_expired_def holder_def
      epoch_of_def Let_def tbl_get_put tbl_get_del split: option.splits)

lemma holder_drop:
  "registry_ok reg \<Longrightarrow> holder (fst (drop_if_stale reg scope stale)) k = Some h \<Longrightarrow> holder reg k = Some h"
  using holder_other(5) [of reg scope stale k] by auto

lemma registry_ok_del:
  "registry_ok reg \<Longrightarrow> registry_ok (reg\<lparr>active := tbl_del scope (active reg)\<rparr>)"
  by (auto simp: registry_ok_def epoch_of_def tbl_get_del tbl.wf_del split: if_splits)

lemma registry_ok_acquire:
  assumes "registry_ok reg" "epoch_of reg (lease_scope cand) < u64_max"
  shows "registry_ok (fst (acquire reg c cand ttl now))"
proof (cases "tbl_get (active reg) (lease_scope cand)")
  case None
  have "tbl_wf (active (fst (acquire reg c cand ttl now)))" "tbl_wf (next_epoch (fst (acquire reg c cand ttl now)))"
    using assms(1) None by (simp_all add: acquire_def Let_def registry_ok_def tbl.wf_put)
  moreover have "lease_scope (envelope l) = k \<and> lease_epoch (envelope l) \<le> epoch_of (fst (acquire reg c cand ttl now)) k"
    if "tbl_get (active (fst (acquire reg c cand ttl now))) k = Some l" for k l
    using that None assms(1)
    by (auto simp: acquire_def Let_def registry_ok_def tbl_get_put epoch_of_def split: if_splits)
  ultimately show ?thesis by (simp add: registry_ok_def)
next
  case (Some l)
  then show ?thesis using assms(1) by (simp add: acquire_def)
qed

lemma registry_ok_renew:
  assumes "registry_ok reg"
  shows "registry_ok (fst (renew reg scope c e ttl now))"
proof -
  have "tbl_wf (active (fst (renew reg scope c e ttl now)))" "tbl_wf (next_epoch (fst (renew reg scope c e ttl now)))"
    using assms by (auto simp: renew_def Let_def registry_ok_def tbl.wf_put split: option.splits)
  moreover have "lease_scope (envelope l) = k \<and> lease_epoch (envelope l) \<le> epoch_of (fst (renew reg scope c e ttl now)) k"
    if "tbl_get (active (fst (renew reg scope c e ttl now))) k = Some l" for k l
    unfolding holder_other(2) [OF assms]
    using that assms
    by (auto simp: renew_def Let_def registry_ok_def tbl_get_put split: option.splits if_splits)
  ultimately show ?thesis by (simp add: registry_ok_def)
qed

lemma registry_ok_step: "registry_ok reg \<Longrightarrow> lease_step reg reg' \<Longrightarrow> registry_ok reg'"
  by (auto elim!: lease_stepE intro: registry_ok_acquire registry_ok_renew registry_ok_del
      simp: release_def drop_if_stale_def mark_expired_def Let_def split: option.splits)

interpretation reg: lease_provider holder epoch_of registry_ok lease_step
proof
  fix s s' :: RuntimeLeaseRegistry and k c e
  assume ok: "registry_ok s"
  show "holder s k = Some (c, e) \<Longrightarrow> e \<le> epoch_of s k"
    using ok by (auto simp: holder_def registry_ok_def)
  assume st: "lease_step s s'"
  show "registry_ok s'" by (rule registry_ok_step [OF ok st])
  show "epoch_of s k \<le> epoch_of s' k"
    using st ok
    by (auto elim!: lease_stepE simp: holder_acquire holder_other u64_add_exact)
  show "holder s' k = Some (c, e) \<Longrightarrow> holder s k = Some (c, e) \<or> epoch_of s k < e"
    using st ok
    by (auto elim!: lease_stepE dest: holder_drop
        simp: holder_acquire holder_other(1-4,6-8) u64_add_exact split: if_splits)
qed

lemma registry_default_ok: "registry_ok registry_default"
  by (simp add: registry_ok_def registry_default_def tbl_wf_def tbl_get_def)

subsection \<open>Theorems\<close>

text \<open>C7. Epoch fencing. From the empty registry, through any sequence of acquisitions, renewals,
  releases, stale drops and expiries: once the holder of a scope with epoch \<open>e\<close> has been displaced,
  no later renewal with that epoch succeeds, from whatever connection it comes, and every lease
  the scope has afterwards carries a larger epoch.\<close>

theorem lease_fencing:
  assumes "lease_step\<^sup>*\<^sup>* registry_default s" "holder s scope = Some (c, e)"
    and "lease_step\<^sup>*\<^sup>* s s1" "holder s1 scope \<noteq> Some (c, e)" "lease_step\<^sup>*\<^sup>* s1 s2"
  shows "(\<exists>r. fst (snd (renew s2 scope c' e ttl now)) = LeaseLost r)
    \<and> (case inspect s2 scope of None \<Rightarrow> True | Some l \<Rightarrow> e < lease_epoch l)"
proof -
  have ok: "registry_ok s" by (rule reg.ok_steps [OF assms(1) registry_default_ok])
  have never: "holder s2 scope \<noteq> Some (x, e)" for x
    by (rule reg.replaced_never_returns [OF assms(3,5) ok assms(2,4)])
  have "lease_step\<^sup>*\<^sup>* s s2" using assms(3,5) by (rule rtranclp_trans)
  then have "e < e'" if "holder s2 scope = Some (x, e')" for x e'
    using reg.epochs_increase [OF _ ok assms(2) that] never that by auto
  then show ?thesis
    using never by (auto simp: renew_def inspect_def holder_def split: option.splits)
qed

definition demo_lease :: LeaseEnvelope where
  "demo_lease = \<lparr>lease_type = ''telegram_poll'', lease_scope = ''bot'', authority_hotel = ''h'',
     authority_component = Some ''aiua'', owner_guest_id = ''g'', owner_hotel = Some ''h'',
     owner_component_type = Some ''membrane'', lease_epoch = 0, lease_expires_at = 0,
     last_heartbeat_at = 0, lease_status = LeaseActive, delegated_from = None, lease_metadata = JNull\<rparr>"

theorem lease_fencing_witness:
  "let s = fst (acquire registry_default 1 demo_lease 90 100); s1 = fst (release s ''bot'' 1);
       s2 = fst (acquire s1 2 demo_lease 90 200)
   in (\<exists>r. fst (snd (renew s2 ''bot'' 1 1 90 210)) = LeaseLost r)"
proof -
  let ?s = "fst (acquire registry_default 1 demo_lease 90 100)"
  let ?s1 = "fst (release ?s ''bot'' 1)"
  let ?s2 = "fst (acquire ?s1 2 demo_lease 90 200)"
  have st: "lease_step registry_default ?s" "lease_step ?s ?s1" "lease_step ?s1 ?s2"
    by (rule ls_acquire ls_release; simp add: epoch_of_def registry_default_def tbl_get_def tbl_get_put
        acquire_def release_def demo_lease_def Let_def u64_add_def tbl_del_def)+
  have "holder ?s ''bot'' = Some (1, 1)" "holder ?s1 ''bot'' \<noteq> Some (1, 1)"
    by (simp_all add: holder_def registry_default_def tbl_get_def acquire_def release_def demo_lease_def
        Let_def epoch_of_def u64_add_def tbl_del_def)
  from lease_fencing [OF r_into_rtranclp [where r = lease_step, OF st(1)] this(1) r_into_rtranclp [where r = lease_step, OF st(2)] this(2)
      r_into_rtranclp [where r = lease_step, OF st(3)], of 1 90 210]
  show ?thesis by (simp add: Let_def)
qed

text \<open>Mutual exclusion. A grant makes the caller the holder with the epoch it is told; a denial
  names another connection's lease and changes nothing; and only the holder's own release, or a
  drop that judged its lease stale or expired, ends a holding: neither another connection's
  acquire, renew or release nor a drop of a lease that is not stale touches it.\<close>

theorem lease_exclusive:
  assumes "registry_ok reg"
  shows "(case fst (snd (acquire reg c cand ttl now)) of
            Granted l \<Rightarrow> holder (fst (acquire reg c cand ttl now)) (lease_scope cand) = Some (c, lease_epoch l)
          | Denied l \<Rightarrow> fst (acquire reg c cand ttl now) = reg
                \<and> (\<exists>c'. c' \<noteq> c \<and> holder reg (lease_scope cand) = Some (c', lease_epoch l)))
    \<and> (\<forall>scope h e x. holder reg scope = Some (h, e) \<longrightarrow>
          holder (fst (acquire reg c cand ttl now)) scope = Some (h, e)
          \<and> holder (fst (renew reg x c e' ttl now)) scope = Some (h, e)
          \<and> (c = h \<or> holder (fst (release reg x c)) scope = Some (h, e))
          \<and> (map_option stale (inspect reg scope) = Some True
             \<or> holder (fst (drop_if_stale reg x stale)) scope = Some (h, e)))"
proof -
  have "case fst (snd (acquire reg c cand ttl now)) of
            Granted l \<Rightarrow> holder (fst (acquire reg c cand ttl now)) (lease_scope cand) = Some (c, lease_epoch l)
          | Denied l \<Rightarrow> fst (acquire reg c cand ttl now) = reg
                \<and> (\<exists>c'. c' \<noteq> c \<and> holder reg (lease_scope cand) = Some (c', lease_epoch l))"
    by (auto simp: acquire_def holder_def Let_def tbl_get_put split: option.splits)
  moreover have "map_option stale (inspect reg scope) = Some True
      \<or> holder (fst (drop_if_stale reg x stale)) scope = Some (h, e)"
    if "holder reg scope = Some (h, e)" for scope h e x
    using that assms
    by (auto simp: drop_if_stale_def inspect_def holder_def registry_ok_def tbl_get_del split: option.splits)
  ultimately show ?thesis
    using holder_acquire(1) [OF assms] holder_other(1,3) [OF assms] by auto
qed

theorem lease_exclusive_witness:
  "fst (acquire (fst (acquire registry_default 1 demo_lease 90 100)) 2 demo_lease 90 110)
     = fst (acquire registry_default 1 demo_lease 90 100)"
proof -
  have "epoch_of registry_default (lease_scope demo_lease) < u64_max"
    by (simp add: epoch_of_def registry_default_def tbl_get_def)
  then have "registry_ok (fst (acquire registry_default 1 demo_lease 90 100))"
    by (rule registry_ok_acquire [OF registry_default_ok])
  from lease_exclusive [OF this, of 2 demo_lease 90 110] show ?thesis
    by (auto simp: acquire_def registry_default_def tbl_get_def demo_lease_def Let_def
        split: LeaseAcquireOutcome.splits)
qed

subsubsection \<open>Disconnection\<close>

lemma fold_release:
  assumes "registry_ok reg"
  shows "registry_ok (fold (\<lambda>scope r. fst (release r scope c)) ss reg)
    \<and> holder (fold (\<lambda>scope r. fst (release r scope c)) ss reg) k
        = (if k \<in> set ss \<and> (\<exists>e. holder reg k = Some (c, e)) then None else holder reg k)"
  using assms
proof (induction ss arbitrary: reg)
  case (Cons x ss)
  have "registry_ok (fst (release reg x c))"
    by (rule registry_ok_step [OF Cons.prems ls_release])
  from Cons.IH [OF this] show ?case
    by (auto simp: holder_other(3) [OF Cons.prems])
qed simp

lemma set_conn_scopes:
  assumes "registry_ok reg"
  shows "k \<in> set (map lease_scope (active_leases_for_connection reg c)) \<longleftrightarrow> (\<exists>e. holder reg k = Some (c, e))"
proof -
  have wf: "tbl_wf (active reg)" using assms by (simp add: registry_ok_def)
  have "k \<in> set (map lease_scope (active_leases_for_connection reg c))
      \<longleftrightarrow> (\<exists>k' l. (k', l) \<in> set (active reg) \<and> conn_id l = c \<and> lease_scope (envelope l) = k)"
    by (force simp: active_leases_for_connection_def)
  also have "\<dots> \<longleftrightarrow> (\<exists>k' l. tbl_get (active reg) k' = Some l \<and> conn_id l = c \<and> lease_scope (envelope l) = k)"
    by (simp add: tbl.rows_get [OF wf])
  also have "\<dots> \<longleftrightarrow> (\<exists>l. tbl_get (active reg) k = Some l \<and> conn_id l = c)"
    using assms by (auto simp: registry_ok_def)
  also have "\<dots> \<longleftrightarrow> (\<exists>e. holder reg k = Some (c, e))" by (auto simp: holder_def)
  finally show ?thesis .
qed

text \<open>When a connection goes away, the clean-up frees exactly its scopes: afterwards it holds
  nothing, every scope held by another connection is untouched, and the epoch counters are kept, so
  the next holder of a freed scope still gets a larger epoch.\<close>

theorem disconnect_releases_exactly:
  assumes "registry_ok reg"
  shows "holder (remove_leases reg c) = (\<lambda>k. case holder reg k of
            Some (h, e) \<Rightarrow> if h = c then None else Some (h, e) | None \<Rightarrow> None)
    \<and> registry_ok (remove_leases reg c) \<and> next_epoch (remove_leases reg c) = next_epoch reg"
proof -
  have "next_epoch (fold (\<lambda>scope r. fst (release r scope c)) ss r) = next_epoch r" for ss r
    by (induction ss arbitrary: r) (auto simp: release_def Let_def split: option.splits)
  then show ?thesis
    using fold_release [OF assms, of c "map lease_scope (active_leases_for_connection reg c)"]
      set_conn_scopes [OF assms, of _ c]
    by (auto simp: remove_leases_def fun_eq_iff split: option.splits)
qed

theorem disconnect_releases_exactly_witness:
  "holder (remove_leases (fst (acquire registry_default 1 demo_lease 90 100)) 1) ''bot'' = None"
proof -
  have "epoch_of registry_default (lease_scope demo_lease) < u64_max"
    by (simp add: epoch_of_def registry_default_def tbl_get_def)
  then have "registry_ok (fst (acquire registry_default 1 demo_lease 90 100))"
    by (rule registry_ok_acquire [OF registry_default_ok])
  note res = disconnect_releases_exactly [OF this, of 1]
  have "holder registry_default ''bot'' = None" "lease_scope demo_lease = ''bot''"
    by (simp_all add: holder_def registry_default_def tbl_get_def demo_lease_def)
  then have "holder (fst (acquire registry_default 1 demo_lease 90 100)) ''bot''
      = Some (1, u64_add (epoch_of registry_default ''bot'') 1)"
    by (simp add: holder_acquire [OF registry_default_ok])
  with res show ?thesis by simp
qed

end
