(* ===== verification/LeaseHandlers.thy ===== *)
theory LeaseHandlers
  imports Leases
begin

section \<open>The hotel's lease requests\<close>

text \<open>
  Models \<^verbatim>\<open>crates/aiua/src/service/lease_handlers.rs\<close>: the Telegram-poll, Discord-gateway,
  desktop-membrane, MCP-membrane and subagent lease requests over \<open>RuntimeLeaseRegistry\<close>. Each
  transport has a registry of its own, locked for the length of a request, so a request is one
  state transition. What the handlers read of the context graph is the record \<open>lease_graph\<close>
  (agent identities, hotels, transport homes, active guests, live processes); the clock is an
  argument; error texts and log lines are left out. Spawning a subagent (process start, inbox
  delivery) is not modelled.
\<close>

subsection \<open>What the handlers read\<close>

datatype MembraneTransportHomeStatus = HomeActive | HomePaused | HomeRetired | HomeBlocked

record AgentIdentity =
  ai_authority_hotel :: string
  ai_bundle :: json

record GuestRow =
  gr_id :: string
  gr_pid :: "string option"

record lease_graph =
  lg_agents :: "(string \<times> AgentIdentity) list"
  lg_hotels :: "(string \<times> string) list"
  lg_homes :: "string \<Rightarrow> string \<Rightarrow> string \<Rightarrow> string + (MembraneTransportHomeStatus \<times> string) option"
  lg_guests :: "string \<Rightarrow> GuestRow list option"
  lg_pid_exists :: "nat \<Rightarrow> bool"
  lg_upsert_ok :: bool

definition local_hotel_name :: "lease_graph \<Rightarrow> string \<Rightarrow> string option" where
  "local_hotel_name g node = map_option snd (find (\<lambda>h. fst h = node) (lg_hotels g))"

text \<open>\<open>Value::get\<close> on an object; \<open>None\<close> on any other value.\<close>

fun json_get :: "json \<Rightarrow> string \<Rightarrow> json option" where
  "json_get (JObj kvs) k = map_of kvs k"
| "json_get _ k = None"

fun json_as_str :: "json \<Rightarrow> string option" where
  "json_as_str (JStr s) = Some s"
| "json_as_str _ = None"

definition delegated_poll_hotels :: "AgentIdentity \<Rightarrow> string list" where
  "delegated_poll_hotels a =
     (case json_get (ai_bundle a) ''telegram_poll_delegate_hotels'' of
        Some (JArr vs) \<Rightarrow> filter (\<lambda>v. v \<noteq> []) (map trim (List.map_filter json_as_str vs))
      | _ \<Rightarrow> [])"

definition hotel_may_poll_for_agent :: "AgentIdentity \<Rightarrow> string \<Rightarrow> bool" where
  "hotel_may_poll_for_agent a hotel \<longleftrightarrow>
     ai_authority_hotel a = hotel \<or> hotel \<in> set (delegated_poll_hotels a)"

definition hotel_may_poll_transport_home ::
  "lease_graph \<Rightarrow> string \<Rightarrow> string \<Rightarrow> string \<Rightarrow> string \<Rightarrow> string + bool option" where
  "hotel_may_poll_transport_home g agent transport resource hotel =
     (case lg_homes g agent transport resource of
        Inl err \<Rightarrow> Inl err
      | Inr None \<Rightarrow> Inr None
      | Inr (Some (status, home)) \<Rightarrow> Inr (Some (status = HomeActive \<and> home = hotel)))"

definition telegram_poll_lease_owner_is_live :: "lease_graph \<Rightarrow> string \<Rightarrow> string \<Rightarrow> bool" where
  "telegram_poll_lease_owner_is_live g node owner =
     (case local_hotel_name g node of
        None \<Rightarrow> True
      | Some hotel \<Rightarrow>
          (case lg_guests g hotel of
             None \<Rightarrow> True
           | Some guests \<Rightarrow>
               if guests = [] then True
               else case find (\<lambda>r. gr_id r = owner) guests of
                      None \<Rightarrow> True
                    | Some r \<Rightarrow>
                        (case gr_pid r of
                           None \<Rightarrow> False
                         | Some txt \<Rightarrow>
                             (case parse_unsigned u32_max txt of
                                None \<Rightarrow> False
                              | Some pid \<Rightarrow> lg_pid_exists g pid))))"

text \<open>Telegram and Discord share the staleness test.\<close>

definition drop_stale_poll_lease ::
  "RuntimeLeaseRegistry \<Rightarrow> lease_graph \<Rightarrow> string \<Rightarrow> string \<Rightarrow> nat \<Rightarrow> RuntimeLeaseRegistry" where
  "drop_stale_poll_lease reg g node key now =
     fst (drop_if_stale reg key
            (\<lambda>l. runtime_lease_is_expired now l
                 \<or> \<not> telegram_poll_lease_owner_is_live g node (owner_guest_id l)))"

subsection \<open>Recording the membrane of an agent\<close>

definition membrane_binding :: "string \<Rightarrow> string \<Rightarrow> json" where
  "membrane_binding kind guest = JObj [(''kind'', JStr kind), (''membrane_guest_id'', JStr guest)]"

definition binding_kind_is :: "string \<Rightarrow> json \<Rightarrow> bool" where
  "binding_kind_is kind b \<longleftrightarrow> Option.bind (json_get b ''kind'') json_as_str = Some kind"

definition bind_membrane :: "string \<Rightarrow> string \<Rightarrow> json \<Rightarrow> json" where
  "bind_membrane kind guest bundle =
     (case bundle of
        JObj obj \<Rightarrow>
          (case map_of obj ''reflex_context'' of
             None \<Rightarrow>
               JObj (tbl_put ''reflex_context''
                       (JObj [(''membrane_bindings'', JArr [membrane_binding kind guest])]) obj)
           | Some (JObj rc) \<Rightarrow>
               (case map_of rc ''membrane_bindings'' of
                  Some (JArr arr) \<Rightarrow>
                    JObj (tbl_put ''reflex_context''
                      (JObj (tbl_put ''membrane_bindings''
                        (JArr (filter (\<lambda>b. \<not> binding_kind_is kind b) arr @ [membrane_binding kind guest])) rc)) obj)
                | _ \<Rightarrow>
                    JObj (tbl_put ''reflex_context''
                      (JObj (tbl_put ''membrane_bindings'' (JArr [membrane_binding kind guest]) rc)) obj))
           | Some _ \<Rightarrow> bundle)
      | _ \<Rightarrow> bundle)"

definition inject_membrane_binding :: "lease_graph \<Rightarrow> string \<Rightarrow> string \<Rightarrow> string \<Rightarrow> lease_graph" where
  "inject_membrane_binding g agent kind guest =
     (case tbl_get (lg_agents g) agent of
        None \<Rightarrow> g
      | Some a \<Rightarrow>
          if lg_upsert_ok g
          then g\<lparr>lg_agents := tbl_put agent (a\<lparr>ai_bundle := bind_membrane kind guest (ai_bundle a)\<rparr>) (lg_agents g)\<rparr>
          else g)"

subsection \<open>Requests\<close>

datatype LeaseResponse =
    LeaseError string string
  | LeaseReply string bool "LeaseEnvelope option"
  | LeaseStatusReply string bool "LeaseEnvelope option"
  | LeaseSuccess string

definition POLL_LEASE_TTL_SECS :: nat where "POLL_LEASE_TTL_SECS = 90"
definition DESKTOP_MEMBRANE_LEASE_TTL_SECS :: nat where "DESKTOP_MEMBRANE_LEASE_TTL_SECS = 90"

definition poll_candidate ::
  "string \<Rightarrow> string \<Rightarrow> string \<Rightarrow> string \<Rightarrow> string \<Rightarrow> string \<Rightarrow> json \<Rightarrow> LeaseEnvelope" where
  "poll_candidate ty compty key hotel guest comp_auth meta =
     \<lparr>lease_type = ty, lease_scope = key, authority_hotel = hotel, authority_component = Some comp_auth,
      owner_guest_id = guest, owner_hotel = Some hotel, owner_component_type = Some compty,
      lease_epoch = 0, lease_expires_at = 0, last_heartbeat_at = 0, lease_status = LeaseActive,
      delegated_from = None, lease_metadata = meta\<rparr>"

definition telegram_poll_lease :: "string \<Rightarrow> string \<Rightarrow> string \<Rightarrow> string \<Rightarrow> string \<Rightarrow> LeaseEnvelope" where
  "telegram_poll_lease key hotel node guest agent =
     poll_candidate ''telegram_poll'' ''membrane'' key hotel guest ''aiua''
       (JObj [(''agent_id'', JStr agent), (''authority_node_id'', JStr node)])"

definition discord_gateway_lease :: "string \<Rightarrow> string \<Rightarrow> string \<Rightarrow> string \<Rightarrow> string \<Rightarrow> LeaseEnvelope" where
  "discord_gateway_lease key hotel node guest agent =
     poll_candidate ''discord_gateway'' ''membrane.discord'' key hotel guest ''aiua''
       (JObj [(''agent_id'', JStr agent), (''authority_node_id'', JStr node)])"

definition desktop_membrane_lease :: "string \<Rightarrow> string \<Rightarrow> string \<Rightarrow> string \<Rightarrow> nat \<Rightarrow> LeaseEnvelope" where
  "desktop_membrane_lease key hotel node guest port =
     poll_candidate ''desktop_membrane'' ''membrane.desktop'' key hotel guest ''aiua''
       (JObj [(''authority_node_id'', JStr node), (''port'', JNum port), (''surface'', JStr ''operator-desktop'')])"

definition mcp_membrane_lease :: "string \<Rightarrow> string \<Rightarrow> string \<Rightarrow> string \<Rightarrow> nat \<Rightarrow> LeaseEnvelope" where
  "mcp_membrane_lease key hotel node guest port =
     poll_candidate ''mcp_membrane'' ''membrane.mcp'' key hotel guest ''aiua''
       (JObj [(''authority_node_id'', JStr node), (''port'', JNum port), (''surface'', JStr ''mcp'')])"

text \<open>The checks shared word for word by the Telegram acquire and renew requests: who asks, for
  which agent, and whether this hotel may poll. \<open>Inr\<close> carries the guest and the hotel name.\<close>

definition telegram_authority ::
  "lease_graph \<Rightarrow> string \<Rightarrow> string option \<Rightarrow> string \<Rightarrow> string \<Rightarrow> string option
   \<Rightarrow> LeaseResponse + string \<times> string" where
  "telegram_authority g node ident key agent resource =
     (let corr = ''telegram_poll_lease'' in
      case ident of
        None \<Rightarrow> Inl (LeaseError corr ''LEASE_UNREGISTERED'')
      | Some guest \<Rightarrow>
          (case tbl_get (lg_agents g) agent of
             None \<Rightarrow> Inl (LeaseError corr ''LEASE_AGENT_UNKNOWN'')
           | Some a \<Rightarrow>
               (case local_hotel_name g node of
                  None \<Rightarrow> Inl (LeaseError corr ''LEASE_AUTHORITY_UNKNOWN'')
                | Some hotel \<Rightarrow>
                    (case hotel_may_poll_transport_home g agent ''telegram''
                            (case resource of Some r \<Rightarrow> r | None \<Rightarrow> key) hotel of
                       Inr (Some True) \<Rightarrow> Inr (guest, hotel)
                     | Inr (Some False) \<Rightarrow> Inl (LeaseError corr ''LEASE_TRANSPORT_HOME_MISMATCH'')
                     | Inr None \<Rightarrow>
                         if hotel_may_poll_for_agent a hotel then Inr (guest, hotel)
                         else Inl (LeaseError corr ''LEASE_FOREIGN_AUTHORITY'')
                     | Inl err \<Rightarrow> Inl (LeaseError corr ''LEASE_TRANSPORT_HOME_LOOKUP_FAILED'')))))"

definition handle_acquire_telegram_poll_lease ::
  "string \<Rightarrow> conn \<Rightarrow> string option \<Rightarrow> string \<Rightarrow> string \<Rightarrow> string option \<Rightarrow> nat
   \<Rightarrow> lease_graph \<times> RuntimeLeaseRegistry \<Rightarrow> LeaseResponse \<times> lease_graph \<times> RuntimeLeaseRegistry" where
  "handle_acquire_telegram_poll_lease node c ident key agent resource now gr =
     (case gr of (g, reg) \<Rightarrow>
        (case telegram_authority g node ident key agent resource of
           Inl err \<Rightarrow> (err, g, reg)
         | Inr (guest, hotel) \<Rightarrow>
             (case acquire (drop_stale_poll_lease reg g node key now) c
                     (telegram_poll_lease key hotel node guest agent) POLL_LEASE_TTL_SECS now of
                (reg', Granted l, _) \<Rightarrow>
                  (LeaseReply ''telegram'' True (Some l), inject_membrane_binding g agent ''telegram'' guest, reg')
              | (reg', Denied l, _) \<Rightarrow> (LeaseReply ''telegram'' False (Some l), g, reg'))))"

definition handle_get_telegram_poll_lease_owner ::
  "string \<Rightarrow> string \<Rightarrow> nat \<Rightarrow> lease_graph \<times> RuntimeLeaseRegistry \<Rightarrow> LeaseResponse \<times> RuntimeLeaseRegistry" where
  "handle_get_telegram_poll_lease_owner node key now gr =
     (let reg = drop_stale_poll_lease (snd gr) (fst gr) node key now in
      case inspect reg key of
        Some l \<Rightarrow> (LeaseStatusReply ''telegram'' True (Some l), reg)
      | None \<Rightarrow> (LeaseStatusReply ''telegram'' False None, reg))"

definition handle_renew_telegram_poll_lease ::
  "string \<Rightarrow> conn \<Rightarrow> string option \<Rightarrow> string \<Rightarrow> string \<Rightarrow> string option \<Rightarrow> nat \<Rightarrow> nat
   \<Rightarrow> lease_graph \<times> RuntimeLeaseRegistry \<Rightarrow> LeaseResponse \<times> RuntimeLeaseRegistry" where
  "handle_renew_telegram_poll_lease node c ident key agent resource epoch now gr =
     (case gr of (g, reg) \<Rightarrow>
        (case telegram_authority g node ident key agent resource of
           Inl err \<Rightarrow> (err, reg)
         | Inr _ \<Rightarrow>
             (case renew (drop_stale_poll_lease reg g node key now) key c epoch POLL_LEASE_TTL_SECS now of
                (reg', Renewed l, _) \<Rightarrow> (LeaseReply ''telegram'' True (Some l), reg')
              | (reg', LeaseLost l, _) \<Rightarrow> (LeaseReply ''telegram'' False l, reg'))))"

text \<open>The release requests of Telegram, Discord and the desktop membrane are the same code with
  their own request name.\<close>

definition handle_release_lease ::
  "string \<Rightarrow> conn \<Rightarrow> string option \<Rightarrow> string \<Rightarrow> RuntimeLeaseRegistry \<Rightarrow> LeaseResponse \<times> RuntimeLeaseRegistry" where
  "handle_release_lease corr c ident key reg =
     (case ident of
        None \<Rightarrow> (LeaseError corr ''LEASE_UNREGISTERED'', reg)
      | Some guest \<Rightarrow>
          (case inspect reg key of
             Some l \<Rightarrow>
               if owner_guest_id l = guest
               then (case release reg key c of
                       (reg', Some _, _) \<Rightarrow> (LeaseSuccess (corr @ ''_release''), reg')
                     | (reg', None, _) \<Rightarrow> (LeaseError (corr @ ''_release'') ''LEASE_NOT_OWNER'', reg'))
               else (LeaseError (corr @ ''_release'') ''LEASE_NOT_OWNER'', reg)
           | None \<Rightarrow> (LeaseSuccess (corr @ ''_release''), reg)))"

definition handle_release_telegram_poll_lease where
  "handle_release_telegram_poll_lease = handle_release_lease ''telegram_poll_lease''"

definition handle_release_discord_gateway_lease where
  "handle_release_discord_gateway_lease = handle_release_lease ''discord_gateway_lease''"

definition handle_release_desktop_membrane_lease where
  "handle_release_desktop_membrane_lease = handle_release_lease ''desktop_membrane_lease''"

definition discord_authority ::
  "lease_graph \<Rightarrow> string \<Rightarrow> string option \<Rightarrow> string \<Rightarrow> LeaseResponse + string \<times> string" where
  "discord_authority g node ident agent =
     (let corr = ''discord_gateway_lease'' in
      case ident of
        None \<Rightarrow> Inl (LeaseError corr ''LEASE_UNREGISTERED'')
      | Some guest \<Rightarrow>
          (case tbl_get (lg_agents g) agent of
             None \<Rightarrow> Inl (LeaseError corr ''LEASE_AGENT_UNKNOWN'')
           | Some a \<Rightarrow>
               (case local_hotel_name g node of
                  None \<Rightarrow> Inl (LeaseError corr ''LEASE_AUTHORITY_UNKNOWN'')
                | Some hotel \<Rightarrow>
                    if hotel_may_poll_for_agent a hotel then Inr (guest, hotel)
                    else Inl (LeaseError corr ''LEASE_FOREIGN_AUTHORITY''))))"

definition handle_acquire_discord_gateway_lease ::
  "string \<Rightarrow> conn \<Rightarrow> string option \<Rightarrow> string \<Rightarrow> string \<Rightarrow> nat
   \<Rightarrow> lease_graph \<times> RuntimeLeaseRegistry \<Rightarrow> LeaseResponse \<times> lease_graph \<times> RuntimeLeaseRegistry" where
  "handle_acquire_discord_gateway_lease node c ident key agent now gr =
     (case gr of (g, reg) \<Rightarrow>
        (case discord_authority g node ident agent of
           Inl err \<Rightarrow> (err, g, reg)
         | Inr (guest, hotel) \<Rightarrow>
             (case acquire (drop_stale_poll_lease reg g node key now) c
                     (discord_gateway_lease key hotel node guest agent) POLL_LEASE_TTL_SECS now of
                (reg', Granted l, _) \<Rightarrow>
                  (LeaseReply ''discord'' True (Some l), inject_membrane_binding g agent ''discord_text'' guest, reg')
              | (reg', Denied l, _) \<Rightarrow> (LeaseReply ''discord'' False (Some l), g, reg'))))"

definition handle_get_discord_gateway_lease_owner ::
  "string \<Rightarrow> string \<Rightarrow> nat \<Rightarrow> lease_graph \<times> RuntimeLeaseRegistry \<Rightarrow> LeaseResponse \<times> RuntimeLeaseRegistry" where
  "handle_get_discord_gateway_lease_owner node key now gr =
     (let reg = drop_stale_poll_lease (snd gr) (fst gr) node key now in
      case inspect reg key of
        Some l \<Rightarrow> (LeaseStatusReply ''discord'' True (Some l), reg)
      | None \<Rightarrow> (LeaseStatusReply ''discord'' False None, reg))"

definition handle_renew_discord_gateway_lease ::
  "string \<Rightarrow> conn \<Rightarrow> string option \<Rightarrow> string \<Rightarrow> string \<Rightarrow> nat \<Rightarrow> nat
   \<Rightarrow> lease_graph \<times> RuntimeLeaseRegistry \<Rightarrow> LeaseResponse \<times> RuntimeLeaseRegistry" where
  "handle_renew_discord_gateway_lease node c ident key agent epoch now gr =
     (case gr of (g, reg) \<Rightarrow>
        (case discord_authority g node ident agent of
           Inl err \<Rightarrow> (err, reg)
         | Inr _ \<Rightarrow>
             (case renew (drop_stale_poll_lease reg g node key now) key c epoch POLL_LEASE_TTL_SECS now of
                (reg', Renewed l, _) \<Rightarrow> (LeaseReply ''discord'' True (Some l), reg')
              | (reg', LeaseLost l, _) \<Rightarrow> (LeaseReply ''discord'' False l, reg'))))"

definition handle_acquire_desktop_membrane_lease ::
  "string \<Rightarrow> conn \<Rightarrow> string option \<Rightarrow> string \<Rightarrow> nat \<Rightarrow> nat
   \<Rightarrow> lease_graph \<times> RuntimeLeaseRegistry \<Rightarrow> LeaseResponse \<times> RuntimeLeaseRegistry" where
  "handle_acquire_desktop_membrane_lease node c ident key port now gr =
     (case gr of (g, reg) \<Rightarrow>
        (let corr = ''desktop_membrane_lease'' in
         case ident of
           None \<Rightarrow> (LeaseError corr ''LEASE_UNREGISTERED'', reg)
         | Some guest \<Rightarrow>
             (case local_hotel_name g node of
                None \<Rightarrow> (LeaseError corr ''LEASE_AUTHORITY_UNKNOWN'', reg)
              | Some hotel \<Rightarrow>
                  (case acquire reg c (desktop_membrane_lease key hotel node guest port)
                          DESKTOP_MEMBRANE_LEASE_TTL_SECS now of
                     (reg', Granted l, _) \<Rightarrow> (LeaseReply ''desktop'' True (Some l), reg')
                   | (reg', Denied l, _) \<Rightarrow> (LeaseReply ''desktop'' False (Some l), reg')))))"

definition handle_get_desktop_membrane_lease_owner ::
  "string \<Rightarrow> RuntimeLeaseRegistry \<Rightarrow> LeaseResponse" where
  "handle_get_desktop_membrane_lease_owner key reg =
     (case inspect reg key of
        Some l \<Rightarrow> LeaseStatusReply ''desktop'' True (Some l)
      | None \<Rightarrow> LeaseStatusReply ''desktop'' False None)"

definition handle_renew_desktop_membrane_lease ::
  "conn \<Rightarrow> string option \<Rightarrow> string \<Rightarrow> nat \<Rightarrow> nat \<Rightarrow> RuntimeLeaseRegistry \<Rightarrow> LeaseResponse \<times> RuntimeLeaseRegistry" where
  "handle_renew_desktop_membrane_lease c ident key epoch now reg =
     (case ident of
        None \<Rightarrow> (LeaseError ''desktop_membrane_lease'' ''LEASE_UNREGISTERED'', reg)
      | Some guest \<Rightarrow>
          (case renew reg key c epoch DESKTOP_MEMBRANE_LEASE_TTL_SECS now of
             (reg', Renewed l, _) \<Rightarrow> (LeaseReply ''desktop'' True (Some l), reg')
           | (reg', LeaseLost l, _) \<Rightarrow> (LeaseReply ''desktop'' False l, reg')))"

definition handle_acquire_mcp_membrane_lease ::
  "string \<Rightarrow> conn \<Rightarrow> string option \<Rightarrow> string \<Rightarrow> nat \<Rightarrow> nat
   \<Rightarrow> lease_graph \<times> RuntimeLeaseRegistry \<Rightarrow> LeaseResponse \<times> RuntimeLeaseRegistry" where
  "handle_acquire_mcp_membrane_lease node c ident key port now gr =
     (case gr of (g, reg) \<Rightarrow>
        (let corr = ''mcp_membrane_lease'' in
         case ident of
           None \<Rightarrow> (LeaseError corr ''LEASE_UNREGISTERED'', reg)
         | Some guest \<Rightarrow>
             (case local_hotel_name g node of
                None \<Rightarrow> (LeaseError corr ''LEASE_AUTHORITY_UNKNOWN'', reg)
              | Some hotel \<Rightarrow>
                  (case acquire reg c (mcp_membrane_lease key hotel node guest port)
                          DESKTOP_MEMBRANE_LEASE_TTL_SECS now of
                     (reg', Granted l, _) \<Rightarrow> (LeaseReply ''mcp'' True (Some l), reg')
                   | (reg', Denied l, _) \<Rightarrow> (LeaseReply ''mcp'' False (Some l), reg')))))"

definition handle_renew_mcp_membrane_lease ::
  "conn \<Rightarrow> string \<Rightarrow> nat \<Rightarrow> nat \<Rightarrow> RuntimeLeaseRegistry \<Rightarrow> LeaseResponse \<times> RuntimeLeaseRegistry" where
  "handle_renew_mcp_membrane_lease c key epoch now reg =
     (case renew reg key c epoch DESKTOP_MEMBRANE_LEASE_TTL_SECS now of
        (reg', Renewed l, _) \<Rightarrow> (LeaseReply ''mcp'' True (Some l), reg')
      | (reg', LeaseLost l, _) \<Rightarrow> (LeaseReply ''mcp'' False l, reg'))"

definition handle_release_mcp_membrane_lease ::
  "conn \<Rightarrow> string \<Rightarrow> RuntimeLeaseRegistry \<Rightarrow> LeaseResponse \<times> RuntimeLeaseRegistry" where
  "handle_release_mcp_membrane_lease c key reg =
     (LeaseSuccess ''release_mcp_membrane_lease'', fst (release reg key c))"

subsection \<open>Every request moves its registry lawfully\<close>

fun granted_epoch :: "LeaseResponse \<Rightarrow> nat option" where
  "granted_epoch (LeaseReply _ True (Some l)) = Some (lease_epoch l)"
| "granted_epoch _ = None"

text \<open>What a request by connection \<open>c\<close> for \<open>key\<close> may do: move the registry by lease steps, issuing at
  most one epoch, and announce a grant only when the connection then holds the key.\<close>

definition lawful :: "conn \<Rightarrow> string \<Rightarrow> RuntimeLeaseRegistry \<Rightarrow> LeaseResponse \<times> RuntimeLeaseRegistry \<Rightarrow> bool" where
  "lawful c key reg out \<longleftrightarrow> (registry_ok reg \<longrightarrow>
     (epoch_of reg key < u64_max \<longrightarrow>
        lease_step\<^sup>*\<^sup>* reg (snd out) \<and> (\<forall>k. epoch_of (snd out) k \<le> Suc (epoch_of reg k)))
     \<and> (\<forall>e. granted_epoch (fst out) = Some e \<longrightarrow> holder (snd out) key = Some (c, e)))"

lemma lawful_same: "granted_epoch r = None \<Longrightarrow> lawful c key reg (r, reg)"
  by (simp add: lawful_def)

lemma drop_stale_step: "lease_step reg (drop_stale_poll_lease reg g node key now)"
  by (simp add: drop_stale_poll_lease_def ls_drop)

lemma epoch_drop_stale: "registry_ok reg \<Longrightarrow> epoch_of (drop_stale_poll_lease reg g node key now) k = epoch_of reg k"
  by (simp add: drop_stale_poll_lease_def holder_other)

lemma lawful_after_drop:
  assumes "lawful c key (drop_stale_poll_lease reg g node key now) out"
  shows "lawful c key reg out"
proof -
  have "lease_step\<^sup>*\<^sup>* (drop_stale_poll_lease reg g node key now) x \<Longrightarrow> lease_step\<^sup>*\<^sup>* reg x" for x
    using drop_stale_step by (rule converse_rtranclp_into_rtranclp)
  moreover have "registry_ok reg \<Longrightarrow> registry_ok (drop_stale_poll_lease reg g node key now)"
    using drop_stale_step by (rule registry_ok_step [rotated])
  ultimately show ?thesis using assms
    by (cases "registry_ok reg") (simp_all add: lawful_def epoch_drop_stale)
qed

lemma lawful_acquire:
  assumes "lease_scope cand = key"
  shows "lawful c key reg (case acquire reg c cand ttl now of
      (reg', Granted l, _) \<Rightarrow> (LeaseReply s True (Some l), reg')
    | (reg', Denied l, _) \<Rightarrow> (LeaseReply s' False (Some l), reg'))"
proof -
  obtain reg' out ev where a: "acquire reg c cand ttl now = (reg', out, ev)" by (metis prod_cases3)
  have "epoch_of reg key < u64_max \<Longrightarrow> lease_step reg reg'"
    using ls_acquire [of reg cand c ttl now] assms by (simp add: a)
  moreover have "registry_ok reg \<Longrightarrow> epoch_of reg key < u64_max \<Longrightarrow> epoch_of reg' k \<le> Suc (epoch_of reg k)" for k
    using holder_acquire(2) [of reg c cand ttl now k] assms by (auto simp: a u64_add_exact)
  moreover have "out = Granted l \<Longrightarrow> holder reg' key = Some (c, lease_epoch l)" for l
    using a assms by (auto simp: acquire_def holder_def Let_def tbl_get_put split: option.splits if_splits)
  ultimately show ?thesis
    by (cases out) (auto simp: a lawful_def)
qed

lemma lawful_renew:
  "lawful c key reg (case renew reg key c e ttl now of
      (reg', Renewed l, _) \<Rightarrow> (LeaseReply s True (Some l), reg')
    | (reg', LeaseLost l, _) \<Rightarrow> (LeaseReply s' False l, reg'))"
proof -
  obtain reg' out ev where a: "renew reg key c e ttl now = (reg', out, ev)" by (metis prod_cases3)
  have "lease_step reg reg'" using ls_renew [of reg key c e ttl now] by (simp add: a)
  moreover have "registry_ok reg \<Longrightarrow> epoch_of reg' k \<le> Suc (epoch_of reg k)" for k
    using holder_other(2) [of reg key c e ttl now k] by (simp add: a)
  moreover have "out = Renewed l \<Longrightarrow> holder reg' key = Some (c, lease_epoch l)" for l
    using a by (auto simp: renew_def holder_def Let_def tbl_get_put split: option.splits if_splits)
  ultimately show ?thesis
    by (cases out) (auto simp: a lawful_def)
qed

lemma lawful_release:
  assumes "granted_epoch r = None"
  shows "lawful c key reg (r, fst (release reg key' c'))"
proof -
  have "lease_step reg (fst (release reg key' c'))" by (rule ls_release)
  then show ?thesis using assms by (auto simp: lawful_def holder_other)
qed

lemma lawful_handle_release: "lawful c key reg (handle_release_lease corr c ident key reg)"
  using lawful_release [of _ c key reg key c]
  by (auto simp: handle_release_lease_def intro: lawful_same split: option.splits prod.splits)

lemma telegram_authority_refusal: "telegram_authority g node ident key agent resource = Inl err \<Longrightarrow> granted_epoch err = None"
  by (auto simp: telegram_authority_def Let_def split: option.splits sum.splits bool.splits if_splits)

lemma discord_authority_refusal: "discord_authority g node ident agent = Inl err \<Longrightarrow> granted_epoch err = None"
  by (auto simp: discord_authority_def Let_def split: option.splits if_splits)

text \<open>The acquire requests that also touch the graph: reply and registry.\<close>

lemma lawful_handle_acquire_telegram:
  "lawful c key reg (case handle_acquire_telegram_poll_lease node c ident key agent resource now (g, reg) of
     (r, _, reg') \<Rightarrow> (r, reg'))"
proof (cases "telegram_authority g node ident key agent resource")
  case (Inl err)
  then show ?thesis using telegram_authority_refusal [OF Inl] by (simp add: handle_acquire_telegram_poll_lease_def lawful_same)
next
  case (Inr gh)
  obtain guest hotel where gh: "gh = (guest, hotel)" by fastforce
  let ?d = "drop_stale_poll_lease reg g node key now"
  have "lawful c key ?d (case acquire ?d c (telegram_poll_lease key hotel node guest agent) POLL_LEASE_TTL_SECS now of
      (reg', Granted l, _) \<Rightarrow> (LeaseReply ''telegram'' True (Some l), reg')
    | (reg', Denied l, _) \<Rightarrow> (LeaseReply ''telegram'' False (Some l), reg'))"
    by (rule lawful_acquire) (simp add: telegram_poll_lease_def poll_candidate_def)
  from lawful_after_drop [OF this] show ?thesis
    by (simp add: handle_acquire_telegram_poll_lease_def Inr gh split: prod.splits LeaseAcquireOutcome.splits)
qed

lemma lawful_handle_acquire_discord:
  "lawful c key reg (case handle_acquire_discord_gateway_lease node c ident key agent now (g, reg) of
     (r, _, reg') \<Rightarrow> (r, reg'))"
proof (cases "discord_authority g node ident agent")
  case (Inl err)
  then show ?thesis using discord_authority_refusal [OF Inl] by (simp add: handle_acquire_discord_gateway_lease_def lawful_same)
next
  case (Inr gh)
  obtain guest hotel where gh: "gh = (guest, hotel)" by fastforce
  let ?d = "drop_stale_poll_lease reg g node key now"
  have "lawful c key ?d (case acquire ?d c (discord_gateway_lease key hotel node guest agent) POLL_LEASE_TTL_SECS now of
      (reg', Granted l, _) \<Rightarrow> (LeaseReply ''discord'' True (Some l), reg')
    | (reg', Denied l, _) \<Rightarrow> (LeaseReply ''discord'' False (Some l), reg'))"
    by (rule lawful_acquire) (simp add: discord_gateway_lease_def poll_candidate_def)
  from lawful_after_drop [OF this] show ?thesis
    by (simp add: handle_acquire_discord_gateway_lease_def Inr gh split: prod.splits LeaseAcquireOutcome.splits)
qed

lemma lawful_handle_renew_telegram:
  "lawful c key reg (handle_renew_telegram_poll_lease node c ident key agent resource e now (g, reg))"
  using lawful_after_drop [OF lawful_renew [where reg = "drop_stale_poll_lease reg g node key now"]]
    telegram_authority_refusal
  by (auto simp: handle_renew_telegram_poll_lease_def intro: lawful_same split: sum.splits)

lemma lawful_handle_renew_discord:
  "lawful c key reg (handle_renew_discord_gateway_lease node c ident key agent e now (g, reg))"
  using lawful_after_drop [OF lawful_renew [where reg = "drop_stale_poll_lease reg g node key now"]]
    discord_authority_refusal
  by (auto simp: handle_renew_discord_gateway_lease_def intro: lawful_same split: sum.splits)

lemma lawful_drop_owner:
  assumes "granted_epoch r = None"
  shows "lawful c key reg (r, drop_stale_poll_lease reg g node key now)"
  by (rule lawful_after_drop [OF lawful_same [OF assms]])

lemma lawful_handle_owner:
  "lawful c key reg (handle_get_telegram_poll_lease_owner node key now (g, reg))"
  "lawful c key reg (handle_get_discord_gateway_lease_owner node key now (g, reg))"
  by (auto simp: handle_get_telegram_poll_lease_owner_def handle_get_discord_gateway_lease_owner_def Let_def
      intro: lawful_drop_owner split: option.splits)

lemma lawful_handle_desktop:
  "lawful c key reg (handle_acquire_desktop_membrane_lease node c ident key port now (g, reg))"
  "lawful c key reg (handle_renew_desktop_membrane_lease c ident key e now reg)"
  using lawful_acquire lawful_renew
  by (auto simp: handle_acquire_desktop_membrane_lease_def handle_renew_desktop_membrane_lease_def Let_def
      desktop_membrane_lease_def poll_candidate_def intro: lawful_same split: option.splits)

lemma lawful_handle_mcp:
  "lawful c key reg (handle_acquire_mcp_membrane_lease node c ident key port now (g, reg))"
  "lawful c key reg (handle_renew_mcp_membrane_lease c key e now reg)"
  "lawful c key reg (handle_release_mcp_membrane_lease c key reg)"
  using lawful_acquire lawful_renew
  by (auto simp: handle_acquire_mcp_membrane_lease_def handle_renew_mcp_membrane_lease_def
      handle_release_mcp_membrane_lease_def Let_def
      mcp_membrane_lease_def poll_candidate_def intro: lawful_same lawful_release split: option.splits)

lemmas lawful_handlers = lawful_handle_acquire_telegram lawful_handle_acquire_discord
  lawful_handle_renew_telegram lawful_handle_renew_discord lawful_handle_owner
  lawful_handle_desktop lawful_handle_mcp lawful_handle_release

subsection \<open>Theorems\<close>

text \<open>When this hotel may poll a resource for an agent: it is the active transport home of the
  resource, or no home is recorded and it is the agent's authority hotel or one of its delegates.\<close>

definition may_poll :: "lease_graph \<Rightarrow> string \<Rightarrow> string \<Rightarrow> string \<Rightarrow> string \<Rightarrow> string \<Rightarrow> bool" where
  "may_poll g node agent transport resource hotel \<longleftrightarrow>
     (\<exists>a. tbl_get (lg_agents g) agent = Some a \<and> local_hotel_name g node = Some hotel
        \<and> (lg_homes g agent transport resource = Inr (Some (HomeActive, hotel))
           \<or> lg_homes g agent transport resource = Inr None
             \<and> (ai_authority_hotel a = hotel \<or> hotel \<in> set (delegated_poll_hotels a))))"

lemma telegram_authority_iff:
  "telegram_authority g node ident key agent resource = Inr (guest, hotel) \<longleftrightarrow>
     ident = Some guest \<and> may_poll g node agent ''telegram'' (case resource of Some r \<Rightarrow> r | None \<Rightarrow> key) hotel"
  by (auto simp: telegram_authority_def may_poll_def hotel_may_poll_transport_home_def hotel_may_poll_for_agent_def
      Let_def split: option.splits sum.splits bool.splits if_splits)

text \<open>No poll lease without authority. A Telegram acquire or renew is granted only to a
  registered guest, for a known agent, by a hotel that may poll for it (its active transport home,
  or, with no home recorded, its authority hotel or a delegated one); a request that fails any of
  these checks changes neither the graph nor the registry.\<close>

theorem telegram_grant_authorised:
  "(case handle_acquire_telegram_poll_lease node c ident key agent resource now (g, reg) of (r, g', reg') \<Rightarrow>
      if \<exists>guest hotel. ident = Some guest
           \<and> may_poll g node agent ''telegram'' (case resource of Some x \<Rightarrow> x | None \<Rightarrow> key) hotel
      then \<exists>granted l. r = LeaseReply ''telegram'' granted (Some l)
      else granted_epoch r = None \<and> g' = g \<and> reg' = reg)
   \<and> (case handle_renew_telegram_poll_lease node c ident key agent resource e now (g, reg) of (r, reg') \<Rightarrow>
      if \<exists>guest hotel. ident = Some guest
           \<and> may_poll g node agent ''telegram'' (case resource of Some x \<Rightarrow> x | None \<Rightarrow> key) hotel
      then \<exists>granted l. r = LeaseReply ''telegram'' granted l
      else granted_epoch r = None \<and> reg' = reg)"
proof (cases "telegram_authority g node ident key agent resource")
  case (Inl err)
  then have "\<not> (\<exists>guest hotel. ident = Some guest
           \<and> may_poll g node agent ''telegram'' (case resource of Some x \<Rightarrow> x | None \<Rightarrow> key) hotel)"
    using telegram_authority_iff [of g node ident key agent resource] by auto
  then show ?thesis
    using Inl telegram_authority_refusal [OF Inl]
    by (auto simp: handle_acquire_telegram_poll_lease_def handle_renew_telegram_poll_lease_def)
next
  case (Inr gh)
  then obtain guest hotel where gh: "gh = (guest, hotel)" by fastforce
  then have "ident = Some guest"
    "may_poll g node agent ''telegram'' (case resource of Some x \<Rightarrow> x | None \<Rightarrow> key) hotel"
    using telegram_authority_iff [of g node ident key agent resource guest hotel] Inr by simp_all
  then show ?thesis
    using Inr gh
    by (auto simp: handle_acquire_telegram_poll_lease_def handle_renew_telegram_poll_lease_def
        split: prod.splits LeaseAcquireOutcome.splits LeaseRenewOutcome.splits)
qed

text \<open>Takeover. An authorised acquire of a key another connection holds is granted exactly when
  that holding is stale, past its expiry or owned by a dead guest process, and then with a larger
  epoch and ninety more seconds; otherwise the answer names the present holder and nothing changes.\<close>

theorem stale_lease_takeover:
  assumes "registry_ok reg" "holder reg key = Some (c', e)" "c' \<noteq> c" "inspect reg key = Some l"
    and "telegram_authority g node ident key agent resource = Inr (guest, hotel)"
    and "epoch_of reg key < u64_max" "now + POLL_LEASE_TTL_SECS \<le> u64_max"
  shows "if runtime_lease_is_expired now l \<or> \<not> telegram_poll_lease_owner_is_live g node (owner_guest_id l)
    then \<exists>l' g' reg'. handle_acquire_telegram_poll_lease node c ident key agent resource now (g, reg)
             = (LeaseReply ''telegram'' True (Some l'), g', reg')
           \<and> e < lease_epoch l' \<and> lease_expires_at l' = now + 90 \<and> owner_guest_id l' = guest
           \<and> holder reg' key = Some (c, lease_epoch l')
    else handle_acquire_telegram_poll_lease node c ident key agent resource now (g, reg)
             = (LeaseReply ''telegram'' False (Some l), g, reg)"
proof -
  have wf: "tbl_wf (active reg)" "lease_epoch l \<le> epoch_of reg key" "e = lease_epoch l"
    using assms(1,2,4) by (auto simp: registry_ok_def holder_def inspect_def)
  then have "e < u64_add (epoch_of reg key) 1" using assms(6) by (simp add: u64_add_exact)
  then show ?thesis
    using assms(2-5,7) wf(1)
    by (auto simp: handle_acquire_telegram_poll_lease_def drop_stale_poll_lease_def drop_if_stale_def acquire_def
        inspect_def holder_def telegram_poll_lease_def poll_candidate_def tbl_get_del tbl_get_put Let_def
        POLL_LEASE_TTL_SECS_def u64_add_exact epoch_of_def)
qed

text \<open>The membrane bindings an agent's bundle lists.\<close>

definition membrane_bindings :: "json \<Rightarrow> json list" where
  "membrane_bindings bundle =
     (case Option.bind (json_get bundle ''reflex_context'') (\<lambda>rc. json_get rc ''membrane_bindings'') of
        Some (JArr arr) \<Rightarrow> arr | _ \<Rightarrow> [])"

lemma map_of_tbl_put: "map_of (tbl_put k v t) k' = (if k' = k then Some v else map_of t k')"
  using tbl_get_put [of k v t k'] by (simp add: tbl_get_def)

text \<open>The membrane an agent is reached through is recorded once. When the bundle and its
  \<open>reflex_context\<close> (if any) are objects, recording a membrane of a kind leaves exactly one binding of
  that kind, the new one, and keeps every binding of another kind in its place.\<close>

theorem membrane_binding_unique:
  assumes "bundle = JObj obj" "\<And>v. map_of obj ''reflex_context'' = Some v \<Longrightarrow> \<exists>rc. v = JObj rc"
  shows "membrane_bindings (bind_membrane kind guest bundle)
      = filter (\<lambda>b. \<not> binding_kind_is kind b) (membrane_bindings bundle) @ [membrane_binding kind guest]
    \<and> filter (binding_kind_is kind) (membrane_bindings (bind_membrane kind guest bundle))
        = [membrane_binding kind guest]"
proof -
  have "binding_kind_is kind (membrane_binding kind guest)"
    by (simp add: binding_kind_is_def membrane_binding_def)
  moreover have "membrane_bindings (bind_membrane kind guest bundle)
      = filter (\<lambda>b. \<not> binding_kind_is kind b) (membrane_bindings bundle) @ [membrane_binding kind guest]"
    using assms(2)
    by (auto simp: assms(1) membrane_bindings_def bind_membrane_def map_of_tbl_put
        split: option.splits json.splits)
  ultimately show ?thesis by (simp add: filter_empty_conv)
qed

theorem membrane_binding_unique_witness:
  "filter (binding_kind_is ''telegram'') (membrane_bindings (bind_membrane ''telegram'' ''g2''
      (JObj [(''reflex_context'', JObj [(''membrane_bindings'',
          JArr [membrane_binding ''telegram'' ''g1'', membrane_binding ''discord_text'' ''g1''])])])))
   = [membrane_binding ''telegram'' ''g2'']"
proof -
  let ?obj = "[(''reflex_context'', JObj [(''membrane_bindings'',
          JArr [membrane_binding ''telegram'' ''g1'', membrane_binding ''discord_text'' ''g1''])])]"
  have "\<exists>rc. v = JObj rc" if "map_of ?obj ''reflex_context'' = Some v" for v using that by auto
  from membrane_binding_unique [where obj = ?obj, OF refl this, where kind = "''telegram''" and guest = "''g2''"]
  show ?thesis by blast
qed

definition demo_graph :: lease_graph where
  "demo_graph = \<lparr>lg_agents = [(''ana'', \<lparr>ai_authority_hotel = ''h'', ai_bundle = JObj []\<rparr>)],
     lg_hotels = [(''n'', ''h'')], lg_homes = (\<lambda>_ _ _. Inr None), lg_guests = (\<lambda>_. None),
     lg_pid_exists = (\<lambda>_. False), lg_upsert_ok = True\<rparr>"

theorem stale_lease_takeover_witness:
  "\<exists>l' g' reg'. handle_acquire_telegram_poll_lease ''n'' 2 (Some ''g2'') ''bot'' ''ana'' None 190
        (demo_graph, fst (acquire registry_default 1 demo_lease 90 100))
      = (LeaseReply ''telegram'' True (Some l'), g', reg') \<and> 1 < lease_epoch l'"
proof -
  let ?reg = "fst (acquire registry_default 1 demo_lease 90 100)"
  let ?l = "demo_lease\<lparr>lease_epoch := 1, lease_expires_at := 190, last_heartbeat_at := 100\<rparr>"
  have e: "epoch_of registry_default (lease_scope demo_lease) < u64_max"
    by (simp add: epoch_of_def registry_default_def tbl_get_def)
  have ok: "registry_ok ?reg" by (rule registry_ok_acquire [OF registry_default_ok e])
  have st: "holder ?reg ''bot'' = Some (1, 1)" "inspect ?reg ''bot'' = Some ?l" "epoch_of ?reg ''bot'' < u64_max"
    by (simp_all add: acquire_def registry_default_def tbl_get_def demo_lease_def Let_def epoch_of_def holder_def
        inspect_def u64_add_def)
  have auth: "telegram_authority demo_graph ''n'' (Some ''g2'') ''bot'' ''ana'' None = Inr (''g2'', ''h'')"
    by (simp add: telegram_authority_def demo_graph_def tbl_get_def local_hotel_name_def
        hotel_may_poll_transport_home_def hotel_may_poll_for_agent_def)
  have ne: "(1 :: nat) \<noteq> 2" and ttl: "(190 :: nat) + POLL_LEASE_TTL_SECS \<le> u64_max"
    by (simp_all add: POLL_LEASE_TTL_SECS_def)
  have "runtime_lease_is_expired 190 ?l" by (simp add: runtime_lease_is_expired_def)
  with stale_lease_takeover [OF ok st(1) ne st(2) auth st(3) ttl] show ?thesis by auto
qed

end
