(* ===== verification/LeaseService.thy ===== *)
theory LeaseService
  imports LeaseHandlers
begin

section \<open>The hotel as a lease server\<close>

text \<open>
  The lease arms of \<open>process_request\<close> and the disconnect path of \<open>handle_connection\<close>
  (\<^verbatim>\<open>crates/aiua/src/service/ipc.rs\<close>): which handler serves which request, over the four
  per-transport registries of one hotel. A served request carries what the connection task
  reads when it runs: the graph, the clock, its connection and registered identity. The graph
  is given afresh to each request, so every history of agent records, guests and processes is
  covered. The locale \<open>lease_service\<close> states what makes such a server a lease authority and proves
  the single-owner rule over whole histories of requests; the hotel is its interpretation, once
  for every transport.
\<close>

subsection \<open>Requests and dispatch\<close>

datatype lease_transport = Telegram | Discord | Desktop | Mcp

record hotel_leases =
  telegram_poll_leases :: RuntimeLeaseRegistry
  discord_gateway_leases :: RuntimeLeaseRegistry
  desktop_membrane_leases :: RuntimeLeaseRegistry
  mcp_membrane_leases :: RuntimeLeaseRegistry

definition hotel_leases_new :: hotel_leases where
  "hotel_leases_new = \<lparr>telegram_poll_leases = registry_default, discord_gateway_leases = registry_default,
     desktop_membrane_leases = registry_default, mcp_membrane_leases = registry_default\<rparr>"

datatype IpcLeaseRequest =
    AcquireTelegramPollLease string string "string option"
  | GetTelegramPollLeaseOwner string
  | RenewTelegramPollLease string string "string option" nat
  | ReleaseTelegramPollLease string
  | AcquireDesktopMembraneLease string nat
  | GetDesktopMembraneLeaseOwner string
  | RenewDesktopMembraneLease string nat
  | ReleaseDesktopMembraneLease string
  | AcquireDiscordGatewayLease string string
  | GetDiscordGatewayLeaseOwner string
  | RenewDiscordGatewayLease string string nat
  | ReleaseDiscordGatewayLease string
  | AcquireMcpMembraneLease string nat
  | RenewMcpMembraneLease string nat
  | ReleaseMcpMembraneLease string

record served =
  sv_graph :: lease_graph
  sv_node :: string
  sv_now :: nat
  sv_conn :: conn
  sv_identity :: "string option"

fun process_lease_request ::
  "served \<Rightarrow> IpcLeaseRequest \<Rightarrow> hotel_leases \<Rightarrow> LeaseResponse \<times> hotel_leases" where
  "process_lease_request x (AcquireTelegramPollLease key agent resource) h =
     (case handle_acquire_telegram_poll_lease (sv_node x) (sv_conn x) (sv_identity x) key agent resource
             (sv_now x) (sv_graph x, telegram_poll_leases h) of
        (r, _, reg) \<Rightarrow> (r, h\<lparr>telegram_poll_leases := reg\<rparr>))"
| "process_lease_request x (GetTelegramPollLeaseOwner key) h =
     (case handle_get_telegram_poll_lease_owner (sv_node x) key (sv_now x) (sv_graph x, telegram_poll_leases h) of
        (r, reg) \<Rightarrow> (r, h\<lparr>telegram_poll_leases := reg\<rparr>))"
| "process_lease_request x (RenewTelegramPollLease key agent resource epoch) h =
     (case handle_renew_telegram_poll_lease (sv_node x) (sv_conn x) (sv_identity x) key agent resource epoch
             (sv_now x) (sv_graph x, telegram_poll_leases h) of
        (r, reg) \<Rightarrow> (r, h\<lparr>telegram_poll_leases := reg\<rparr>))"
| "process_lease_request x (ReleaseTelegramPollLease key) h =
     (case handle_release_telegram_poll_lease (sv_conn x) (sv_identity x) key (telegram_poll_leases h) of
        (r, reg) \<Rightarrow> (r, h\<lparr>telegram_poll_leases := reg\<rparr>))"
| "process_lease_request x (AcquireDesktopMembraneLease key port) h =
     (case handle_acquire_desktop_membrane_lease (sv_node x) (sv_conn x) (sv_identity x) key port
             (sv_now x) (sv_graph x, desktop_membrane_leases h) of
        (r, reg) \<Rightarrow> (r, h\<lparr>desktop_membrane_leases := reg\<rparr>))"
| "process_lease_request x (GetDesktopMembraneLeaseOwner key) h =
     (handle_get_desktop_membrane_lease_owner key (desktop_membrane_leases h), h)"
| "process_lease_request x (RenewDesktopMembraneLease key epoch) h =
     (case handle_renew_desktop_membrane_lease (sv_conn x) (sv_identity x) key epoch (sv_now x)
             (desktop_membrane_leases h) of
        (r, reg) \<Rightarrow> (r, h\<lparr>desktop_membrane_leases := reg\<rparr>))"
| "process_lease_request x (ReleaseDesktopMembraneLease key) h =
     (case handle_release_desktop_membrane_lease (sv_conn x) (sv_identity x) key (desktop_membrane_leases h) of
        (r, reg) \<Rightarrow> (r, h\<lparr>desktop_membrane_leases := reg\<rparr>))"
| "process_lease_request x (AcquireDiscordGatewayLease key agent) h =
     (case handle_acquire_discord_gateway_lease (sv_node x) (sv_conn x) (sv_identity x) key agent
             (sv_now x) (sv_graph x, discord_gateway_leases h) of
        (r, _, reg) \<Rightarrow> (r, h\<lparr>discord_gateway_leases := reg\<rparr>))"
| "process_lease_request x (GetDiscordGatewayLeaseOwner key) h =
     (case handle_get_discord_gateway_lease_owner (sv_node x) key (sv_now x) (sv_graph x, discord_gateway_leases h) of
        (r, reg) \<Rightarrow> (r, h\<lparr>discord_gateway_leases := reg\<rparr>))"
| "process_lease_request x (RenewDiscordGatewayLease key agent epoch) h =
     (case handle_renew_discord_gateway_lease (sv_node x) (sv_conn x) (sv_identity x) key agent epoch
             (sv_now x) (sv_graph x, discord_gateway_leases h) of
        (r, reg) \<Rightarrow> (r, h\<lparr>discord_gateway_leases := reg\<rparr>))"
| "process_lease_request x (ReleaseDiscordGatewayLease key) h =
     (case handle_release_discord_gateway_lease (sv_conn x) (sv_identity x) key (discord_gateway_leases h) of
        (r, reg) \<Rightarrow> (r, h\<lparr>discord_gateway_leases := reg\<rparr>))"
| "process_lease_request x (AcquireMcpMembraneLease key port) h =
     (case handle_acquire_mcp_membrane_lease (sv_node x) (sv_conn x) (sv_identity x) key port
             (sv_now x) (sv_graph x, mcp_membrane_leases h) of
        (r, reg) \<Rightarrow> (r, h\<lparr>mcp_membrane_leases := reg\<rparr>))"
| "process_lease_request x (RenewMcpMembraneLease key epoch) h =
     (case handle_renew_mcp_membrane_lease (sv_conn x) key epoch (sv_now x) (mcp_membrane_leases h) of
        (r, reg) \<Rightarrow> (r, h\<lparr>mcp_membrane_leases := reg\<rparr>))"
| "process_lease_request x (ReleaseMcpMembraneLease key) h =
     (case handle_release_mcp_membrane_lease (sv_conn x) key (mcp_membrane_leases h) of
        (r, reg) \<Rightarrow> (r, h\<lparr>mcp_membrane_leases := reg\<rparr>))"

definition connection_closed :: "conn \<Rightarrow> hotel_leases \<Rightarrow> hotel_leases" where
  "connection_closed c h =
     \<lparr>telegram_poll_leases = remove_leases (telegram_poll_leases h) c,
      discord_gateway_leases = remove_leases (discord_gateway_leases h) c,
      desktop_membrane_leases = remove_leases (desktop_membrane_leases h) c,
      mcp_membrane_leases = remove_leases (mcp_membrane_leases h) c\<rparr>"

text \<open>What the hotel's connection tasks do to its leases, one critical section at a time.\<close>

datatype hotel_input = Request served IpcLeaseRequest | Closed conn

fun hotel_serve :: "hotel_input \<Rightarrow> hotel_leases \<Rightarrow> LeaseResponse option \<times> hotel_leases" where
  "hotel_serve (Request x q) h = (case process_lease_request x q h of (r, h') \<Rightarrow> (Some r, h'))"
| "hotel_serve (Closed c) h = (None, connection_closed c h)"

fun registry_of :: "lease_transport \<Rightarrow> hotel_leases \<Rightarrow> RuntimeLeaseRegistry" where
  "registry_of Telegram = telegram_poll_leases"
| "registry_of Discord = discord_gateway_leases"
| "registry_of Desktop = desktop_membrane_leases"
| "registry_of Mcp = mcp_membrane_leases"

text \<open>The lease a request is about, and the grant its reply announces: key, connection, epoch.\<close>

fun target_of :: "IpcLeaseRequest \<Rightarrow> lease_transport \<times> string" where
  "target_of (AcquireTelegramPollLease key _ _) = (Telegram, key)"
| "target_of (GetTelegramPollLeaseOwner key) = (Telegram, key)"
| "target_of (RenewTelegramPollLease key _ _ _) = (Telegram, key)"
| "target_of (ReleaseTelegramPollLease key) = (Telegram, key)"
| "target_of (AcquireDesktopMembraneLease key _) = (Desktop, key)"
| "target_of (GetDesktopMembraneLeaseOwner key) = (Desktop, key)"
| "target_of (RenewDesktopMembraneLease key _) = (Desktop, key)"
| "target_of (ReleaseDesktopMembraneLease key) = (Desktop, key)"
| "target_of (AcquireDiscordGatewayLease key _) = (Discord, key)"
| "target_of (GetDiscordGatewayLeaseOwner key) = (Discord, key)"
| "target_of (RenewDiscordGatewayLease key _ _) = (Discord, key)"
| "target_of (ReleaseDiscordGatewayLease key) = (Discord, key)"
| "target_of (AcquireMcpMembraneLease key _) = (Mcp, key)"
| "target_of (RenewMcpMembraneLease key _) = (Mcp, key)"
| "target_of (ReleaseMcpMembraneLease key) = (Mcp, key)"

fun grant_of :: "lease_transport \<Rightarrow> hotel_input \<Rightarrow> LeaseResponse option \<Rightarrow> (string \<times> conn \<times> nat) option" where
  "grant_of t (Request x q) (Some r) =
     (if fst (target_of q) = t
      then map_option (\<lambda>e. (snd (target_of q), sv_conn x, e)) (granted_epoch r) else None)"
| "grant_of t _ _ = None"

text \<open>A history: the inputs served in order, with their replies.\<close>

fun serve_all :: "('q \<Rightarrow> 's \<Rightarrow> 'r \<times> 's) \<Rightarrow> 'q list \<Rightarrow> 's \<Rightarrow> ('q \<times> 'r) list \<times> 's" where
  "serve_all serve [] s = ([], s)"
| "serve_all serve (q # qs) s =
     (case serve q s of (r, s') \<Rightarrow>
        (case serve_all serve qs s' of (log, s'') \<Rightarrow> ((q, r) # log, s'')))"

subsection \<open>Lease authority, as a contract\<close>

locale lease_service =
  fixes serve :: "'q \<Rightarrow> 's \<Rightarrow> 'r \<times> 's"
    and view :: "'s \<Rightarrow> RuntimeLeaseRegistry"
    and granted :: "'q \<Rightarrow> 'r \<Rightarrow> (string \<times> conn \<times> nat) option"
  assumes serve_steps: "registry_ok (view s) \<Longrightarrow> \<forall>k. epoch_of (view s) k < u64_max
            \<Longrightarrow> lease_step\<^sup>*\<^sup>* (view s) (view (snd (serve q s)))"
    and serve_epoch: "registry_ok (view s) \<Longrightarrow> \<forall>k. epoch_of (view s) k < u64_max
            \<Longrightarrow> epoch_of (view (snd (serve q s))) k \<le> Suc (epoch_of (view s) k)"
    and granted_holds: "registry_ok (view s) \<Longrightarrow> granted q (fst (serve q s)) = Some (k, c, e)
            \<Longrightarrow> holder (view (snd (serve q s))) k = Some (c, e)"
begin

definition room :: "nat \<Rightarrow> 's \<Rightarrow> bool" where
  "room n s \<longleftrightarrow> registry_ok (view s) \<and> (\<forall>k. epoch_of (view s) k + n \<le> u64_max)"

lemma serve_one:
  assumes "room (Suc n) s" "serve q s = (r, s')"
  shows "lease_step\<^sup>*\<^sup>* (view s) (view s')" "room n s'"
    and "granted q r = Some (k, c, e) \<Longrightarrow> holder (view s') k = Some (c, e)"
proof -
  have ok: "registry_ok (view s)" and le: "epoch_of (view s) k + Suc n \<le> u64_max" for k
    using assms(1) unfolding room_def by blast+
  have lt: "\<forall>k. epoch_of (view s) k < u64_max"
  proof
    fix k show "epoch_of (view s) k < u64_max" using le [of k] by linarith
  qed
  show st: "lease_step\<^sup>*\<^sup>* (view s) (view s')"
    using serve_steps [OF ok lt, of q] by (simp add: assms(2))
  have "epoch_of (view s') k + n \<le> u64_max" for k
    using serve_epoch [OF ok lt, of q k] le [of k] unfolding assms(2) snd_conv by linarith
  then show "room n s'" using reg.ok_steps [OF st ok] unfolding room_def by blast
  show "granted q r = Some (k, c, e) \<Longrightarrow> holder (view s') k = Some (c, e)"
    using granted_holds [OF ok, of q] by (simp add: assms(2))
qed

text \<open>Every grant in a log was held at some point of the run.\<close>

lemma grant_was_held:
  assumes "room (length qs) s" "(q, r) \<in> set (fst (serve_all serve qs s))" "granted q r = Some (k, c, e)"
  shows "\<exists>reg. lease_step\<^sup>*\<^sup>* (view s) reg \<and> holder reg k = Some (c, e)"
  using assms
proof (induction qs arbitrary: s)
  case (Cons p qs)
  obtain rp s' where sv: "serve p s = (rp, s')" by fastforce
  obtain log t where all: "serve_all serve qs s' = (log, t)" by fastforce
  have "room (Suc (length qs)) s" using Cons.prems(1) by simp
  note one = serve_one [OF this sv]
  have "(q, r) = (p, rp) \<or> (q, r) \<in> set log" using Cons.prems(2) by (simp add: sv all)
  then show ?case
  proof
    assume "(q, r) = (p, rp)"
    then show ?thesis using one(1) one(3) [of k c e] Cons.prems(3) by blast
  next
    assume "(q, r) \<in> set log"
    then obtain reg where "lease_step\<^sup>*\<^sup>* (view s') reg" "holder reg k = Some (c, e)"
      using Cons.IH [OF one(2)] Cons.prems(3) all by fastforce
    then show ?thesis using one(1) by (blast intro: rtranclp_trans)
  qed
qed simp

text \<open>The single-owner rule: two grants of one key, in the order they were made, are the same holding
  or the later one fences the earlier.\<close>

lemma grants_ordered:
  assumes "room (length qs) s"
    and "i < j" "j < length (fst (serve_all serve qs s))"
    and "fst (serve_all serve qs s) ! i = (q, r)" "granted q r = Some (k, c, e)"
    and "fst (serve_all serve qs s) ! j = (q', r')" "granted q' r' = Some (k, c', e')"
  shows "(c', e') = (c, e) \<or> e < e'"
  using assms(1-4,6)
proof (induction qs arbitrary: s i j)
  case (Cons p qs)
  obtain rp s' where sv: "serve p s = (rp, s')" by fastforce
  obtain log t where all: "serve_all serve qs s' = (log, t)" by fastforce
  have "room (Suc (length qs)) s" using Cons.prems(1) by simp
  note one = serve_one [OF this sv]
  obtain j' where j: "j = Suc j'" "j' < length log" using Cons.prems(2,3) by (cases j) (auto simp: sv all)
  show ?case
  proof (cases i)
    case 0
    then have h: "holder (view s') k = Some (c, e)"
      using one(3) [of k c e] Cons.prems(4) assms(5) by (simp add: sv all)
    have "log ! j' = (q', r')" using Cons.prems(5) by (simp add: sv all j)
    then have "(q', r') \<in> set (fst (serve_all serve qs s'))"
      using nth_mem [OF j(2)] by (simp add: all)
    from grant_was_held [OF one(2) this assms(7)]
    obtain reg where "lease_step\<^sup>*\<^sup>* (view s') reg" "holder reg k = Some (c', e')" by blast
    moreover have "registry_ok (view s')" using one(2) by (simp add: room_def)
    ultimately show ?thesis using reg.epochs_increase [OF _ _ h] by blast
  next
    case (Suc i')
    then show ?thesis
      using Cons.IH [OF one(2), of i' j'] Cons.prems(2-5) j by (simp add: sv all)
  qed
qed simp

end

subsection \<open>The hotel is a lease authority\<close>

lemma lawful_remove_leases:
  assumes "registry_ok reg"
  shows "lease_step\<^sup>*\<^sup>* reg (remove_leases reg c)" "epoch_of (remove_leases reg c) k = epoch_of reg k"
proof -
  have "lease_step\<^sup>*\<^sup>* r (fold (\<lambda>scope r. fst (release r scope c)) ss r)" for ss r
  proof (induction ss arbitrary: r)
    case (Cons x ss)
    show ?case using converse_rtranclp_into_rtranclp [OF ls_release Cons.IH] by simp
  qed simp
  then show "lease_step\<^sup>*\<^sup>* reg (remove_leases reg c)" by (simp add: remove_leases_def)
  have "next_epoch (fold (\<lambda>scope r. fst (release r scope c)) ss r) = next_epoch r" for ss r
    by (induction ss arbitrary: r) (auto simp: release_def Let_def split: option.splits)
  then show "epoch_of (remove_leases reg c) k = epoch_of reg k"
    by (simp add: remove_leases_def epoch_of_def)
qed

text \<open>A request is lawful on the registry of its transport and leaves the others alone.\<close>

lemma process_lawful:
  assumes "target_of q = (t, key)"
  shows "lawful (sv_conn x) key (registry_of t h)
    (fst (process_lease_request x q h), registry_of t (snd (process_lease_request x q h)))"
  using assms
  by (cases q; hypsubst_thin?)
    (use lawful_handlers in \<open>auto simp: split_beta handle_release_telegram_poll_lease_def
        handle_release_discord_gateway_lease_def handle_release_desktop_membrane_lease_def
        handle_get_desktop_membrane_lease_owner_def intro: lawful_same split: option.splits\<close>)

lemma process_frame:
  "fst (target_of q) \<noteq> t \<Longrightarrow> registry_of t (snd (process_lease_request x q h)) = registry_of t h"
  by (cases q; cases t) (simp_all add: split_beta)

lemma closed_registry: "registry_of t (connection_closed c h) = remove_leases (registry_of t h) c"
  by (cases t) (simp_all add: connection_closed_def)

interpretation hotel: lease_service hotel_serve "registry_of t" "grant_of t" for t
proof
  fix h q k c e
  assume ok: "registry_ok (registry_of t h)"
  show "grant_of t q (fst (hotel_serve q h)) = Some (k, c, e)
      \<Longrightarrow> holder (registry_of t (snd (hotel_serve q h))) k = Some (c, e)"
  proof (cases q)
    case (Request x r)
    assume "grant_of t q (fst (hotel_serve q h)) = Some (k, c, e)"
    then have "target_of r = (t, k)" "c = sv_conn x" "granted_epoch (fst (process_lease_request x r h)) = Some e"
      by (auto simp: Request split_beta split: if_splits intro: prod_eqI)
    then show ?thesis using process_lawful [of r t k x h] ok by (simp add: Request split_beta lawful_def)
  qed simp
  assume lt: "\<forall>k. epoch_of (registry_of t h) k < u64_max"
  have "lease_step\<^sup>*\<^sup>* (registry_of t h) (registry_of t (snd (hotel_serve q h)))
      \<and> epoch_of (registry_of t (snd (hotel_serve q h))) k \<le> Suc (epoch_of (registry_of t h) k)"
  proof (cases q)
    case (Request x r)
    obtain t' key where tg: "target_of r = (t', key)" by fastforce
    show ?thesis
    proof (cases "t' = t")
      case True
      then show ?thesis
        using process_lawful [OF tg, of x h] ok lt by (simp add: Request split_beta lawful_def)
    next
      case False
      then show ?thesis using process_frame [of r t x h] tg by (simp add: Request split_beta)
    qed
  next
    case (Closed c)
    then show ?thesis using lawful_remove_leases [OF ok] by (simp add: closed_registry)
  qed
  then show "lease_step\<^sup>*\<^sup>* (registry_of t h) (registry_of t (snd (hotel_serve q h)))"
    and "epoch_of (registry_of t (snd (hotel_serve q h))) k \<le> Suc (epoch_of (registry_of t h) k)"
    by blast+
qed

lemma hotel_new_registry: "registry_of t hotel_leases_new = registry_default"
  by (cases t) (simp_all add: hotel_leases_new_def)

lemma hotel_new_room: "n \<le> u64_max \<Longrightarrow> hotel.room t n hotel_leases_new"
  unfolding hotel.room_def hotel_new_registry
  by (simp add: registry_default_ok epoch_of_def) (simp add: registry_default_def tbl_get_def)

subsection \<open>Theorems\<close>

text \<open>C1. One owner at a time, for the whole service. Take any history of a hotel started with empty
  registries: lease requests of any transport from any connections, in any order, with any state of
  the agent graph, the process table and the clock at each of them, and connections closing in
  between. Whenever two replies in it grant the same key of the same transport, they either grant the
  same holding (same connection and epoch) or the later one carries a larger epoch, so that no two
  connections are ever told they own a lease at one epoch. (Up to \<open>2^64 - 1\<close> inputs: the epoch is a \<open>u64\<close>.)\<close>

theorem hotel_single_owner:
  assumes "length qs \<le> u64_max" "serve_all hotel_serve qs hotel_leases_new = (log, h)"
    and "i < j" "j < length log"
    and "log ! i = (q, r)" "grant_of t q r = Some (key, c, e)"
    and "log ! j = (q', r')" "grant_of t q' r' = Some (key, c', e')"
  shows "(c' = c \<and> e' = e) \<or> e < e'"
  using hotel.grants_ordered [OF hotel_new_room [OF assms(1)], of i j] assms(2-8) by fastforce

definition demo_served :: "conn \<Rightarrow> nat \<Rightarrow> served" where
  "demo_served c now = \<lparr>sv_graph = demo_graph, sv_node = ''n'', sv_now = now, sv_conn = c, sv_identity = Some ''g''\<rparr>"

definition demo_history :: "hotel_input list" where
  "demo_history = [Request (demo_served 1 100) (AcquireDesktopMembraneLease ''d'' 7),
     Closed 1, Request (demo_served 2 110) (AcquireDesktopMembraneLease ''d'' 7)]"

theorem hotel_single_owner_witness:
  "\<exists>log h r r'. serve_all hotel_serve demo_history hotel_leases_new = (log, h)
     \<and> log ! 0 = (demo_history ! 0, r) \<and> grant_of Desktop (demo_history ! 0) r = Some (''d'', 1, 1)
     \<and> log ! 2 = (demo_history ! 2, r') \<and> grant_of Desktop (demo_history ! 2) r' = Some (''d'', 2, 2)
     \<and> ((2 = (1::nat) \<and> 2 = (1::nat)) \<or> 1 < (2::nat))"
proof -
  obtain log h where run: "serve_all hotel_serve demo_history hotel_leases_new = (log, h)" by fastforce
  then obtain r r' r'' where log: "log = [(demo_history ! 0, r), (demo_history ! 1, r''), (demo_history ! 2, r')]"
    and g: "grant_of Desktop (demo_history ! 0) r = Some (''d'', 1, 1)"
           "grant_of Desktop (demo_history ! 2) r' = Some (''d'', 2, 2)"
    by (auto simp: demo_history_def demo_served_def hotel_leases_new_def handle_acquire_desktop_membrane_lease_def
        demo_graph_def local_hotel_name_def acquire_def registry_default_def tbl_get_def desktop_membrane_lease_def
        poll_candidate_def epoch_of_def u64_add_def connection_closed_def remove_leases_def release_def
        active_leases_for_connection_def tbl_del_def Let_def)
  have "log ! 0 = (demo_history ! 0, r)" "log ! 2 = (demo_history ! 2, r')" by (simp_all add: log)
  with hotel_single_owner [OF _ run, of 0 2 "demo_history ! 0" r Desktop "''d''" 1 1 "demo_history ! 2" r' 2 2] g run
  show ?thesis by (auto simp: log demo_history_def)
qed

end
