(* ===== verification/LeaseDriver.thy ===== *)
theory LeaseDriver
  imports LeaseService
begin

section \<open>The membrane's lease driver\<close>

text \<open>
  Models \<^verbatim>\<open>crates/membrane/src/lease.rs\<close>, the state machine every membrane seat runs to keep its
  lease, and the two adapters that connect it to the hotel: \<open>TelegramLeaseBackend\<close>
  (\<^verbatim>\<open>crates/membrane-telegram/src/lib.rs\<close>) and \<open>DiscordLeaseBackend\<close>
  (\<^verbatim>\<open>crates/membrane-discord/src/lease.rs\<close>). Durations and instants are natural numbers of
  nanoseconds; \<open>Instant::now()\<close> is an argument; \<open>clamp\<close> panics when its bounds are crossed, which is
  the value \<open>None\<close>. A backend is a record of three operations over a state of its own; the adapters
  take \<open>send\<close>, the client's request call, as a parameter, and are then run against the hotel of
  \<open>LeaseService\<close> over a connection that may lose a request or a reply.
\<close>

subsection \<open>Outcomes, configuration, state\<close>

datatype LeaseRenewResult = RenewOk nat | NeedsReacquire | RenewLost "string option"

datatype BackendAcquireOutcome = BackendGranted nat | BackendHeld "string option" nat

record 'b LeaseBackend =
  be_acquire :: "'b \<Rightarrow> (string + BackendAcquireOutcome) \<times> 'b"
  be_renew :: "nat \<Rightarrow> 'b \<Rightarrow> (string + LeaseRenewResult) \<times> 'b"
  be_release :: "'b \<Rightarrow> (string + unit) \<times> 'b"

record LeaseDriverConfig =
  cfg_ttl :: nat
  renew_interval :: nat
  backoff_initial :: nat
  backoff_max :: nat

definition secs :: "nat \<Rightarrow> nat" where "secs n = n * 1000000000"

definition LeaseDriverConfig_default :: LeaseDriverConfig where
  "LeaseDriverConfig_default =
     \<lparr>cfg_ttl = secs 90, renew_interval = secs 20, backoff_initial = secs 1, backoff_max = secs 600\<rparr>"

datatype LeaseEvent =
    EvAcquired nat
  | EvRenewed nat
  | EvReacquired nat
  | EvLost "string option"
  | EvBackingOff nat string
  | EvOffline
  | EvIdle

datatype Phase = Acquiring bool | Held nat | Lost "string option" | Released

record LeaseDriver =
  config :: LeaseDriverConfig
  phase :: Phase
  last_success :: "nat option"
  next_attempt :: nat
  backoff :: nat
  online :: bool

subsection \<open>Operations\<close>

definition LeaseDriver_new :: "LeaseDriverConfig \<Rightarrow> nat \<Rightarrow> LeaseDriver" where
  "LeaseDriver_new cfg now =
     \<lparr>config = cfg, phase = Acquiring False, last_success = None, next_attempt = now,
      backoff = backoff_initial cfg, online = True\<rparr>"

definition epoch :: "LeaseDriver \<Rightarrow> nat option" where
  "epoch d = (case phase d of Held e \<Rightarrow> Some e | _ \<Rightarrow> None)"

definition is_held :: "LeaseDriver \<Rightarrow> bool" where
  "is_held d = (case phase d of Held _ \<Rightarrow> True | _ \<Rightarrow> False)"

definition is_lost :: "LeaseDriver \<Rightarrow> bool" where
  "is_lost d = (case phase d of Lost _ \<Rightarrow> True | _ \<Rightarrow> False)"

definition next_deadline :: "LeaseDriver \<Rightarrow> nat option" where
  "next_deadline d =
     (if \<not> online d then None
      else case phase d of Lost _ \<Rightarrow> None | Released \<Rightarrow> None | _ \<Rightarrow> Some (next_attempt d))"

definition set_online :: "bool \<Rightarrow> nat \<Rightarrow> LeaseDriver \<Rightarrow> LeaseDriver" where
  "set_online b now d =
     (if b = online d then d
      else if b then d\<lparr>online := b, backoff := backoff_initial (config d), next_attempt := now\<rparr>
      else d\<lparr>online := b\<rparr>)"

text \<open>\<open>Duration::MAX\<close>, and \<open>Ord::clamp\<close> with its assertion.\<close>

definition duration_max :: nat where
  "duration_max = u64_max * 1000000000 + 999999999"

definition clamp :: "nat \<Rightarrow> nat \<Rightarrow> nat \<Rightarrow> nat option" where
  "clamp x lo hi = (if lo \<le> hi then Some (if x < lo then lo else if hi < x then hi else x) else None)"

definition next_backoff :: "nat \<Rightarrow> LeaseDriverConfig \<Rightarrow> nat option" where
  "next_backoff current cfg = clamp (min (current * 2) duration_max) (backoff_initial cfg) (backoff_max cfg)"

definition on_success :: "nat \<Rightarrow> nat \<Rightarrow> LeaseDriver \<Rightarrow> LeaseDriver" where
  "on_success e now d =
     d\<lparr>phase := Held e, last_success := Some now, next_attempt := now + renew_interval (config d),
       backoff := backoff_initial (config d)\<rparr>"

definition do_acquire ::
  "'b LeaseBackend \<Rightarrow> nat \<Rightarrow> bool \<Rightarrow> LeaseDriver \<Rightarrow> 'b \<Rightarrow> (LeaseEvent \<times> LeaseDriver \<times> 'b) option" where
  "do_acquire be now reacquire d b =
     (case be_acquire be b of
        (Inr (BackendGranted e), b') \<Rightarrow>
          Some (if reacquire then EvReacquired e else EvAcquired e, on_success e now d, b')
      | (Inr (BackendHeld owner _), b') \<Rightarrow> Some (EvLost owner, d\<lparr>phase := Lost owner\<rparr>, b')
      | (Inl err, b') \<Rightarrow>
          (case next_backoff (backoff d) (config d) of
             None \<Rightarrow> None
           | Some nb \<Rightarrow>
               Some (EvBackingOff (backoff d) err,
                     d\<lparr>phase := Acquiring reacquire, next_attempt := now + backoff d, backoff := nb\<rparr>, b')))"

definition tick ::
  "'b LeaseBackend \<Rightarrow> nat \<Rightarrow> LeaseDriver \<Rightarrow> 'b \<Rightarrow> (LeaseEvent \<times> LeaseDriver \<times> 'b) option" where
  "tick be now d b =
     (case phase d of
        Lost owner \<Rightarrow> Some (EvLost owner, d, b)
      | Released \<Rightarrow> Some (EvIdle, d, b)
      | _ \<Rightarrow>
          if \<not> online d then Some (EvOffline, d, b)
          else if now < next_attempt d then Some (EvIdle, d, b)
          else
            (case phase d of
               Acquiring reacquire \<Rightarrow> do_acquire be now reacquire d b
             | Held e \<Rightarrow>
                 (if (case last_success d of Some t \<Rightarrow> cfg_ttl (config d) < now - t | None \<Rightarrow> True)
                  then do_acquire be now True d b
                  else
                    (case be_renew be e b of
                       (Inr (RenewOk e'), b') \<Rightarrow> Some (EvRenewed e', on_success e' now d, b')
                     | (Inr NeedsReacquire, b') \<Rightarrow> do_acquire be now True d b'
                     | (Inr (RenewLost owner), b') \<Rightarrow> Some (EvLost owner, d\<lparr>phase := Lost owner\<rparr>, b')
                     | (Inl _, b') \<Rightarrow> do_acquire be now True d b'))
             | Lost owner \<Rightarrow> Some (EvLost owner, d, b)
             | Released \<Rightarrow> Some (EvIdle, d, b)))"

definition driver_release :: "'b LeaseBackend \<Rightarrow> LeaseDriver \<Rightarrow> 'b \<Rightarrow> (string + unit) \<times> LeaseDriver \<times> 'b" where
  "driver_release be d b =
     (if phase d = Released then (Inr (), d, b)
      else case be_release be b of
             (Inl err, b') \<Rightarrow> (Inl err, d, b')
           | (Inr _, b') \<Rightarrow> (Inr (), d\<lparr>phase := Released\<rparr>, b'))"

subsection \<open>The adapters\<close>

text \<open>\<open>IpcResponse\<close> is an untagged enum: a Discord lease reply reads back as a Telegram one, and the
  adapters accept both. Desktop and MCP replies have fields of other names.\<close>

definition poll_reply :: "string \<Rightarrow> bool" where
  "poll_reply tag \<longleftrightarrow> tag = ''telegram'' \<or> tag = ''discord''"

definition telegram_acquire_outcome :: "LeaseResponse \<Rightarrow> string + BackendAcquireOutcome" where
  "telegram_acquire_outcome resp =
     (case resp of
        LeaseReply tag granted lease \<Rightarrow>
          if \<not> poll_reply tag then Inl ''unexpected''
          else if granted
          then (case lease of Some l \<Rightarrow> Inr (BackendGranted (lease_epoch l)) | None \<Rightarrow> Inl ''unexpected'')
          else Inr (BackendHeld (map_option owner_guest_id lease)
                      (case lease of Some l \<Rightarrow> lease_epoch l | None \<Rightarrow> 0))
      | LeaseError _ _ \<Rightarrow> Inr (BackendHeld None 0)
      | _ \<Rightarrow> Inl ''unexpected'')"

definition telegram_renew_outcome :: "string \<Rightarrow> LeaseResponse \<Rightarrow> string + LeaseRenewResult" where
  "telegram_renew_outcome seat resp =
     (case resp of
        LeaseReply tag granted lease \<Rightarrow>
          if \<not> poll_reply tag then Inl ''unexpected''
          else if granted
          then (case lease of Some l \<Rightarrow> Inr (RenewOk (lease_epoch l)) | None \<Rightarrow> Inl ''unexpected'')
          else (case lease of
                  None \<Rightarrow> Inr NeedsReacquire
                | Some l \<Rightarrow> if owner_guest_id l = seat then Inr NeedsReacquire
                            else Inr (RenewLost (Some (owner_guest_id l))))
      | LeaseError _ _ \<Rightarrow> Inr NeedsReacquire
      | _ \<Rightarrow> Inl ''unexpected'')"

definition telegram_release_outcome :: "LeaseResponse \<Rightarrow> string + unit" where
  "telegram_release_outcome resp =
     (case resp of LeaseSuccess _ \<Rightarrow> Inr () | LeaseError _ message \<Rightarrow> Inl message | _ \<Rightarrow> Inl ''unexpected'')"

type_synonym 'b send_request = "IpcLeaseRequest \<Rightarrow> 'b \<Rightarrow> (string + LeaseResponse) \<times> 'b"

text \<open>A request, and what the adapter makes of its response; a failed call is passed on.\<close>

definition ask :: "'b send_request \<Rightarrow> IpcLeaseRequest \<Rightarrow> (LeaseResponse \<Rightarrow> string + 'r) \<Rightarrow> 'b \<Rightarrow> (string + 'r) \<times> 'b" where
  "ask send q f b = (case send q b of (Inl err, b') \<Rightarrow> (Inl err, b') | (Inr resp, b') \<Rightarrow> (f resp, b'))"

definition TelegramLeaseBackend ::
  "'b send_request \<Rightarrow> string \<Rightarrow> string \<Rightarrow> string \<Rightarrow> string \<Rightarrow> 'b LeaseBackend" where
  "TelegramLeaseBackend send key agent resource seat =
     \<lparr>be_acquire = ask send (AcquireTelegramPollLease key agent (Some resource)) telegram_acquire_outcome,
      be_renew = (\<lambda>e. ask send (RenewTelegramPollLease key agent (Some resource) e) (telegram_renew_outcome seat)),
      be_release = ask send (ReleaseTelegramPollLease key) telegram_release_outcome\<rparr>"

definition map_acquire_response :: "LeaseResponse \<Rightarrow> string + BackendAcquireOutcome" where
  "map_acquire_response resp =
     (case resp of
        LeaseReply tag granted lease \<Rightarrow>
          if \<not> poll_reply tag then Inl ''unexpected''
          else if granted
          then (case lease of Some l \<Rightarrow> Inr (BackendGranted (lease_epoch l)) | None \<Rightarrow> Inl ''unexpected'')
          else (case lease of
                  Some l \<Rightarrow> Inr (BackendHeld (Some (owner_guest_id l)) (lease_epoch l))
                | None \<Rightarrow> Inr (BackendHeld None 0))
      | _ \<Rightarrow> Inl ''unexpected'')"

definition map_renew_response :: "LeaseResponse \<Rightarrow> string + LeaseRenewResult" where
  "map_renew_response resp =
     (case resp of
        LeaseReply tag granted lease \<Rightarrow>
          if \<not> poll_reply tag then Inl ''unexpected''
          else if granted
          then (case lease of Some l \<Rightarrow> Inr (RenewOk (lease_epoch l)) | None \<Rightarrow> Inl ''unexpected'')
          else (case lease of
                  None \<Rightarrow> Inr NeedsReacquire
                | Some l \<Rightarrow> Inr (RenewLost (Some (owner_guest_id l))))
      | _ \<Rightarrow> Inl ''unexpected'')"

definition DiscordLeaseBackend :: "'b send_request \<Rightarrow> string \<Rightarrow> string \<Rightarrow> 'b LeaseBackend" where
  "DiscordLeaseBackend send key agent =
     \<lparr>be_acquire = ask send (AcquireDiscordGatewayLease key agent) map_acquire_response,
      be_renew = (\<lambda>e. ask send (RenewDiscordGatewayLease key agent e) map_renew_response),
      be_release = ask send (ReleaseDiscordGatewayLease key) (\<lambda>_. Inr ())\<rparr>"

text \<open>\<open>DiscordGatewayLease::acquire\<close>: the first tick of a fresh driver, or a failure.\<close>

definition DiscordGatewayLease_acquire ::
  "'b LeaseBackend \<Rightarrow> nat \<Rightarrow> 'b \<Rightarrow> ((string + LeaseDriver) \<times> 'b) option" where
  "DiscordGatewayLease_acquire be now b =
     map_option (\<lambda>(ev, d, b'). (case ev of
          EvAcquired _ \<Rightarrow> Inr d
        | EvLost _ \<Rightarrow> Inl ''denied''
        | EvBackingOff _ err \<Rightarrow> Inl err
        | _ \<Rightarrow> Inl ''unexpected'', b'))
      (tick be now (LeaseDriver_new LeaseDriverConfig_default now) b)"

subsection \<open>A seat and its hotel\<close>

text \<open>The seat's connection to the hotel. Each call delivers its request and reply, loses the
  request, or loses the reply after the hotel has acted on it; what the hotel reads when it serves the
  request comes with the call.\<close>

datatype delivery = Delivered | RequestLost | ReplyLost

type_synonym wire = "(delivery \<times> served) list \<times> hotel_leases"

definition hotel_send :: "conn \<Rightarrow> string \<Rightarrow> wire send_request" where
  "hotel_send c guest q w =
     (case w of
        ([], h) \<Rightarrow> (Inl ''closed'', w)
      | ((RequestLost, _) # rest, h) \<Rightarrow> (Inl ''timeout'', (rest, h))
      | ((ReplyLost, x) # rest, h) \<Rightarrow>
          (Inl ''timeout'', (rest, snd (process_lease_request (x\<lparr>sv_conn := c, sv_identity := Some guest\<rparr>) q h)))
      | ((Delivered, x) # rest, h) \<Rightarrow>
          (case process_lease_request (x\<lparr>sv_conn := c, sv_identity := Some guest\<rparr>) q h of
             (r, h') \<Rightarrow> (Inr r, (rest, h'))))"

subsection \<open>Timing: every tick returns, and its schedule stays within bounds\<close>

definition config_ok :: "LeaseDriverConfig \<Rightarrow> bool" where
  "config_ok cfg \<longleftrightarrow> backoff_initial cfg \<le> backoff_max cfg"

definition driver_ok :: "LeaseDriver \<Rightarrow> bool" where
  "driver_ok d \<longleftrightarrow> config_ok (config d) \<and> backoff_initial (config d) \<le> backoff d \<and> backoff d \<le> backoff_max (config d)"

definition event_epoch :: "LeaseEvent \<Rightarrow> nat option" where
  "event_epoch ev = (case ev of EvAcquired e \<Rightarrow> Some e | EvRenewed e \<Rightarrow> Some e | EvReacquired e \<Rightarrow> Some e | _ \<Rightarrow> None)"

lemmas driver_defs = driver_ok_def config_ok_def event_epoch_def next_deadline_def is_held_def epoch_def

lemma next_backoff_some:
  "config_ok cfg \<Longrightarrow> \<exists>nb. next_backoff x cfg = Some nb \<and> backoff_initial cfg \<le> nb \<and> nb \<le> backoff_max cfg"
  by (auto simp: next_backoff_def clamp_def config_ok_def)

text \<open>What one attempt or tick leaves behind, by the event it reports.\<close>

definition tick_post :: "nat \<Rightarrow> LeaseDriver \<Rightarrow> 'b \<Rightarrow> LeaseEvent \<times> LeaseDriver \<times> 'b \<Rightarrow> bool" where
  "tick_post now d b out \<longleftrightarrow> (case out of (ev, d', b') \<Rightarrow>
     driver_ok d' \<and> config d' = config d \<and> online d' = online d
     \<and> (case ev of
          EvIdle \<Rightarrow> d' = d \<and> b' = b
        | EvOffline \<Rightarrow> d' = d \<and> b' = b
        | EvLost owner \<Rightarrow> phase d' = Lost owner \<and> next_deadline d' = None
        | EvBackingOff r _ \<Rightarrow> r = backoff d \<and> next_deadline d' = Some (now + r) \<and> \<not> is_held d'
        | _ \<Rightarrow> epoch d' = event_epoch ev \<and> last_success d' = Some now
               \<and> next_deadline d' = Some (now + renew_interval (config d))
               \<and> backoff d' = backoff_initial (config d)))"

lemma on_success_post:
  "driver_ok d \<Longrightarrow> online d \<Longrightarrow> event_epoch ev = Some e \<Longrightarrow> tick_post now d b (ev, on_success e now d, b')"
  by (auto simp: tick_post_def on_success_def driver_defs split: LeaseEvent.splits)

lemma lost_post: "driver_ok d \<Longrightarrow> tick_post now d b (EvLost ow, d\<lparr>phase := Lost ow\<rparr>, b')"
  by (simp add: tick_post_def driver_defs)

lemma do_acquire_post:
  assumes "driver_ok d" "online d"
  shows "\<exists>out. do_acquire be now re d b0 = Some out \<and> tick_post now d b out"
proof -
  obtain r b' where a: "be_acquire be b0 = (r, b')" by fastforce
  show ?thesis
  proof (cases r)
    case (Inl err)
    obtain nb where nb: "next_backoff (backoff d) (config d) = Some nb"
        "backoff_initial (config d) \<le> nb" "nb \<le> backoff_max (config d)"
      using next_backoff_some assms(1) unfolding driver_ok_def by blast
    then show ?thesis
      using assms by (auto simp: do_acquire_def a Inl tick_post_def driver_defs)
  next
    case (Inr g)
    show ?thesis
    proof (cases g)
      case (BackendGranted e)
      have "event_epoch (if re then EvReacquired e else EvAcquired e) = Some e" by (simp add: event_epoch_def)
      from on_success_post [OF assms this, of now b b'] show ?thesis
        by (cases re) (simp_all add: do_acquire_def a Inr BackendGranted)
    next
      case (BackendHeld ow e)
      then show ?thesis using lost_post [OF assms(1)] by (simp add: do_acquire_def a Inr)
    qed
  qed
qed

lemma tick_post:
  assumes "driver_ok d"
  shows "\<exists>out. tick be now d b = Some out \<and> tick_post now d b out"
proof (cases "online d \<and> next_attempt d \<le> now")
  case False
  then show ?thesis using assms by (auto simp: tick_def tick_post_def driver_defs split: Phase.splits)
next
  case True
  then have due: "online d" "\<not> now < next_attempt d" by simp_all
  note acq = do_acquire_post [OF assms due(1), where b = b and now = now and be = be]
  show ?thesis
  proof (cases "phase d")
    case (Held e)
    obtain r b' where re: "be_renew be e b = (r, b')" by fastforce
    have "event_epoch (EvRenewed x) = Some x" for x by (simp add: event_epoch_def)
    note ok = on_success_post [OF assms due(1) this]
    show ?thesis
      using acq ok lost_post [OF assms] due
      by (cases r; cases "projr r") (auto simp: tick_def Held re split: option.splits)
  qed (use assms acq due in \<open>auto simp: tick_def tick_post_def driver_defs\<close>)
qed

subsection \<open>What an event says about the other side\<close>

text \<open>A backend is sound when its grants and renewals are true of the service behind it: afterwards the
  seat owns the lease at the epoch it is told. The driver adds nothing to what its backend reports.\<close>

locale sound_backend =
  fixes be :: "'b LeaseBackend"
    and good :: "'b \<Rightarrow> bool"
    and owns :: "'b \<Rightarrow> nat \<Rightarrow> bool"
  assumes acquire_good: "good b \<Longrightarrow> be_acquire be b = (r, b') \<Longrightarrow> good b'"
    and acquire_owns: "good b \<Longrightarrow> be_acquire be b = (Inr (BackendGranted e), b') \<Longrightarrow> owns b' e"
    and renew_good: "good b \<Longrightarrow> be_renew be x b = (r', b') \<Longrightarrow> good b'"
    and renew_owns: "good b \<Longrightarrow> be_renew be x b = (Inr (RenewOk e), b') \<Longrightarrow> owns b' e"
begin

lemma do_acquire_sound:
  assumes "good b" "do_acquire be now re d b = Some (ev, d', b')"
  shows "good b' \<and> (case event_epoch ev of None \<Rightarrow> True | Some e \<Rightarrow> owns b' e)"
proof -
  obtain r b1 where a: "be_acquire be b = (r, b1)" by fastforce
  have "b' = b1" "\<And>e. event_epoch ev = Some e \<Longrightarrow> r = Inr (BackendGranted e)"
    using assms(2)
    by (auto simp: do_acquire_def a event_epoch_def
        split: sum.splits BackendAcquireOutcome.splits option.splits if_splits)
  then show ?thesis
    using acquire_good [OF assms(1) a] acquire_owns [OF assms(1)] a by (auto split: option.splits)
qed

lemma tick_sound:
  assumes "good b" "tick be now d b = Some (ev, d', b')"
  shows "good b' \<and> (case event_epoch ev of None \<Rightarrow> True | Some e \<Rightarrow> owns b' e)"
proof (cases "\<exists>e. phase d = Held e \<and> online d \<and> next_attempt d \<le> now
    \<and> (case last_success d of Some t \<Rightarrow> \<not> cfg_ttl (config d) < now - t | None \<Rightarrow> False)")
  case True
  then obtain e where held: "phase d = Held e" "online d" "next_attempt d \<le> now"
    "(case last_success d of Some t \<Rightarrow> \<not> cfg_ttl (config d) < now - t | None \<Rightarrow> False)" by blast
  obtain r b1 where a: "be_renew be e b = (r, b1)" by fastforce
  note g1 = renew_good [OF assms(1) a]
  have t: "tick be now d b =
     (case r of Inr (RenewOk e') \<Rightarrow> Some (EvRenewed e', on_success e' now d, b1)
      | Inr NeedsReacquire \<Rightarrow> do_acquire be now True d b1
      | Inr (RenewLost ow) \<Rightarrow> Some (EvLost ow, d\<lparr>phase := Lost ow\<rparr>, b1)
      | Inl _ \<Rightarrow> do_acquire be now True d b1)"
    using held by (auto simp: tick_def a split: option.splits sum.splits LeaseRenewResult.splits)
  show ?thesis
    using assms(2) a g1 renew_owns [OF assms(1)] do_acquire_sound [OF g1]
    unfolding t by (auto simp: event_epoch_def split: sum.splits LeaseRenewResult.splits)
next
  case False
  then have "(ev, d', b') = (ev, d, b) \<and> event_epoch ev = None
      \<or> (\<exists>re. do_acquire be now re d b = Some (ev, d', b'))"
    using assms(2) by (auto simp: tick_def event_epoch_def split: Phase.splits if_splits option.splits)
  then show ?thesis using assms(1) do_acquire_sound [OF assms(1)] by auto
qed

end

subsection \<open>The seats are sound\<close>

definition wire_good :: "lease_transport \<Rightarrow> wire \<Rightarrow> bool" where
  "wire_good t w \<longleftrightarrow> registry_ok (registry_of t (snd w))
     \<and> (\<forall>k. epoch_of (registry_of t (snd w)) k + length (fst w) \<le> u64_max)"

lemma wire_good_room: "wire_good t w \<longleftrightarrow> hotel.room t (length (fst w)) (snd w)"
  by (simp add: wire_good_def hotel.room_def)

lemma hotel_send_good:
  assumes "wire_good t w" "hotel_send c guest q w = (r, w')"
  shows "wire_good t w'"
proof (cases "fst w")
  case Nil
  then show ?thesis using assms by (cases w) (simp add: hotel_send_def)
next
  case (Cons y rest)
  obtain dl x h where w: "w = ((dl, x) # rest, h)" using Cons by (cases w; cases y) simp
  let ?in = "Request (x\<lparr>sv_conn := c, sv_identity := Some guest\<rparr>) q"
  have room: "hotel.room t (Suc (length rest)) h" using assms(1) by (simp add: wire_good_room w)
  obtain rr h' where sv: "hotel_serve ?in h = (rr, h')" by fastforce
  have "hotel.room t (length rest) h'" by (rule hotel.serve_one(2) [OF room sv])
  moreover have "hotel.room t (length rest) h" using room unfolding hotel.room_def by (blast intro: le_trans [OF add_le_mono1] le_trans [OF add_left_mono [OF le_SucI [OF order_refl]]])
  moreover have "w' = (rest, h) \<or> w' = (rest, h')"
    using assms(2) sv by (cases dl) (auto simp: hotel_send_def w split: prod.splits)
  ultimately show ?thesis by (auto simp: wire_good_room)
qed

lemma hotel_send_granted:
  assumes "wire_good t w" "hotel_send c guest q w = (Inr resp, w')"
    and "target_of q = (t, key)" "granted_epoch resp = Some e"
  shows "holder (registry_of t (snd w')) key = Some (c, e)"
proof -
  obtain x rest h where w: "w = ((Delivered, x) # rest, h)"
    and p: "process_lease_request (x\<lparr>sv_conn := c, sv_identity := Some guest\<rparr>) q h = (resp, snd w')"
    using assms(2) by (auto simp: hotel_send_def split: prod.splits list.splits delivery.splits)
  have "registry_ok (registry_of t h)" using assms(1) by (simp add: wire_good_def w)
  then show ?thesis
    using process_lawful [OF assms(3), of "x\<lparr>sv_conn := c, sv_identity := Some guest\<rparr>" h] assms(4)
    by (simp add: p lawful_def)
qed

lemma ask_good: "wire_good t w \<Longrightarrow> ask (hotel_send c guest) q f w = (r, w') \<Longrightarrow> wire_good t w'"
  by (auto simp: ask_def split: prod.splits sum.splits dest: hotel_send_good)

lemma ask_granted:
  assumes "wire_good t w" "ask (hotel_send c guest) q f w = (Inr out, w')" "target_of q = (t, key)"
    and "\<And>resp. f resp = Inr out \<Longrightarrow> granted_epoch resp = Some e"
  shows "holder (registry_of t (snd w')) key = Some (c, e)"
  using assms(2) hotel_send_granted [OF assms(1) _ assms(3)] assms(4)
  by (auto simp: ask_def split: prod.splits sum.splits)

lemma adapters_report_grants:
  "telegram_acquire_outcome resp = Inr (BackendGranted e) \<Longrightarrow> granted_epoch resp = Some e"
  "telegram_renew_outcome seat resp = Inr (RenewOk e) \<Longrightarrow> granted_epoch resp = Some e"
  "map_acquire_response resp = Inr (BackendGranted e) \<Longrightarrow> granted_epoch resp = Some e"
  "map_renew_response resp = Inr (RenewOk e) \<Longrightarrow> granted_epoch resp = Some e"
  by (auto simp: telegram_acquire_outcome_def telegram_renew_outcome_def map_acquire_response_def
      map_renew_response_def split: LeaseResponse.splits if_splits option.splits)

interpretation telegram_seat: sound_backend
  "TelegramLeaseBackend (hotel_send c guest) key agent resource seat" "wire_good Telegram"
  "\<lambda>w e. holder (telegram_poll_leases (snd w)) key = Some (c, e)" for c guest key agent resource seat
proof (unfold_locales, goal_cases)
  case (2 b e b')
  then have "ask (hotel_send c guest) (AcquireTelegramPollLease key agent (Some resource)) telegram_acquire_outcome b = (Inr (BackendGranted e), b')"
    by (simp add: TelegramLeaseBackend_def)
  from ask_granted [OF 2(1) this _ adapters_report_grants(1)] show ?case by simp
next
  case (4 b x e b')
  then have "ask (hotel_send c guest) (RenewTelegramPollLease key agent (Some resource) x) (telegram_renew_outcome seat) b = (Inr (RenewOk e), b')"
    by (simp add: TelegramLeaseBackend_def)
  from ask_granted [OF 4(1) this _ adapters_report_grants(2)] show ?case by simp
qed (simp_all add: TelegramLeaseBackend_def ask_good)

interpretation discord_seat: sound_backend
  "DiscordLeaseBackend (hotel_send c guest) key agent" "wire_good Discord"
  "\<lambda>w e. holder (discord_gateway_leases (snd w)) key = Some (c, e)" for c guest key agent
proof (unfold_locales, goal_cases)
  case (2 b e b')
  then have "ask (hotel_send c guest) (AcquireDiscordGatewayLease key agent) map_acquire_response b = (Inr (BackendGranted e), b')"
    by (simp add: DiscordLeaseBackend_def)
  from ask_granted [OF 2(1) this _ adapters_report_grants(3)] show ?case by simp
next
  case (4 b x e b')
  then have "ask (hotel_send c guest) (RenewDiscordGatewayLease key agent x) map_renew_response b = (Inr (RenewOk e), b')"
    by (simp add: DiscordLeaseBackend_def)
  from ask_granted [OF 4(1) this _ adapters_report_grants(4)] show ?case by simp
qed (simp_all add: DiscordLeaseBackend_def ask_good)

subsection \<open>The error schedule\<close>

text \<open>The driver ticked at its deadlines, \<open>n\<close> times.\<close>

fun run_deadlines :: "'b LeaseBackend \<Rightarrow> nat \<Rightarrow> LeaseDriver \<Rightarrow> 'b \<Rightarrow> (LeaseDriver \<times> 'b) option" where
  "run_deadlines be 0 d b = Some (d, b)"
| "run_deadlines be (Suc n) d b =
     (case run_deadlines be n d b of
        None \<Rightarrow> None
      | Some (d', b') \<Rightarrow> map_option (\<lambda>(ev, d'', b''). (d'', b'')) (tick be (next_attempt d') d' b'))"

lemma next_backoff_doubles:
  assumes "config_ok cfg" "backoff_max cfg \<le> duration_max"
  shows "next_backoff (min (backoff_initial cfg * 2 ^ n) (backoff_max cfg)) cfg
    = Some (min (backoff_initial cfg * 2 ^ Suc n) (backoff_max cfg))"
proof -
  have "backoff_initial cfg \<le> backoff_initial cfg * 2 ^ n" by simp
  then show ?thesis using assms by (auto simp: next_backoff_def clamp_def config_ok_def min_def)
qed

lemma run_failing:
  assumes "config_ok cfg" "backoff_max cfg \<le> duration_max" "\<And>b. \<exists>err b'. be_acquire be b = (Inl err, b')"
  shows "\<exists>d b'. run_deadlines be n (LeaseDriver_new cfg now) b = Some (d, b')
    \<and> phase d = Acquiring False \<and> online d \<and> config d = cfg
    \<and> backoff d = min (backoff_initial cfg * 2 ^ n) (backoff_max cfg)
    \<and> next_attempt d = now + (\<Sum>k<n. min (backoff_initial cfg * 2 ^ k) (backoff_max cfg))"
proof (induction n)
  case 0
  then show ?case using assms(1) by (simp add: LeaseDriver_new_def config_ok_def)
next
  case (Suc n)
  then obtain d b' where d: "run_deadlines be n (LeaseDriver_new cfg now) b = Some (d, b')"
    "phase d = Acquiring False" "online d" "config d = cfg"
    "backoff d = min (backoff_initial cfg * 2 ^ n) (backoff_max cfg)"
    "next_attempt d = now + (\<Sum>k<n. min (backoff_initial cfg * 2 ^ k) (backoff_max cfg))" by blast
  obtain err b'' where a: "be_acquire be b' = (Inl err, b'')" using assms(3) by blast
  have "tick be (next_attempt d) d b' = Some (EvBackingOff (backoff d) err,
      d\<lparr>phase := Acquiring False, next_attempt := next_attempt d + backoff d,
        backoff := min (backoff_initial cfg * 2 ^ Suc n) (backoff_max cfg)\<rparr>, b'')"
    using next_backoff_doubles [OF assms(1,2), of n] by (simp add: tick_def d(2-5) do_acquire_def a)
  then show ?case by (simp add: d add.assoc)
qed

subsection \<open>Theorems\<close>

text \<open>C9. A seat's belief is the hotel's record. When a Telegram seat's tick reports that it acquired,
  renewed or re-acquired its lease at epoch \<open>e\<close>, the hotel's registry names this connection and that
  epoch as the holder of the key at that moment, whatever requests and replies the connection lost on
  the way, whatever the driver's state was before, and whatever the agent graph and clock said when
  the hotel served it; and the driver holds exactly that epoch until its next renewal.\<close>

theorem telegram_seat_truthful:
  assumes "wire_good Telegram w" "driver_ok d"
    and "tick (TelegramLeaseBackend (hotel_send c guest) key agent resource seat) now d w = Some (ev, d', w')"
    and "event_epoch ev = Some e"
  shows "holder (telegram_poll_leases (snd w')) key = Some (c, e) \<and> epoch d' = Some e
    \<and> next_deadline d' = Some (now + renew_interval (config d))"
proof -
  have "tick_post now d w (ev, d', w')" using tick_post [OF assms(2), of "TelegramLeaseBackend (hotel_send c guest) key agent resource seat" now w]
    assms(3) by simp
  then have "epoch d' = Some e \<and> next_deadline d' = Some (now + renew_interval (config d))"
    using assms(4) by (cases ev) (simp_all add: tick_post_def event_epoch_def)
  then show ?thesis
    using telegram_seat.tick_sound [OF assms(1,3)] assms(4) by simp
qed

text \<open>Starting a Discord seat succeeds only with the lease: when the first tick of a fresh driver
  lets the seat start, the hotel's registry names this connection as the holder of the gateway key, at
  the epoch the driver keeps.\<close>

theorem discord_seat_starts_with_lease:
  assumes "wire_good Discord w"
    and "DiscordGatewayLease_acquire (DiscordLeaseBackend (hotel_send c guest) key agent) now w = Some (Inr d, w')"
  shows "\<exists>e. epoch d = Some e \<and> holder (discord_gateway_leases (snd w')) key = Some (c, e)"
proof -
  let ?be = "DiscordLeaseBackend (hotel_send c guest) key agent"
  let ?d0 = "LeaseDriver_new LeaseDriverConfig_default now"
  obtain ev d1 w1 where t1: "tick ?be now ?d0 w = Some (ev, d1, w1)"
    using assms(2) by (cases "tick ?be now ?d0 w") (auto simp: DiscordGatewayLease_acquire_def)
  then obtain e where t: "tick ?be now ?d0 w = Some (EvAcquired e, d, w')"
    using assms(2) by (cases ev) (simp_all add: DiscordGatewayLease_acquire_def)
  have "driver_ok ?d0"
    by (simp add: driver_ok_def config_ok_def LeaseDriver_new_def LeaseDriverConfig_default_def secs_def)
  from tick_post [OF this, of ?be now w] t have "epoch d = Some e"
    by (auto simp: tick_post_def event_epoch_def)
  then show ?thesis
    using discord_seat.tick_sound [OF assms(1) t] by (simp add: event_epoch_def)
qed

text \<open>Every tick returns and keeps the schedule. With \<open>backoff_initial \<le> backoff_max\<close> no backend
  behaviour makes a tick panic: an idle or offline tick touches neither driver nor backend; a lost lease
  is terminal and schedules nothing; an error is retried after the current delay, which stays within
  its bounds; a success resets the delay and schedules the next renewal.\<close>

theorem tick_contract:
  assumes "driver_ok d"
  shows "\<exists>ev d' b'. tick be now d b = Some (ev, d', b') \<and> driver_ok d' \<and> config d' = config d
    \<and> (case ev of
         EvIdle \<Rightarrow> d' = d \<and> b' = b
       | EvOffline \<Rightarrow> d' = d \<and> b' = b
       | EvLost owner \<Rightarrow> phase d' = Lost owner \<and> next_deadline d' = None
       | EvBackingOff r _ \<Rightarrow> r = backoff d \<and> r \<le> backoff_max (config d) \<and> next_deadline d' = Some (now + r)
       | _ \<Rightarrow> epoch d' = event_epoch ev \<and> backoff d' = backoff_initial (config d)
              \<and> next_deadline d' = Some (now + renew_interval (config d)))"
proof -
  obtain ev d' b' where "tick be now d b = Some (ev, d', b')" "tick_post now d b (ev, d', b')"
    using tick_post [OF assms] by (metis prod_cases3)
  moreover have "backoff d \<le> backoff_max (config d)" using assms by (simp add: driver_ok_def)
  ultimately show ?thesis using assms by (cases ev) (simp_all add: tick_post_def)
qed

text \<open>The error schedule is the documented one. While every acquire fails, the \<open>n\<close>-th retry waits
  \<open>min (initial * 2^n) max\<close>, counted from the attempt before it; no tick panics on the way, and the
  driver is still trying.\<close>

theorem backoff_schedule:
  assumes "backoff_initial cfg \<le> backoff_max cfg" "backoff_max cfg \<le> duration_max"
    and "\<And>b. \<exists>err b'. be_acquire be b = (Inl err, b')"
  shows "\<exists>d b'. run_deadlines be n (LeaseDriver_new cfg now) b = Some (d, b')
    \<and> next_deadline d = Some (now + (\<Sum>k<n. min (backoff_initial cfg * 2 ^ k) (backoff_max cfg)))
    \<and> backoff d = min (backoff_initial cfg * 2 ^ n) (backoff_max cfg)"
proof -
  have "config_ok cfg" using assms(1) by (simp add: config_ok_def)
  from run_failing [where be = be and b = b, OF this assms(2,3)] show ?thesis
    by (force simp: next_deadline_def)
qed

text \<open>The driver is silent when it should be. Lost, released, offline or early, a tick makes no call
  at all: its result is the same for every backend, and nothing changes; and when more than the TTL has
  passed since the last success (the machine slept), the stale epoch is not renewed: the result does not
  depend on what a renewal would answer.\<close>

theorem tick_ipc_discipline:
  "(is_lost d \<or> phase d = Released \<or> \<not> online d \<or> now < next_attempt d \<longrightarrow>
      (\<exists>ev. (\<forall>be b. tick be now d b = Some (ev, d, b)) \<and> event_epoch ev = None))
   \<and> ((case last_success d of Some t \<Rightarrow> cfg_ttl (config d) < now - t | None \<Rightarrow> True) \<longrightarrow>
      tick (be\<lparr>be_renew := f\<rparr>) now d b = tick be now d b)"
proof
  show "is_lost d \<or> phase d = Released \<or> \<not> online d \<or> now < next_attempt d \<longrightarrow>
      (\<exists>ev. (\<forall>be b. tick be now d b = Some (ev, d, b)) \<and> event_epoch ev = None)"
    by (cases "phase d"; cases "online d") (auto simp: tick_def is_lost_def event_epoch_def)
  show "(case last_success d of Some t \<Rightarrow> cfg_ttl (config d) < now - t | None \<Rightarrow> True) \<longrightarrow>
      tick (be\<lparr>be_renew := f\<rparr>) now d b = tick be now d b"
    by (cases "phase d") (simp_all add: tick_def do_acquire_def)
qed

subsubsection \<open>Instances\<close>

definition demo_wire :: wire where
  "demo_wire = ([(Delivered, demo_served 0 100)], hotel_leases_new)"

definition demo_driver :: LeaseDriver where
  "demo_driver = LeaseDriver_new LeaseDriverConfig_default 5"

lemma demo_wire_good: "wire_good t demo_wire"
  by (simp add: wire_good_room demo_wire_def hotel_new_room)

lemma demo_driver_ok: "driver_ok demo_driver"
  by (simp add: demo_driver_def driver_ok_def config_ok_def LeaseDriver_new_def LeaseDriverConfig_default_def secs_def)

theorem telegram_seat_truthful_witness:
  "\<exists>d' w'. tick (TelegramLeaseBackend (hotel_send 1 ''g'') ''bot'' ''ana'' ''res'' ''g'') 5 demo_driver demo_wire
       = Some (EvAcquired 1, d', w')
     \<and> holder (telegram_poll_leases (snd w')) ''bot'' = Some (1, 1)"
proof -
  have "\<exists>d' w'. tick (TelegramLeaseBackend (hotel_send 1 ''g'') ''bot'' ''ana'' ''res'' ''g'') 5 demo_driver demo_wire
       = Some (EvAcquired 1, d', w')"
    by (simp add: tick_def demo_driver_def LeaseDriver_new_def do_acquire_def TelegramLeaseBackend_def ask_def
        hotel_send_def demo_wire_def demo_served_def handle_acquire_telegram_poll_lease_def telegram_authority_def
        demo_graph_def tbl_get_def local_hotel_name_def hotel_may_poll_transport_home_def hotel_may_poll_for_agent_def
        drop_stale_poll_lease_def drop_if_stale_def hotel_leases_new_def registry_default_def acquire_def
        telegram_poll_lease_def poll_candidate_def epoch_of_def u64_add_def telegram_acquire_outcome_def poll_reply_def Let_def)
  then obtain d' w' where t: "tick (TelegramLeaseBackend (hotel_send 1 ''g'') ''bot'' ''ana'' ''res'' ''g'') 5
      demo_driver demo_wire = Some (EvAcquired 1, d', w')" by blast
  from telegram_seat_truthful [OF demo_wire_good demo_driver_ok t, of 1] t show ?thesis
    by (simp add: event_epoch_def)
qed

theorem discord_seat_starts_with_lease_witness:
  "\<exists>d w' e. DiscordGatewayLease_acquire (DiscordLeaseBackend (hotel_send 1 ''g'') ''gw'' ''ana'') 5 demo_wire
       = Some (Inr d, w') \<and> holder (discord_gateway_leases (snd w')) ''gw'' = Some (1, e)"
proof -
  have "\<exists>d w'. DiscordGatewayLease_acquire (DiscordLeaseBackend (hotel_send 1 ''g'') ''gw'' ''ana'') 5 demo_wire
       = Some (Inr d, w')"
    by (simp add: DiscordGatewayLease_acquire_def tick_def LeaseDriver_new_def do_acquire_def DiscordLeaseBackend_def
        ask_def hotel_send_def demo_wire_def demo_served_def handle_acquire_discord_gateway_lease_def discord_authority_def
        demo_graph_def tbl_get_def local_hotel_name_def hotel_may_poll_for_agent_def
        drop_stale_poll_lease_def drop_if_stale_def hotel_leases_new_def registry_default_def acquire_def
        discord_gateway_lease_def poll_candidate_def epoch_of_def u64_add_def map_acquire_response_def poll_reply_def Let_def)
  then obtain d w' where t: "DiscordGatewayLease_acquire (DiscordLeaseBackend (hotel_send 1 ''g'') ''gw'' ''ana'') 5
      demo_wire = Some (Inr d, w')" by blast
  from discord_seat_starts_with_lease [OF demo_wire_good t] t show ?thesis by blast
qed

definition dead_backend :: "nat LeaseBackend" where
  "dead_backend = \<lparr>be_acquire = (\<lambda>n. (Inl ''down'', Suc n)), be_renew = (\<lambda>_ n. (Inl ''down'', Suc n)),
     be_release = (\<lambda>n. (Inl ''down'', Suc n))\<rparr>"

theorem tick_contract_witness:
  "\<exists>ev d' b'. tick dead_backend 7 demo_driver 0 = Some (ev, d', b') \<and> driver_ok d' \<and> config d' = config demo_driver"
  using tick_contract [OF demo_driver_ok, of dead_backend 7 0] by blast

theorem backoff_schedule_witness:
  "\<exists>d b'. run_deadlines dead_backend 12 (LeaseDriver_new LeaseDriverConfig_default 0) 0 = Some (d, b')
     \<and> backoff d = secs 600"
proof -
  let ?cfg = LeaseDriverConfig_default
  have "backoff_initial ?cfg \<le> backoff_max ?cfg" "backoff_max ?cfg \<le> duration_max"
    by (simp_all add: LeaseDriverConfig_default_def secs_def duration_max_def)
  moreover have "\<exists>err b'. be_acquire dead_backend b = (Inl err, b')" for b by (simp add: dead_backend_def)
  ultimately have "\<exists>d b'. run_deadlines dead_backend 12 (LeaseDriver_new ?cfg 0) 0 = Some (d, b')
      \<and> backoff d = min (backoff_initial ?cfg * 2 ^ 12) (backoff_max ?cfg)"
    using backoff_schedule [of ?cfg dead_backend 12 0 0] by blast
  then show ?thesis by (simp add: LeaseDriverConfig_default_def secs_def)
qed

theorem tick_ipc_discipline_witness:
  "\<exists>ev. tick dead_backend 3 demo_driver 0 = Some (ev, demo_driver, 0)"
proof -
  have "is_lost demo_driver \<or> phase demo_driver = Released \<or> \<not> online demo_driver \<or> 3 < next_attempt demo_driver"
    by (simp add: demo_driver_def LeaseDriver_new_def)
  from mp [OF conjunct1 [OF tick_ipc_discipline [where be = dead_backend]] this]
  obtain ev where "\<forall>(be :: nat LeaseBackend) b. tick be 3 demo_driver b = Some (ev, demo_driver, b)" by (elim exE conjE)
  then have "tick dead_backend 3 demo_driver 0 = Some (ev, demo_driver, 0)" by (elim allE)
  then show ?thesis by (rule exI)
qed

end
