(* ===== verification/Subagents.thy ===== *)
theory Subagents
  imports LeaseService
begin

section \<open>Subagent leases\<close>

text \<open>
  Models the subagent half of \<^verbatim>\<open>crates/aiua/src/service/lease_handlers.rs\<close> and its requests in
  \<^verbatim>\<open>ipc.rs\<close>: spawning a worker on behalf of a persona agent, assigning it a task, renewing, accepting,
  releasing and aborting its lease, and routing its hooks. The state is the subagent registry, the hook
  registry, the guest rows the requests touch, and the tasks handed to \<open>deliver_inbound_task\<close> (role, guest,
  contents), whose onward delivery is I/O. The materialisation request and its outcome change nothing
  here. Fresh ids are arguments; so is whether a graph write succeeds.
\<close>

subsection \<open>Data\<close>

datatype HookKind = Progress | TurnStarted | ToolCallHook | TurnCompleted | ApprovalNeeded

datatype HookRoute = PersonaAgent | RoleRoute string | Discard

record HookSubscription =
  hook_kind :: HookKind
  hook_route :: HookRoute
  handler_skill :: "string option"

record SubagentDelegation =
  subagent_kind :: string
  lease_ttl_seconds :: nat
  hook_subscriptions :: "HookSubscription list"
  completion_route :: HookRoute
  failure_route :: HookRoute
  delegation_body :: json

record SubagentHookRecord =
  hr_persona_guest_id :: string
  hr_persona_role :: string
  hr_hook_subscriptions :: "HookSubscription list"
  hr_completion_route :: HookRoute
  hr_failure_route :: HookRoute
  configured_ttl_secs :: nat

record SubagentGuest =
  sg_role :: string
  sg_parent :: string
  sg_session :: string
  sg_is_active :: bool

datatype subagent_task =
    SubagentSpawned string string nat nat
  | SubagentTask SubagentDelegation
  | SubagentHook string HookKind json

record subagent_state =
  sa_leases :: RuntimeLeaseRegistry
  sa_hooks :: "(string \<times> SubagentHookRecord) list"
  sa_guests :: "(string \<times> SubagentGuest) list"
  sa_tasks :: "(string \<times> string option \<times> subagent_task) list"

datatype SubagentResponse =
    SaError string string
  | SaSuccess string
  | SpawnSubagentOk string LeaseEnvelope
  | SubagentLeaseRenewed string nat nat

subsection \<open>Requests\<close>

definition subagent_lease_scope :: "string \<Rightarrow> string" where
  "subagent_lease_scope guest = ''subagent:'' @ guest"

definition subagent_lease_candidate :: "string \<Rightarrow> string \<Rightarrow> string \<Rightarrow> nat \<Rightarrow> LeaseEnvelope" where
  "subagent_lease_candidate node guest persona ttl =
     \<lparr>lease_type = ''subagent'', lease_scope = subagent_lease_scope guest, authority_hotel = node,
      authority_component = Some ''aiua'', owner_guest_id = guest, owner_hotel = Some node,
      owner_component_type = Some ''philote-worker'', lease_epoch = 0, lease_expires_at = 0,
      last_heartbeat_at = 0, lease_status = LeaseActive, delegated_from = Some persona,
      lease_metadata = JObj [(''persona_guest_id'', JStr persona), (''ttl_seconds'', JNum ttl)]\<rparr>"

definition hook_record :: "GuestIdentity \<Rightarrow> SubagentDelegation \<Rightarrow> SubagentHookRecord" where
  "hook_record ident dlg =
     \<lparr>hr_persona_guest_id = gi_guest_id ident, hr_persona_role = gi_role ident,
      hr_hook_subscriptions = hook_subscriptions dlg, hr_completion_route = completion_route dlg,
      hr_failure_route = failure_route dlg, configured_ttl_secs = lease_ttl_seconds dlg\<rparr>"

definition handle_spawn_subagent ::
  "string \<Rightarrow> conn \<Rightarrow> GuestIdentity \<Rightarrow> string \<Rightarrow> SubagentDelegation \<Rightarrow> string \<Rightarrow> bool \<Rightarrow> nat
   \<Rightarrow> subagent_state \<Rightarrow> SubagentResponse \<times> subagent_state" where
  "handle_spawn_subagent node c ident session dlg fresh seed_ok now s =
     (if \<not> seed_ok then (SaError ''spawn_subagent'' ''SUBAGENT_GUEST_REGISTER_FAILED'', s)
      else
        (let s1 = s\<lparr>sa_guests := tbl_put fresh
                      \<lparr>sg_role = subagent_kind dlg, sg_parent = gi_guest_id ident, sg_session = session,
                       sg_is_active = True\<rparr> (sa_guests s)\<rparr>;
             ttl = lease_ttl_seconds dlg
         in case acquire (sa_leases s1) c (subagent_lease_candidate node fresh (gi_guest_id ident) ttl) ttl now of
              (reg, Denied _, _) \<Rightarrow> (SaError ''spawn_subagent'' ''SUBAGENT_LEASE_DENIED'', s1\<lparr>sa_leases := reg\<rparr>)
            | (reg, Granted l, _) \<Rightarrow>
                (SpawnSubagentOk fresh l,
                 s1\<lparr>sa_leases := reg, sa_hooks := tbl_put fresh (hook_record ident dlg) (sa_hooks s1),
                    sa_tasks := sa_tasks s1 @ [(gi_role ident, Some (gi_guest_id ident),
                       SubagentSpawned fresh session (lease_epoch l) (lease_expires_at l))]\<rparr>)))"

definition subagent_renew_ttl_secs :: "SubagentHookRecord option \<Rightarrow> nat" where
  "subagent_renew_ttl_secs r = (case r of Some h \<Rightarrow> configured_ttl_secs h | None \<Rightarrow> 300)"

definition handle_renew_subagent_lease ::
  "conn \<Rightarrow> GuestIdentity option \<Rightarrow> string \<Rightarrow> nat \<Rightarrow> nat \<Rightarrow> subagent_state \<Rightarrow> SubagentResponse \<times> subagent_state" where
  "handle_renew_subagent_lease c ident guest e now s =
     (case ident of
        None \<Rightarrow> (SaError ''renew_subagent_lease'' ''SUBAGENT_UNREGISTERED'', s)
      | Some _ \<Rightarrow>
          (case renew (sa_leases s) (subagent_lease_scope guest) c e
                  (subagent_renew_ttl_secs (tbl_get (sa_hooks s) guest)) now of
             (reg, Renewed l, _) \<Rightarrow>
               (SubagentLeaseRenewed guest (lease_epoch l) (lease_expires_at l), s\<lparr>sa_leases := reg\<rparr>)
           | (reg, LeaseLost _, _) \<Rightarrow>
               (SaError ''renew_subagent_lease'' ''SUBAGENT_LEASE_LOST'', s\<lparr>sa_leases := reg\<rparr>)))"

definition set_guest_active :: "string \<Rightarrow> bool \<Rightarrow> (string \<times> SubagentGuest) list \<Rightarrow> (string \<times> SubagentGuest) list" where
  "set_guest_active guest flag t =
     (case tbl_get t guest of None \<Rightarrow> t | Some r \<Rightarrow> tbl_put guest (r\<lparr>sg_is_active := flag\<rparr>) t)"

definition handle_release_subagent ::
  "conn \<Rightarrow> string \<Rightarrow> bool \<Rightarrow> subagent_state \<Rightarrow> SubagentResponse \<times> subagent_state" where
  "handle_release_subagent c guest write_ok s =
     (SaSuccess ''release_subagent'',
      s\<lparr>sa_leases := fst (release (sa_leases s) (subagent_lease_scope guest) c),
        sa_hooks := tbl_del guest (sa_hooks s),
        sa_guests := (if write_ok then set_guest_active guest False (sa_guests s) else sa_guests s)\<rparr>)"

definition handle_accept_subagent_lease :: "string \<Rightarrow> subagent_state \<Rightarrow> SubagentResponse" where
  "handle_accept_subagent_lease guest s =
     (case inspect (sa_leases s) (subagent_lease_scope guest) of
        Some _ \<Rightarrow> SaSuccess ''accept_subagent_lease''
      | None \<Rightarrow> SaError ''accept_subagent_lease'' ''SUBAGENT_LEASE_NOT_FOUND'')"

definition deliver_hook_to_route ::
  "HookRoute \<Rightarrow> string \<Rightarrow> string \<Rightarrow> subagent_task \<Rightarrow> (string \<times> string option \<times> subagent_task) list" where
  "deliver_hook_to_route route persona_guest persona_role task =
     (case route of
        PersonaAgent \<Rightarrow> [(persona_role, Some persona_guest, task)]
      | RoleRoute role \<Rightarrow> [(role, None, task)]
      | Discard \<Rightarrow> [])"

datatype IpcSubagentRequest =
    SpawnSubagent string SubagentDelegation
  | AssignSubagentTask string nat SubagentDelegation
  | RenewSubagentLease string nat
  | ReleaseSubagent string
  | FireSubagentHook string HookKind json
  | AcceptSubagentLease string
  | AbortSubagentSpawn string

record subagent_call =
  sc_conn :: conn
  sc_identity :: "GuestIdentity option"
  sc_now :: nat
  sc_fresh :: string
  sc_write_ok :: bool
  sc_node :: string

fun process_subagent_request ::
  "subagent_call \<Rightarrow> IpcSubagentRequest \<Rightarrow> subagent_state \<Rightarrow> SubagentResponse \<times> subagent_state" where
  "process_subagent_request x (SpawnSubagent session dlg) s =
     (case sc_identity x of
        None \<Rightarrow> (SaError ''spawn_subagent'' ''SUBAGENT_UNREGISTERED'', s)
      | Some ident \<Rightarrow>
          if gi_role ident \<noteq> ''agent'' then (SaError ''spawn_subagent'' ''SUBAGENT_FORBIDDEN'', s)
          else handle_spawn_subagent (sc_node x) (sc_conn x) ident session dlg (sc_fresh x) (sc_write_ok x) (sc_now x) s)"
| "process_subagent_request x (AssignSubagentTask guest e dlg) s =
     (case sc_identity x of
        None \<Rightarrow> (SaError ''assign_subagent_task'' ''SUBAGENT_UNREGISTERED'', s)
      | Some _ \<Rightarrow>
          if (case inspect (sa_leases s) (subagent_lease_scope guest) of
                Some l \<Rightarrow> lease_epoch l = e \<and> is_active l | None \<Rightarrow> False)
          then (SaSuccess ''assign_subagent_task'',
                s\<lparr>sa_tasks := sa_tasks s @ [(subagent_kind dlg, Some guest, SubagentTask dlg)]\<rparr>)
          else (SaError ''assign_subagent_task'' ''SUBAGENT_LEASE_INVALID'', s))"
| "process_subagent_request x (RenewSubagentLease guest e) s =
     handle_renew_subagent_lease (sc_conn x) (sc_identity x) guest e (sc_now x) s"
| "process_subagent_request x (ReleaseSubagent guest) s =
     handle_release_subagent (sc_conn x) guest (sc_write_ok x) s"
| "process_subagent_request x (FireSubagentHook guest k body) s =
     (case tbl_get (sa_hooks s) guest of
        None \<Rightarrow> (SaError ''fire_subagent_hook'' ''SUBAGENT_HOOK_UNKNOWN'', s)
      | Some r \<Rightarrow>
          (case find (\<lambda>h. hook_kind h = k) (hr_hook_subscriptions r) of
             None \<Rightarrow> (SaSuccess ''fire_subagent_hook'', s)
           | Some h \<Rightarrow>
               (SaSuccess ''fire_subagent_hook'',
                s\<lparr>sa_tasks := sa_tasks s @
                   deliver_hook_to_route (hook_route h) (hr_persona_guest_id r) (hr_persona_role r)
                     (SubagentHook guest (hook_kind h) body)\<rparr>)))"
| "process_subagent_request x (AcceptSubagentLease guest) s = (handle_accept_subagent_lease guest s, s)"
| "process_subagent_request x (AbortSubagentSpawn guest) s =
     (SaSuccess ''abort_subagent_spawn'',
      s\<lparr>sa_leases := fst (release (sa_leases s) (subagent_lease_scope guest) (sc_conn x)),
        sa_hooks := tbl_del guest (sa_hooks s)\<rparr>)"

subsection \<open>The subagent requests are a lease service\<close>

fun subagent_serve ::
  "subagent_call \<times> IpcSubagentRequest \<Rightarrow> subagent_state \<Rightarrow> SubagentResponse \<times> subagent_state" where
  "subagent_serve (x, q) s = process_subagent_request x q s"

fun subagent_grant :: "subagent_call \<times> IpcSubagentRequest \<Rightarrow> SubagentResponse \<Rightarrow> (string \<times> conn \<times> nat) option" where
  "subagent_grant (x, q) (SpawnSubagentOk guest l) = Some (subagent_lease_scope guest, sc_conn x, lease_epoch l)"
| "subagent_grant (x, q) (SubagentLeaseRenewed guest e _) = Some (subagent_lease_scope guest, sc_conn x, e)"
| "subagent_grant _ _ = None"

text \<open>What a request may do to the registry, and the grant it may announce.\<close>

definition sa_lawful :: "conn \<Rightarrow> RuntimeLeaseRegistry \<Rightarrow> RuntimeLeaseRegistry \<Rightarrow> (string \<times> conn \<times> nat) option \<Rightarrow> bool" where
  "sa_lawful c reg reg' grant \<longleftrightarrow> (registry_ok reg \<longrightarrow>
     ((\<forall>k. epoch_of reg k < u64_max) \<longrightarrow> lease_step\<^sup>*\<^sup>* reg reg' \<and> (\<forall>k. epoch_of reg' k \<le> Suc (epoch_of reg k)))
     \<and> (case grant of None \<Rightarrow> True | Some (k, c', e) \<Rightarrow> c' = c \<and> holder reg' k = Some (c, e)))"

lemma sa_lawful_same: "sa_lawful c reg reg None"
  by (simp add: sa_lawful_def)

lemma sa_lawful_acquire:
  assumes "acquire reg c cand ttl now = (reg', out, ev)" "g = None \<or> (\<exists>l. out = Granted l \<and> g = Some (lease_scope cand, c, lease_epoch l))"
  shows "sa_lawful c reg reg' g"
proof -
  have "lawful c (lease_scope cand) reg (case acquire reg c cand ttl now of
      (reg', Granted l, _) \<Rightarrow> (LeaseReply s True (Some l), reg')
    | (reg', Denied l, _) \<Rightarrow> (LeaseReply s False (Some l), reg'))" for s by (rule lawful_acquire) simp
  then show ?thesis using assms by (cases out) (auto simp: sa_lawful_def lawful_def)
qed

lemma sa_lawful_renew:
  assumes "renew reg scope c e ttl now = (reg', out, ev)" "g = None \<or> (\<exists>l. out = Renewed l \<and> g = Some (scope, c, lease_epoch l))"
  shows "sa_lawful c reg reg' g"
  using assms lawful_renew [of c scope reg _ _ e ttl now]
  by (cases out) (auto simp: sa_lawful_def lawful_def)

lemma sa_lawful_release: "sa_lawful c reg (fst (release reg scope c)) None"
  using lawful_release [of "LeaseSuccess []" c scope reg scope c] by (auto simp: sa_lawful_def lawful_def)

lemma process_subagent_lawful:
  "sa_lawful (sc_conn x) (sa_leases s) (sa_leases (snd (process_subagent_request x q s)))
     (subagent_grant (x, q) (fst (process_subagent_request x q s)))"
proof (cases q)
  case (SpawnSubagent session dlg)
  show ?thesis
  proof (cases "\<exists>ident. sc_identity x = Some ident \<and> gi_role ident = ''agent'' \<and> sc_write_ok x")
    case True
    then obtain ident where id: "sc_identity x = Some ident" "gi_role ident = ''agent''" "sc_write_ok x" by blast
    let ?cand = "subagent_lease_candidate (sc_node x) (sc_fresh x) (gi_guest_id ident) (lease_ttl_seconds dlg)"
    obtain r out ev where a: "acquire (sa_leases s) (sc_conn x) ?cand (lease_ttl_seconds dlg) (sc_now x) = (r, out, ev)"
      by (metis prod_cases3)
    have sc: "lease_scope ?cand = subagent_lease_scope (sc_fresh x)" by (simp add: subagent_lease_candidate_def)
    show ?thesis
      using sa_lawful_acquire [OF a, unfolded sc] id a
      by (cases out) (auto simp: SpawnSubagent handle_spawn_subagent_def Let_def)
  next
    case False
    then show ?thesis
      by (auto simp: SpawnSubagent handle_spawn_subagent_def sa_lawful_same split: option.splits)
  qed
next
  case (RenewSubagentLease guest e)
  obtain r out ev where a: "renew (sa_leases s) (subagent_lease_scope guest) (sc_conn x) e
      (subagent_renew_ttl_secs (tbl_get (sa_hooks s) guest)) (sc_now x) = (r, out, ev)" by (metis prod_cases3)
  show ?thesis
    using sa_lawful_renew [OF a] a
    by (cases out) (auto simp: RenewSubagentLease handle_renew_subagent_lease_def sa_lawful_same split: option.splits)
qed (auto simp: handle_release_subagent_def handle_accept_subagent_lease_def sa_lawful_same sa_lawful_release split: option.splits)

interpretation subagents: lease_service subagent_serve sa_leases subagent_grant
proof
  fix s :: subagent_state and q :: "subagent_call \<times> IpcSubagentRequest" and k c e
  obtain x r where q: "q = (x, r)" by fastforce
  note law = process_subagent_lawful [of x s r, unfolded sa_lawful_def]
  assume ok: "registry_ok (sa_leases s)"
  show "subagent_grant q (fst (subagent_serve q s)) = Some (k, c, e)
      \<Longrightarrow> holder (sa_leases (snd (subagent_serve q s))) k = Some (c, e)"
    using law ok by (simp add: q)
  assume "\<forall>k. epoch_of (sa_leases s) k < u64_max"
  then show "lease_step\<^sup>*\<^sup>* (sa_leases s) (sa_leases (snd (subagent_serve q s)))"
    and "epoch_of (sa_leases (snd (subagent_serve q s))) k \<le> Suc (epoch_of (sa_leases s) k)"
    using law ok by (simp_all add: q)
qed

subsection \<open>Theorems\<close>

text \<open>Spawning, on every branch. An unregistered caller, a caller that is not an agent and a failed graph
  write are refused and change nothing. Otherwise, for a fresh guest id, the caller's connection becomes the
  holder of the new subagent's scope for the delegated time, in the name of the new guest and on behalf
  of the persona; the guest row is active, the hook record carries the delegation's terms, and exactly
  one notice goes to the persona's own inbox.\<close>

theorem subagent_spawn_contract:
  assumes "inspect (sa_leases s) (subagent_lease_scope (sc_fresh x)) = None"
    and "sc_now x + lease_ttl_seconds dlg \<le> u64_max"
  shows "case process_subagent_request x (SpawnSubagent session dlg) s of (r, s') \<Rightarrow>
    (case sc_identity x of
       None \<Rightarrow> r = SaError ''spawn_subagent'' ''SUBAGENT_UNREGISTERED'' \<and> s' = s
     | Some ident \<Rightarrow>
         if gi_role ident \<noteq> ''agent'' then r = SaError ''spawn_subagent'' ''SUBAGENT_FORBIDDEN'' \<and> s' = s
         else if \<not> sc_write_ok x then r = SaError ''spawn_subagent'' ''SUBAGENT_GUEST_REGISTER_FAILED'' \<and> s' = s
         else \<exists>l. r = SpawnSubagentOk (sc_fresh x) l
           \<and> holder (sa_leases s') (subagent_lease_scope (sc_fresh x)) = Some (sc_conn x, lease_epoch l)
           \<and> lease_expires_at l = sc_now x + lease_ttl_seconds dlg
           \<and> owner_guest_id l = sc_fresh x \<and> delegated_from l = Some (gi_guest_id ident)
           \<and> map_option sg_is_active (tbl_get (sa_guests s') (sc_fresh x)) = Some True
           \<and> map_option configured_ttl_secs (tbl_get (sa_hooks s') (sc_fresh x)) = Some (lease_ttl_seconds dlg)
           \<and> sa_tasks s' = sa_tasks s @ [(''agent'', Some (gi_guest_id ident),
                SubagentSpawned (sc_fresh x) session (lease_epoch l) (lease_expires_at l))])"
  using assms
  by (auto simp: handle_spawn_subagent_def acquire_def inspect_def subagent_lease_candidate_def Let_def
      holder_def tbl_get_put hook_record_def u64_add_exact split: option.splits)

text \<open>Renewal keeps the agreed terms and is fenced. While a subagent's hook record is registered, the holding
  connection at the current epoch extends the lease by exactly the time the delegation configured;
  any other connection, or the holder with another epoch, is told the lease is lost and nothing changes.\<close>

theorem subagent_renew_terms:
  assumes "holder (sa_leases s) (subagent_lease_scope guest) = Some (c, e)"
    and "tbl_get (sa_hooks s) guest = Some h" "now + configured_ttl_secs h \<le> u64_max"
  shows "if c' = c \<and> e' = e
    then \<exists>s'. handle_renew_subagent_lease c' (Some ident) guest e' now s
            = (SubagentLeaseRenewed guest e (now + configured_ttl_secs h), s')
          \<and> holder (sa_leases s') (subagent_lease_scope guest) = Some (c, e)
          \<and> map_option lease_expires_at (inspect (sa_leases s') (subagent_lease_scope guest))
              = Some (now + configured_ttl_secs h)
    else handle_renew_subagent_lease c' (Some ident) guest e' now s
           = (SaError ''renew_subagent_lease'' ''SUBAGENT_LEASE_LOST'', s)"
  using assms
  by (auto simp: handle_renew_subagent_lease_def renew_def holder_def inspect_def subagent_renew_ttl_secs_def
      Let_def tbl_get_put u64_add_exact split: option.splits)

text \<open>C36. Subagent epochs fence. Over any history of subagent requests, from a start with no leases, two
  replies that grant the same subagent's lease (a spawn or a renewal) name the same connection and epoch, or
  the later one has a larger epoch.\<close>

theorem subagent_single_owner:
  assumes "length qs \<le> u64_max" "sa_leases s = registry_default"
    and "serve_all subagent_serve qs s = (log, s')" "i < j" "j < length log"
    and "log ! i = (q, r)" "subagent_grant q r = Some (scope, c, e)"
    and "log ! j = (q', r')" "subagent_grant q' r' = Some (scope, c', e')"
  shows "(c' = c \<and> e' = e) \<or> e < e'"
proof -
  have "subagents.room (length qs) s"
    using assms(1) unfolding subagents.room_def assms(2)
    by (simp add: registry_default_ok epoch_of_def) (simp add: registry_default_def tbl_get_def)
  then show ?thesis using subagents.grants_ordered [of qs s i j] assms(3-9) by fastforce
qed

subsubsection \<open>Instances\<close>

definition demo_delegation :: SubagentDelegation where
  "demo_delegation = \<lparr>subagent_kind = ''researcher'', lease_ttl_seconds = 120, hook_subscriptions = [],
     completion_route = PersonaAgent, failure_route = PersonaAgent, delegation_body = JNull\<rparr>"

definition demo_call :: "nat \<Rightarrow> subagent_call" where
  "demo_call now = \<lparr>sc_conn = 1, sc_identity = Some \<lparr>gi_guest_id = ''ana'', gi_role = ''agent''\<rparr>, sc_now = now,
     sc_fresh = ''w1'', sc_write_ok = True, sc_node = ''n''\<rparr>"

definition demo_subagents :: subagent_state where
  "demo_subagents = \<lparr>sa_leases = registry_default, sa_hooks = [], sa_guests = [], sa_tasks = []\<rparr>"

lemmas demo_subagent_defs = demo_call_def demo_delegation_def demo_subagents_def registry_default_def
  handle_spawn_subagent_def acquire_def inspect_def holder_def subagent_lease_candidate_def hook_record_def
  epoch_of_def u64_add_def tbl_get_def Let_def

theorem subagent_spawn_contract_witness:
  "\<exists>l s'. process_subagent_request (demo_call 100) (SpawnSubagent ''s'' demo_delegation) demo_subagents
      = (SpawnSubagentOk ''w1'' l, s') \<and> lease_expires_at l = 220"
proof -
  have "inspect (sa_leases demo_subagents) (subagent_lease_scope (sc_fresh (demo_call 100))) = None"
    "sc_now (demo_call 100) + lease_ttl_seconds demo_delegation \<le> u64_max"
    by (simp_all add: demo_subagent_defs)
  from subagent_spawn_contract [OF this, of "''s''"] show ?thesis
    by (simp add: demo_call_def demo_delegation_def split: prod.splits) blast
qed

definition demo_spawned :: subagent_state where
  "demo_spawned = snd (process_subagent_request (demo_call 100) (SpawnSubagent ''s'' demo_delegation) demo_subagents)"

lemma demo_spawned_facts:
  "holder (sa_leases demo_spawned) (subagent_lease_scope ''w1'') = Some (1, 1)"
  "\<exists>h. tbl_get (sa_hooks demo_spawned) ''w1'' = Some h \<and> configured_ttl_secs h = 120"
  by (simp_all add: demo_spawned_def demo_subagent_defs)

theorem subagent_renew_terms_witness:
  "(\<exists>s'. handle_renew_subagent_lease 1 (Some \<lparr>gi_guest_id = ''ana'', gi_role = ''agent''\<rparr>) ''w1'' 1 200 demo_spawned
      = (SubagentLeaseRenewed ''w1'' 1 320, s'))
   \<and> handle_renew_subagent_lease 2 (Some \<lparr>gi_guest_id = ''bob'', gi_role = ''agent''\<rparr>) ''w1'' 1 200 demo_spawned
      = (SaError ''renew_subagent_lease'' ''SUBAGENT_LEASE_LOST'', demo_spawned)"
proof -
  obtain h where h: "tbl_get (sa_hooks demo_spawned) ''w1'' = Some h" "configured_ttl_secs h = 120"
    using demo_spawned_facts(2) by blast
  then have "200 + configured_ttl_secs h \<le> u64_max" by simp
  note renewed = subagent_renew_terms [OF demo_spawned_facts(1) h(1) this]
  show ?thesis
    using renewed [where c' = 1 and e' = 1 and ident = "\<lparr>gi_guest_id = ''ana'', gi_role = ''agent''\<rparr>"]
      renewed [where c' = 2 and e' = 1 and ident = "\<lparr>gi_guest_id = ''bob'', gi_role = ''agent''\<rparr>"]
    by (auto simp: h(2))
qed

theorem subagent_single_owner_witness:
  "\<exists>log s' r r'. serve_all subagent_serve [(demo_call 100, SpawnSubagent ''s'' demo_delegation),
       (demo_call 150, RenewSubagentLease ''w1'' 1)] demo_subagents = (log, s')
     \<and> log ! 0 = ((demo_call 100, SpawnSubagent ''s'' demo_delegation), r)
     \<and> subagent_grant (demo_call 100, SpawnSubagent ''s'' demo_delegation) r = Some (''subagent:w1'', 1, 1)
     \<and> log ! 1 = ((demo_call 150, RenewSubagentLease ''w1'' 1), r')
     \<and> subagent_grant (demo_call 150, RenewSubagentLease ''w1'' 1) r' = Some (''subagent:w1'', 1, 1)"
proof -
  let ?qs = "[(demo_call 100, SpawnSubagent ''s'' demo_delegation), (demo_call 150, RenewSubagentLease ''w1'' 1)]"
  obtain log s' where run: "serve_all subagent_serve ?qs demo_subagents = (log, s')" by fastforce
  then obtain r r' where log: "log = [(?qs ! 0, r), (?qs ! 1, r')]"
    and g: "subagent_grant (?qs ! 0) r = Some (''subagent:w1'', 1, 1)"
           "subagent_grant (?qs ! 1) r' = Some (''subagent:w1'', 1, 1)"
    by (auto simp: demo_subagent_defs handle_renew_subagent_lease_def renew_def subagent_lease_scope_def
        subagent_renew_ttl_secs_def)
  have "sa_leases demo_subagents = registry_default" by (simp add: demo_subagents_def)
  from subagent_single_owner [OF _ this run, of 0 1 "?qs ! 0" r "''subagent:w1''" 1 1 "?qs ! 1" r' 1 1] g run log
  show ?thesis by auto
qed

end
