(* ===== verification/MeshAuth.thy ===== *)
theory MeshAuth
  imports Tables "HOL-Library.Word"
begin

section \<open>Mesh message authentication and replay protection\<close>

text \<open>
  Models \<^verbatim>\<open>crates/ansible-mesh-core/src/authz.rs\<close> and the admission check of the execution plane,
  \<open>validate_execution_message\<close> in \<^verbatim>\<open>crates/aiua/src/service/execution_transport.rs\<close>. Message ids
  (\<open>Uuid\<close>), sequence numbers and timestamps are words of their width. HMAC-SHA256 is a third-party
  crate: it is the parameter \<open>mac\<close>, a function of key and message, about which nothing is assumed.
  The key of a peer (\<open>mesh_auth_key_for_node\<close>: configuration, or a Diffie-Hellman derivation) is the
  parameter \<open>key_of\<close>. The clock is an argument; the table \<^verbatim>\<open>mesh_nonces\<close> is the record of nonces.
\<close>

subsection \<open>Messages\<close>

datatype MsgType =
    DeployAgent | RunAgent | ToolCall | SecretPull | Heartbeat | CapabilitySync | Result | Log | ModelManager
  | MemoryOp | MeshEventBatch | MeshEventAck | ExecutionEventBatch | ExecutionEventAck | MeshMembershipAccept
  | MeshMembershipSync | MeshCatalogSync | WebRtcSignal | HotelStateSync

record BeaconMessage =
  version :: nat
  msg_id :: "128 word"
  src_node :: string
  dest_node :: string
  msg_type :: MsgType
  msg_seq :: "32 word"
  msg_total :: "32 word"
  msg_payload :: string
  timestamp :: "64 word"
  hmac :: string

text \<open>\<open>to_be_bytes\<close>: the \<open>k\<close> bytes of a number, most significant first.\<close>

definition be_bytes :: "nat \<Rightarrow> nat \<Rightarrow> string" where
  "be_bytes k n = map (\<lambda>i. char_of (n div 256 ^ i)) (rev [0..<k])"

subsection \<open>Signing and validation\<close>

type_synonym mac = "string \<Rightarrow> string \<Rightarrow> string"

definition REPLAY_WINDOW_SECS :: "64 word" where "REPLAY_WINDOW_SECS = 300"

text \<open>The bytes the signature covers, in the order of the \<open>update\<close> calls.\<close>

definition signed_bytes :: "128 word \<Rightarrow> 64 word \<Rightarrow> string \<Rightarrow> 64 word \<Rightarrow> string" where
  "signed_bytes mid sq body ts = be_bytes 16 (unat mid) @ be_bytes 8 (unat sq) @ be_bytes 8 (unat ts) @ body"

definition sign :: "mac \<Rightarrow> string \<Rightarrow> 128 word \<Rightarrow> 64 word \<Rightarrow> string \<Rightarrow> 64 word \<Rightarrow> string" where
  "sign mac psk mid sq body ts = mac psk (signed_bytes mid sq body ts)"

datatype AuthError =
    TimestampInFuture | OutsideReplayWindow | HmacMismatch | ReplayDetected | NonceDatabaseError
  | SelfOriginated | NoAuthKey | KeyLookupFailed

definition validate ::
  "mac \<Rightarrow> string \<Rightarrow> 64 word \<Rightarrow> 128 word \<Rightarrow> 64 word \<Rightarrow> string \<Rightarrow> 64 word \<Rightarrow> string \<Rightarrow> AuthError + unit" where
  "validate mac psk now mid sq body ts tag =
     (if ts > now + 60 then Inl TimestampInFuture
      else if (if now \<ge> ts then now - ts else 0) > REPLAY_WINDOW_SECS then Inl OutsideReplayWindow
      else if tag = mac psk (signed_bytes mid sq body ts) then Inr () else Inl HmacMismatch)"

subsection \<open>Nonces\<close>

type_synonym nonces = "(128 word \<times> 64 word) list"

text \<open>The \<open>INSERT\<close> fails on a nonce already present (primary key); \<open>db_ok\<close> is whether the database
  call goes through at all.\<close>

definition assert_and_record_nonce :: "bool \<Rightarrow> 64 word \<Rightarrow> 128 word \<Rightarrow> nonces \<Rightarrow> (AuthError + unit) \<times> nonces" where
  "assert_and_record_nonce db_ok now mid ns =
     (if \<not> db_ok then (Inl NonceDatabaseError, ns)
      else if mid \<in> fst ` set ns then (Inl ReplayDetected, ns)
      else (Inr (), ns @ [(mid, now)]))"

definition clean_expired_nonces :: "64 word \<Rightarrow> nonces \<Rightarrow> nonces" where
  "clean_expired_nonces now ns =
     filter (\<lambda>n. \<not> snd n < (if now \<ge> REPLAY_WINDOW_SECS then now - REPLAY_WINDOW_SECS else 0)) ns"

subsection \<open>Admission to the execution plane\<close>

type_synonym key_of = "string \<Rightarrow> AuthError + string option"

definition validate_execution_message ::
  "mac \<Rightarrow> key_of \<Rightarrow> string \<Rightarrow> bool \<Rightarrow> bool \<Rightarrow> 64 word \<Rightarrow> BeaconMessage \<Rightarrow> nonces \<Rightarrow> (AuthError + unit) \<times> nonces" where
  "validate_execution_message mac key_of local_node enable_auth db_ok now msg ns =
     (if src_node msg = local_node then (Inl SelfOriginated, ns)
      else if enable_auth
      then (case key_of (src_node msg) of
              Inl err \<Rightarrow> (Inl err, ns)
            | Inr None \<Rightarrow> (Inl NoAuthKey, ns)
            | Inr (Some key) \<Rightarrow>
                (case validate mac key now (msg_id msg) (ucast (msg_seq msg)) (msg_payload msg)
                        (timestamp msg) (hmac msg) of
                   Inl err \<Rightarrow> (Inl err, ns)
                 | Inr _ \<Rightarrow> assert_and_record_nonce db_ok now (msg_id msg) ns))
      else (Inr (), ns))"

text \<open>\<open>serve_execution_plane\<close>: an admitted message goes to the inbox only if it is an event batch or an
  acknowledgement.\<close>

definition serve_execution_message ::
  "mac \<Rightarrow> key_of \<Rightarrow> string \<Rightarrow> bool \<Rightarrow> bool \<Rightarrow> 64 word \<Rightarrow> BeaconMessage \<Rightarrow> nonces
   \<Rightarrow> BeaconMessage option \<times> nonces" where
  "serve_execution_message mac key_of local_node enable_auth db_ok now msg ns =
     (case validate_execution_message mac key_of local_node enable_auth db_ok now msg ns of
        (Inl _, ns') \<Rightarrow> (None, ns')
      | (Inr _, ns') \<Rightarrow>
          (if msg_type msg = ExecutionEventBatch \<or> msg_type msg = ExecutionEventAck then Some msg else None, ns'))"

text \<open>The UDP beacon's check (\<^verbatim>\<open>beacon.rs\<close>): membership acceptances pass unauthenticated, the nonce store
  may be unavailable, and a message of our own is dropped after its nonce is recorded.\<close>

definition beacon_admit ::
  "mac \<Rightarrow> key_of \<Rightarrow> string \<Rightarrow> bool \<Rightarrow> bool option \<Rightarrow> 64 word \<Rightarrow> BeaconMessage \<Rightarrow> nonces \<Rightarrow> bool \<times> nonces" where
  "beacon_admit mac key_of local_node enable_auth tracker now msg ns =
     (case (if enable_auth \<and> msg_type msg \<noteq> MeshMembershipAccept
            then (case key_of (src_node msg) of
                    Inr (Some key) \<Rightarrow>
                      (case validate mac key now (msg_id msg) (ucast (msg_seq msg)) (msg_payload msg)
                              (timestamp msg) (hmac msg) of
                         Inl err \<Rightarrow> (Inl err, ns)
                       | Inr _ \<Rightarrow>
                           (case tracker of
                              Some db_ok \<Rightarrow> assert_and_record_nonce db_ok now (msg_id msg) ns
                            | None \<Rightarrow> (Inl NonceDatabaseError, ns)))
                  | Inr None \<Rightarrow> (Inl NoAuthKey, ns)
                  | Inl err \<Rightarrow> (Inl err, ns))
            else (Inr (), ns)) of
        (Inl _, ns') \<Rightarrow> (False, ns')
      | (Inr _, ns') \<Rightarrow> (src_node msg \<noteq> local_node, ns'))"

subsection \<open>What a signature covers\<close>

lemma length_be_bytes [simp]: "length (be_bytes k n) = k"
  by (simp add: be_bytes_def)

lemma be_bytes_Suc: "be_bytes (Suc k) n = char_of (n div 256 ^ k) # be_bytes k n"
  by (simp add: be_bytes_def)

lemma be_bytes_mod: "be_bytes k n = be_bytes k m \<Longrightarrow> n mod 256 ^ k = m mod 256 ^ k"
proof (induction k)
  case (Suc k)
  then have "n mod 256 ^ k = m mod 256 ^ k" "n div 256 ^ k mod 256 = m div 256 ^ k mod 256"
    by (simp_all add: be_bytes_Suc char_of_eq_iff take_bit_eq_mod)
  then show ?case by (simp add: mod_mult2_eq mult.commute [of 256])
qed simp

lemma be_bytes_unat:
  fixes x y :: "'a::len word"
  assumes "be_bytes k (unat x) = be_bytes k (unat y)" "2 ^ LENGTH('a) \<le> (256 :: nat) ^ k"
  shows "x = y"
proof -
  have "unat x < 256 ^ k" "unat y < 256 ^ k"
    using less_le_trans [OF unsigned_less [where 'a = nat, of x] assms(2)]
      less_le_trans [OF unsigned_less [where 'a = nat, of y] assms(2)] by simp_all
  then show ?thesis using be_bytes_mod [OF assms(1)] by (simp add: word_unat_eq_iff)
qed

lemma signed_bytes_inj:
  assumes "signed_bytes mid sq body ts = signed_bytes mid' sq' body' ts'"
  shows "mid = mid' \<and> sq = sq' \<and> body = body' \<and> ts = ts'"
  using assms be_bytes_unat [of 16 mid mid'] be_bytes_unat [of 8 sq sq'] be_bytes_unat [of 8 ts ts']
  by (simp add: signed_bytes_def)

subsection \<open>Histories of the execution plane\<close>

datatype plane_input = Packet bool "64 word" BeaconMessage | Sweep "64 word"

fun clock :: "plane_input \<Rightarrow> 64 word" where
  "clock (Packet _ now _) = now"
| "clock (Sweep now) = now"

fun plane_step :: "mac \<Rightarrow> key_of \<Rightarrow> string \<Rightarrow> plane_input \<Rightarrow> nonces \<Rightarrow> bool \<times> nonces" where
  "plane_step mac key_of node (Packet db_ok now msg) ns =
     (case validate_execution_message mac key_of node True db_ok now msg ns of (r, ns') \<Rightarrow> (r = Inr (), ns'))"
| "plane_step mac key_of node (Sweep now) ns = (False, clean_expired_nonces now ns)"

fun plane_run :: "mac \<Rightarrow> key_of \<Rightarrow> string \<Rightarrow> plane_input list \<Rightarrow> nonces \<Rightarrow> bool list" where
  "plane_run mac key_of node [] ns = []"
| "plane_run mac key_of node (x # xs) ns =
     (case plane_step mac key_of node x ns of (ok, ns') \<Rightarrow> ok # plane_run mac key_of node xs ns')"

lemma validate_accepts:
  "validate mac psk now mid sq body ts tag = Inr () \<longleftrightarrow>
     ts \<le> now + 60 \<and> (now < ts \<or> now - ts \<le> REPLAY_WINDOW_SECS) \<and> tag = sign mac psk mid sq body ts"
  by (auto simp: validate_def sign_def REPLAY_WINDOW_SECS_def not_less split: if_splits)

lemma packet_accepted:
  assumes "plane_step mac key_of node (Packet db now msg) ns = (True, ns')"
  shows "msg_id msg \<notin> fst ` set ns" "ns' = ns @ [(msg_id msg, now)]"
    and "now < timestamp msg \<or> now - timestamp msg \<le> REPLAY_WINDOW_SECS"
  using assms validate_accepts
  by (auto simp: validate_execution_message_def assert_and_record_nonce_def
      split: if_splits sum.splits option.splits prod.splits)

lemma packet_keeps: "plane_step mac key_of node (Packet db now msg) ns = (ok, ns') \<Longrightarrow> set ns \<subseteq> set ns'"
  by (auto simp: validate_execution_message_def assert_and_record_nonce_def
      split: if_splits sum.splits option.splits prod.splits)

lemma swept_is_old:
  assumes "(mid, t) \<in> set ns" "(mid, t) \<notin> set (clean_expired_nonces s ns)" "s \<le> now"
    and "now < ts \<or> now - ts \<le> REPLAY_WINDOW_SECS"
  shows "t < ts"
proof -
  have s: "REPLAY_WINDOW_SECS \<le> s" "t < s - REPLAY_WINDOW_SECS"
    using assms(1,2) by (auto simp: clean_expired_nonces_def split: if_splits)
  then have "unat t + 300 < unat s"
    by (simp add: REPLAY_WINDOW_SECS_def word_less_nat_alt word_le_nat_alt unat_sub)
  moreover have "unat s \<le> unat now" using assms(3) by (simp add: word_le_nat_alt)
  moreover have "unat now \<le> unat ts + 300"
    using assms(4) by (cases "ts \<le> now")
      (auto simp: REPLAY_WINDOW_SECS_def word_less_nat_alt word_le_nat_alt unat_sub)
  ultimately show ?thesis by (simp add: word_less_nat_alt)
qed

lemma run_accepted:
  "j < length xs \<Longrightarrow> plane_run mac key_of node xs ns ! j
    \<Longrightarrow> \<exists>ns1 ns2. plane_step mac key_of node (xs ! j) ns1 = (True, ns2)"
proof (induction xs arbitrary: ns j)
  case (Cons x xs)
  then show ?case by (cases j) (auto split: prod.splits)
qed simp

lemma recorded_not_replayed:
  assumes "(mid, t) \<in> set ns" "sorted (map clock xs)" "\<forall>x \<in> set xs. t \<le> clock x"
    and "j < length xs" "xs ! j = Packet db now msg" "msg_id msg = mid" "plane_run mac key_of node xs ns ! j"
  shows "t < timestamp msg"
  using assms
proof (induction xs arbitrary: ns j)
  case (Cons x xs)
  obtain ok ns' where st: "plane_step mac key_of node x ns = (ok, ns')" by fastforce
  show ?case
  proof (cases j)
    case 0
    then have "(mid, t) \<in> set ns" "msg_id msg \<notin> fst ` set ns"
      using Cons.prems(1,5,7) packet_accepted(1) [of mac key_of node db now msg ns ns'] st by (simp_all add: st)
    then show ?thesis using Cons.prems(6) by force
  next
    case (Suc j')
    then have later: "xs ! j' = Packet db now msg" "plane_run mac key_of node xs ns' ! j'" "j' < length xs"
      using Cons.prems(4,5,7) by (simp_all add: st)
    show ?thesis
    proof (cases "(mid, t) \<in> set ns'")
      case True
      show ?thesis
        by (rule Cons.IH [OF True _ _ later(3,1) Cons.prems(6) later(2)]) (use Cons.prems(2,3) in auto)
    next
      case False
      obtain s where x: "x = Sweep s" using False packet_keeps st Cons.prems(1) by (cases x) blast+
      have "xs ! j' \<in> set xs" using later(3) by (rule nth_mem)
      then have "s \<le> now" using Cons.prems(2) x later(1) by fastforce
      moreover have "now < timestamp msg \<or> now - timestamp msg \<le> REPLAY_WINDOW_SECS"
        using run_accepted [OF later(3,2)] packet_accepted(3) later(1) by metis
      moreover have "(mid, t) \<notin> set (clean_expired_nonces s ns)" using False st x by simp
      ultimately show ?thesis using swept_is_old [OF Cons.prems(1)] by blast
    qed
  qed
qed simp

lemma plane_run_app:
  "i < length xs \<Longrightarrow> \<exists>ns'. plane_run mac key_of node (drop i xs) ns' = drop i (plane_run mac key_of node xs ns)"
proof (induction i arbitrary: xs ns)
  case (Suc i)
  then obtain x ys where "xs = x # ys" by (cases xs) auto
  then show ?case using Suc by (auto split: prod.splits)
qed auto

subsection \<open>Theorems\<close>

text \<open>What a valid signature proves. A message signed with the shared key is accepted exactly within
  the time window (at most sixty seconds ahead of the receiver's clock and at most five minutes behind it),
  whatever its contents; and a signature made for one message is accepted for another, differing in id,
  sequence number, timestamp or payload, only if the MAC itself collides on the two byte strings.\<close>

theorem signature_covers_message:
  "(validate mac psk now mid sq body ts (sign mac psk mid sq body ts) = Inr () \<longleftrightarrow>
      ts \<le> now + 60 \<and> (now < ts \<or> now - ts \<le> 300))
   \<and> (validate mac psk now mid sq body ts (sign mac psk mid' sq' body' ts') \<noteq> Inr ()
      \<or> (mid, sq, body, ts) = (mid', sq', body', ts')
      \<or> (\<exists>x y. x \<noteq> y \<and> mac psk x = mac psk y))"
proof
  show "validate mac psk now mid sq body ts (sign mac psk mid sq body ts) = Inr () \<longleftrightarrow>
      ts \<le> now + 60 \<and> (now < ts \<or> now - ts \<le> 300)"
    by (simp add: validate_accepts REPLAY_WINDOW_SECS_def)
  show "validate mac psk now mid sq body ts (sign mac psk mid' sq' body' ts') \<noteq> Inr ()
      \<or> (mid, sq, body, ts) = (mid', sq', body', ts') \<or> (\<exists>x y. x \<noteq> y \<and> mac psk x = mac psk y)"
    using signed_bytes_inj [of mid' sq' body' ts' mid sq body ts]
    by (auto simp: validate_accepts sign_def)
qed

theorem signature_covers_message_witness:
  "validate (\<lambda>k m. k @ m) ''psk'' 100 1 2 ''a'' 90 (sign (\<lambda>k m. k @ m) ''psk'' 1 2 ''b'' 90) \<noteq> Inr ()
   \<and> validate (\<lambda>k m. k @ m) ''psk'' 100 1 2 ''a'' 90 (sign (\<lambda>k m. k @ m) ''psk'' 1 2 ''a'' 90) = Inr ()"
  using signature_covers_message [of "\<lambda>k m. k @ m" "''psk''" 100 1 2 "''a''" 90 1 2 "''b''" 90] by simp

text \<open>C22. No replay. Over any history of packets and nonce sweeps at an execution plane that has authentication enabled
  (as \<open>plane_step\<close> runs it; without it every packet of another node is accepted) and whose clock does not run backwards: a message id accepted once, at time \<open>now1\<close>, is accepted again only in a
  message dated after \<open>now1\<close>. A packet that was not dated into the future when it was accepted can
  therefore never be replayed, whatever else arrives and whenever the nonces are swept.\<close>

theorem no_replay_unless_future_dated:
  assumes "sorted (map clock xs)" "i < j" "j < length xs"
    and "xs ! i = Packet db1 now1 msg1" "plane_run mac key_of node xs ns ! i"
    and "xs ! j = Packet db2 now2 msg2" "plane_run mac key_of node xs ns ! j"
    and "msg_id msg2 = msg_id msg1"
  shows "now1 < timestamp msg2"
proof -
  obtain ns0 where run: "plane_run mac key_of node (drop i xs) ns0 = drop i (plane_run mac key_of node xs ns)"
    using plane_run_app [of i xs mac key_of node ns] assms(2,3) by auto
  have dr: "drop i xs = Packet db1 now1 msg1 # drop (Suc i) xs"
    using Cons_nth_drop_Suc [of i xs] assms(2-4) by simp
  obtain ok ns' where st: "plane_step mac key_of node (Packet db1 now1 msg1) ns0 = (ok, ns')" by fastforce
  have len: "length (plane_run mac key_of node ys m) = length ys" for ys m
    by (induction ys arbitrary: m) (auto split: prod.splits)
  have rest: "ok # plane_run mac key_of node (drop (Suc i) xs) ns' = drop i (plane_run mac key_of node xs ns)"
    using run unfolding dr plane_run.simps st by simp
  have "hd (drop i (plane_run mac key_of node xs ns)) = plane_run mac key_of node xs ns ! i"
    using assms(2,3) by (simp add: hd_drop_conv_nth len)
  then have "ok = plane_run mac key_of node xs ns ! i" unfolding rest [symmetric] by simp
  then have "(msg_id msg1, now1) \<in> set ns'" using packet_accepted(2) st assms(5) by fastforce
  moreover have "sorted (map clock (drop i xs))" using sorted_wrt_drop [OF assms(1), of i] by (simp add: drop_map)
  then have "sorted (map clock (drop (Suc i) xs))" "\<forall>x \<in> set (drop (Suc i) xs). now1 \<le> clock x"
    by (simp_all add: dr)
  moreover have "plane_run mac key_of node (drop (Suc i) xs) ns' ! (j - Suc i) = plane_run mac key_of node xs ns ! j"
    using arg_cong [OF rest, of "\<lambda>l. l ! (j - i)"] assms(2,3) len by (simp add: nth_Cons')
  ultimately show ?thesis
    using recorded_not_replayed [of "msg_id msg1" now1 ns' "drop (Suc i) xs" "j - Suc i"] assms by simp
qed

text \<open>The bound is sharp: a packet dated sixty seconds ahead is admitted, its nonce is swept 301 seconds
  later, and the same packet is admitted again.\<close>

definition demo_packet :: BeaconMessage where
  "demo_packet = \<lparr>version = 1, msg_id = 7, src_node = ''peer'', dest_node = ''me'', msg_type = ExecutionEventBatch,
     msg_seq = 1, msg_total = 1, msg_payload = ''[]'', timestamp = 1060, hmac = ''tag''\<rparr>"

definition demo_plane :: "plane_input list" where
  "demo_plane = [Packet True 1000 demo_packet, Sweep 1301, Packet True 1350 demo_packet]"

theorem no_replay_unless_future_dated_witness:
  "plane_run (\<lambda>k m. ''tag'') (\<lambda>n. Inr (Some ''psk'')) ''me'' demo_plane [] = [True, False, True]
   \<and> (1000 :: 64 word) < timestamp demo_packet"
proof -
  have run: "plane_run (\<lambda>k m. ''tag'') (\<lambda>n. Inr (Some ''psk'')) ''me'' demo_plane [] = [True, False, True]"
    by (auto simp: demo_plane_def demo_packet_def validate_execution_message_def validate_def
        assert_and_record_nonce_def clean_expired_nonces_def REPLAY_WINDOW_SECS_def)
  have "sorted (map clock demo_plane)" by (simp add: demo_plane_def)
  from no_replay_unless_future_dated [OF this, of 0 2 True 1000 demo_packet "\<lambda>k m. ''tag''"
      "\<lambda>n. Inr (Some ''psk'')" "''me''" "[]" True 1350 demo_packet] run
  show ?thesis by (simp add: demo_plane_def)
qed

end
