(* ===== verification/MeshLedger.thy ===== *)
theory MeshLedger
  imports MeshAuth
begin

section \<open>Durable mesh delivery\<close>

text \<open>
  Models the event ledger (\<open>SqliteEventStorage\<close>, \<open>SqliteCursorStorage\<close> in
  \<^verbatim>\<open>crates/ansible-mesh-core/src/sqlite_storage.rs\<close>), its writer thread (\<^verbatim>\<open>crates/aiua/src/main.rs\<close>), the
  outbound dispatcher (\<^verbatim>\<open>crates/aiua/src/service/mesh_dispatcher.rs\<close>), the receiver's answer to a batch
  (\<^verbatim>\<open>mesh_runtime.rs\<close>) and the delivery claims (\<^verbatim>\<open>ipc.rs\<close>). The table \<^verbatim>\<open>mesh_events\<close> is the list of its
  rows in the order of the \<open>AUTOINCREMENT\<close> key, with the highest key ever used beside it; every
  storage call may fail, which is an argument. JSON encoding of an event is the parameter \<open>encode\<close>.
\<close>

subsection \<open>Events and the ledger\<close>

datatype EventKind =
    TaskInvoke | TaskResult | WebrtcSignalEv | MemoryOpEv | CapabilityPublish | SessionControl
  | AgentGraphSync | CronFired | CronJobSync | ProjectedUserIdentitySync

datatype EventPayload = Inline string | BlobRef string nat string string

record EventEnvelope =
  event_id :: "128 word"
  ev_seq :: "64 word"
  source_node_id :: string
  target_node_id :: "string option"
  source_agent_id :: string
  target_agent_id :: "string option"
  kind :: EventKind
  corr_id :: string
  attempt :: nat
  created_at :: nat
  expires_at :: "nat option"
  payload :: EventPayload
  trace :: "string list"

record event_db =
  rows :: "(nat \<times> EventEnvelope) list"
  last_rowid :: nat

definition row_seq :: "EventEnvelope \<Rightarrow> nat \<Rightarrow> EventEnvelope" where
  "row_seq ev n = ev\<lparr>ev_seq := of_nat n\<rparr>"

text \<open>\<open>None\<close> is a failed call. An event whose id is already in the table keeps the sequence number it
  has; a new one gets the next key, never one used before.\<close>

definition append_event :: "bool \<Rightarrow> EventEnvelope \<Rightarrow> event_db \<Rightarrow> nat option \<times> event_db" where
  "append_event db_ok ev db =
     (if \<not> db_ok then (None, db)
      else case find (\<lambda>r. event_id (snd r) = event_id ev) (rows db) of
             Some r \<Rightarrow> (Some (fst r), db)
           | None \<Rightarrow>
               (let n = Suc (last_rowid db)
                in (Some n, db\<lparr>rows := rows db @ [(n, ev)], last_rowid := n\<rparr>)))"

definition delete_event :: "128 word \<Rightarrow> event_db \<Rightarrow> nat \<times> event_db" where
  "delete_event eid db =
     (length (filter (\<lambda>r. event_id (snd r) = eid) (rows db)),
      db\<lparr>rows := filter (\<lambda>r. event_id (snd r) \<noteq> eid) (rows db)\<rparr>)"

definition query_unacked_events :: "string \<Rightarrow> nat \<Rightarrow> nat \<Rightarrow> event_db \<Rightarrow> EventEnvelope list" where
  "query_unacked_events target cursor limit db =
     take limit (map (\<lambda>r. row_seq (snd r) (fst r))
       (filter (\<lambda>r. fst r > cursor \<and> (target_node_id (snd r) = None \<or> target_node_id (snd r) = Some target))
          (rows db)))"

definition delete_delivered_events :: "string \<Rightarrow> nat \<Rightarrow> event_db \<Rightarrow> event_db" where
  "delete_delivered_events target max_seq db =
     db\<lparr>rows := filter (\<lambda>r. \<not> (target_node_id (snd r) = Some target \<and> fst r \<le> max_seq)) (rows db)\<rparr>"

type_synonym cursors = "string \<Rightarrow> nat"

definition advance_cursor :: "string \<Rightarrow> nat \<Rightarrow> cursors \<Rightarrow> cursors" where
  "advance_cursor consumer acked cs = cs(consumer := max (cs consumer) acked)"

subsection \<open>The writer thread\<close>

datatype LedgerCommand =
    AppendLocal EventEnvelope
  | CommitInboundBatch "EventEnvelope list" string
  | ProcessAck string nat

record mesh_node =
  events :: event_db
  cursor :: cursors

text \<open>The storage calls of one command succeed or fail by the given flags, in order; a missing flag is a
  success.\<close>

fun pop_flag :: "bool list \<Rightarrow> bool \<times> bool list" where
  "pop_flag [] = (True, [])"
| "pop_flag (f # fs) = (f, fs)"

fun commit_inbound :: "EventEnvelope list \<Rightarrow> bool list \<Rightarrow> nat \<Rightarrow> event_db \<Rightarrow> nat \<times> bool list \<times> event_db" where
  "commit_inbound [] fs max_seq db = (max_seq, fs, db)"
| "commit_inbound (ev # evs) fs max_seq db =
     (case pop_flag fs of (ok, fs') \<Rightarrow>
        (case append_event ok ev db of
           (Some n, db') \<Rightarrow> commit_inbound evs fs' (if n > max_seq then n else max_seq) db'
         | (None, db') \<Rightarrow> commit_inbound evs fs' max_seq db'))"

fun writer_step :: "string \<Rightarrow> bool list \<Rightarrow> LedgerCommand \<Rightarrow> mesh_node \<Rightarrow> mesh_node" where
  "writer_step local_node fs (AppendLocal ev) s =
     (if (case target_node_id ev of Some t \<Rightarrow> t = local_node | None \<Rightarrow> True) then s
      else s\<lparr>events := snd (append_event (fst (pop_flag fs)) ev (events s))\<rparr>)"
| "writer_step local_node fs (CommitInboundBatch evs _) s =
     (case commit_inbound evs fs 0 (events s) of (max_seq, fs', db) \<Rightarrow>
        if max_seq > 0 \<and> fst (pop_flag fs')
        then s\<lparr>events := delete_delivered_events local_node max_seq db\<rparr> else s\<lparr>events := db\<rparr>)"
| "writer_step local_node fs (ProcessAck consumer acked) s =
     (case pop_flag fs of (ok1, fs') \<Rightarrow>
        if \<not> ok1 then s
        else (let s' = s\<lparr>cursor := advance_cursor consumer acked (cursor s)\<rparr>
              in if fst (pop_flag fs') then s'\<lparr>events := delete_delivered_events consumer acked (events s')\<rparr>
                 else s'))"

subsection \<open>The dispatcher\<close>

datatype DispatchStatus = Idle | DispatchNoAuthKey | Dispatched

type_synonym encode = "EventEnvelope list \<Rightarrow> string"

definition event_message ::
  "mac \<Rightarrow> encode \<Rightarrow> string \<Rightarrow> string \<Rightarrow> string \<Rightarrow> 128 word \<Rightarrow> 64 word \<Rightarrow> EventEnvelope \<Rightarrow> BeaconMessage" where
  "event_message mac encode key local_node target mid ts ev =
     \<lparr>version = 1, msg_id = mid, src_node = local_node, dest_node = target, msg_type = ExecutionEventBatch,
      msg_seq = ucast (ev_seq ev), msg_total = 1, msg_payload = encode [ev], timestamp = ts,
      hmac = sign mac key mid (ev_seq ev) (encode [ev]) ts\<rparr>"

text \<open>Each event goes out in a message of its own, with a fresh id and the time; the first send that
  fails ends the batch.\<close>

fun send_batch ::
  "(128 word \<Rightarrow> 64 word \<Rightarrow> EventEnvelope \<Rightarrow> BeaconMessage) \<Rightarrow> (128 word \<times> 64 word \<times> bool) list
   \<Rightarrow> EventEnvelope list \<Rightarrow> BeaconMessage list" where
  "send_batch mk [] evs = []"
| "send_batch mk (x # xs) [] = []"
| "send_batch mk ((mid, ts, ok) # xs) (ev # evs) = (if ok then mk mid ts ev # send_batch mk xs evs else [])"

definition dispatch_for_target ::
  "mac \<Rightarrow> encode \<Rightarrow> key_of \<Rightarrow> string \<Rightarrow> string \<Rightarrow> (128 word \<times> 64 word \<times> bool) list \<Rightarrow> mesh_node
   \<Rightarrow> AuthError + DispatchStatus \<times> BeaconMessage list" where
  "dispatch_for_target mac encode key_of local_node target sends s =
     (let unacked = query_unacked_events target (cursor s target) 50 (events s)
      in if unacked = [] then Inr (Idle, [])
         else case key_of target of
                Inl err \<Rightarrow> Inl err
              | Inr None \<Rightarrow> Inr (DispatchNoAuthKey, [])
              | Inr (Some key) \<Rightarrow>
                  Inr (Dispatched, send_batch (event_message mac encode key local_node target) sends unacked))"

text \<open>The receiver acknowledges the highest sequence number of the batch it was handed.\<close>

definition acked_seq :: "EventEnvelope list \<Rightarrow> 64 word" where
  "acked_seq evs = fold (\<lambda>e m. if m \<le> ev_seq e then ev_seq e else m) evs 0"

subsection \<open>Delivery claims\<close>

definition MAX_CLAIMS :: nat where "MAX_CLAIMS = 8192"

record DeliveryClaims =
  claimed :: "128 word set"
  order :: "128 word list"

definition claims_default :: DeliveryClaims where
  "claims_default = \<lparr>claimed = {}, order = []\<rparr>"

text \<open>The \<open>while\<close> that evicts the oldest claims.\<close>

function evict :: "DeliveryClaims \<Rightarrow> DeliveryClaims" where
  "evict c =
     (if length (order c) > MAX_CLAIMS
      then evict (c\<lparr>order := tl (order c), claimed := claimed c - {hd (order c)}\<rparr>) else c)"
  by auto

termination by (relation "measure (\<lambda>c. length (order c))") (auto simp: MAX_CLAIMS_def)

definition claim :: "128 word \<Rightarrow> DeliveryClaims \<Rightarrow> bool \<times> DeliveryClaims" where
  "claim eid c =
     (if eid \<in> claimed c then (False, c)
      else (True, evict (c\<lparr>claimed := insert eid (claimed c), order := order c @ [eid]\<rparr>)))"

declare evict.simps [simp del]

subsection \<open>The ledger's invariant\<close>

definition ledger_ok :: "event_db \<Rightarrow> bool" where
  "ledger_ok db \<longleftrightarrow> sorted_wrt (<) (map fst (rows db)) \<and> distinct (map (event_id \<circ> snd) (rows db))
     \<and> (\<forall>r \<in> set (rows db). 0 < fst r \<and> fst r \<le> last_rowid db)"

lemma ledger_ok_filter: "ledger_ok db \<Longrightarrow> ledger_ok (db\<lparr>rows := filter P (rows db)\<rparr>)"
  by (auto simp: ledger_ok_def sorted_wrt_map intro: sorted_wrt_filter distinct_map_filter)

lemma append_event_cases:
  assumes "append_event ok ev db = (r, db')"
  obtains (failed) "r = None" "db' = db"
  | (known) n ev0 where "r = Some n" "db' = db" "(n, ev0) \<in> set (rows db)" "event_id ev0 = event_id ev"
  | (fresh) "r = Some (Suc (last_rowid db))" "event_id ev \<notin> event_id ` snd ` set (rows db)"
      "db' = db\<lparr>rows := rows db @ [(Suc (last_rowid db), ev)], last_rowid := Suc (last_rowid db)\<rparr>"
proof (cases "ok")
  case False
  then show ?thesis using assms failed by (simp add: append_event_def)
next
  case True
  show ?thesis
  proof (cases "find (\<lambda>r. event_id (snd r) = event_id ev) (rows db)")
    case None
    then have "event_id ev \<notin> event_id ` snd ` set (rows db)" by (force simp: find_None_iff)
    moreover have "r = Some (Suc (last_rowid db))"
      "db' = db\<lparr>rows := rows db @ [(Suc (last_rowid db), ev)], last_rowid := Suc (last_rowid db)\<rparr>"
      using assms True None by (simp_all add: append_event_def Let_def)
    ultimately show ?thesis using fresh by blast
  next
    case (Some p)
    obtain n ev0 where p: "p = (n, ev0)" by fastforce
    have "(n, ev0) \<in> set (rows db)" "event_id ev0 = event_id ev"
      using Some p by (auto simp: find_Some_iff in_set_conv_nth) (metis nth_mem snd_conv)+
    moreover have "r = Some n" "db' = db" using assms True Some p by (simp_all add: append_event_def)
    ultimately show ?thesis using known by blast
  qed
qed

lemma ledger_ok_append:
  assumes "ledger_ok db" "append_event ok ev db = (r, db')"
  shows "ledger_ok db'" "last_rowid db \<le> last_rowid db'" "set (rows db) \<subseteq> set (rows db')"
  using assms(2)
  by (cases rule: append_event_cases;
      use assms(1) in \<open>fastforce simp: ledger_ok_def sorted_wrt_append image_image\<close>)+

lemma commit_inbound_ok:
  assumes "ledger_ok db" "commit_inbound evs fs m db = (m', fs', db')"
  shows "ledger_ok db' \<and> last_rowid db \<le> last_rowid db' \<and> set (rows db) \<subseteq> set (rows db')"
  using assms
proof (induction evs arbitrary: fs m db)
  case (Cons ev evs)
  obtain ok fs1 where p: "pop_flag fs = (ok, fs1)" by fastforce
  obtain r db1 where a: "append_event ok ev db = (r, db1)" by fastforce
  obtain m1 where "commit_inbound evs fs1 m1 db1 = (m', fs', db')"
    using Cons.prems(2) by (cases r) (auto simp: p a)
  from Cons.IH [OF _ this] ledger_ok_append [OF Cons.prems(1) a] show ?case by auto
qed auto

fun writer_run :: "string \<Rightarrow> (bool list \<times> LedgerCommand) list \<Rightarrow> mesh_node \<Rightarrow> mesh_node" where
  "writer_run local_node [] s = s"
| "writer_run local_node ((fs, cmd) # cmds) s = writer_run local_node cmds (writer_step local_node fs cmd s)"

lemma writer_step_ok:
  assumes "ledger_ok (events s)"
  shows "ledger_ok (events (writer_step local_node fs cmd s))
    \<and> last_rowid (events s) \<le> last_rowid (events (writer_step local_node fs cmd s))"
proof (cases cmd)
  case (AppendLocal ev)
  obtain r db' where a: "append_event (fst (pop_flag fs)) ev (events s) = (r, db')" by fastforce
  then show ?thesis using ledger_ok_append [OF assms a] assms by (simp add: AppendLocal)
next
  case (CommitInboundBatch evs src)
  obtain m fs' db where c: "commit_inbound evs fs 0 (events s) = (m, fs', db)" by (metis prod_cases3)
  then show ?thesis
    using commit_inbound_ok [OF assms c]
    by (auto simp: CommitInboundBatch delete_delivered_events_def ledger_ok_filter)
next
  case (ProcessAck t a)
  then show ?thesis
    using assms by (auto simp: Let_def delete_delivered_events_def ledger_ok_filter split: prod.splits)
qed

text \<open>An event for another node survives every command but an acknowledgement that covers it.\<close>

definition covers :: "string \<Rightarrow> nat \<Rightarrow> LedgerCommand \<Rightarrow> bool" where
  "covers t n cmd \<longleftrightarrow> (case cmd of ProcessAck t' a \<Rightarrow> t' = t \<and> n \<le> a | _ \<Rightarrow> False)"

lemma writer_step_keeps:
  assumes "ledger_ok (events s)" "(n, ev) \<in> set (rows (events s))" "target_node_id ev = Some t" "t \<noteq> local_node"
    and "cursor s t < n" "\<not> covers t n cmd"
  shows "(n, ev) \<in> set (rows (events (writer_step local_node fs cmd s)))
    \<and> cursor (writer_step local_node fs cmd s) t < n"
proof (cases cmd)
  case (AppendLocal e)
  obtain r db' where a: "append_event (fst (pop_flag fs)) e (events s) = (r, db')" by fastforce
  then show ?thesis using ledger_ok_append(3) [OF assms(1) a] assms(2,5) by (auto simp: AppendLocal)
next
  case (CommitInboundBatch evs src)
  obtain m fs' db where c: "commit_inbound evs fs 0 (events s) = (m, fs', db)" by (metis prod_cases3)
  then show ?thesis
    using commit_inbound_ok [OF assms(1) c] assms(2-5)
    by (auto simp: CommitInboundBatch delete_delivered_events_def)
next
  case (ProcessAck t' a)
  then show ?thesis
    using assms(2-6)
    by (auto simp: Let_def delete_delivered_events_def advance_cursor_def covers_def split: prod.splits)
qed

lemma writer_run_keeps:
  assumes "ledger_ok (events s)" "(n, ev) \<in> set (rows (events s))" "target_node_id ev = Some t" "t \<noteq> local_node"
    and "cursor s t < n" "\<forall>(fs, cmd) \<in> set cmds. \<not> covers t n cmd"
  shows "ledger_ok (events (writer_run local_node cmds s))
    \<and> (n, ev) \<in> set (rows (events (writer_run local_node cmds s)))
    \<and> cursor (writer_run local_node cmds s) t < n"
  using assms
proof (induction cmds arbitrary: s)
  case (Cons c cmds)
  obtain fs cmd where c: "c = (fs, cmd)" by fastforce
  have "\<not> covers t n cmd" using Cons.prems(6) by (simp add: c)
  note step = writer_step_keeps [OF Cons.prems(1-5) this, of fs]
  show ?case
    using Cons.IH [of "writer_step local_node fs cmd s"] step writer_step_ok [OF Cons.prems(1)] Cons.prems(3,4,6)
    by (simp add: c)
qed simp

subsection \<open>Claims\<close>

definition claims_ok :: "DeliveryClaims \<Rightarrow> bool" where
  "claims_ok c \<longleftrightarrow> claimed c = set (order c) \<and> distinct (order c) \<and> length (order c) \<le> MAX_CLAIMS"

lemma evict_one:
  "length (order c) \<le> Suc MAX_CLAIMS \<Longrightarrow> evict c =
     (if length (order c) > MAX_CLAIMS then c\<lparr>order := tl (order c), claimed := claimed c - {hd (order c)}\<rparr> else c)"
  by (subst evict.simps, subst evict.simps) auto

lemma claim_unfold:
  assumes "claims_ok c" "e \<notin> claimed c"
  shows "claim e c = (True,
     if length (order c) = MAX_CLAIMS then \<lparr>claimed = insert e (claimed c) - {hd (order c)}, order = tl (order c) @ [e]\<rparr>
     else \<lparr>claimed = insert e (claimed c), order = order c @ [e]\<rparr>)"
proof -
  have "order c \<noteq> []" if "length (order c) = MAX_CLAIMS" using that by (auto simp: MAX_CLAIMS_def)
  moreover have "length (order c) \<le> MAX_CLAIMS" using assms(1) by (simp add: claims_ok_def)
  ultimately show ?thesis
    using assms(2) by (cases c) (auto simp: claim_def evict_one hd_append)
qed

lemma claims_ok_claim:
  assumes "claims_ok c"
  shows "claims_ok (snd (claim e c))"
proof (cases "e \<in> claimed c")
  case True
  then show ?thesis using assms by (simp add: claim_def)
next
  case False
  then show ?thesis
    using assms claim_unfold [OF assms False]
    by (cases "order c") (auto simp: claims_ok_def MAX_CLAIMS_def)
qed

text \<open>How long a claim is remembered: the claims made after it.\<close>

lemma claim_remembered:
  assumes "claims_ok c" "order c = xs @ eid # ys" "length ys + length es < MAX_CLAIMS"
  shows "eid \<in> claimed (fold (\<lambda>e c. snd (claim e c)) es c)"
  using assms
proof (induction es arbitrary: c xs ys)
  case Nil
  then show ?case by (simp add: claims_ok_def)
next
  case (Cons e es)
  have ok': "claims_ok (snd (claim e c))" by (rule claims_ok_claim [OF Cons.prems(1)])
  show ?case
  proof (cases "e \<in> claimed c")
    case True
    then show ?thesis using Cons.IH [OF Cons.prems(1,2)] Cons.prems(3) by (simp add: claim_def)
  next
    case False
    have "\<exists>xs'. order (snd (claim e c)) = xs' @ eid # (ys @ [e])"
      using claim_unfold [OF Cons.prems(1) False] Cons.prems(2,3)
      by (cases xs) auto
    then obtain xs' where "order (snd (claim e c)) = xs' @ eid # (ys @ [e])" by blast
    from Cons.IH [OF ok' this] Cons.prems(3) show ?thesis by simp
  qed
qed

subsection \<open>Theorems\<close>

text \<open>Sequence numbers are unique and never reused. Appending to a well-formed ledger either fails and
  changes nothing, or finds the event already there and returns the number it has (a retransmission is
  not stored twice), or stores it under a number above every number ever given out, after all other
  rows; and every command of the writer thread keeps the ledger well-formed, whichever storage calls fail.\<close>

theorem ledger_append_contract:
  assumes "ledger_ok db"
  shows "(case append_event ok ev db of
            (None, db') \<Rightarrow> db' = db
          | (Some n, db') \<Rightarrow> ledger_ok db' \<and> (\<exists>ev0. (n, ev0) \<in> set (rows db') \<and> event_id ev0 = event_id ev)
              \<and> append_event True ev db' = (Some n, db')
              \<and> (db' = db \<or> last_rowid db < n \<and> rows db' = rows db @ [(n, ev)]))
    \<and> ledger_ok (events (writer_step local_node fs cmd (s\<lparr>events := db\<rparr>)))"
proof -
  obtain r db' where a: "append_event ok ev db = (r, db')" by fastforce
  have again: "append_event True ev db' = (Some n, db')"
    if "ledger_ok db'" "(n, ev0) \<in> set (rows db')" "event_id ev0 = event_id ev" for n ev0
  proof -
    obtain r2 db2 where a2: "append_event True ev db' = (r2, db2)" by fastforce
    then show ?thesis
    proof (cases rule: append_event_cases)
      case failed
      then show ?thesis using a2 by (auto simp: append_event_def Let_def split: option.splits)
    next
      case (known m ev1)
      have "(m, ev1) = (n, ev0)"
        using that known inj_onD [of "event_id \<circ> snd" "set (rows db')" "(m, ev1)" "(n, ev0)"]
        by (simp add: ledger_ok_def distinct_map)
      then show ?thesis using a2 known by simp
    next
      case fresh
      have "event_id ev0 \<in> event_id ` snd ` set (rows db')"
        using imageI [OF imageI [OF that(2), of snd], of event_id] by simp
      then show ?thesis using fresh(2) that(3) by simp
    qed
  qed
  have "ledger_ok db'" by (rule ledger_ok_append(1) [OF assms a])
  then have "case append_event ok ev db of
            (None, db') \<Rightarrow> db' = db
          | (Some n, db') \<Rightarrow> ledger_ok db' \<and> (\<exists>ev0. (n, ev0) \<in> set (rows db') \<and> event_id ev0 = event_id ev)
              \<and> append_event True ev db' = (Some n, db')
              \<and> (db' = db \<or> last_rowid db < n \<and> rows db' = rows db @ [(n, ev)])"
    using a again by (cases rule: append_event_cases [OF a]) auto
  then show ?thesis using writer_step_ok [of "s\<lparr>events := db\<rparr>" local_node fs cmd] assms by simp
qed

text \<open>The rows the query puts before the row \<open>n\<close>.\<close>

definition rows_ahead :: "string \<Rightarrow> nat \<Rightarrow> mesh_node \<Rightarrow> nat" where
  "rows_ahead t n s =
     length (filter (\<lambda>r. (fst r > cursor s t \<and> (target_node_id (snd r) = None \<or> target_node_id (snd r) = Some t)) \<and> fst r < n)
       (rows (events s)))"

lemma row_in_batch:
  "sorted_wrt (<) (map fst xs) \<Longrightarrow> (n, e) \<in> set xs \<Longrightarrow> P (n, e) \<Longrightarrow> length (filter (\<lambda>r. P r \<and> fst r < n) xs) < k \<Longrightarrow>
     (n, e) \<in> set (take k (filter P xs))"
proof (induction xs arbitrary: k)
  case (Cons x xs)
  show ?case
  proof (cases "x = (n, e)")
    case True
    then show ?thesis using Cons.prems(3,4) by (cases k) simp_all
  next
    case False
    then have "(n, e) \<in> set xs" "fst x < n" using Cons.prems(1,2) by force+
    then show ?thesis using Cons by (cases "P x"; cases k) auto
  qed
qed simp

text \<open>C10. Nothing is lost before it is acknowledged. An event stored for another node stays in the ledger, ahead of that
  node's cursor, through any commands of the writer thread and any storage failures, until the node acknowledges a number
  that covers it. The dispatcher's query for the node returns it whenever fewer rows than the query's limit (50 in the
  dispatcher) stand before it: rows for the node or for everybody, past its cursor, with smaller numbers. While more of
  them wait, the query returns those first.\<close>

theorem no_loss_before_ack:
  assumes "ledger_ok (events s)" "(n, ev) \<in> set (rows (events s))" "target_node_id ev = Some t" "t \<noteq> local_node"
    and "cursor s t < n" "\<forall>(fs, cmd) \<in> set cmds. \<not> covers t n cmd"
    and "s' = writer_run local_node cmds s"
  shows "(n, ev) \<in> set (rows (events s')) \<and> cursor s' t < n
    \<and> (rows_ahead t n s' < limit \<longrightarrow> row_seq ev n \<in> set (query_unacked_events t (cursor s' t) limit (events s')))"
proof -
  have s': "ledger_ok (events s')" "(n, ev) \<in> set (rows (events s'))" "cursor s' t < n"
    using writer_run_keeps [OF assms(1-6)] assms(7) by simp_all
  have "(n, ev) \<in> set (take limit (filter (\<lambda>r. fst r > cursor s' t \<and> (target_node_id (snd r) = None \<or> target_node_id (snd r) = Some t))
      (rows (events s'))))" if "rows_ahead t n s' < limit"
    by (rule row_in_batch) (use s' that assms(3) in \<open>simp_all add: ledger_ok_def rows_ahead_def\<close>)
  then show ?thesis using s' unfolding query_unacked_events_def take_map by force
qed

text \<open>What the dispatcher signs, the receiver validates. Every message of a dispatch carries one
  unacknowledged event of the target; with the same key on both sides, the receiver's check accepts it
  throughout the time window whenever the event's sequence number fits in the 32 bits the message carries;
  a larger number, truncated on the wire but signed in full, is accepted only if the MAC collides.\<close>

theorem dispatch_validates:
  assumes "dispatch_for_target mac encode key_of local_node target sends s = Inr (st, msgs)" "m \<in> set msgs"
    and "key_of target = Inr (Some key)" "timestamp m \<le> now + 60" "now < timestamp m \<or> now - timestamp m \<le> 300"
  shows "\<exists>ev \<in> set (query_unacked_events target (cursor s target) 50 (events s)). msg_payload m = encode [ev]
    \<and> (if unat (ev_seq ev) < 2 ^ 32
       then validate mac key now (msg_id m) (ucast (msg_seq m)) (msg_payload m) (timestamp m) (hmac m) = Inr ()
       else validate mac key now (msg_id m) (ucast (msg_seq m)) (msg_payload m) (timestamp m) (hmac m) \<noteq> Inr ()
         \<or> (\<exists>x y. x \<noteq> y \<and> mac key x = mac key y))"
proof -
  let ?evs = "query_unacked_events target (cursor s target) 50 (events s)"
  let ?mk = "event_message mac encode key local_node target"
  have "msgs = [] \<or> msgs = send_batch ?mk sends ?evs"
    using assms(1,3) by (auto simp: dispatch_for_target_def Let_def split: if_splits)
  moreover have "\<exists>ev \<in> set evs. \<exists>mid ts. m = ?mk mid ts ev" if "m \<in> set (send_batch ?mk xs evs)" for xs evs
    using that by (induction ?mk xs evs rule: send_batch.induct) (auto split: if_splits)
  ultimately obtain ev mid ts where ev: "ev \<in> set ?evs" and m: "m = ?mk mid ts ev"
    using assms(2) by fastforce
  have fits: "ucast (ucast (ev_seq ev) :: 32 word) = ev_seq ev \<longleftrightarrow> unat (ev_seq ev) < 2 ^ 32"
    by (simp add: word_unat_eq_iff unsigned_ucast_eq unsigned_take_bit_eq take_bit_nat_eq_self_iff)
  have "\<exists>x y. x \<noteq> y \<and> mac key x = mac key y"
    if "mac key (signed_bytes mid (ev_seq ev) (encode [ev]) ts)
      = mac key (signed_bytes mid (ucast (ucast (ev_seq ev) :: 32 word)) (encode [ev]) ts)" "\<not> unat (ev_seq ev) < 2 ^ 32"
    using that fits signed_bytes_inj [of mid "ev_seq ev" "encode [ev]" ts] by metis
  then show ?thesis
    using ev assms(4,5) fits
    by (intro bexI [of _ ev])
      (auto simp: m event_message_def validate_accepts sign_def REPLAY_WINDOW_SECS_def)
qed

text \<open>One delivery owner. The consumer whose claim of an event succeeds is its only owner for as long
  as fewer than 8192 claims follow: every later claim of the same event in that span is refused.\<close>

theorem claim_single_owner:
  assumes "claims_ok c" "fst (claim eid c)" "length es < MAX_CLAIMS"
  shows "\<not> fst (claim eid (fold (\<lambda>e c. snd (claim e c)) es (snd (claim eid c))))"
proof -
  have new: "eid \<notin> claimed c" using assms(2) by (auto simp: claim_def split: if_splits)
  obtain xs where "order (snd (claim eid c)) = xs @ eid # []"
    using claim_unfold [OF assms(1) new] by (cases "length (order c) = MAX_CLAIMS") auto
  from claim_remembered [OF claims_ok_claim [OF assms(1)] this] assms(3) show ?thesis
    by (simp add: claim_def)
qed

text \<open>An acknowledgement is cumulative. The receiver answers each message with the number of the event in
  it; processing that answer removes every row for this receiver up to that number, whether or not the
  earlier ones ever arrived, keeps all other rows as they are, and moves the cursor to the number, never
  back.\<close>

theorem ack_is_cumulative:
  assumes "n < 2 ^ 64" "s' = writer_step local_node [] (ProcessAck t (unat (acked_seq [row_seq ev n]))) s"
  shows "rows (events s') = filter (\<lambda>r. \<not> (target_node_id (snd r) = Some t \<and> fst r \<le> n)) (rows (events s))
    \<and> cursor s' = (cursor s)(t := max (cursor s t) n)
    \<and> (\<forall>(m, e) \<in> set (rows (events s)). target_node_id e = Some t \<and> m < n \<longrightarrow> (m, e) \<notin> set (rows (events s')))"
proof -
  have "unat (acked_seq [row_seq ev n]) = n"
    using assms(1) by (simp add: acked_seq_def row_seq_def unat_of_nat take_bit_nat_eq_self)
  then show ?thesis
    by (auto simp: assms(2) Let_def delete_delivered_events_def advance_cursor_def)
qed

subsubsection \<open>Instances\<close>

definition demo_event :: "128 word \<Rightarrow> EventEnvelope" where
  "demo_event eid = \<lparr>event_id = eid, ev_seq = 0, source_node_id = ''me'', target_node_id = Some ''peer'',
     source_agent_id = ''a'', target_agent_id = Some ''b'', kind = TaskInvoke, corr_id = ''c'', attempt = 1,
     created_at = 0, expires_at = None, payload = Inline ''hi'', trace = []\<rparr>"

definition demo_ledger :: event_db where
  "demo_ledger = \<lparr>rows = [(1, demo_event 11), (2, demo_event 12)], last_rowid = 2\<rparr>"

definition demo_node :: mesh_node where
  "demo_node = \<lparr>events = demo_ledger, cursor = (\<lambda>_. 0)\<rparr>"

lemma demo_ledger_ok: "ledger_ok demo_ledger"
  by (simp add: ledger_ok_def demo_ledger_def demo_event_def)

theorem ledger_append_contract_witness:
  "ledger_ok (events (writer_step ''me'' [False] (AppendLocal (demo_event 13)) (demo_node\<lparr>events := demo_ledger\<rparr>)))"
  using ledger_append_contract [OF demo_ledger_ok, where local_node = "''me''" and fs = "[False]"
      and cmd = "AppendLocal (demo_event 13)" and s = demo_node] by blast

theorem no_loss_before_ack_witness:
  "rows_ahead ''peer'' 2 (writer_run ''me'' [([], ProcessAck ''peer'' 1)] demo_node) = 0
   \<and> row_seq (demo_event 12) 2 \<in> set (query_unacked_events ''peer''
     (cursor (writer_run ''me'' [([], ProcessAck ''peer'' 1)] demo_node) ''peer'') 50
     (events (writer_run ''me'' [([], ProcessAck ''peer'' 1)] demo_node)))"
proof -
  have ok: "ledger_ok (events demo_node)" by (simp add: demo_node_def demo_ledger_ok)
  have "(2, demo_event 12) \<in> set (rows (events demo_node))" "target_node_id (demo_event 12) = Some ''peer''"
    "''peer'' \<noteq> ''me''" "cursor demo_node ''peer'' < 2"
    "\<forall>(fs, cmd) \<in> set [([] :: bool list, ProcessAck ''peer'' 1)]. \<not> covers ''peer'' 2 cmd"
    and r: "rows_ahead ''peer'' 2 (writer_run ''me'' [([], ProcessAck ''peer'' 1)] demo_node) = 0"
    by (simp_all add: covers_def demo_node_def demo_ledger_def delete_delivered_events_def demo_event_def Let_def rows_ahead_def)
  from no_loss_before_ack [OF ok this(1-5) refl, of 50] r show ?thesis by simp
qed

theorem dispatch_validates_witness:
  "\<exists>m. validate (\<lambda>k x. k @ x) ''psk'' 1010 (msg_id m) (ucast (msg_seq m)) (msg_payload m) (timestamp m) (hmac m) = Inr ()
     \<and> dispatch_for_target (\<lambda>k x. k @ x) (\<lambda>_. ''[]'') (\<lambda>_. Inr (Some ''psk'')) ''me'' ''peer'' [(5, 1000, True)] demo_node
         = Inr (Dispatched, [m])"
proof -
  let ?mac = "\<lambda>k x. k @ x" and ?enc = "\<lambda>_ :: EventEnvelope list. ''[]''"
  let ?m = "event_message ?mac ?enc ''psk'' ''me'' ''peer'' 5 1000 (row_seq (demo_event 11) 1)"
  have d: "dispatch_for_target ?mac ?enc (\<lambda>_. Inr (Some ''psk'')) ''me'' ''peer'' [(5, 1000, True)] demo_node
      = Inr (Dispatched, [?m])"
    by (simp add: dispatch_for_target_def query_unacked_events_def demo_node_def demo_ledger_def demo_event_def)
  have "?m \<in> set [?m]" "timestamp ?m \<le> 1010 + 60" "1010 < timestamp ?m \<or> 1010 - timestamp ?m \<le> 300"
    by (simp_all add: event_message_def)
  from dispatch_validates [OF d this(1) refl this(2,3)]
  obtain ev where ev: "ev \<in> set (query_unacked_events ''peer'' (cursor demo_node ''peer'') 50 (events demo_node))"
    and v: "if unat (ev_seq ev) < 2 ^ 32
       then validate ?mac ''psk'' 1010 (msg_id ?m) (ucast (msg_seq ?m)) (msg_payload ?m) (timestamp ?m) (hmac ?m) = Inr ()
       else validate ?mac ''psk'' 1010 (msg_id ?m) (ucast (msg_seq ?m)) (msg_payload ?m) (timestamp ?m) (hmac ?m) \<noteq> Inr ()
         \<or> (\<exists>x y. x \<noteq> y \<and> ?mac ''psk'' x = ?mac ''psk'' y)" by blast
  have "unat (ev_seq ev) < 2 ^ 32"
    using ev by (auto simp: query_unacked_events_def demo_node_def demo_ledger_def demo_event_def row_seq_def)
  with v d show ?thesis by auto
qed

theorem claim_single_owner_witness:
  "\<not> fst (claim 7 (fold (\<lambda>e c. snd (claim e c)) [1, 2, 3] (snd (claim 7 claims_default))))"
proof -
  have "claims_ok claims_default" "fst (claim 7 claims_default)" "length [1, 2, 3 :: 128 word] < MAX_CLAIMS"
    by (simp_all add: claims_ok_def claims_default_def claim_def MAX_CLAIMS_def)
  then show ?thesis by (rule claim_single_owner)
qed

theorem ack_is_cumulative_witness:
  "query_unacked_events ''peer'' 0 50 (events (writer_step ''me'' []
      (ProcessAck ''peer'' (unat (acked_seq [row_seq (demo_event 12) 2]))) demo_node)) = []"
  using ack_is_cumulative [OF _ refl, of 2 "''me''" "''peer''" "demo_event 12" demo_node]
  by (simp add: query_unacked_events_def demo_node_def demo_ledger_def demo_event_def)

end
