(* ===== verification/CredentialPool.thy ===== *)
theory CredentialPool
  imports Prelude
begin

section \<open>The model router's credential pool\<close>

text \<open>
  Models \<^verbatim>\<open>crates/model-router/src/credential_pool.rs\<close>: the ring of API keys of one provider, the
  cooldown of a key that failed, the rotation to the next eligible key, the pin on the last good one, and
  the refresh that keeps cooldowns by label. An \<open>Instant\<close> is a number of nanoseconds; the \<open>Instant::now()\<close> of
  an operation is its argument. \<open>duration_since\<close> saturates at zero, as the subtraction of \<open>nat\<close> does.
\<close>

subsection \<open>Cooldowns\<close>

datatype RotationTrigger = RateLimit | AuthFailure | Billing

definition from_sub_kind :: "string option \<Rightarrow> RotationTrigger option" where
  "from_sub_kind k =
     (if k = Some ''provider_auth'' then Some AuthFailure
      else if k = Some ''rate_limit'' then Some RateLimit
      else None)"

datatype DisabledReason = DisabledBilling

datatype MemberSource = EnvSource string | SecretRef string

definition RATE_LIMIT_COOLDOWNS_SECS :: "nat list" where "RATE_LIMIT_COOLDOWNS_SECS = [30, 60, 300]"

definition AUTH_COOLDOWN_SECS :: nat where "AUTH_COOLDOWN_SECS = 300"

definition FAILURE_WINDOW_SECS :: nat where "FAILURE_WINDOW_SECS = 24 * 60 * 60"

definition from_secs :: "nat \<Rightarrow> nat" where "from_secs s = s * 1000000000"

record CooldownState =
  cd_until :: "nat option"
  error_count :: nat
  last_failure :: "nat option"
  disabled_reason :: "DisabledReason option"

definition cooldown_default :: CooldownState where
  "cooldown_default = \<lparr>cd_until = None, error_count = 0, last_failure = None, disabled_reason = None\<rparr>"

definition is_cooling :: "CooldownState \<Rightarrow> nat \<Rightarrow> bool" where
  "is_cooling c now \<longleftrightarrow> disabled_reason c \<noteq> None \<or> (case cd_until c of Some t \<Rightarrow> t > now | None \<Rightarrow> False)"

definition record_failure :: "CooldownState \<Rightarrow> RotationTrigger \<Rightarrow> nat \<Rightarrow> CooldownState" where
  "record_failure c trigger now =
     (let c1 = (case last_failure c of
                  Some prev \<Rightarrow> if now - prev > from_secs FAILURE_WINDOW_SECS then c\<lparr>error_count := 0\<rparr> else c
                | None \<Rightarrow> c);
          c2 = c1\<lparr>error_count := sat_add32 (error_count c1) 1, last_failure := Some now\<rparr>
      in case trigger of
           RateLimit \<Rightarrow>
             let idx = min (error_count c2 - 1) (length RATE_LIMIT_COOLDOWNS_SECS - 1)
             in c2\<lparr>cd_until := Some (now + from_secs (RATE_LIMIT_COOLDOWNS_SECS ! idx))\<rparr>
         | AuthFailure \<Rightarrow> c2\<lparr>cd_until := Some (now + from_secs AUTH_COOLDOWN_SECS)\<rparr>
         | Billing \<Rightarrow> c2\<lparr>disabled_reason := Some DisabledBilling, cd_until := None\<rparr>)"

definition record_success :: "CooldownState \<Rightarrow> CooldownState" where
  "record_success c = c\<lparr>cd_until := None, error_count := 0, last_failure := None, disabled_reason := None\<rparr>"

subsection \<open>The pool\<close>

record PoolMember =
  pm_label :: string
  pm_source :: MemberSource
  plaintext :: "string option"
  cooldown :: CooldownState

record CredentialPool =
  pool_provider :: string
  members :: "PoolMember list"
  pinned :: "nat option"

definition pool_new :: "string \<Rightarrow> CredentialPool" where
  "pool_new p = \<lparr>pool_provider = p, members = [], pinned = None\<rparr>"

text \<open>\<open>iter().position\<close>, and \<open>iter_mut().find\<close> followed by an update in place.\<close>

fun position :: "('a \<Rightarrow> bool) \<Rightarrow> 'a list \<Rightarrow> nat option" where
  "position P [] = None"
| "position P (x # xs) = (if P x then Some 0 else map_option Suc (position P xs))"

fun update_first :: "('a \<Rightarrow> bool) \<Rightarrow> ('a \<Rightarrow> 'a) \<Rightarrow> 'a list \<Rightarrow> 'a list" where
  "update_first P f [] = []"
| "update_first P f (x # xs) = (if P x then f x # xs else x # update_first P f xs)"

definition reconciled_member :: "PoolMember list \<Rightarrow> string \<times> MemberSource \<times> string option \<Rightarrow> PoolMember" where
  "reconciled_member old = (\<lambda>(lbl, src, key).
     \<lparr>pm_label = lbl, pm_source = src, plaintext = key,
      cooldown = (case find (\<lambda>m. pm_label m = lbl) old of Some m \<Rightarrow> cooldown m | None \<Rightarrow> cooldown_default)\<rparr>)"

definition reconcile ::
  "CredentialPool \<Rightarrow> (string \<times> MemberSource \<times> string option) list \<Rightarrow> CredentialPool" where
  "reconcile pool resolved =
     (let fresh = map (reconciled_member (members pool)) resolved;
          pin = (case pinned pool of
                   None \<Rightarrow> None
                 | Some old \<Rightarrow>
                     if old < length (members pool)
                     then position (\<lambda>m. pm_label m = pm_label (members pool ! old)) fresh
                     else None)
      in pool\<lparr>members := fresh, pinned := pin\<rparr>)"

definition fail_member :: "RotationTrigger \<Rightarrow> nat \<Rightarrow> PoolMember \<Rightarrow> PoolMember" where
  "fail_member trigger now m = m\<lparr>cooldown := record_failure (cooldown m) trigger now\<rparr>"

definition mark_resolution_failed :: "CredentialPool \<Rightarrow> string \<Rightarrow> nat \<Rightarrow> CredentialPool" where
  "mark_resolution_failed pool lbl now =
     pool\<lparr>members := update_first (\<lambda>m. pm_label m = lbl) (fail_member AuthFailure now) (members pool)\<rparr>"

definition eligible :: "PoolMember list \<Rightarrow> nat \<Rightarrow> nat \<Rightarrow> (nat \<times> string) option" where
  "eligible ms now i =
     (if i < length ms \<and> \<not> is_cooling (cooldown (ms ! i)) now
      then map_option (\<lambda>k. (i, k)) (plaintext (ms ! i)) else None)"

definition active_member :: "CredentialPool \<Rightarrow> nat \<Rightarrow> (nat \<times> string) option" where
  "active_member pool now =
     (case (case pinned pool of Some p \<Rightarrow> eligible (members pool) now p | None \<Rightarrow> None) of
        Some hit \<Rightarrow> Some hit
      | None \<Rightarrow> find_map (eligible (members pool) now) [0..<length (members pool)])"

definition rotate_on_failure ::
  "CredentialPool \<Rightarrow> nat \<Rightarrow> RotationTrigger \<Rightarrow> nat \<Rightarrow> (nat \<times> string) option \<times> CredentialPool" where
  "rotate_on_failure pool idx trigger now =
     (let ms = (if idx < length (members pool)
                then (members pool)[idx := fail_member trigger now (members pool ! idx)] else members pool);
          n = length ms
      in case find_map (\<lambda>step. eligible ms now ((idx + step) mod n)) [1..<Suc n] of
           Some (j, key) \<Rightarrow> (Some (j, key), pool\<lparr>members := ms, pinned := Some j\<rparr>)
         | None \<Rightarrow> (None, pool\<lparr>members := ms\<rparr>))"

definition note_success :: "CredentialPool \<Rightarrow> nat \<Rightarrow> CredentialPool" where
  "note_success pool idx =
     pool\<lparr>members := (if idx < length (members pool)
                      then (members pool)[idx := (members pool ! idx)\<lparr>cooldown := record_success (cooldown (members pool ! idx))\<rparr>]
                      else members pool),
          pinned := Some idx\<rparr>"

definition has_alternates :: "CredentialPool \<Rightarrow> bool" where
  "has_alternates pool \<longleftrightarrow> length (filter (\<lambda>m. plaintext m \<noteq> None) (members pool)) > 1"


subsection \<open>Cooldown lemmas\<close>

lemma from_secs_pos [simp]: "0 < from_secs s \<longleftrightarrow> 0 < s"
  by (simp add: from_secs_def)

lemma from_secs_mono: "s \<le> t \<Longrightarrow> from_secs s \<le> from_secs t"
  by (simp add: from_secs_def)

lemma rate_limit_step:
  "0 < RATE_LIMIT_COOLDOWNS_SECS ! min k 2" "RATE_LIMIT_COOLDOWNS_SECS ! min k 2 \<le> 300"
proof -
  have "min k 2 = 0 \<or> min k 2 = 1 \<or> min k 2 = 2" by linarith
  then show "0 < RATE_LIMIT_COOLDOWNS_SECS ! min k 2" "RATE_LIMIT_COOLDOWNS_SECS ! min k 2 \<le> 300"
    by (auto simp: RATE_LIMIT_COOLDOWNS_SECS_def)
qed

lemma length_cooldowns [simp]: "length RATE_LIMIT_COOLDOWNS_SECS - Suc 0 = 2"
  by (simp add: RATE_LIMIT_COOLDOWNS_SECS_def)

lemma record_failure_cools: "is_cooling (record_failure c trigger now) now"
  using rate_limit_step
  by (cases trigger) (auto simp: record_failure_def is_cooling_def AUTH_COOLDOWN_SECS_def Let_def)

lemma record_failure_last [simp]: "last_failure (record_failure c trigger now) = Some now"
  by (cases trigger) (auto simp: record_failure_def Let_def split: option.splits)

text \<open>A cooldown that no billing failure touched ends at most 300 seconds after the last failure.\<close>

definition timed :: "CooldownState \<Rightarrow> bool" where
  "timed c \<longleftrightarrow> disabled_reason c = None
     \<and> (case cd_until c of None \<Rightarrow> True
        | Some u \<Rightarrow> (\<exists>l. last_failure c = Some l \<and> u \<le> l + from_secs 300))"

lemma timed_default [simp]: "timed cooldown_default"
  by (simp add: timed_def cooldown_default_def)

lemma last_failure_default [simp]: "last_failure cooldown_default = None"
  by (simp add: cooldown_default_def)

lemma timed_success [simp]: "timed (record_success c)"
  by (simp add: timed_def record_success_def)

lemma timed_failure: "timed c \<Longrightarrow> trigger \<noteq> Billing \<Longrightarrow> timed (record_failure c trigger now)"
  using rate_limit_step(2) from_secs_mono
  by (cases trigger) (auto simp: record_failure_def timed_def AUTH_COOLDOWN_SECS_def Let_def split: option.splits)

lemma timed_expires:
  "timed c \<Longrightarrow> (\<And>l. last_failure c = Some l \<Longrightarrow> l \<le> T) \<Longrightarrow> T + from_secs 300 \<le> now \<Longrightarrow> \<not> is_cooling c now"
  by (fastforce simp: timed_def is_cooling_def split: option.splits)

lemma from_sub_kind_not_billing: "from_sub_kind k = Some t \<Longrightarrow> t \<noteq> Billing"
  by (auto simp: from_sub_kind_def split: if_splits)

subsection \<open>Rotation lemmas\<close>

lemma eligible_SomeD:
  "eligible ms now i = Some (j, key) \<Longrightarrow>
     j = i \<and> i < length ms \<and> \<not> is_cooling (cooldown (ms ! i)) now \<and> plaintext (ms ! i) = Some key"
  by (auto simp: eligible_def split: if_splits)

lemma active_member_None_iff:
  "active_member pool now = None \<longleftrightarrow> (\<forall>i < length (members pool). eligible (members pool) now i = None)"
  by (auto simp: active_member_def find_map_None_iff eligible_def split: option.splits)

lemma ring_reaches:
  assumes "i < n" "idx < (n :: nat)"
  obtains step where "1 \<le> step" "step \<le> n" "(idx + step) mod n = i"
proof (cases "idx < i")
  case True
  with assms show ?thesis by (intro that [of "i - idx"]) auto
next
  case False
  with assms have "(idx + (n - idx + i)) mod n = i" "1 \<le> n - idx + i" "n - idx + i \<le> n" by auto
  then show ?thesis by (rule that [rotated 2])
qed

lemma find_eligible:
  "find_map (\<lambda>x. eligible ms now (g x)) xs = Some (j, key) \<Longrightarrow> eligible ms now j = Some (j, key)"
  by (induction xs) (auto dest: eligible_SomeD split: option.splits)

lemma rotate_SomeD:
  assumes "rotate_on_failure pool idx trigger now = (Some (j, key), pool')"
  shows "j \<noteq> idx" "eligible (members pool') now j = Some (j, key)" "pinned pool' = Some j"
proof -
  let ?ms = "if idx < length (members pool)
    then (members pool)[idx := fail_member trigger now (members pool ! idx)] else members pool"
  have out: "eligible ?ms now j = Some (j, key)" "members pool' = ?ms" "pinned pool' = Some j"
    using assms by (auto simp: rotate_on_failure_def Let_def simp del: upt_Suc dest!: find_eligible split: option.splits)
  then show "eligible (members pool') now j = Some (j, key)" "pinned pool' = Some j" by simp_all
  show "j \<noteq> idx"
    using eligible_SomeD [OF out(1)] by (auto simp: fail_member_def record_failure_cools split: if_splits)
qed

lemma update_first_cases:
  "x \<in> set (update_first P f xs) \<Longrightarrow> x \<in> set xs \<or> (\<exists>y\<in>set xs. x = f y)"
  by (induction xs) (auto split: if_splits)

lemma position_Some_iff:
  "position P xs = Some i \<longleftrightarrow> i < length xs \<and> P (xs ! i) \<and> (\<forall>j < i. \<not> P (xs ! j))"
proof (induction xs arbitrary: i)
  case (Cons x xs)
  then show ?case by (cases i) (auto simp: All_less_Suc2)
qed simp

subsection \<open>Histories of pool operations\<close>

datatype pool_op =
    OpReconcile "(string \<times> MemberSource \<times> string option) list"
  | OpResolutionFailed string nat
  | OpRotate nat "string option" nat
  | OpSuccess nat

fun pool_step :: "CredentialPool \<Rightarrow> pool_op \<Rightarrow> CredentialPool" where
  "pool_step pool (OpReconcile resolved) = reconcile pool resolved"
| "pool_step pool (OpResolutionFailed lbl now) = mark_resolution_failed pool lbl now"
| "pool_step pool (OpRotate idx sub_kind now) =
     (case from_sub_kind sub_kind of
        Some trigger \<Rightarrow> snd (rotate_on_failure pool idx trigger now) | None \<Rightarrow> pool)"
| "pool_step pool (OpSuccess idx) = note_success pool idx"

fun op_time :: "pool_op \<Rightarrow> nat" where
  "op_time (OpResolutionFailed _ now) = now"
| "op_time (OpRotate _ _ now) = now"
| "op_time _ = 0"

definition recovers_by :: "nat \<Rightarrow> CredentialPool \<Rightarrow> bool" where
  "recovers_by T pool \<longleftrightarrow>
     (\<forall>m\<in>set (members pool). timed (cooldown m) \<and> (\<forall>l. last_failure (cooldown m) = Some l \<longrightarrow> l \<le> T))"

lemma recovers_by_fail:
  "timed (cooldown m) \<Longrightarrow> now \<le> T \<Longrightarrow> trigger \<noteq> Billing \<Longrightarrow>
     timed (cooldown (fail_member trigger now m)) \<and> last_failure (cooldown (fail_member trigger now m)) = Some now"
  by (simp add: fail_member_def timed_failure)

lemma members_rotate:
  "members (snd (rotate_on_failure pool idx trigger now)) =
     (if idx < length (members pool)
      then (members pool)[idx := fail_member trigger now (members pool ! idx)] else members pool)"
  by (auto simp: rotate_on_failure_def Let_def split: option.splits)

lemma recovers_by_reconcile: "recovers_by T pool \<Longrightarrow> recovers_by T (reconcile pool resolved)"
  by (auto simp: recovers_by_def reconcile_def reconciled_member_def Let_def
      split: option.splits dest!: find_Some_in)

lemma recovers_by_step:
  assumes "recovers_by T pool" "op_time q \<le> T"
  shows "recovers_by T (pool_step pool q)"
proof (cases q)
  case (OpReconcile resolved)
  with assms show ?thesis by (simp add: recovers_by_reconcile)
next
  case (OpResolutionFailed lbl now)
  with assms show ?thesis
    by (auto simp: recovers_by_def mark_resolution_failed_def recovers_by_fail dest!: update_first_cases)
next
  case (OpRotate idx sub_kind now)
  show ?thesis
  proof (cases "from_sub_kind sub_kind")
    case (Some trigger)
    with OpRotate assms from_sub_kind_not_billing [OF Some] show ?thesis
      by (auto simp: recovers_by_def members_rotate recovers_by_fail dest!: set_update_subset_insert [THEN subsetD])
  qed (simp add: OpRotate assms)
next
  case (OpSuccess idx)
  with assms show ?thesis
    by (auto simp: recovers_by_def note_success_def dest!: set_update_subset_insert [THEN subsetD])
      (simp_all add: record_success_def)
qed

lemma recovers_by_history:
  "recovers_by T pool \<Longrightarrow> (\<forall>q\<in>set ops. op_time q \<le> T) \<Longrightarrow> recovers_by T (foldl pool_step pool ops)"
  by (induction ops arbitrary: pool) (auto intro: recovers_by_step)

subsection \<open>Theorems\<close>

text \<open>C32. Rotation finds the nearest usable key. When the key at a position fails, that member and no other changes
  and is cooling; the rotation returns the first member after it on the ring that is neither cooling nor
  unresolved, never the failed one, and pins it; it gives up exactly when no member is usable. What it
  returns is what the next request at that instant will use.\<close>

theorem rotate_contract:
  assumes "idx < length (members pool)" "rotate_on_failure pool idx trigger now = (r, pool')"
  shows "members pool' = (members pool)[idx := fail_member trigger now (members pool ! idx)]
    \<and> is_cooling (cooldown (members pool' ! idx)) now
    \<and> active_member pool' now = r
    \<and> (case r of
         None \<Rightarrow> \<forall>i < length (members pool'). eligible (members pool') now i = None
       | Some (j, key) \<Rightarrow> j \<noteq> idx \<and> pinned pool' = Some j \<and> eligible (members pool') now j = Some (j, key)
           \<and> (\<exists>step. j = (idx + step) mod length (members pool')
                \<and> (\<forall>s. 0 < s \<and> s < step \<longrightarrow> eligible (members pool') now ((idx + s) mod length (members pool')) = None)))"
proof -
  let ?ms = "(members pool)[idx := fail_member trigger now (members pool ! idx)]"
  let ?n = "length (members pool)"
  let ?f = "\<lambda>step. eligible ?ms now ((idx + step) mod ?n)"
  have cools: "is_cooling (cooldown (?ms ! idx)) now"
    using assms(1) by (simp add: fail_member_def record_failure_cools)
  show ?thesis
  proof (cases "find_map ?f [1..<Suc ?n]")
    case None
    with assms have out: "r = None" "members pool' = ?ms"
      by (auto simp: rotate_on_failure_def Let_def)
    have "eligible ?ms now i = None" if i: "i < ?n" for i
    proof -
      obtain step where "1 \<le> step" "step \<le> ?n" "(idx + step) mod ?n = i"
        using ring_reaches [OF i assms(1)] .
      then show ?thesis using None by (auto simp: find_map_None_iff)
    qed
    with out cools show ?thesis by (simp add: active_member_None_iff)
  next
    case (Some hit)
    obtain j key where hit: "hit = (j, key)" by fastforce
    with Some assms have out: "r = Some (j, key)" "members pool' = ?ms" "pinned pool' = Some j"
      by (auto simp: rotate_on_failure_def Let_def)
    obtain k where k: "k < ?n" "?f (Suc k) = Some (j, key)" "\<forall>i < k. ?f (Suc i) = None"
      using find_map_SomeD [OF Some [unfolded hit]] by (auto simp del: upt_Suc)
    then have j: "j = (idx + Suc k) mod ?n" "eligible ?ms now j = Some (j, key)"
      using eligible_SomeD [OF k(2)] by auto
    have "\<forall>s. 0 < s \<and> s < Suc k \<longrightarrow> ?f s = None"
      using k(3) by (metis Suc_less_eq gr0_conv_Suc)
    moreover have "j \<noteq> idx" using cools eligible_SomeD [OF j(2)] by auto
    ultimately show ?thesis using out cools j
      by (auto simp: active_member_def intro!: exI [of _ "Suc k"])
  qed
qed

text \<open>A key pool recovers. After any history of refreshes, resolution failures, provider failures (with the
  triggers the classifier can produce) and successes on a new pool, 300 seconds after the last operation every
  member whose key resolves is usable again, so a request finds a key whenever one resolved.\<close>

theorem pool_recovers:
  assumes "pool = foldl pool_step (pool_new p) ops" "\<forall>q\<in>set ops. op_time q \<le> T"
    and "T + from_secs 300 \<le> now" "i < length (members pool)" "plaintext (members pool ! i) = Some key"
  shows "eligible (members pool) now i = Some (i, key) \<and> (\<exists>j k. active_member pool now = Some (j, k))"
proof -
  have "recovers_by T pool"
    using assms(1,2) recovers_by_history [of T "pool_new p"] by (simp add: recovers_by_def pool_new_def)
  then have "\<not> is_cooling (cooldown (members pool ! i)) now"
    using assms(3) nth_mem [OF assms(4)] by (intro timed_expires [of _ T]) (simp_all add: recovers_by_def)
  then have "eligible (members pool) now i = Some (i, key)" using assms(4,5) by (simp add: eligible_def)
  moreover from this have "active_member pool now \<noteq> None"
    using active_member_None_iff [of pool now] assms(4) by force
  ultimately show ?thesis by auto
qed

text \<open>A refresh keeps what the pool knows. After a refresh with distinct labels, a member whose label survives
  keeps its cooldown, a new one starts fresh, and if the pinned member survives, is not cooling and its
  key resolves, requests stay on it, wherever it moved to in the ring.\<close>

theorem reconcile_keeps_state:
  assumes "distinct (map fst resolved)" "i < length resolved" "resolved ! i = (lbl, src, key)"
  shows "cooldown (members (reconcile pool resolved) ! i)
      = (case find (\<lambda>m. pm_label m = lbl) (members pool) of Some m \<Rightarrow> cooldown m | None \<Rightarrow> cooldown_default)
    \<and> plaintext (members (reconcile pool resolved) ! i) = key
    \<and> (pinned pool = Some p \<and> p < length (members pool) \<and> pm_label (members pool ! p) = lbl
       \<and> distinct (map pm_label (members pool)) \<and> \<not> is_cooling (cooldown (members pool ! p)) now \<and> key = Some k
       \<longrightarrow> active_member (reconcile pool resolved) now = Some (i, k))"
proof -
  let ?fresh = "map (reconciled_member (members pool)) resolved"
  have at: "?fresh ! i = reconciled_member (members pool) (lbl, src, key)" using assms by simp
  have labels: "map pm_label ?fresh = map fst resolved" by (auto simp: reconciled_member_def)
  {
    assume pin: "pinned pool = Some p" "p < length (members pool)" "pm_label (members pool ! p) = lbl"
      and d: "distinct (map pm_label (members pool))"
      and ok: "\<not> is_cooling (cooldown (members pool ! p)) now" "key = Some k"
    have "pm_label (?fresh ! j) \<noteq> lbl" if "j < i" for j
      using assms that labels nth_eq_iff_index_eq [OF assms(1), of j i]
      by (metis (no_types, lifting) at fst_conv length_map less_trans nat_neq_iff nth_map)
    then have "position (\<lambda>m. pm_label m = lbl) ?fresh = Some i"
      using assms(2,3) at by (auto simp: position_Some_iff reconciled_member_def)
    moreover have "find (\<lambda>m. pm_label m = lbl) (members pool) = Some (members pool ! p)"
      using pin d unfolding find_Some_iff
      by (intro exI [of _ p]) (auto simp: distinct_conv_nth)
    ultimately have "active_member (reconcile pool resolved) now = Some (i, k)"
      using pin ok assms(2) at
      by (simp add: active_member_def reconcile_def Let_def eligible_def reconciled_member_def assms(3))
  }
  then show ?thesis using assms(2,3) by (auto simp: reconcile_def reconciled_member_def Let_def)
qed

text \<open>Rate limits back off in steps. The \<open>n\<close>-th rate-limit failure in a row, each within the failure window
  of the one before, keeps the key out for 30, 60, then 300 seconds from that failure, and never longer.\<close>

theorem rate_limit_schedule:
  assumes "ts \<noteq> []" "length ts < u32_max"
    and "\<forall>i. Suc i < length ts \<longrightarrow> ts ! Suc i - ts ! i \<le> from_secs FAILURE_WINDOW_SECS"
  shows "cd_until (foldl (\<lambda>c t. record_failure c RateLimit t) cooldown_default ts)
      = Some (last ts + from_secs (RATE_LIMIT_COOLDOWNS_SECS ! min (length ts - 1) 2))"
proof -
  let ?run = "foldl (\<lambda>c t. record_failure c RateLimit t) cooldown_default"
  have "error_count (?run ts) = length ts \<and> last_failure (?run ts) = Some (last ts)
      \<and> cd_until (?run ts) = Some (last ts + from_secs (RATE_LIMIT_COOLDOWNS_SECS ! min (length ts - 1) 2))"
    using assms
  proof (induction ts rule: rev_induct)
    case (snoc t ts)
    show ?case
    proof (cases "ts = []")
      case True
      then show ?thesis by (simp add: record_failure_def cooldown_default_def sat_add32_def Let_def)
    next
      case False
      have "ts ! Suc i - ts ! i \<le> from_secs FAILURE_WINDOW_SECS" if "Suc i < length ts" for i
        using snoc.prems(3) [THEN spec, of i] that by (simp add: nth_append)
      then have win: "\<forall>i. Suc i < length ts \<longrightarrow> ts ! Suc i - ts ! i \<le> from_secs FAILURE_WINDOW_SECS" by blast
      have "t - last ts \<le> from_secs FAILURE_WINDOW_SECS"
        using snoc.prems(3) [THEN spec, of "length ts - 1"] False
        by (simp add: nth_append last_conv_nth)
      then show ?thesis using snoc.IH [OF False _ win] snoc.prems(2)
        by (simp add: record_failure_def sat_add32_def Let_def)
    qed
  qed simp
  then show ?thesis by simp
qed

subsubsection \<open>Instances\<close>

definition demo_sources :: "(string \<times> MemberSource \<times> string option) list" where
  "demo_sources = [(''env'', EnvSource ''KEY'', Some ''k0''), (''primary'', SecretRef ''s1'', None),
     (''pool[0]'', SecretRef ''s2'', Some ''k2'')]"

definition demo_pool :: CredentialPool where
  "demo_pool = pool_step (pool_new ''gemini'') (OpReconcile demo_sources)"

lemmas demo_pool_defs = demo_pool_def demo_sources_def pool_new_def reconcile_def reconciled_member_def
  cooldown_default_def Let_def

lemma demo_pool_members:
  "members demo_pool =
    [\<lparr>pm_label = ''env'', pm_source = EnvSource ''KEY'', plaintext = Some ''k0'', cooldown = cooldown_default\<rparr>,
     \<lparr>pm_label = ''primary'', pm_source = SecretRef ''s1'', plaintext = None, cooldown = cooldown_default\<rparr>,
     \<lparr>pm_label = ''pool[0]'', pm_source = SecretRef ''s2'', plaintext = Some ''k2'', cooldown = cooldown_default\<rparr>]"
  by (simp add: demo_pool_defs)

theorem rotate_contract_witness:
  "\<exists>pool'. rotate_on_failure demo_pool 0 RateLimit 5 = (Some (2, ''k2''), pool')
     \<and> active_member pool' 5 = Some (2, ''k2'') \<and> pinned pool' = Some 2"
proof -
  obtain r pool' where run: "rotate_on_failure demo_pool 0 RateLimit 5 = (r, pool')" by fastforce
  moreover have "[1..<Suc 3] = [1, 2, 3]" by (simp add: upt_rec)
  then have "fst (rotate_on_failure demo_pool 0 RateLimit 5) = Some (2, ''k2'')"
    using record_failure_cools [of cooldown_default RateLimit 5]
    by (simp add: rotate_on_failure_def demo_pool_members fail_member_def eligible_def del: upt_Suc)
      (simp add: is_cooling_def cooldown_default_def)
  moreover have "0 < length (members demo_pool)" by (simp add: demo_pool_members)
  ultimately show ?thesis using rotate_contract [OF _ run] by auto
qed

theorem pool_recovers_witness:
  "\<exists>j k. active_member (pool_step demo_pool (OpRotate 0 (Some ''rate_limit'') 7)) (7 + from_secs 300) = Some (j, k)"
proof -
  let ?ops = "[OpReconcile demo_sources, OpRotate 0 (Some ''rate_limit'') 7]"
  let ?pool = "pool_step demo_pool (OpRotate 0 (Some ''rate_limit'') 7)"
  have "?pool = foldl pool_step (pool_new ''gemini'') ?ops" by (simp add: demo_pool_def)
  moreover have "members ?pool ! 0 = fail_member RateLimit 7 (members demo_pool ! 0)" "0 < length (members ?pool)"
    by (simp_all add: from_sub_kind_def members_rotate demo_pool_members)
  then have "plaintext (members ?pool ! 0) = Some ''k0''" "0 < length (members ?pool)"
    by (simp_all add: fail_member_def demo_pool_members)
  ultimately show ?thesis
    using pool_recovers [of ?pool "''gemini''" ?ops 7 "7 + from_secs 300" 0 "''k0''"] by simp
qed

theorem reconcile_keeps_state_witness:
  "active_member (reconcile (demo_pool\<lparr>pinned := Some 2\<rparr>) [(''pool[0]'', SecretRef ''s2'', Some ''n2''), (''env'', EnvSource ''KEY'', Some ''n0'')]) 5
     = Some (0, ''n2'')"
  using reconcile_keeps_state [of "[(''pool[0]'', SecretRef ''s2'', Some ''n2''), (''env'', EnvSource ''KEY'', Some ''n0'')]" 0
      "''pool[0]''" "SecretRef ''s2''" "Some ''n2''" "demo_pool\<lparr>pinned := Some 2\<rparr>" 2 5 "''n2''"]
  by (simp add: demo_pool_members is_cooling_def cooldown_default_def)

theorem rate_limit_schedule_witness:
  "cd_until (foldl (\<lambda>c t. record_failure c RateLimit t) cooldown_default [5, 9, 12, 20]) = Some (20 + from_secs 300)"
  using rate_limit_schedule [of "[5, 9, 12, 20]"]
  by (simp add: RATE_LIMIT_COOLDOWNS_SECS_def FAILURE_WINDOW_SECS_def from_secs_def nth_Cons')

end
