(* ===== verification/ModelRouter.thy ===== *)
theory ModelRouter
  imports CredentialPool
begin

section \<open>Dispatch of a model task\<close>

text \<open>
  Models the dispatch path of \<^verbatim>\<open>crates/model-router/src/runtime.rs\<close> and the parts of \<^verbatim>\<open>controller.rs\<close> it
  calls: the choice of a provider, the classification of a failure from its message, the retry loop with
  its back-off and key rotation, the refresh of the credential pool from the environment, the
  configuration and the vault, and the time budgets. The call to a provider, the replies of the hotel and the
  JSON parser are arguments; the outer time-out that may cut the loop short is not part of it.
\<close>

subsection \<open>Choosing a provider\<close>

text \<open>A provider as the registry sees it for the task at hand: its id and whether it supports the task.\<close>

record ModelProvider =
  mp_id :: string
  mp_supports :: bool

definition resolve_provider :: "string option \<Rightarrow> ModelProvider list \<Rightarrow> ModelProvider option" where
  "resolve_provider hint ps =
     (case hint of
        Some h \<Rightarrow> find (\<lambda>p. mp_id p = h \<and> mp_supports p) ps
      | None \<Rightarrow> find mp_supports ps)"

definition all_supporting :: "ModelProvider list \<Rightarrow> ModelProvider list" where
  "all_supporting ps = filter mp_supports ps"

text \<open>\<open>profile\<close> is the stored status of a provider on this node, if there is one.\<close>

definition route_provider ::
  "(string \<Rightarrow> string option) \<Rightarrow> string option \<Rightarrow> ModelProvider list \<Rightarrow> ModelProvider option" where
  "route_provider profile hint ps =
     (case resolve_provider hint ps of
        None \<Rightarrow> None
      | Some primary \<Rightarrow>
          if hint = None \<and> profile (mp_id primary) = Some ''degraded''
          then (case find (\<lambda>p. profile (mp_id p) \<noteq> Some ''degraded'') (all_supporting ps) of
                  Some alt \<Rightarrow> Some alt | None \<Rightarrow> Some primary)
          else Some primary)"

subsection \<open>Time budgets\<close>

definition MODEL_DISPATCH_TIMEOUT_SECS_DEFAULT :: nat where "MODEL_DISPATCH_TIMEOUT_SECS_DEFAULT = 55"

definition model_dispatch_timeout :: "string option \<Rightarrow> nat" where
  "model_dispatch_timeout var =
     (case Option.bind var (\<lambda>v. parse_unsigned u64_max (trim v)) of
        Some n \<Rightarrow> if n > 0 then n else MODEL_DISPATCH_TIMEOUT_SECS_DEFAULT
      | None \<Rightarrow> MODEL_DISPATCH_TIMEOUT_SECS_DEFAULT)"

definition TRANSCRIBE_MAX_BUDGET_SECS :: nat where "TRANSCRIBE_MAX_BUDGET_SECS = 240"

definition TRANSCRIBE_UNKNOWN_DURATION_SECS :: nat where "TRANSCRIBE_UNKNOWN_DURATION_SECS = 140"

text \<open>\<open>Ord::clamp\<close> panics when its bounds are out of order.\<close>

definition ord_clamp :: "nat \<Rightarrow> nat \<Rightarrow> nat \<Rightarrow> nat option" where
  "ord_clamp x lo hi = (if lo \<le> hi then Some (max lo (min x hi)) else None)"

definition transcribe_budget_secs :: "nat \<Rightarrow> nat option \<Rightarrow> nat option" where
  "transcribe_budget_secs default_secs duration =
     (let dur = (case duration of Some d \<Rightarrow> d | None \<Rightarrow> TRANSCRIBE_UNKNOWN_DURATION_SECS)
      in ord_clamp (30 + min (dur * 3) u64_max div 2) default_secs TRANSCRIBE_MAX_BUDGET_SECS)"

definition max_duration :: "nat option list \<Rightarrow> nat option" where
  "max_duration ds = (case List.map_filter id ds of [] \<Rightarrow> None | d # rest \<Rightarrow> Some (fold max rest d))"

definition effective_dispatch_timeout :: "string option \<Rightarrow> bool \<Rightarrow> nat option list \<Rightarrow> nat option" where
  "effective_dispatch_timeout var transcribe durations =
     (let default_secs = model_dispatch_timeout var
      in if transcribe then transcribe_budget_secs default_secs (max_duration durations) else Some default_secs)"

subsection \<open>Classifying a failure\<close>

record TaskErrorPayload =
  te_kind :: string
  te_message :: string
  te_code :: "string option"
  te_component :: "string option"
  te_provider :: "string option"
  te_capability :: "string option"
  te_retryable :: "bool option"
  te_sub_kind :: "string option"
  te_status :: "nat option"
  te_error_class :: "string option"

definition provider_failure :: "string \<Rightarrow> string option \<Rightarrow> string option \<Rightarrow> string \<Rightarrow> TaskErrorPayload" where
  "provider_failure component capability provider message =
     \<lparr>te_kind = ''provider_failure'', te_message = message, te_code = None, te_component = Some component,
      te_provider = provider, te_capability = capability, te_retryable = None, te_sub_kind = None,
      te_status = None, te_error_class = None\<rparr>"

definition is_delim :: "char \<Rightarrow> bool" where
  "is_delim c \<longleftrightarrow> c \<in> set ''()[]: ,.''"

definition http_status_at :: "string \<Rightarrow> nat \<Rightarrow> nat option" where
  "http_status_at s i =
     (let tok = take 3 (drop i s) in
      if list_all is_ascii_digit tok \<and> (i = 0 \<or> is_delim (s ! (i - 1)))
         \<and> (i + 3 = length s \<or> is_delim (s ! (i + 3)))
         \<and> 400 \<le> digits_value tok \<and> digits_value tok \<le> 599
      then Some (digits_value tok) else None)"

definition extract_http_status :: "string \<Rightarrow> nat option" where
  "extract_http_status s = find_map (http_status_at s) [0..<length s - 2]"

definition mentions :: "string list \<Rightarrow> string \<Rightarrow> bool" where
  "mentions needles s \<longleftrightarrow> list_ex (\<lambda>p. contains_sub p s) needles"

definition network_needles :: "string list" where
  "network_needles = [''connection refused'', ''Connection refused'', ''failed to connect'', ''dns error'',
     ''No such host'', ''connection error'', ''error sending request'']"

definition auth_needles :: "string list" where
  "auth_needles = [''api key expired'', ''api key not valid'', ''invalid api key'', ''api_key_invalid'',
     ''unauthorized'', ''unauthenticated'']"

definition contract_needles :: "string list" where
  "contract_needles = [''invalid_argument'', ''invalid argument'', ''failed_precondition'', ''bad request'']"

definition failed_as :: "TaskErrorPayload \<Rightarrow> string \<Rightarrow> bool \<Rightarrow> string \<Rightarrow> TaskErrorPayload" where
  "failed_as payload sub retry cls =
     payload\<lparr>te_sub_kind := Some sub, te_retryable := Some retry, te_error_class := Some cls\<rparr>"

definition classify_provider_failure ::
  "(string \<Rightarrow> string) \<Rightarrow> string option \<Rightarrow> string option \<Rightarrow> string \<Rightarrow> TaskErrorPayload" where
  "classify_provider_failure tbl capability provider message =
     (let payload = (provider_failure ''model-router'' capability provider message)
                      \<lparr>te_status := extract_http_status message\<rparr>;
          lower = to_lowercase tbl message
      in if contains_sub ''gemini_content_policy_block'' message
         then (failed_as payload ''content_policy_block'' False ''content_blocked'')
                \<lparr>te_code := Some ''MODEL_CONTENT_BLOCKED''\<rparr>
         else if mentions [''tool_call.arguments missing from'', ''returned invalid tool_call'',
                           ''returned unsupported tool_call''] message
         then (failed_as payload ''content_error'' True ''switch_provider'')
                \<lparr>te_code := Some ''MODEL_INVALID_TOOL_CALL''\<rparr>
         else if mentions network_needles message then failed_as payload ''network_error'' True ''retry_same_provider''
         else if contains_sub ''provider_timeout'' message
         then failed_as payload ''provider_timeout'' True ''switch_provider''
         else if contains_sub ''streaming_timeout'' message
         then failed_as payload ''streaming_timeout'' True ''retry_same_provider''
         else if mentions [''429'', ''rate limit'', ''quota''] message
         then failed_as payload ''rate_limit'' True ''switch_provider''
         else if mentions [''401'', ''403''] message \<or> mentions auth_needles lower
         then failed_as payload ''provider_auth'' False ''fatal''
         else if mentions [''500'', ''502'', ''503'', ''504''] message
         then failed_as payload ''provider_error'' True ''retry_same_provider''
         else if (case te_status payload of Some st \<Rightarrow> 400 \<le> st \<and> st < 500 | None \<Rightarrow> False)
                 \<or> mentions contract_needles lower
         then failed_as payload ''invalid_request'' False ''switch_provider''
         else payload)"

subsection \<open>The retry loop\<close>

datatype BackoffStrategy = NoBackoff | Linear nat

record RetryPolicy =
  max_attempts :: nat
  backoff :: BackoffStrategy

definition retry_policy_default :: RetryPolicy where
  "retry_policy_default = \<lparr>max_attempts = 2, backoff = Linear 500\<rparr>"

text \<open>
  What surrounds the loop: the provider's id and task kind, the outcome of the \<open>n\<close>-th call made with the key
  of a pool member, the clock at that call's end, and whether the registry rebuilt with a new key still
  has the provider. The log lists the waits and the calls in order.
\<close>

record 'o dispatch_env =
  de_provider :: string
  de_capability :: string
  de_lower :: "string \<Rightarrow> string"
  de_invoke :: "nat \<Rightarrow> nat option \<Rightarrow> string + 'o"
  de_clock :: "nat \<Rightarrow> nat"
  de_rebuilt :: "string \<Rightarrow> bool"

datatype dispatch_event = Retrying nat | Slept nat | Invoked "nat option"

definition before_attempt :: "RetryPolicy \<Rightarrow> nat \<Rightarrow> dispatch_event list" where
  "before_attempt retry attempt =
     (if attempt > 0
      then Retrying attempt # (case backoff retry of Linear step_ms \<Rightarrow> [Slept ((step_ms * attempt) mod 2 ^ 64)] | NoBackoff \<Rightarrow> [])
      else [])"

definition try_rotate ::
  "'o dispatch_env \<Rightarrow> string option \<Rightarrow> nat \<Rightarrow> nat option \<Rightarrow> nat \<Rightarrow> CredentialPool
   \<Rightarrow> (nat \<times> string) option \<times> CredentialPool" where
  "try_rotate env sub_kind rotations_left member n pool =
     (case from_sub_kind sub_kind of
        None \<Rightarrow> (None, pool)
      | Some trigger \<Rightarrow>
          if de_provider env = ''gemini'' \<and> rotations_left > 0
          then (case member of None \<Rightarrow> (None, pool) | Some idx \<Rightarrow> rotate_on_failure pool idx trigger (de_clock env n))
          else (None, pool))"

lemma try_rotate_needs_budget: "fst (try_rotate env k rot member n pool) = Some x \<Longrightarrow> 0 < rot"
  by (auto simp: try_rotate_def split: option.splits if_splits)

definition on_success_pool :: "'o dispatch_env \<Rightarrow> nat option \<Rightarrow> CredentialPool \<Rightarrow> CredentialPool" where
  "on_success_pool env member pool =
     (if de_provider env = ''gemini''
      then (case member of Some idx \<Rightarrow> note_success pool idx | None \<Rightarrow> pool) else pool)"

text \<open>The rotation counts only when the registry rebuilt with the new key still offers the provider.\<close>

definition rotated_to :: "'o dispatch_env \<Rightarrow> (nat \<times> string) option \<Rightarrow> nat option" where
  "rotated_to env rotation =
     (case rotation of Some (nxt, key) \<Rightarrow> if de_rebuilt env key then Some nxt else None | None \<Rightarrow> None)"

function dispatch_loop ::
  "'o dispatch_env \<Rightarrow> RetryPolicy \<Rightarrow> nat \<Rightarrow> nat \<Rightarrow> nat option \<Rightarrow> nat \<Rightarrow> string \<Rightarrow> CredentialPool
   \<Rightarrow> (string + 'o) \<times> CredentialPool \<times> dispatch_event list" where
  "dispatch_loop env retry attempt rotations_left member n last_err pool =
     (if \<not> attempt < max_attempts retry then (Inl last_err, pool, [])
      else
        let pre = before_attempt retry attempt @ [Invoked member] in
        case de_invoke env n member of
          Inr out \<Rightarrow> (Inr out, on_success_pool env member pool, pre)
        | Inl e \<Rightarrow>
            let classified = classify_provider_failure (de_lower env) (Some (de_capability env)) (Some (de_provider env)) e;
                tried = try_rotate env (te_sub_kind classified) rotations_left member n pool
            in case rotated_to env (fst tried) of
                 Some nxt \<Rightarrow>
                   (case dispatch_loop env retry (max_attempts retry - 1) (rotations_left - 1) (Some nxt) (Suc n) e (snd tried) of
                      (r, p, log) \<Rightarrow> (r, p, pre @ log))
               | None \<Rightarrow>
                   if te_retryable classified = Some True \<and> attempt + 1 < max_attempts retry
                   then (case dispatch_loop env retry (attempt + 1) rotations_left member (Suc n) e (snd tried) of
                           (r, p, log) \<Rightarrow> (r, p, pre @ log))
                   else (Inl e, snd tried, pre))"
  by pat_completeness auto
termination
  by (relation "measures [\<lambda>(env, retry, attempt, rot, rest). rot,
                          \<lambda>(env, retry, attempt, rot, rest). max_attempts retry - attempt]")
    (auto simp: rotated_to_def split: option.splits if_splits dest: try_rotate_needs_budget)

declare dispatch_loop.simps [simp del]

definition dispatch ::
  "'o dispatch_env \<Rightarrow> RetryPolicy \<Rightarrow> nat option \<Rightarrow> CredentialPool \<Rightarrow> (string + 'o) \<times> CredentialPool \<times> dispatch_event list" where
  "dispatch env retry member pool =
     dispatch_loop env retry 0 2 member 0 ''dispatch: no attempts completed'' pool"

subsection \<open>Refreshing the pool\<close>

fun json_str :: "json \<Rightarrow> string option" where
  "json_str (JStr s) = Some s"
| "json_str _ = None"

definition parse_model_list :: "(string \<Rightarrow> json option) \<Rightarrow> string \<Rightarrow> string list" where
  "parse_model_list parse raw =
     (let trimmed = trim raw in
      if trimmed = [] then []
      else (case parse trimmed of
              Some (JArr items) \<Rightarrow> filter (\<lambda>m. m \<noteq> []) (map trim (List.map_filter json_str items))
            | _ \<Rightarrow> filter (\<lambda>m. m \<noteq> []) (map trim (split_on CHR '','' trimmed))))"

definition env_override :: "string option \<Rightarrow> string option" where
  "env_override var = (case var of Some v \<Rightarrow> if trim v \<noteq> [] then Some (trim v) else None | None \<Rightarrow> None)"

text \<open>The value of a configuration or secret reply: a JSON string is unquoted, anything else is kept as text.\<close>

definition reply_value :: "(string \<Rightarrow> json option) \<Rightarrow> string \<Rightarrow> string" where
  "reply_value parse v = (case Option.bind (parse v) json_str of Some s \<Rightarrow> s | None \<Rightarrow> v)"

definition non_blank :: "string option \<Rightarrow> string option" where
  "non_blank v = (case v of Some s \<Rightarrow> if trim s \<noteq> [] then Some s else None | None \<Rightarrow> None)"

datatype config_reply = ConfigData "string option" | OtherConfigReply

definition fetch_config_string :: "(string \<Rightarrow> json option) \<Rightarrow> string + config_reply \<Rightarrow> string + string option" where
  "fetch_config_string parse resp =
     (case resp of
        Inl e \<Rightarrow> Inl e
      | Inr (ConfigData v) \<Rightarrow> Inr (non_blank (map_option (reply_value parse) v))
      | Inr OtherConfigReply \<Rightarrow> Inr None)"

datatype secret_reply = SecretData "string option" | SecretRefused string | OtherSecretReply string

definition fetch_secret_string :: "(string \<Rightarrow> json option) \<Rightarrow> string + secret_reply \<Rightarrow> string + string option" where
  "fetch_secret_string parse resp =
     (case resp of
        Inl e \<Rightarrow> Inl e
      | Inr (SecretData v) \<Rightarrow> Inr (non_blank (map_option (reply_value parse) v))
      | Inr (SecretRefused msg) \<Rightarrow> Inl (''secret fetch failed: '' @ msg)
      | Inr (OtherSecretReply dbg) \<Rightarrow> Inl (''unexpected GetSecret response: '' @ dbg))"

definition fetch_provider_secret_soft_on_denial ::
  "(string \<Rightarrow> json option) \<Rightarrow> string + secret_reply \<Rightarrow> string + string option" where
  "fetch_provider_secret_soft_on_denial parse resp =
     (case fetch_secret_string parse resp of
        Inr v \<Rightarrow> Inr v
      | Inl e \<Rightarrow> if contains_sub ''is not accessible'' e then Inr None else Inl e)"

record refresh_env =
  re_env_key :: "string option"
  re_env_ref :: "string option"
  re_config :: "string \<Rightarrow> string + config_reply"
  re_secret :: "string \<Rightarrow> string + secret_reply"
  re_parse :: "string \<Rightarrow> json option"

text \<open>One member resolved from the vault: its row, and its label when the vault call failed.\<close>

definition resolve_ref :: "refresh_env \<Rightarrow> string \<Rightarrow> string \<Rightarrow> (string \<times> MemberSource \<times> string option) \<times> string list" where
  "resolve_ref env lbl secret_ref =
     (case fetch_provider_secret_soft_on_denial (re_parse env) (re_secret env secret_ref) of
        Inr v \<Rightarrow> ((lbl, SecretRef secret_ref, v), [])
      | Inl _ \<Rightarrow> ((lbl, SecretRef secret_ref, None), [lbl]))"

definition pool_label :: "nat \<Rightarrow> string" where
  "pool_label i = ''pool['' @ dec_of_nat i @ '']''"

definition resolved_members ::
  "refresh_env \<Rightarrow> string option \<Rightarrow> string list \<Rightarrow> ((string \<times> MemberSource \<times> string option) \<times> string list) list" where
  "resolved_members env primary_ref pool_refs =
     (case env_override (re_env_key env) of
        Some key \<Rightarrow> [((''env'', EnvSource ''PHILOTIC_GEMINI_API_KEY'', Some key), [])] | None \<Rightarrow> [])
     @ (case primary_ref of Some r \<Rightarrow> [resolve_ref env ''primary'' r] | None \<Rightarrow> [])
     @ map (\<lambda>(i, r). resolve_ref env (pool_label i) r) (enumerate 0 pool_refs)"

definition refresh_gemini_credential_pool ::
  "refresh_env \<Rightarrow> nat \<Rightarrow> CredentialPool \<Rightarrow> string + (CredentialPool \<times> string option)" where
  "refresh_gemini_credential_pool env now pool =
     (case (case env_override (re_env_ref env) of
              Some r \<Rightarrow> Inr (Some r)
            | None \<Rightarrow> fetch_config_string (re_parse env) (re_config env ''gemini_api_key_ref'')) of
        Inl e \<Rightarrow> Inl e
      | Inr primary_ref \<Rightarrow>
          (case fetch_config_string (re_parse env) (re_config env ''gemini_api_key_pool'') of
             Inl e \<Rightarrow> Inl e
           | Inr raw \<Rightarrow>
               let refs = (case raw of Some s \<Rightarrow> parse_model_list (re_parse env) s | None \<Rightarrow> []);
                   rows = resolved_members env primary_ref refs;
                   pool1 = foldl (\<lambda>p lbl. mark_resolution_failed p lbl now) (reconcile pool (map fst rows)) (concat (map snd rows))
               in Inr (pool1, map_option snd (active_member pool1 now))))"

subsection \<open>Lemmas of the retry loop\<close>

definition calls_of :: "dispatch_event list \<Rightarrow> nat option list" where
  "calls_of log = List.map_filter (\<lambda>e. case e of Invoked m \<Rightarrow> Some m | _ \<Rightarrow> None) log"

lemma calls_of_append [simp]: "calls_of (xs @ ys) = calls_of xs @ calls_of ys"
  by (simp add: calls_of_def List.map_filter_def)

lemma calls_of_before [simp]: "calls_of (before_attempt retry a) = []"
  by (simp add: calls_of_def before_attempt_def List.map_filter_def split: BackoffStrategy.splits)

lemma calls_of_Invoked [simp]: "calls_of (Invoked m # log) = m # calls_of log"
  by (simp add: calls_of_def List.map_filter_def)

lemma calls_of_Nil [simp]: "calls_of [] = []"
  by (simp add: calls_of_def List.map_filter_def)

text \<open>How a run of the loop goes: \<open>k\<close> calls on the member it started with, then one per rotation.\<close>

definition run_shape ::
  "'o dispatch_env \<Rightarrow> nat \<Rightarrow> nat \<Rightarrow> nat option \<Rightarrow> nat \<Rightarrow> string + 'o \<Rightarrow> nat option list \<Rightarrow> bool" where
  "run_shape env tries rot member n r calls \<longleftrightarrow>
     (\<exists>k rotated. calls = replicate (Suc k) member @ map Some rotated \<and> Suc k \<le> tries \<and> length rotated \<le> rot
        \<and> (\<forall>i < length rotated. Some (rotated ! i) \<noteq> (member # map Some rotated) ! i))
     \<and> r = de_invoke env (n + (length calls - 1)) (last calls)
     \<and> (\<forall>i < length calls - 1. \<exists>e. de_invoke env (n + i) (calls ! i) = Inl e)"

lemma run_shape_single: "0 < tries \<Longrightarrow> run_shape env tries rot member n (de_invoke env n member) [member]"
  unfolding run_shape_def by (auto intro!: exI [of _ 0] exI [of _ "[]"])

lemma run_shape_ne: "run_shape env tries rot member n r calls \<Longrightarrow> calls \<noteq> []"
  by (auto simp: run_shape_def)

lemma run_tail:
  assumes "calls \<noteq> []" "r = de_invoke env (Suc n + (length calls - 1)) (last calls)"
    and "\<forall>i < length calls - 1. \<exists>e. de_invoke env (Suc n + i) (calls ! i) = Inl e" "de_invoke env n member = Inl e0"
  shows "r = de_invoke env (n + (length (member # calls) - 1)) (last (member # calls))
    \<and> (\<forall>i < length (member # calls) - 1. \<exists>e. de_invoke env (n + i) ((member # calls) ! i) = Inl e)"
proof -
  have "\<exists>e. de_invoke env (n + i) ((member # calls) ! i) = Inl e" if "i < length calls" for i
    using that assms(3,4) by (cases i) auto
  then show ?thesis using assms(1,2) by (cases calls) auto
qed

lemma run_shape_retry:
  assumes "run_shape env tries rot member (Suc n) r calls" "de_invoke env n member = Inl e"
  shows "run_shape env (Suc tries) rot member n r (member # calls)"
proof -
  obtain k rotated where s: "calls = replicate (Suc k) member @ map Some rotated" "Suc k \<le> tries" "length rotated \<le> rot"
      "\<forall>i < length rotated. Some (rotated ! i) \<noteq> (member # map Some rotated) ! i"
    using assms(1) by (auto simp: run_shape_def)
  then have "\<exists>k rotated. member # calls = replicate (Suc k) member @ map Some rotated \<and> Suc k \<le> Suc tries
      \<and> length rotated \<le> rot \<and> (\<forall>i < length rotated. Some (rotated ! i) \<noteq> (member # map Some rotated) ! i)"
    by (intro exI [of _ "Suc k"] exI [of _ rotated]) auto
  then show ?thesis
    using run_tail [of calls r env n member e] assms run_shape_ne [OF assms(1)]
    unfolding run_shape_def by blast
qed

lemma run_shape_rotate:
  assumes "run_shape env 1 rot (Some nxt) (Suc n) r calls" "de_invoke env n member = Inl e" "Some nxt \<noteq> member"
    and "0 < tries"
  shows "run_shape env tries (Suc rot) member n r (member # calls)"
proof -
  obtain rotated where s: "calls = Some nxt # map Some rotated" "length rotated \<le> rot"
      "\<forall>i < length rotated. Some (rotated ! i) \<noteq> (Some nxt # map Some rotated) ! i"
    using assms(1) by (auto simp: run_shape_def)
  have "Some ((nxt # rotated) ! i) \<noteq> (member # map Some (nxt # rotated)) ! i" if "i < length (nxt # rotated)" for i
    using that s(3) assms(3) by (cases i) auto
  then have "\<exists>k rotated. member # calls = replicate (Suc k) member @ map Some rotated \<and> Suc k \<le> tries
      \<and> length rotated \<le> Suc rot \<and> (\<forall>i < length rotated. Some (rotated ! i) \<noteq> (member # map Some rotated) ! i)"
    using s assms(4) by (intro exI [of _ 0] exI [of _ "nxt # rotated"]) auto
  then show ?thesis
    using run_tail [of calls r env n member e] assms run_shape_ne [OF assms(1)]
    unfolding run_shape_def by blast
qed

lemma rotated_to_moves:
  "rotated_to env (fst (try_rotate env k rot member n pool)) = Some nxt \<Longrightarrow> Some nxt \<noteq> member \<and> 0 < rot"
  by (auto simp: try_rotate_def rotated_to_def split: option.splits if_splits)
    (metis prod.collapse rotate_SomeD(1))

lemma loop_shape:
  assumes "attempt < max_attempts retry"
    and "dispatch_loop env retry attempt rot member n last_err pool = (r, pool', log)"
  shows "run_shape env (max_attempts retry - attempt) rot member n r (calls_of log)"
  using assms
proof (induction env retry attempt rot member n last_err pool arbitrary: r pool' log rule: dispatch_loop.induct)
  case (1 env retry attempt rot member n last_err pool)
  note prems = "1.prems" and hyps = "1.IH"
  let ?T = "max_attempts retry"
  note unfold = dispatch_loop.simps [of env retry attempt]
  show ?case
  proof (cases "de_invoke env n member")
    case (Inr out)
    with prems show ?thesis
      using run_shape_single [of "?T - attempt" env rot member n] by (auto simp: unfold)
  next
    case (Inl e)
    define c where "c = classify_provider_failure (de_lower env) (Some (de_capability env)) (Some (de_provider env)) e"
    define tried where "tried = try_rotate env (te_sub_kind c) rot member n pool"
    note IH = hyps [OF _ refl Inl c_def tried_def]
    show ?thesis
    proof (cases "rotated_to env (fst tried)")
      case (Some nxt)
      obtain r1 p1 log1 where rec: "dispatch_loop env retry (?T - 1) (rot - 1) (Some nxt) (Suc n) e (snd tried) = (r1, p1, log1)"
        using prod_cases3 by blast
      with prems Inl Some have "r = r1" "calls_of log = member # calls_of log1"
        by (auto simp: unfold Let_def c_def [symmetric] tried_def [symmetric])
      moreover have "run_shape env (?T - (?T - 1)) (rot - 1) (Some nxt) (Suc n) r1 (calls_of log1)"
        using IH(2) [OF _ Some _ rec] prems(1) by simp
      ultimately show ?thesis
        using run_shape_rotate [of env "rot - 1" nxt n r1 "calls_of log1" member e "?T - attempt"] Inl prems(1)
          rotated_to_moves [OF Some [unfolded tried_def]] by simp
    next
      case None
      show ?thesis
      proof (cases "te_retryable c = Some True \<and> attempt + 1 < ?T")
        case True
        obtain r1 p1 log1 where rec: "dispatch_loop env retry (attempt + 1) rot member (Suc n) e (snd tried) = (r1, p1, log1)"
          using prod_cases3 by blast
        with prems Inl None True have "r = r1" "calls_of log = member # calls_of log1"
          by (auto simp: unfold Let_def c_def [symmetric] tried_def [symmetric])
        then show ?thesis
          using IH(1) [OF _ None True _ rec] True prems(1) Inl
            run_shape_retry [of env "?T - (attempt + 1)" rot member n r1 "calls_of log1" e]
          by (simp add: Suc_diff_Suc)
      next
        case False
        with prems Inl None have "r = Inl e" "calls_of log = [member]"
          by (auto simp: unfold Let_def c_def [symmetric] tried_def [symmetric] split: if_splits)
        then show ?thesis
          using run_shape_single [of "?T - attempt" env rot member n] prems(1) Inl by simp
      qed
    qed
  qed
qed

subsection \<open>Theorems\<close>

text \<open>C21. A dispatch makes a bounded number of calls and reports the last one. With at least one attempt allowed, the
  calls are at most \<open>max_attempts\<close> on the key the task started with, then one call per rotation, at most two, each
  on another key than the call before; every call but the last failed and the answer is the last call's.
  With no attempt allowed nothing is called and the error says so.\<close>

theorem dispatch_bounded:
  "case dispatch env retry member pool of (r, pool', log) \<Rightarrow>
     (if max_attempts retry = 0 then r = Inl ''dispatch: no attempts completed'' \<and> log = [] \<and> pool' = pool
      else (\<exists>k rotated. calls_of log = replicate (Suc k) member @ map Some rotated
             \<and> Suc k \<le> max_attempts retry \<and> length rotated \<le> 2
             \<and> (\<forall>i < length rotated. Some (rotated ! i) \<noteq> (member # map Some rotated) ! i))
        \<and> r = de_invoke env (length (calls_of log) - 1) (last (calls_of log))
        \<and> (\<forall>i < length (calls_of log) - 1. \<exists>e. de_invoke env i (calls_of log ! i) = Inl e))"
proof (cases "max_attempts retry = 0")
  case True
  then show ?thesis by (simp add: dispatch_def dispatch_loop.simps)
next
  case False
  obtain r pool' log where run: "dispatch env retry member pool = (r, pool', log)" by (rule prod_cases3)
  with False loop_shape [of 0 retry env 2 member 0 _ pool r pool' log] show ?thesis
    by (simp add: dispatch_def run_shape_def)
qed

text \<open>Choosing a provider. A hint is honoured or refused, never replaced; without one the chosen
  provider supports the task and is known to be degraded only when every supporting provider is; a task fails for
  want of a provider exactly when none supports it.\<close>

theorem route_provider_spec:
  "case route_provider profile hint ps of
     None \<Rightarrow> (case hint of Some h \<Rightarrow> \<not> (\<exists>p\<in>set ps. mp_id p = h \<and> mp_supports p) | None \<Rightarrow> \<not> (\<exists>p\<in>set ps. mp_supports p))
   | Some p \<Rightarrow> p \<in> set ps \<and> mp_supports p
       \<and> (case hint of
            Some h \<Rightarrow> mp_id p = h
          | None \<Rightarrow> profile (mp_id p) = Some ''degraded''
                      \<longrightarrow> (\<forall>q\<in>set ps. mp_supports q \<longrightarrow> profile (mp_id q) = Some ''degraded''))"
proof (cases hint)
  case (Some h)
  then show ?thesis
    by (auto simp: route_provider_def resolve_provider_def find_None_iff dest: find_Some_in split: option.splits)
next
  case None
  then show ?thesis
    by (auto simp: route_provider_def resolve_provider_def all_supporting_def find_None_iff dest!: find_Some_in
        split: option.splits if_splits)
qed

text \<open>The time budget of a transcription. It lies between the configured dispatch time-out and 240 seconds and grows
  with the clip, up to the cap; but a configured time-out above 240 makes every transcription panic, since
  \<open>clamp\<close> is then called with its bounds out of order. Other tasks always get the configured time-out.\<close>

theorem transcribe_budget:
  "effective_dispatch_timeout var False ds = Some (model_dispatch_timeout var)
   \<and> (effective_dispatch_timeout var True ds = None \<longleftrightarrow> 240 < model_dispatch_timeout var)
   \<and> (case effective_dispatch_timeout var True ds of
        None \<Rightarrow> True
      | Some b \<Rightarrow> model_dispatch_timeout var \<le> b \<and> b \<le> 240
          \<and> (case max_duration ds of None \<Rightarrow> b = 240 | Some d \<Rightarrow> b = max (model_dispatch_timeout var) (min (30 + d * 3 div 2) 240)))"
proof -
  have sat: "min (30 + min (d * 3) u64_max div 2) 240 = min (30 + d * 3 div 2) 240" for d :: nat
    by (cases "d * 3 \<le> u64_max") auto
  show ?thesis
    using sat
    by (auto simp: effective_dispatch_timeout_def transcribe_budget_secs_def ord_clamp_def Let_def
        TRANSCRIBE_MAX_BUDGET_SECS_def TRANSCRIBE_UNKNOWN_DURATION_SECS_def split: option.splits)
qed

subsubsection \<open>Refresh\<close>

lemma mark_keeps_front:
  "members pool = m # ms \<Longrightarrow> pm_label m \<noteq> lbl \<Longrightarrow>
     \<exists>ms'. members (mark_resolution_failed pool lbl now) = m # ms' \<and> pinned (mark_resolution_failed pool lbl now) = pinned pool"
  by (simp add: mark_resolution_failed_def)

lemma marks_keep_front:
  "members pool = m # ms \<Longrightarrow> pm_label m \<notin> set lbls \<Longrightarrow>
     \<exists>ms'. members (foldl (\<lambda>p lbl. mark_resolution_failed p lbl now) pool lbls) = m # ms'
        \<and> pinned (foldl (\<lambda>p lbl. mark_resolution_failed p lbl now) pool lbls) = pinned pool"
proof (induction lbls arbitrary: pool ms)
  case (Cons lbl lbls)
  then show ?case using mark_keeps_front [of pool m ms lbl now] by fastforce
qed simp

lemma failed_labels_not_env: "''env'' \<notin> set (concat (map snd (resolved_members env primary refs)))"
  by (auto simp: resolved_members_def resolve_ref_def pool_label_def split: option.splits sum.splits)

text \<open>The break-glass key survives the vault. When the environment holds a key, no member is pinned and that key is
  not cooling, a refresh makes it the active one whatever the vault answers for the others; a refresh
  gives up only when a configuration request itself fails.\<close>

theorem env_key_survives_vault:
  assumes "env_override (re_env_key env) = Some key" "pinned pool = None"
    and "\<forall>m\<in>set (members pool). pm_label m = ''env'' \<longrightarrow> \<not> is_cooling (cooldown m) now"
  shows "case refresh_gemini_credential_pool env now pool of
      Inl e \<Rightarrow> re_config env ''gemini_api_key_ref'' = Inl e \<or> re_config env ''gemini_api_key_pool'' = Inl e
    | Inr (pool', active_key) \<Rightarrow> active_member pool' now = Some (0, key) \<and> active_key = Some key"
proof (cases "refresh_gemini_credential_pool env now pool")
  case (Inl e)
  then show ?thesis
    by (auto simp: refresh_gemini_credential_pool_def fetch_config_string_def Let_def
        split: option.splits sum.splits config_reply.splits)
next
  case (Inr out)
  then obtain primary refs where p1: "fst out = foldl (\<lambda>p lbl. mark_resolution_failed p lbl now)
      (reconcile pool (map fst (resolved_members env primary refs))) (concat (map snd (resolved_members env primary refs)))"
    and key: "snd out = map_option snd (active_member (fst out) now)"
    by (auto simp: refresh_gemini_credential_pool_def Let_def split: sum.splits)
  let ?m = "reconciled_member (members pool) (''env'', EnvSource ''PHILOTIC_GEMINI_API_KEY'', Some key)"
  obtain ms where "members (reconcile pool (map fst (resolved_members env primary refs))) = ?m # ms"
    and pin: "pinned (reconcile pool (map fst (resolved_members env primary refs))) = None"
    using assms(1,2) by (simp add: reconcile_def resolved_members_def)
  moreover have "pm_label ?m = ''env''" by (simp add: reconciled_member_def)
  ultimately obtain ms' where ms': "members (fst out) = ?m # ms'" "pinned (fst out) = None"
    using marks_keep_front [of _ ?m ms "concat (map snd (resolved_members env primary refs))" now]
      failed_labels_not_env [of env primary refs] unfolding p1 by metis
  have "\<not> is_cooling (cooldown ?m) now"
    using assms(3) by (auto simp: reconciled_member_def is_cooling_def cooldown_default_def dest!: find_Some_in split: option.splits)
  then have "active_member (fst out) now = Some (0, key)"
    using ms' by (simp add: active_member_def eligible_def upt_conv_Cons reconciled_member_def del: upt_Suc)
  with Inr key show ?thesis by (cases out) simp
qed

subsubsection \<open>Instances\<close>

definition demo_env :: "nat dispatch_env" where
  "demo_env = \<lparr>de_provider = ''gemini'', de_capability = ''text.generate'', de_lower = id,
     de_invoke = (\<lambda>n m. if m = Some 2 then Inr 7 else Inl ''Gemini API error (429): quota''),
     de_clock = (\<lambda>n. n), de_rebuilt = (\<lambda>_. True)\<rparr>"

definition demo_refresh :: refresh_env where
  "demo_refresh = \<lparr>re_env_key = Some '' k '', re_env_ref = Some ''secret://a'', re_config = (\<lambda>_. Inr (ConfigData None)),
     re_secret = (\<lambda>_. Inl ''decrypt failed''), re_parse = (\<lambda>_. None)\<rparr>"

theorem dispatch_bounded_witness:
  "\<exists>r pool' log. dispatch demo_env retry_policy_default (Some 0) demo_pool = (r, pool', log)
     \<and> 1 \<le> length (calls_of log) \<and> length (calls_of log) \<le> 4"
proof -
  obtain r pool' log where run: "dispatch demo_env retry_policy_default (Some 0) demo_pool = (r, pool', log)"
    by (rule prod_cases3)
  with dispatch_bounded [where env = demo_env and retry = retry_policy_default and member = "Some 0" and pool = demo_pool]
  obtain k rotated where "calls_of log = replicate (Suc k) (Some 0) @ map Some rotated" "Suc k \<le> 2" "length rotated \<le> 2"
    by (auto simp: retry_policy_default_def)
  with run show ?thesis by simp
qed

theorem route_provider_spec_witness:
  "route_provider (\<lambda>p. if p = ''a'' then Some ''degraded'' else None) None [\<lparr>mp_id = ''a'', mp_supports = True\<rparr>, \<lparr>mp_id = ''b'', mp_supports = True\<rparr>]
     = Some \<lparr>mp_id = ''b'', mp_supports = True\<rparr>"
  using route_provider_spec [where profile = "\<lambda>p. if p = ''a'' then Some ''degraded'' else None" and hint = None
      and ps = "[\<lparr>mp_id = ''a'', mp_supports = True\<rparr>, \<lparr>mp_id = ''b'', mp_supports = True\<rparr>]"]
  by (auto split: option.splits)

theorem env_key_survives_vault_witness:
  "\<exists>pool'. refresh_gemini_credential_pool demo_refresh 5 (pool_new ''gemini'') = Inr (pool', Some ''k'')
     \<and> active_member pool' 5 = Some (0, ''k'')"
proof -
  have "env_override (re_env_key demo_refresh) = Some ''k''"
    by (simp add: env_override_def demo_refresh_def trim_def trim_start_def trim_end_def strip_front.simps match_front_def
        ws_seqs_def starts_with_def)
  from env_key_survives_vault [OF this, of "pool_new ''gemini''" 5] show ?thesis
    by (auto simp: pool_new_def demo_refresh_def split: sum.splits)
qed

end
