(* ===== verification/Perimeter.thy ===== *)
theory Perimeter
  imports Tables "HOL-Library.Word"
begin

section \<open>Perimeter, ingress fence, egress policy and vault\<close>

text \<open>
  Models \<^verbatim>\<open>crates/perimeter-core\<close> (the classifier of bind addresses, the ingress fence, the egress policy),
  \<^verbatim>\<open>crates/aiua/src/service/perimeter.rs\<close> (the perimeter a hotel derives from its listeners),
  \<^verbatim>\<open>service/egress.rs\<close> (the gateway that checks requests and injects credentials) and the access rules of
  \<^verbatim>\<open>crates/aiua/src/vault.rs\<close>. What the operating system answers to a probe is an argument, and so is the
  cipher of the vault.
\<close>

unbundle bit_operations_syntax

subsection \<open>Tiers and addresses\<close>

datatype ExposureTier = Local | Lan | Mesh | Internet

fun tier_rank :: "ExposureTier \<Rightarrow> nat" where
  "tier_rank Local = 0" | "tier_rank Lan = 1" | "tier_rank Mesh = 2" | "tier_rank Internet = 3"

lemma tier_rank_inject: "tier_rank a = tier_rank b \<Longrightarrow> a = b"
  by (cases a; cases b) simp_all

instantiation ExposureTier :: linorder
begin

definition less_eq_ExposureTier :: "ExposureTier \<Rightarrow> ExposureTier \<Rightarrow> bool" where
  "less_eq_ExposureTier a b \<longleftrightarrow> tier_rank a \<le> tier_rank b"

definition less_ExposureTier :: "ExposureTier \<Rightarrow> ExposureTier \<Rightarrow> bool" where
  "less_ExposureTier a b \<longleftrightarrow> tier_rank a < tier_rank b"

instance
  by standard (auto simp: less_eq_ExposureTier_def less_ExposureTier_def intro: tier_rank_inject)

end

lemmas tier_order = less_eq_ExposureTier_def less_ExposureTier_def

lemma Local_least [simp]: "Local \<le> t"
  by (simp add: tier_order)

datatype IpAddr = V4 "8 word" "8 word" "8 word" "8 word" | V6 "128 word"

datatype ClassifyResult = Definite ExposureTier | Conservative ExposureTier

fun classified_tier :: "ClassifyResult \<Rightarrow> ExposureTier" where
  "classified_tier (Definite t) = t"
| "classified_tier (Conservative t) = t"

definition is_tailscale_cgnat :: "8 word \<Rightarrow> 8 word \<Rightarrow> bool" where
  "is_tailscale_cgnat a b \<longleftrightarrow> a = 100 \<and> b AND 0xC0 = 0x40"

definition is_rfc1918 :: "8 word \<Rightarrow> 8 word \<Rightarrow> bool" where
  "is_rfc1918 a b \<longleftrightarrow> a = 10 \<or> (a = 172 \<and> b AND 0xF0 = 16) \<or> (a = 192 \<and> b = 168)"

definition classify_v4 :: "8 word \<Rightarrow> 8 word \<Rightarrow> 8 word \<Rightarrow> 8 word \<Rightarrow> bool \<Rightarrow> ClassifyResult" where
  "classify_v4 a b c d has_public_ip =
     (if a = 127 then Definite Local
      else if is_tailscale_cgnat a b then Definite Mesh
      else if is_rfc1918 a b then Definite Lan
      else if a = 0 \<and> b = 0 \<and> c = 0 \<and> d = 0
      then (if has_public_ip then Definite Internet else Conservative Lan)
      else Definite Internet)"

fun classify_bind_addr :: "IpAddr \<Rightarrow> bool \<Rightarrow> ClassifyResult" where
  "classify_bind_addr (V4 a b c d) has_public_ip = classify_v4 a b c d has_public_ip"
| "classify_bind_addr (V6 w) has_public_ip = (if w = 1 then Definite Local else Definite Internet)"

subsection \<open>The hotel's perimeter\<close>

fun is_loopback :: "IpAddr \<Rightarrow> bool" where
  "is_loopback (V4 a b c d) \<longleftrightarrow> a = 127"
| "is_loopback (V6 w) \<longleftrightarrow> w = 1"

fun is_tailscale_addr :: "IpAddr \<Rightarrow> bool" where
  "is_tailscale_addr (V4 a b c d) \<longleftrightarrow> a = 100 \<and> b AND 0xC0 = 0x40"
| "is_tailscale_addr (V6 w) \<longleftrightarrow> False"

text \<open>\<open>is_private\<close> and \<open>is_link_local\<close> are the standard library's: RFC 1918 and 169.254/16.\<close>

fun is_public_ip :: "IpAddr \<Rightarrow> bool" where
  "is_public_ip (V4 a b c d) \<longleftrightarrow>
     a \<noteq> 127 \<and> \<not> is_rfc1918 a b \<and> \<not> (a = 169 \<and> b = 254)
     \<and> \<not> (a = 0 \<and> b = 0 \<and> c = 0 \<and> d = 0) \<and> \<not> is_tailscale_addr (V4 a b c d)"
| "is_public_ip (V6 w) \<longleftrightarrow> w \<noteq> 1 \<and> w \<noteq> 0"

record os_probe =
  outbound_ip :: "IpAddr option"
  tailscale_route_ip :: "IpAddr option"
  tailscale_state_exists :: bool
  probe_time :: int

definition detect_public_ips :: "os_probe \<Rightarrow> IpAddr list" where
  "detect_public_ips p = (case outbound_ip p of Some ip \<Rightarrow> if is_public_ip ip then [ip] else [] | None \<Rightarrow> [])"

definition detect_private_ips :: "os_probe \<Rightarrow> IpAddr list" where
  "detect_private_ips p =
     (case outbound_ip p of Some ip \<Rightarrow> if \<not> is_public_ip ip \<and> \<not> is_loopback ip then [ip] else [] | None \<Rightarrow> [])"

definition detect_tailscale :: "os_probe \<Rightarrow> bool \<times> string option" where
  "detect_tailscale p =
     ((case tailscale_route_ip p of Some ip \<Rightarrow> is_tailscale_addr ip | None \<Rightarrow> False) \<or> tailscale_state_exists p, None)"

record ListenerDecl =
  ld_purpose :: string
  ld_bind_addr :: IpAddr
  ld_port :: nat
  ld_iface :: "string option"

record ListenerProfile =
  lp_purpose :: string
  lp_bind_addr :: IpAddr
  lp_port :: nat
  lp_iface :: "string option"
  lp_tier :: ExposureTier

record PerimeterSnapshot =
  ceiling :: ExposureTier
  listeners :: "ListenerProfile list"
  tailscale_present :: bool
  tailnet_id :: "string option"
  public_ips :: "IpAddr list"
  private_ips :: "IpAddr list"
  last_derived :: int

definition snapshot_default :: PerimeterSnapshot where
  "snapshot_default = \<lparr>ceiling = Local, listeners = [], tailscale_present = False, tailnet_id = None,
     public_ips = [], private_ips = [], last_derived = 0\<rparr>"

definition listener_profile :: "bool \<Rightarrow> ListenerDecl \<Rightarrow> ListenerProfile" where
  "listener_profile has_public_ip d =
     \<lparr>lp_purpose = ld_purpose d, lp_bind_addr = ld_bind_addr d, lp_port = ld_port d, lp_iface = ld_iface d,
      lp_tier = classified_tier (classify_bind_addr (ld_bind_addr d) has_public_ip)\<rparr>"

definition derive :: "ListenerDecl list \<Rightarrow> os_probe \<Rightarrow> PerimeterSnapshot" where
  "derive decls p =
     (let pub = detect_public_ips p;
          profiles = map (listener_profile (pub \<noteq> [])) decls
            @ [\<lparr>lp_purpose = ''ipc'', lp_bind_addr = V4 127 0 0 1, lp_port = 0, lp_iface = None, lp_tier = Local\<rparr>]
      in \<lparr>ceiling = fold (\<lambda>q t. max t (lp_tier q)) profiles Local, listeners = profiles,
          tailscale_present = fst (detect_tailscale p), tailnet_id = snd (detect_tailscale p),
          public_ips = pub, private_ips = detect_private_ips p, last_derived = probe_time p\<rparr>)"

datatype PerimeterEvent = Shift ExposureTier ExposureTier | Refreshed PerimeterSnapshot

definition derive_and_store ::
  "ListenerDecl list \<Rightarrow> os_probe \<Rightarrow> PerimeterSnapshot \<Rightarrow> PerimeterSnapshot \<times> PerimeterEvent list" where
  "derive_and_store decls p old =
     (let snap = derive decls p
      in (snap, (if ceiling old \<noteq> ceiling snap then [Shift (ceiling old) (ceiling snap)] else []) @ [Refreshed snap]))"

text \<open>The service at start-up, then one refresh per probe.\<close>

fun refresh_all ::
  "ListenerDecl list \<Rightarrow> os_probe list \<Rightarrow> PerimeterSnapshot \<Rightarrow> PerimeterSnapshot \<times> PerimeterEvent list" where
  "refresh_all decls [] old = (old, [])"
| "refresh_all decls (p # ps) old =
     (case derive_and_store decls p old of (snap, evs) \<Rightarrow>
        case refresh_all decls ps snap of (last_snap, later) \<Rightarrow> (last_snap, evs @ later))"

subsection \<open>The ingress fence\<close>

datatype IngressDecision = IngressAllow | IngressDeny nat

definition has_bearer :: "string option \<Rightarrow> bool" where
  "has_bearer h = (case h of Some s \<Rightarrow> starts_with ''bearer '' (to_ascii_lowercase (trim_start s)) | None \<Rightarrow> False)"

fun check_ingress :: "ExposureTier \<Rightarrow> string option \<Rightarrow> bool \<Rightarrow> IngressDecision" where
  "check_ingress Local h loopback = IngressAllow"
| "check_ingress Lan h loopback = IngressAllow"
| "check_ingress Mesh h loopback =
     (if loopback then IngressAllow else if has_bearer h then IngressAllow else IngressDeny 401)"
| "check_ingress Internet h loopback = (if has_bearer h then IngressAllow else IngressDeny 401)"

subsection \<open>Egress policy\<close>

datatype EgressDefaultAction = ActAllow | ActDeny | ActAllowWithAudit

record EgressCredential =
  vault_key :: string
  cred_header :: string
  cred_format :: string

record EgressPolicy =
  ep_tier :: ExposureTier
  default_action :: EgressDefaultAction
  require_tls :: bool
  allowed_hosts :: "string list"
  denied_hosts :: "string list"
  credentials :: "(string \<times> EgressCredential) list"

datatype EgressDenial = DeniedHost | NotAllowedHost | DeniedByDefault

datatype EgressDecision = EgressAllow | EgressAllowWithAudit | EgressDeny EgressDenial

record EgressRequest =
  rq_agent_id :: string
  target_url :: string
  rq_method :: string
  rq_headers :: "(string \<times> string) list"
  rq_tier :: ExposureTier

definition host_from_url :: "string \<Rightarrow> string" where
  "host_from_url url =
     (let without_scheme =
            (case strip_prefix ''https://'' url of
               Some rest \<Rightarrow> rest
             | None \<Rightarrow> (case strip_prefix ''http://'' url of Some rest \<Rightarrow> rest | None \<Rightarrow> url))
      in split_first CHR '':'' (split_first CHR ''/'' without_scheme))"

type_synonym policy_table = "ExposureTier \<Rightarrow> EgressPolicy option"

definition gateway_policies :: "EgressPolicy list \<Rightarrow> policy_table" where
  "gateway_policies ps = map_of (rev (map (\<lambda>p. (ep_tier p, p)) ps))"

definition host_listed :: "string \<Rightarrow> string list \<Rightarrow> bool" where
  "host_listed host hs \<longleftrightarrow> list_ex (\<lambda>h. h = host \<or> h = ''*'') hs"

definition evaluate_egress_policy :: "policy_table \<Rightarrow> EgressRequest \<Rightarrow> EgressDecision" where
  "evaluate_egress_policy policies request =
     (case policies (rq_tier request) of
        None \<Rightarrow> EgressAllow
      | Some policy \<Rightarrow>
          let host = host_from_url (target_url request) in
          if host_listed host (denied_hosts policy) then EgressDeny DeniedHost
          else if allowed_hosts policy \<noteq> [] \<and> \<not> host_listed host (allowed_hosts policy) then EgressDeny NotAllowedHost
          else (case default_action policy of
                  ActAllow \<Rightarrow> EgressAllow
                | ActAllowWithAudit \<Rightarrow> EgressAllowWithAudit
                | ActDeny \<Rightarrow> EgressDeny DeniedByDefault))"

subsection \<open>The vault\<close>

record SecretAccess =
  sa_role :: string
  sa_guest_id :: string

record SecretRecord =
  secret_ref :: string
  secret_kind :: string
  secret_scope :: string
  allowed_roles :: "string list"
  allowed_guests :: "string list"
  ciphertext_b64 :: string
  nonce_b64 :: string
  created_at :: nat
  secret_updated_at :: nat

record SecretInput =
  si_kind :: string
  si_scope :: string
  si_allowed_roles :: "string list"
  si_allowed_guests :: "string list"
  si_plaintext :: string

datatype VaultError = SecretNotFound | RoleDenied | GuestDenied | CipherFailed

text \<open>The cipher: how a text is sealed (ciphertext and nonce, the nonce being drawn inside) and opened; either may fail.\<close>

record vault_cipher =
  seal :: "string \<Rightarrow> (string \<times> string) option"
  unseal :: "string \<Rightarrow> string \<Rightarrow> string option"

type_synonym vault = "(string \<times> SecretRecord) list"

definition store_secret :: "vault_cipher \<Rightarrow> SecretInput \<Rightarrow> string \<Rightarrow> nat \<Rightarrow> vault \<Rightarrow> (VaultError + string) \<times> vault" where
  "store_secret ci inp fresh now v =
     (case seal ci (si_plaintext inp) of
        None \<Rightarrow> (Inl CipherFailed, v)
      | Some (ct, nonce) \<Rightarrow>
          let r = ''secret://hotel/default/'' @ si_kind inp @ ''/'' @ fresh
          in (Inr r, tbl_put r
                \<lparr>secret_ref = r, secret_kind = si_kind inp, secret_scope = si_scope inp,
                 allowed_roles = si_allowed_roles inp, allowed_guests = si_allowed_guests inp,
                 ciphertext_b64 = ct, nonce_b64 = nonce, created_at = now, secret_updated_at = now\<rparr> v))"

definition rotate_secret :: "vault_cipher \<Rightarrow> string \<Rightarrow> string \<Rightarrow> nat \<Rightarrow> vault \<Rightarrow> (VaultError + unit) \<times> vault" where
  "rotate_secret ci r plaintext now v =
     (case tbl_get v r of
        None \<Rightarrow> (Inl SecretNotFound, v)
      | Some rec \<Rightarrow>
          (case seal ci plaintext of
             None \<Rightarrow> (Inl CipherFailed, v)
           | Some (ct, nonce) \<Rightarrow>
               (Inr (), tbl_put (secret_ref rec) (rec\<lparr>ciphertext_b64 := ct, nonce_b64 := nonce, secret_updated_at := now\<rparr>) v)))"

definition decrypt :: "vault_cipher \<Rightarrow> SecretRecord \<Rightarrow> VaultError + string option" where
  "decrypt ci rec = (case unseal ci (nonce_b64 rec) (ciphertext_b64 rec) of Some p \<Rightarrow> Inr (Some p) | None \<Rightarrow> Inl CipherFailed)"

definition resolve_secret :: "vault_cipher \<Rightarrow> string \<Rightarrow> SecretAccess \<Rightarrow> vault \<Rightarrow> VaultError + string option" where
  "resolve_secret ci r access v =
     (case tbl_get v r of
        None \<Rightarrow> Inr None
      | Some rec \<Rightarrow>
          if allowed_roles rec \<noteq> [] \<and> sa_role access \<notin> set (allowed_roles rec) then Inl RoleDenied
          else if allowed_guests rec \<noteq> [] \<and> sa_guest_id access \<notin> set (allowed_guests rec) then Inl GuestDenied
          else decrypt ci rec)"

definition export_secret_plaintext :: "vault_cipher \<Rightarrow> string \<Rightarrow> vault \<Rightarrow> VaultError + string option" where
  "export_secret_plaintext ci r v = (case tbl_get v r of None \<Rightarrow> Inr None | Some rec \<Rightarrow> decrypt ci rec)"

subsection \<open>Credential injection\<close>

fun replace_braces :: "string \<Rightarrow> string \<Rightarrow> string" where
  "replace_braces v (c # d # s) =
     (if c = CHR ''{'' \<and> d = CHR ''}'' then v @ replace_braces v s else c # replace_braces v (d # s))"
| "replace_braces v s = s"

definition egress_access :: SecretAccess where
  "egress_access = \<lparr>sa_role = ''hotel'', sa_guest_id = ''hotel-egress-gateway''\<rparr>"

definition inject_credentials :: "vault_cipher \<Rightarrow> vault \<Rightarrow> policy_table \<Rightarrow> EgressRequest \<Rightarrow> EgressRequest" where
  "inject_credentials ci v policies request =
     (case policies (rq_tier request) of
        None \<Rightarrow> request
      | Some policy \<Rightarrow>
          (case tbl_get (credentials policy) (host_from_url (target_url request)) of
             None \<Rightarrow> request
           | Some cred \<Rightarrow>
               (case resolve_secret ci (vault_key cred) egress_access v of
                  Inr (Some val) \<Rightarrow>
                    request\<lparr>rq_headers := tbl_put (cred_header cred) (replace_braces val (cred_format cred)) (rq_headers request)\<rparr>
                | Inr None \<Rightarrow> request
                | Inl _ \<Rightarrow> request)))"

subsection \<open>Lemmas\<close>

lemma fold_max_tier:
  "t \<le> fold (\<lambda>q t. max t (lp_tier q)) ps t
   \<and> (\<forall>q\<in>set ps. lp_tier q \<le> fold (\<lambda>q t. max t (lp_tier q)) ps t)
   \<and> (fold (\<lambda>q t. max t (lp_tier q)) ps t = t \<or> (\<exists>q\<in>set ps. lp_tier q = fold (\<lambda>q t. max t (lp_tier q)) ps t))"
proof (induction ps arbitrary: t)
  case (Cons q ps)
  show ?case
    using Cons.IH [of "max t (lp_tier q)"] by (auto simp: max_def split: if_splits)
qed simp

text \<open>What a listener of \<open>Shift\<close> events believes the ceiling to be.\<close>

fun follow_shifts :: "ExposureTier \<Rightarrow> PerimeterEvent list \<Rightarrow> ExposureTier" where
  "follow_shifts t [] = t"
| "follow_shifts t (Shift _ new # evs) = follow_shifts new evs"
| "follow_shifts t (Refreshed _ # evs) = follow_shifts t evs"

lemma follow_shifts_append [simp]: "follow_shifts t (xs @ ys) = follow_shifts (follow_shifts t xs) ys"
  by (induction t xs rule: follow_shifts.induct) simp_all

lemma follow_refresh: "follow_shifts (ceiling old) (snd (derive_and_store decls p old)) = ceiling (fst (derive_and_store decls p old))"
  by (simp add: derive_and_store_def Let_def)

lemma follow_refresh_all: "follow_shifts (ceiling old) (snd (refresh_all decls ps old)) = ceiling (fst (refresh_all decls ps old))"
proof (induction ps arbitrary: old)
  case (Cons p ps)
  obtain snap evs where s: "derive_and_store decls p old = (snap, evs)" by fastforce
  obtain lsnap later where l: "refresh_all decls ps snap = (lsnap, later)" by fastforce
  show ?case using Cons.IH [of snap] follow_refresh [of old decls p] by (simp add: s l)
qed simp

lemma refresh_all_shifts_real:
  "Shift a b \<in> set (snd (refresh_all decls ps old)) \<Longrightarrow> a \<noteq> b"
proof (induction ps arbitrary: old)
  case (Cons p ps)
  then show ?case
    using Cons.IH [of "derive decls p"]
    by (cases "refresh_all decls ps (derive decls p)") (auto simp: derive_and_store_def Let_def split: if_splits)
qed simp

lemma is_loopback_classified: "is_loopback a \<longleftrightarrow> classified_tier (classify_bind_addr a pub) = Local"
  by (cases a) (auto simp: classify_v4_def)

subsection \<open>Theorems\<close>

text \<open>The perimeter is the widest listener. The ceiling a hotel derives is at least the tier of every listener it
  declares and is reached by one of them; it is \<open>Local\<close> exactly when every listener is bound to loopback. A
  client that follows the \<open>Shift\<close> events from the start-up value always knows the present ceiling,
  whatever the probes answered, and is never sent a shift that changes nothing.\<close>

theorem perimeter_ceiling:
  "(\<forall>q\<in>set (listeners (derive decls p)). lp_tier q \<le> ceiling (derive decls p))
   \<and> (\<exists>q\<in>set (listeners (derive decls p)). lp_tier q = ceiling (derive decls p))
   \<and> (ceiling (derive decls p) = Local \<longleftrightarrow> (\<forall>d\<in>set decls. is_loopback (ld_bind_addr d)))
   \<and> (case refresh_all decls ps snapshot_default of (snap, evs) \<Rightarrow>
        follow_shifts Local evs = ceiling snap \<and> (\<forall>a b. Shift a b \<in> set evs \<longrightarrow> a \<noteq> b))"
proof -
  let ?prof = "map (listener_profile (detect_public_ips p \<noteq> [])) decls
    @ [\<lparr>lp_purpose = ''ipc'', lp_bind_addr = V4 127 0 0 1, lp_port = 0, lp_iface = None, lp_tier = Local\<rparr>]"
  have ceil: "ceiling (derive decls p) = fold (\<lambda>q t. max t (lp_tier q)) ?prof Local" "listeners (derive decls p) = ?prof"
    by (simp_all add: derive_def Let_def)
  note f = fold_max_tier [of Local ?prof]
  have attained: "\<exists>q\<in>set ?prof. lp_tier q = fold (\<lambda>q t. max t (lp_tier q)) ?prof Local"
    using f by auto
  have loc: "ceiling (derive decls p) = Local \<longleftrightarrow> (\<forall>q\<in>set ?prof. lp_tier q = Local)"
    unfolding ceil
  proof (intro iffI ballI)
    fix q
    assume "fold (\<lambda>q t. max t (lp_tier q)) ?prof Local = Local" "q \<in> set ?prof"
    then have "lp_tier q \<le> Local" using f by auto
    then show "lp_tier q = Local" by (rule order.antisym) (rule Local_least)
  next
    assume "\<forall>q \<in> set ?prof. lp_tier q = Local"
    then show "fold (\<lambda>q t. max t (lp_tier q)) ?prof Local = Local" using attained by metis
  qed
  have "lp_tier (listener_profile pub d) = Local \<longleftrightarrow> is_loopback (ld_bind_addr d)" for pub d
    by (simp add: listener_profile_def is_loopback_classified [symmetric])
  with loc have local_iff: "ceiling (derive decls p) = Local \<longleftrightarrow> (\<forall>d\<in>set decls. is_loopback (ld_bind_addr d))" by simp
  have "follow_shifts Local (snd (refresh_all decls ps snapshot_default)) = ceiling (fst (refresh_all decls ps snapshot_default))"
    using follow_refresh_all [of snapshot_default decls ps] by (simp add: snapshot_default_def)
  then show ?thesis
    using f attained local_iff refresh_all_shifts_real [of _ _ decls ps snapshot_default]
    unfolding ceil by (auto split: prod.splits)
qed

text \<open>What the egress gateway lets out. With no policy for the tier everything passes; with one, a request passes
  exactly when its host is not denied, is allowed if there is an allow list, and the default action is not
  to deny; and the host compared is the URL's host for every URL of the form scheme, host, then nothing, a port
  or a path.\<close>

theorem egress_spec:
  assumes "CHR ''/'' \<notin> set host" "CHR '':'' \<notin> set host"
    and "target_url request = scheme @ host @ rest" "scheme \<in> {''https://'', ''http://''}"
    and "rest = [] \<or> hd rest \<in> {CHR ''/'', CHR '':''}"
  shows "(\<exists>d. evaluate_egress_policy policies request = EgressDeny d) \<longleftrightarrow>
    (\<exists>policy. policies (rq_tier request) = Some policy
       \<and> (host \<in> set (denied_hosts policy) \<or> ''*'' \<in> set (denied_hosts policy)
          \<or> (allowed_hosts policy \<noteq> [] \<and> host \<notin> set (allowed_hosts policy) \<and> ''*'' \<notin> set (allowed_hosts policy))
          \<or> default_action policy = ActDeny))"
proof -
  have strip: "split_first c (host @ r) = host @ split_first c r" if "c \<notin> set host" for c r
    using that by (induction host) (auto simp: split_first_def)
  have whole: "split_first c host = host" if "c \<notin> set host" for c
    using strip [OF that, of "[]"] by (simp add: split_first_def)
  have drop_https: "starts_with ''https://'' (''https://'' @ s)" "\<not> starts_with ''https://'' (''http://'' @ s)"
    "starts_with ''http://'' (''http://'' @ s)" for s
    by (simp_all add: starts_with_def)
  have "host_from_url (target_url request) = split_first CHR '':'' (split_first CHR ''/'' (host @ rest))"
    using assms(3,4) drop_https by (auto simp: host_from_url_def)
  also have "\<dots> = host"
    using assms(1,2,5) by (cases rest) (auto simp: strip whole split_first_def [of _ "_ # _"] split_first_def [of _ "[]"])
  finally show ?thesis
    by (auto simp: evaluate_egress_policy_def host_listed_def list_ex_iff Let_def
        split: option.splits EgressDefaultAction.splits)
qed

text \<open>A URL with user information is judged by the wrong host: the part up to the first colon.\<close>

lemma host_from_url_userinfo:
  "host_from_url ''https://good.example:x@evil.example/'' = ''good.example''"
  by (simp add: host_from_url_def split_first_def starts_with_def)

text \<open>C37. The vault returns what was stored, to those it was stored for. After a secret is stored under a fresh
  name, a caller whose role and guest id pass the lists gets the text back, any other is refused;
  a rotation replaces the text and keeps the lists, and no other secret changes.\<close>

theorem vault_roundtrip:
  assumes "\<And>p ct nonce. seal ci p = Some (ct, nonce) \<Longrightarrow> unseal ci nonce ct = Some p"
    and "store_secret ci inp fresh now v = (Inr r, v1)" "rotate_secret ci r p2 later v1 = (Inr (), v2)"
  shows "(let allowed = (si_allowed_roles inp = [] \<or> sa_role a \<in> set (si_allowed_roles inp))
                      \<and> (si_allowed_guests inp = [] \<or> sa_guest_id a \<in> set (si_allowed_guests inp))
          in if allowed
             then resolve_secret ci r a v1 = Inr (Some (si_plaintext inp)) \<and> resolve_secret ci r a v2 = Inr (Some p2)
             else isl (resolve_secret ci r a v1) \<and> isl (resolve_secret ci r a v2))
    \<and> (r' \<noteq> r \<longrightarrow> resolve_secret ci r' a v2 = resolve_secret ci r' a v)"
proof -
  obtain ct nonce where s: "seal ci (si_plaintext inp) = Some (ct, nonce)"
    using assms(2) by (auto simp: store_secret_def split: option.splits)
  let ?rec = "\<lparr>secret_ref = r, secret_kind = si_kind inp, secret_scope = si_scope inp,
     allowed_roles = si_allowed_roles inp, allowed_guests = si_allowed_guests inp,
     ciphertext_b64 = ct, nonce_b64 = nonce, created_at = now, secret_updated_at = now\<rparr>"
  have v1: "v1 = tbl_put r ?rec v" using assms(2) s by (auto simp: store_secret_def Let_def)
  obtain ct2 nonce2 where s2: "seal ci p2 = Some (ct2, nonce2)"
    using assms(3) v1 by (auto simp: rotate_secret_def tbl_get_put split: option.splits)
  have v2: "v2 = tbl_put r (?rec\<lparr>ciphertext_b64 := ct2, nonce_b64 := nonce2, secret_updated_at := later\<rparr>) v1"
    using assms(3) v1 s2 by (auto simp: rotate_secret_def tbl_get_put)
  show ?thesis
    using assms(1) [OF s] assms(1) [OF s2]
    by (auto simp: resolve_secret_def v1 v2 tbl_get_put decrypt_def Let_def)
qed

text \<open>Credentials go only where the policy says. Injection changes at most the configured header, and only when the
  policy of the request's tier has a credential for its host that the vault gives to the gateway; the header then
  holds the format with the secret in its place.\<close>

theorem inject_spec:
  "let request' = inject_credentials ci v policies request in
     request'\<lparr>rq_headers := rq_headers request\<rparr> = request
     \<and> (if \<exists>policy cred val. policies (rq_tier request) = Some policy
              \<and> tbl_get (credentials policy) (host_from_url (target_url request)) = Some cred
              \<and> resolve_secret ci (vault_key cred) egress_access v = Inr (Some val)
        then \<exists>policy cred val. policies (rq_tier request) = Some policy
              \<and> tbl_get (credentials policy) (host_from_url (target_url request)) = Some cred
              \<and> resolve_secret ci (vault_key cred) egress_access v = Inr (Some val)
              \<and> (\<forall>h. tbl_get (rq_headers request') h
                     = (if h = cred_header cred then Some (replace_braces val (cred_format cred)) else tbl_get (rq_headers request) h))
        else request' = request)"
  by (auto simp: inject_credentials_def Let_def tbl_get_put split: option.splits sum.splits)

subsubsection \<open>Instances\<close>

definition demo_decls :: "ListenerDecl list" where
  "demo_decls = [\<lparr>ld_purpose = ''gateway'', ld_bind_addr = V4 0 0 0 0, ld_port = 80, ld_iface = None\<rparr>,
     \<lparr>ld_purpose = ''beacon'', ld_bind_addr = V4 100 64 1 5, ld_port = 81, ld_iface = None\<rparr>]"

definition demo_probe :: os_probe where
  "demo_probe = \<lparr>outbound_ip = Some (V4 10 0 0 5), tailscale_route_ip = None, tailscale_state_exists = False, probe_time = 9\<rparr>"

definition demo_cipher :: vault_cipher where
  "demo_cipher = \<lparr>seal = (\<lambda>p. Some (rev p, ''n'')), unseal = (\<lambda>n ct. Some (rev ct))\<rparr>"

definition demo_policy :: EgressPolicy where
  "demo_policy = \<lparr>ep_tier = Internet, default_action = ActAllow, require_tls = True, allowed_hosts = [''api.ok''],
     denied_hosts = [], credentials = [(''api.ok'', \<lparr>vault_key = ''k'', cred_header = ''Authorization'', cred_format = ''Bearer {}''\<rparr>)]\<rparr>"

definition demo_request :: EgressRequest where
  "demo_request = \<lparr>rq_agent_id = ''a'', target_url = ''https://api.bad/v1'', rq_method = ''GET'', rq_headers = [], rq_tier = Internet\<rparr>"

theorem perimeter_ceiling_witness:
  "ceiling (derive demo_decls demo_probe) = Mesh
   \<and> list_all (\<lambda>q. lp_tier q \<le> Mesh) (listeners (derive demo_decls demo_probe))"
proof -
  have "ceiling (derive demo_decls demo_probe) = Mesh"
    by (simp add: derive_def demo_decls_def demo_probe_def detect_public_ips_def listener_profile_def classify_v4_def
        is_tailscale_cgnat_def is_rfc1918_def Let_def max_def tier_order)
  with perimeter_ceiling [of demo_decls demo_probe] show ?thesis by (auto simp: list_all_iff)
qed

theorem egress_spec_witness:
  "\<exists>d. evaluate_egress_policy (gateway_policies [demo_policy]) demo_request = EgressDeny d"
  using egress_spec [of "''api.bad''" demo_request "''https://''" "''/v1''" "gateway_policies [demo_policy]"]
  by (simp add: demo_request_def gateway_policies_def demo_policy_def)

theorem vault_roundtrip_witness:
  "\<exists>r v1 v2. store_secret demo_cipher \<lparr>si_kind = ''key'', si_scope = ''hotel'', si_allowed_roles = [''model''], si_allowed_guests = [], si_plaintext = ''s1''\<rparr>
        ''u1'' 5 [] = (Inr r, v1) \<and> rotate_secret demo_cipher r ''s2'' 6 v1 = (Inr (), v2)
     \<and> resolve_secret demo_cipher r \<lparr>sa_role = ''model'', sa_guest_id = ''g''\<rparr> v2 = Inr (Some ''s2'')
     \<and> isl (resolve_secret demo_cipher r \<lparr>sa_role = ''tool'', sa_guest_id = ''g''\<rparr> v2)"
proof -
  let ?inp = "\<lparr>si_kind = ''key'', si_scope = ''hotel'', si_allowed_roles = [''model''], si_allowed_guests = [], si_plaintext = ''s1''\<rparr>"
  have law: "\<And>p ct nonce. seal demo_cipher p = Some (ct, nonce) \<Longrightarrow> unseal demo_cipher nonce ct = Some p"
    by (auto simp: demo_cipher_def)
  obtain r v1 v2 where run: "store_secret demo_cipher ?inp ''u1'' 5 [] = (Inr r, v1)"
      "rotate_secret demo_cipher r ''s2'' 6 v1 = (Inr (), v2)"
    by (simp add: store_secret_def rotate_secret_def demo_cipher_def tbl_get_def Let_def)
  show ?thesis
    using vault_roundtrip [OF law run, of "\<lparr>sa_role = ''model'', sa_guest_id = ''g''\<rparr>" r]
      vault_roundtrip [OF law run, of "\<lparr>sa_role = ''tool'', sa_guest_id = ''g''\<rparr>" r] run
    by auto
qed

theorem inject_spec_witness:
  "inject_credentials demo_cipher [] (gateway_policies [demo_policy]) demo_request = demo_request"
  using inject_spec [of demo_cipher "[]" "gateway_policies [demo_policy]" demo_request]
  by (simp add: Let_def resolve_secret_def tbl_get_def)

end
