(* ===== verification/McpMembrane.thy ===== *)
theory McpMembrane
  imports Perimeter
begin

section \<open>The MCP membrane\<close>

text \<open>
  Models \<^verbatim>\<open>crates/membrane-mcp/src\<close>: the bearer authentication with its hash cache and call allotments
  (\<^verbatim>\<open>auth.rs\<close>), the route and endpoint tables (\<^verbatim>\<open>routing.rs\<close>), the argument transforms (\<^verbatim>\<open>transform.rs\<close>), the
  dispatch of a JSON-RPC request behind the ingress fence (\<^verbatim>\<open>server.rs\<close>), and the listener that follows the
  hotel's perimeter (\<^verbatim>\<open>main.rs\<close>), with the shared types of \<^verbatim>\<open>ansible-mesh-core/src/mcp_route.rs\<close> and
  \<^verbatim>\<open>mcp_endpoint.rs\<close>. BLAKE3, the vault behind the resolver, the decoding of JSON-RPC parameters and the
  outcome of a socket bind are arguments. A call that reaches the agents is the envelope it sends; its reply
  comes back through \<open>deliver\<close>.
\<close>

subsection \<open>Routes and endpoints\<close>

record McpCallAllotment =
  max_per_window :: nat
  window_secs :: nat

record McpTokenGrant =
  token_id :: string
  vault_ref :: string
  grant_scopes :: "string list"
  grant_expires_at :: "nat option"
  grant_allotment :: "McpCallAllotment option"

datatype McpAuthScheme = BearerToken "McpTokenGrant list" | NoAuth

datatype McpRouteTarget = PhiloteTarget string "string option" | ToolTarget string | DatasourceTarget string

record McpRouteSecurity =
  sec_auth :: McpAuthScheme
  global_allotment :: "McpCallAllotment option"
  require_approval :: bool

record McpRouteRecord =
  route_agent_id :: string
  route_tool_name :: string
  route_description :: string
  route_input_schema :: json
  route_target :: McpRouteTarget
  route_security :: McpRouteSecurity
  route_updated_at :: nat

record FieldMapping =
  map_from :: string
  map_to :: string

datatype McpInboundTransform = FieldMap string McpRouteTarget "FieldMapping list" | InTemplate string

datatype McpOutboundTransform = Extract string | PassThrough | OutTemplate string

record McpToolSpec =
  ts_name :: string
  ts_description :: string
  ts_input_schema :: json
  inbound_transform :: McpInboundTransform
  outbound_transform :: McpOutboundTransform
  ts_auth :: "McpAuthScheme option"

record McpPreapprovalRule =
  action_pattern :: string
  rule_target :: "McpRouteTarget option"
  approved_by_turn :: string
  approved_at :: nat
  rule_expires_at :: "nat option"

record McpEndpointConfig =
  endpoint_id :: string
  owner_agent_id :: string
  ec_port :: nat
  ec_path :: "string option"
  exposure :: ExposureTier
  tools :: "McpToolSpec list"
  default_auth :: "McpAuthScheme option"
  allow_unauthenticated :: bool
  preapproval_rules :: "McpPreapprovalRule list"
  ec_updated_at :: nat

definition effective_auth :: "McpEndpointConfig \<Rightarrow> McpToolSpec \<Rightarrow> McpAuthScheme" where
  "effective_auth cfg tool =
     (case ts_auth tool of
        Some a \<Rightarrow> a
      | None \<Rightarrow> (case default_auth cfg of Some a \<Rightarrow> a | None \<Rightarrow> NoAuth))"

subsection \<open>Authentication\<close>

datatype AuthError = AuthMissing | AuthInvalid | AuthExpired | AuthAllotment

record CallerIdentity =
  caller_token_id :: string
  caller_scopes :: "string list"

definition dur_secs :: "nat \<Rightarrow> nat" where "dur_secs s = s * 1000000000"

definition VAULT_CACHE_TTL :: nat where "VAULT_CACHE_TTL = dur_secs 60"

type_synonym hash_cache = "(string \<times> string \<times> nat) list"

text \<open>A request sees two clocks: a monotonic one and the wall clock in seconds.\<close>

record mcp_env =
  blake3 :: "string \<Rightarrow> string"
  resolve_hash :: "string \<Rightarrow> string option"
  instant :: nat
  epoch_secs :: nat

definition cache_get :: "hash_cache \<Rightarrow> nat \<Rightarrow> string \<Rightarrow> string option" where
  "cache_get cache now r =
     (case tbl_get cache r of Some (h, cached_at) \<Rightarrow> if now - cached_at < VAULT_CACHE_TTL then Some h else None | None \<Rightarrow> None)"

fun grant_loop ::
  "mcp_env \<Rightarrow> string \<Rightarrow> McpTokenGrant list \<Rightarrow> bool \<Rightarrow> hash_cache \<Rightarrow> (AuthError + McpTokenGrant) \<times> hash_cache" where
  "grant_loop env presented [] matched_expired cache =
     (Inl (if matched_expired then AuthExpired else AuthInvalid), cache)"
| "grant_loop env presented (g # gs) matched_expired cache =
     (case (case cache_get cache (instant env) (vault_ref g) of
              Some h \<Rightarrow> (Some h, cache)
            | None \<Rightarrow>
                (case resolve_hash env (vault_ref g) of
                   Some h \<Rightarrow> (Some h, tbl_put (vault_ref g) (h, instant env) cache)
                 | None \<Rightarrow> (None, cache))) of
        (None, cache1) \<Rightarrow> grant_loop env presented gs matched_expired cache1
      | (Some stored, cache1) \<Rightarrow>
          if presented \<noteq> stored then grant_loop env presented gs matched_expired cache1
          else if (case grant_expires_at g of Some e \<Rightarrow> epoch_secs env > e | None \<Rightarrow> False)
          then grant_loop env presented gs True cache1
          else (Inr g, cache1))"

definition matching_bearer_grant ::
  "mcp_env \<Rightarrow> string \<Rightarrow> McpTokenGrant list \<Rightarrow> hash_cache \<Rightarrow> (AuthError + McpTokenGrant) \<times> hash_cache" where
  "matching_bearer_grant env token gs cache = grant_loop env (blake3 env token) gs False cache"

definition caller_identity :: "McpTokenGrant \<Rightarrow> CallerIdentity" where
  "caller_identity g = \<lparr>caller_token_id = token_id g, caller_scopes = grant_scopes g\<rparr>"

definition verify_bearer_token ::
  "mcp_env \<Rightarrow> string \<Rightarrow> McpTokenGrant list \<Rightarrow> hash_cache \<Rightarrow> (AuthError + CallerIdentity) \<times> hash_cache" where
  "verify_bearer_token env token gs cache =
     (case matching_bearer_grant env token gs cache of
        (Inl e, cache1) \<Rightarrow> (Inl e, cache1) | (Inr g, cache1) \<Rightarrow> (Inr (caller_identity g), cache1))"

text \<open>Call allotments: a counter and the start of its window per tool and token.\<close>

type_synonym allotments = "string \<times> string \<Rightarrow> (nat \<times> nat) option"

definition check_and_increment ::
  "allotments \<Rightarrow> string \<Rightarrow> string \<Rightarrow> McpCallAllotment \<Rightarrow> nat \<Rightarrow> (AuthError + unit) \<times> allotments" where
  "check_and_increment al tool tok a now =
     (let entry = (case al (tool, tok) of Some e \<Rightarrow> e | None \<Rightarrow> (0, now));
          entry1 = (if now - snd entry \<ge> dur_secs (window_secs a) then (0, now) else entry)
      in if fst entry1 \<ge> max_per_window a
         then (Inl AuthAllotment, al((tool, tok) \<mapsto> entry1))
         else (Inr (), al((tool, tok) \<mapsto> (fst entry1 + 1, snd entry1))))"

definition check_bearer_token ::
  "mcp_env \<Rightarrow> string \<Rightarrow> string \<Rightarrow> McpTokenGrant list \<Rightarrow> hash_cache \<Rightarrow> allotments
   \<Rightarrow> (AuthError + CallerIdentity) \<times> hash_cache \<times> allotments" where
  "check_bearer_token env tool token gs cache al =
     (case matching_bearer_grant env token gs cache of
        (Inl e, cache1) \<Rightarrow> (Inl e, cache1, al)
      | (Inr g, cache1) \<Rightarrow>
          (case grant_allotment g of
             None \<Rightarrow> (Inr (caller_identity g), cache1, al)
           | Some a \<Rightarrow>
               (case check_and_increment al tool (token_id g) a (instant env) of
                  (Inl e, al1) \<Rightarrow> (Inl e, cache1, al1)
                | (Inr _, al1) \<Rightarrow> (Inr (caller_identity g), cache1, al1))))"

definition extract_bearer :: "string option \<Rightarrow> string option" where
  "extract_bearer h = (case h of None \<Rightarrow> None | Some s \<Rightarrow> map_option trim (strip_prefix ''Bearer '' s))"

definition check_none_auth :: "bool \<Rightarrow> AuthError + CallerIdentity" where
  "check_none_auth loopback =
     (if \<not> loopback then Inl AuthMissing else Inr \<lparr>caller_token_id = ''loopback'', caller_scopes = [''*'']\<rparr>)"

definition authorize_call ::
  "mcp_env \<Rightarrow> string \<Rightarrow> McpAuthScheme \<Rightarrow> string option \<Rightarrow> bool \<Rightarrow> hash_cache \<Rightarrow> allotments
   \<Rightarrow> (AuthError + CallerIdentity) \<times> hash_cache \<times> allotments" where
  "authorize_call env tool scheme hdr loopback cache al =
     (case scheme of
        BearerToken gs \<Rightarrow>
          (case extract_bearer hdr of
             None \<Rightarrow> (Inl AuthMissing, cache, al)
           | Some token \<Rightarrow> check_bearer_token env tool token gs cache al)
      | NoAuth \<Rightarrow> (check_none_auth loopback, cache, al))"

subsection \<open>Tables\<close>

record ResolvedRoute =
  route_owner :: string
  route_record :: McpRouteRecord

record RoutingTable =
  routes :: "(string \<times> ResolvedRoute) list"
  agent_index :: "(string \<times> string list) list"

definition routing_new :: RoutingTable where "routing_new = \<lparr>routes = [], agent_index = []\<rparr>"

definition drop_owned :: "string \<Rightarrow> string list \<Rightarrow> (string \<times> ResolvedRoute) list \<Rightarrow> (string \<times> ResolvedRoute) list" where
  "drop_owned agent names rs =
     foldl (\<lambda>t name. if (case tbl_get t name of Some r \<Rightarrow> route_owner r = agent | None \<Rightarrow> False) then tbl_del name t else t) rs names"

definition clear_agent :: "RoutingTable \<Rightarrow> string \<Rightarrow> RoutingTable" where
  "clear_agent t agent =
     (case tbl_get (agent_index t) agent of
        None \<Rightarrow> t
      | Some names \<Rightarrow> t\<lparr>routes := drop_owned agent names (routes t), agent_index := tbl_del agent (agent_index t)\<rparr>)"

definition upsert_agent_routes :: "RoutingTable \<Rightarrow> string \<Rightarrow> McpRouteRecord list \<Rightarrow> RoutingTable" where
  "upsert_agent_routes t agent recs =
     (let t1 = clear_agent t agent
      in \<lparr>routes = foldl (\<lambda>rs r. tbl_put (route_tool_name r) \<lparr>route_owner = agent, route_record = r\<rparr> rs) (routes t1) recs,
          agent_index = tbl_put agent (map route_tool_name recs) (agent_index t1)\<rparr>)"

definition revoke_agent_routes :: "RoutingTable \<Rightarrow> string \<Rightarrow> RoutingTable" where
  "revoke_agent_routes t agent = clear_agent t agent"

definition find_tool :: "McpEndpointConfig \<Rightarrow> string \<Rightarrow> McpToolSpec option" where
  "find_tool cfg name = find (\<lambda>s. ts_name s = name) (tools cfg)"

definition is_preapproved :: "McpEndpointConfig \<Rightarrow> string \<Rightarrow> nat \<Rightarrow> bool" where
  "is_preapproved cfg action now =
     list_ex (\<lambda>rule. (case rule_expires_at rule of Some e \<Rightarrow> \<not> now > e | None \<Rightarrow> True)
                \<and> (action_pattern rule = ''*'' \<or> action_pattern rule = action)) (preapproval_rules cfg)"

subsection \<open>Transforms\<close>

fun json_at :: "json \<Rightarrow> string \<Rightarrow> json option" where
  "json_at (JArr xs) key =
     (case parse_unsigned u64_max key of Some i \<Rightarrow> if i < length xs then Some (xs ! i) else None | None \<Rightarrow> None)"
| "json_at (JObj fs) key = tbl_get fs key"
| "json_at _ key = None"

fun get_path :: "json \<Rightarrow> string list \<Rightarrow> json option" where
  "get_path v [] = Some v"
| "get_path v (k # ks) = (case json_at v k of Some w \<Rightarrow> get_path w ks | None \<Rightarrow> None)"

definition get_dot_path :: "json \<Rightarrow> string \<Rightarrow> json option" where
  "get_dot_path v path = get_path v (split_on CHR ''.'' path)"

fun set_path :: "(string \<times> json) list \<Rightarrow> string list \<Rightarrow> json \<Rightarrow> (string \<times> json) list" where
  "set_path obj [] v = obj"
| "set_path obj [k] v = tbl_put k v obj"
| "set_path obj (k # ks) v =
     (case (case tbl_get obj k of Some child \<Rightarrow> child | None \<Rightarrow> JObj []) of
        JObj child \<Rightarrow> tbl_put k (JObj (set_path child ks v)) obj
      | _ \<Rightarrow> obj)"

definition set_dot_path :: "(string \<times> json) list \<Rightarrow> string \<Rightarrow> json \<Rightarrow> (string \<times> json) list" where
  "set_dot_path obj path v = set_path obj (split_on CHR ''.'' path) v"

definition apply_field_map :: "json \<Rightarrow> FieldMapping list \<Rightarrow> json" where
  "apply_field_map args mappings =
     (let payload = foldl (\<lambda>obj mp. case get_dot_path args (map_from mp) of
                                       Some v \<Rightarrow> set_dot_path obj (map_to mp) v | None \<Rightarrow> obj) [] mappings
      in JObj (if mappings = [] then (case args of JObj fs \<Rightarrow> fs | _ \<Rightarrow> payload) else payload))"

fun target_parts :: "McpRouteTarget \<Rightarrow> string \<times> string" where
  "target_parts (PhiloteTarget agent _) = (''philote'', agent)"
| "target_parts (ToolTarget r) = (''tool'', r)"
| "target_parts (DatasourceTarget d) = (''datasource'', d)"

record InboundResult =
  ir_action :: string
  ir_payload :: json
  ir_target :: "string \<times> string"

definition apply_inbound :: "McpToolSpec \<Rightarrow> json \<Rightarrow> InboundResult option" where
  "apply_inbound spec args =
     (case inbound_transform spec of
        FieldMap action target mappings \<Rightarrow>
          Some \<lparr>ir_action = action, ir_payload = apply_field_map args mappings, ir_target = target_parts target\<rparr>
      | InTemplate _ \<Rightarrow> None)"

definition apply_outbound :: "(string \<Rightarrow> json option) \<Rightarrow> (json \<Rightarrow> string) \<Rightarrow> McpToolSpec \<Rightarrow> string \<Rightarrow> string" where
  "apply_outbound parse print spec response =
     (case outbound_transform spec of
        PassThrough \<Rightarrow> response
      | OutTemplate _ \<Rightarrow> response
      | Extract path \<Rightarrow>
          (case parse response of
             None \<Rightarrow> response
           | Some v \<Rightarrow> (case get_dot_path v path of Some (JStr s) \<Rightarrow> s | Some w \<Rightarrow> print w | None \<Rightarrow> response)))"

subsection \<open>The server\<close>

record Envelope =
  env_session_id :: string
  env_turn_id :: string
  env_sender :: string
  env_command :: string
  env_payload :: json
  env_target :: "(string \<times> string) option"
  env_target_node :: "string option"
  env_requires_approval :: bool
  env_reply_guest :: string

datatype DispatchOutcome = OutcomeOk string | OutcomeErr string

record MembraneState =
  ms_guest_id :: string
  ms_static :: bool
  ms_routes :: RoutingTable
  ms_endpoint :: "McpEndpointConfig option"
  ms_cache :: hash_cache
  ms_allot :: allotments
  ms_pending :: "(string \<times> unit) list"
  ms_buffers :: "(string \<times> string) list"
  ingress_tier :: ExposureTier
  declared_exposure :: "ExposureTier option"

datatype rpc_error = MethodNotFound | InvalidParams | ToolNotFound | PermissionDenied | TokenExpired
  | AllotmentExceeded | DispatchError | ApprovalRequired

fun auth_error_code :: "AuthError \<Rightarrow> rpc_error" where
  "auth_error_code AuthMissing = PermissionDenied"
| "auth_error_code AuthInvalid = PermissionDenied"
| "auth_error_code AuthExpired = TokenExpired"
| "auth_error_code AuthAllotment = AllotmentExceeded"

datatype rpc_reply = FenceDenied nat | NoReply | Initialized string | Pong | ToolsListed "string list"
  | RpcError rpc_error | Parked string

text \<open>What one HTTP request brings: the method, whether it carries an id, its decoded parameters, and the
  fresh turn id and channel state it would meet.\<close>

record rpc_request =
  rq_rpc_method :: string
  rq_has_id :: bool
  rq_version :: "string option"
  rq_call :: "(string \<times> json option) option"
  rq_auth :: "string option"
  rq_loopback :: bool
  rq_turn :: string
  rq_send_ok :: bool

definition SUPPORTED_PROTOCOL_VERSIONS :: "string list" where
  "SUPPORTED_PROTOCOL_VERSIONS = [''2025-03-26'', ''2024-11-05'']"

definition handle_initialize :: "string option \<Rightarrow> rpc_reply" where
  "handle_initialize v =
     Initialized (case v of Some s \<Rightarrow> if s \<in> set SUPPORTED_PROTOCOL_VERSIONS then s else hd SUPPORTED_PROTOCOL_VERSIONS
                          | None \<Rightarrow> hd SUPPORTED_PROTOCOL_VERSIONS)"

definition tool_visible :: "mcp_env \<Rightarrow> string option \<Rightarrow> bool \<Rightarrow> McpAuthScheme \<Rightarrow> hash_cache \<Rightarrow> bool \<times> hash_cache" where
  "tool_visible env bearer loopback scheme cache =
     (case scheme of
        NoAuth \<Rightarrow> (loopback, cache)
      | BearerToken gs \<Rightarrow>
          (case bearer of
             None \<Rightarrow> (False, cache)
           | Some token \<Rightarrow>
               (case verify_bearer_token env token gs cache of
                  (Inr _, cache1) \<Rightarrow> (True, cache1) | (Inl _, cache1) \<Rightarrow> (False, cache1))))"

fun visible_tools ::
  "mcp_env \<Rightarrow> string option \<Rightarrow> bool \<Rightarrow> (string \<times> McpAuthScheme) list \<Rightarrow> hash_cache \<Rightarrow> string list \<times> hash_cache" where
  "visible_tools env bearer loopback [] cache = ([], cache)"
| "visible_tools env bearer loopback ((name, scheme) # rest) cache =
     (case tool_visible env bearer loopback scheme cache of (vis, cache1) \<Rightarrow>
        case visible_tools env bearer loopback rest cache1 of (names, cache2) \<Rightarrow>
          ((if vis then name # names else names), cache2))"

text \<open>The tools a request addresses, with the scheme that guards each: the endpoint's when one is configured, else the route table's.\<close>

definition offered_tools :: "MembraneState \<Rightarrow> (string \<times> McpAuthScheme) list" where
  "offered_tools st =
     (case ms_endpoint st of
        Some cfg \<Rightarrow> map (\<lambda>s. (ts_name s, effective_auth cfg s)) (tools cfg)
      | None \<Rightarrow> map (\<lambda>(name, r). (route_tool_name (route_record r), sec_auth (route_security (route_record r))))
                  (routes (ms_routes st)))"

definition handle_tools_list :: "mcp_env \<Rightarrow> rpc_request \<Rightarrow> MembraneState \<Rightarrow> rpc_reply \<times> MembraneState" where
  "handle_tools_list env rq st =
     (case visible_tools env (extract_bearer (rq_auth rq)) (rq_loopback rq) (offered_tools st) (ms_cache st) of
        (names, cache1) \<Rightarrow> (ToolsListed names, st\<lparr>ms_cache := cache1\<rparr>))"

text \<open>Parking a call: the pending slot is taken before the envelope is sent and freed again when the send fails.\<close>

definition park :: "rpc_request \<Rightarrow> Envelope \<Rightarrow> MembraneState \<Rightarrow> rpc_reply \<times> MembraneState \<times> Envelope list" where
  "park rq e st =
     (if rq_send_ok rq
      then (Parked (rq_turn rq), st\<lparr>ms_pending := tbl_put (rq_turn rq) () (ms_pending st)\<rparr>, [e])
      else (RpcError DispatchError, st\<lparr>ms_pending := tbl_del (rq_turn rq) (tbl_put (rq_turn rq) () (ms_pending st))\<rparr>, []))"

definition call_endpoint_tool ::
  "mcp_env \<Rightarrow> rpc_request \<Rightarrow> McpEndpointConfig \<Rightarrow> string \<Rightarrow> json \<Rightarrow> MembraneState
   \<Rightarrow> rpc_reply \<times> MembraneState \<times> Envelope list" where
  "call_endpoint_tool env rq cfg tool args st =
     (case find_tool cfg tool of
        None \<Rightarrow> (RpcError ToolNotFound, st, [])
      | Some spec \<Rightarrow>
          (case authorize_call env tool (effective_auth cfg spec) (rq_auth rq) (rq_loopback rq) (ms_cache st) (ms_allot st) of
             (Inl e, cache1, al1) \<Rightarrow> (RpcError (auth_error_code e), st\<lparr>ms_cache := cache1, ms_allot := al1\<rparr>, [])
           | (Inr caller, cache1, al1) \<Rightarrow>
               let st1 = st\<lparr>ms_cache := cache1, ms_allot := al1\<rparr> in
               (case apply_inbound spec args of
                  None \<Rightarrow> (RpcError InvalidParams, st1, [])
                | Some inb \<Rightarrow>
                    park rq
                      \<lparr>env_session_id = ''mcp-'' @ caller_token_id caller @ ''-'' @ take 8 (rq_turn rq), env_turn_id = rq_turn rq,
                       env_sender = caller_token_id caller, env_command = ir_action inb, env_payload = ir_payload inb,
                       env_target = Some (ir_target inb), env_target_node = None,
                       env_requires_approval = (\<not> is_preapproved cfg (ir_action inb) (epoch_secs env)),
                       env_reply_guest = ms_guest_id st\<rparr> st1)))"

definition call_routed_tool ::
  "mcp_env \<Rightarrow> rpc_request \<Rightarrow> string \<Rightarrow> json \<Rightarrow> MembraneState \<Rightarrow> rpc_reply \<times> MembraneState \<times> Envelope list" where
  "call_routed_tool env rq tool args st =
     (case tbl_get (routes (ms_routes st)) tool of
        None \<Rightarrow> (RpcError ToolNotFound, st, [])
      | Some route \<Rightarrow>
          let sec = route_security (route_record route) in
          (case authorize_call env tool (sec_auth sec) (rq_auth rq) (rq_loopback rq) (ms_cache st) (ms_allot st) of
             (Inl e, cache1, al1) \<Rightarrow> (RpcError (auth_error_code e), st\<lparr>ms_cache := cache1, ms_allot := al1\<rparr>, [])
           | (Inr caller, cache1, al1) \<Rightarrow>
               park rq
                 \<lparr>env_session_id = ''mcp-'' @ caller_token_id caller, env_turn_id = rq_turn rq,
                  env_sender = caller_token_id caller, env_command = tool,
                  env_payload = JObj [(''tool'', JStr tool), (''args'', args)],
                  env_target = (case route_target (route_record route) of PhiloteTarget a _ \<Rightarrow> Some (''philote'', a) | _ \<Rightarrow> None),
                  env_target_node = (case route_target (route_record route) of PhiloteTarget _ n \<Rightarrow> n | _ \<Rightarrow> None),
                  env_requires_approval = require_approval sec, env_reply_guest = ms_guest_id st\<rparr>
                 (st\<lparr>ms_cache := cache1, ms_allot := al1\<rparr>)))"

definition handle_tools_call ::
  "mcp_env \<Rightarrow> rpc_request \<Rightarrow> MembraneState \<Rightarrow> rpc_reply \<times> MembraneState \<times> Envelope list" where
  "handle_tools_call env rq st =
     (case rq_call rq of
        None \<Rightarrow> (RpcError InvalidParams, st, [])
      | Some (tool, arguments) \<Rightarrow>
          if ms_static st then (RpcError DispatchError, st, [])
          else
            let args = (case arguments of Some a \<Rightarrow> a | None \<Rightarrow> JObj []) in
            (case ms_endpoint st of
               Some cfg \<Rightarrow> call_endpoint_tool env rq cfg tool args st
             | None \<Rightarrow> call_routed_tool env rq tool args st))"

definition dispatch_rpc ::
  "mcp_env \<Rightarrow> rpc_request \<Rightarrow> MembraneState \<Rightarrow> rpc_reply \<times> MembraneState \<times> Envelope list" where
  "dispatch_rpc env rq st =
     (case check_ingress (ingress_tier st) (rq_auth rq) (rq_loopback rq) of
        IngressDeny status \<Rightarrow> (FenceDenied status, st, [])
      | IngressAllow \<Rightarrow>
          if rq_rpc_method rq \<in> {''notifications/initialized'', ''initialized'', ''notifications/cancelled'', ''notifications/progress''}
             \<or> \<not> rq_has_id rq
          then (NoReply, st, [])
          else if rq_rpc_method rq = ''initialize'' then (handle_initialize (rq_version rq), st, [])
          else if rq_rpc_method rq = ''ping'' then (Pong, st, [])
          else if rq_rpc_method rq = ''tools/list''
          then (case handle_tools_list env rq st of (r, st1) \<Rightarrow> (r, st1, []))
          else if rq_rpc_method rq = ''tools/call'' then handle_tools_call env rq st
          else (RpcError MethodNotFound, st, []))"

subsection \<open>Replies\<close>

datatype OutboundReply = TextReply string string | StreamingToken string string | ErrorReply string string
  | ApprovalRequest string

definition take_waiting :: "string \<Rightarrow> MembraneState \<Rightarrow> bool \<times> MembraneState" where
  "take_waiting turn st = (tbl_get (ms_pending st) turn \<noteq> None, st\<lparr>ms_pending := tbl_del turn (ms_pending st)\<rparr>)"

text \<open>The outcome handed to a waiting caller, if any.\<close>

fun deliver :: "OutboundReply \<Rightarrow> MembraneState \<Rightarrow> (string \<times> DispatchOutcome) option \<times> MembraneState" where
  "deliver (ApprovalRequest turn) st = (None, st)"
| "deliver (StreamingToken turn tok) st =
     (None, st\<lparr>ms_buffers := tbl_put turn ((case tbl_get (ms_buffers st) turn of Some s \<Rightarrow> s | None \<Rightarrow> []) @ tok) (ms_buffers st)\<rparr>)"
| "deliver (TextReply turn content) st =
     (case take_waiting turn st of (waiting, st1) \<Rightarrow>
        ((if waiting
          then Some (turn, OutcomeOk (if trim content = []
                 then (case tbl_get (ms_buffers st) turn of Some s \<Rightarrow> s | None \<Rightarrow> content) else content))
          else None),
         st1\<lparr>ms_buffers := tbl_del turn (ms_buffers st)\<rparr>))"
| "deliver (ErrorReply turn msg) st =
     (case take_waiting turn st of (waiting, st1) \<Rightarrow>
        ((if waiting then Some (turn, OutcomeErr msg) else None), st1\<lparr>ms_buffers := tbl_del turn (ms_buffers st)\<rparr>))"

definition call_timed_out :: "string \<Rightarrow> bool \<Rightarrow> MembraneState \<Rightarrow> rpc_reply \<times> MembraneState" where
  "call_timed_out turn approval st =
     (RpcError (if approval then ApprovalRequired else DispatchError),
      st\<lparr>ms_pending := tbl_del turn (ms_pending st), ms_buffers := tbl_del turn (ms_buffers st)\<rparr>)"

subsection \<open>The listener\<close>

definition any_addr :: IpAddr where "any_addr = V4 0 0 0 0"

definition loopback_addr :: IpAddr where "loopback_addr = V4 127 0 0 1"

definition effective_addr :: "MembraneState \<Rightarrow> IpAddr" where
  "effective_addr st =
     (if (case declared_exposure st of Some t \<Rightarrow> t > Local \<and> t \<le> ingress_tier st | None \<Rightarrow> False)
      then any_addr else loopback_addr)"

text \<open>\<open>binds i\<close> says whether the \<open>i\<close>-th attempt to bind succeeds; after ten failures nothing is bound.\<close>

definition reconcile_listener :: "(nat \<Rightarrow> bool) \<Rightarrow> MembraneState \<Rightarrow> IpAddr option \<Rightarrow> IpAddr option" where
  "reconcile_listener binds st bound =
     (if bound = Some (effective_addr st) then bound
      else if list_ex binds [0..<10] then Some (effective_addr st) else None)"

record McpMembrane =
  mm_state :: MembraneState
  mm_bound :: "IpAddr option"

datatype membrane_push =
    PerimeterShift ExposureTier ExposureTier
  | DatasourceResponse string "DispatchOutcome option"
  | UpdateMcpRoutes string "McpRouteRecord list"
  | RevokeMcpRoutes string
  | UpdateMcpConfig "McpEndpointConfig option"
  | RevokeMcpConfig
  | UpdatePerimeter "ExposureTier option"
  | OtherPush

definition rebound :: "(nat \<Rightarrow> bool) \<Rightarrow> MembraneState \<Rightarrow> McpMembrane \<Rightarrow> McpMembrane" where
  "rebound binds st m = m\<lparr>mm_state := st, mm_bound := reconcile_listener binds st (mm_bound m)\<rparr>"

fun handle_push :: "(nat \<Rightarrow> bool) \<Rightarrow> membrane_push \<Rightarrow> McpMembrane \<Rightarrow> bool \<times> McpMembrane \<times> (string \<times> DispatchOutcome) option" where
  "handle_push binds (PerimeterShift previous current) m =
     (True, rebound binds ((mm_state m)\<lparr>ingress_tier := current\<rparr>) m, None)"
| "handle_push binds (DatasourceResponse turn outcome) m =
     (case outcome of
        None \<Rightarrow> (False, m, None)
      | Some oc \<Rightarrow>
          (case take_waiting turn (mm_state m) of (waiting, st1) \<Rightarrow>
             (True, m\<lparr>mm_state := st1\<rparr>, if waiting then Some (turn, oc) else None)))"
| "handle_push binds (UpdateMcpRoutes agent recs) m =
     (True, m\<lparr>mm_state := (mm_state m)\<lparr>ms_routes := upsert_agent_routes (ms_routes (mm_state m)) agent recs\<rparr>\<rparr>, None)"
| "handle_push binds (RevokeMcpRoutes agent) m =
     (True, m\<lparr>mm_state := (mm_state m)\<lparr>ms_routes := revoke_agent_routes (ms_routes (mm_state m)) agent\<rparr>\<rparr>, None)"
| "handle_push binds (UpdateMcpConfig cfg) m =
     (case cfg of
        None \<Rightarrow> (False, m, None)
      | Some c \<Rightarrow> (True, rebound binds ((mm_state m)\<lparr>declared_exposure := Some (exposure c), ms_endpoint := Some c\<rparr>) m, None))"
| "handle_push binds RevokeMcpConfig m =
     (True, rebound binds ((mm_state m)\<lparr>declared_exposure := None, ms_endpoint := None\<rparr>) m, None)"
| "handle_push binds (UpdatePerimeter tier) m =
     (case tier of
        None \<Rightarrow> (False, m, None)
      | Some t \<Rightarrow> (True, rebound binds ((mm_state m)\<lparr>ingress_tier := t\<rparr>) m, None))"
| "handle_push binds OtherPush m = (False, m, None)"

definition membrane_init :: "string \<Rightarrow> bool \<Rightarrow> McpMembrane" where
  "membrane_init guest static =
     \<lparr>mm_state = \<lparr>ms_guest_id = guest, ms_static = static, ms_routes = routing_new, ms_endpoint = None, ms_cache = [],
        ms_allot = Map.empty, ms_pending = [], ms_buffers = [], ingress_tier = Local, declared_exposure = None\<rparr>,
      mm_bound = None\<rparr>"

text \<open>Start-up: bind, replay the persisted routes, then the endpoint's configuration and the hotel's ceiling.\<close>

definition setup_membrane ::
  "(nat \<Rightarrow> bool) \<Rightarrow> (string \<times> McpRouteRecord list) list \<Rightarrow> (McpEndpointConfig option \<times> ExposureTier option) option
   \<Rightarrow> (nat \<Rightarrow> bool) \<Rightarrow> McpMembrane \<Rightarrow> McpMembrane" where
  "setup_membrane binds persisted status binds2 m =
     (let m1 = rebound binds (mm_state m) m;
          st = (mm_state m1)\<lparr>ms_routes := foldl (\<lambda>t (a, rs). upsert_agent_routes t a rs) (ms_routes (mm_state m1)) persisted\<rparr>;
          m2 = m1\<lparr>mm_state := st\<rparr>
      in case status of
           None \<Rightarrow> m2
         | Some (cfg, tier) \<Rightarrow>
             let st2 = (case cfg of Some c \<Rightarrow> st\<lparr>declared_exposure := Some (exposure c), ms_endpoint := Some c\<rparr> | None \<Rightarrow> st);
                 st3 = (case tier of Some t \<Rightarrow> st2\<lparr>ingress_tier := t\<rparr> | None \<Rightarrow> st2)
             in rebound binds2 st3 m2)"

subsection \<open>Lemmas: authentication\<close>

text \<open>The hash a grant is compared with: the cached one while fresh, else the vault's. Looking grants up never changes it.\<close>

definition stored_hash :: "mcp_env \<Rightarrow> hash_cache \<Rightarrow> string \<Rightarrow> string option" where
  "stored_hash env cache r = (case cache_get cache (instant env) r of Some h \<Rightarrow> Some h | None \<Rightarrow> resolve_hash env r)"

definition grant_live :: "mcp_env \<Rightarrow> McpTokenGrant \<Rightarrow> bool" where
  "grant_live env g \<longleftrightarrow> (case grant_expires_at g of Some e \<Rightarrow> epoch_secs env \<le> e | None \<Rightarrow> True)"

lemma cache_get_put: "cache_get (tbl_put r (h, now) cache) now r' = (if r' = r then Some h else cache_get cache now r')"
  by (simp add: cache_get_def tbl_get_put VAULT_CACHE_TTL_def dur_secs_def)

lemma stored_hash_put:
  "cache_get cache (instant env) r = None \<Longrightarrow> resolve_hash env r = Some h \<Longrightarrow>
     stored_hash env (tbl_put r (h, instant env) cache) = stored_hash env cache"
  by (rule ext) (simp add: stored_hash_def cache_get_put)

lemma grant_loop_Cons:
  "\<exists>cache1. stored_hash env cache1 = stored_hash env cache
     \<and> grant_loop env presented (g # gs) flag cache =
         (if stored_hash env cache (vault_ref g) \<noteq> Some presented then grant_loop env presented gs flag cache1
          else if grant_live env g then (Inr g, cache1) else grant_loop env presented gs True cache1)"
proof (cases "cache_get cache (instant env) (vault_ref g)")
  case (Some h)
  then show ?thesis
    by (intro exI [of _ cache]) (simp add: stored_hash_def grant_live_def not_less split: option.split)
next
  case None
  show ?thesis
  proof (cases "resolve_hash env (vault_ref g)")
    case N: None
    with None show ?thesis by (intro exI [of _ cache]) (simp add: stored_hash_def)
  next
    case (Some h)
    with None stored_hash_put [OF None Some] show ?thesis
      by (intro exI [of _ "tbl_put (vault_ref g) (h, instant env) cache"])
        (simp add: stored_hash_def grant_live_def not_less split: option.split)
  qed
qed

definition grant_failure :: "mcp_env \<Rightarrow> hash_cache \<Rightarrow> string \<Rightarrow> McpTokenGrant list \<Rightarrow> bool \<Rightarrow> AuthError" where
  "grant_failure env cache presented gs flag =
     (if flag \<or> list_ex (\<lambda>g. stored_hash env cache (vault_ref g) = Some presented) gs then AuthExpired else AuthInvalid)"

lemma grant_loop_spec:
  "stored_hash env (snd (grant_loop env presented gs flag cache)) = stored_hash env cache
   \<and> fst (grant_loop env presented gs flag cache) =
       (case find (\<lambda>g. stored_hash env cache (vault_ref g) = Some presented \<and> grant_live env g) gs of
          Some g \<Rightarrow> Inr g | None \<Rightarrow> Inl (grant_failure env cache presented gs flag))"
proof (induction gs arbitrary: flag cache)
  case (Cons g gs)
  obtain cache1 where same: "stored_hash env cache1 = stored_hash env cache"
    and step: "grant_loop env presented (g # gs) flag cache =
         (if stored_hash env cache (vault_ref g) \<noteq> Some presented then grant_loop env presented gs flag cache1
          else if grant_live env g then (Inr g, cache1) else grant_loop env presented gs True cache1)"
    using grant_loop_Cons by blast
  show ?case
    using Cons.IH [of flag cache1] Cons.IH [of True cache1]
    by (simp add: step same grant_failure_def del: grant_loop.simps split: option.split)
qed (simp add: grant_failure_def)

text \<open>Whether a scheme accepts what a request presents, call allotments aside.\<close>

definition accepts :: "mcp_env \<Rightarrow> hash_cache \<Rightarrow> string option \<Rightarrow> bool \<Rightarrow> McpAuthScheme \<Rightarrow> bool" where
  "accepts env cache hdr loopback scheme =
     (case scheme of
        NoAuth \<Rightarrow> loopback
      | BearerToken gs \<Rightarrow>
          (\<exists>token g. extract_bearer hdr = Some token \<and> g \<in> set gs \<and> grant_live env g
             \<and> stored_hash env cache (vault_ref g) = Some (blake3 env token)))"

lemma matching_cache:
  "stored_hash env (snd (matching_bearer_grant env token gs cache)) = stored_hash env cache"
  using grant_loop_spec [of env "blake3 env token" gs False cache] by (simp add: matching_bearer_grant_def)

lemma matching_result:
  "fst (matching_bearer_grant env token gs cache) =
     (case find (\<lambda>g. stored_hash env cache (vault_ref g) = Some (blake3 env token) \<and> grant_live env g) gs of
        Some g \<Rightarrow> Inr g
      | None \<Rightarrow> Inl (grant_failure env cache (blake3 env token) gs False))"
  using grant_loop_spec [of env "blake3 env token" gs False cache] by (simp add: matching_bearer_grant_def)

lemma matching_InrD:
  "matching_bearer_grant env token gs cache = (Inr g, cache') \<Longrightarrow>
     g \<in> set gs \<and> grant_live env g \<and> stored_hash env cache (vault_ref g) = Some (blake3 env token)"
  using matching_result [of env token gs cache] by (auto split: option.splits dest!: find_Some_in)

lemma matching_InlD:
  assumes "matching_bearer_grant env token gs cache = (Inl e, cache')"
  shows "e \<noteq> AuthAllotment" "g \<in> set gs \<Longrightarrow> grant_live env g \<Longrightarrow> stored_hash env cache (vault_ref g) \<noteq> Some (blake3 env token)"
proof -
  have none: "find (\<lambda>g. stored_hash env cache (vault_ref g) = Some (blake3 env token) \<and> grant_live env g) gs = None"
    and e: "e \<in> {AuthExpired, AuthInvalid}"
    using matching_result [of env token gs cache] assms by (auto simp: grant_failure_def split: option.splits if_splits)
  then show "e \<noteq> AuthAllotment" by auto
  show "g \<in> set gs \<Longrightarrow> grant_live env g \<Longrightarrow> stored_hash env cache (vault_ref g) \<noteq> Some (blake3 env token)"
    using none unfolding find_None_all by blast
qed

lemma authorize_accepts:
  assumes "authorize_call env tool scheme hdr loopback cache al = (r, cache', al')"
  shows "accepts env cache hdr loopback scheme \<longleftrightarrow> (case r of Inr _ \<Rightarrow> True | Inl e \<Rightarrow> e = AuthAllotment)"
proof (cases scheme)
  case NoAuth
  with assms show ?thesis by (auto simp: accepts_def authorize_call_def check_none_auth_def split: if_splits)
next
  case (BearerToken gs)
  show ?thesis
  proof (cases "extract_bearer hdr")
    case None
    with assms BearerToken show ?thesis by (auto simp: accepts_def authorize_call_def)
  next
    case (Some token)
    obtain mr mcache where m: "matching_bearer_grant env token gs cache = (mr, mcache)" by fastforce
    show ?thesis
    proof (cases mr)
      case (Inl e)
      note no = matching_InlD [OF m [unfolded Inl]]
      have "r = Inl e" using assms BearerToken Some m Inl by (simp add: authorize_call_def check_bearer_token_def)
      with no BearerToken Some show ?thesis by (auto simp: accepts_def)
    next
      case (Inr g)
      with assms BearerToken Some m have "case r of Inr _ \<Rightarrow> True | Inl e \<Rightarrow> e = AuthAllotment"
        by (auto simp: authorize_call_def check_bearer_token_def check_and_increment_def Let_def
            split: option.splits if_splits)
      moreover have "accepts env cache hdr loopback scheme"
        using matching_InrD [OF m [unfolded Inr]] BearerToken Some by (auto simp: accepts_def)
      ultimately show ?thesis by simp
    qed
  qed
qed

lemma tool_visible_spec:
  "fst (tool_visible env (extract_bearer hdr) loopback scheme cache) = accepts env cache hdr loopback scheme"
  "stored_hash env (snd (tool_visible env (extract_bearer hdr) loopback scheme cache)) = stored_hash env cache"
proof -
  show "fst (tool_visible env (extract_bearer hdr) loopback scheme cache) = accepts env cache hdr loopback scheme"
  proof (cases scheme)
    case (BearerToken gs)
    show ?thesis
    proof (cases "extract_bearer hdr")
      case (Some token)
      obtain mr mcache where m: "matching_bearer_grant env token gs cache = (mr, mcache)" by fastforce
      show ?thesis
        using BearerToken Some m matching_InrD [of env token gs cache] matching_InlD(2) [of env token gs cache]
        by (cases mr) (auto simp: tool_visible_def accepts_def verify_bearer_token_def)
    qed (simp add: tool_visible_def accepts_def BearerToken)
  qed (simp add: tool_visible_def accepts_def)
  show "stored_hash env (snd (tool_visible env (extract_bearer hdr) loopback scheme cache)) = stored_hash env cache"
  proof (cases scheme)
    case (BearerToken gs)
    show ?thesis
    proof (cases "extract_bearer hdr")
      case (Some token)
      obtain mr mcache where m: "matching_bearer_grant env token gs cache = (mr, mcache)" by fastforce
      show ?thesis
        using BearerToken Some m matching_cache [of env token gs cache]
        by (cases mr) (simp_all add: tool_visible_def verify_bearer_token_def)
    qed (simp add: tool_visible_def BearerToken)
  qed (simp add: tool_visible_def)
qed

lemma accepts_cong: "stored_hash env cache = stored_hash env cache' \<Longrightarrow> accepts env cache = accepts env cache'"
  by (intro ext) (simp add: accepts_def split: McpAuthScheme.split)

lemma visible_tools_spec:
  "fst (visible_tools env (extract_bearer hdr) loopback offered cache)
     = map fst (filter (\<lambda>entry. accepts env cache hdr loopback (snd entry)) offered)"
proof (induction offered arbitrary: cache)
  case (Cons o' offered)
  obtain name scheme where o': "o' = (name, scheme)" by fastforce
  obtain vis cache1 where v: "tool_visible env (extract_bearer hdr) loopback scheme cache = (vis, cache1)" by fastforce
  have "accepts env cache1 = accepts env cache" "vis = accepts env cache hdr loopback scheme"
    using tool_visible_spec [of env hdr loopback scheme cache] v by (auto intro: accepts_cong)
  with Cons.IH [of cache1] show ?case
    by (cases "visible_tools env (extract_bearer hdr) loopback offered cache1") (simp add: o' v)
qed simp

subsection \<open>Lemmas: tables and calls\<close>

text \<open>The scheme that guards a tool when it is called.\<close>

definition guard_of :: "MembraneState \<Rightarrow> string \<Rightarrow> McpAuthScheme option" where
  "guard_of st tool =
     (case ms_endpoint st of
        Some cfg \<Rightarrow> map_option (effective_auth cfg) (find_tool cfg tool)
      | None \<Rightarrow> map_option (\<lambda>r. sec_auth (route_security (route_record r))) (tbl_get (routes (ms_routes st)) tool))"

definition keys_match :: "(string \<times> ResolvedRoute) list \<Rightarrow> bool" where
  "keys_match rs \<longleftrightarrow> tbl_wf rs \<and> (\<forall>name r. tbl_get rs name = Some r \<longrightarrow> route_tool_name (route_record r) = name)"

definition routing_wf :: "RoutingTable \<Rightarrow> bool" where
  "routing_wf t \<longleftrightarrow> keys_match (routes t)"

lemma keys_match_put: "keys_match rs \<Longrightarrow> route_tool_name (route_record r) = name \<Longrightarrow> keys_match (tbl_put name r rs)"
  by (auto simp: keys_match_def tbl_get_put intro: tbl.wf_put split: if_splits)

lemma keys_match_del: "keys_match rs \<Longrightarrow> keys_match (tbl_del name rs)"
  by (auto simp: keys_match_def tbl.get_del intro: tbl.wf_del split: if_splits)

lemma keys_match_drop: "keys_match rs \<Longrightarrow> keys_match (drop_owned agent names rs)"
  unfolding drop_owned_def by (induction names arbitrary: rs) (auto intro: keys_match_del)

lemma routing_wf_clear: "routing_wf t \<Longrightarrow> routing_wf (clear_agent t agent)"
  by (auto simp: routing_wf_def clear_agent_def intro: keys_match_drop split: option.splits)

lemma keys_match_puts:
  "keys_match rs \<Longrightarrow> keys_match (foldl (\<lambda>rs r. tbl_put (route_tool_name r) \<lparr>route_owner = agent, route_record = r\<rparr> rs) rs recs)"
  by (induction recs arbitrary: rs) (simp_all add: keys_match_put)

lemma routing_wf_upsert: "routing_wf t \<Longrightarrow> routing_wf (upsert_agent_routes t agent recs)"
  using routing_wf_clear [of t agent]
  by (auto simp: routing_wf_def upsert_agent_routes_def Let_def intro: keys_match_puts)

lemma park_es: "e \<in> set es \<Longrightarrow> park rq e' st = (reply, st', es) \<Longrightarrow> es = [e'] \<and> e = e' \<and> reply = Parked (rq_turn rq)"
  by (auto simp: park_def split: if_splits)

lemma authorize_InrD: "authorize_call env tool scheme hdr loopback cache al = (Inr c, cache', al') \<Longrightarrow> accepts env cache hdr loopback scheme"
  using authorize_accepts by fastforce

lemma call_endpoint_sends:
  assumes "call_endpoint_tool env rq cfg tool args st = (reply, st', es)" "e \<in> set es"
  shows "es = [e] \<and> reply = Parked (rq_turn rq)
    \<and> (\<exists>spec. find_tool cfg tool = Some spec \<and> accepts env (ms_cache st) (rq_auth rq) (rq_loopback rq) (effective_auth cfg spec))
    \<and> (env_requires_approval e \<longleftrightarrow> \<not> is_preapproved cfg (env_command e) (epoch_secs env))"
proof -
  obtain spec where spec: "find_tool cfg tool = Some spec"
    using assms by (auto simp: call_endpoint_tool_def split: option.splits)
  obtain r cache1 al1 where au: "authorize_call env tool (effective_auth cfg spec) (rq_auth rq) (rq_loopback rq) (ms_cache st) (ms_allot st) = (r, cache1, al1)"
    by (rule prod_cases3)
  obtain caller where r: "r = Inr caller" using assms spec au by (cases r) (auto simp: call_endpoint_tool_def)
  obtain inb where inb: "apply_inbound spec args = Some inb"
    using assms spec au r by (auto simp: call_endpoint_tool_def Let_def split: option.splits)
  show ?thesis
    using assms(1) spec r inb authorize_InrD [OF au [unfolded r]] park_es [OF assms(2)]
    by (fastforce simp: call_endpoint_tool_def au Let_def)
qed

lemma call_routed_sends:
  assumes "call_routed_tool env rq tool args st = (reply, st', es)" "e \<in> set es"
  shows "es = [e] \<and> reply = Parked (rq_turn rq)
    \<and> (\<exists>route. tbl_get (routes (ms_routes st)) tool = Some route
         \<and> accepts env (ms_cache st) (rq_auth rq) (rq_loopback rq) (sec_auth (route_security (route_record route)))
         \<and> env_requires_approval e = require_approval (route_security (route_record route)))"
proof -
  obtain route where route: "tbl_get (routes (ms_routes st)) tool = Some route"
    using assms by (auto simp: call_routed_tool_def split: option.splits)
  obtain r cache1 al1 where au: "authorize_call env tool (sec_auth (route_security (route_record route))) (rq_auth rq) (rq_loopback rq)
      (ms_cache st) (ms_allot st) = (r, cache1, al1)"
    by (rule prod_cases3)
  obtain caller where r: "r = Inr caller" using assms route au by (cases r) (auto simp: call_routed_tool_def Let_def)
  show ?thesis
    using assms(1) route r authorize_InrD [OF au [unfolded r]] park_es [OF assms(2)]
    by (fastforce simp: call_routed_tool_def au Let_def)
qed

subsection \<open>Theorems\<close>

text \<open>C3. Nothing reaches the agents unauthenticated. When a request makes the membrane send an envelope, it sends one,
  the ingress fence let the request in, the tool called exists and its scheme accepted what was presented (a
  live grant whose stored hash is that of the bearer token, or, without a scheme, a loopback caller), and
  the envelope skips approval only under a live pre-approval rule for its action or on a route that needs none.\<close>

theorem mcp_call_authorised:
  assumes "dispatch_rpc env rq st = (reply, st', es)" "e \<in> set es"
  shows "es = [e] \<and> reply = Parked (rq_turn rq)
    \<and> check_ingress (ingress_tier st) (rq_auth rq) (rq_loopback rq) = IngressAllow
    \<and> (\<exists>tool args scheme. rq_call rq = Some (tool, args) \<and> guard_of st tool = Some scheme
         \<and> accepts env (ms_cache st) (rq_auth rq) (rq_loopback rq) scheme
         \<and> (env_requires_approval e
            \<or> (case ms_endpoint st of
                 Some cfg \<Rightarrow> is_preapproved cfg (env_command e) (epoch_secs env)
               | None \<Rightarrow> \<exists>route. tbl_get (routes (ms_routes st)) tool = Some route
                          \<and> \<not> require_approval (route_security (route_record route)))))"
proof -
  have fence: "check_ingress (ingress_tier st) (rq_auth rq) (rq_loopback rq) = IngressAllow"
    and call: "handle_tools_call env rq st = (reply, st', es)"
    using assms by (auto simp: dispatch_rpc_def split: IngressDecision.splits if_splits prod.splits)
  obtain tool arguments where tool: "rq_call rq = Some (tool, arguments)"
    using call assms(2) by (auto simp: handle_tools_call_def split: option.splits)
  let ?args = "case arguments of Some a \<Rightarrow> a | None \<Rightarrow> JObj []"
  show ?thesis
  proof (cases "ms_endpoint st")
    case (Some cfg)
    with call tool assms(2) have "call_endpoint_tool env rq cfg tool ?args st = (reply, st', es)"
      by (auto simp: handle_tools_call_def Let_def split: if_splits)
    from call_endpoint_sends [OF this assms(2)] Some fence tool show ?thesis by (auto simp: guard_of_def)
  next
    case None
    with call tool assms(2) have "call_routed_tool env rq tool ?args st = (reply, st', es)"
      by (auto simp: handle_tools_call_def Let_def split: if_splits)
    from call_routed_sends [OF this assms(2)] None fence tool show ?thesis by (auto simp: guard_of_def)
  qed
qed

lemma offered_guard:
  assumes "routing_wf (ms_routes st)" "\<And>cfg. ms_endpoint st = Some cfg \<Longrightarrow> distinct (map ts_name (tools cfg))"
  shows "(tool, scheme) \<in> set (offered_tools st) \<longleftrightarrow> guard_of st tool = Some scheme"
proof (cases "ms_endpoint st")
  case None
  have "(name, r) \<in> set (routes (ms_routes st)) \<longleftrightarrow> tbl_get (routes (ms_routes st)) name = Some r" for name r
    using assms(1) by (simp add: routing_wf_def keys_match_def tbl.rows_get)
  moreover have "tbl_get (routes (ms_routes st)) name = Some r \<Longrightarrow> route_tool_name (route_record r) = name" for name r
    using assms(1) by (simp add: routing_wf_def keys_match_def)
  ultimately show ?thesis by (force simp: None offered_tools_def guard_of_def)
next
  case (Some cfg)
  have "find_tool cfg tool = Some spec \<longleftrightarrow> spec \<in> set (tools cfg) \<and> ts_name spec = tool" for spec
  proof
    assume "spec \<in> set (tools cfg) \<and> ts_name spec = tool"
    then show "find_tool cfg tool = Some spec"
      using assms(2) [OF Some] unfolding find_tool_def find_Some_iff in_set_conv_nth
      by (metis (no_types, lifting) distinct_conv_nth length_map nat_neq_iff nth_map order.strict_trans)
  qed (auto simp: find_tool_def dest: find_Some_in)
  then show ?thesis by (auto simp: Some offered_tools_def guard_of_def)
qed

text \<open>The tool list tells the truth. With distinct tool names, \<open>tools/list\<close> names exactly the tools
  whose call would pass authentication for the same caller, a spent call allotment aside; nothing a caller
  could not use is disclosed.\<close>

theorem tools_list_matches_calls:
  assumes "dispatch_rpc env rq st = (ToolsListed names, st', es)" "routing_wf (ms_routes st)"
    and "\<And>cfg. ms_endpoint st = Some cfg \<Longrightarrow> distinct (map ts_name (tools cfg))"
  shows "tool \<in> set names \<longleftrightarrow>
    (\<exists>scheme. guard_of st tool = Some scheme
       \<and> (case fst (authorize_call env tool scheme (rq_auth rq) (rq_loopback rq) (ms_cache st) al) of
            Inr _ \<Rightarrow> True | Inl e \<Rightarrow> e = AuthAllotment))"
proof -
  have "handle_tools_list env rq st = (ToolsListed names, st')"
    using assms(1) by (auto simp: dispatch_rpc_def handle_tools_call_def call_endpoint_tool_def call_routed_tool_def
        park_def handle_initialize_def Let_def split: IngressDecision.splits if_splits prod.splits option.splits sum.splits)
  then have "names = map fst (filter (\<lambda>entry. accepts env (ms_cache st) (rq_auth rq) (rq_loopback rq) (snd entry)) (offered_tools st))"
    using visible_tools_spec [of env "rq_auth rq" "rq_loopback rq" "offered_tools st" "ms_cache st"]
    by (auto simp: handle_tools_list_def split: prod.splits)
  then have "tool \<in> set names \<longleftrightarrow> (\<exists>scheme. (tool, scheme) \<in> set (offered_tools st)
      \<and> accepts env (ms_cache st) (rq_auth rq) (rq_loopback rq) scheme)"
    by force
  moreover have "accepts env (ms_cache st) (rq_auth rq) (rq_loopback rq) scheme \<longleftrightarrow>
      (case fst (authorize_call env tool scheme (rq_auth rq) (rq_loopback rq) (ms_cache st) al) of
         Inr _ \<Rightarrow> True | Inl e \<Rightarrow> e = AuthAllotment)" for scheme
    using authorize_accepts [of env tool scheme "rq_auth rq" "rq_loopback rq" "ms_cache st" al]
    by (metis fst_conv prod_cases3)
  ultimately show ?thesis using offered_guard [OF assms(2,3), of tool] by simp
qed

subsubsection \<open>Allotments\<close>

fun accepted_calls :: "allotments \<Rightarrow> string \<Rightarrow> string \<Rightarrow> McpCallAllotment \<Rightarrow> nat list \<Rightarrow> nat" where
  "accepted_calls al tool tok a [] = 0"
| "accepted_calls al tool tok a (t # ts) =
     (case check_and_increment al tool tok a t of
        (r, al') \<Rightarrow> (case r of Inr _ \<Rightarrow> 1 | Inl _ \<Rightarrow> 0) + accepted_calls al' tool tok a ts)"

lemma accepted_fresh:
  assumes "(case al (tool, tok) of Some e \<Rightarrow> t - snd e \<ge> dur_secs (window_secs a) | None \<Rightarrow> True)"
  shows "accepted_calls al tool tok a (t # ts) =
    (if max_per_window a = 0 then accepted_calls (al((tool, tok) \<mapsto> (0, t))) tool tok a ts
     else 1 + accepted_calls (al((tool, tok) \<mapsto> (1, t))) tool tok a ts)"
  using assms by (cases "al (tool, tok)") (auto simp: check_and_increment_def Let_def)

lemma accepted_counted:
  assumes "al (tool, tok) = Some (c, w)" "t - w < dur_secs (window_secs a)"
  shows "accepted_calls al tool tok a (t # ts) =
    (if c \<ge> max_per_window a then accepted_calls al tool tok a ts
     else 1 + accepted_calls (al((tool, tok) \<mapsto> (c + 1, w))) tool tok a ts)"
  using assms by (simp add: check_and_increment_def Let_def fun_upd_idem not_le)

declare accepted_calls.simps(2) [simp del]

lemma allotment_in_window:
  "al (tool, tok) = Some (c, w) \<Longrightarrow> (\<forall>t\<in>set ts. t - w < dur_secs (window_secs a)) \<Longrightarrow>
     accepted_calls al tool tok a ts \<le> max_per_window a - c"
proof (induction ts arbitrary: al c)
  case (Cons t ts)
  have "accepted_calls al tool tok a ts \<le> max_per_window a - c"
    "accepted_calls (al((tool, tok) \<mapsto> (c + 1, w))) tool tok a ts \<le> max_per_window a - (c + 1)"
    by (rule Cons.IH; use Cons.prems in simp)+
  moreover have "t - w < dur_secs (window_secs a)" using Cons.prems(2) by simp
  ultimately show ?case using accepted_counted [where al = al and tool = tool and tok = tok and c = c and w = w and t = t and ts = ts and a = a]
      Cons.prems(1) by (cases "c \<ge> max_per_window a") auto
qed simp

lemma allotment_across_reset:
  "al (tool, tok) = Some (c, w) \<Longrightarrow> sorted ts \<Longrightarrow> (\<forall>t\<in>set ts. t0 \<le> t \<and> t < t0 + dur_secs (window_secs a)) \<Longrightarrow>
     accepted_calls al tool tok a ts \<le> (max_per_window a - c) + max_per_window a"
proof (induction ts arbitrary: al c w)
  case (Cons t ts)
  let ?W = "dur_secs (window_secs a)" and ?M = "max_per_window a"
  show ?case
  proof (cases "t - w \<ge> ?W")
    case True
    have later: "t' - t < ?W" if "t' \<in> set ts" for t'
    proof -
      have "t' < t0 + ?W" "t0 \<le> t" "t0 \<le> t'" using Cons.prems(3) that by auto
      then show ?thesis by linarith
    qed
    show ?thesis
      using True Cons.prems(1) later allotment_in_window [of "al((tool, tok) \<mapsto> (1, t))" tool tok 1 t ts a]
        allotment_in_window [of "al((tool, tok) \<mapsto> (0, t))" tool tok 0 t ts a]
        accepted_fresh [where al = al and t = t and ts = ts and tool = tool and tok = tok and a = a] by auto
  next
    case False
    have "accepted_calls al tool tok a ts \<le> (?M - c) + ?M"
      "accepted_calls (al((tool, tok) \<mapsto> (c + 1, w))) tool tok a ts \<le> (?M - (c + 1)) + ?M"
      by (rule Cons.IH; use Cons.prems in simp)+
    with False show ?thesis
      using accepted_counted [where al = al and tool = tool and tok = tok and c = c and w = w and t = t and ts = ts and a = a]
      Cons.prems(1) by (cases "c \<ge> max_per_window a") auto
  qed
qed simp

text \<open>An allotment bounds the calls. In any span shorter than its window a token gets at most twice its
  allotment through, whatever was spent before; and at most the allotment itself when it had not called before.
  (The bound is reached: the window is fixed, not sliding.)\<close>

theorem allotment_bound:
  assumes "sorted ts" "\<forall>t\<in>set ts. t0 \<le> t \<and> t < t0 + dur_secs (window_secs a)"
  shows "accepted_calls al tool tok a ts \<le> 2 * max_per_window a
    \<and> (al (tool, tok) = None \<longrightarrow> accepted_calls al tool tok a ts \<le> max_per_window a)"
proof (cases "al (tool, tok)")
  case None
  show ?thesis
  proof (cases ts)
    case (Cons t rest)
    have "t' - t < dur_secs (window_secs a)" if "t' \<in> set rest" for t'
    proof -
      have "t' < t0 + dur_secs (window_secs a)" "t0 \<le> t" "t0 \<le> t'" using assms(2) Cons that by auto
      then show ?thesis by linarith
    qed
    then have "accepted_calls al tool tok a ts \<le> max_per_window a"
      using None allotment_in_window [of "al((tool, tok) \<mapsto> (1, t))" tool tok 1 t rest a]
        allotment_in_window [of "al((tool, tok) \<mapsto> (0, t))" tool tok 0 t rest a]
        accepted_fresh [where al = al and t = t and ts = rest and tool = tool and tok = tok and a = a] by (auto simp: Cons)
    then show ?thesis by simp
  qed simp
next
  case (Some e)
  obtain c w where "e = (c, w)" by fastforce
  with Some allotment_across_reset [of al tool tok c w ts t0 a] assms show ?thesis by auto
qed

text \<open>The doubled rate happens: one call per ten seconds allowed, two pass within a second of each other.\<close>

lemma allotment_not_sliding:
  "accepted_calls (\<lambda>_. Some (0, 0)) ''t'' ''k'' \<lparr>max_per_window = 1, window_secs = 10\<rparr> [dur_secs 9, dur_secs 10] = 2"
  by (simp add: accepted_calls.simps check_and_increment_def dur_secs_def Let_def)

subsubsection \<open>Reachable membranes\<close>

inductive membrane_reach :: "McpMembrane \<Rightarrow> bool" where
  on_start: "membrane_reach (membrane_init guest static)"
| on_setup: "membrane_reach m \<Longrightarrow> membrane_reach (setup_membrane binds persisted status binds2 m)"
| on_push: "membrane_reach m \<Longrightarrow> handle_push binds p m = (handled, m', oc) \<Longrightarrow> membrane_reach m'"
| on_rpc: "membrane_reach m \<Longrightarrow> dispatch_rpc env rq (mm_state m) = (reply, st', es) \<Longrightarrow> membrane_reach (m\<lparr>mm_state := st'\<rparr>)"
| on_reply: "membrane_reach m \<Longrightarrow> deliver r (mm_state m) = (oc, st') \<Longrightarrow> membrane_reach (m\<lparr>mm_state := st'\<rparr>)"
| on_timeout: "membrane_reach m \<Longrightarrow> membrane_reach (m\<lparr>mm_state := snd (call_timed_out turn approval (mm_state m))\<rparr>)"

text \<open>The two fields the listener depends on change only through a push or the start-up, which rebind.\<close>

definition same_reach :: "MembraneState \<Rightarrow> MembraneState \<Rightarrow> bool" where
  "same_reach st st' \<longleftrightarrow> ingress_tier st' = ingress_tier st \<and> declared_exposure st' = declared_exposure st
     \<and> ms_endpoint st' = ms_endpoint st \<and> ms_routes st' = ms_routes st"

lemma same_reach_rpc: "dispatch_rpc env rq st = (reply, st', es) \<Longrightarrow> same_reach st st'"
proof -
  have park: "park rq e st0 = (reply0, st1, es0) \<Longrightarrow> same_reach st0 st1" for e st0 reply0 st1 es0
    by (auto simp: park_def same_reach_def split: if_splits)
  have "call_endpoint_tool env rq cfg tool args st = (reply0, st1, es0) \<Longrightarrow> same_reach st st1" for cfg tool args reply0 st1 es0
    by (auto simp: call_endpoint_tool_def Let_def same_reach_def dest!: park split: option.splits prod.splits sum.splits)
  moreover have "call_routed_tool env rq tool args st = (reply0, st1, es0) \<Longrightarrow> same_reach st st1" for tool args reply0 st1 es0
    by (auto simp: call_routed_tool_def Let_def same_reach_def dest!: park split: option.splits prod.splits sum.splits)
  ultimately show "dispatch_rpc env rq st = (reply, st', es) \<Longrightarrow> same_reach st st'"
    by (auto simp: dispatch_rpc_def handle_tools_call_def handle_tools_list_def same_reach_def Let_def
        split: IngressDecision.splits if_splits prod.splits option.splits)
qed

lemma same_reach_deliver: "deliver r st = (oc, st') \<Longrightarrow> same_reach st st'"
  by (cases r) (auto simp: take_waiting_def same_reach_def)

lemma effective_addr_cong:
  "ingress_tier st' = ingress_tier st \<Longrightarrow> declared_exposure st' = declared_exposure st \<Longrightarrow> effective_addr st' = effective_addr st"
  by (cases "declared_exposure st") (simp_all add: effective_addr_def)

lemma effective_addr_routes [simp]: "effective_addr (st\<lparr>ms_routes := rs\<rparr>) = effective_addr st"
  by (rule effective_addr_cong) simp_all

definition membrane_inv :: "McpMembrane \<Rightarrow> bool" where
  "membrane_inv m \<longleftrightarrow> (mm_bound m = None \<or> mm_bound m = Some (effective_addr (mm_state m)))
     \<and> routing_wf (ms_routes (mm_state m))
     \<and> map_option exposure (ms_endpoint (mm_state m)) = declared_exposure (mm_state m)"

lemma membrane_inv_same: "membrane_inv m \<Longrightarrow> same_reach (mm_state m) st' \<Longrightarrow> membrane_inv (m\<lparr>mm_state := st'\<rparr>)"
  using effective_addr_cong [of st' "mm_state m"] by (simp add: membrane_inv_def same_reach_def)

lemma membrane_inv_rebound:
  "routing_wf (ms_routes st) \<Longrightarrow> map_option exposure (ms_endpoint st) = declared_exposure st \<Longrightarrow> membrane_inv (rebound binds st m)"
  by (simp add: membrane_inv_def rebound_def reconcile_listener_def)

lemma membrane_inv_fields:
  "membrane_inv m \<Longrightarrow> routing_wf (ms_routes (mm_state m)) \<and> map_option exposure (ms_endpoint (mm_state m)) = declared_exposure (mm_state m)"
  by (simp add: membrane_inv_def)

lemma membrane_inv_push: "membrane_inv m \<Longrightarrow> handle_push binds p m = (handled, m', oc) \<Longrightarrow> membrane_inv m'"
proof (cases p)
  case (DatasourceResponse turn outcome)
  then show "membrane_inv m \<Longrightarrow> handle_push binds p m = (handled, m', oc) \<Longrightarrow> membrane_inv m'"
    by (auto simp: take_waiting_def intro!: membrane_inv_same simp: same_reach_def split: option.splits)
next
  case (UpdateMcpRoutes agent recs)
  then show "membrane_inv m \<Longrightarrow> handle_push binds p m = (handled, m', oc) \<Longrightarrow> membrane_inv m'"
    by (auto simp: membrane_inv_def routing_wf_upsert)
next
  case (RevokeMcpRoutes agent)
  then show "membrane_inv m \<Longrightarrow> handle_push binds p m = (handled, m', oc) \<Longrightarrow> membrane_inv m'"
    by (auto simp: membrane_inv_def revoke_agent_routes_def routing_wf_clear)
next
  case OtherPush
  then show "membrane_inv m \<Longrightarrow> handle_push binds p m = (handled, m', oc) \<Longrightarrow> membrane_inv m'" by simp
qed (auto intro!: membrane_inv_rebound dest: membrane_inv_fields split: option.splits)

lemma routing_wf_replay:
  "routing_wf t \<Longrightarrow> routing_wf (foldl (\<lambda>t (a, rs). upsert_agent_routes t a rs) t persisted)"
  by (induction persisted arbitrary: t) (auto intro: routing_wf_upsert)

lemma membrane_inv_setup: "membrane_inv m \<Longrightarrow> membrane_inv (setup_membrane binds persisted status binds2 m)"
proof -
  assume inv: "membrane_inv m"
  let ?st = "(mm_state m)\<lparr>ms_routes := foldl (\<lambda>t (a, rs). upsert_agent_routes t a rs) (ms_routes (mm_state m)) persisted\<rparr>"
  have wf: "routing_wf (ms_routes ?st)" "map_option exposure (ms_endpoint ?st) = declared_exposure ?st"
    using inv by (simp_all add: membrane_inv_def routing_wf_replay)
  show ?thesis
  proof (cases status)
    case None
    with wf inv show ?thesis
      by (auto simp: setup_membrane_def Let_def rebound_def membrane_inv_def reconcile_listener_def)
  next
    case (Some s)
    obtain cfg tier where s: "s = (cfg, tier)" by fastforce
    show ?thesis
      using wf by (auto simp: setup_membrane_def Let_def rebound_def [of binds] Some s intro!: membrane_inv_rebound
          split: option.splits)
  qed
qed

lemma membrane_reach_inv: "membrane_reach m \<Longrightarrow> membrane_inv m"
proof (induction rule: membrane_reach.induct)
  case (on_start guest static)
  then show ?case by (simp add: membrane_init_def membrane_inv_def routing_wf_def keys_match_def routing_new_def tbl_wf_def tbl_get_def)
next
  case (on_timeout m turn approval)
  then show ?case by (auto intro!: membrane_inv_same simp: call_timed_out_def same_reach_def)
qed (auto intro: membrane_inv_setup membrane_inv_push membrane_inv_same same_reach_rpc same_reach_deliver)

text \<open>C33. The listener never outgrows the perimeter. In every reachable state, the membrane listens beyond loopback only
  while it has an endpoint configuration declaring a tier above \<open>Local\<close> that the ceiling last received from the
  hotel covers; and a push that lowers the ceiling below that tier leaves no listener but a loopback one.\<close>

theorem listener_follows_perimeter:
  assumes "membrane_reach m"
  shows "(case mm_bound m of
       None \<Rightarrow> True
     | Some addr \<Rightarrow> addr = loopback_addr
         \<or> (\<exists>cfg. ms_endpoint (mm_state m) = Some cfg \<and> Local < exposure cfg \<and> exposure cfg \<le> ingress_tier (mm_state m)))
    \<and> (case handle_push binds (UpdatePerimeter (Some tier)) m of (handled, m', oc) \<Rightarrow>
         (\<forall>cfg. ms_endpoint (mm_state m) = Some cfg \<and> tier < exposure cfg \<longrightarrow> mm_bound m' \<in> {None, Some loopback_addr}))"
proof -
  have inv: "membrane_inv m" using assms by (rule membrane_reach_inv)
  have "mm_bound m = Some addr \<Longrightarrow> addr = loopback_addr
      \<or> (\<exists>cfg. ms_endpoint (mm_state m) = Some cfg \<and> Local < exposure cfg \<and> exposure cfg \<le> ingress_tier (mm_state m))" for addr
    using inv by (auto simp: membrane_inv_def effective_addr_def split: option.splits if_splits)
  moreover have "ms_endpoint (mm_state m) = Some cfg \<Longrightarrow> tier < exposure cfg \<Longrightarrow>
      mm_bound (rebound binds ((mm_state m)\<lparr>ingress_tier := tier\<rparr>) m) \<in> {None, Some loopback_addr}" for cfg
    using inv by (auto simp: membrane_inv_def rebound_def reconcile_listener_def effective_addr_def split: option.splits)
  ultimately show ?thesis by (auto split: option.splits)
qed

subsubsection \<open>Replies and payloads\<close>

definition stream_tokens :: "string \<Rightarrow> string list \<Rightarrow> MembraneState \<Rightarrow> MembraneState" where
  "stream_tokens turn toks st = foldl (\<lambda>s tok. snd (deliver (StreamingToken turn tok) s)) st toks"

lemma stream_tokens_facts:
  "ms_pending (stream_tokens turn toks st) = ms_pending st
   \<and> tbl_get (ms_buffers (stream_tokens turn toks st)) turn
       = (if toks = [] then tbl_get (ms_buffers st) turn
          else Some ((case tbl_get (ms_buffers st) turn of Some s \<Rightarrow> s | None \<Rightarrow> []) @ concat toks))"
  unfolding stream_tokens_def by (induction toks arbitrary: st) (auto simp: tbl_get_put split: option.splits)

text \<open>A parked call is answered once, with what was said. After any streamed tokens, a final text reaches the waiting
  caller, the streamed text standing in for an empty one; the slot and buffer are then free, and no later reply
  for that turn produces another answer.\<close>

theorem parked_call_answered_once:
  assumes "tbl_get (ms_pending st) turn = Some ()" "tbl_get (ms_buffers st) turn = None"
    and "deliver (TextReply turn content) (stream_tokens turn toks st) = (oc, st')"
  shows "oc = Some (turn, OutcomeOk (if trim content = [] \<and> toks \<noteq> [] then concat toks else content))
    \<and> tbl_get (ms_pending st') turn = None \<and> tbl_get (ms_buffers st') turn = None
    \<and> fst (deliver (TextReply turn c2) st') = None \<and> fst (deliver (ErrorReply turn c2) st') = None
    \<and> fst (deliver (StreamingToken turn c2) st') = None"
  using assms stream_tokens_facts [of turn toks st]
  by (auto simp: take_waiting_def tbl_get_del)

text \<open>Whether a path can be written: every value it passes through that is there already is an object.\<close>

fun writable :: "(string \<times> json) list \<Rightarrow> string list \<Rightarrow> bool" where
  "writable obj [] \<longleftrightarrow> False"
| "writable obj [k] \<longleftrightarrow> True"
| "writable obj (k # ks) \<longleftrightarrow>
     (case tbl_get obj k of Some (JObj child) \<Rightarrow> writable child ks | None \<Rightarrow> writable [] ks | _ \<Rightarrow> False)"

lemma set_path_get: "writable obj ks \<Longrightarrow> get_path (JObj (set_path obj ks v)) ks = Some v"
proof (induction obj ks v rule: set_path.induct)
  case (3 obj k k' ks v)
  show ?case
  proof (cases "tbl_get obj k")
    case None
    with 3 show ?thesis by (simp add: tbl_get_put)
  next
    case (Some child)
    with 3 show ?thesis by (cases child) (simp_all add: tbl_get_put)
  qed
qed (simp_all add: tbl_get_put)

text \<open>A field mapping puts a value where it says. Reading a dotted path just written returns the value written, for
  every path whose existing steps are objects; other top-level fields keep their values.\<close>

theorem dot_path_roundtrip:
  assumes "writable obj (split_on CHR ''.'' path)"
  shows "get_dot_path (JObj (set_dot_path obj path v)) path = Some v
    \<and> (k \<noteq> hd (split_on CHR ''.'' path) \<longrightarrow> tbl_get (set_dot_path obj path v) k = tbl_get obj k)"
proof -
  have keep: "k \<noteq> hd ks \<Longrightarrow> tbl_get (set_path obj ks v) k = tbl_get obj k" for ks
    by (induction obj ks v rule: set_path.induct) (auto simp: tbl_get_put split: json.splits)
  show ?thesis using set_path_get [OF assms, of v] keep by (simp add: get_dot_path_def set_dot_path_def)
qed

subsubsection \<open>Instances\<close>

definition demo_grant :: McpTokenGrant where
  "demo_grant = \<lparr>token_id = ''cli'', vault_ref = ''v1'', grant_scopes = [], grant_expires_at = Some 50, grant_allotment = None\<rparr>"

definition demo_spec :: McpToolSpec where
  "demo_spec = \<lparr>ts_name = ''search'', ts_description = [], ts_input_schema = JNull,
     inbound_transform = FieldMap ''datasource.query'' (DatasourceTarget ''ds'') [], outbound_transform = PassThrough, ts_auth = None\<rparr>"

definition demo_config :: McpEndpointConfig where
  "demo_config = \<lparr>endpoint_id = ''e1'', owner_agent_id = ''ana'', ec_port = 9100, ec_path = None, exposure = Mesh, tools = [demo_spec],
     default_auth = Some (BearerToken [demo_grant]), allow_unauthenticated = False, preapproval_rules = [], ec_updated_at = 1\<rparr>"

definition demo_mcp_env :: mcp_env where
  "demo_mcp_env = \<lparr>blake3 = rev, resolve_hash = (\<lambda>r. if r = ''v1'' then Some ''kot'' else None), instant = 0, epoch_secs = 10\<rparr>"

definition demo_membrane :: McpMembrane where
  "demo_membrane = fst (snd (handle_push (\<lambda>_. True) (UpdateMcpConfig (Some demo_config))
     (fst (snd (handle_push (\<lambda>_. True) (UpdatePerimeter (Some Internet)) (membrane_init ''g'' False))))))"

definition demo_rq :: "string \<Rightarrow> rpc_request" where
  "demo_rq method = \<lparr>rq_rpc_method = method, rq_has_id = True, rq_version = None, rq_call = Some (''search'', None),
     rq_auth = Some ''Bearer tok'', rq_loopback = False, rq_turn = ''turn-0001'', rq_send_ok = True\<rparr>"

lemma demo_membrane_reach: "membrane_reach demo_membrane"
proof -
  let ?m1 = "fst (snd (handle_push (\<lambda>_. True) (UpdatePerimeter (Some Internet)) (membrane_init ''g'' False)))"
  have "membrane_reach ?m1" by (rule on_push [OF on_start, of "\<lambda>_. True" "UpdatePerimeter (Some Internet)"]) simp
  then show ?thesis unfolding demo_membrane_def
    by (rule on_push [of ?m1 "\<lambda>_. True" "UpdateMcpConfig (Some demo_config)"]) simp
qed

lemma demo_trim: "trim ''tok'' = ''tok''"
  by (simp add: trim_def trim_start_def trim_end_def strip_front.simps match_front_def ws_seqs_def starts_with_def)

lemma demo_bearer: "extract_bearer (Some ''Bearer tok'') = Some ''tok''"
  by (simp add: extract_bearer_def starts_with_def demo_trim)

lemma demo_fence: "has_bearer (Some ''Bearer tok'')"
  by code_simp

lemmas demo_mcp_defs = demo_membrane_def demo_config_def demo_spec_def demo_grant_def demo_mcp_env_def demo_rq_def
  membrane_init_def rebound_def dispatch_rpc_def demo_fence handle_tools_call_def call_endpoint_tool_def find_tool_def
  effective_auth_def authorize_call_def demo_bearer check_bearer_token_def matching_bearer_grant_def cache_get_def tbl_get_def
  apply_inbound_def park_def caller_identity_def Let_def

lemma demo_call_parks:
  "\<exists>st' e. dispatch_rpc demo_mcp_env (demo_rq ''tools/call'') (mm_state demo_membrane) = (Parked ''turn-0001'', st', [e])"
  by (simp add: demo_mcp_defs)

lemma demo_lists: "\<exists>names st'. dispatch_rpc demo_mcp_env (demo_rq ''tools/list'') (mm_state demo_membrane) = (ToolsListed names, st', [])"
  by (simp add: demo_membrane_def membrane_init_def rebound_def dispatch_rpc_def demo_rq_def demo_fence handle_tools_list_def
      split: prod.splits)

theorem mcp_call_authorised_witness:
  "\<exists>st' e scheme. dispatch_rpc demo_mcp_env (demo_rq ''tools/call'') (mm_state demo_membrane) = (Parked ''turn-0001'', st', [e])
     \<and> guard_of (mm_state demo_membrane) ''search'' = Some scheme
     \<and> accepts demo_mcp_env [] (Some ''Bearer tok'') False scheme \<and> env_requires_approval e"
proof -
  obtain st' e where run: "dispatch_rpc demo_mcp_env (demo_rq ''tools/call'') (mm_state demo_membrane) = (Parked ''turn-0001'', st', [e])"
    using demo_call_parks by blast
  have st: "ms_cache (mm_state demo_membrane) = []" "ms_endpoint (mm_state demo_membrane) = Some demo_config"
    by (simp_all add: demo_membrane_def membrane_init_def rebound_def)
  have "\<not> is_preapproved demo_config a n" for a n by (simp add: is_preapproved_def demo_config_def)
  with mcp_call_authorised [OF run, of e] show ?thesis
    using run by (intro exI [of _ st'] exI [of _ e]) (auto simp: st demo_rq_def)
qed

theorem tools_list_matches_calls_witness:
  "\<exists>names st'. dispatch_rpc demo_mcp_env (demo_rq ''tools/list'') (mm_state demo_membrane) = (ToolsListed names, st', [])
     \<and> (''search'' \<in> set names \<longleftrightarrow> (\<exists>scheme. guard_of (mm_state demo_membrane) ''search'' = Some scheme
          \<and> (case fst (authorize_call demo_mcp_env ''search'' scheme (Some ''Bearer tok'') False [] Map.empty) of
               Inr _ \<Rightarrow> True | Inl e \<Rightarrow> e = AuthAllotment)))"
proof -
  obtain names st' where run: "dispatch_rpc demo_mcp_env (demo_rq ''tools/list'') (mm_state demo_membrane) = (ToolsListed names, st', [])"
    using demo_lists by blast
  have "routing_wf (ms_routes (mm_state demo_membrane))"
    using membrane_reach_inv [OF demo_membrane_reach] by (simp add: membrane_inv_def)
  moreover have st: "ms_cache (mm_state demo_membrane) = []" "ms_endpoint (mm_state demo_membrane) = Some demo_config"
    by (simp_all add: demo_membrane_def membrane_init_def rebound_def)
  moreover have "distinct (map ts_name (tools demo_config))" by (simp add: demo_config_def)
  ultimately show ?thesis
    using tools_list_matches_calls [OF run, of "''search''" Map.empty] run by (auto simp: demo_rq_def)
qed

theorem allotment_bound_witness:
  "accepted_calls Map.empty ''t'' ''k'' \<lparr>max_per_window = 1, window_secs = 10\<rparr> [5, 7, 9] \<le> 1"
  using allotment_bound [of "[5, 7, 9]" 5 "\<lparr>max_per_window = 1, window_secs = 10\<rparr>" Map.empty "''t''" "''k''"]
  by (simp add: dur_secs_def)

theorem listener_follows_perimeter_witness:
  "mm_bound (fst (snd (handle_push (\<lambda>_. True) (UpdatePerimeter (Some Lan)) demo_membrane))) \<in> {None, Some loopback_addr}"
proof -
  have "ms_endpoint (mm_state demo_membrane) = Some demo_config" "Lan < exposure demo_config"
    by (simp_all add: demo_membrane_def membrane_init_def rebound_def demo_config_def tier_order)
  with listener_follows_perimeter [OF demo_membrane_reach, where binds = "\<lambda>_. True" and tier = Lan] show ?thesis by auto
qed

theorem parked_call_answered_once_witness:
  "fst (deliver (TextReply ''t'' []) (stream_tokens ''t'' [''a'', ''b''] ((mm_state demo_membrane)\<lparr>ms_pending := [(''t'', ())]\<rparr>)))
     = Some (''t'', OutcomeOk ''ab'')"
proof -
  let ?st = "(mm_state demo_membrane)\<lparr>ms_pending := [(''t'', ())]\<rparr>"
  obtain oc st' where run: "deliver (TextReply ''t'' []) (stream_tokens ''t'' [''a'', ''b''] ?st) = (oc, st')" by fastforce
  have "tbl_get (ms_pending ?st) ''t'' = Some ()" "tbl_get (ms_buffers ?st) ''t'' = None"
    by (simp_all add: demo_membrane_def membrane_init_def rebound_def tbl_get_def)
  from parked_call_answered_once [OF this run, of "[]"] run show ?thesis by simp
qed

theorem dot_path_roundtrip_witness:
  "get_dot_path (JObj (set_dot_path [] ''payload.q'' (JStr ''x''))) ''payload.q'' = Some (JStr ''x'')"
  using dot_path_roundtrip [of "[]" "''payload.q''" "JStr ''x''" "[]"] by (simp add: tbl_get_def)

end
