(* ===== verification/McpHotel.thy ===== *)
theory McpHotel
  imports McpMembrane
begin

section \<open>MCP endpoints at the hotel\<close>

text \<open>
  Models the MCP requests of \<^verbatim>\<open>crates/aiua/src/service/ipc.rs\<close>: provisioning, revoking and inspecting an
  endpoint, minting, rotating and revoking token grants, and the legacy route updates. Their state is the
  configuration rows of the context graph, the vault, the guest rows and the pushes, each with the role it is
  addressed to. A revoked row is stored as the text \<open>null\<close>, here \<open>None\<close>. Whether each read and write of
  the store succeeds is part of the call, as are the clock, the fresh names and the random token.
\<close>

subsection \<open>State and calls\<close>

record endpoint_intent =
  in_owner :: string
  in_exposure :: ExposureTier
  in_port :: nat
  in_tool_names :: "string list"
  in_provisioned_at :: nat

record mcp_guest =
  mg_port :: nat
  mg_active :: bool

record mcp_hotel =
  mh_endpoints :: "(string \<times> McpEndpointConfig option) list"
  mh_preapprovals :: "(string \<times> McpPreapprovalRule list option) list"
  mh_intents :: "(string \<times> endpoint_intent option) list"
  mh_routes :: "(string \<times> McpRouteRecord list) list"
  mh_guests :: "(string \<times> mcp_guest) list"
  mh_vault :: vault
  mh_perimeter :: "PerimeterSnapshot option"
  mh_pushes :: "(string \<times> membrane_push) list"

record mcp_call =
  mx_identity :: "GuestIdentity option"
  mx_now :: nat
  mx_config_read :: bool
  mx_perimeter_read :: bool
  mx_config_write :: bool
  mx_rules_write :: bool
  mx_intent_write :: bool
  mx_guest_write :: bool
  mx_hotel_known :: bool
  mx_activated :: bool
  mx_cipher :: vault_cipher
  mx_hash :: "string \<Rightarrow> string"
  mx_fresh :: string
  mx_raw_token :: string

datatype McpResponse =
    McpError string string
  | McpEndpointProvisioned string nat bool
  | McpStatus "McpEndpointConfig option" ExposureTier bool
  | McpTokenGranted string string string bool
  | McpGrantRevoked nat
  | McpRoutesAccepted string nat

definition mcp_owner_identity_ok :: "GuestIdentity option \<Rightarrow> string \<Rightarrow> bool" where
  "mcp_owner_identity_ok ident owner =
     (case ident of
        None \<Rightarrow> True
      | Some i \<Rightarrow>
          gi_role i \<in> {''operator'', ''admin'', ''desktop-membrane''}
          \<or> gi_guest_id i = owner
          \<or> (case strip_prefix owner (gi_guest_id i) of Some rest \<Rightarrow> starts_with '':'' rest | None \<Rightarrow> False))"

definition stored_config :: "mcp_call \<Rightarrow> mcp_hotel \<Rightarrow> string \<Rightarrow> McpEndpointConfig option" where
  "stored_config x h e = (if mx_config_read x then Option.bind (tbl_get (mh_endpoints h) e) (\<lambda>c. c) else None)"

definition stored_ceiling :: "mcp_call \<Rightarrow> mcp_hotel \<Rightarrow> ExposureTier \<Rightarrow> ExposureTier" where
  "stored_ceiling x h fallback =
     (case mh_perimeter h of Some s \<Rightarrow> if mx_perimeter_read x then ceiling s else fallback | None \<Rightarrow> fallback)"

definition endpoint_guest :: "string \<Rightarrow> string" where
  "endpoint_guest e = ''mcp-membrane-'' @ e"

text \<open>A push is delivered to the guests subscribed to the role it is addressed to (\<open>deliver_inbound_task\<close> with a role and no
  guest). Pushes about an endpoint are addressed to the name of its guest; a membrane guest subscribes to
  \<open>MEMBRANE_ROLE\<close> only.\<close>

definition MEMBRANE_ROLE :: string where "MEMBRANE_ROLE = ''mcp-membrane''"

definition delivered_to :: "string \<Rightarrow> mcp_hotel \<Rightarrow> membrane_push list" where
  "delivered_to role h = map snd (filter (\<lambda>rp. fst rp = role) (mh_pushes h))"

definition push_to :: "string \<Rightarrow> membrane_push list \<Rightarrow> mcp_hotel \<Rightarrow> mcp_hotel" where
  "push_to role ps h = h\<lparr>mh_pushes := mh_pushes h @ map (Pair role) ps\<rparr>"

subsection \<open>Endpoints\<close>

definition open_tools :: "McpEndpointConfig \<Rightarrow> McpToolSpec list" where
  "open_tools cfg = filter (\<lambda>t. effective_auth cfg t = NoAuth) (tools cfg)"

definition materialize_endpoint :: "mcp_call \<Rightarrow> McpEndpointConfig \<Rightarrow> mcp_hotel \<Rightarrow> bool \<times> mcp_hotel" where
  "materialize_endpoint x cfg h =
     (if mx_hotel_known x \<and> mx_guest_write x
      then (mx_activated x,
            h\<lparr>mh_guests := tbl_put (endpoint_guest (endpoint_id cfg)) \<lparr>mg_port = ec_port cfg, mg_active = True\<rparr> (mh_guests h)\<rparr>)
      else (False, h))"

definition provision_mcp_endpoint :: "mcp_call \<Rightarrow> McpEndpointConfig \<Rightarrow> mcp_hotel \<Rightarrow> McpResponse \<times> mcp_hotel" where
  "provision_mcp_endpoint x cfg h =
     (let e = endpoint_id cfg in
      if \<not> mcp_owner_identity_ok (mx_identity x) (owner_agent_id cfg) then (McpError ''mcp_endpoint'' ''FORBIDDEN'', h)
      else if (case stored_config x h e of Some old \<Rightarrow> owner_agent_id old \<noteq> owner_agent_id cfg | None \<Rightarrow> False)
      then (McpError ''mcp_endpoint'' ''FORBIDDEN'', h)
      else if exposure cfg > Local \<and> \<not> allow_unauthenticated cfg \<and> open_tools cfg \<noteq> []
      then (McpError ''mcp_endpoint'' ''UNAUTHENTICATED_EXPOSURE'', h)
      else if exposure cfg > stored_ceiling x h Internet
      then (McpError ''mcp_endpoint'' ''EXPOSURE_EXCEEDS_PERIMETER'', h)
      else if \<not> mx_config_write x then (McpError ''mcp_endpoint'' ''CONFIG_STORE_ERROR'', h)
      else
        let h1 = h\<lparr>mh_endpoints := tbl_put e (Some cfg) (mh_endpoints h)\<rparr>;
            intent = \<lparr>in_owner = owner_agent_id cfg, in_exposure = exposure cfg, in_port = ec_port cfg,
                      in_tool_names = map ts_name (tools cfg), in_provisioned_at = mx_now x\<rparr>;
            h2 = (if mx_intent_write x then h1\<lparr>mh_intents := tbl_put e (Some intent) (mh_intents h1)\<rparr> else h1)
        in if preapproval_rules cfg \<noteq> [] \<and> \<not> mx_rules_write x then (McpError ''mcp_endpoint'' ''CONFIG_STORE_ERROR'', h2)
           else
             let h3 = (if preapproval_rules cfg \<noteq> []
                       then h2\<lparr>mh_preapprovals := tbl_put e (Some (preapproval_rules cfg)) (mh_preapprovals h2)\<rparr> else h2);
                 h4 = push_to (endpoint_guest e) [UpdateMcpConfig (Some cfg), UpdatePerimeter (Some (stored_ceiling x h Local))] h3
             in case materialize_endpoint x cfg h4 of
                  (materialized, h5) \<Rightarrow> (McpEndpointProvisioned e (ec_port cfg) materialized, h5))"

definition revoke_mcp_endpoint :: "mcp_call \<Rightarrow> string \<Rightarrow> string \<Rightarrow> mcp_hotel \<Rightarrow> McpResponse \<times> mcp_hotel" where
  "revoke_mcp_endpoint x e owner h =
     (if \<not> mcp_owner_identity_ok (mx_identity x) owner then (McpError ''mcp_endpoint'' ''FORBIDDEN'', h)
      else if mx_config_read x \<and> tbl_get (mh_endpoints h) e \<noteq> None
              \<and> map_option owner_agent_id (stored_config x h e) \<noteq> Some owner
      then (McpError ''mcp_endpoint'' ''FORBIDDEN'', h)
      else
        let port = (case stored_config x h e of Some c \<Rightarrow> ec_port c | None \<Rightarrow> 0);
            h1 = (if mx_config_write x then h\<lparr>mh_endpoints := tbl_put e None (mh_endpoints h)\<rparr> else h);
            h2 = (if mx_rules_write x then h1\<lparr>mh_preapprovals := tbl_put e None (mh_preapprovals h1)\<rparr> else h1);
            h3 = (if mx_intent_write x then h2\<lparr>mh_intents := tbl_put e None (mh_intents h2)\<rparr> else h2);
            h4 = push_to (endpoint_guest e) [RevokeMcpConfig] h3;
            h5 = (if mx_hotel_known x \<and> mx_guest_write x
                  then (case tbl_get (mh_guests h4) (endpoint_guest e) of
                          Some g \<Rightarrow> h4\<lparr>mh_guests := tbl_put (endpoint_guest e) (g\<lparr>mg_active := False\<rparr>) (mh_guests h4)\<rparr>
                        | None \<Rightarrow> h4)
                  else h4)
        in (McpEndpointProvisioned e port False, h5))"

definition get_mcp_endpoint_status :: "mcp_call \<Rightarrow> string \<Rightarrow> mcp_hotel \<Rightarrow> McpResponse" where
  "get_mcp_endpoint_status x e h =
     McpStatus (stored_config x h e) (stored_ceiling x h Local) (mx_config_read x \<and> tbl_get (mh_endpoints h) e \<noteq> None)"

subsection \<open>Token grants\<close>

fun bearer_grants :: "McpAuthScheme option \<Rightarrow> McpTokenGrant list" where
  "bearer_grants (Some (BearerToken gs)) = gs"
| "bearer_grants _ = []"

text \<open>Storing an edited configuration and pushing it to the endpoint's membrane.\<close>

definition save_config :: "mcp_call \<Rightarrow> string \<Rightarrow> McpEndpointConfig \<Rightarrow> McpResponse \<Rightarrow> mcp_hotel \<Rightarrow> McpResponse \<times> mcp_hotel" where
  "save_config x e cfg ok h =
     (let cfg1 = cfg\<lparr>ec_updated_at := mx_now x\<rparr> in
      if \<not> mx_config_write x then (McpError ''mcp_token_grant'' ''CONFIG_STORE_ERROR'', h)
      else (ok, push_to (endpoint_guest e) [UpdateMcpConfig (Some cfg1)]
                  (h\<lparr>mh_endpoints := tbl_put e (Some cfg1) (mh_endpoints h)\<rparr>)))"

definition with_owned_config ::
  "mcp_call \<Rightarrow> string \<Rightarrow> string \<Rightarrow> (McpEndpointConfig \<Rightarrow> McpResponse \<times> mcp_hotel) \<Rightarrow> mcp_hotel \<Rightarrow> McpResponse \<times> mcp_hotel" where
  "with_owned_config x e owner act h =
     (if \<not> mcp_owner_identity_ok (mx_identity x) owner then (McpError ''mcp_token_grant'' ''FORBIDDEN'', h)
      else (case stored_config x h e of
              None \<Rightarrow> (McpError ''mcp_token_grant'' ''ENDPOINT_NOT_FOUND'', h)
            | Some cfg \<Rightarrow>
                if owner_agent_id cfg \<noteq> owner then (McpError ''mcp_token_grant'' ''FORBIDDEN'', h) else act cfg))"

text \<open>The configuration with the grants of one slot replaced: a named tool's, or the default's.\<close>

definition slot_of :: "McpEndpointConfig \<Rightarrow> string option \<Rightarrow> McpAuthScheme option option" where
  "slot_of cfg tool =
     (case tool of
        None \<Rightarrow> Some (default_auth cfg)
      | Some name \<Rightarrow> map_option ts_auth (find (\<lambda>t. ts_name t = name) (tools cfg)))"

fun set_tool_auth :: "string \<Rightarrow> McpAuthScheme \<Rightarrow> McpToolSpec list \<Rightarrow> McpToolSpec list" where
  "set_tool_auth name a [] = []"
| "set_tool_auth name a (t # ts) = (if ts_name t = name then t\<lparr>ts_auth := Some a\<rparr> # ts else t # set_tool_auth name a ts)"

definition set_slot :: "McpEndpointConfig \<Rightarrow> string option \<Rightarrow> McpAuthScheme \<Rightarrow> McpEndpointConfig" where
  "set_slot cfg tool a =
     (case tool of None \<Rightarrow> cfg\<lparr>default_auth := Some a\<rparr> | Some name \<Rightarrow> cfg\<lparr>tools := set_tool_auth name a (tools cfg)\<rparr>)"

record grant_request =
  gr_token_id :: string
  gr_tool :: "string option"
  gr_scopes :: "string list"
  gr_expires_at :: "nat option"
  gr_allotment :: "McpCallAllotment option"
  gr_rotate :: bool

definition provision_mcp_token_grant :: "mcp_call \<Rightarrow> string \<Rightarrow> string \<Rightarrow> grant_request \<Rightarrow> mcp_hotel \<Rightarrow> McpResponse \<times> mcp_hotel" where
  "provision_mcp_token_grant x e owner gr h =
     with_owned_config x e owner (\<lambda>cfg.
       case slot_of cfg (gr_tool gr) of
         None \<Rightarrow> (McpError ''mcp_token_grant'' ''TOOL_NOT_FOUND'', h)
       | Some slot \<Rightarrow>
           let gs = bearer_grants slot; hash = mx_hash x (mx_raw_token x) in
           if gr_rotate gr
           then (case find (\<lambda>g. token_id g = gr_token_id gr) gs of
                   None \<Rightarrow> (McpError ''mcp_token_grant'' ''GRANT_NOT_FOUND'', h)
                 | Some g \<Rightarrow>
                     (case rotate_secret (mx_cipher x) (vault_ref g) hash (mx_now x) (mh_vault h) of
                        (Inl _, v) \<Rightarrow> (McpError ''mcp_token_grant'' ''VAULT_ERROR'', h\<lparr>mh_vault := v\<rparr>)
                      | (Inr _, v) \<Rightarrow>
                          save_config x e (set_slot cfg (gr_tool gr) (BearerToken gs))
                            (McpTokenGranted (gr_token_id gr) (vault_ref g) (mx_raw_token x) True) (h\<lparr>mh_vault := v\<rparr>)))
           else if list_ex (\<lambda>g. token_id g = gr_token_id gr) gs then (McpError ''mcp_token_grant'' ''DUPLICATE_TOKEN_ID'', h)
           else (case store_secret (mx_cipher x)
                        \<lparr>si_kind = ''mcp_endpoint_token'', si_scope = ''hotel'', si_allowed_roles = [''mcp-membrane''],
                         si_allowed_guests = [], si_plaintext = hash\<rparr> (mx_fresh x) (mx_now x) (mh_vault h) of
                   (Inl _, v) \<Rightarrow> (McpError ''mcp_token_grant'' ''VAULT_ERROR'', h\<lparr>mh_vault := v\<rparr>)
                 | (Inr r, v) \<Rightarrow>
                     save_config x e
                       (set_slot cfg (gr_tool gr) (BearerToken (gs @ [\<lparr>token_id = gr_token_id gr, vault_ref = r,
                          grant_scopes = gr_scopes gr, grant_expires_at = gr_expires_at gr, grant_allotment = gr_allotment gr\<rparr>])))
                       (McpTokenGranted (gr_token_id gr) r (mx_raw_token x) False) (h\<lparr>mh_vault := v\<rparr>))) h"

fun drop_grant :: "string \<Rightarrow> McpAuthScheme option \<Rightarrow> McpAuthScheme option" where
  "drop_grant tok (Some (BearerToken gs)) = Some (BearerToken (filter (\<lambda>g. token_id g \<noteq> tok) gs))"
| "drop_grant tok slot = slot"

definition count_grants :: "string \<Rightarrow> McpAuthScheme option \<Rightarrow> nat" where
  "count_grants tok slot = length (filter (\<lambda>g. token_id g = tok) (bearer_grants slot))"

definition revoke_mcp_token_grant :: "mcp_call \<Rightarrow> string \<Rightarrow> string \<Rightarrow> string \<Rightarrow> mcp_hotel \<Rightarrow> McpResponse \<times> mcp_hotel" where
  "revoke_mcp_token_grant x e owner tok h =
     with_owned_config x e owner (\<lambda>cfg.
       let removed = count_grants tok (default_auth cfg) + sum_list (map (\<lambda>t. count_grants tok (ts_auth t)) (tools cfg)) in
       if removed = 0 then (McpError ''mcp_token_grant'' ''GRANT_NOT_FOUND'', h)
       else save_config x e
              (cfg\<lparr>default_auth := drop_grant tok (default_auth cfg),
                   tools := map (\<lambda>t. t\<lparr>ts_auth := drop_grant tok (ts_auth t)\<rparr>) (tools cfg)\<rparr>)
              (McpGrantRevoked removed) h) h"

subsection \<open>Routes\<close>

definition update_mcp_routes :: "mcp_call \<Rightarrow> string \<Rightarrow> McpRouteRecord list \<Rightarrow> mcp_hotel \<Rightarrow> McpResponse \<times> mcp_hotel" where
  "update_mcp_routes x agent recs h =
     (let stored = (if mx_config_read x then mh_routes h else []) in
      (McpRoutesAccepted agent (length recs),
       push_to MEMBRANE_ROLE [UpdateMcpRoutes agent recs]
         (if mx_config_write x then h\<lparr>mh_routes := tbl_put agent recs stored\<rparr> else h)))"

definition revoke_mcp_routes :: "mcp_call \<Rightarrow> string \<Rightarrow> mcp_hotel \<Rightarrow> McpResponse \<times> mcp_hotel" where
  "revoke_mcp_routes x agent h =
     (let stored = (if mx_config_read x then mh_routes h else []) in
      (McpRoutesAccepted agent 0,
       push_to MEMBRANE_ROLE [RevokeMcpRoutes agent]
         (if mx_config_write x then h\<lparr>mh_routes := tbl_del agent stored\<rparr> else h)))"

datatype mcp_request =
    ProvisionMcpEndpoint McpEndpointConfig
  | RevokeMcpEndpoint string string
  | GetMcpEndpointStatus string
  | ProvisionMcpTokenGrant string string grant_request
  | RevokeMcpTokenGrant string string string
  | UpdateRoutes string "McpRouteRecord list"
  | RevokeRoutes string

fun process_mcp_request :: "mcp_call \<Rightarrow> mcp_request \<Rightarrow> mcp_hotel \<Rightarrow> McpResponse \<times> mcp_hotel" where
  "process_mcp_request x (ProvisionMcpEndpoint cfg) h = provision_mcp_endpoint x cfg h"
| "process_mcp_request x (RevokeMcpEndpoint e owner) h = revoke_mcp_endpoint x e owner h"
| "process_mcp_request x (GetMcpEndpointStatus e) h = (get_mcp_endpoint_status x e h, h)"
| "process_mcp_request x (ProvisionMcpTokenGrant e owner gr) h = provision_mcp_token_grant x e owner gr h"
| "process_mcp_request x (RevokeMcpTokenGrant e owner tok) h = revoke_mcp_token_grant x e owner tok h"
| "process_mcp_request x (UpdateRoutes agent recs) h = update_mcp_routes x agent recs h"
| "process_mcp_request x (RevokeRoutes agent) h = revoke_mcp_routes x agent h"

subsection \<open>Lemmas\<close>

text \<open>A configuration that is reachable from beyond loopback asks every caller for a token, unless that was waived.\<close>

definition guarded :: "McpEndpointConfig \<Rightarrow> bool" where
  "guarded cfg \<longleftrightarrow> (Local < exposure cfg \<and> \<not> allow_unauthenticated cfg \<longrightarrow> (\<forall>t\<in>set (tools cfg). effective_auth cfg t \<noteq> NoAuth))"

definition current_config :: "mcp_hotel \<Rightarrow> string \<Rightarrow> McpEndpointConfig option" where
  "current_config h e = Option.bind (tbl_get (mh_endpoints h) e) (\<lambda>c. c)"

lemma stored_config_current: "stored_config x h e = Some cfg \<Longrightarrow> current_config h e = Some cfg"
  by (simp add: stored_config_def current_config_def split: if_splits)

lemma set_tool_auth_names [simp]: "map ts_name (set_tool_auth name a ts) = map ts_name ts"
  by (induction ts) auto

lemma set_tool_auth_in:
  "t \<in> set (set_tool_auth name a ts) \<Longrightarrow> t \<in> set ts \<or> (ts_auth t = Some a)"
  by (induction ts) (auto split: if_splits)

lemma effective_auth_default: "effective_auth (cfg\<lparr>ec_updated_at := n\<rparr>) t = effective_auth cfg t"
  "effective_auth (cfg\<lparr>tools := ts\<rparr>) t = effective_auth cfg t"
  by (simp_all add: effective_auth_def split: option.split)

lemma guarded_stamp [simp]: "guarded (cfg\<lparr>ec_updated_at := n\<rparr>) = guarded cfg"
  by (simp add: guarded_def effective_auth_default)

lemma guarded_set_slot: "guarded cfg \<Longrightarrow> guarded (set_slot cfg tool (BearerToken gs))"
proof (cases tool)
  case None
  assume "guarded cfg"
  then show ?thesis
    by (auto simp: None guarded_def set_slot_def effective_auth_def split: option.splits)
next
  case (Some name)
  assume g: "guarded cfg"
  have "effective_auth cfg t \<noteq> NoAuth" if "Local < exposure cfg" "\<not> allow_unauthenticated cfg"
    and "t \<in> set (set_tool_auth name (BearerToken gs) (tools cfg))" for t
    using set_tool_auth_in [OF that(3)] g that by (auto simp: guarded_def effective_auth_def)
  then show ?thesis by (simp add: Some guarded_def set_slot_def effective_auth_default)
qed

lemma drop_grant_NoAuth: "drop_grant tok slot = Some NoAuth \<longleftrightarrow> slot = Some NoAuth" "drop_grant tok slot = None \<longleftrightarrow> slot = None"
  by (cases "(tok, slot)" rule: drop_grant.cases; simp)+

lemma guarded_drop:
  "guarded cfg \<Longrightarrow> guarded (cfg\<lparr>default_auth := drop_grant tok (default_auth cfg),
     tools := map (\<lambda>t. t\<lparr>ts_auth := drop_grant tok (ts_auth t)\<rparr>) (tools cfg)\<rparr>)"
proof -
  have "effective_auth (cfg\<lparr>default_auth := drop_grant tok (default_auth cfg), tools := ts\<rparr>) (t\<lparr>ts_auth := drop_grant tok (ts_auth t)\<rparr>) = NoAuth
      \<longleftrightarrow> effective_auth cfg t = NoAuth" for t ts
    using drop_grant_NoAuth [of tok "ts_auth t"] drop_grant_NoAuth [of tok "default_auth cfg"]
    by (auto simp: effective_auth_def split: option.splits)
  then show "guarded cfg \<Longrightarrow> ?thesis" by (simp add: guarded_def)
qed

text \<open>The one way a request changes the row of an endpoint, with what it queues for its membrane.\<close>

inductive endpoint_move :: "mcp_call \<Rightarrow> string \<Rightarrow> mcp_hotel \<Rightarrow> mcp_hotel \<Rightarrow> bool" for x e where
  keep: "mh_endpoints h' = mh_endpoints h \<Longrightarrow> endpoint_move x e h h'"
| other: "e' \<noteq> e \<Longrightarrow> mh_endpoints h' = tbl_put e' row (mh_endpoints h) \<Longrightarrow> endpoint_move x e h h'"
| save: "mcp_owner_identity_ok (mx_identity x) (owner_agent_id cfg) \<Longrightarrow>
     (\<And>old. stored_config x h e = Some old \<Longrightarrow> owner_agent_id cfg = owner_agent_id old) \<Longrightarrow>
     guarded cfg \<or> (\<exists>old. current_config h e = Some old \<and> (guarded old \<longrightarrow> guarded cfg)) \<Longrightarrow>
     mh_endpoints h' = tbl_put e (Some cfg) (mh_endpoints h) \<Longrightarrow> endpoint_move x e h h'"
| drop: "mcp_owner_identity_ok (mx_identity x) owner \<Longrightarrow>
     (\<And>old. stored_config x h e = Some old \<Longrightarrow> owner = owner_agent_id old) \<Longrightarrow>
     mh_endpoints h' = tbl_put e None (mh_endpoints h) \<Longrightarrow> endpoint_move x e h h'"

lemma push_to_endpoints [simp]: "mh_endpoints (push_to g ps h) = mh_endpoints h"
  by (simp add: push_to_def)

lemma materialize_endpoints [simp]: "mh_endpoints (snd (materialize_endpoint x cfg h)) = mh_endpoints h"
  by (simp add: materialize_endpoint_def)

lemma save_config_cases:
  "save_config x e cfg ok h = (r, h') \<Longrightarrow>
     mh_endpoints h' = mh_endpoints h \<or> mh_endpoints h' = tbl_put e (Some (cfg\<lparr>ec_updated_at := mx_now x\<rparr>)) (mh_endpoints h)"
  by (auto simp: save_config_def Let_def split: if_splits)

lemma move_save:
  assumes "save_config x e' cfg ok h1 = (r, h')" "mh_endpoints h1 = mh_endpoints h"
    and "mcp_owner_identity_ok (mx_identity x) (owner_agent_id cfg)" "stored_config x h e' = Some old"
    and "owner_agent_id cfg = owner_agent_id old" "guarded old \<Longrightarrow> guarded cfg"
  shows "endpoint_move x e h h'"
proof (cases "e' = e")
  case True
  from save_config_cases [OF assms(1)] show ?thesis
  proof
    assume "mh_endpoints h' = tbl_put e' (Some (cfg\<lparr>ec_updated_at := mx_now x\<rparr>)) (mh_endpoints h1)"
    then show ?thesis
      using assms True by (intro endpoint_move.save [of x "cfg\<lparr>ec_updated_at := mx_now x\<rparr>"])
        (auto dest: stored_config_current)
  qed (simp add: assms(2) keep)
next
  case False
  then show ?thesis using save_config_cases [OF assms(1)] assms(2) by (auto intro: keep other)
qed

lemma provision_refused:
  assumes "\<not> mcp_owner_identity_ok (mx_identity x) (owner_agent_id cfg)
      \<or> (\<exists>old. stored_config x h (endpoint_id cfg) = Some old \<and> owner_agent_id old \<noteq> owner_agent_id cfg)
      \<or> (exposure cfg > Local \<and> \<not> allow_unauthenticated cfg \<and> open_tools cfg \<noteq> [])
      \<or> exposure cfg > stored_ceiling x h Internet \<or> \<not> mx_config_write x"
  shows "\<exists>code. provision_mcp_endpoint x cfg h = (McpError ''mcp_endpoint'' code, h)"
  using assms by (auto simp: provision_mcp_endpoint_def Let_def)

lemma provision_row:
  assumes "provision_mcp_endpoint x cfg h = (r, h')" "mcp_owner_identity_ok (mx_identity x) (owner_agent_id cfg)"
    and "\<not> (case stored_config x h (endpoint_id cfg) of Some old \<Rightarrow> owner_agent_id old \<noteq> owner_agent_id cfg | None \<Rightarrow> False)"
    and "\<not> (exposure cfg > Local \<and> \<not> allow_unauthenticated cfg \<and> open_tools cfg \<noteq> [])"
    and "\<not> exposure cfg > stored_ceiling x h Internet" "mx_config_write x"
  shows "mh_endpoints h' = tbl_put (endpoint_id cfg) (Some cfg) (mh_endpoints h)"
proof -
  have "snd (provision_mcp_endpoint x cfg h) = h'" using assms(1) by simp
  then show ?thesis
    unfolding provision_mcp_endpoint_def Let_def if_not_P [OF assms(3)] if_not_P [OF assms(4)] if_not_P [OF assms(5)]
    by (auto simp: assms(2,6) case_prod_beta materialize_endpoint_def split: if_splits)
qed

lemma provision_moves:
  assumes run: "provision_mcp_endpoint x cfg h = (r, h')"
  shows "endpoint_move x e h h'"
proof (cases "h' = h")
  case False
  have id: "mcp_owner_identity_ok (mx_identity x) (owner_agent_id cfg)"
    and own: "\<And>old. stored_config x h (endpoint_id cfg) = Some old \<Longrightarrow> owner_agent_id old = owner_agent_id cfg"
    and g: "\<not> (exposure cfg > Local \<and> \<not> allow_unauthenticated cfg \<and> open_tools cfg \<noteq> [])"
    and c: "\<not> exposure cfg > stored_ceiling x h Internet" "mx_config_write x"
    using provision_refused [of x cfg h] run False by fastforce+
  have row: "mh_endpoints h' = tbl_put (endpoint_id cfg) (Some cfg) (mh_endpoints h)"
    by (rule provision_row [OF run id _ g c]) (auto dest: own split: option.splits)
  have "guarded cfg" using g by (auto simp: guarded_def open_tools_def filter_empty_conv)
  show ?thesis
  proof (cases "endpoint_id cfg = e")
    case True
    show ?thesis by (rule save [OF id]) (use own row \<open>guarded cfg\<close> True in auto)
  next
    case False
    then show ?thesis using row by (rule other)
  qed
qed (simp add: keep)

lemma revoke_moves: "revoke_mcp_endpoint x e' owner h = (r, h') \<Longrightarrow> endpoint_move x e h h'"
proof -
  assume run: "revoke_mcp_endpoint x e' owner h = (r, h')"
  show ?thesis
  proof (cases "mh_endpoints h' = mh_endpoints h")
    case False
    with run have id: "mcp_owner_identity_ok (mx_identity x) owner"
      and own: "\<not> (mx_config_read x \<and> tbl_get (mh_endpoints h) e' \<noteq> None \<and> map_option owner_agent_id (stored_config x h e') \<noteq> Some owner)"
      by (auto simp: revoke_mcp_endpoint_def Let_def split: if_splits)
    have row: "mh_endpoints h' = tbl_put e' None (mh_endpoints h)"
      using run False by (auto simp: revoke_mcp_endpoint_def Let_def split: if_splits option.splits)
    have "stored_config x h e' = Some old \<Longrightarrow> owner = owner_agent_id old" for old
      using own by (auto simp: stored_config_def split: if_splits)
    with id row show ?thesis by (cases "e' = e") (auto intro: other drop)
  qed (simp add: keep)
qed

lemma owned_moves:
  assumes "with_owned_config x e' owner act h = (r, h')"
    and "\<And>cfg. stored_config x h e' = Some cfg \<Longrightarrow> owner_agent_id cfg = owner \<Longrightarrow> mcp_owner_identity_ok (mx_identity x) owner \<Longrightarrow>
           act cfg = (r, h') \<Longrightarrow> endpoint_move x e h h'"
  shows "endpoint_move x e h h'"
  using assms by (auto simp: with_owned_config_def intro: keep split: if_splits option.splits)

lemma set_slot_owner [simp]: "owner_agent_id (set_slot cfg tool a) = owner_agent_id cfg"
  by (simp add: set_slot_def split: option.split)

lemma grant_moves: "provision_mcp_token_grant x e' owner gr h = (r, h') \<Longrightarrow> endpoint_move x e h h'"
  unfolding provision_mcp_token_grant_def
  by (erule owned_moves)
    (auto simp: Let_def intro: keep guarded_set_slot elim!: move_save split: option.splits if_splits prod.splits sum.splits)

lemma revoke_grant_moves: "revoke_mcp_token_grant x e' owner tok h = (r, h') \<Longrightarrow> endpoint_move x e h h'"
  unfolding revoke_mcp_token_grant_def
  by (erule owned_moves) (auto simp: Let_def intro: keep guarded_drop elim!: move_save split: if_splits)

lemma process_moves: "process_mcp_request x q h = (r, h') \<Longrightarrow> endpoint_move x e h h'"
  by (cases q)
    (auto intro: provision_moves revoke_moves grant_moves revoke_grant_moves keep
      simp: update_mcp_routes_def revoke_mcp_routes_def Let_def)

subsection \<open>What the pushes say\<close>

fun config_after :: "McpEndpointConfig option \<Rightarrow> membrane_push list \<Rightarrow> McpEndpointConfig option" where
  "config_after c [] = c"
| "config_after c (UpdateMcpConfig (Some c') # ps) = config_after (Some c') ps"
| "config_after c (RevokeMcpConfig # ps) = config_after None ps"
| "config_after c (p # ps) = config_after c ps"

definition pushes_for :: "string \<Rightarrow> (string \<times> membrane_push) list \<Rightarrow> membrane_push list" where
  "pushes_for e ps = map snd (filter (\<lambda>gp. fst gp = endpoint_guest e) ps)"

lemma pushes_for_append [simp]: "pushes_for e (ps @ qs) = pushes_for e ps @ pushes_for e qs"
  by (simp add: pushes_for_def)

lemma pushes_for_pair [simp]: "pushes_for e (map (Pair g) ps) = (if g = endpoint_guest e then ps else [])"
  by (simp add: pushes_for_def o_def)

lemma pushes_for_Nil [simp]: "pushes_for e [] = []"
  by (simp add: pushes_for_def)

lemma endpoint_guest_inject [simp]: "endpoint_guest e = endpoint_guest e' \<longleftrightarrow> e = e'"
  by (simp add: endpoint_guest_def)

lemma role_not_endpoint [simp]: "MEMBRANE_ROLE \<noteq> endpoint_guest e" "endpoint_guest e \<noteq> MEMBRANE_ROLE"
  by (simp_all add: endpoint_guest_def MEMBRANE_ROLE_def)

definition all_ok :: "mcp_call \<Rightarrow> bool" where
  "all_ok x \<longleftrightarrow> mx_config_read x \<and> mx_config_write x \<and> mx_rules_write x"

text \<open>The pushes addressed to an endpoint say what a request did to the endpoint's row.\<close>

definition told :: "string \<Rightarrow> mcp_hotel \<Rightarrow> mcp_hotel \<Rightarrow> bool" where
  "told e h h' \<longleftrightarrow> (\<exists>new. mh_pushes h' = mh_pushes h @ new \<and> current_config h' e = config_after (current_config h e) (pushes_for e new))"

lemma told_same: "mh_pushes h' = mh_pushes h \<Longrightarrow> mh_endpoints h' = mh_endpoints h \<Longrightarrow> told e h h'"
  unfolding told_def by (intro exI [of _ "[]"]) (simp add: current_config_def)

lemma told_put:
  assumes "mh_endpoints h' = tbl_put e' row (mh_endpoints h)" "mh_pushes h' = mh_pushes h @ map (Pair (endpoint_guest e')) ps"
    and "\<And>c. config_after c ps = row"
  shows "told e h h'"
  unfolding told_def
  by (intro exI [of _ "map (Pair (endpoint_guest e')) ps"]) (simp add: assms current_config_def tbl_get_put)

lemma told_save:
  assumes "save_config x e' cfg ok h1 = (r, h')" "mh_endpoints h1 = mh_endpoints h" "mh_pushes h1 = mh_pushes h"
  shows "told e h h'"
proof (cases "mx_config_write x")
  case True
  show ?thesis
    by (rule told_put [of h' e' "Some (cfg\<lparr>ec_updated_at := mx_now x\<rparr>)" h "[UpdateMcpConfig (Some (cfg\<lparr>ec_updated_at := mx_now x\<rparr>))]"])
      (use assms True in \<open>auto simp: save_config_def push_to_def Let_def\<close>)
next
  case False
  then show ?thesis using assms by (auto simp: save_config_def intro: told_same)
qed

lemma told_provision: "all_ok x \<Longrightarrow> provision_mcp_endpoint x cfg h = (r, h') \<Longrightarrow> told e h h'"
proof -
  assume ok: "all_ok x" and run: "provision_mcp_endpoint x cfg h = (r, h')"
  show ?thesis
  proof (cases "\<exists>code. provision_mcp_endpoint x cfg h = (McpError ''mcp_endpoint'' code, h)")
    case True
    with run show ?thesis by (auto intro: told_same)
  next
    case False
    have id: "mcp_owner_identity_ok (mx_identity x) (owner_agent_id cfg)"
      and own: "\<not> (case stored_config x h (endpoint_id cfg) of Some old \<Rightarrow> owner_agent_id old \<noteq> owner_agent_id cfg | None \<Rightarrow> False)"
      and g: "\<not> (exposure cfg > Local \<and> \<not> allow_unauthenticated cfg \<and> open_tools cfg \<noteq> [])"
      and c: "\<not> exposure cfg > stored_ceiling x h Internet" "mx_config_write x"
      using provision_refused [of x cfg h] False by (fastforce split: option.splits)+
    have "snd (provision_mcp_endpoint x cfg h) = h'" using run by simp
    then have "mh_pushes h' = mh_pushes h @ map (Pair (endpoint_guest (endpoint_id cfg)))
        [UpdateMcpConfig (Some cfg), UpdatePerimeter (Some (stored_ceiling x h Local))]"
      unfolding provision_mcp_endpoint_def Let_def if_not_P [OF own] if_not_P [OF g] if_not_P [OF c(1)]
      using ok by (auto simp: id c(2) all_ok_def case_prod_beta materialize_endpoint_def push_to_def split: if_splits)
    then show ?thesis by (rule told_put [OF provision_row [OF run id own g c]]) simp
  qed
qed

lemma told_revoke: "all_ok x \<Longrightarrow> revoke_mcp_endpoint x e' owner h = (r, h') \<Longrightarrow> told e h h'"
proof -
  assume ok: "all_ok x" and run: "revoke_mcp_endpoint x e' owner h = (r, h')"
  show ?thesis
  proof (cases "h' = h")
    case False
    then have "mh_endpoints h' = tbl_put e' None (mh_endpoints h)" "mh_pushes h' = mh_pushes h @ map (Pair (endpoint_guest e')) [RevokeMcpConfig]"
      using run ok by (auto simp: revoke_mcp_endpoint_def all_ok_def push_to_def Let_def split: if_splits option.splits)
    then show ?thesis by (rule told_put) simp
  qed (simp add: told_same)
qed

lemma told_owned:
  assumes "with_owned_config x e' owner act h = (r, h')" "\<And>cfg. act cfg = (r, h') \<Longrightarrow> told e h h'"
  shows "told e h h'"
  using assms by (auto simp: with_owned_config_def intro: told_same split: if_splits option.splits)

lemma told_grant: "provision_mcp_token_grant x e' owner gr h = (r, h') \<Longrightarrow> told e h h'"
  unfolding provision_mcp_token_grant_def
  by (erule told_owned) (auto simp: Let_def intro: told_same elim!: told_save split: option.splits if_splits prod.splits sum.splits)

lemma told_revoke_grant: "revoke_mcp_token_grant x e' owner tok h = (r, h') \<Longrightarrow> told e h h'"
  unfolding revoke_mcp_token_grant_def
  by (erule told_owned) (auto simp: Let_def intro: told_same elim!: told_save split: if_splits)

lemma told_routes:
  "mh_pushes h' = mh_pushes h @ [(MEMBRANE_ROLE, p)] \<Longrightarrow> mh_endpoints h' = mh_endpoints h \<Longrightarrow> told e h h'"
  unfolding told_def by (intro exI [of _ "[(MEMBRANE_ROLE, p)]"]) (simp add: current_config_def pushes_for_def)

lemma process_told: "all_ok x \<Longrightarrow> process_mcp_request x q h = (r, h') \<Longrightarrow> told e h h'"
  by (cases q)
    (auto intro: told_provision told_revoke told_grant told_revoke_grant told_same told_routes
      simp: update_mcp_routes_def revoke_mcp_routes_def push_to_def Let_def)

subsection \<open>What reaches a membrane\<close>

text \<open>Of a request's pushes only route updates are addressed to the role membranes subscribe to.\<close>

definition about_routes :: "membrane_push \<Rightarrow> bool" where
  "about_routes p \<longleftrightarrow> (case p of UpdateMcpRoutes a rs \<Rightarrow> True | RevokeMcpRoutes a \<Rightarrow> True | _ \<Rightarrow> False)"

definition routes_only :: "mcp_hotel \<Rightarrow> mcp_hotel \<Rightarrow> bool" where
  "routes_only h h' \<longleftrightarrow> (\<forall>rp\<in>set (mh_pushes h'). rp \<in> set (mh_pushes h) \<or> fst rp \<noteq> MEMBRANE_ROLE \<or> about_routes (snd rp))"

lemma routes_only_same: "mh_pushes h' = mh_pushes h \<Longrightarrow> routes_only h h'"
  by (simp add: routes_only_def)

lemma routes_only_save: "save_config x e cfg ok h1 = (r, h') \<Longrightarrow> mh_pushes h1 = mh_pushes h \<Longrightarrow> routes_only h h'"
  by (auto simp: save_config_def push_to_def routes_only_def Let_def split: if_splits)

lemma routes_only_owned:
  assumes "with_owned_config x e owner act h = (r, h')" "\<And>cfg. act cfg = (r, h') \<Longrightarrow> routes_only h h'"
  shows "routes_only h h'"
  using assms by (auto simp: with_owned_config_def intro: routes_only_same split: if_splits option.splits)

lemma routes_only_grant: "provision_mcp_token_grant x e owner gr h = (r, h') \<Longrightarrow> routes_only h h'"
  unfolding provision_mcp_token_grant_def
  by (erule routes_only_owned)
    (auto simp: Let_def intro: routes_only_same elim!: routes_only_save split: option.splits if_splits prod.splits sum.splits)

lemma routes_only_revoke_grant: "revoke_mcp_token_grant x e owner tok h = (r, h') \<Longrightarrow> routes_only h h'"
  unfolding revoke_mcp_token_grant_def
  by (erule routes_only_owned) (auto simp: Let_def intro: routes_only_same elim!: routes_only_save split: if_splits)

lemma routes_only_provision: "provision_mcp_endpoint x cfg h = (r, h') \<Longrightarrow> routes_only h h'"
  by (auto simp: provision_mcp_endpoint_def materialize_endpoint_def routes_only_def push_to_def Let_def
      split: if_splits prod.splits)

lemma routes_only_revoke: "revoke_mcp_endpoint x e owner h = (r, h') \<Longrightarrow> routes_only h h'"
  by (auto simp: revoke_mcp_endpoint_def routes_only_def push_to_def Let_def split: if_splits option.splits)

lemma routes_only_routes:
  "update_mcp_routes x agent recs h = (r, h') \<Longrightarrow> routes_only h h'" "revoke_mcp_routes x agent h = (r, h') \<Longrightarrow> routes_only h h'"
  by (cases "mx_config_write x"; auto simp: update_mcp_routes_def revoke_mcp_routes_def routes_only_def push_to_def about_routes_def Let_def)+

lemma process_routes_only: "process_mcp_request x q h = (r, h') \<Longrightarrow> routes_only h h'"
  by (cases q)
    (auto intro: routes_only_provision routes_only_revoke routes_only_grant routes_only_revoke_grant routes_only_routes routes_only_same)

subsection \<open>Histories\<close>

definition hotel_start :: mcp_hotel where
  "hotel_start = \<lparr>mh_endpoints = [], mh_preapprovals = [], mh_intents = [], mh_routes = [], mh_guests = [], mh_vault = [],
     mh_perimeter = None, mh_pushes = []\<rparr>"

definition run_mcp :: "(mcp_call \<times> mcp_request) list \<Rightarrow> mcp_hotel \<Rightarrow> mcp_hotel" where
  "run_mcp qs h = foldl (\<lambda>h xq. snd (process_mcp_request (fst xq) (snd xq) h)) h qs"

definition feed :: "(nat \<Rightarrow> bool) \<Rightarrow> membrane_push list \<Rightarrow> McpMembrane \<Rightarrow> McpMembrane" where
  "feed binds ps m = foldl (\<lambda>m p. fst (snd (handle_push binds p m))) m ps"

lemma move_guarded:
  assumes "endpoint_move x e h h'" "\<And>cfg. current_config h e = Some cfg \<Longrightarrow> guarded cfg" "current_config h' e = Some cfg"
  shows "guarded cfg"
  using assms(1)
proof cases
  case keep
  then show ?thesis using assms(2,3) by (simp add: current_config_def)
next
  case (other e' row)
  then show ?thesis using assms(2,3) by (simp add: current_config_def tbl_get_put)
next
  case (save cfg')
  then show ?thesis using assms(2,3) by (auto simp: current_config_def tbl_get_put)
next
  case (drop owner)
  then show ?thesis using assms(3) by (simp add: current_config_def tbl_get_put)
qed

lemma run_guarded:
  "(\<And>cfg. current_config h e = Some cfg \<Longrightarrow> guarded cfg) \<Longrightarrow> current_config (run_mcp qs h) e = Some cfg \<Longrightarrow> guarded cfg"
proof (induction qs arbitrary: h)
  case (Cons xq qs)
  obtain r h' where step: "process_mcp_request (fst xq) (snd xq) h = (r, h')" by fastforce
  have "current_config h' e = Some c \<Longrightarrow> guarded c" for c
    using move_guarded [OF process_moves [OF step] Cons.prems(1)] by blast
  then show ?case using Cons.IH [of h'] Cons.prems(2) by (simp add: run_mcp_def step)
qed (simp add: run_mcp_def)

lemma run_routes_only: "routes_only h (run_mcp qs h)"
proof (induction qs arbitrary: h)
  case (Cons xq qs)
  obtain r h' where step: "process_mcp_request (fst xq) (snd xq) h = (r, h')" by fastforce
  show ?case
    using process_routes_only [OF step] Cons.IH [of h'] step by (auto simp: run_mcp_def routes_only_def)
qed (simp add: run_mcp_def routes_only_def)

lemma delivered_routes: "\<forall>p\<in>set (delivered_to MEMBRANE_ROLE (run_mcp qs hotel_start)). about_routes p"
  using run_routes_only [of hotel_start qs] by (auto simp: delivered_to_def routes_only_def hotel_start_def)

lemma config_unmoved:
  "\<forall>p\<in>set ps. about_routes p \<or> (\<exists>tier. p = UpdatePerimeter (Some tier)) \<Longrightarrow> config_after c ps = c"
  by (induction c ps rule: config_after.induct) (auto simp: about_routes_def)

lemma config_after_append: "config_after c (ps @ qs) = config_after (config_after c ps) qs"
  by (induction c ps rule: config_after.induct) simp_all

lemma run_told:
  "\<forall>xq\<in>set qs. all_ok (fst xq) \<Longrightarrow> current_config h e = config_after c (pushes_for e (mh_pushes h)) \<Longrightarrow>
     current_config (run_mcp qs h) e = config_after c (pushes_for e (mh_pushes (run_mcp qs h)))"
proof (induction qs arbitrary: h)
  case (Cons xq qs)
  obtain r h' where step: "process_mcp_request (fst xq) (snd xq) h = (r, h')" by fastforce
  have "told e h h'" using process_told [OF _ step] Cons.prems(1) by simp
  then have "current_config h' e = config_after c (pushes_for e (mh_pushes h'))"
    using Cons.prems(2) by (auto simp: told_def config_after_append)
  then show ?case using Cons.IH [of h'] Cons.prems(1) by (simp add: run_mcp_def step)
qed (simp add: run_mcp_def)

lemma handle_push_config:
  "ms_endpoint (mm_state (fst (snd (handle_push binds p m)))) = config_after (ms_endpoint (mm_state m)) [p]"
  by (cases p) (auto simp: rebound_def take_waiting_def split: option.splits)

lemma feed_config: "ms_endpoint (mm_state (feed binds ps m)) = config_after (ms_endpoint (mm_state m)) ps"
proof (induction ps arbitrary: m)
  case (Cons p ps)
  let ?m = "fst (snd (handle_push binds p m))"
  have "ms_endpoint (mm_state (feed binds (p # ps) m)) = config_after (ms_endpoint (mm_state ?m)) ps"
    using Cons.IH [of ?m] by (simp add: feed_def)
  also have "\<dots> = config_after (ms_endpoint (mm_state m)) ([p] @ ps)"
    by (simp only: handle_push_config config_after_append)
  finally show ?case by simp
qed (simp add: feed_def)

lemma feed_reach: "membrane_reach m \<Longrightarrow> membrane_reach (feed binds ps m)"
proof (induction ps arbitrary: m)
  case (Cons p ps)
  have "membrane_reach (fst (snd (handle_push binds p m)))"
    by (rule on_push [OF Cons.prems, where binds = binds and p = p and handled = "fst (handle_push binds p m)"
          and oc = "snd (snd (handle_push binds p m))"]) simp
  then show ?case using Cons.IH [of "fst (snd (handle_push binds p m))"] by (simp add: feed_def)
qed (simp add: feed_def)

subsection \<open>Theorems\<close>

text \<open>C5. No endpoint is exposed by accident. After any history of MCP requests on an empty hotel, whatever reads and writes
  failed, every stored endpoint whose exposure goes beyond \<open>Local\<close> and that does not waive it demands a token for each of
  its tools; minting, rotating and revoking grants included, even when the last grant of a tool is revoked.\<close>

theorem endpoints_stay_guarded:
  assumes "current_config (run_mcp qs hotel_start) e = Some cfg" "Local < exposure cfg" "\<not> allow_unauthenticated cfg"
    and "t \<in> set (tools cfg)"
  shows "\<exists>grants. effective_auth cfg t = BearerToken grants"
proof -
  have "guarded cfg"
    by (rule run_guarded [OF _ assms(1)]) (simp add: current_config_def hotel_start_def tbl_get_def)
  with assms(2-4) have "effective_auth cfg t \<noteq> NoAuth" by (simp add: guarded_def)
  then show ?thesis by (cases "effective_auth cfg t") simp_all
qed

text \<open>Only its owner touches an endpoint. When the stored row can be read, a request that changes or removes an endpoint's
  configuration comes from a caller accepted for the present owner, and the owner of an endpoint that stays is the same.\<close>

theorem endpoint_owner_stable:
  assumes "current_config h e = Some cfg" "mx_config_read x" "process_mcp_request x q h = (r, h')"
  shows "(case current_config h' e of Some cfg' \<Rightarrow> owner_agent_id cfg' = owner_agent_id cfg | None \<Rightarrow> True)
    \<and> (current_config h' e \<noteq> Some cfg \<longrightarrow> mcp_owner_identity_ok (mx_identity x) (owner_agent_id cfg))"
proof -
  have stored: "stored_config x h e = Some cfg" using assms(1,2) by (simp add: stored_config_def current_config_def)
  from process_moves [OF assms(3), of e] show ?thesis
  proof cases
    case (save cfg')
    then show ?thesis using save(2) [OF stored] by (simp add: current_config_def tbl_get_put)
  next
    case (drop owner)
    then show ?thesis using drop(2) [OF stored] by (simp add: current_config_def tbl_get_put)
  qed (use assms(1) in \<open>simp_all add: current_config_def tbl_get_put\<close>)
qed

text \<open>When the store's reads and writes succeed, the pushes addressed to an endpoint spell out its row. They do not arrive:
  no guest subscribes to the role they are addressed to.\<close>

lemma pushes_describe_row:
  "\<forall>xq\<in>set qs. all_ok (fst xq) \<Longrightarrow>
     current_config (run_mcp qs hotel_start) e = config_after None (pushes_for e (mh_pushes (run_mcp qs hotel_start)))"
  by (rule run_told) (auto simp: hotel_start_def current_config_def tbl_get_def)

lemma setup_config:
  "ms_endpoint (mm_state (setup_membrane binds persisted (Some (cfg, tier)) binds2 (membrane_init guest static))) = cfg"
  by (cases cfg; cases tier) (simp_all add: setup_membrane_def Let_def rebound_def membrane_init_def)


text \<open>A revoked endpoint still reports itself active: its row holds \<open>null\<close>, which counts as present.\<close>

lemma status_after_revoke:
  assumes "all_ok x" "revoke_mcp_endpoint x e owner h = (McpEndpointProvisioned e p b, h')"
  shows "get_mcp_endpoint_status x e h' = McpStatus None (stored_ceiling x h' Local) True"
  using assms
  by (auto simp: revoke_mcp_endpoint_def get_mcp_endpoint_status_def stored_config_def all_ok_def push_to_def tbl_get_put Let_def
      split: if_splits option.splits)

subsubsection \<open>Instances\<close>

definition demo_mcp_call :: "string \<Rightarrow> mcp_call" where
  "demo_mcp_call who = \<lparr>mx_identity = Some \<lparr>gi_guest_id = who, gi_role = ''agent''\<rparr>, mx_now = 5, mx_config_read = True,
     mx_perimeter_read = True, mx_config_write = True, mx_rules_write = True, mx_intent_write = True, mx_guest_write = True,
     mx_hotel_known = True, mx_activated = True, mx_cipher = demo_cipher, mx_hash = rev, mx_fresh = ''u'', mx_raw_token = ''pmcp_1''\<rparr>"

definition demo_qs :: "(mcp_call \<times> mcp_request) list" where
  "demo_qs = [(demo_mcp_call ''ana'', ProvisionMcpEndpoint demo_config)]"

lemma demo_provisioned: "current_config (run_mcp demo_qs hotel_start) ''e1'' = Some demo_config"
  by (simp add: demo_qs_def run_mcp_def hotel_start_def provision_mcp_endpoint_def demo_mcp_call_def demo_config_def
      mcp_owner_identity_ok_def stored_config_def stored_ceiling_def tbl_get_def open_tools_def effective_auth_def demo_spec_def
      materialize_endpoint_def push_to_def current_config_def tier_order Let_def)

theorem endpoints_stay_guarded_witness:
  "\<exists>grants. effective_auth demo_config demo_spec = BearerToken grants"
  using endpoints_stay_guarded [OF demo_provisioned, of demo_spec] by (simp add: demo_config_def tier_order)

theorem endpoint_owner_stable_witness:
  "current_config (snd (process_mcp_request (demo_mcp_call ''bob'') (RevokeMcpEndpoint ''e1'' ''bob'') (run_mcp demo_qs hotel_start))) ''e1''
     = Some demo_config"
proof -
  obtain r h' where step: "process_mcp_request (demo_mcp_call ''bob'') (RevokeMcpEndpoint ''e1'' ''bob'') (run_mcp demo_qs hotel_start) = (r, h')"
    by fastforce
  have "mx_config_read (demo_mcp_call ''bob'')" "\<not> mcp_owner_identity_ok (mx_identity (demo_mcp_call ''bob'')) (owner_agent_id demo_config)"
    by (simp_all add: demo_mcp_call_def mcp_owner_identity_ok_def demo_config_def starts_with_def)
  with endpoint_owner_stable [OF demo_provisioned _ step] step show ?thesis by auto
qed

text \<open>A membrane started on the endpoint of \<open>demo_qs\<close> still serves it after the endpoint was revoked.\<close>

definition demo_revoked :: "(mcp_call \<times> mcp_request) list" where
  "demo_revoked = [(demo_mcp_call ''ana'', RevokeMcpEndpoint ''e1'' ''ana'')]"


end
