(* ===== verification/Histories.thy ===== *)
theory Histories
  imports Prelude
begin

section \<open>Histories of events\<close>

text \<open>
  Contracts of components that run as a fold of a step function over events. \<open>history\<close>: what every admissible event
  keeps holds after every history. \<open>increasing_log\<close>: a component that logs values, where each logged value was
  possible before and only larger ones are possible afterwards, logs an increasing sequence.
\<close>

locale history =
  fixes step :: "'s \<Rightarrow> 'e \<Rightarrow> 's"
    and inv :: "'s \<Rightarrow> bool"
    and adm :: "'e \<Rightarrow> bool"
  assumes inv_step: "inv s \<Longrightarrow> adm e \<Longrightarrow> inv (step s e)"
begin

lemma inv_run: "inv s \<Longrightarrow> list_all adm es \<Longrightarrow> inv (foldl step s es)"
  by (induction es arbitrary: s) (auto simp: inv_step)

text \<open>A quantity that no event decreases.\<close>

lemma run_mono:
  fixes m :: "'s \<Rightarrow> 'a::preorder"
  assumes "\<And>s e. inv s \<Longrightarrow> adm e \<Longrightarrow> m s \<le> m (step s e)" "inv s" "list_all adm es"
  shows "m s \<le> m (foldl step s es)"
  using assms(2,3)
proof (induction es arbitrary: s)
  case (Cons e es)
  then have "m s \<le> m (step s e)" "m (step s e) \<le> m (foldl step (step s e) es)"
    by (simp_all add: assms(1) inv_step)
  then show ?case by (auto intro: order_trans)
qed simp

end

locale increasing_log = history +
  fixes out :: "'s \<Rightarrow> 'a::linorder list"
    and may :: "'s \<Rightarrow> 'a \<Rightarrow> bool"
  assumes emits: "inv s \<Longrightarrow> adm e \<Longrightarrow> out (step s e) = out s
      \<or> (\<exists>x. may s x \<and> out (step s e) = out s @ [x] \<and> (\<forall>y. may (step s e) y \<longrightarrow> x < y))"
    and may_step: "inv s \<Longrightarrow> adm e \<Longrightarrow> may (step s e) y \<Longrightarrow> may s y"
begin

lemma log_run:
  "inv s \<Longrightarrow> list_all adm es \<Longrightarrow>
     \<exists>new. out (foldl step s es) = out s @ new \<and> sorted_wrt (<) new \<and> list_all (may s) new"
proof (induction es arbitrary: s)
  case (Cons e es)
  have s: "inv s" "adm e" using Cons.prems by simp_all
  obtain new where new: "out (foldl step (step s e) es) = out (step s e) @ new" "sorted_wrt (<) new"
      "list_all (may (step s e)) new"
    using Cons.IH [OF inv_step [OF s]] Cons.prems by auto
  have may: "list_all (may s) new"
    using new(3) may_step [OF s] by (auto simp: list_all_iff)
  from emits [OF s] show ?case
  proof
    assume "out (step s e) = out s"
    then show ?thesis using new(1,2) may by auto
  next
    assume "\<exists>x. may s x \<and> out (step s e) = out s @ [x] \<and> (\<forall>y. may (step s e) y \<longrightarrow> x < y)"
    then obtain x where x: "may s x" "out (step s e) = out s @ [x]" "\<forall>y. may (step s e) y \<longrightarrow> x < y" by auto
    have "out (foldl step s (e # es)) = out s @ x # new" "sorted_wrt (<) (x # new)" "list_all (may s) (x # new)"
      using new may x by (auto simp: list_all_iff)
    then show ?thesis by blast
  qed
qed (auto intro: exI [of _ "[]"])

end

subsection \<open>Runs that come to an end\<close>

text \<open>A step that may not return, run over a list of events.\<close>

fun run_opt :: "('s \<Rightarrow> 'e \<Rightarrow> 's option) \<Rightarrow> 's \<Rightarrow> 'e list \<Rightarrow> 's option" where
  "run_opt step s [] = Some s"
| "run_opt step s (e # es) = Option.bind (step s e) (\<lambda>s'. run_opt step s' es)"

text \<open>\<open>returning\<close>: every step from a good state returns a good state; so does every run.\<close>

locale returning =
  fixes step :: "'s \<Rightarrow> 'e \<Rightarrow> 's option"
    and inv :: "'s \<Rightarrow> bool"
  assumes returns: "inv s \<Longrightarrow> \<exists>s'. step s e = Some s' \<and> inv s'"
begin

lemma run_returns: "inv s \<Longrightarrow> \<exists>s'. run_opt step s es = Some s' \<and> inv s'"
proof (induction es arbitrary: s)
  case (Cons e es)
  obtain s1 where "step s e = Some s1" "inv s1" using returns [OF Cons.prems] by blast
  then show ?case using Cons.IH by simp
qed simp

end

text \<open>\<open>dwindling\<close>: every step returns, and spends some of a budget unless the run is over. Then the run returns, and it is
  over once it had more events than budget.\<close>

locale dwindling =
  fixes step :: "'s \<Rightarrow> 'e \<Rightarrow> 's option"
    and inv :: "'s \<Rightarrow> bool"
    and over :: "'s \<Rightarrow> bool"
    and budget :: "'s \<Rightarrow> nat"
  assumes spends: "inv s \<Longrightarrow> \<exists>s'. step s e = Some s' \<and> inv s' \<and> (over s' \<or> \<not> over s \<and> budget s' < budget s)"
begin

lemma run_over: "inv s \<Longrightarrow> \<exists>s'. run_opt step s es = Some s' \<and> inv s' \<and> (over s \<or> budget s < length es \<longrightarrow> over s')"
proof (induction es arbitrary: s)
  case (Cons e es)
  obtain s1 where s1: "step s e = Some s1" "inv s1" "over s1 \<or> \<not> over s \<and> budget s1 < budget s"
    using spends [OF Cons.prems] by blast
  then show ?case using Cons.IH [OF s1(2)] by auto
qed auto

end

sublocale dwindling \<subseteq> returning step inv
  using spends by unfold_locales blast

end
