(* ===== verification/Delivery.thy ===== *)
theory Delivery
  imports MeshLedger Tables
begin

section \<open>Inbox delivery, parking and redelivery\<close>

text \<open>
  Models how a hotel hands tasks to its guests: the counted outbound channel of a connection and its write task, the
  role inboxes, \<open>deliver_inbound_task\<close> with the wedge gauge and the write-confirmation watcher, the re-parking of lost
  tasks, the flush on registration (\<^verbatim>\<open>crates/aiua/src/service/ipc.rs\<close>), and \<open>park_and_materialize\<close> and
  \<open>deliver_event_envelope_or_park\<close> (\<^verbatim>\<open>role_materialization.rs\<close>). A connection is its number in the order of
  acceptance. A field \<open>flushed\<close> keeps the frames written to the guest's socket. Parked tasks are one list in the
  order of parking, a guest's entry being its sublist. Times are in milliseconds.
\<close>

subsection \<open>The counted channel\<close>

datatype frame = InboundTask string "128 word" string | OtherFrame

record CountedSender =
  cs_queue :: "frame list"
  cs_open :: bool
  enqueued :: nat
  drained :: nat
  backlog_flagged :: bool
  cs_heal :: bool
  subscribed_roles :: "string list"
  flushed :: "frame list"

definition SUBSCRIBER_BACKLOG_WEDGE_THRESHOLD :: nat where "SUBSCRIBER_BACKLOG_WEDGE_THRESHOLD = 32"

definition DELIVERY_WRITE_CONFIRM_TIMEOUT :: nat where "DELIVERY_WRITE_CONFIRM_TIMEOUT = 10 * 1000"

definition DELIVERY_LOST_WATCH_CAP :: nat where "DELIVERY_LOST_WATCH_CAP = 600 * 1000"

definition counted_new :: "bool \<Rightarrow> CountedSender" where
  "counted_new heal = \<lparr>cs_queue = [], cs_open = True, enqueued = 0, drained = 0, backlog_flagged = False,
     cs_heal = heal, subscribed_roles = [], flushed = []\<rparr>"

definition cs_send :: "frame \<Rightarrow> CountedSender \<Rightarrow> bool \<times> CountedSender" where
  "cs_send f c =
     (if cs_open c then (True, c\<lparr>cs_queue := cs_queue c @ [f], enqueued := enqueued c + 1\<rparr>) else (False, c))"

definition backlog :: "CountedSender \<Rightarrow> nat" where
  "backlog c = enqueued c - drained c"

text \<open>One turn of the write task: a frame that cannot be serialized is dropped and counted, a failing write ends the
  task and with it the channel.\<close>

datatype write_result = Written | Unserializable | WriteFailed

definition write_next :: "write_result \<Rightarrow> CountedSender \<Rightarrow> CountedSender" where
  "write_next r c =
     (case cs_queue c of
        [] \<Rightarrow> c
      | f # q \<Rightarrow>
          (case r of
             Written \<Rightarrow> c\<lparr>cs_queue := q, drained := drained c + 1, flushed := flushed c @ [f]\<rparr>
           | Unserializable \<Rightarrow> c\<lparr>cs_queue := q, drained := drained c + 1\<rparr>
           | WriteFailed \<Rightarrow> c\<lparr>cs_queue := [], cs_open := False\<rparr>))"

text \<open>The wedge gauge: whether a heal entry is due, and the latch.\<close>

definition wedge_gauge :: "CountedSender \<Rightarrow> bool \<times> CountedSender" where
  "wedge_gauge c =
     (if backlog c \<ge> SUBSCRIBER_BACKLOG_WEDGE_THRESHOLD then (\<not> backlog_flagged c, c\<lparr>backlog_flagged := True\<rparr>)
      else if backlog c < SUBSCRIBER_BACKLOG_WEDGE_THRESHOLD div 2 then (False, c\<lparr>backlog_flagged := False\<rparr>)
      else (False, c))"

subsection \<open>Inboxes and parking\<close>

record RoleSubscriber =
  sub_conn :: nat
  sub_guest :: string
  supported_tools :: "string list"

record ParkedInboundTask =
  pk_source_node :: string
  pk_task_id :: "128 word"
  pk_task_json :: string
  activate_session_id :: "string option"

text \<open>The write-confirmation watcher of one delivery; \<open>w_cap\<close> is set once the confirmation window has passed. The number it
  waits for is read from the counter some time after the send (\<open>w_number\<close>, \<^verbatim>\<open>confirm_target\<close>); \<open>w_frame\<close> is the place of
  its own frame on the channel, which the code does not keep and only the proofs look at.\<close>

record watcher =
  w_conn :: nat
  w_guest :: string
  w_source :: string
  w_task :: "128 word"
  w_json :: string
  w_frame :: nat
  w_number :: "nat option"
  w_deadline :: nat
  w_cap :: "nat option"

record hotel_inbox =
  hi_conns :: "CountedSender list"
  hi_inboxes :: "(string \<times> RoleSubscriber list) list"
  hi_parked :: "(string \<times> ParkedInboundTask) list"
  hi_watchers :: "watcher list"
  hi_claims :: DeliveryClaims
  hi_heal :: "(string \<times> string \<times> string) list"
  hi_activated :: "(string \<times> string) list"
  hi_requests :: "string list"

definition inbox_new :: hotel_inbox where
  "inbox_new = \<lparr>hi_conns = [], hi_inboxes = [], hi_parked = [], hi_watchers = [], hi_claims = claims_default,
     hi_heal = [], hi_activated = [], hi_requests = []\<rparr>"

definition role_subscribers :: "hotel_inbox \<Rightarrow> string \<Rightarrow> RoleSubscriber list" where
  "role_subscribers s role = (case tbl_get (hi_inboxes s) role of Some subs \<Rightarrow> subs | None \<Rightarrow> [])"

definition matching_subscribers :: "hotel_inbox \<Rightarrow> string \<Rightarrow> string option \<Rightarrow> RoleSubscriber list" where
  "matching_subscribers s role target =
     (case target of
        Some g \<Rightarrow> filter (\<lambda>sub. sub_guest sub = g) (role_subscribers s role)
      | None \<Rightarrow> role_subscribers s role)"

definition set_conn :: "nat \<Rightarrow> CountedSender \<Rightarrow> hotel_inbox \<Rightarrow> hotel_inbox" where
  "set_conn i c s = s\<lparr>hi_conns := (hi_conns s)[i := c]\<rparr>"

definition push_heal :: "bool \<Rightarrow> string \<Rightarrow> string \<Rightarrow> string \<Rightarrow> hotel_inbox \<Rightarrow> hotel_inbox" where
  "push_heal due guest severity tag s = (if due then s\<lparr>hi_heal := hi_heal s @ [(guest, severity, tag)]\<rparr> else s)"

definition add_subscription :: "string \<Rightarrow> nat \<Rightarrow> string \<Rightarrow> string list \<Rightarrow> hotel_inbox \<Rightarrow> hotel_inbox" where
  "add_subscription role conn guest tools s =
     (let entry = role_subscribers s role;
          entry1 = (if list_ex (\<lambda>sub. sub_conn sub = conn) entry then entry
                    else entry @ [\<lparr>sub_conn = conn, sub_guest = guest, supported_tools = tools\<rparr>]);
          c = hi_conns s ! conn;
          c1 = (if role \<in> set (subscribed_roles c) then c else c\<lparr>subscribed_roles := subscribed_roles c @ [role]\<rparr>)
      in set_conn conn c1 (s\<lparr>hi_inboxes := tbl_put role entry1 (hi_inboxes s)\<rparr>))"

definition remove_subscriptions :: "nat \<Rightarrow> string list \<Rightarrow> hotel_inbox \<Rightarrow> hotel_inbox" where
  "remove_subscriptions conn roles s =
     s\<lparr>hi_inboxes := filter (\<lambda>(role, subs). subs \<noteq> [])
        (map (\<lambda>(role, subs). (role, if role \<in> set roles then filter (\<lambda>sub. sub_conn sub \<noteq> conn) subs else subs))
           (hi_inboxes s))\<rparr>"

definition park_task :: "string \<Rightarrow> ParkedInboundTask \<Rightarrow> hotel_inbox \<Rightarrow> hotel_inbox" where
  "park_task guest p s = s\<lparr>hi_parked := hi_parked s @ [(guest, p)]\<rparr>"

definition repark_lost_task :: "string \<Rightarrow> string \<Rightarrow> 128 word \<Rightarrow> string \<Rightarrow> hotel_inbox \<Rightarrow> bool \<times> hotel_inbox" where
  "repark_lost_task guest source task json s =
     (if guest = [] then (False, s)
      else if list_ex (\<lambda>(g, p). g = guest \<and> pk_task_id p = task) (hi_parked s) then (False, s)
      else (True, park_task guest \<lparr>pk_source_node = source, pk_task_id = task, pk_task_json = json, activate_session_id = None\<rparr> s))"

subsection \<open>Delivery\<close>

definition deliver_one ::
  "nat \<Rightarrow> string \<Rightarrow> 128 word \<Rightarrow> string \<Rightarrow> nat list \<times> hotel_inbox \<Rightarrow> RoleSubscriber \<Rightarrow> nat list \<times> hotel_inbox" where
  "deliver_one now source task json acc sub =
     (case acc of (stale, s) \<Rightarrow>
        let i = sub_conn sub; c = hi_conns s ! i;
            (due, c1) = wedge_gauge c;
            s1 = push_heal (due \<and> cs_heal c) (sub_guest sub) ''high'' ''subscriber_wedged'' (set_conn i c1 s)
        in case cs_send (InboundTask source task json) c1 of
             (True, c2) \<Rightarrow>
               (stale, (set_conn i c2 s1)\<lparr>hi_watchers := hi_watchers s1 @
                  [\<lparr>w_conn = i, w_guest = sub_guest sub, w_source = source, w_task = task, w_json = json,
                    w_frame = enqueued c2, w_number = None, w_deadline = now + DELIVERY_WRITE_CONFIRM_TIMEOUT, w_cap = None\<rparr>]\<rparr>)
           | (False, _) \<Rightarrow>
               (stale @ [i],
                push_heal (cs_heal c) (sub_guest sub) ''medium'' ''delivery_channel_closed''
                  (snd (repark_lost_task (sub_guest sub) source task json s1))))"

definition drop_stale :: "string \<Rightarrow> nat list \<Rightarrow> hotel_inbox \<Rightarrow> hotel_inbox" where
  "drop_stale role stale s =
     (if stale = [] then s
      else (case tbl_get (hi_inboxes s) role of
              Some subs \<Rightarrow> s\<lparr>hi_inboxes := tbl_put role (filter (\<lambda>sub. sub_conn sub \<notin> set stale) subs) (hi_inboxes s)\<rparr>
            | None \<Rightarrow> s))"

definition deliver_inbound_task ::
  "nat \<Rightarrow> string \<Rightarrow> string \<Rightarrow> string option \<Rightarrow> 128 word \<Rightarrow> string \<Rightarrow> hotel_inbox \<Rightarrow> hotel_inbox" where
  "deliver_inbound_task now source role target task json s =
     (case foldl (deliver_one now source task json) ([], s) (matching_subscribers s role target) of
        (stale, s1) \<Rightarrow> drop_stale role stale s1)"

text \<open>The read of the counter (\<open>enqueued_now\<close>), an atomic operation of its own: other tasks may have sent on the connection
  since, and sends may have entered the channel that are not counted yet (\<open>uncounted\<close>).\<close>

definition read_number :: "nat \<Rightarrow> nat \<Rightarrow> nat \<Rightarrow> hotel_inbox \<Rightarrow> hotel_inbox" where
  "read_number now uncounted i s =
     (let w = hi_watchers s ! i in
      if w_number w = None
      then s\<lparr>hi_watchers := (hi_watchers s)[i := w\<lparr>w_number := Some (enqueued (hi_conns s ! w_conn w) - uncounted),
                                               w_deadline := now + DELIVERY_WRITE_CONFIRM_TIMEOUT\<rparr>]\<rparr>
      else s)"

text \<open>One poll of a watcher that has its number: what remains of it, and the state.\<close>

definition watch_poll :: "nat \<Rightarrow> watcher \<Rightarrow> hotel_inbox \<Rightarrow> watcher option \<times> hotel_inbox" where
  "watch_poll now w s =
     (case w_number w of
        None \<Rightarrow> (Some w, s)
      | Some confirm_target \<Rightarrow>
          let c = hi_conns s ! w_conn w in
          if drained c \<ge> confirm_target then (None, s)
          else (case w_cap w of
                  None \<Rightarrow>
                    if now \<ge> w_deadline w
                    then (Some (w\<lparr>w_cap := Some (now + DELIVERY_LOST_WATCH_CAP)\<rparr>),
                          push_heal (cs_heal c) (w_guest w) ''high'' ''delivery_write_unconfirmed'' s)
                    else (Some w, s)
                | Some cap \<Rightarrow>
                    if \<not> cs_open c then (None, snd (repark_lost_task (w_guest w) (w_source w) (w_task w) (w_json w) s))
                    else if now \<ge> cap then (None, s) else (Some w, s)))"

definition poll_watcher :: "nat \<Rightarrow> nat \<Rightarrow> hotel_inbox \<Rightarrow> hotel_inbox" where
  "poll_watcher now i s =
     (case watch_poll now (hi_watchers s ! i) s of
        (Some w, s1) \<Rightarrow> s1\<lparr>hi_watchers := (hi_watchers s1)[i := w]\<rparr>
      | (None, s1) \<Rightarrow> s1\<lparr>hi_watchers := take i (hi_watchers s1) @ drop (Suc i) (hi_watchers s1)\<rparr>)"

subsection \<open>Registration\<close>

definition send_frame :: "nat \<Rightarrow> frame \<Rightarrow> hotel_inbox \<Rightarrow> hotel_inbox" where
  "send_frame i f s = set_conn i (snd (cs_send f (hi_conns s ! i))) s"

definition parked_frame :: "ParkedInboundTask \<Rightarrow> frame" where
  "parked_frame p = InboundTask (pk_source_node p) (pk_task_id p) (pk_task_json p)"

text \<open>Registration subscribes the connection, takes the guest's parked tasks (activating their sessions) and sends
  them after the reply; a failing send is ignored.\<close>

definition register :: "nat \<Rightarrow> string \<Rightarrow> string \<Rightarrow> string list \<Rightarrow> hotel_inbox \<Rightarrow> hotel_inbox" where
  "register conn guest role tools s =
     (let s1 = add_subscription role conn guest tools s;
          mine = map snd (filter (\<lambda>(g, p). g = guest) (hi_parked s1));
          sessions = rev (remdups (rev (List.map_filter activate_session_id mine)));
          s2 = s1\<lparr>hi_parked := filter (\<lambda>(g, p). g \<noteq> guest) (hi_parked s1),
                  hi_activated := hi_activated s1 @ map (\<lambda>x. (x, guest)) sessions\<rparr>
      in foldl (\<lambda>st p. send_frame conn (parked_frame p) st) (send_frame conn OtherFrame s2) mine)"

subsection \<open>Parking for dormant guests, and mesh envelopes\<close>

record park_env =
  pe_local_node :: string
  pe_operator_surface :: bool
  pe_hotel_name :: "string option"
  pe_role_of_guest :: "string \<Rightarrow> (string \<times> string) option"
  pe_materializer :: bool
  pe_target_guest :: "string \<Rightarrow> string option"
  pe_session :: "string \<Rightarrow> string option"

datatype ParkTarget = LocalRoleIncarnation string string string | CrossHotelGuest string

text \<open>A role incarnation is given by its guest, agent and role. \<open>hi_requests\<close> logs which guest or role was asked to
  materialize.\<close>

definition park_and_materialize ::
  "park_env \<Rightarrow> string \<Rightarrow> 128 word \<Rightarrow> string \<Rightarrow> ParkTarget \<Rightarrow> hotel_inbox \<Rightarrow> hotel_inbox" where
  "park_and_materialize env source task json target s =
     (let p = \<lparr>pk_source_node = source, pk_task_id = task, pk_task_json = json, activate_session_id = None\<rparr> in
      case target of
        LocalRoleIncarnation guest agent role \<Rightarrow>
          (park_task guest p s)\<lparr>hi_requests := hi_requests s @ [''role:'' @ agent @ '':'' @ role]\<rparr>
      | CrossHotelGuest guest \<Rightarrow>
          (let s1 = park_task guest p s in
           case pe_role_of_guest env guest of
             None \<Rightarrow> s1
           | Some (agent, role) \<Rightarrow>
               (case pe_hotel_name env of
                  None \<Rightarrow> s1
                | Some hotel \<Rightarrow>
                    if pe_materializer env then s1\<lparr>hi_requests := hi_requests s1 @ [hotel @ '':philote-'' @ role]\<rparr> else s1)))"

definition OPERATOR_SURFACE_QUERY_ROLE :: string where
  "OPERATOR_SURFACE_QUERY_ROLE = ''management.operator_surface_query''"

definition MEMORY_WRITE_FORWARD_ROLE :: string where
  "MEMORY_WRITE_FORWARD_ROLE = ''hotel.memory_write_forward''"

definition activate_incarnation :: "park_env \<Rightarrow> string option \<Rightarrow> string \<Rightarrow> hotel_inbox \<Rightarrow> hotel_inbox" where
  "activate_incarnation env target data s =
     (case (target, pe_session env data) of
        (Some g, Some session) \<Rightarrow> s\<lparr>hi_activated := hi_activated s @ [(session, g)]\<rparr>
      | _ \<Rightarrow> s)"

definition deliver_or_park_claimed ::
  "park_env \<Rightarrow> nat \<Rightarrow> EventEnvelope \<Rightarrow> string \<Rightarrow> string \<Rightarrow> hotel_inbox \<Rightarrow> hotel_inbox" where
  "deliver_or_park_claimed env now ev role data s =
     (if role = OPERATOR_SURFACE_QUERY_ROLE \<and> pe_operator_surface env then s
      else if role = MEMORY_WRITE_FORWARD_ROLE then s
      else
        let target = pe_target_guest env data in
        if matching_subscribers s role target \<noteq> []
        then deliver_inbound_task now (source_node_id ev) role target (event_id ev) data (activate_incarnation env target data s)
        else (case target of
                Some g \<Rightarrow> park_and_materialize env (source_node_id ev) (event_id ev) data (CrossHotelGuest g) s
              | None \<Rightarrow> s))"

definition deliver_event_envelope_or_park ::
  "park_env \<Rightarrow> nat \<Rightarrow> EventEnvelope \<Rightarrow> hotel_inbox \<Rightarrow> bool \<times> hotel_inbox" where
  "deliver_event_envelope_or_park env now ev s =
     (if (case target_node_id ev of Some n \<Rightarrow> n \<noteq> pe_local_node env | None \<Rightarrow> False) then (False, s)
      else if kind ev \<in> {TaskInvoke, TaskResult}
      then (case (target_agent_id ev, payload ev) of
              (Some role, Inline data) \<Rightarrow>
                (case claim (event_id ev) (hi_claims s) of
                   (False, claims) \<Rightarrow> (True, s\<lparr>hi_claims := claims\<rparr>)
                 | (True, claims) \<Rightarrow> (True, deliver_or_park_claimed env now ev role data (s\<lparr>hi_claims := claims\<rparr>)))
            | _ \<Rightarrow> (False, s))
      else (False, s))"

subsection \<open>Histories\<close>

datatype delivery_event =
    Connect bool
  | RegisterGuest nat string string "string list"
  | OtherResponse nat
  | WriteTurn nat write_result
  | Disconnect nat
  | DeliverTask nat string string "string option" "128 word" string
  | ParkFor string ParkedInboundTask
  | MeshEvent park_env nat EventEnvelope
  | ReadNumber nat nat nat
  | PollWatcher nat nat

text \<open>Requests come from connections that exist, watchers are polled while they run.\<close>

fun delivery_step :: "hotel_inbox \<Rightarrow> delivery_event \<Rightarrow> hotel_inbox" where
  "delivery_step s (Connect heal) = s\<lparr>hi_conns := hi_conns s @ [counted_new heal]\<rparr>"
| "delivery_step s (RegisterGuest i guest role tools) =
     (if i < length (hi_conns s) then register i guest role tools s else s)"
| "delivery_step s (OtherResponse i) = (if i < length (hi_conns s) then send_frame i OtherFrame s else s)"
| "delivery_step s (WriteTurn i r) =
     (if i < length (hi_conns s) then set_conn i (write_next r (hi_conns s ! i)) s else s)"
| "delivery_step s (Disconnect i) =
     (if i < length (hi_conns s) then remove_subscriptions i (subscribed_roles (hi_conns s ! i)) s else s)"
| "delivery_step s (DeliverTask now source role target task json) = deliver_inbound_task now source role target task json s"
| "delivery_step s (ParkFor guest p) = park_task guest p s"
| "delivery_step s (MeshEvent env now ev) = snd (deliver_event_envelope_or_park env now ev s)"
| "delivery_step s (ReadNumber now uncounted i) = (if i < length (hi_watchers s) then read_number now uncounted i s else s)"
| "delivery_step s (PollWatcher now i) = (if i < length (hi_watchers s) then poll_watcher now i s else s)"

text \<open>How often a task is handed out: once per subscriber a delivery addresses, once per parking.\<close>

fun handed :: "128 word \<Rightarrow> hotel_inbox \<Rightarrow> delivery_event \<Rightarrow> nat" where
  "handed t s (DeliverTask now source role target task json) =
     (if task = t then length (matching_subscribers s role target) else 0)"
| "handed t s (ParkFor guest p) = (if pk_task_id p = t then 1 else 0)"
| "handed t s (MeshEvent env now ev) =
     (if event_id ev = t \<and> t \<notin> claimed (hi_claims s)
      then (case (target_agent_id ev, payload ev) of
              (Some role, Inline data) \<Rightarrow> max 1 (length (matching_subscribers s role (pe_target_guest env data)))
            | _ \<Rightarrow> 0) else 0)"
| "handed t s _ = 0"

fun total_handed :: "128 word \<Rightarrow> hotel_inbox \<Rightarrow> delivery_event list \<Rightarrow> nat" where
  "total_handed t s [] = 0"
| "total_handed t s (e # es) = handed t s e + total_handed t (delivery_step s e) es"

text \<open>How often a watcher of the task reads a number past its own frame, because another frame was sent and counted on the
  connection between the send and the read.\<close>

fun late_read :: "128 word \<Rightarrow> hotel_inbox \<Rightarrow> delivery_event \<Rightarrow> nat" where
  "late_read t s (ReadNumber now uncounted i) =
     (if i < length (hi_watchers s) \<and> w_task (hi_watchers s ! i) = t \<and> w_number (hi_watchers s ! i) = None
         \<and> w_frame (hi_watchers s ! i) < enqueued (hi_conns s ! w_conn (hi_watchers s ! i)) - uncounted then 1 else 0)"
| "late_read t s _ = 0"

fun total_late :: "128 word \<Rightarrow> hotel_inbox \<Rightarrow> delivery_event list \<Rightarrow> nat" where
  "total_late t s [] = 0"
| "total_late t s (e # es) = late_read t s e + total_late t (delivery_step s e) es"

fun is_task :: "128 word \<Rightarrow> frame \<Rightarrow> bool" where
  "is_task t (InboundTask source task json) \<longleftrightarrow> task = t"
| "is_task t OtherFrame \<longleftrightarrow> False"

definition copies :: "128 word \<Rightarrow> frame list \<Rightarrow> nat" where
  "copies t fs = length (filter (is_task t) fs)"

definition received :: "128 word \<Rightarrow> hotel_inbox \<Rightarrow> nat" where
  "received t s = sum_list (map (\<lambda>c. copies t (flushed c)) (hi_conns s))"

subsection \<open>No task is received more often than it was handed out\<close>

text \<open>A watcher's frame is still pending at its place, for as long as the channel is open and has not drained that far.\<close>

definition conn_ok :: "CountedSender \<Rightarrow> bool" where
  "conn_ok c \<longleftrightarrow> (if cs_open c then enqueued c = drained c + length (cs_queue c) else cs_queue c = [])"

definition watch_ok :: "CountedSender \<Rightarrow> watcher \<Rightarrow> bool" where
  "watch_ok c w \<longleftrightarrow> w_frame w \<le> enqueued c
     \<and> (cs_open c \<and> drained c < w_frame w \<longrightarrow> is_task (w_task w) (cs_queue c ! (w_frame w - drained c - 1)))"

text \<open>A watcher may park its task again when the frame is lost, or when it read a number past it.\<close>

definition lost_on :: "CountedSender \<Rightarrow> watcher \<Rightarrow> bool" where
  "lost_on c w \<longleftrightarrow> \<not> cs_open c \<and> drained c < w_frame w"

definition late :: "watcher \<Rightarrow> bool" where
  "late w \<longleftrightarrow> (case w_number w of Some n \<Rightarrow> w_frame w < n | None \<Rightarrow> False)"

definition risky_on :: "CountedSender \<Rightarrow> watcher \<Rightarrow> bool" where
  "risky_on c w \<longleftrightarrow> late w \<or> lost_on c w"

definition inbox_ok :: "hotel_inbox \<Rightarrow> bool" where
  "inbox_ok s \<longleftrightarrow>
     list_all conn_ok (hi_conns s)
     \<and> list_all (\<lambda>w. w_conn w < length (hi_conns s) \<and> watch_ok (hi_conns s ! w_conn w) w) (hi_watchers s)
     \<and> distinct (map (\<lambda>w. (w_conn w, w_frame w)) (hi_watchers s))
     \<and> (\<forall>role subs sub. (role, subs) \<in> set (hi_inboxes s) \<longrightarrow> sub \<in> set subs \<longrightarrow> sub_conn sub < length (hi_conns s))"

definition watching :: "128 word \<Rightarrow> nat \<Rightarrow> watcher list \<Rightarrow> watcher list" where
  "watching t i ws = filter (\<lambda>w. w_conn w = i \<and> w_task w = t) ws"

text \<open>Copies of a task on one connection: written, pending, or about to be parked again by a watcher.\<close>

definition conn_copies :: "128 word \<Rightarrow> watcher list \<Rightarrow> nat \<Rightarrow> CountedSender \<Rightarrow> nat" where
  "conn_copies t ws i c =
     copies t (flushed c) + copies t (cs_queue c) + length (filter (risky_on c) (watching t i ws))"

definition parked_copies :: "128 word \<Rightarrow> hotel_inbox \<Rightarrow> nat" where
  "parked_copies t s = length (filter (\<lambda>(g, p). pk_task_id p = t) (hi_parked s))"

definition live_copies :: "128 word \<Rightarrow> hotel_inbox \<Rightarrow> nat" where
  "live_copies t s =
     (\<Sum>i<length (hi_conns s). conn_copies t (hi_watchers s) i (hi_conns s ! i)) + parked_copies t s"

lemma sum_update:
  fixes F :: "nat \<Rightarrow> 'c \<Rightarrow> nat"
  assumes "k < length cs"
  shows "(\<Sum>i<length cs. F i (cs[k := c] ! i)) + F k (cs ! k) = (\<Sum>i<length cs. F i (cs ! i)) + F k c"
proof -
  have "(\<Sum>i\<in>{..<length cs} - {k}. F i (cs[k := c] ! i)) = (\<Sum>i\<in>{..<length cs} - {k}. F i (cs ! i))"
    by (intro sum.cong) auto
  then show ?thesis
    using assms sum.remove [of "{..<length cs}" k "\<lambda>i. F i (cs[k := c] ! i)"] sum.remove [of "{..<length cs}" k "\<lambda>i. F i (cs ! i)"]
    by simp
qed

lemma received_live: "received t s \<le> live_copies t s"
proof -
  have "received t s = (\<Sum>i<length (hi_conns s). copies t (flushed (hi_conns s ! i)))"
    by (simp add: received_def sum_list_sum_nth atLeast0LessThan)
  also have "\<dots> \<le> (\<Sum>i<length (hi_conns s). conn_copies t (hi_watchers s) i (hi_conns s ! i))"
    by (intro sum_mono) (simp add: conn_copies_def)
  finally show ?thesis by (simp add: live_copies_def)
qed

lemma copies_simps [simp]:
  "copies t [] = 0" "copies t (f # fs) = (if is_task t f then 1 else 0) + copies t fs"
  "copies t (fs @ gs) = copies t fs + copies t gs"
  by (simp_all add: copies_def)

text \<open>Distinct frames are distinct places in the queue.\<close>

lemma watched_pending:
  assumes "conn_ok c" "cs_open c" "distinct (map (\<lambda>w. (w_conn w, w_frame w)) ws)"
    and "\<forall>w\<in>set ws. w_conn w = i \<longrightarrow> watch_ok c w"
  shows "length (filter (\<lambda>w. drained c < w_frame w) (watching t i ws)) \<le> copies t (cs_queue c)"
proof -
  let ?W = "filter (\<lambda>w. drained c < w_frame w) (watching t i ws)"
  let ?pos = "\<lambda>w. w_frame w - drained c - 1"
  have "distinct (map (\<lambda>w. (w_conn w, w_frame w)) ?W)"
    unfolding watching_def filter_filter by (rule distinct_map_filter) (rule assms(3))
  then have inj: "inj_on ?pos (set ?W)" and dist: "distinct ?W"
    by (auto simp: distinct_map inj_on_def watching_def)
  have "?pos ` set ?W \<subseteq> {j. j < length (cs_queue c) \<and> is_task t (cs_queue c ! j)}"
    using assms(1,2,4) by (auto simp: watching_def watch_ok_def conn_ok_def)
  then have "card (?pos ` set ?W) \<le> card {j. j < length (cs_queue c) \<and> is_task t (cs_queue c ! j)}"
    by (rule card_mono [rotated]) simp
  moreover have "card (?pos ` set ?W) = length ?W"
    by (simp only: card_image [OF inj] distinct_card [OF dist])
  ultimately show ?thesis unfolding copies_def length_filter_conv_card [of "is_task t"] by simp
qed

lemma live_set_conn:
  assumes "k < length (hi_conns s)"
    and "conn_copies t (hi_watchers s) k c \<le> conn_copies t (hi_watchers s) k (hi_conns s ! k) + n"
  shows "live_copies t (set_conn k c s) \<le> live_copies t s + n"
  using assms(2) sum_update [OF assms(1), of "conn_copies t (hi_watchers s)" c]
  by (simp add: live_copies_def set_conn_def parked_copies_def)

text \<open>What a connection may turn into without disturbing its watchers.\<close>

definition conn_step :: "CountedSender \<Rightarrow> CountedSender \<Rightarrow> bool" where
  "conn_step c c' \<longleftrightarrow> conn_ok c' \<and> (\<forall>w. watch_ok c w \<longrightarrow> watch_ok c' w)"

lemma inbox_ok_set_conn:
  assumes "inbox_ok s" "k < length (hi_conns s)" "conn_step (hi_conns s ! k) c"
  shows "inbox_ok (set_conn k c s)"
proof -
  have "conn_ok (((hi_conns s)[k := c]) ! i)" if "i < length (hi_conns s)" for i
    using that assms by (cases "i = k") (auto simp: inbox_ok_def conn_step_def list_all_length)
  moreover have "watch_ok (((hi_conns s)[k := c]) ! w_conn w) w" if "w \<in> set (hi_watchers s)" for w
    using that assms by (cases "w_conn w = k") (auto simp: inbox_ok_def conn_step_def list_all_iff)
  ultimately show ?thesis
    using assms(1) unfolding inbox_ok_def set_conn_def by (simp add: list_all_length)
qed

lemma conn_step_send: "conn_ok c \<Longrightarrow> conn_step c (snd (cs_send f c))"
  by (auto simp: conn_step_def cs_send_def conn_ok_def watch_ok_def nth_append)

lemma conn_step_write:
  assumes "conn_ok c"
  shows "conn_step c (write_next r c)"
proof (cases "cs_queue c")
  case (Cons f q)
  with assms show ?thesis
    by (cases r) (auto simp: conn_step_def write_next_def conn_ok_def watch_ok_def nth_Cons' split: if_splits)
qed (use assms in \<open>simp add: conn_step_def write_next_def\<close>)

lemma conn_step_gauge: "conn_ok c \<Longrightarrow> conn_step c (snd (wedge_gauge c))"
  by (auto simp: conn_step_def wedge_gauge_def conn_ok_def watch_ok_def)

lemma risky_on_eq: "risky_on c = (\<lambda>w. late w \<or> \<not> cs_open c \<and> drained c < w_frame w)"
  by (simp add: risky_on_def lost_on_def fun_eq_iff)

lemma length_filter_or: "length (filter (\<lambda>x. P x \<or> Q x) xs) \<le> length (filter Q xs) + length (filter P xs)"
  by (induction xs) auto

lemma copies_send:
  "conn_copies t ws k (snd (cs_send f c)) \<le> conn_copies t ws k c + (if is_task t f then 1 else 0)"
  by (simp add: cs_send_def conn_copies_def risky_on_eq)

lemma copies_gauge [simp]: "conn_copies t ws k (snd (wedge_gauge c)) = conn_copies t ws k c"
  by (simp add: wedge_gauge_def conn_copies_def risky_on_eq)

lemma copies_write:
  assumes "inbox_ok s" "k < length (hi_conns s)"
  shows "conn_copies t (hi_watchers s) k (write_next r (hi_conns s ! k)) \<le> conn_copies t (hi_watchers s) k (hi_conns s ! k)"
proof -
  let ?c = "hi_conns s ! k"
  have c: "conn_ok ?c" using assms by (simp add: inbox_ok_def list_all_length)
  let ?W = "watching t k (hi_watchers s)"
  have "length (filter (\<lambda>w. drained ?c < w_frame w) ?W) \<le> copies t (cs_queue ?c)" if "cs_open ?c"
    by (rule watched_pending) (use assms c that in \<open>auto simp: inbox_ok_def list_all_iff\<close>)
  then have "length (filter (\<lambda>w. late w \<or> drained ?c < w_frame w) ?W) \<le> copies t (cs_queue ?c) + length (filter late ?W)" if "cs_open ?c"
    using that length_filter_or [of late "\<lambda>w. drained ?c < w_frame w" ?W] by linarith
  with c show ?thesis
    by (cases "cs_queue ?c"; cases r) (auto simp: write_next_def conn_copies_def conn_ok_def risky_on_eq split: if_splits)
qed

text \<open>\<open>bounded t n s s'\<close>: the step keeps the inbox well formed and adds at most \<open>n\<close> copies of \<open>t\<close>.\<close>

definition bounded :: "128 word \<Rightarrow> nat \<Rightarrow> hotel_inbox \<Rightarrow> hotel_inbox \<Rightarrow> bool" where
  "bounded t n s s' \<longleftrightarrow> inbox_ok s \<longrightarrow>
     inbox_ok s' \<and> live_copies t s' \<le> live_copies t s + n \<and> length (hi_conns s') = length (hi_conns s)"

lemma bounded_refl [simp]: "bounded t n s s"
  by (simp add: bounded_def)

lemma bounded_trans: "bounded t n s s' \<Longrightarrow> bounded t m s' s'' \<Longrightarrow> bounded t (n + m) s s''"
  by (auto simp: bounded_def)

lemma bounded_trans0: "bounded t 0 s s' \<Longrightarrow> bounded t m s' s'' \<Longrightarrow> bounded t m s s''"
  using bounded_trans [of t 0 s s' m] by simp

lemma bounded_set_conn:
  assumes "k < length (hi_conns s)" "conn_ok (hi_conns s ! k) \<Longrightarrow> conn_step (hi_conns s ! k) c"
    and "inbox_ok s \<Longrightarrow> conn_copies t (hi_watchers s) k c \<le> conn_copies t (hi_watchers s) k (hi_conns s ! k) + n"
  shows "bounded t n s (set_conn k c s)"
proof -
  have "conn_ok (hi_conns s ! k)" if "inbox_ok s" using that assms(1) by (simp add: inbox_ok_def list_all_length)
  then show ?thesis
    using assms by (auto simp: bounded_def intro: inbox_ok_set_conn live_set_conn) (simp add: set_conn_def)
qed

lemma bounded_same:
  "hi_conns s' = hi_conns s \<Longrightarrow> hi_inboxes s' = hi_inboxes s \<Longrightarrow> hi_watchers s' = hi_watchers s \<Longrightarrow> hi_parked s' = hi_parked s
   \<Longrightarrow> bounded t n s s'"
  by (simp add: bounded_def inbox_ok_def live_copies_def parked_copies_def)

lemma bounded_heal [simp]: "bounded t n s (push_heal due g sev tag s)"
  by (rule bounded_same) (simp_all add: push_heal_def)

lemma bounded_park: "bounded t (if pk_task_id p = t then 1 else 0) s (park_task g p s)"
  by (simp add: bounded_def inbox_ok_def live_copies_def parked_copies_def park_task_def)

lemma bounded_repark: "bounded t (if task = t then 1 else 0) s (snd (repark_lost_task g source task json s))"
  using bounded_park [where p = "\<lparr>pk_source_node = source, pk_task_id = task, pk_task_json = json, activate_session_id = None\<rparr>" and t = t and s = s and g = g]
  by (auto simp: repark_lost_task_def)

lemma bounded_send_frame:
  "k < length (hi_conns s) \<Longrightarrow> bounded t (if is_task t f then 1 else 0) s (send_frame k f s)"
  unfolding send_frame_def by (rule bounded_set_conn) (auto intro: conn_step_send copies_send [THEN order_trans])

lemma bounded_gauge: "k < length (hi_conns s) \<Longrightarrow> bounded t n s (set_conn k (snd (wedge_gauge (hi_conns s ! k))) s)"
  by (rule bounded_set_conn) (auto intro: conn_step_gauge)

text \<open>A delivery sends the frame and starts its watcher.\<close>

lemma bounded_watch:
  assumes "k < length (hi_conns s)" "cs_open (hi_conns s ! k)" "w_conn w = k" "w_task w = task"
    and "w_frame w = enqueued (hi_conns s ! k) + 1" "w_number w = None"
  shows "bounded t (if task = t then 1 else 0) s
    ((send_frame k (InboundTask source task json) s)\<lparr>hi_watchers := hi_watchers s @ [w]\<rparr>)"
proof -
  let ?s1 = "send_frame k (InboundTask source task json) s"
  let ?c = "hi_conns s ! k" and ?c1 = "hi_conns ?s1 ! k"
  note b = bounded_send_frame [OF assms(1), of t "InboundTask source task json"]
  have c1: "cs_open ?c1" "enqueued ?c1 = enqueued ?c + 1" "cs_queue ?c1 = cs_queue ?c @ [InboundTask source task json]"
      "drained ?c1 = drained ?c" "hi_watchers ?s1 = hi_watchers s" "hi_inboxes ?s1 = hi_inboxes s"
      "length (hi_conns ?s1) = length (hi_conns s)"
    using assms(1,2) by (simp_all add: send_frame_def set_conn_def cs_send_def)
  have fresh: "(k, w_frame w) \<notin> (\<lambda>w. (w_conn w, w_frame w)) ` set (hi_watchers s)" and q: "conn_ok ?c" if "inbox_ok s"
    using that assms(1,5) by (auto simp: inbox_ok_def list_all_iff watch_ok_def)
  have "risky_on (hi_conns ?s1 ! i) w \<Longrightarrow> w_conn w \<noteq> i" for i
    using assms(3,6) c1(1) by (auto simp: risky_on_def late_def lost_on_def)
  then have live: "live_copies t (?s1\<lparr>hi_watchers := hi_watchers s @ [w]\<rparr>) = live_copies t ?s1"
    by (auto simp: live_copies_def parked_copies_def conn_copies_def watching_def c1 intro!: sum.cong)
  have "inbox_ok (?s1\<lparr>hi_watchers := hi_watchers s @ [w]\<rparr>)" if ok: "inbox_ok s"
  proof -
    have "inbox_ok ?s1" using b ok by (simp add: bounded_def)
    moreover have "watch_ok ?c1 w"
      using q [OF ok] assms(2,4,5) c1 by (auto simp: watch_ok_def conn_ok_def nth_append)
    ultimately show ?thesis
      using fresh [OF ok] assms(1,3) c1 by (simp add: inbox_ok_def)
  qed
  with b live c1(7) show ?thesis by (simp add: bounded_def)
qed

lemma deliver_one_frame:
  "hi_inboxes (snd (deliver_one now source task json acc sub)) = hi_inboxes (snd acc)"
  "hi_claims (snd (deliver_one now source task json acc sub)) = hi_claims (snd acc)"
  "length (hi_conns (snd (deliver_one now source task json acc sub))) = length (hi_conns (snd acc))"
  by (auto simp: deliver_one_def Let_def push_heal_def set_conn_def repark_lost_task_def park_task_def split: prod.splits bool.splits)

lemma bounded_deliver_one:
  assumes "sub_conn sub < length (hi_conns s)"
  shows "bounded t (if task = t then 1 else 0) s (snd (deliver_one now source task json (stale, s) sub))"
proof -
  let ?i = "sub_conn sub" and ?c = "hi_conns s ! sub_conn sub"
  obtain due c1 where g: "wedge_gauge ?c = (due, c1)" by fastforce
  define s1 where "s1 = push_heal (due \<and> cs_heal ?c) (sub_guest sub) ''high'' ''subscriber_wedged'' (set_conn ?i c1 s)"
  have c1: "hi_conns s1 ! ?i = c1" "?i < length (hi_conns s1)"
    using assms by (auto simp: s1_def push_heal_def set_conn_def)
  have b1: "bounded t 0 s s1"
    unfolding s1_def using bounded_gauge [OF assms, of t 0] g by (auto intro: bounded_trans0)
  have "bounded t (if task = t then 1 else 0) s1 (snd (deliver_one now source task json (stale, s) sub))"
  proof (cases "cs_open c1")
    case True
    define w where "w = \<lparr>w_conn = ?i, w_guest = sub_guest sub, w_source = source, w_task = task, w_json = json,
      w_frame = enqueued c1 + 1, w_number = None, w_deadline = now + DELIVERY_WRITE_CONFIRM_TIMEOUT, w_cap = None\<rparr>"
    have "snd (deliver_one now source task json (stale, s) sub)
      = (send_frame ?i (InboundTask source task json) s1)\<lparr>hi_watchers := hi_watchers s1 @ [w]\<rparr>"
      using True g c1 by (simp add: deliver_one_def Let_def s1_def [symmetric] cs_send_def send_frame_def w_def)
    with True c1 show ?thesis
      using bounded_watch [of ?i s1 w task t source json] by (simp add: w_def)
  next
    case False
    then have "snd (deliver_one now source task json (stale, s) sub)
      = push_heal (cs_heal ?c) (sub_guest sub) ''medium'' ''delivery_channel_closed''
          (snd (repark_lost_task (sub_guest sub) source task json s1))"
      using g by (simp add: deliver_one_def Let_def s1_def [symmetric] cs_send_def)
    then show ?thesis
      using bounded_trans [OF bounded_repark bounded_heal [where n = 0]] by simp
  qed
  with b1 show ?thesis by (rule bounded_trans0)
qed

lemma bounded_deliver_all:
  "\<forall>sub\<in>set subs. sub_conn sub < length (hi_conns s) \<Longrightarrow>
   bounded t (if task = t then length subs else 0) s (snd (foldl (deliver_one now source task json) (stale, s) subs))"
proof (induction subs arbitrary: stale s)
  case (Cons sub subs)
  obtain stale1 s1 where one: "deliver_one now source task json (stale, s) sub = (stale1, s1)" by fastforce
  have b1: "bounded t (if task = t then 1 else 0) s s1"
    using bounded_deliver_one [of sub s t task now source json stale] Cons.prems one by simp
  have "length (hi_conns s1) = length (hi_conns s)"
    using deliver_one_frame(3) [of now source task json "(stale, s)" sub] one by simp
  with Cons have "bounded t (if task = t then length subs else 0) s1
    (snd (foldl (deliver_one now source task json) (stale1, s1) subs))" by simp
  from bounded_trans [OF b1 this] show ?case by (auto simp: one split: if_splits)
qed simp

lemma tbl_put_in: "(k', v') \<in> set (tbl_put k v t) \<Longrightarrow> (k', v') = (k, v) \<or> (k', v') \<in> set t"
  by (induction k v t rule: tbl_put.induct) (auto split: if_splits)

lemma tbl_get_in: "tbl_get t k = Some v \<Longrightarrow> (k, v) \<in> set t"
  by (auto simp: tbl_get_def dest: map_of_SomeD)

lemma bounded_inboxes:
  assumes "\<And>role subs sub. (role, subs) \<in> set ib \<Longrightarrow> sub \<in> set subs \<Longrightarrow>
      (\<exists>subs'. (role, subs') \<in> set (hi_inboxes s) \<and> sub \<in> set subs') \<or> sub_conn sub < length (hi_conns s)"
  shows "bounded t n s (s\<lparr>hi_inboxes := ib\<rparr>)"
  using assms unfolding bounded_def inbox_ok_def live_copies_def parked_copies_def by simp blast

lemma bounded_drop_stale: "bounded t n s (drop_stale role stale s)"
proof (cases "stale = [] \<or> tbl_get (hi_inboxes s) role = None")
  case False
  then obtain subs where "tbl_get (hi_inboxes s) role = Some subs" "stale \<noteq> []" by auto
  then show ?thesis
    by (auto simp: drop_stale_def dest!: tbl_put_in intro!: bounded_inboxes dest: tbl_get_in)
qed (auto simp: drop_stale_def)

lemma role_subscribersD: "sub \<in> set (role_subscribers s role) \<Longrightarrow> \<exists>subs. (role, subs) \<in> set (hi_inboxes s) \<and> sub \<in> set subs"
  by (cases "tbl_get (hi_inboxes s) role") (auto simp: role_subscribers_def dest: tbl_get_in)

lemma subscribers_in_range:
  assumes "inbox_ok s"
  shows "\<forall>sub\<in>set (matching_subscribers s role target). sub_conn sub < length (hi_conns s)"
proof
  fix sub
  assume "sub \<in> set (matching_subscribers s role target)"
  then have "sub \<in> set (role_subscribers s role)" by (auto simp: matching_subscribers_def split: option.splits)
  with assms show "sub_conn sub < length (hi_conns s)" by (auto simp: inbox_ok_def dest!: role_subscribersD)
qed

lemma bounded_deliver:
  "bounded t (if task = t then length (matching_subscribers s role target) else 0) s
     (deliver_inbound_task now source role target task json s)"
proof (cases "inbox_ok s")
  case True
  obtain stale s1 where f: "foldl (deliver_one now source task json) ([], s) (matching_subscribers s role target) = (stale, s1)"
    by fastforce
  have "bounded t (if task = t then length (matching_subscribers s role target) else 0) s s1"
    using bounded_deliver_all [OF subscribers_in_range [OF True, of role target], where stale = "[]"] f by (metis snd_conv)
  from bounded_trans [OF this bounded_drop_stale [where n = 0]] show ?thesis by (simp add: deliver_inbound_task_def f)
qed (simp add: bounded_def)

lemma bounded_add_subscription:
  assumes "k < length (hi_conns s)"
  shows "bounded t 0 s (add_subscription role k guest tools s)"
proof -
  let ?ib = "tbl_put role (if list_ex (\<lambda>sub. sub_conn sub = k) (role_subscribers s role) then role_subscribers s role
    else role_subscribers s role @ [\<lparr>sub_conn = k, sub_guest = guest, supported_tools = tools\<rparr>]) (hi_inboxes s)"
  let ?c = "if role \<in> set (subscribed_roles (hi_conns s ! k)) then hi_conns s ! k
    else (hi_conns s ! k)\<lparr>subscribed_roles := subscribed_roles (hi_conns s ! k) @ [role]\<rparr>"
  have "bounded t 0 s (s\<lparr>hi_inboxes := ?ib\<rparr>)"
    by (rule bounded_inboxes) (use assms in \<open>auto dest!: tbl_put_in role_subscribersD split: if_splits\<close>)
  moreover have "bounded t 0 (s\<lparr>hi_inboxes := ?ib\<rparr>) (set_conn k ?c (s\<lparr>hi_inboxes := ?ib\<rparr>))"
    by (rule bounded_set_conn) (use assms in \<open>auto simp: conn_step_def conn_ok_def watch_ok_def conn_copies_def risky_on_eq\<close>)
  ultimately show ?thesis unfolding add_subscription_def Let_def by (rule bounded_trans0)
qed

lemma bounded_remove_subscriptions: "bounded t n s (remove_subscriptions k roles s)"
  unfolding remove_subscriptions_def by (rule bounded_inboxes) (auto split: if_splits)

lemma bounded_flush:
  "k < length (hi_conns s) \<Longrightarrow>
   bounded t (length (filter (\<lambda>p. pk_task_id p = t) ps)) s (foldl (\<lambda>st p. send_frame k (parked_frame p) st) s ps)"
proof (induction ps arbitrary: s)
  case (Cons p ps)
  have one: "bounded t (if pk_task_id p = t then 1 else 0) s (send_frame k (parked_frame p) s)"
    using bounded_send_frame [OF Cons.prems, of t "parked_frame p"] by (simp add: parked_frame_def)
  have "bounded t (length (filter (\<lambda>p. pk_task_id p = t) ps)) (send_frame k (parked_frame p) s)
    (foldl (\<lambda>st p. send_frame k (parked_frame p) st) (send_frame k (parked_frame p) s) ps)"
    by (rule Cons.IH) (use Cons.prems in \<open>simp add: send_frame_def set_conn_def\<close>)
  from bounded_trans [OF one this] show ?case by (auto split: if_splits)
qed simp

lemma split_parked:
  "length (filter (\<lambda>(g, p). pk_task_id p = t) ps) =
   length (filter (\<lambda>(g, p). pk_task_id p = t) (filter (\<lambda>(g, p). g \<noteq> guest) ps))
   + length (filter (\<lambda>p. pk_task_id p = t) (map snd (filter (\<lambda>(g, p). g = guest) ps)))"
  by (induction ps) auto

lemma bounded_register:
  assumes "k < length (hi_conns s)"
  shows "bounded t 0 s (register k guest role tools s)"
proof -
  define s1 where "s1 = add_subscription role k guest tools s"
  define mine where "mine = map snd (filter (\<lambda>(g, p). g = guest) (hi_parked s1))"
  define s2 where "s2 = s1\<lparr>hi_parked := filter (\<lambda>(g, p). g \<noteq> guest) (hi_parked s1),
    hi_activated := hi_activated s1 @ map (\<lambda>x. (x, guest)) (rev (remdups (rev (List.map_filter activate_session_id mine))))\<rparr>"
  let ?n = "length (filter (\<lambda>p. pk_task_id p = t) mine)"
  have s3: "register k guest role tools s = foldl (\<lambda>st p. send_frame k (parked_frame p) st) (send_frame k OtherFrame s2) mine"
    by (simp add: register_def Let_def s1_def mine_def s2_def)
  have len: "k < length (hi_conns s2)" using assms by (simp add: s2_def s1_def add_subscription_def Let_def set_conn_def)
  then have len3: "k < length (hi_conns (send_frame k OtherFrame s2))" by (simp add: send_frame_def set_conn_def)
  have b: "bounded t 0 s s1" unfolding s1_def by (rule bounded_add_subscription [OF assms])
  have split: "parked_copies t s1 = parked_copies t s2 + ?n"
    unfolding parked_copies_def mine_def by (simp add: s2_def split_parked [of t "hi_parked s1" guest] del: filter_filter length_map filter_map)
  have "bounded t ?n s2 (register k guest role tools s)"
    unfolding s3 using bounded_send_frame [OF len, of t OtherFrame] bounded_flush [OF len3, of t mine]
    by (auto intro: bounded_trans0)
  moreover have "inbox_ok s2 = inbox_ok s1" "length (hi_conns s2) = length (hi_conns s1)" by (simp_all add: s2_def inbox_ok_def)
  moreover have "live_copies t s1 = live_copies t s2 + ?n" using split by (simp add: live_copies_def s2_def)
  ultimately have "bounded t 0 s1 (register k guest role tools s)" by (simp add: bounded_def)
  with b show ?thesis by (rule bounded_trans0)
qed

lemma live_drop_watcher:
  assumes "i < length (hi_watchers s)" "w = hi_watchers s ! i"
  shows "live_copies t (s\<lparr>hi_watchers := take i (hi_watchers s) @ drop (Suc i) (hi_watchers s)\<rparr>)
    + (if w_task w = t \<and> w_conn w < length (hi_conns s) \<and> risky_on (hi_conns s ! w_conn w) w then 1 else 0) = live_copies t s"
proof -
  let ?ws = "hi_watchers s" and ?ws' = "take i (hi_watchers s) @ drop (Suc i) (hi_watchers s)" and ?cs = "hi_conns s"
  have ws: "?ws = take i ?ws @ w # drop (Suc i) ?ws" using assms by (simp add: id_take_nth_drop)
  have "conn_copies t ?ws k (?cs ! k) = conn_copies t ?ws' k (?cs ! k)
      + (if k = w_conn w then if w_task w = t \<and> risky_on (?cs ! w_conn w) w then 1 else 0 else 0)" for k
    by (subst ws) (simp add: conn_copies_def watching_def)
  then have "(\<Sum>k<length ?cs. conn_copies t ?ws k (?cs ! k)) = (\<Sum>k<length ?cs. conn_copies t ?ws' k (?cs ! k))
      + (\<Sum>k<length ?cs. if k = w_conn w then if w_task w = t \<and> risky_on (?cs ! w_conn w) w then 1 else 0 else 0)"
    by (simp add: sum.distrib)
  then show ?thesis by (simp add: live_copies_def parked_copies_def sum.delta)
qed

lemma inbox_ok_drop_watcher:
  assumes "inbox_ok s"
  shows "inbox_ok (s\<lparr>hi_watchers := take i (hi_watchers s) @ drop (Suc i) (hi_watchers s)\<rparr>)"
proof -
  let ?f = "\<lambda>w. (w_conn w, w_frame w)"
  have "distinct (map ?f (take i (hi_watchers s)) @ map ?f (drop (Suc i) (hi_watchers s)))"
    using assms set_take_disj_set_drop_if_distinct [of "map ?f (hi_watchers s)" i "Suc i"]
    by (simp add: inbox_ok_def flip: take_map drop_map)
  moreover have "set (take i (hi_watchers s) @ drop (Suc i) (hi_watchers s)) \<subseteq> set (hi_watchers s)"
    by (auto dest: in_set_takeD in_set_dropD)
  ultimately show ?thesis
    using assms by (auto simp: inbox_ok_def list_all_iff)
qed

lemma live_keep_watcher:
  assumes "i < length (hi_watchers s)" "w_conn w = w_conn (hi_watchers s ! i)" "w_task w = w_task (hi_watchers s ! i)"
    and "w_frame w = w_frame (hi_watchers s ! i)"
  shows "live_copies t (s\<lparr>hi_watchers := (hi_watchers s)[i := w]\<rparr>)
      \<le> live_copies t s + (if w_task w = t \<and> late w \<and> \<not> late (hi_watchers s ! i) then 1 else 0)"
    and "inbox_ok s \<Longrightarrow> inbox_ok (s\<lparr>hi_watchers := (hi_watchers s)[i := w]\<rparr>)"
proof -
  let ?ws = "hi_watchers s" and ?cs = "hi_conns s"
  let ?d = "if w_task w = t \<and> late w \<and> \<not> late (hi_watchers s ! i) then 1 else (0 :: nat)"
  have ws: "?ws = take i ?ws @ (?ws ! i) # drop (Suc i) ?ws" "?ws[i := w] = take i ?ws @ w # drop (Suc i) ?ws"
    using assms(1) by (simp_all add: id_take_nth_drop upd_conv_take_nth_drop)
  have "length (filter (risky_on c) (watching t k (?ws[i := w])))
      \<le> length (filter (risky_on c) (watching t k ?ws)) + (if k = w_conn w then ?d else 0)" for c k
    unfolding ws(2) by (subst (3) ws(1)) (use assms in \<open>simp add: watching_def risky_on_def lost_on_def\<close>)
  then have "(\<Sum>k<length ?cs. conn_copies t (?ws[i := w]) k (?cs ! k))
      \<le> (\<Sum>k<length ?cs. conn_copies t ?ws k (?cs ! k) + (if k = w_conn w then ?d else 0))"
    by (intro sum_mono) (simp add: conn_copies_def add.assoc)
  also have "\<dots> \<le> (\<Sum>k<length ?cs. conn_copies t ?ws k (?cs ! k)) + ?d"
    by (simp add: sum.distrib sum.delta)
  finally show "live_copies t (s\<lparr>hi_watchers := ?ws[i := w]\<rparr>) \<le> live_copies t s + ?d"
    by (simp add: live_copies_def parked_copies_def)
  assume ok: "inbox_ok s"
  have "map (\<lambda>w. (w_conn w, w_frame w)) (?ws[i := w]) = map (\<lambda>w. (w_conn w, w_frame w)) ?ws"
    by (rule nth_equalityI) (use assms in \<open>auto simp: nth_list_update\<close>)
  moreover have "list_all (\<lambda>w. w_conn w < length (hi_conns s) \<and> watch_ok (hi_conns s ! w_conn w) w) (?ws[i := w])"
    using ok assms unfolding inbox_ok_def list_all_length by (auto simp: nth_list_update watch_ok_def)
  ultimately show "inbox_ok (s\<lparr>hi_watchers := ?ws[i := w]\<rparr>)" using ok by (simp add: inbox_ok_def)
qed

text \<open>Reading the counter adds a copy only when the read is late.\<close>

lemma bounded_read:
  assumes "i < length (hi_watchers s)"
  shows "bounded t (late_read t s (ReadNumber now uncounted i)) s (read_number now uncounted i s)"
proof (cases "w_number (hi_watchers s ! i)")
  case None
  define w where "w = (hi_watchers s ! i)\<lparr>w_number := Some (enqueued (hi_conns s ! w_conn (hi_watchers s ! i)) - uncounted),
    w_deadline := now + DELIVERY_WRITE_CONFIRM_TIMEOUT\<rparr>"
  have r: "read_number now uncounted i s = s\<lparr>hi_watchers := (hi_watchers s)[i := w]\<rparr>"
    using None by (simp add: read_number_def w_def Let_def)
  have l: "late w \<longleftrightarrow> w_frame (hi_watchers s ! i) < enqueued (hi_conns s ! w_conn (hi_watchers s ! i)) - uncounted"
      "\<not> late (hi_watchers s ! i)" "w_task w = w_task (hi_watchers s ! i)"
    using None by (simp_all add: late_def w_def)
  have "live_copies t (s\<lparr>hi_watchers := (hi_watchers s)[i := w]\<rparr>)
      \<le> live_copies t s + (if w_task w = t \<and> late w \<and> \<not> late (hi_watchers s ! i) then 1 else 0)"
    "inbox_ok s \<Longrightarrow> inbox_ok (s\<lparr>hi_watchers := (hi_watchers s)[i := w]\<rparr>)"
    using live_keep_watcher(1) [OF assms, of w t] live_keep_watcher(2) [OF assms, of w] by (simp_all add: w_def)
  then show ?thesis using None assms l by (simp add: bounded_def r)
next
  case (Some n)
  then show ?thesis by (simp add: read_number_def)
qed

lemma watch_poll_cases:
  "watch_poll now w s = (None, s) \<or> watch_poll now w s = (Some w, s)
   \<or> (\<exists>cap. watch_poll now w s = (Some (w\<lparr>w_cap := cap\<rparr>),
        push_heal (cs_heal (hi_conns s ! w_conn w)) (w_guest w) ''high'' ''delivery_write_unconfirmed'' s))
   \<or> (risky_on (hi_conns s ! w_conn w) w
      \<and> watch_poll now w s = (None, snd (repark_lost_task (w_guest w) (w_source w) (w_task w) (w_json w) s)))"
  unfolding watch_poll_def Let_def risky_on_def late_def lost_on_def by (cases "w_cap w"; cases "w_number w") auto

lemma bounded_poll:
  assumes "i < length (hi_watchers s)"
  shows "bounded t 0 s (poll_watcher now i s)"
proof (cases "inbox_ok s")
  case True
  let ?w = "hi_watchers s ! i"
  let ?c = "hi_conns s ! w_conn ?w"
  let ?drop = "\<lambda>s. s\<lparr>hi_watchers := take i (hi_watchers s) @ drop (Suc i) (hi_watchers s)\<rparr>"
  have range: "w_conn ?w < length (hi_conns s)" using True assms by (simp add: inbox_ok_def list_all_length)
  consider (gone) "watch_poll now ?w s = (None, s)" | (stay) "watch_poll now ?w s = (Some ?w, s)"
    | (late) cap where "watch_poll now ?w s = (Some (?w\<lparr>w_cap := cap\<rparr>),
        push_heal (cs_heal ?c) (w_guest ?w) ''high'' ''delivery_write_unconfirmed'' s)"
    | (lost) "risky_on ?c ?w"
        "watch_poll now ?w s = (None, snd (repark_lost_task (w_guest ?w) (w_source ?w) (w_task ?w) (w_json ?w) s))"
    using watch_poll_cases [of now ?w s] by blast
  then show ?thesis
  proof cases
    case gone
    then show ?thesis
      using live_drop_watcher [OF assms refl, of t] inbox_ok_drop_watcher [OF True, of i]
      by (simp add: poll_watcher_def bounded_def)
  next
    case stay
    then show ?thesis by (simp add: poll_watcher_def)
  next
    case (late cap)
    define s1 where "s1 = push_heal (cs_heal ?c) (w_guest ?w) ''high'' ''delivery_write_unconfirmed'' s"
    have ws: "hi_watchers s1 = hi_watchers s" by (simp add: s1_def push_heal_def)
    have l: "Delivery.late (?w\<lparr>w_cap := cap\<rparr>) = Delivery.late ?w" by (simp add: late_def split: option.split)
    have "live_copies t (s1\<lparr>hi_watchers := (hi_watchers s1)[i := ?w\<lparr>w_cap := cap\<rparr>]\<rparr>) \<le> live_copies t s1"
      "inbox_ok s1 \<Longrightarrow> inbox_ok (s1\<lparr>hi_watchers := (hi_watchers s1)[i := ?w\<lparr>w_cap := cap\<rparr>]\<rparr>)"
      using live_keep_watcher(1) [of i s1 "?w\<lparr>w_cap := cap\<rparr>" t] live_keep_watcher(2) [of i s1 "?w\<lparr>w_cap := cap\<rparr>"] assms ws l
      by simp_all
    then have "bounded t 0 s1 (s1\<lparr>hi_watchers := (hi_watchers s1)[i := ?w\<lparr>w_cap := cap\<rparr>]\<rparr>)" by (simp add: bounded_def)
    moreover have "bounded t 0 s s1" by (simp add: s1_def)
    ultimately have "bounded t 0 s (s1\<lparr>hi_watchers := (hi_watchers s1)[i := ?w\<lparr>w_cap := cap\<rparr>]\<rparr>)" by (blast intro: bounded_trans0)
    then show ?thesis by (simp add: poll_watcher_def late s1_def)
  next
    case lost
    let ?s1 = "snd (repark_lost_task (w_guest ?w) (w_source ?w) (w_task ?w) (w_json ?w) s)"
    have ws: "hi_watchers ?s1 = hi_watchers s" "hi_conns ?s1 = hi_conns s"
      by (simp_all add: repark_lost_task_def park_task_def)
    have "bounded t (if w_task ?w = t then 1 else 0) s ?s1" by (rule bounded_repark)
    moreover have "live_copies t (?drop ?s1) + (if w_task ?w = t then 1 else 0) = live_copies t ?s1"
      using live_drop_watcher [of i ?s1 ?w t] assms ws range lost(1) by simp
    ultimately show ?thesis
      using lost(2) True inbox_ok_drop_watcher [of ?s1 i] by (auto simp: poll_watcher_def bounded_def split: if_splits)
  qed
qed (simp add: bounded_def)

lemma bounded_park_materialize:
  "bounded t (if task = t then 1 else 0) s (park_and_materialize env source task json target s)"
proof -
  let ?p = "\<lparr>pk_source_node = source, pk_task_id = task, pk_task_json = json, activate_session_id = None\<rparr>"
  have req: "bounded t 0 s' (s'\<lparr>hi_requests := r\<rparr>)" for s' r by (rule bounded_same) simp_all
  have "bounded t (if task = t then 1 else 0) s ((park_task g ?p s)\<lparr>hi_requests := r\<rparr>)"
    and "bounded t (if task = t then 1 else 0) s (park_task g ?p s)" for g r
    using bounded_park [where p = ?p and t = t and s = s and g = g] bounded_trans [OF _ req] by fastforce+
  then show ?thesis by (auto simp: park_and_materialize_def Let_def split: ParkTarget.split option.split prod.split)
qed

lemma matching_cong: "hi_inboxes s' = hi_inboxes s \<Longrightarrow> matching_subscribers s' role target = matching_subscribers s role target"
  by (simp add: matching_subscribers_def role_subscribers_def split: option.split)

lemma bounded_mesh:
  "bounded t (handed t s (MeshEvent env now ev)) s (snd (deliver_event_envelope_or_park env now ev s))"
proof (cases "target_agent_id ev")
  case (Some role)
  show ?thesis
  proof (cases "payload ev")
    case (Inline data)
    obtain fresh claims where cl: "claim (event_id ev) (hi_claims s) = (fresh, claims)" by fastforce
    then have fr: "fresh \<longleftrightarrow> event_id ev \<notin> claimed (hi_claims s)" by (auto simp: claim_def split: if_splits)
    let ?s1 = "s\<lparr>hi_claims := claims\<rparr>" and ?target = "pe_target_guest env data"
    let ?n = "if event_id ev = t then max 1 (length (matching_subscribers s role ?target)) else 0"
    have "bounded t ?n ?s1 (deliver_or_park_claimed env now ev role data ?s1)"
    proof -
      let ?s2 = "activate_incarnation env ?target data ?s1"
      have act: "bounded t 0 ?s1 ?s2" "matching_subscribers ?s2 role ?target = matching_subscribers s role ?target"
        by (auto simp: activate_incarnation_def intro!: bounded_same matching_cong split: option.split)
      have up: "bounded t n a b \<Longrightarrow> n \<le> k \<Longrightarrow> bounded t k a b" for n k a b by (auto simp: bounded_def)
      have "bounded t ?n ?s1 (deliver_inbound_task now (source_node_id ev) role ?target (event_id ev) data ?s2)"
        by (rule up [OF bounded_trans0 [OF act(1) bounded_deliver]]) (simp add: act(2))
      moreover have "bounded t ?n ?s1 (park_and_materialize env (source_node_id ev) (event_id ev) data (CrossHotelGuest g) ?s1)" for g
        by (rule up [OF bounded_park_materialize]) simp
      ultimately show ?thesis by (auto simp: deliver_or_park_claimed_def Let_def split: option.split)
    qed
    moreover have "bounded t 0 s ?s1" by (rule bounded_same) simp_all
    ultimately have "bounded t ?n s (deliver_or_park_claimed env now ev role data ?s1)" "bounded t 0 s ?s1"
      by (auto intro: bounded_trans0)
    then show ?thesis
      using fr by (cases "event_id ev = t") (auto simp: deliver_event_envelope_or_park_def Some Inline cl)
  qed (simp add: deliver_event_envelope_or_park_def Some)
qed (simp add: deliver_event_envelope_or_park_def)

lemma bounded_step:
  assumes "inbox_ok s"
  shows "inbox_ok (delivery_step s e) \<and> live_copies t (delivery_step s e) \<le> live_copies t s + handed t s e + late_read t s e"
proof -
  have goal: "bounded t n s s' \<Longrightarrow> inbox_ok s' \<and> live_copies t s' \<le> live_copies t s + n" for n s'
    using assms by (simp add: bounded_def)
  show ?thesis
  proof (cases e)
    case (Connect heal)
    have "(\<Sum>i<length (hi_conns s). conn_copies t (hi_watchers s) i ((hi_conns s @ [counted_new heal]) ! i))
        = (\<Sum>i<length (hi_conns s). conn_copies t (hi_watchers s) i (hi_conns s ! i))"
      by (intro sum.cong) (auto simp: nth_append)
    moreover have "watching t (length (hi_conns s)) (hi_watchers s) = []"
      using assms by (auto simp: watching_def inbox_ok_def list_all_iff filter_empty_conv)
    ultimately show ?thesis
      using assms Connect
      by (auto simp: inbox_ok_def live_copies_def parked_copies_def list_all_iff conn_ok_def counted_new_def nth_append
          conn_copies_def risky_on_eq less_SucI)
  next
    case (WriteTurn i r)
    have "bounded t 0 s (set_conn i (write_next r (hi_conns s ! i)) s)" if "i < length (hi_conns s)"
      by (rule bounded_set_conn) (use that assms in \<open>auto intro: conn_step_write copies_write\<close>)
    then show ?thesis using goal [of 0] assms WriteTurn by simp
  next
    case (DeliverTask now source role target task json)
    then show ?thesis using goal [OF bounded_deliver] by simp
  next
    case (ParkFor guest p)
    then show ?thesis using goal [OF bounded_park] by simp
  next
    case (MeshEvent env now ev)
    show ?thesis
      using goal [OF bounded_mesh [of t s env now ev]] unfolding MeshEvent delivery_step.simps late_read.simps by simp
  next
    case (ReadNumber now uncounted i)
    show ?thesis
      using goal [OF bounded_read [of i s t now uncounted]] assms unfolding ReadNumber
      by (cases "i < length (hi_watchers s)") (simp_all del: late_read.simps)
  next
    case (RegisterGuest i guest role tools)
    then show ?thesis using goal [OF bounded_register] assms by simp
  next
    case (OtherResponse i)
    then show ?thesis using goal [OF bounded_send_frame [of i s t OtherFrame]] assms by simp
  next
    case (Disconnect i)
    then show ?thesis using goal [OF bounded_remove_subscriptions [where n = 0]] assms by simp
  next
    case (PollWatcher now i)
    then show ?thesis using goal [OF bounded_poll] assms by simp
  qed
qed

lemma bounded_run:
  "inbox_ok s \<Longrightarrow> inbox_ok (foldl delivery_step s es) \<and> live_copies t (foldl delivery_step s es) \<le> live_copies t s + total_handed t s es + total_late t s es"
proof (induction es arbitrary: s)
  case (Cons e es)
  from bounded_step [OF Cons.prems, of e t] Cons.IH [of "delivery_step s e"] show ?case by auto
qed simp

lemma inbox_ok_new: "inbox_ok inbox_new" and live_new: "live_copies t inbox_new = 0"
  by (simp_all add: inbox_ok_def inbox_new_def live_copies_def parked_copies_def)

subsection \<open>A lost task comes back\<close>

lemma write_all:
  "k < length (hi_conns s) \<Longrightarrow> n = length (cs_queue (hi_conns s ! k)) \<Longrightarrow>
   flushed (hi_conns (foldl delivery_step s (replicate n (WriteTurn k Written))) ! k)
     = flushed (hi_conns s ! k) @ cs_queue (hi_conns s ! k)"
proof (induction n arbitrary: s)
  case (Suc n)
  then obtain f q where q: "cs_queue (hi_conns s ! k) = f # q" by (metis length_Suc_conv)
  with Suc.prems have "length q = n" by simp
  with Suc.IH [of "delivery_step s (WriteTurn k Written)"] Suc.prems q show ?case
    by (simp add: set_conn_def write_next_def)
qed simp

lemma flush_queue:
  "k < length (hi_conns s) \<Longrightarrow> cs_open (hi_conns s ! k) \<Longrightarrow>
   cs_queue (hi_conns (foldl (\<lambda>st p. send_frame k (parked_frame p) st) s ps) ! k)
     = cs_queue (hi_conns s ! k) @ map parked_frame ps"
proof (induction ps arbitrary: s)
  case (Cons p ps)
  have "cs_queue (hi_conns (foldl (\<lambda>st p. send_frame k (parked_frame p) st) (send_frame k (parked_frame p) s) ps) ! k)
    = cs_queue (hi_conns (send_frame k (parked_frame p) s) ! k) @ map parked_frame ps"
    by (rule Cons.IH) (use Cons.prems in \<open>simp_all add: send_frame_def set_conn_def cs_send_def\<close>)
  with Cons.prems show ?case by (simp add: send_frame_def set_conn_def cs_send_def)
qed simp

lemma register_queue:
  assumes "k < length (hi_conns s)" "cs_open (hi_conns s ! k)"
  shows "cs_queue (hi_conns (register k guest role tools s) ! k) = cs_queue (hi_conns s ! k) @ OtherFrame
    # map parked_frame (map snd (filter (\<lambda>(g, p). g = guest) (hi_parked s)))"
    and "k < length (hi_conns (register k guest role tools s))"
proof -
  have len: "length (hi_conns (foldl (\<lambda>st p. send_frame k (parked_frame p) st) s' ps)) = length (hi_conns s')" for s' ps
    by (induction ps arbitrary: s') (simp_all add: send_frame_def set_conn_def)
  show "k < length (hi_conns (register k guest role tools s))"
    using assms by (simp add: register_def Let_def len) (simp add: send_frame_def set_conn_def add_subscription_def Let_def)
  show "cs_queue (hi_conns (register k guest role tools s) ! k) = cs_queue (hi_conns s ! k) @ OtherFrame
    # map parked_frame (map snd (filter (\<lambda>(g, p). g = guest) (hi_parked s)))"
    unfolding register_def Let_def
    by (subst flush_queue)
      (use assms in \<open>simp_all add: send_frame_def set_conn_def cs_send_def add_subscription_def Let_def\<close>)
qed

lemma repark_parks:
  assumes "g \<noteq> []"
  shows "\<exists>p. (g, p) \<in> set (hi_parked (snd (repark_lost_task g source task json s))) \<and> pk_task_id p = task"
  using assms by (auto simp: repark_lost_task_def park_task_def list_ex_iff)

subsection \<open>Theorems\<close>


text \<open>C34. A task lost with its connection reaches the guest's next one. Once a watcher has read its number and its
  confirmation window of ten seconds has passed, a watched task whose channel closed before that number was drained is
  parked by the watcher's next poll. When the guest registers again after that poll, on an open connection, the task is
  written there after finitely many turns of that connection's write task, provided all of these writes succeed. (A
  registration before the poll, and a connection that fails again while it works off the flushed tasks, are not covered:
  see \<open>flushed_tasks_unwatched\<close>.)\<close>

theorem lost_task_redelivered:
  assumes "i < length (hi_watchers s)" "w = hi_watchers s ! i" "w_number w = Some n" "w_cap w \<noteq> None" "w_guest w \<noteq> []"
    and "\<not> cs_open (hi_conns s ! w_conn w)" "drained (hi_conns s ! w_conn w) < n"
    and "k < length (hi_conns s)" "cs_open (hi_conns s ! k)"
  shows "\<exists>n source json.
    InboundTask source (w_task w) json \<in>
      set (flushed (hi_conns (foldl delivery_step s
        ([PollWatcher now i, RegisterGuest k (w_guest w) role tools] @ replicate n (WriteTurn k Written))) ! k))"
proof -
  let ?s1 = "delivery_step s (PollWatcher now i)"
  let ?s2 = "delivery_step ?s1 (RegisterGuest k (w_guest w) role tools)"
  let ?n = "length (cs_queue (hi_conns ?s2 ! k))"
  have poll: "?s1 = (snd (repark_lost_task (w_guest w) (w_source w) (w_task w) (w_json w) s))
      \<lparr>hi_watchers := take i (hi_watchers s) @ drop (Suc i) (hi_watchers s)\<rparr>"
    using assms by (auto simp: poll_watcher_def watch_poll_def repark_lost_task_def park_task_def)
  then have conns: "hi_conns ?s1 = hi_conns s" by (simp add: repark_lost_task_def park_task_def)
  from repark_parks [OF assms(5), of "w_source w" "w_task w" "w_json w" s]
  obtain p where p: "(w_guest w, p) \<in> set (hi_parked ?s1)" "pk_task_id p = w_task w" unfolding poll by auto
  have s2: "?s2 = register k (w_guest w) role tools ?s1" using assms(8) conns by simp
  have reg: "cs_queue (hi_conns ?s2 ! k) = cs_queue (hi_conns ?s1 ! k) @ OtherFrame
      # map parked_frame (map snd (filter (\<lambda>(g, p). g = w_guest w) (hi_parked ?s1)))" "k < length (hi_conns ?s2)"
    unfolding s2 using register_queue [of k ?s1 "w_guest w" role tools] assms(8,9) conns by simp_all
  have "p \<in> set (map snd (filter (\<lambda>(g, p). g = w_guest w) (hi_parked ?s1)))" using p(1) by force
  then have "parked_frame p \<in> set (cs_queue (hi_conns ?s2 ! k))" unfolding reg(1) by auto
  then have "InboundTask (pk_source_node p) (w_task w) (pk_task_json p) \<in>
      set (flushed (hi_conns (foldl delivery_step ?s2 (replicate ?n (WriteTurn k Written))) ! k))"
    using write_all [OF reg(2) refl] p(2) by (simp add: parked_frame_def)
  then show ?thesis by (auto simp del: delivery_step.simps)
qed

subsection \<open>Where the protection ends\<close>

definition demo_stale_conn :: "delivery_event list" where
  "demo_stale_conn = [Connect True, RegisterGuest 0 ''g'' ''agent'' [], WriteTurn 0 WriteFailed,
     Connect True, RegisterGuest 1 ''g'' ''agent'' [], DeliverTask 5 ''n'' ''agent'' (Some ''g'') 7 ''x'',
     WriteTurn 1 Written, WriteTurn 1 Written, Connect True, RegisterGuest 2 ''g'' ''agent'' [],
     WriteTurn 2 Written, WriteTurn 2 Written]"

text \<open>A guest that has reconnected while the inbox still lists its dead connection is addressed twice: the copy for the
  dead one is parked and reaches the guest again at its next registration.\<close>

lemma stale_connection_duplicates:
  "map (\<lambda>c. copies 7 (flushed c)) (hi_conns (foldl delivery_step inbox_new demo_stale_conn)) = [0, 1, 1]"
  by code_simp

definition demo_registered :: hotel_inbox where
  "demo_registered = foldl delivery_step inbox_new [Connect True, RegisterGuest 0 ''g'' ''agent'' [], WriteTurn 0 Written]"

lemmas delivery_eval = Let_def set_conn_def send_frame_def cs_send_def role_subscribers_def matching_subscribers_def
  deliver_inbound_task_def deliver_one_def wedge_gauge_def push_heal_def drop_stale_def write_next_def read_number_def backlog_def
  tbl_get_def register_def add_subscription_def counted_new_def poll_watcher_def watch_poll_def repark_lost_task_def park_task_def
  SUBSCRIBER_BACKLOG_WEDGE_THRESHOLD_def DELIVERY_WRITE_CONFIRM_TIMEOUT_def DELIVERY_LOST_WATCH_CAP_def map_filter_simps
  parked_frame_def

lemma demo_registered_eq:
  "demo_registered = inbox_new\<lparr>
     hi_conns := [(counted_new True)\<lparr>enqueued := 1, drained := 1, subscribed_roles := [''agent''], flushed := [OtherFrame]\<rparr>],
     hi_inboxes := [(''agent'', [\<lparr>sub_conn = 0, sub_guest = ''g'', supported_tools = []\<rparr>])]\<rparr>"
  by (simp add: demo_registered_def inbox_new_def delivery_eval)

definition demo_raced :: "delivery_event list" where
  "demo_raced = [DeliverTask 5 ''n'' ''agent'' (Some ''g'') 7 ''x'', OtherResponse 0, ReadNumber 6 0 0, WriteTurn 0 Written,
     WriteTurn 0 WriteFailed, PollWatcher 20000 0, PollWatcher 20250 0, Connect True, RegisterGuest 1 ''g'' ''agent'' [],
     WriteTurn 1 Written, WriteTurn 1 Written]"

text \<open>The last term is needed: when another send comes between a delivery's send and its read, the watcher waits for the later
  frame; if that frame is lost, a task that was handed out once and received is parked and received again.\<close>

lemma late_number_duplicates:
  "received 7 (foldl delivery_step demo_registered demo_raced) = 2"
  "total_handed 7 demo_registered demo_raced = 1" "total_late 7 demo_registered demo_raced = 1"
  unfolding demo_registered_eq by (simp_all add: demo_raced_def inbox_new_def received_def delivery_eval)

definition demo_flush :: "delivery_event list" where
  "demo_flush = [ParkFor ''g'' \<lparr>pk_source_node = ''n'', pk_task_id = 7, pk_task_json = ''x'', activate_session_id = None\<rparr>,
     Connect True, RegisterGuest 0 ''g'' ''agent'' [], WriteTurn 0 Written, WriteTurn 0 WriteFailed]"

text \<open>Tasks flushed at registration have no watcher: when that connection fails before they are drained, they are gone.\<close>

lemma flushed_tasks_unwatched:
  "received 7 (foldl delivery_step inbox_new demo_flush) = 0
   \<and> hi_parked (foldl delivery_step inbox_new demo_flush) = []
   \<and> hi_watchers (foldl delivery_step inbox_new demo_flush) = []"
  by code_simp

definition demo_lost :: hotel_inbox where
  "demo_lost = foldl delivery_step demo_registered [DeliverTask 5 ''n'' ''agent'' (Some ''g'') 7 ''x'', ReadNumber 6 0 0,
     WriteTurn 0 WriteFailed, PollWatcher 20000 0, Connect True]"

theorem lost_task_redelivered_witness:
  "\<exists>n source json. InboundTask source 7 json \<in>
      set (flushed (hi_conns (foldl delivery_step demo_lost
        ([PollWatcher 20250 0, RegisterGuest 1 ''g'' ''agent'' []] @ replicate n (WriteTurn 1 Written))) ! 1))"
proof -
  have "length (hi_watchers demo_lost) = 1 \<and> w_cap (hi_watchers demo_lost ! 0) = Some 620000
    \<and> w_guest (hi_watchers demo_lost ! 0) = ''g'' \<and> w_task (hi_watchers demo_lost ! 0) = 7
    \<and> w_number (hi_watchers demo_lost ! 0) = Some 2
    \<and> \<not> cs_open (hi_conns demo_lost ! w_conn (hi_watchers demo_lost ! 0))
    \<and> drained (hi_conns demo_lost ! w_conn (hi_watchers demo_lost ! 0)) < 2
    \<and> length (hi_conns demo_lost) = 2 \<and> cs_open (hi_conns demo_lost ! 1)"
    unfolding demo_lost_def demo_registered_eq by (simp add: inbox_new_def delivery_eval)
  then show ?thesis
    using lost_task_redelivered [of 0 demo_lost "hi_watchers demo_lost ! 0" 2 1 20250 "''agent''" "[]"] by simp
qed

end
