(* ===== verification/Cron.thy ===== *)
theory Cron
  imports Delivery Histories
begin

section \<open>Cron jobs\<close>

text \<open>
  Models \<^verbatim>\<open>crates/ansible-mesh-core/src/cron.rs\<close>, the ticker (\<^verbatim>\<open>crates/aiua/src/service/cron_ticker.rs\<close>) with the
  jobs it runs in process (\<^verbatim>\<open>memory_hygiene.rs\<close>, \<^verbatim>\<open>dream.rs\<close>, \<^verbatim>\<open>autonomy_sweep.rs\<close>, \<^verbatim>\<open>architect_charter.rs\<close>), the handlers of
  peers' broadcasts (\<^verbatim>\<open>main.rs\<close>) and the cron requests of \<^verbatim>\<open>ipc.rs\<close>. The third-party cron parser is the parameter
  \<open>cl_next\<close> (the next occurrence after a time, if there is one), JSON text and dates are parameters
  too; broadcasts between hotels are kept as their decoded values. A storage write or a send to the ledger may
  fail, which is an argument.
\<close>

subsection \<open>Jobs\<close>

datatype CronJobSource = Operator | Guest string

datatype CronSessionTarget = Main | Isolated

record CronJob =
  cj_id :: string
  cj_schedule :: string
  cj_target_role :: string
  cj_target_node_id :: "string option"
  cj_payload :: string
  guaranteed :: bool
  cj_enabled :: bool
  last_fired_epoch :: "nat option"
  next_fire_at :: nat
  cj_created_at :: nat
  created_by :: CronJobSource
  silent_ok :: bool
  session_target :: CronSessionTarget

record cron_lib =
  cl_next :: "string \<Rightarrow> nat \<Rightarrow> nat option"
  cl_iso :: "nat \<Rightarrow> string"
  cl_parse :: "string \<Rightarrow> json option"
  cl_print :: "json \<Rightarrow> string"
  cl_role :: "string \<Rightarrow> string \<Rightarrow> string option"

definition cron_session_id :: "string \<Rightarrow> string" where
  "cron_session_id job_id = ''cron:'' @ job_id"

subsection \<open>Silent replies\<close>

definition SILENT_TOKENS :: "string list" where
  "SILENT_TOKENS = [''[SILENT]'', ''SILENT'', ''[NO_REPLY]'', ''NO_REPLY'']"

definition is_silent_token :: "string \<Rightarrow> bool" where
  "is_silent_token line = list_ex (eq_ignore_ascii_case (trim line)) SILENT_TOKENS"

text \<open>\<open>str::lines\<close>: split at line feeds, without a last empty line, each without a trailing carriage return.\<close>

definition strip_cr :: "string \<Rightarrow> string" where
  "strip_cr l = (if l \<noteq> [] \<and> last l = CHR 0x0D then butlast l else l)"

definition lines_of :: "string \<Rightarrow> string list" where
  "lines_of s =
     (let parts = split_on CHR 0x0A s
      in map strip_cr (if last parts = [] then butlast parts else parts))"

definition is_silent_cron_reply :: "string \<Rightarrow> bool" where
  "is_silent_cron_reply reply =
     (let trimmed = trim reply; nonempty = (\<lambda>l. trim l \<noteq> []) in
      if trimmed = [] then False
      else if is_silent_token trimmed then True
      else if (case find nonempty (lines_of trimmed) of Some l \<Rightarrow> is_silent_token l | None \<Rightarrow> False) then True
      else (case find nonempty (rev (lines_of trimmed)) of Some l \<Rightarrow> is_silent_token l | None \<Rightarrow> False))"

subsection \<open>Payloads\<close>

function replace_all :: "string \<Rightarrow> string \<Rightarrow> string \<Rightarrow> string" where
  "replace_all pat rep s =
     (case s of
        [] \<Rightarrow> []
      | c # s' \<Rightarrow>
          (case strip_prefix pat s of
             Some rest \<Rightarrow> if length rest < length s then rep @ replace_all pat rep rest else s
           | None \<Rightarrow> c # replace_all pat rep s'))"
  by pat_completeness auto

termination by (relation "measure (\<lambda>(pat, rep, s). length s)") auto

declare replace_all.simps [simp del]

definition interpolate_payload :: "cron_lib \<Rightarrow> string \<Rightarrow> nat \<Rightarrow> string \<Rightarrow> string \<Rightarrow> string \<Rightarrow> string" where
  "interpolate_payload lib pl ts job_id node_id target_role =
     replace_all ''{target_role}'' target_role
       (replace_all ''{node_id}'' node_id
         (replace_all ''{job_id}'' job_id
           (replace_all ''{iso_timestamp}'' (cl_iso lib ts)
             (replace_all ''{timestamp}'' (dec_of_nat ts) pl))))"

fun json_set :: "string \<Rightarrow> json \<Rightarrow> json \<Rightarrow> json" where
  "json_set k v (JObj fs) = JObj (tbl_put k v fs)"
| "json_set k v j = j"

definition json_object :: "(string \<times> json) list \<Rightarrow> json" where
  "json_object kvs = JObj (foldl (\<lambda>t (k, v). tbl_put k v t) [] kvs)"

definition apply_cron_session_routing :: "CronJob \<Rightarrow> json \<Rightarrow> json" where
  "apply_cron_session_routing job task =
     (if session_target job = Isolated then json_set ''session_id'' (JStr (cron_session_id (cj_id job))) task else task)"

definition copy_field :: "json \<Rightarrow> string \<Rightarrow> json \<Rightarrow> json" where
  "copy_field src k obj = (case jget src k of Some v \<Rightarrow> json_set k v obj | None \<Rightarrow> obj)"

definition task_content :: "json \<Rightarrow> string option" where
  "task_content pl =
     (case (case jget pl ''message'' of Some v \<Rightarrow> Some v | None \<Rightarrow> jget pl ''content'') of
        Some v \<Rightarrow> (case as_str v of Some s \<Rightarrow> if s \<noteq> [] then Some s else None | None \<Rightarrow> None)
      | None \<Rightarrow> None)"

definition preapproved_tools :: "CronJob \<Rightarrow> json \<Rightarrow> json list" where
  "preapproved_tools job pl =
     (case (created_by job, jget pl ''preapproved_tools'') of
        (Operator, Some (JArr tools)) \<Rightarrow>
          filter (\<lambda>t. case as_str t of Some s \<Rightarrow> trim s \<noteq> [] | None \<Rightarrow> False) tools
      | _ \<Rightarrow> [])"

definition base_task :: "CronJob \<Rightarrow> nat \<Rightarrow> json \<Rightarrow> json" where
  "base_task job epoch pl =
     json_object [(''cron_job_id'', JStr (cj_id job)), (''target_role'', JStr (cj_target_role job)),
                  (''fire_epoch'', JNum epoch), (''payload'', pl)]"

definition message_task :: "CronJob \<Rightarrow> nat \<Rightarrow> string \<Rightarrow> json \<Rightarrow> json" where
  "message_task job epoch data pl =
     (let obj = base_task job epoch (JStr data);
          obj1 = (case task_content pl of Some c \<Rightarrow> json_set ''content'' (JStr c) obj | None \<Rightarrow> obj);
          obj2 = copy_field pl ''session_id'' (copy_field pl ''chat_id'' (copy_field pl ''source'' obj1));
          tools = preapproved_tools job pl
      in if tools \<noteq> [] then json_set ''cron_preapproved_tools'' (JArr tools) obj2 else obj2)"

definition or_insert :: "string \<Rightarrow> json \<Rightarrow> (string \<times> json) list \<Rightarrow> (string \<times> json) list" where
  "or_insert k v fs = (if tbl_get fs k = None then tbl_put k v fs else fs)"

definition signal_task :: "CronJob \<Rightarrow> nat \<Rightarrow> string \<Rightarrow> json \<Rightarrow> json \<Rightarrow> json" where
  "signal_task job epoch node pl seed =
     (let fs = (case seed of JObj fs \<Rightarrow> fs | _ \<Rightarrow> []);
          signal = foldl (\<lambda>t (k, v). or_insert k v t) fs
            [(''signal_id'', JStr (''cron:'' @ cj_id job @ '':'' @ dec_of_nat epoch)), (''signal_type'', JStr ''heartbeat''),
             (''scope'', JStr ''hotel''), (''source_node'', JStr node), (''source_hotel'', JStr node),
             (''target_role_type'', JStr (cj_target_role job)), (''cadence'', JStr (cj_schedule job)),
             (''priority'', JStr ''normal''), (''observed_at'', JNum epoch), (''policy_tags'', JArr []), (''subject_refs'', JArr [])]
      in json_set ''paracrine_signal'' (JObj signal)
           (json_set ''action'' (JStr ''paracrine_signal'')
             (json_set ''source'' (JStr ''cron-ticker'')
               (json_set ''transport'' (JStr ''cron'') (base_task job epoch pl)))))"

text \<open>The task a fire delivers, before it is printed.\<close>

definition build_cron_task :: "cron_lib \<Rightarrow> CronJob \<Rightarrow> nat \<Rightarrow> string \<Rightarrow> string \<Rightarrow> json" where
  "build_cron_task lib job epoch node data =
     apply_cron_session_routing job
       (case cl_parse lib data of
          None \<Rightarrow> base_task job epoch (JStr data)
        | Some pl \<Rightarrow>
            (case jget pl ''paracrine_signal'' of
               None \<Rightarrow> message_task job epoch data pl
             | Some seed \<Rightarrow> signal_task job epoch node pl seed))"

definition build_cron_task_json :: "cron_lib \<Rightarrow> CronJob \<Rightarrow> nat \<Rightarrow> string \<Rightarrow> string \<Rightarrow> string" where
  "build_cron_task_json lib job epoch node data = cl_print lib (build_cron_task lib job epoch node data)"

subsection \<open>The job store\<close>

type_synonym job_table = "(string \<times> CronJob) list"

definition upsert_cron_job :: "CronJob \<Rightarrow> job_table \<Rightarrow> job_table" where
  "upsert_cron_job job t = tbl_put (cj_id job) job t"

definition get_cron_job :: "string \<Rightarrow> job_table \<Rightarrow> CronJob option" where
  "get_cron_job jid t = tbl_get t jid"

definition remove_cron_job :: "string \<Rightarrow> job_table \<Rightarrow> job_table" where
  "remove_cron_job jid t = tbl_del jid t"

definition list_cron_jobs :: "job_table \<Rightarrow> CronJob list" where
  "list_cron_jobs t = map snd t"

definition u64_saturating_add :: "nat \<Rightarrow> nat \<Rightarrow> nat" where
  "u64_saturating_add a b = min (a + b) u64_max"

definition list_due_cron_jobs :: "nat \<Rightarrow> nat \<Rightarrow> job_table \<Rightarrow> CronJob list" where
  "list_due_cron_jobs now offset t =
     filter (\<lambda>j. cj_enabled j \<and> u64_saturating_add (next_fire_at j) offset \<le> now) (list_cron_jobs t)"

definition next_fire_after :: "cron_lib \<Rightarrow> string \<Rightarrow> nat \<Rightarrow> nat option" where
  "next_fire_after lib sched after = cl_next lib sched after"

subsection \<open>The hotel\<close>

text \<open>What is sent to the ledger: a task with the job and epoch it came from, and the decoded broadcasts.\<close>

datatype cron_append =
    TaskAppend string nat EventEnvelope
  | FiredAppend string nat
  | SyncUpsert CronJob
  | SyncRemove string

datatype sweep = HygieneSweep nat | DreamSweep | AutonomySweep nat

record cron_hotel =
  ch_jobs :: job_table
  ch_inbox :: hotel_inbox
  ch_sent :: "cron_append list"
  ch_sweeps :: "sweep list"

record CronTicker =
  ct_node :: string
  offset_ms :: nat
  memory_hygiene :: "bool option"
  dream_sweep :: "(bool \<times> bool) option"
  autonomy_sweep :: "string option"
  architect_charter :: "(string \<times> bool) option"
  ct_park :: park_env

text \<open>What is outside a fire: the fresh task id, whether the sends to the ledger and the job's write succeed.\<close>

record fire_env =
  fe_task_id :: "128 word"
  fe_append_ok :: bool
  fe_broadcast_ok :: bool
  fe_write_ok :: bool

definition append_cron :: "bool \<Rightarrow> cron_append \<Rightarrow> cron_hotel \<Rightarrow> cron_hotel" where
  "append_cron ok m h = (if ok then h\<lparr>ch_sent := ch_sent h @ [m]\<rparr> else h)"

definition broadcast_cron_fired :: "bool \<Rightarrow> CronJob \<Rightarrow> nat \<Rightarrow> cron_hotel \<Rightarrow> cron_hotel" where
  "broadcast_cron_fired ok job epoch h = append_cron ok (FiredAppend (cj_id job) epoch) h"

definition broadcast_cron_sync_upsert :: "bool \<Rightarrow> CronJob \<Rightarrow> cron_hotel \<Rightarrow> cron_hotel" where
  "broadcast_cron_sync_upsert ok job h = append_cron ok (SyncUpsert job) h"

definition broadcast_cron_sync_remove :: "bool \<Rightarrow> string \<Rightarrow> cron_hotel \<Rightarrow> cron_hotel" where
  "broadcast_cron_sync_remove ok jid h = append_cron ok (SyncRemove jid) h"

lemmas broadcast_defs [simp] = broadcast_cron_fired_def broadcast_cron_sync_upsert_def broadcast_cron_sync_remove_def

definition advance_schedule :: "cron_lib \<Rightarrow> bool \<Rightarrow> CronJob \<Rightarrow> nat \<Rightarrow> cron_hotel \<Rightarrow> cron_hotel" where
  "advance_schedule lib ok job epoch h =
     (let nxt = (case next_fire_after lib (cj_schedule job) epoch of Some n \<Rightarrow> n | None \<Rightarrow> u64_max);
          updated = job\<lparr>last_fired_epoch := Some epoch\<rparr>;
          updated1 = (if nxt = u64_max then updated\<lparr>cj_enabled := False\<rparr> else updated\<lparr>next_fire_at := nxt\<rparr>)
      in if ok then h\<lparr>ch_jobs := upsert_cron_job updated1 (ch_jobs h)\<rparr> else h)"

definition HYGIENE_ROLE :: string where "HYGIENE_ROLE = ''internal:memory_hygiene''"

definition DREAM_ROLE :: string where "DREAM_ROLE = ''internal:dream_sweep''"

definition AUTONOMY_ROLE :: string where "AUTONOMY_ROLE = ''internal:autonomy_outcome_sweep''"

definition CHARTER_PREFIX :: string where "CHARTER_PREFIX = ''architect-charter:''"

definition autonomy_job_id :: "string \<Rightarrow> string" where
  "autonomy_job_id hotel = ''autonomy-outcome-sweep:'' @ hotel"

definition charter_job_id :: "string \<Rightarrow> string" where
  "charter_job_id hotel = CHARTER_PREFIX @ hotel"

definition log_sweep :: "bool \<Rightarrow> sweep \<Rightarrow> cron_hotel \<Rightarrow> cron_hotel" where
  "log_sweep runs w h = (if runs then h\<lparr>ch_sweeps := ch_sweeps h @ [w]\<rparr> else h)"

definition fire_memory_hygiene :: "CronTicker \<Rightarrow> nat \<Rightarrow> cron_hotel \<Rightarrow> cron_hotel" where
  "fire_memory_hygiene tk now h =
     (case memory_hygiene tk of
        None \<Rightarrow> h
      | Some enabled \<Rightarrow> if \<not> enabled then h else log_sweep True (HygieneSweep (now div 1000)) h)"

definition fire_dream_sweep :: "CronTicker \<Rightarrow> cron_hotel \<Rightarrow> cron_hotel" where
  "fire_dream_sweep tk h =
     (case dream_sweep tk of
        None \<Rightarrow> h
      | Some (enabled, configured) \<Rightarrow> if \<not> enabled then h else if \<not> configured then h else log_sweep True DreamSweep h)"

definition fire_autonomy_sweep :: "CronTicker \<Rightarrow> CronJob \<Rightarrow> nat \<Rightarrow> cron_hotel \<Rightarrow> cron_hotel" where
  "fire_autonomy_sweep tk job now h =
     (case autonomy_sweep tk of
        None \<Rightarrow> h
      | Some hotel \<Rightarrow> if cj_id job \<noteq> autonomy_job_id hotel then h else log_sweep True (AutonomySweep (now div 1000)) h)"

definition split_once :: "char \<Rightarrow> string \<Rightarrow> (string \<times> string) option" where
  "split_once c s = (if c \<in> set s then Some (takeWhile (\<lambda>x. x \<noteq> c) s, tl (dropWhile (\<lambda>x. x \<noteq> c) s)) else None)"

text \<open>The role incarnation a target names, as (guest, agent, role).\<close>

definition resolve_target_role_record :: "cron_lib \<Rightarrow> string \<Rightarrow> (string \<times> string \<times> string) option" where
  "resolve_target_role_record lib target =
     (case Option.bind (strip_prefix ''role:'' target) (split_once CHR '':'') of
        None \<Rightarrow> None
      | Some (agent, role) \<Rightarrow> map_option (\<lambda>guest. (guest, agent, role)) (cl_role lib agent role))"

definition cron_envelope :: "CronTicker \<Rightarrow> CronJob \<Rightarrow> nat \<Rightarrow> 128 word \<Rightarrow> string \<Rightarrow> EventEnvelope" where
  "cron_envelope tk job now task_id data =
     \<lparr>event_id = task_id, ev_seq = 0, source_node_id = ct_node tk, target_node_id = Some (ct_node tk),
      source_agent_id = ''cron-ticker'', target_agent_id = Some (cj_target_role job), kind = TaskInvoke,
      corr_id = ''cron:'' @ cj_id job, attempt = 0, created_at = now, expires_at = None, payload = Inline data,
      trace = [''cron-ticker:'' @ cj_id job]\<rparr>"

definition deliver_fired ::
  "cron_lib \<Rightarrow> CronTicker \<Rightarrow> nat \<Rightarrow> CronJob \<Rightarrow> 128 word \<Rightarrow> string \<Rightarrow> hotel_inbox \<Rightarrow> hotel_inbox" where
  "deliver_fired lib tk now job task_id data s =
     (let rec = resolve_target_role_record lib (cj_target_role job);
          subs = role_subscribers s (cj_target_role job);
          subscribed = (case rec of Some (guest, _) \<Rightarrow> list_ex (\<lambda>sub. sub_guest sub = guest) subs | None \<Rightarrow> subs \<noteq> [])
      in case (rec, subscribed) of
           (Some (guest, agent, role), False) \<Rightarrow>
             park_and_materialize (ct_park tk) (ct_node tk) task_id data (LocalRoleIncarnation guest agent role) s
         | _ \<Rightarrow> deliver_inbound_task now (ct_node tk) (cj_target_role job) (map_option fst rec) task_id data s)"

definition charter_allowed :: "CronTicker \<Rightarrow> CronJob \<Rightarrow> bool" where
  "charter_allowed tk job =
     (case architect_charter tk of Some (expected, enabled) \<Rightarrow> enabled \<and> cj_id job = expected | None \<Rightarrow> False)"

definition fire_task :: "cron_lib \<Rightarrow> CronTicker \<Rightarrow> fire_env \<Rightarrow> nat \<Rightarrow> CronJob \<Rightarrow> cron_hotel \<Rightarrow> cron_hotel" where
  "fire_task lib tk fe now job h =
     (let epoch = next_fire_at job;
          data = build_cron_task_json lib job epoch (ct_node tk)
                   (interpolate_payload lib (cj_payload job) epoch (cj_id job) (ct_node tk) (cj_target_role job))
      in case claim (fe_task_id fe) (hi_claims (ch_inbox h)) of
           (False, claims) \<Rightarrow> h\<lparr>ch_inbox := (ch_inbox h)\<lparr>hi_claims := claims\<rparr>\<rparr>
         | (True, claims) \<Rightarrow>
             let h1 = h\<lparr>ch_inbox := (ch_inbox h)\<lparr>hi_claims := claims\<rparr>\<rparr> in
             if \<not> fe_append_ok fe then h1
             else
               let h2 = append_cron True (TaskAppend (cj_id job) epoch (cron_envelope tk job now (fe_task_id fe) data)) h1;
                   h3 = h2\<lparr>ch_inbox := deliver_fired lib tk now job (fe_task_id fe) data (ch_inbox h2)\<rparr>;
                   h4 = (if guaranteed job then broadcast_cron_fired (fe_broadcast_ok fe) job epoch h3 else h3)
               in advance_schedule lib (fe_write_ok fe) job epoch h4)"

definition fire :: "cron_lib \<Rightarrow> CronTicker \<Rightarrow> fire_env \<Rightarrow> nat \<Rightarrow> CronJob \<Rightarrow> cron_hotel \<Rightarrow> cron_hotel" where
  "fire lib tk fe now job h =
     (let epoch = next_fire_at job; advance = advance_schedule lib (fe_write_ok fe) job epoch in
      if cj_target_role job = HYGIENE_ROLE then advance (fire_memory_hygiene tk now h)
      else if cj_target_role job = DREAM_ROLE then advance (fire_dream_sweep tk h)
      else if cj_target_role job = AUTONOMY_ROLE then advance (fire_autonomy_sweep tk job now h)
      else if starts_with CHARTER_PREFIX (cj_id job) \<and> \<not> charter_allowed tk job then advance h
      else if guaranteed job \<and> last_fired_epoch job = Some epoch then advance h
      else fire_task lib tk fe now job h)"

text \<open>One turn of the ticker's loop at time \<open>now\<close>; the due jobs are listed before any is fired. \<open>fes\<close> gives what is
  outside each job's fire.\<close>

definition fire_all ::
  "cron_lib \<Rightarrow> CronTicker \<Rightarrow> (string \<Rightarrow> fire_env) \<Rightarrow> nat \<Rightarrow> CronJob list \<Rightarrow> cron_hotel \<Rightarrow> cron_hotel" where
  "fire_all lib tk fes now jobs h = foldl (\<lambda>h job. fire lib tk (fes (cj_id job)) now job h) h jobs"

definition cron_tick :: "cron_lib \<Rightarrow> CronTicker \<Rightarrow> (string \<Rightarrow> fire_env) \<Rightarrow> nat \<Rightarrow> cron_hotel \<Rightarrow> cron_hotel" where
  "cron_tick lib tk fes now h =
     fire_all lib tk fes now
       (filter (\<lambda>j. \<not> guaranteed j) (list_due_cron_jobs now 0 (ch_jobs h))
        @ filter guaranteed (list_due_cron_jobs now (offset_ms tk) (ch_jobs h))) h"

definition startup_sync :: "(string \<Rightarrow> bool) \<Rightarrow> cron_hotel \<Rightarrow> cron_hotel" where
  "startup_sync oks h = foldl (\<lambda>h job. broadcast_cron_sync_upsert (oks (cj_id job)) job h) h (list_cron_jobs (ch_jobs h))"

definition recover_job ::
  "cron_lib \<Rightarrow> CronTicker \<Rightarrow> (string \<Rightarrow> fire_env) \<Rightarrow> nat \<Rightarrow> cron_hotel \<Rightarrow> CronJob \<Rightarrow> cron_hotel" where
  "recover_job lib tk fes now h job =
     (if \<not> cj_enabled job \<or> \<not> guaranteed job then h
      else if next_fire_at job \<ge> now then h
      else if last_fired_epoch job = Some (next_fire_at job)
      then advance_schedule lib (fe_write_ok (fes (cj_id job))) job (next_fire_at job) h
      else fire lib tk (fes (cj_id job)) now job h)"

definition recovery_scan :: "cron_lib \<Rightarrow> CronTicker \<Rightarrow> (string \<Rightarrow> fire_env) \<Rightarrow> nat \<Rightarrow> cron_hotel \<Rightarrow> cron_hotel" where
  "recovery_scan lib tk fes now h = foldl (recover_job lib tk fes now) h (list_cron_jobs (ch_jobs h))"

subsection \<open>Broadcasts of peers\<close>

definition put_job :: "bool \<Rightarrow> CronJob \<Rightarrow> cron_hotel \<Rightarrow> cron_hotel" where
  "put_job ok job h = (if ok then h\<lparr>ch_jobs := upsert_cron_job job (ch_jobs h)\<rparr> else h)"

definition handle_cron_fired_broadcast :: "cron_lib \<Rightarrow> bool \<Rightarrow> string \<Rightarrow> nat \<Rightarrow> cron_hotel \<Rightarrow> cron_hotel" where
  "handle_cron_fired_broadcast lib ok jid epoch h =
     (case get_cron_job jid (ch_jobs h) of
        None \<Rightarrow> h
      | Some job \<Rightarrow>
          if last_fired_epoch job = Some epoch then h
          else if next_fire_at job \<noteq> epoch then h
          else (case next_fire_after lib (cj_schedule job) epoch of
                  None \<Rightarrow> h
                | Some nxt \<Rightarrow> put_job ok (job\<lparr>last_fired_epoch := Some epoch, next_fire_at := nxt\<rparr>) h))"

text \<open>A decoded \<open>CronJobSync\<close>: its operation, job and job id.\<close>

definition handle_cron_job_sync :: "bool \<Rightarrow> string \<Rightarrow> CronJob option \<Rightarrow> string option \<Rightarrow> cron_hotel \<Rightarrow> cron_hotel" where
  "handle_cron_job_sync ok oper job jid h =
     (if oper = ''upsert'' then (case job of Some j \<Rightarrow> put_job ok j h | None \<Rightarrow> h)
      else if oper = ''remove''
      then (case jid of Some k \<Rightarrow> if ok then h\<lparr>ch_jobs := remove_cron_job k (ch_jobs h)\<rparr> else h | None \<Rightarrow> h)
      else h)"

subsection \<open>Requests of guests and operators\<close>

datatype cron_reply = CronOk string "string option" | CronErr string | CronJobList "CronJob list"

definition normalize_cron_target_role :: "cron_lib \<Rightarrow> CronJob \<Rightarrow> CronJob" where
  "normalize_cron_target_role lib job =
     (if starts_with ''role:'' (cj_target_role job) then job
      else (case created_by job of
              Operator \<Rightarrow> job
            | Guest agent \<Rightarrow>
                if cl_role lib agent (cj_target_role job) \<noteq> None
                then job\<lparr>cj_target_role := ''role:'' @ agent @ '':'' @ cj_target_role job\<rparr> else job))"

definition save_and_sync :: "bool \<Rightarrow> bool \<Rightarrow> CronJob \<Rightarrow> cron_hotel \<Rightarrow> cron_hotel" where
  "save_and_sync ok sync_ok job h = (if ok then broadcast_cron_sync_upsert sync_ok job (put_job True job h) else h)"

definition register_cron_job :: "cron_lib \<Rightarrow> bool \<Rightarrow> bool \<Rightarrow> CronJob \<Rightarrow> cron_hotel \<Rightarrow> cron_reply \<times> cron_hotel" where
  "register_cron_job lib ok sync_ok job h =
     (let job1 = (normalize_cron_target_role lib job)\<lparr>session_target := Isolated\<rparr>
      in (if ok then CronOk ''register_cron_job'' (Some (cj_id job1)) else CronErr ''RegisterCronJob failed'',
          save_and_sync ok sync_ok job1 h))"

definition remove_cron_job_request :: "bool \<Rightarrow> bool \<Rightarrow> string \<Rightarrow> cron_hotel \<Rightarrow> cron_reply \<times> cron_hotel" where
  "remove_cron_job_request ok sync_ok jid h =
     (if ok
      then (CronOk ''remove_cron_job'' None,
            broadcast_cron_sync_remove sync_ok jid (h\<lparr>ch_jobs := remove_cron_job jid (ch_jobs h)\<rparr>))
      else (CronErr ''RemoveCronJob failed'', h))"

definition list_cron_jobs_request :: "cron_hotel \<Rightarrow> cron_reply" where
  "list_cron_jobs_request h = CronJobList (list_cron_jobs (ch_jobs h))"

definition set_enabled_request :: "bool \<Rightarrow> bool \<Rightarrow> bool \<Rightarrow> string \<Rightarrow> cron_hotel \<Rightarrow> cron_reply \<times> cron_hotel" where
  "set_enabled_request on ok sync_ok jid h =
     (case get_cron_job jid (ch_jobs h) of
        None \<Rightarrow> (CronErr (''cron job not found: '' @ jid), h)
      | Some job \<Rightarrow>
          (if ok then CronOk (if on then ''enable_cron_job'' else ''disable_cron_job'') None
           else CronErr (if on then ''EnableCronJob failed'' else ''DisableCronJob failed''),
           save_and_sync ok sync_ok (job\<lparr>cj_enabled := on\<rparr>) h))"

definition silent_cron_reply_suppressed :: "cron_lib \<Rightarrow> job_table \<Rightarrow> string \<Rightarrow> bool" where
  "silent_cron_reply_suppressed lib t task_json =
     (case cl_parse lib task_json of
        None \<Rightarrow> False
      | Some pl \<Rightarrow>
          if Option.bind (jget pl ''action'') as_str \<noteq> Some ''send_reply'' then False
          else (case Option.bind (jget pl ''session_id'') as_str of
                  None \<Rightarrow> False
                | Some session_id \<Rightarrow>
                    (case strip_prefix ''cron:'' session_id of
                       None \<Rightarrow> False
                     | Some jid \<Rightarrow>
                         (case Option.bind (jget pl ''content'') as_str of
                            None \<Rightarrow> False
                          | Some reply \<Rightarrow>
                              (case get_cron_job jid t of
                                 None \<Rightarrow> False
                               | Some job \<Rightarrow> silent_ok job \<and> is_silent_cron_reply reply)))))"

subsection \<open>Registration at start-up\<close>

definition sweep_enabled :: "string \<Rightarrow> (string \<Rightarrow> string option) \<Rightarrow> bool" where
  "sweep_enabled var env =
     (case env var of
        None \<Rightarrow> False
      | Some v \<Rightarrow> let v1 = to_ascii_lowercase (trim v) in v1 = ''1'' \<or> v1 = ''true'' \<or> v1 = ''yes'')"

text \<open>The part the three registrations share. An unreadable schedule is an error.\<close>

definition ensure_job :: "cron_lib \<Rightarrow> bool \<Rightarrow> string \<Rightarrow> string \<Rightarrow> string \<Rightarrow> nat \<Rightarrow> cron_hotel \<Rightarrow> (string + cron_hotel)" where
  "ensure_job lib ok jid sched role now h =
     (if get_cron_job jid (ch_jobs h) \<noteq> None then Inr h
      else (case next_fire_after lib sched now of
              None \<Rightarrow> Inl ''invalid cron expression''
            | Some nxt \<Rightarrow>
                if \<not> ok then Inl ''storage''
                else Inr (put_job True
                  \<lparr>cj_id = jid, cj_schedule = sched, cj_target_role = role, cj_target_node_id = None, cj_payload = ''{}'',
                   guaranteed = False, cj_enabled = True, last_fired_epoch = None, next_fire_at = nxt, cj_created_at = now,
                   created_by = Operator, silent_ok = True, session_target = Isolated\<rparr> h)))"

definition env_schedule :: "string \<Rightarrow> string \<Rightarrow> (string \<Rightarrow> string option) \<Rightarrow> string" where
  "env_schedule var dflt env = (case env var of Some s \<Rightarrow> if trim s \<noteq> [] then s else dflt | None \<Rightarrow> dflt)"

definition hygiene_ensure_scheduled ::
  "cron_lib \<Rightarrow> bool \<Rightarrow> string \<Rightarrow> nat \<Rightarrow> (string \<Rightarrow> string option) \<Rightarrow> cron_hotel \<Rightarrow> (string + cron_hotel)" where
  "hygiene_ensure_scheduled lib ok hotel now env h =
     (if \<not> sweep_enabled ''PHILOTIC_MEMORY_HYGIENE_ENABLED'' env then Inr h
      else ensure_job lib ok (''memory-hygiene:'' @ hotel)
             (env_schedule ''PHILOTIC_MEMORY_HYGIENE_SCHEDULE'' ''0 0 3 * * * *'' env) HYGIENE_ROLE now h)"

definition dream_ensure_scheduled ::
  "cron_lib \<Rightarrow> bool \<Rightarrow> string \<Rightarrow> nat \<Rightarrow> (string \<Rightarrow> string option) \<Rightarrow> cron_hotel \<Rightarrow> (string + cron_hotel)" where
  "dream_ensure_scheduled lib ok hotel now env h =
     (if \<not> sweep_enabled ''PHILOTIC_DREAM_SWEEP_ENABLED'' env then Inr h
      else ensure_job lib ok (''dream-sweep:'' @ hotel)
             (env_schedule ''PHILOTIC_DREAM_SWEEP_SCHEDULE'' ''0 30 3 * * * *'' env) DREAM_ROLE now h)"

definition autonomy_ensure_scheduled :: "cron_lib \<Rightarrow> bool \<Rightarrow> string \<Rightarrow> nat \<Rightarrow> cron_hotel \<Rightarrow> (string + cron_hotel)" where
  "autonomy_ensure_scheduled lib ok hotel now h =
     ensure_job lib ok (autonomy_job_id hotel) ''0 0 4 * * * *'' AUTONOMY_ROLE now h"

subsection \<open>Histories\<close>

datatype cron_event =
    Tick CronTicker "string \<Rightarrow> fire_env" nat
  | Recover CronTicker "string \<Rightarrow> fire_env" nat
  | StartupSync "string \<Rightarrow> bool"
  | PeerFired bool string nat
  | PeerSync bool string "CronJob option" "string option"
  | RegisterJob bool bool CronJob
  | RemoveJob bool bool string
  | SetEnabled bool bool bool string

fun cron_step :: "cron_lib \<Rightarrow> cron_hotel \<Rightarrow> cron_event \<Rightarrow> cron_hotel" where
  "cron_step lib h (Tick tk fes now) = cron_tick lib tk fes now h"
| "cron_step lib h (Recover tk fes now) = recovery_scan lib tk fes now h"
| "cron_step lib h (StartupSync oks) = startup_sync oks h"
| "cron_step lib h (PeerFired ok jid epoch) = handle_cron_fired_broadcast lib ok jid epoch h"
| "cron_step lib h (PeerSync ok oper job jid) = handle_cron_job_sync ok oper job jid h"
| "cron_step lib h (RegisterJob ok sync_ok job) = snd (register_cron_job lib ok sync_ok job h)"
| "cron_step lib h (RemoveJob ok sync_ok jid) = snd (remove_cron_job_request ok sync_ok jid h)"
| "cron_step lib h (SetEnabled on ok sync_ok jid) = snd (set_enabled_request on ok sync_ok jid h)"

text \<open>The epochs for which tasks of a job were sent, in order.\<close>

fun fired_epoch :: "string \<Rightarrow> cron_append \<Rightarrow> nat option" where
  "fired_epoch jid (TaskAppend j epoch env) = (if j = jid then Some epoch else None)"
| "fired_epoch jid _ = None"

definition fires :: "string \<Rightarrow> cron_hotel \<Rightarrow> nat list" where
  "fires jid h = List.map_filter (fired_epoch jid) (ch_sent h)"

subsection \<open>Each epoch fires at most once\<close>

text \<open>A job whose last epoch went out and that cannot fire it again.\<close>

definition spent :: "CronJob \<Rightarrow> bool" where
  "spent j \<longleftrightarrow> last_fired_epoch j = Some (next_fire_at j) \<and> (\<not> cj_enabled j \<or> guaranteed j)"

definition may_fire :: "string \<Rightarrow> cron_hotel \<Rightarrow> nat \<Rightarrow> bool" where
  "may_fire jid h e \<longleftrightarrow>
     (case get_cron_job jid (ch_jobs h) of
        Some j \<Rightarrow> next_fire_at j \<le> e \<and> \<not> (spent j \<and> e = next_fire_at j)
      | None \<Rightarrow> False)"

definition jobs_ok :: "job_table \<Rightarrow> bool" where
  "jobs_ok t \<longleftrightarrow> tbl_wf t \<and> list_all (\<lambda>(k, j). cj_id j = k) t"

definition later :: "cron_lib \<Rightarrow> bool" where
  "later lib \<longleftrightarrow> (\<forall>sched t n. cl_next lib sched t = Some n \<longrightarrow> t < n)"

lemma fires_append [simp]:
  "fires jid (h\<lparr>ch_sent := ch_sent h @ [m]\<rparr>) = fires jid h @ (case fired_epoch jid m of Some e \<Rightarrow> [e] | None \<Rightarrow> [])"
  by (simp add: fires_def List.map_filter_def split: option.splits)

lemma fires_frame [simp]:
  "fires jid (h\<lparr>ch_jobs := t\<rparr>) = fires jid h" "fires jid (h\<lparr>ch_inbox := s\<rparr>) = fires jid h"
  "fires jid (h\<lparr>ch_sweeps := w\<rparr>) = fires jid h"
  by (simp_all add: fires_def)

lemma append_cron_frame [simp]:
  "ch_jobs (append_cron ok m h) = ch_jobs h"
  "fires jid (append_cron ok m h) = fires jid h @ (if ok then (case fired_epoch jid m of Some e \<Rightarrow> [e] | None \<Rightarrow> []) else [])"
  by (simp_all add: append_cron_def)

lemma log_sweep_frame [simp]:
  "ch_jobs (log_sweep r w h) = ch_jobs h" "fires jid (log_sweep r w h) = fires jid h"
  by (simp_all add: log_sweep_def)

lemma get_upsert:
  "get_cron_job jid (upsert_cron_job j t) = (if jid = cj_id j then Some j else get_cron_job jid t)"
  by (simp add: get_cron_job_def upsert_cron_job_def tbl_get_put)

lemma get_remove:
  "get_cron_job jid (remove_cron_job k t) = (if jid = k then None else get_cron_job jid t)"
  by (simp add: get_cron_job_def remove_cron_job_def tbl_get_del)

lemma jobs_ok_upsert: "jobs_ok t \<Longrightarrow> jobs_ok (upsert_cron_job j t)"
proof -
  have "set (tbl_put k n t) \<subseteq> insert (k, n) (set t)" for k and n :: CronJob
    by (induction k n t rule: tbl_put.induct) auto
  from this [of "cj_id j" j] show "jobs_ok t \<Longrightarrow> jobs_ok (upsert_cron_job j t)"
    by (auto simp: jobs_ok_def upsert_cron_job_def list_all_iff intro: tbl_wf_put)
qed

lemma jobs_ok_remove: "jobs_ok t \<Longrightarrow> jobs_ok (remove_cron_job k t)"
  using tbl.wf_del [of t k] by (auto simp: jobs_ok_def remove_cron_job_def list_all_iff tbl_del_def)

text \<open>The job as a fire leaves it.\<close>

definition advanced :: "cron_lib \<Rightarrow> CronJob \<Rightarrow> CronJob" where
  "advanced lib job =
     (let nxt = (case cl_next lib (cj_schedule job) (next_fire_at job) of Some n \<Rightarrow> n | None \<Rightarrow> u64_max);
          updated = job\<lparr>last_fired_epoch := Some (next_fire_at job)\<rparr>
      in if nxt = u64_max then updated\<lparr>cj_enabled := False\<rparr> else updated\<lparr>next_fire_at := nxt\<rparr>)"

lemma advance_schedule_eq:
  "advance_schedule lib ok job (next_fire_at job) h =
     (if ok then h\<lparr>ch_jobs := upsert_cron_job (advanced lib job) (ch_jobs h)\<rparr> else h)"
  by (simp add: advance_schedule_def advanced_def next_fire_after_def Let_def)

lemma advanced_id [simp]: "cj_id (advanced lib job) = cj_id job" "guaranteed (advanced lib job) = guaranteed job"
  by (simp_all add: advanced_def Let_def)

lemma advanced_later:
  assumes "later lib" "next_fire_at (advanced lib job) \<le> e" "\<not> (spent (advanced lib job) \<and> e = next_fire_at (advanced lib job))"
  shows "next_fire_at job < e"
  using assms by (auto simp: advanced_def later_def spent_def Let_def split: if_splits option.splits intro: less_le_trans)

lemma fire_task_jobs:
  "ch_jobs (fire_task lib tk fe now job h) = ch_jobs h \<and> fires jid (fire_task lib tk fe now job h) = fires jid h
   \<or> ch_jobs (fire_task lib tk fe now job h) =
        (if fe_write_ok fe then upsert_cron_job (advanced lib job) (ch_jobs h) else ch_jobs h)
     \<and> fires jid (fire_task lib tk fe now job h) = fires jid h @ (if cj_id job = jid then [next_fire_at job] else [])"
  by (auto simp: fire_task_def advance_schedule_eq Let_def split: prod.splits bool.splits)

lemma sweep_frame [simp]:
  "ch_jobs (fire_memory_hygiene tk now h) = ch_jobs h" "fires jid (fire_memory_hygiene tk now h) = fires jid h"
  "ch_jobs (fire_dream_sweep tk h) = ch_jobs h" "fires jid (fire_dream_sweep tk h) = fires jid h"
  "ch_jobs (fire_autonomy_sweep tk job now h) = ch_jobs h" "fires jid (fire_autonomy_sweep tk job now h) = fires jid h"
  by (simp_all add: fire_memory_hygiene_def fire_dream_sweep_def fire_autonomy_sweep_def split: option.splits)

lemma fire_cases:
  "fire lib tk fe now job h = fire_task lib tk fe now job h \<and> \<not> (guaranteed job \<and> last_fired_epoch job = Some (next_fire_at job))
   \<or> (\<exists>h'. fire lib tk fe now job h = advance_schedule lib (fe_write_ok fe) job (next_fire_at job) h'
        \<and> ch_jobs h' = ch_jobs h \<and> (\<forall>jid. fires jid h' = fires jid h))"
proof -
  let ?P = "\<lambda>h'. ch_jobs h' = ch_jobs h \<and> (\<forall>jid. fires jid h' = fires jid h)"
  have adv: "\<exists>h''. advance_schedule lib (fe_write_ok fe) job (next_fire_at job) h' =
      advance_schedule lib (fe_write_ok fe) job (next_fire_at job) h'' \<and> ?P h''" if "?P h'" for h'
    using that by (intro exI [of _ h']) simp
  show ?thesis
    using adv [of "fire_memory_hygiene tk now h"] adv [of "fire_dream_sweep tk h"]
      adv [of "fire_autonomy_sweep tk job now h"] adv [of h]
    by (simp add: fire_def Let_def)
qed

text \<open>A fire does nothing to the jobs, or advances the job, having sent its task unless it was gated or deduplicated.\<close>

lemma fire_jobs:
  assumes "cj_enabled job" "fe_write_ok fe"
  shows "ch_jobs (fire lib tk fe now job h) = ch_jobs h \<and> fires jid (fire lib tk fe now job h) = fires jid h
   \<or> ch_jobs (fire lib tk fe now job h) = upsert_cron_job (advanced lib job) (ch_jobs h)
     \<and> (fires jid (fire lib tk fe now job h) = fires jid h
        \<or> fires jid (fire lib tk fe now job h) = fires jid h @ (if cj_id job = jid then [next_fire_at job] else [])
          \<and> \<not> spent job)"
  using fire_cases [of lib tk fe now job h]
proof (elim disjE exE conjE)
  assume "fire lib tk fe now job h = fire_task lib tk fe now job h"
    "\<not> (guaranteed job \<and> last_fired_epoch job = Some (next_fire_at job))"
  moreover from this(2) assms have "\<not> spent job" by (auto simp: spent_def)
  ultimately show ?thesis using fire_task_jobs [of lib tk fe now job h jid] assms by auto
next
  fix h'
  assume "fire lib tk fe now job h = advance_schedule lib (fe_write_ok fe) job (next_fire_at job) h'"
    "ch_jobs h' = ch_jobs h" "\<forall>jid. fires jid h' = fires jid h"
  then show ?thesis using assms by (simp add: advance_schedule_eq)
qed

text \<open>Firing another job changes nothing for this one.\<close>

lemma fire_other:
  assumes "cj_id job \<noteq> jid"
  shows "get_cron_job jid (ch_jobs (fire lib tk fe now job h)) = get_cron_job jid (ch_jobs h)
    \<and> fires jid (fire lib tk fe now job h) = fires jid h"
  using fire_cases [of lib tk fe now job h]
proof (elim disjE exE conjE)
  assume "fire lib tk fe now job h = fire_task lib tk fe now job h"
  then show ?thesis using fire_task_jobs [of lib tk fe now job h jid] assms by (auto simp: get_upsert)
next
  fix h'
  assume "fire lib tk fe now job h = advance_schedule lib (fe_write_ok fe) job (next_fire_at job) h'"
    "ch_jobs h' = ch_jobs h" "\<forall>jid. fires jid h' = fires jid h"
  then show ?thesis using assms by (simp add: advance_schedule_eq get_upsert)
qed

lemma fire_jobs_ok: "jobs_ok (ch_jobs h) \<Longrightarrow> jobs_ok (ch_jobs (fire lib tk fe now job h))"
  using fire_cases [of lib tk fe now job h] fire_task_jobs [of lib tk fe now job h undefined]
  by (auto simp: advance_schedule_eq jobs_ok_upsert)

text \<open>A change that is lawful for a job: at most one epoch goes out, one that was possible, only later ones remain
  possible, and the job stays guaranteed or not.\<close>

definition clock_lawful :: "string \<Rightarrow> cron_hotel \<Rightarrow> cron_hotel \<Rightarrow> bool" where
  "clock_lawful jid h h' \<longleftrightarrow>
     (fires jid h' = fires jid h
      \<or> (\<exists>x. may_fire jid h x \<and> fires jid h' = fires jid h @ [x] \<and> (\<forall>y. may_fire jid h' y \<longrightarrow> x < y)))
     \<and> (\<forall>y. may_fire jid h' y \<longrightarrow> may_fire jid h y)
     \<and> (\<forall>j'. get_cron_job jid (ch_jobs h') = Some j' \<longrightarrow>
           (\<exists>j. get_cron_job jid (ch_jobs h) = Some j \<and> guaranteed j' = guaranteed j))"

definition unchanged :: "string \<Rightarrow> cron_hotel \<Rightarrow> cron_hotel \<Rightarrow> bool" where
  "unchanged jid h h' \<longleftrightarrow> get_cron_job jid (ch_jobs h') = get_cron_job jid (ch_jobs h) \<and> fires jid h' = fires jid h"

lemma unchanged_lawful: "unchanged jid h h' \<Longrightarrow> clock_lawful jid h h'"
  by (simp add: unchanged_def clock_lawful_def may_fire_def)

lemma unchanged_lawful_trans:
  "unchanged jid h h1 \<Longrightarrow> clock_lawful jid h1 h2 \<Longrightarrow> clock_lawful jid h h2"
  "clock_lawful jid h h1 \<Longrightarrow> unchanged jid h1 h2 \<Longrightarrow> clock_lawful jid h h2"
  by (simp_all add: unchanged_def clock_lawful_def may_fire_def)

lemma advance_lawful:
  assumes "later lib" "get_cron_job jid (ch_jobs h) = Some job"
    and "get_cron_job jid (ch_jobs h') = Some (advanced lib job)"
    and "fires jid h' = fires jid h \<or> fires jid h' = fires jid h @ [next_fire_at job] \<and> \<not> spent job"
  shows "clock_lawful jid h h'"
proof -
  have "next_fire_at job < y" if "may_fire jid h' y" for y
    using that advanced_later [OF assms(1)] assms(3) by (simp add: may_fire_def)
  moreover have "may_fire jid h y" if "next_fire_at job < y" for y
    using that assms(2) by (simp add: may_fire_def)
  moreover have "may_fire jid h (next_fire_at job)" if "\<not> spent job"
    using that assms(2) by (simp add: may_fire_def)
  ultimately show ?thesis using assms by (auto simp: clock_lawful_def)
qed

lemma fire_lawful:
  assumes "later lib" "get_cron_job jid (ch_jobs h) = Some job" "cj_id job = jid" "cj_enabled job" "fe_write_ok fe"
  shows "clock_lawful jid h (fire lib tk fe now job h)"
  using fire_jobs [OF assms(4,5), of lib tk now h jid]
proof
  assume "ch_jobs (fire lib tk fe now job h) = ch_jobs h \<and> fires jid (fire lib tk fe now job h) = fires jid h"
  then show ?thesis by (intro unchanged_lawful) (simp add: unchanged_def)
next
  assume "ch_jobs (fire lib tk fe now job h) = upsert_cron_job (advanced lib job) (ch_jobs h)
     \<and> (fires jid (fire lib tk fe now job h) = fires jid h
        \<or> fires jid (fire lib tk fe now job h) = fires jid h @ (if cj_id job = jid then [next_fire_at job] else []) \<and> \<not> spent job)"
  then show ?thesis by (intro advance_lawful [OF assms(1,2)]) (use assms(3) in \<open>auto simp: get_upsert\<close>)
qed

lemma recover_lawful:
  assumes "later lib" "get_cron_job jid (ch_jobs h) = Some job" "cj_id job = jid" "fe_write_ok (fes jid)"
  shows "clock_lawful jid h (recover_job lib tk fes now h job)"
proof -
  have "clock_lawful jid h (advance_schedule lib True job (next_fire_at job) h)"
    by (rule advance_lawful [OF assms(1,2)]) (use assms(3) in \<open>simp_all add: advance_schedule_eq get_upsert\<close>)
  moreover have "clock_lawful jid h h" by (rule unchanged_lawful) (simp add: unchanged_def)
  ultimately show ?thesis
    using fire_lawful [OF assms(1-3), of "fes jid"] assms by (simp add: recover_job_def)
qed

text \<open>Both scans go over a snapshot of the table in which each job occurs once.\<close>

lemma scan_lawful:
  assumes "\<And>h job. cj_id job \<noteq> jid \<Longrightarrow> unchanged jid h (f h job)"
    and "\<And>h job. get_cron_job jid (ch_jobs h) = Some job \<Longrightarrow> cj_id job = jid \<Longrightarrow> job \<in> set jobs \<Longrightarrow> clock_lawful jid h (f h job)"
    and "distinct (map cj_id jobs)" "\<forall>job\<in>set jobs. cj_id job = jid \<longrightarrow> get_cron_job jid (ch_jobs h) = Some job"
  shows "clock_lawful jid h (foldl f h jobs)"
  using assms(2-)
proof (induction jobs arbitrary: h)
  case Nil
  then show ?case by (simp add: unchanged_lawful unchanged_def)
next
  case (Cons job jobs)
  have rest: "unchanged jid h' (foldl f h' js)" if "\<forall>j\<in>set js. cj_id j \<noteq> jid" for h' js
    using that
  proof (induction js arbitrary: h')
    case (Cons j js)
    then show ?case using assms(1) [of j h'] Cons.IH [of "f h' j"] by (simp add: unchanged_def)
  qed (simp add: unchanged_def)
  show ?case
  proof (cases "cj_id job = jid")
    case True
    then have "clock_lawful jid h (f h job)" "\<forall>j\<in>set jobs. cj_id j \<noteq> jid" using Cons.prems by auto
    then show ?thesis using rest unchanged_lawful_trans(2) by auto
  next
    case False
    then have u: "unchanged jid h (f h job)" by (rule assms(1))
    have "clock_lawful jid (f h job) (foldl f (f h job) jobs)"
      by (rule Cons.IH) (use Cons.prems u in \<open>auto simp: unchanged_def\<close>)
    then show ?thesis using u unchanged_lawful_trans(1) by simp
  qed
qed

lemma listed_jobs:
  assumes "jobs_ok t"
  shows "distinct (map cj_id (list_cron_jobs t))" "job \<in> set (list_cron_jobs t) \<Longrightarrow> get_cron_job (cj_id job) t = Some job"
proof -
  have ids: "map cj_id (list_cron_jobs t) = map fst t"
    using assms by (auto simp: jobs_ok_def list_cron_jobs_def list_all_iff)
  show "distinct (map cj_id (list_cron_jobs t))"
    using assms tbl_wf_distinct unfolding ids by (auto simp: jobs_ok_def)
  show "get_cron_job (cj_id job) t = Some job" if "job \<in> set (list_cron_jobs t)"
    using that assms tbl.rows_get [of t "cj_id job" job]
    by (auto simp: jobs_ok_def list_cron_jobs_def list_all_iff get_cron_job_def)
qed

lemma tick_lawful:
  assumes "later lib" "jobs_ok (ch_jobs h)" "fe_write_ok (fes jid)"
  shows "clock_lawful jid h (cron_tick lib tk fes now h)"
  unfolding cron_tick_def fire_all_def
proof (rule scan_lawful)
  let ?due = "\<lambda>off. list_due_cron_jobs now off (ch_jobs h)"
  have "distinct (map cj_id (?due off))" for off
    using listed_jobs(1) [OF assms(2)] by (auto simp: list_due_cron_jobs_def distinct_map_filter)
  moreover have "set (?due off) \<subseteq> set (list_cron_jobs (ch_jobs h))" for off
    by (auto simp: list_due_cron_jobs_def)
  moreover have "j = j'" if "j \<in> set (list_cron_jobs (ch_jobs h))" "j' \<in> set (list_cron_jobs (ch_jobs h))" "cj_id j = cj_id j'" for j j'
    using listed_jobs(2) [OF assms(2) that(1)] listed_jobs(2) [OF assms(2) that(2)] that(3) by (metis option.inject)
  ultimately show "distinct (map cj_id (filter (\<lambda>j. \<not> guaranteed j) (?due 0) @ filter guaranteed (?due (offset_ms tk))))"
    by (auto simp: distinct_map_filter) blast
qed (use assms fire_other listed_jobs(2) [OF assms(2)] in
      \<open>auto simp: unchanged_def list_due_cron_jobs_def intro!: fire_lawful\<close>)

lemma recovery_lawful:
  assumes "later lib" "jobs_ok (ch_jobs h)" "fe_write_ok (fes jid)"
  shows "clock_lawful jid h (recovery_scan lib tk fes now h)"
  unfolding recovery_scan_def
proof (rule scan_lawful)
  show "unchanged jid h' (recover_job lib tk fes now h' job)" if "cj_id job \<noteq> jid" for h' job
    using that fire_other [of job jid] by (simp add: recover_job_def unchanged_def advance_schedule_eq get_upsert)
qed (use assms listed_jobs [OF assms(2)] in \<open>auto intro: recover_lawful\<close>)

lemma fire_all_jobs_ok: "jobs_ok (ch_jobs h) \<Longrightarrow> jobs_ok (ch_jobs (fire_all lib tk fes now jobs h))"
  unfolding fire_all_def by (induction jobs arbitrary: h) (simp_all add: fire_jobs_ok)

lemma recover_jobs_ok: "jobs_ok (ch_jobs h) \<Longrightarrow> jobs_ok (ch_jobs (foldl (recover_job lib tk fes now) h jobs))"
  by (induction jobs arbitrary: h) (simp_all add: recover_job_def fire_jobs_ok advance_schedule_eq jobs_ok_upsert)

lemma startup_sync_frame [simp]: "ch_jobs (startup_sync oks h) = ch_jobs h" "fires jid (startup_sync oks h) = fires jid h"
proof -
  have "ch_jobs (foldl (\<lambda>h job. append_cron (oks (cj_id job)) (SyncUpsert job) h) h js) = ch_jobs h
    \<and> fires jid (foldl (\<lambda>h job. append_cron (oks (cj_id job)) (SyncUpsert job) h) h js) = fires jid h" for js
    by (induction js arbitrary: h) auto
  then show "ch_jobs (startup_sync oks h) = ch_jobs h" "fires jid (startup_sync oks h) = fires jid h"
    by (simp_all add: startup_sync_def)
qed

lemma put_job_frame [simp]:
  "ch_jobs (put_job ok j h) = (if ok then upsert_cron_job j (ch_jobs h) else ch_jobs h)" "fires jid (put_job ok j h) = fires jid h"
  by (simp_all add: put_job_def)

lemma cron_step_jobs_ok: "jobs_ok (ch_jobs h) \<Longrightarrow> jobs_ok (ch_jobs (cron_step lib h e))"
  by (cases e)
    (auto simp: cron_tick_def recovery_scan_def fire_all_jobs_ok recover_jobs_ok handle_cron_fired_broadcast_def handle_cron_job_sync_def
      register_cron_job_def remove_cron_job_request_def set_enabled_request_def save_and_sync_def Let_def
      jobs_ok_upsert jobs_ok_remove split: option.splits)

text \<open>Events that leave the job's schedule to the ticker: nobody writes the job's definition, its writes by the ticker
  succeed, and it is only re-enabled when it is a guaranteed job.\<close>

fun leaves_schedule :: "string \<Rightarrow> bool \<Rightarrow> cron_event \<Rightarrow> bool" where
  "leaves_schedule jid g (Tick tk fes now) \<longleftrightarrow> fe_write_ok (fes jid)"
| "leaves_schedule jid g (Recover tk fes now) \<longleftrightarrow> fe_write_ok (fes jid)"
| "leaves_schedule jid g (PeerSync ok oper job k) \<longleftrightarrow> (case job of Some j \<Rightarrow> cj_id j \<noteq> jid | None \<Rightarrow> True)"
| "leaves_schedule jid g (RegisterJob ok sync_ok job) \<longleftrightarrow> cj_id job \<noteq> jid"
| "leaves_schedule jid g (SetEnabled on ok sync_ok k) \<longleftrightarrow> (k = jid \<and> on \<longrightarrow> g)"
| "leaves_schedule jid g e \<longleftrightarrow> True"

definition clock_ok :: "string \<Rightarrow> bool \<Rightarrow> cron_hotel \<Rightarrow> bool" where
  "clock_ok jid g h \<longleftrightarrow>
     jobs_ok (ch_jobs h) \<and> (\<forall>j. get_cron_job jid (ch_jobs h) = Some j \<longrightarrow> g \<longrightarrow> guaranteed j)"

lemma get_id: "jobs_ok t \<Longrightarrow> get_cron_job jid t = Some j \<Longrightarrow> cj_id j = jid"
  using tbl.rows_get [of t jid j] by (auto simp: jobs_ok_def get_cron_job_def list_all_iff)

lemma put_lawful:
  assumes "get_cron_job k (ch_jobs h) = Some job" "cj_id job' = k" "guaranteed job' = guaranteed job"
    and "\<And>e. next_fire_at job' \<le> e \<Longrightarrow> \<not> (spent job' \<and> e = next_fire_at job') \<Longrightarrow>
           next_fire_at job \<le> e \<and> \<not> (spent job \<and> e = next_fire_at job)"
  shows "clock_lawful k h (put_job ok job' h)"
  using assms by (auto simp: clock_lawful_def may_fire_def get_upsert)

lemma put_other: "cj_id j \<noteq> jid \<Longrightarrow> unchanged jid h (put_job ok j h)"
  by (simp add: unchanged_def get_upsert)

lemma peer_fired_lawful:
  assumes "later lib" "jobs_ok (ch_jobs h)"
  shows "clock_lawful jid h (handle_cron_fired_broadcast lib ok k epoch h)"
proof (cases "get_cron_job k (ch_jobs h)")
  case None
  then show ?thesis by (simp add: handle_cron_fired_broadcast_def unchanged_lawful unchanged_def)
next
  case (Some job)
  have id: "cj_id job = k" by (rule get_id [OF assms(2) Some])
  have refl: "clock_lawful jid h h" by (simp add: unchanged_lawful unchanged_def)
  have "clock_lawful jid h (put_job ok (job\<lparr>last_fired_epoch := Some (next_fire_at job), next_fire_at := n\<rparr>) h)"
    if n: "cl_next lib (cj_schedule job) (next_fire_at job) = Some n" for n
  proof (cases "k = jid")
    case True
    have "next_fire_at job < n" using assms(1) n by (auto simp: later_def)
    then show ?thesis unfolding True [symmetric] by (intro put_lawful [OF Some]) (simp_all add: id)
  next
    case False
    then show ?thesis by (intro unchanged_lawful put_other) (simp add: id)
  qed
  with Some refl show ?thesis
    by (auto simp: handle_cron_fired_broadcast_def next_fire_after_def split: option.split)
qed

lemma sync_lawful: "leaves_schedule jid g (PeerSync ok oper job k) \<Longrightarrow> clock_lawful jid h (handle_cron_job_sync ok oper job k h)"
proof -
  have refl: "clock_lawful jid h h" by (simp add: unchanged_lawful unchanged_def)
  have del: "clock_lawful jid h (h\<lparr>ch_jobs := remove_cron_job k' (ch_jobs h)\<rparr>)" for k'
    by (auto simp: clock_lawful_def may_fire_def get_remove split: option.splits)
  show "leaves_schedule jid g (PeerSync ok oper job k) \<Longrightarrow> ?thesis"
    using refl del by (auto simp: handle_cron_job_sync_def split: option.splits intro: unchanged_lawful put_other)
qed

lemma enable_lawful:
  assumes "clock_ok jid g h" "leaves_schedule jid g (SetEnabled on ok sync_ok k)"
  shows "clock_lawful jid h (snd (set_enabled_request on ok sync_ok k h))"
proof (cases "get_cron_job k (ch_jobs h)")
  case None
  then show ?thesis by (simp add: set_enabled_request_def unchanged_lawful unchanged_def)
next
  case (Some job)
  then have id: "cj_id job = k" using assms(1) by (auto simp: clock_ok_def dest: get_id)
  have "clock_lawful jid h (put_job True (job\<lparr>cj_enabled := on\<rparr>) h)"
  proof (cases "k = jid")
    case True
    then have "on \<longrightarrow> guaranteed job" using assms Some by (auto simp: clock_ok_def)
    then show ?thesis unfolding True [symmetric] by (intro put_lawful [OF Some]) (auto simp: id spent_def)
  next
    case False
    then show ?thesis by (intro unchanged_lawful put_other) (simp add: id)
  qed
  moreover have "unchanged jid h' (append_cron sync_ok (SyncUpsert j) h')" for h' j by (simp add: unchanged_def)
  moreover have "clock_lawful jid h h" by (simp add: unchanged_lawful unchanged_def)
  ultimately show ?thesis
    using Some unchanged_lawful_trans(2) by (auto simp: set_enabled_request_def save_and_sync_def)
qed

lemma register_other:
  "cj_id job \<noteq> jid \<Longrightarrow> unchanged jid h (snd (register_cron_job lib ok sync_ok job h))"
  by (simp add: register_cron_job_def save_and_sync_def unchanged_def get_upsert normalize_cron_target_role_def Let_def
      split: CronJobSource.split)

lemma remove_lawful: "clock_lawful jid h (snd (remove_cron_job_request ok sync_ok k h))"
  by (auto simp: remove_cron_job_request_def clock_lawful_def may_fire_def get_remove split: option.splits)

lemma cron_step_lawful:
  assumes "later lib" "clock_ok jid g h" "leaves_schedule jid g e"
  shows "clock_lawful jid h (cron_step lib h e)"
proof (cases e)
  case (StartupSync oks)
  then show ?thesis by (simp add: unchanged_lawful unchanged_def)
qed (use assms in \<open>auto simp: clock_ok_def tick_lawful recovery_lawful peer_fired_lawful remove_lawful
      intro: sync_lawful unchanged_lawful [OF register_other] enable_lawful [of jid g]\<close>)

lemma cron_step_clock:
  assumes "later lib" "clock_ok jid g h" "leaves_schedule jid g e"
  shows "clock_ok jid g (cron_step lib h e)"
  using cron_step_lawful [OF assms] cron_step_jobs_ok [of h lib e] assms(2)
  unfolding clock_ok_def clock_lawful_def by metis

interpretation clock: increasing_log "cron_step lib" "clock_ok jid g" "\<lambda>e. later lib \<and> leaves_schedule jid g e" "fires jid" "may_fire jid"
  for lib jid g
proof
  fix h e assume *: "clock_ok jid g h" "later lib \<and> leaves_schedule jid g e"
  then show "clock_ok jid g (cron_step lib h e)" by (simp add: cron_step_clock)
  have "clock_lawful jid h (cron_step lib h e)" using * cron_step_lawful by blast
  then show "fires jid (cron_step lib h e) = fires jid h
      \<or> (\<exists>x. may_fire jid h x \<and> fires jid (cron_step lib h e) = fires jid h @ [x] \<and> (\<forall>y. may_fire jid (cron_step lib h e) y \<longrightarrow> x < y))"
    and "\<And>y. may_fire jid (cron_step lib h e) y \<Longrightarrow> may_fire jid h y"
    by (auto simp: clock_lawful_def)
qed

text \<open>C11. Whatever happens to a hotel's other jobs, and with peers announcing fires, restarts, removals and
  disabling interleaved in any order, the epochs for which a job's task goes out are strictly increasing: none is
  fired twice, none after a later one, and none that the job had already passed. The job's definition is not
  rewritten from outside, the ticker's writes of it succeed, and it is re-enabled only if it is a guaranteed job (see
  the remarks on exhausted jobs). The cron library returns occurrences after the given time.\<close>

theorem cron_epoch_at_most_once:
  assumes "later lib" "jobs_ok (ch_jobs h)" "list_all (leaves_schedule jid g) es"
    and "g \<longrightarrow> (case get_cron_job jid (ch_jobs h) of Some j \<Rightarrow> guaranteed j | None \<Rightarrow> True)"
  shows "\<exists>new. fires jid (foldl (cron_step lib) h es) = fires jid h @ new \<and> sorted_wrt (<) new \<and> list_all (may_fire jid h) new"
proof -
  have "clock_ok jid g h" using assms(2,4) by (auto simp: clock_ok_def)
  then show ?thesis using clock.log_run [of jid g h lib es] assms(1,3) by (auto simp: list_all_iff)
qed

definition demo_cron_lib :: cron_lib where
  "demo_cron_lib = \<lparr>cl_next = (\<lambda>s t. if t < 300 then Some (t + 100) else None), cl_iso = (\<lambda>t. []), cl_parse = (\<lambda>s. None),
     cl_print = (\<lambda>j. []), cl_role = (\<lambda>a r. None)\<rparr>"

definition demo_job :: CronJob where
  "demo_job = \<lparr>cj_id = ''j'', cj_schedule = ''s'', cj_target_role = ''r'', cj_target_node_id = None, cj_payload = ''{}'',
     guaranteed = True, cj_enabled = True, last_fired_epoch = None, next_fire_at = 100, cj_created_at = 0,
     created_by = Operator, silent_ok = False, session_target = Isolated\<rparr>"

definition demo_cron :: cron_hotel where
  "demo_cron = \<lparr>ch_jobs = [(''j'', demo_job)], ch_inbox = inbox_new, ch_sent = [], ch_sweeps = []\<rparr>"

definition demo_ticker :: CronTicker where
  "demo_ticker = \<lparr>ct_node = ''n'', offset_ms = 5, memory_hygiene = None, dream_sweep = None, autonomy_sweep = None,
     architect_charter = None,
     ct_park = \<lparr>pe_local_node = ''n'', pe_operator_surface = False, pe_hotel_name = None, pe_role_of_guest = (\<lambda>g. None),
       pe_materializer = False, pe_target_guest = (\<lambda>d. None), pe_session = (\<lambda>d. None)\<rparr>\<rparr>"

definition demo_fire :: "nat \<Rightarrow> string \<Rightarrow> fire_env" where
  "demo_fire n jid = \<lparr>fe_task_id = of_nat n, fe_append_ok = True, fe_broadcast_ok = True, fe_write_ok = True\<rparr>"

lemma claim_short:
  "Suc (length (order c)) \<le> MAX_CLAIMS \<Longrightarrow> x \<notin> claimed c \<Longrightarrow>
     claim x c = (True, c\<lparr>claimed := insert x (claimed c), order := order c @ [x]\<rparr>)"
  by (simp add: claim_def evict.simps)

definition demo_cron_events :: "cron_event list" where
  "demo_cron_events = [Tick demo_ticker (demo_fire 1) 104, Tick demo_ticker (demo_fire 1) 105, PeerFired True ''j'' 200,
     Tick demo_ticker (demo_fire 2) 1000]"

lemma demo_later: "later demo_cron_lib"
  by (simp add: later_def demo_cron_lib_def)

lemma demo_cron_fires: "fires ''j'' (foldl (cron_step demo_cron_lib) demo_cron demo_cron_events) = [100, 300]"
  by (simp add: demo_cron_events_def cron_tick_def fire_all_def list_due_cron_jobs_def list_cron_jobs_def demo_cron_def demo_job_def
      u64_saturating_add_def demo_ticker_def fire_def HYGIENE_ROLE_def DREAM_ROLE_def AUTONOMY_ROLE_def CHARTER_PREFIX_def
      starts_with_def fire_task_def demo_fire_def claim_short MAX_CLAIMS_def Let_def advance_schedule_def next_fire_after_def
      demo_cron_lib_def upsert_cron_job_def append_cron_def handle_cron_fired_broadcast_def get_cron_job_def tbl_get_def put_job_def
      inbox_new_def claims_default_def fires_def List.map_filter_def deliver_fired_def role_subscribers_def resolve_target_role_record_def
      deliver_inbound_task_def matching_subscribers_def drop_stale_def)

theorem cron_epoch_at_most_once_witness:
  "\<exists>new. fires ''j'' (foldl (cron_step demo_cron_lib) demo_cron demo_cron_events) = fires ''j'' demo_cron @ new
     \<and> sorted_wrt (<) new \<and> list_all (may_fire ''j'' demo_cron) new \<and> new = [100, 300]"
proof -
  have "jobs_ok (ch_jobs demo_cron)" "fires ''j'' demo_cron = []" "get_cron_job ''j'' (ch_jobs demo_cron) = Some demo_job"
    by (simp_all add: demo_cron_def demo_job_def jobs_ok_def tbl_wf_def fires_def List.map_filter_def get_cron_job_def tbl_get_def)
  moreover have "list_all (leaves_schedule ''j'' True) demo_cron_events"
    by (simp add: demo_cron_events_def demo_fire_def)
  ultimately show ?thesis
    using cron_epoch_at_most_once [of demo_cron_lib demo_cron "''j''" True demo_cron_events] demo_later demo_cron_fires
    by (simp add: demo_job_def)
qed

subsection \<open>Where an epoch does go out twice\<close>

text \<open>The conditions above are needed. A peer's start-up broadcast of its older copy, a failing write, re-enabling an
  exhausted job, and an announcement of the last occurrence (which has no successor and is dropped) each make the
  ticker send a task for an epoch that was already served. A job removed while a tick is under way comes back.\<close>

lemmas cron_demo_defs = cron_tick_def fire_all_def list_due_cron_jobs_def list_cron_jobs_def demo_cron_def demo_job_def
  u64_saturating_add_def demo_ticker_def fire_def HYGIENE_ROLE_def DREAM_ROLE_def AUTONOMY_ROLE_def CHARTER_PREFIX_def
  starts_with_def fire_task_def demo_fire_def claim_short MAX_CLAIMS_def Let_def advance_schedule_def next_fire_after_def
  demo_cron_lib_def upsert_cron_job_def append_cron_def handle_cron_fired_broadcast_def get_cron_job_def tbl_get_def put_job_def
  inbox_new_def claims_default_def fires_def List.map_filter_def deliver_fired_def role_subscribers_def resolve_target_role_record_def
  deliver_inbound_task_def matching_subscribers_def drop_stale_def

lemma older_copy_refires:
  "fires ''j'' (foldl (cron_step demo_cron_lib) demo_cron
     [Tick demo_ticker (demo_fire 1) 105, PeerSync True ''upsert'' (Some demo_job) None, Tick demo_ticker (demo_fire 2) 106]) = [100, 100]"
  by (simp add: cron_demo_defs handle_cron_job_sync_def)

lemma failed_write_refires:
  "fires ''j'' (foldl (cron_step demo_cron_lib) demo_cron
     [Tick demo_ticker (\<lambda>j. (demo_fire 1 j)\<lparr>fe_write_ok := False\<rparr>) 105, Tick demo_ticker (demo_fire 2) 106]) = [100, 100]"
  by (simp add: cron_demo_defs)

lemma reenabled_exhausted_refires:
  "fires ''j'' (foldl (cron_step demo_cron_lib) (demo_cron\<lparr>ch_jobs := [(''j'', demo_job\<lparr>guaranteed := False, next_fire_at := 300\<rparr>)]\<rparr>)
     [Tick demo_ticker (demo_fire 1) 300, SetEnabled True True True ''j'', Tick demo_ticker (demo_fire 2) 301]) = [300, 300]"
  by (simp add: cron_demo_defs set_enabled_request_def save_and_sync_def)

lemma last_announcement_ignored:
  "cl_next lib (cj_schedule job) epoch = None \<Longrightarrow> get_cron_job jid (ch_jobs h) = Some job \<Longrightarrow>
     handle_cron_fired_broadcast lib ok jid epoch h = h"
  by (simp add: handle_cron_fired_broadcast_def next_fire_after_def)

lemma announced_last_epoch_fires:
  "fires ''j'' (foldl (cron_step demo_cron_lib) (demo_cron\<lparr>ch_jobs := [(''j'', demo_job\<lparr>next_fire_at := 300\<rparr>)]\<rparr>)
     [PeerFired True ''j'' 300, Tick demo_ticker (demo_fire 1) 305]) = [300]"
  by (simp add: cron_demo_defs)

lemma removed_job_returns:
  "get_cron_job ''j'' (ch_jobs (fire demo_cron_lib demo_ticker (demo_fire 1 ''j'') 105 demo_job
     (snd (remove_cron_job_request True True ''j'' demo_cron)))) \<noteq> None"
  by (simp add: cron_demo_defs remove_cron_job_request_def remove_cron_job_def tbl_del_def)

subsection \<open>What a task carries\<close>

lemma json_get_set [simp]: "jget (json_set k v (JObj fs)) k' = (if k' = k then Some v else jget (JObj fs) k')"
  by (simp add: tbl_get_put)

lemma json_set_obj: "\<exists>gs. json_set k v (JObj fs) = JObj gs"
  by simp

text \<open>Every task is an object; only \<open>message_task\<close> can add the tools.\<close>

definition carries :: "json \<Rightarrow> json option \<Rightarrow> bool" where
  "carries task tools \<longleftrightarrow> (\<exists>fs. task = JObj fs \<and> tbl_get fs ''cron_preapproved_tools'' = tools)"

lemma carries_set: "carries task tools \<Longrightarrow> k \<noteq> ''cron_preapproved_tools'' \<Longrightarrow> carries (json_set k v task) tools"
  by (auto simp: carries_def tbl_get_put)

lemma carries_copy: "carries task tools \<Longrightarrow> k \<noteq> ''cron_preapproved_tools'' \<Longrightarrow> carries (copy_field src k task) tools"
  by (auto simp: copy_field_def carries_set split: option.splits)

lemma carries_base: "carries (base_task job epoch pl) None"
  by (simp add: carries_def base_task_def json_object_def tbl_get_put) (simp add: tbl_get_def)

lemma carries_message:
  "carries (message_task job epoch data pl) (let ts = preapproved_tools job pl in if ts \<noteq> [] then Some (JArr ts) else None)"
proof -
  have "carries (case task_content pl of Some c \<Rightarrow> json_set ''content'' (JStr c) (base_task job epoch (JStr data))
      | None \<Rightarrow> base_task job epoch (JStr data)) None"
    by (simp add: carries_base carries_set split: option.split)
  then have "carries (copy_field pl ''session_id'' (copy_field pl ''chat_id'' (copy_field pl ''source''
      (case task_content pl of Some c \<Rightarrow> json_set ''content'' (JStr c) (base_task job epoch (JStr data))
      | None \<Rightarrow> base_task job epoch (JStr data))))) None"
    by (intro carries_copy) simp_all
  then show ?thesis by (auto simp: message_task_def Let_def carries_def tbl_get_put)
qed

lemma carries_signal: "carries (signal_task job epoch node pl seed) None"
  by (simp add: signal_task_def Let_def carries_set carries_base)

definition task_tools :: "cron_lib \<Rightarrow> CronJob \<Rightarrow> string \<Rightarrow> json list" where
  "task_tools lib job data =
     (case cl_parse lib data of
        Some pl \<Rightarrow> if jget pl ''paracrine_signal'' = None then preapproved_tools job pl else []
      | None \<Rightarrow> [])"

lemma build_routed:
  "\<exists>fs. build_cron_task lib job epoch node data = apply_cron_session_routing job (JObj fs)
     \<and> tbl_get fs ''cron_preapproved_tools'' =
         (if task_tools lib job data \<noteq> [] then Some (JArr (task_tools lib job data)) else None)"
proof (cases "cl_parse lib data")
  case None
  then show ?thesis using carries_base [of job epoch "JStr data"] by (auto simp: build_cron_task_def task_tools_def carries_def)
next
  case (Some pl)
  then show ?thesis
    using carries_message [of job epoch data pl] carries_signal [of job epoch node pl "the (jget pl ''paracrine_signal'')"]
    by (auto simp: build_cron_task_def task_tools_def carries_def Let_def split: option.split if_splits)
qed

text \<open>A task of a cron job pre-approves tools only if the job was created by the operator, and then exactly
  the non-blank names its payload lists; a job registered through a request always runs in its own session
  \<open>cron:<id>\<close>, whatever session its payload names.\<close>

theorem cron_task_authority:
  "(jget (build_cron_task lib job epoch node data) ''cron_preapproved_tools'' =
      (if created_by job = Operator \<and> task_tools lib job data \<noteq> [] then Some (JArr (task_tools lib job data)) else None))
   \<and> list_all (\<lambda>t. \<exists>s. t = JStr s \<and> trim s \<noteq> []) (task_tools lib job data)
   \<and> (case get_cron_job (cj_id job) (ch_jobs (snd (register_cron_job lib True sync_ok job h))) of
        Some job' \<Rightarrow> jget (build_cron_task lib job' epoch node data) ''session_id'' = Some (JStr (''cron:'' @ cj_id job))
      | None \<Rightarrow> False)"
proof (intro conjI)
  have none: "created_by job \<noteq> Operator \<Longrightarrow> task_tools lib job data = []"
    by (cases "created_by job") (simp_all add: task_tools_def preapproved_tools_def split: option.split)
  then show "jget (build_cron_task lib job epoch node data) ''cron_preapproved_tools'' =
      (if created_by job = Operator \<and> task_tools lib job data \<noteq> [] then Some (JArr (task_tools lib job data)) else None)"
    using build_routed [of lib job epoch node data]
    by (auto simp: apply_cron_session_routing_def tbl_get_put)
  have str: "as_str t = Some s \<longleftrightarrow> t = JStr s" for t s by (cases t) auto
  show "list_all (\<lambda>t. \<exists>s. t = JStr s \<and> trim s \<noteq> []) (task_tools lib job data)"
    by (auto simp: task_tools_def preapproved_tools_def list_all_iff str split: option.splits CronJobSource.splits json.splits)
  let ?job = "(normalize_cron_target_role lib job)\<lparr>session_target := Isolated\<rparr>"
  have id: "cj_id ?job = cj_id job" by (simp add: normalize_cron_target_role_def split: CronJobSource.split)
  obtain fs where "build_cron_task lib ?job epoch node data = apply_cron_session_routing ?job (JObj fs)"
    using build_routed by blast
  then show "case get_cron_job (cj_id job) (ch_jobs (snd (register_cron_job lib True sync_ok job h))) of
        Some job' \<Rightarrow> jget (build_cron_task lib job' epoch node data) ''session_id'' = Some (JStr (''cron:'' @ cj_id job))
      | None \<Rightarrow> False"
    using id by (auto simp: register_cron_job_def save_and_sync_def get_upsert Let_def cron_session_id_def
        apply_cron_session_routing_def tbl_get_put)
qed

subsection \<open>Replicated jobs act only with the hotel's consent\<close>

fun consents :: "CronTicker \<Rightarrow> sweep \<Rightarrow> bool" where
  "consents tk (HygieneSweep now) \<longleftrightarrow> memory_hygiene tk = Some True"
| "consents tk DreamSweep \<longleftrightarrow> dream_sweep tk = Some (True, True)"
| "consents tk (AutonomySweep now) \<longleftrightarrow> autonomy_sweep tk \<noteq> None"

fun may_send :: "CronTicker \<Rightarrow> cron_append \<Rightarrow> bool" where
  "may_send tk (TaskAppend jid epoch env) \<longleftrightarrow>
     (if starts_with CHARTER_PREFIX jid then architect_charter tk = Some (jid, True) else True)
     \<and> target_agent_id env \<notin> {Some HYGIENE_ROLE, Some DREAM_ROLE, Some AUTONOMY_ROLE}"
| "may_send tk m \<longleftrightarrow> True"

definition grows :: "CronTicker \<Rightarrow> cron_hotel \<Rightarrow> cron_hotel \<Rightarrow> bool" where
  "grows tk h h' \<longleftrightarrow>
     (\<exists>ws ms. ch_sweeps h' = ch_sweeps h @ ws \<and> list_all (consents tk) ws \<and> ch_sent h' = ch_sent h @ ms \<and> list_all (may_send tk) ms)"

lemma grows_same: "ch_sweeps h' = ch_sweeps h \<Longrightarrow> ch_sent h' = ch_sent h \<Longrightarrow> grows tk h h'"
  by (simp add: grows_def)

lemma grows_trans: "grows tk h h1 \<Longrightarrow> grows tk h1 h2 \<Longrightarrow> grows tk h h2"
  unfolding grows_def by (metis append.assoc list_all_append)

lemma grows_append: "may_send tk m \<Longrightarrow> grows tk h (append_cron ok m h)"
  by (simp add: grows_def append_cron_def)

lemma grows_advance: "grows tk h h1 \<Longrightarrow> grows tk h (advance_schedule lib ok job e h1)"
  by (erule grows_trans) (simp add: grows_same advance_schedule_def Let_def)

lemma grows_fire_task:
  assumes "starts_with CHARTER_PREFIX (cj_id job) \<longrightarrow> charter_allowed tk job"
    and "cj_target_role job \<notin> {HYGIENE_ROLE, DREAM_ROLE, AUTONOMY_ROLE}"
  shows "grows tk h (fire_task lib tk fe now job h)"
proof -
  have send: "may_send tk (TaskAppend (cj_id job) e (cron_envelope tk job now i d))" for e i d
    using assms by (auto simp: cron_envelope_def charter_allowed_def split: option.splits prod.splits)
  obtain c claims where "claim (fe_task_id fe) (hi_claims (ch_inbox h)) = (c, claims)" by (cases "claim (fe_task_id fe) (hi_claims (ch_inbox h))")
  then show ?thesis
    using send by (cases c) (simp_all add: fire_task_def Let_def grows_def advance_schedule_def append_cron_def)
qed

lemma grows_fire: "grows tk h (fire lib tk fe now job h)"
proof -
  have "grows tk h (fire_memory_hygiene tk now h)" "grows tk h (fire_dream_sweep tk h)" "grows tk h (fire_autonomy_sweep tk job now h)"
    by (auto simp: grows_def fire_memory_hygiene_def fire_dream_sweep_def fire_autonomy_sweep_def log_sweep_def split: option.split)
  moreover have "grows tk h h" by (simp add: grows_same)
  ultimately show ?thesis
    by (auto simp: fire_def Let_def intro!: grows_advance grows_fire_task)
qed

lemma grows_scan: "(\<And>h job. grows tk h (f h job)) \<Longrightarrow> grows tk h (foldl f h jobs)"
  by (induction jobs arbitrary: h) (auto simp: grows_same intro: grows_trans)

lemma grows_put: "grows tk h (put_job ok j h)"
  by (simp add: grows_same put_job_def)

lemma grows_save: "grows tk h (save_and_sync ok sync_ok j h)"
  by (auto simp: save_and_sync_def grows_same intro!: grows_trans [OF grows_put grows_append])

lemma grows_recover: "grows tk h (recover_job lib tk fes now h job)"
  by (simp add: recover_job_def grows_fire grows_advance grows_same)

fun run_by :: "CronTicker \<Rightarrow> cron_event \<Rightarrow> bool" where
  "run_by tk (Tick tk' fes now) \<longleftrightarrow> tk' = tk"
| "run_by tk (Recover tk' fes now) \<longleftrightarrow> tk' = tk"
| "run_by tk e \<longleftrightarrow> True"

lemma grows_tick: "grows tk h (cron_tick lib tk fes now h)"
  unfolding cron_tick_def fire_all_def by (rule grows_scan) (rule grows_fire)

lemma grows_step: "run_by tk e \<Longrightarrow> grows tk h (cron_step lib h e)"
proof (cases e)
  case (RemoveJob ok sync_ok k)
  have "grows tk h (h\<lparr>ch_jobs := remove_cron_job k (ch_jobs h)\<rparr>)" by (simp add: grows_same)
  then have "grows tk h (append_cron sync_ok (SyncRemove k) (h\<lparr>ch_jobs := remove_cron_job k (ch_jobs h)\<rparr>))"
    by (rule grows_trans) (simp add: grows_append)
  then show ?thesis using RemoveJob by (simp add: remove_cron_job_request_def grows_same)
qed (auto simp: grows_tick recovery_scan_def startup_sync_def handle_cron_fired_broadcast_def handle_cron_job_sync_def
      register_cron_job_def set_enabled_request_def Let_def grows_recover grows_put grows_save grows_same grows_append
      intro!: grows_scan split: option.split)

interpretation consent: history "cron_step lib" "grows tk h0" "run_by tk" for lib tk h0
  by unfold_locales (auto intro: grows_trans grows_step)

text \<open>C18. Peers can put any job into a hotel's table at any time; still, over any history, a hotel runs its memory
  sweeps only if it has opted in itself, delivers a charter job only if it is its own and enabled, and never sends a
  task to an internal role.\<close>

theorem cron_needs_local_consent:
  assumes "list_all (run_by tk) es"
  shows "\<exists>ws ms. ch_sweeps (foldl (cron_step lib) h es) = ch_sweeps h @ ws \<and> list_all (consents tk) ws
     \<and> ch_sent (foldl (cron_step lib) h es) = ch_sent h @ ms \<and> list_all (may_send tk) ms"
  using consent.inv_run [of tk h h es lib] assms by (simp add: grows_def)

definition demo_peer_job :: CronJob where
  "demo_peer_job = demo_job\<lparr>cj_id := ''architect-charter:peer'', guaranteed := False\<rparr>"

definition demo_consent_events :: "cron_event list" where
  "demo_consent_events = [PeerSync True ''upsert'' (Some demo_peer_job) None, Tick demo_ticker (demo_fire 1) 105]"

theorem cron_needs_local_consent_witness:
  "\<exists>ws ms. ch_sweeps (foldl (cron_step demo_cron_lib) demo_cron demo_consent_events) = ch_sweeps demo_cron @ ws
     \<and> list_all (consents demo_ticker) ws
     \<and> ch_sent (foldl (cron_step demo_cron_lib) demo_cron demo_consent_events) = ch_sent demo_cron @ ms
     \<and> list_all (may_send demo_ticker) ms"
  using cron_needs_local_consent [of demo_ticker demo_consent_events demo_cron_lib demo_cron]
  by (simp add: demo_consent_events_def)

subsection \<open>Silent replies\<close>

lemma find_hd: "find P xs = (if filter P xs = [] then None else Some (hd (filter P xs)))"
  by (induction xs) auto

lemma find_last: "find P (rev xs) = (if filter P xs = [] then None else Some (last (filter P xs)))"
  by (simp add: find_hd rev_filter [symmetric] hd_rev)

lemma match_front_prefix: "match_front ws (p @ q) = None \<Longrightarrow> match_front ws p = None"
  by (auto simp: match_front_def find_None_iff starts_with_iff)

lemma trim_idem [simp]: "trim (trim s) = trim s"
proof -
  obtain t where "rev (trim_start s) = t @ strip_front (map rev ws_seqs) (rev (trim_start s))"
    using strip_front_suffix by blast
  then have "trim_start s = trim s @ rev t" by (metis rev_append rev_rev_ident trim_def trim_end_def)
  moreover have "match_front ws_seqs (trim_start s) = None" by (simp add: trim_start_def strip_front_done)
  ultimately have "trim_start (trim s) = trim s"
    by (metis match_front_prefix strip_front_id trim_start_def)
  then show ?thesis by (simp add: trim_def trim_end_def)
qed

lemma silent_token_chars:
  assumes "is_silent_token s" "trim s = s" "c \<in> set s"
  shows "c \<noteq> CHR 0x0A \<and> c \<noteq> CHR 0x0D"
proof -
  obtain tok where "tok \<in> set SILENT_TOKENS" "map ascii_lower s = map ascii_lower tok"
    using assms by (auto simp: is_silent_token_def list_ex_iff eq_ignore_ascii_case_def to_ascii_lowercase_def)
  moreover have "ascii_lower c \<in> set (map ascii_lower s)" using assms(3) by simp
  ultimately obtain x where "x \<in> set tok" "tok \<in> set SILENT_TOKENS" "ascii_lower c = ascii_lower x" by auto
  moreover have "byte x \<le> byte (ascii_lower x)" by (simp add: ascii_lower_def byte_char_of)
  moreover have "32 \<le> byte x" using calculation(1,2) by (auto simp: SILENT_TOKENS_def byte_def)
  moreover have "byte (ascii_lower CHR 0x0A) = 10" "byte (ascii_lower CHR 0x0D) = 13" by (simp_all add: ascii_lower_def byte_def)
  ultimately show ?thesis by auto
qed

lemma split_on_none: "c \<notin> set s \<Longrightarrow> split_on c s = [s]"
  by (induction s) auto

lemma lines_of_single: "s \<noteq> [] \<Longrightarrow> CHR 0x0A \<notin> set s \<Longrightarrow> CHR 0x0D \<notin> set s \<Longrightarrow> lines_of s = [s]"
  by (auto simp: lines_of_def split_on_none strip_cr_def) (metis last_in_set)

definition reply_lines :: "string \<Rightarrow> string list" where
  "reply_lines reply = filter (\<lambda>l. trim l \<noteq> []) (lines_of (trim reply))"

lemma is_silent_iff:
  "is_silent_cron_reply reply \<longleftrightarrow>
     reply_lines reply \<noteq> [] \<and> (is_silent_token (hd (reply_lines reply)) \<or> is_silent_token (last (reply_lines reply)))"
proof (cases "is_silent_token (trim reply) \<and> trim reply \<noteq> []")
  case True
  then have "lines_of (trim reply) = [trim reply]"
    using silent_token_chars [of "trim reply"] by (intro lines_of_single) auto
  then show ?thesis using True by (simp add: is_silent_cron_reply_def reply_lines_def Let_def)
next
  case False
  have nil: "lines_of [] = []" by (simp add: lines_of_def)
  show ?thesis
    using False nil find_hd [of "\<lambda>l. trim l \<noteq> []" "lines_of (trim reply)"] find_last [of "\<lambda>l. trim l \<noteq> []" "lines_of (trim reply)"]
    by (cases "trim reply = []") (auto simp: is_silent_cron_reply_def reply_lines_def Let_def)
qed

text \<open>A reply of a cron session is withheld from the operator exactly if it is a \<open>send_reply\<close> in the session of
  a registered job that allows it, and its first or last non-blank line is one of the silence tokens; a token inside
  other text, an unknown job or a malformed task never withholds a reply.\<close>

theorem silent_suppression_exact:
  "silent_cron_reply_suppressed lib t task \<longleftrightarrow>
     (\<exists>pl jid reply job. cl_parse lib task = Some pl \<and> jget pl ''action'' = Some (JStr ''send_reply'')
        \<and> jget pl ''session_id'' = Some (JStr (''cron:'' @ jid)) \<and> jget pl ''content'' = Some (JStr reply)
        \<and> get_cron_job jid t = Some job \<and> silent_ok job \<and> reply_lines reply \<noteq> []
        \<and> (is_silent_token (hd (reply_lines reply)) \<or> is_silent_token (last (reply_lines reply))))"
proof -
  have str: "as_str v = Some s \<longleftrightarrow> v = JStr s" for v s by (cases v) auto
  have bind: "Option.bind (jget pl k) as_str = Some s \<longleftrightarrow> jget pl k = Some (JStr s)" for pl k s
    by (auto simp: bind_eq_Some_conv str)
  have pre: "strip_prefix ''cron:'' s = Some jid \<longleftrightarrow> s = ''cron:'' @ jid" for s jid
    by (auto simp: starts_with_iff)
  have pre': "strip_prefix ''cron:'' (CHR ''c'' # CHR ''r'' # CHR ''o'' # CHR ''n'' # CHR '':'' # jid) = Some jid" for jid
    by (simp add: starts_with_def)
  show ?thesis
    unfolding silent_cron_reply_suppressed_def is_silent_iff
    by (auto simp: bind pre pre' simp del: strip_prefix.simps split: option.splits)
qed

subsection \<open>Start-up registration is idempotent\<close>

text \<open>A registration never changes a job that exists, and repeating it at any later time changes nothing.\<close>

lemma ensure_job_idempotent:
  assumes "ensure_job lib ok jid sched role now h = Inr h'"
  shows "ensure_job lib ok' jid sched' role' now' h' = Inr h'"
    "get_cron_job k (ch_jobs h) = Some j \<Longrightarrow> get_cron_job k (ch_jobs h') = Some j"
  using assms by (auto simp: ensure_job_def get_upsert split: if_splits option.splits)

end
