(* ===== verification/Commands.thy ===== *)
theory Commands
  imports Prelude Tables
begin

section \<open>Inbound tasks and slash commands\<close>

text \<open>
  Models what an agent makes of the text of an inbound task (\<^verbatim>\<open>crates/philote/src/protocol.rs\<close>,
  \<open>normalized_user_content\<close> of \<^verbatim>\<open>runtime.rs\<close>, \<^verbatim>\<open>commands.rs\<close>): the content of a message, the slash commands an operator
  types or taps, and the presets of the \<open>/model\<close> command. Unicode lower case is a parameter, as elsewhere.
\<close>

subsection \<open>Inbound tasks\<close>

record TransportAttachment =
  at_kind :: string
  at_file_id :: string
  at_file_name :: "string option"
  at_mime :: "string option"

text \<open>The fields of \<open>InboundTaskPayload\<close> the handling of a user message looks at; \<open>it_paracrine_id\<close> is the one of the
  exosome, and \<open>it_paracrine_signal\<close> says that the task carries a signal.\<close>

record InboundTask =
  it_action :: "string option"
  it_turn :: "string option"
  it_chat :: "string option"
  it_chat_type :: "string option"
  it_first_name :: "string option"
  it_username :: "string option"
  it_message_kind :: "string option"
  it_content :: "string option"
  it_attachments :: "TransportAttachment list"
  it_command :: "string option"
  it_callback :: "string option"
  it_paracrine_id :: "string option"
  it_requires_approval :: bool
  it_cron_job :: "string option"
  it_cron_tools :: "string list"
  it_transport :: "string option"
  it_source :: "string option"
  it_paracrine_signal :: bool

definition default_task :: InboundTask where
  "default_task = \<lparr>it_action = None, it_turn = None, it_chat = None, it_chat_type = None, it_first_name = None, it_username = None,
     it_message_kind = None, it_content = None, it_attachments = [], it_command = None, it_callback = None,
     it_paracrine_id = None, it_requires_approval = False, it_cron_job = None, it_cron_tools = [],
     it_transport = None, it_source = None, it_paracrine_signal = False\<rparr>"

definition is_group_chat_task :: "InboundTask \<Rightarrow> bool" where
  "is_group_chat_task t =
     (case it_chat_type t of
        Some k \<Rightarrow> k = ''group'' \<or> k = ''supergroup''
      | None \<Rightarrow> (case it_chat t of Some c \<Rightarrow> starts_with ''-'' c | None \<Rightarrow> False))"

definition nonempty :: "string \<Rightarrow> string option" where
  "nonempty s = (if s = [] then None else Some s)"

definition describe_transport_attachment :: "TransportAttachment \<Rightarrow> string" where
  "describe_transport_attachment a =
     join '' '' ([at_kind a]
       @ (case Option.bind (at_file_name a) nonempty of Some n \<Rightarrow> [n] | None \<Rightarrow> [])
       @ (case Option.bind (at_mime a) nonempty of Some n \<Rightarrow> [n] | None \<Rightarrow> [])
       @ (if at_file_id a \<noteq> [] then [''file_id='' @ at_file_id a] else []))"

definition normalized_user_content :: "InboundTask \<Rightarrow> string option" where
  "normalized_user_content t =
     (let prefix = (if is_group_chat_task t
                    then map_option (\<lambda>n. ''['' @ n @ '']: '') (case it_first_name t of Some n \<Rightarrow> Some n | None \<Rightarrow> it_username t)
                    else None)
      in case Option.bind (it_content t) (\<lambda>c. nonempty (trim c)) of
           Some c \<Rightarrow> Some (case prefix of Some p \<Rightarrow> p @ c | None \<Rightarrow> c)
         | None \<Rightarrow>
             (case Option.bind (it_callback t) (\<lambda>c. nonempty (trim c)) of
                Some cb \<Rightarrow> Some (''Callback action: '' @ cb)
              | None \<Rightarrow>
                  if it_attachments t \<noteq> []
                  then Some (''User sent a '' @ (case it_message_kind t of Some k \<Rightarrow> k | None \<Rightarrow> ''attachment'')
                         @ '' message with attachments: '' @ join '', '' (map describe_transport_attachment (it_attachments t)) @ ''.'')
                  else map_option (\<lambda>k. ''User sent a '' @ k @ '' message.'') (it_message_kind t)))"

subsection \<open>Slash commands\<close>

datatype SlashCommand =
    Ping | Status | Context | Pause | Resume
  | Role string | Roles | Back
  | ToolsAdd string | ToolsClear | SkillsAdd string | SkillsClear | WorkspaceSet string | WorkspaceClear
  | Approve "string option" | Deny "string option" | Abandon "string option"
  | PreapproveThisSession | Preapprove string | ApprovalStatus | ApprovalReset | ApprovalClear "string option"
  | Tts "string option" | Voice "string option" "string option"
  | Model "string option" | ModelPresetCmd string | Models "string option"
  | Correct string string | Plan bool | Dirty | Sfw

definition reply_text :: "SlashCommand \<Rightarrow> string option" where
  "reply_text c = (case c of Ping \<Rightarrow> Some ''pong'' | Approve n \<Rightarrow> Some ''approved'' | Deny n \<Rightarrow> Some ''denied'' | _ \<Rightarrow> None)"

definition steering_note :: "SlashCommand \<Rightarrow> string option" where
  "steering_note c = (case c of Approve n \<Rightarrow> n | Deny n \<Rightarrow> n | Correct t x \<Rightarrow> Some x | _ \<Rightarrow> None)"

definition command_bypasses_turn_start :: "SlashCommand \<Rightarrow> bool" where
  "command_bypasses_turn_start c \<longleftrightarrow> c \<in> {Ping, Status, Context}"

definition join_command_note :: "string list \<Rightarrow> string option" where
  "join_command_note parts = nonempty (trim (join '' '' parts))"

definition normalize_voice_provider :: "(string \<Rightarrow> string) \<Rightarrow> string \<Rightarrow> string" where
  "normalize_voice_provider tbl raw =
     (let r = to_lowercase tbl raw in
      if r \<in> set [''kokoro'', ''onnx'', ''local''] then ''onnx''
      else if r \<in> set [''elevenlabs'', ''eleven'', ''11labs''] then ''elevenlabs''
      else if r \<in> set [''openai'', ''tts''] then ''openai''
      else r)"

definition normalize_model_tier :: "(string \<Rightarrow> string) \<Rightarrow> string \<Rightarrow> string" where
  "normalize_model_tier tbl raw =
     (if starts_with ''model.'' raw then raw
      else let r = to_lowercase tbl raw in
        if r \<in> set [''gemini'', ''cloud'', ''model''] then ''model''
        else if r = ''ollama'' then ''model.ollama''
        else if r \<in> set [''local'', ''onnx'', ''kokoro''] then ''model.local''
        else if r = ''mlx'' then ''model.mlx''
        else ''model.'' @ r)"

definition model_argument :: "(string \<Rightarrow> string) \<Rightarrow> string \<Rightarrow> SlashCommand" where
  "model_argument tbl arg =
     (let lowered = to_lowercase tbl arg in
      if starts_with ''model.'' arg
        \<or> lowered \<in> set [''ollama'', ''local'', ''onnx'', ''kokoro'', ''mlx'', ''cloud'', ''model'']
      then Model (Some (normalize_model_tier tbl arg))
      else ModelPresetCmd (if contains_sub ''/'' arg then arg else lowered))"

text \<open>The arms of \<open>parse_slash_command\<close>, by the first word.\<close>

definition command_of :: "(string \<Rightarrow> string) \<Rightarrow> string \<Rightarrow> string list \<Rightarrow> SlashCommand option" where
  "command_of tbl w rest =
     (if w = ''/ping'' then Some Ping
      else if w = ''/status'' then Some Status
      else if w = ''/context'' then Some Context
      else if w = ''/pause'' then Some Pause
      else if w = ''/resume'' then Some Resume
      else if w = ''/role'' then (case rest of r # _ \<Rightarrow> Some (Role r) | [] \<Rightarrow> None)
      else if w = ''/roles'' then Some Roles
      else if w = ''/back'' then Some Back
      else if w = ''/tools''
      then (case rest of a # xs \<Rightarrow> if a = ''add'' then (case xs of t # _ \<Rightarrow> Some (ToolsAdd t) | [] \<Rightarrow> None)
                                  else if a = ''clear'' then Some ToolsClear else None
            | [] \<Rightarrow> None)
      else if w = ''/skills''
      then (case rest of a # xs \<Rightarrow> if a = ''add'' then (case xs of t # _ \<Rightarrow> Some (SkillsAdd t) | [] \<Rightarrow> None)
                                  else if a = ''clear'' then Some SkillsClear else None
            | [] \<Rightarrow> None)
      else if w = ''/workspace''
      then (case rest of a # xs \<Rightarrow> if a = ''set'' then (case xs of t # _ \<Rightarrow> Some (WorkspaceSet t) | [] \<Rightarrow> None)
                                  else if a = ''clear'' then Some WorkspaceClear else None
            | [] \<Rightarrow> None)
      else if w = ''/approve'' then Some (Approve (join_command_note rest))
      else if w = ''/deny'' then Some (Deny (join_command_note rest))
      else if w = ''/abandon'' then Some (Abandon (join_command_note rest))
      else if w = ''/preapprove''
      then (case rest of a # _ \<Rightarrow> Some (if a = ''this-session'' then PreapproveThisSession else Preapprove a) | [] \<Rightarrow> None)
      else if w = ''/approval''
      then (case rest of
              a # xs \<Rightarrow> if a = ''status'' then Some ApprovalStatus
                        else if a = ''reset'' then Some ApprovalReset
                        else if a = ''clear'' then Some (ApprovalClear (join_command_note xs)) else None
            | [] \<Rightarrow> None)
      else if w = ''/tts'' then Some (Tts (case rest of m # _ \<Rightarrow> Some m | [] \<Rightarrow> None))
      else if w = ''/voice''
      then Some (case rest of
                   [] \<Rightarrow> Voice None None
                 | [p] \<Rightarrow> Voice (Some (normalize_voice_provider tbl p)) None
                 | p # v # _ \<Rightarrow> Voice (Some (normalize_voice_provider tbl p)) (Some v))
      else if w = ''/models'' then Some (Models (case rest of [] \<Rightarrow> None | _ \<Rightarrow> Some (join '' '' rest)))
      else if w = ''/model'' then Some (case rest of [] \<Rightarrow> Model None | a # _ \<Rightarrow> model_argument tbl a)
      else if w = ''/correct''
      then (case rest of t # x # xs \<Rightarrow> Some (Correct t (join '' '' (x # xs))) | _ \<Rightarrow> None)
      else if w = ''/plan''
      then (case rest of
              [] \<Rightarrow> Some (Plan False)
            | a # _ \<Rightarrow> if a = ''drop'' then Some (Plan True) else if a = ''status'' then Some (Plan False) else None)
      else if w = ''/dirty'' then Some Dirty
      else if w = ''/sfw'' then Some Sfw
      else None)"

definition parse_slash_command :: "(string \<Rightarrow> string) \<Rightarrow> string \<Rightarrow> SlashCommand option" where
  "parse_slash_command tbl input =
     (if \<not> starts_with ''/'' (trim input) then None
      else (case split_whitespace (trim input) of [] \<Rightarrow> None | w # rest \<Rightarrow> command_of tbl w rest))"

subsection \<open>Model presets\<close>

record ModelPreset =
  mp_alias :: string
  mp_label :: string
  mp_tier :: string
  mp_model :: "string option"
  mp_description :: string

definition preset :: "string \<Rightarrow> string \<Rightarrow> string \<Rightarrow> string option \<Rightarrow> string \<Rightarrow> ModelPreset" where
  "preset a l t m d = \<lparr>mp_alias = a, mp_label = l, mp_tier = t, mp_model = m, mp_description = d\<rparr>"

definition model_presets :: "ModelPreset list" where
  "model_presets =
     [preset ''cydonia'' ''Cydonia 24B'' ''model.openrouter'' (Some ''thedrummer/cydonia-24b-v4.1'') ''uncensored RP companion'',
      preset ''dolphin'' ''Dolphin Venice'' ''model.openrouter''
        (Some ''cognitivecomputations/dolphin-mistral-24b-venice-edition:free'') ''free, most willing'',
      preset ''euryale'' ''Euryale 70B'' ''model.openrouter'' (Some ''sao10k/l3.1-euryale-70b'') ''bigger, best coherence'',
      preset ''deepseek'' ''DeepSeek V3.2'' ''model.openrouter'' (Some ''deepseek/deepseek-v3.2'') ''smartest, still willing'',
      preset ''glm'' ''GLM-5.2'' ''model.openrouter'' (Some ''z-ai/glm-5.2'') ''GLM-5.2'',
      preset ''gemini'' ''Gemini'' ''model'' None ''fast, filtered'']"

definition first_some :: "'a option \<Rightarrow> 'a option \<Rightarrow> 'a option" where
  "first_some a b = (case a of Some x \<Rightarrow> Some x | None \<Rightarrow> b)"

definition preset_of_entry :: "(string \<Rightarrow> string) \<Rightarrow> json \<Rightarrow> ModelPreset option" where
  "preset_of_entry tbl e =
     (case Option.bind (Option.bind (jget e ''alias'') as_str) (\<lambda>a. nonempty (to_lowercase tbl (trim a))) of
        None \<Rightarrow> None
      | Some a \<Rightarrow>
          let model = Option.bind (Option.bind (first_some (jget e ''model'') (jget e ''model_id'')) as_str) (\<lambda>m. nonempty (trim m));
              tier = Option.bind (Option.bind (first_some (jget e ''tier'') (jget e ''tier_role'')) as_str) (\<lambda>m. nonempty (trim m));
              label = Option.bind (jget e ''label'') as_str;
              descr = Option.bind (jget e ''description'') as_str
          in Some (preset a (case label of Some l \<Rightarrow> l | None \<Rightarrow> a)
                     (case tier of Some t \<Rightarrow> t | None \<Rightarrow> ''model.openrouter'') model
                     (case descr of Some d \<Rightarrow> d | None \<Rightarrow> [])))"

fun put_preset :: "ModelPreset \<Rightarrow> ModelPreset list \<Rightarrow> ModelPreset list" where
  "put_preset p [] = [p]"
| "put_preset p (q # qs) = (if mp_alias q = mp_alias p then p # qs else q # put_preset p qs)"

definition merge_entry :: "(string \<Rightarrow> string) \<Rightarrow> ModelPreset list \<Rightarrow> json \<Rightarrow> ModelPreset list" where
  "merge_entry tbl ps e = (case preset_of_entry tbl e of None \<Rightarrow> ps | Some p \<Rightarrow> put_preset p ps)"

text \<open>\<open>parse\<close> is the JSON parser.\<close>

definition merge_config_model_presets ::
  "(string \<Rightarrow> string) \<Rightarrow> (string \<Rightarrow> json option) \<Rightarrow> string option \<Rightarrow> ModelPreset list" where
  "merge_config_model_presets tbl parse config =
     (case Option.bind config parse of
        Some (JArr entries) \<Rightarrow> foldl (merge_entry tbl) model_presets entries
      | _ \<Rightarrow> model_presets)"

definition find_preset :: "ModelPreset list \<Rightarrow> string \<Rightarrow> ModelPreset option" where
  "find_preset ps a = find (\<lambda>p. mp_alias p = a) ps"

definition resolve_model_preset :: "(string \<Rightarrow> string) \<Rightarrow> string \<Rightarrow> ModelPreset list \<Rightarrow> ModelPreset option" where
  "resolve_model_preset tbl alias ps =
     (case find_preset ps (to_lowercase tbl (trim alias)) of
        Some p \<Rightarrow> Some p
      | None \<Rightarrow>
          let raw = trim alias in
          if contains_sub ''/'' raw \<and> \<not> starts_with ''/'' raw \<and> \<not> (raw \<noteq> [] \<and> last raw = CHR ''/'')
          then Some (preset raw raw ''model.openrouter'' (Some raw) ''direct OpenRouter model'') else None)"

subsection \<open>What an operator can rely on\<close>

lemma find_put_preset:
  "find_preset (put_preset p ps) a = (if a = mp_alias p then Some p else find_preset ps a)"
  by (induction ps) (auto simp: find_preset_def)

lemma find_merged:
  "find_preset (foldl (merge_entry tbl) ps entries) a =
     first_some (find (\<lambda>p. mp_alias p = a) (rev (List.map_filter (preset_of_entry tbl) entries))) (find_preset ps a)"
proof (induction entries rule: rev_induct)
  case (snoc e es)
  then show ?case
    by (cases "preset_of_entry tbl e") (simp_all add: merge_entry_def List.map_filter_def find_put_preset first_some_def)
qed (simp add: first_some_def List.map_filter_def)

text \<open>The presets an operator chooses from are the built-in ones overridden by the configuration: an alias names the last
  well-formed configuration entry with it, else the built-in preset; entries without an alias are skipped, and a
  configuration that is no JSON array changes nothing.\<close>

theorem config_presets_win:
  "find_preset (merge_config_model_presets tbl parse config) a =
     first_some
       (case Option.bind config parse of
          Some (JArr entries) \<Rightarrow> find (\<lambda>p. mp_alias p = a) (rev (List.map_filter (preset_of_entry tbl) entries))
        | _ \<Rightarrow> None)
       (find_preset model_presets a)"
  by (auto simp: merge_config_model_presets_def find_merged first_some_def split: option.split json.split)

text \<open>A message in a group chat carries the sender's name in front, so nothing a group member types, and no button
  tapped there, is taken as a command.\<close>

lemma strip_front_keeps_last:
  "x \<notin> \<Union> (set ` set ws) \<Longrightarrow> \<exists>u. strip_front ws (v @ [x]) = u @ [x]"
proof (induction ws "v @ [x]" arbitrary: v rule: strip_front.induct)
  case (1 ws)
  show ?case
  proof (cases "match_front ws (v @ [x])")
    case (Some w)
    then have w: "starts_with w (v @ [x])" "w \<in> set ws" by (auto dest: match_front_Some)
    then obtain r where r: "v @ [x] = w @ r" by (auto simp: starts_with_iff)
    have "r \<noteq> []"
    proof
      assume "r = []"
      with r have "x \<in> set w" by (metis append_Nil2 in_set_conv_decomp)
      with w(2) "1.prems" show False by blast
    qed
    with r obtain v' where v': "r = v' @ [x]" by (metis append_butlast_last_id last_appendR last_snoc)
    have "\<exists>u. strip_front ws (v' @ [x]) = u @ [x]"
      using "1.hyps" [OF Some, of v'] "1.prems" r v' by simp
    moreover have "strip_front ws (v @ [x]) = strip_front ws (v' @ [x])"
      using r v' Some by (subst strip_front.simps) simp
    ultimately show ?thesis by simp
  qed (simp add: strip_front.simps)
qed

lemma trim_bracket: "\<exists>u. trim (CHR ''['' # s) = CHR ''['' # u"
proof -
  have "trim_start (CHR ''['' # s) = CHR ''['' # s"
    by (simp add: trim_start_def strip_front.simps match_front_def ws_seqs_def starts_with_def)
  moreover have "\<exists>u. strip_front (map rev ws_seqs) (rev s @ [CHR ''['']) = u @ [CHR ''['']"
    by (rule strip_front_keeps_last) (simp add: ws_seqs_def)
  ultimately show ?thesis by (metis rev.simps(2) rev_rev_ident rev_append singleton_rev_conv append_Cons append_Nil trim_def trim_end_def)
qed

lemma group_messages_are_no_commands:
  assumes "is_group_chat_task t" "it_first_name t \<noteq> None \<or> it_username t \<noteq> None" "it_content t = Some c" "trim c \<noteq> []"
  shows "\<exists>s. normalized_user_content t = Some s \<and> parse_slash_command tbl s = None"
proof -
  obtain n where "normalized_user_content t = Some (CHR ''['' # n @ '']: '' @ trim c)"
    using assms by (cases "it_first_name t"; cases "it_username t") (auto simp: normalized_user_content_def nonempty_def)
  then show ?thesis
    using trim_bracket [of "n @ '']: '' @ trim c"] by (auto simp: parse_slash_command_def starts_with_def)
qed

text \<open>Outside group chats a tapped button and a typed command read the same.\<close>

lemma slash_approve [simp]: "parse_slash_command tbl ''/approve'' = Some (Approve None)"
  by (simp add: parse_slash_command_def command_of_def join_command_note_def nonempty_def split_whitespace_def trim_def
      trim_start_def trim_end_def strip_front.simps match_front_def ws_seqs_def starts_with_def is_cont_byte_def byte_def)

end
