(* ===== verification/ScriptedLoop.thy ===== *)
theory ScriptedLoop
  imports Prelude Tables
begin

section \<open>Scripted loops\<close>

text \<open>
  Models the executor of a role's loop script (\<^verbatim>\<open>crates/philote/src/scripted_loop.rs\<close>): the script (\<^verbatim>\<open>graph.rs\<close>), the
  cursors, the outputs of the steps by identifier, dot paths into them, and what the executor wants the agent to do next.
  Error texts are shortened.
\<close>

record LoopStep =
  sl_id :: string
  sl_type :: string
  sl_input :: "string option"
  sl_config :: json

record LoopScript =
  sc_variant :: string
  sc_steps :: "LoopStep list"

text \<open>\<open>sx_due\<close>: the handler that advanced the executor is about to ask it for the next decision.\<close>

record ScriptedLoopExecutor =
  sx_script :: LoopScript
  sx_step :: nat
  sx_tool :: nat
  sx_outputs :: "(string \<times> json) list"
  sx_due :: bool

datatype ScriptedLoopDecision =
    EmitModelCall string "string option"
  | ParkForApproval string string string
  | ExecuteNextTool string json
  | ToolSequenceComplete
  | ForceCheckpoint
  | ScriptComplete json
  | ScriptFail string

definition new_executor :: "LoopScript \<Rightarrow> ScriptedLoopExecutor" where
  "new_executor script = \<lparr>sx_script = script, sx_step = 0, sx_tool = 0, sx_outputs = [], sx_due = False\<rparr>"

definition current_step :: "ScriptedLoopExecutor \<Rightarrow> LoopStep option" where
  "current_step x = (if sx_step x < length (sc_steps (sx_script x)) then Some (sc_steps (sx_script x) ! sx_step x) else None)"

definition advance_past_tool_sequence :: "ScriptedLoopExecutor \<Rightarrow> ScriptedLoopExecutor" where
  "advance_past_tool_sequence x = x\<lparr>sx_step := sx_step x + 1, sx_tool := 0\<rparr>"

definition record_step_output :: "json \<Rightarrow> ScriptedLoopExecutor \<Rightarrow> ScriptedLoopExecutor" where
  "record_step_output out x =
     advance_past_tool_sequence
       (case current_step x of Some st \<Rightarrow> x\<lparr>sx_outputs := tbl_put (sl_id st) out (sx_outputs x)\<rparr> | None \<Rightarrow> x)"

definition advance_tool_cursor :: "ScriptedLoopExecutor \<Rightarrow> ScriptedLoopExecutor" where
  "advance_tool_cursor x = x\<lparr>sx_tool := sx_tool x + 1\<rparr>"

definition record_tool_result :: "json \<Rightarrow> ScriptedLoopExecutor \<Rightarrow> ScriptedLoopExecutor" where
  "record_tool_result r x =
     (case current_step x of
        None \<Rightarrow> x
      | Some st \<Rightarrow> (case tbl_get (sx_outputs x) (sl_id st) of
                      None \<Rightarrow> x\<lparr>sx_outputs := tbl_put (sl_id st) (JArr [r]) (sx_outputs x)\<rparr>
                    | Some (JArr rs) \<Rightarrow> x\<lparr>sx_outputs := tbl_put (sl_id st) (JArr (rs @ [r])) (sx_outputs x)\<rparr>
                    | Some _ \<Rightarrow> x))"

subsection \<open>Paths\<close>

fun resolve_json_path :: "json \<Rightarrow> string list \<Rightarrow> json option" where
  "resolve_json_path v [] = Some v"
| "resolve_json_path v (k # ks) =
     Option.bind (case v of
                    JObj fs \<Rightarrow> tbl_get fs k
                  | JArr xs \<Rightarrow> (case parse_unsigned u64_max k of Some i \<Rightarrow> if i < length xs then Some (xs ! i) else None | None \<Rightarrow> None)
                  | _ \<Rightarrow> None)
       (\<lambda>child. resolve_json_path child ks)"

definition resolve_input :: "ScriptedLoopExecutor \<Rightarrow> string \<Rightarrow> json option" where
  "resolve_input x path =
     (if path = [] then None
      else case split_on CHR ''.'' path of
             root # rest \<Rightarrow> Option.bind (tbl_get (sx_outputs x) root) (\<lambda>v. resolve_json_path v rest)
           | [] \<Rightarrow> None)"

subsection \<open>The next decision\<close>

definition config_or :: "LoopStep \<Rightarrow> string \<Rightarrow> string \<Rightarrow> string" where
  "config_or st k other = (case Option.bind (jget (sl_config st) k) as_str of Some s \<Rightarrow> s | None \<Rightarrow> other)"

text \<open>The next entry of a tool sequence: its input must resolve to an array, and an entry must name its tool.\<close>

definition next_tool :: "ScriptedLoopExecutor \<Rightarrow> LoopStep \<Rightarrow> ScriptedLoopDecision" where
  "next_tool x st =
     (case resolve_input x (case sl_input st of Some p \<Rightarrow> p | None \<Rightarrow> []) of
        Some (JArr ts) \<Rightarrow>
          if sx_tool x \<ge> length ts then ToolSequenceComplete
          else (case Option.bind (jget (ts ! sx_tool x) ''tool_name'') as_str of
                  None \<Rightarrow> ScriptFail ''tool_sequence step missing tool_name''
                | Some nm \<Rightarrow> ExecuteNextTool nm (case jget (ts ! sx_tool x) ''arguments'' of Some a \<Rightarrow> a | None \<Rightarrow> JObj []))
      | _ \<Rightarrow> ScriptFail ''tool_sequence input did not resolve to an array'')"

definition advance_script :: "ScriptedLoopExecutor \<Rightarrow> ScriptedLoopDecision" where
  "advance_script x =
     (case current_step x of
        None \<Rightarrow>
          ScriptComplete (case sc_steps (sx_script x) of
                            [] \<Rightarrow> JNull
                          | sts \<Rightarrow> (case tbl_get (sx_outputs x) (sl_id (last sts)) of Some v \<Rightarrow> v | None \<Rightarrow> JNull))
      | Some st \<Rightarrow>
          if sl_type st = ''model_call''
          then EmitModelCall (config_or st ''phase'' ''respond'') (Option.bind (jget (sl_config st) ''output_schema'') as_str)
          else if sl_type st = ''approval_gate''
          then ParkForApproval (config_or st ''gate'' ''operator'') (config_or st ''surface_as'' ''raw'') (config_or st ''reject_action'' ''fail_turn'')
          else if sl_type st = ''tool_sequence'' then next_tool x st
          else if sl_type st = ''checkpoint'' then ForceCheckpoint
          else ScriptFail ''unknown loop step type'')"

subsection \<open>Cursors\<close>

text \<open>Recording an output moves to the next step and leaves the outputs of the others; recording a tool result stays.\<close>

lemma executor_cursors [simp]:
  "sx_step (advance_past_tool_sequence x) = sx_step x + 1" "sx_tool (advance_past_tool_sequence x) = 0"
  "sx_step (record_step_output out x) = sx_step x + 1" "sx_tool (record_step_output out x) = 0"
  "sx_step (record_tool_result r x) = sx_step x" "sx_tool (record_tool_result r x) = sx_tool x"
  by (auto simp: advance_past_tool_sequence_def record_step_output_def record_tool_result_def split: option.splits json.splits)

lemma executor_script [simp]:
  "sx_script (advance_past_tool_sequence x) = sx_script x" "sx_script (record_step_output out x) = sx_script x"
  "sx_script (record_tool_result r x) = sx_script x" "sx_script (advance_tool_cursor x) = sx_script x"
  by (auto simp: advance_past_tool_sequence_def record_step_output_def record_tool_result_def advance_tool_cursor_def
      split: option.splits json.splits)

lemma step_output_kept:
  "tbl_get (sx_outputs (record_step_output out x)) k
     = (if sx_step x < length (sc_steps (sx_script x)) \<and> k = sl_id (sc_steps (sx_script x) ! sx_step x) then Some out else tbl_get (sx_outputs x) k)"
  by (simp add: record_step_output_def advance_past_tool_sequence_def current_step_def tbl_get_put)

text \<open>The tools of a sequence come in the order of the array its input names.\<close>

lemma next_tool_in_order:
  assumes "current_step x = Some st" "sl_type st = ''tool_sequence''" "advance_script x = ExecuteNextTool nm args"
  shows "\<exists>ts. resolve_input x (case sl_input st of Some p \<Rightarrow> p | None \<Rightarrow> []) = Some (JArr ts) \<and> sx_tool x < length ts
    \<and> Option.bind (jget (ts ! sx_tool x) ''tool_name'') as_str = Some nm"
  using assms by (auto simp: advance_script_def next_tool_def split: option.splits json.splits if_splits)

end
