(* ===== verification/AgentSession.thy ===== *)
theory AgentSession
  imports Commands Histories ScriptedLoop "HOL-Library.Word"
begin

section \<open>The agent's session state\<close>

text \<open>
  Models the state one philote keeps per conversation and its operations (\<^verbatim>\<open>crates/philote/src/session/mod.rs\<close>,
  \<^verbatim>\<open>session/types.rs\<close>, \<^verbatim>\<open>loop.rs\<close>): the active and the parked turns, the queue of user tasks, the approval policy with its
  standing preapprovals, the paracrine threads and the window of recent turns. Fields that only carry text into prompts
  or addresses into replies are left out. The counters (\<open>u32\<close>) stay far below their range: the turn loop bounds them.
\<close>

subsection \<open>Turns\<close>

datatype TurnPhase =
    Queued | LoadingContext | WaitingModel | Thinking | WaitingTool | WaitingApproval | PlanningDiscussion | WaitingVoice
  | Completed | Failed

record ToolCall =
  tc_name :: string
  tc_args :: json

record ToolResult =
  tr_name :: string
  tr_content :: string

record ApprovalRequest =
  ar_id :: "string option"
  ar_reason :: string
  ar_response :: string

datatype ApprovalRiskHint = RiskLow | RiskMedium | RiskHigh

record Context1Advisory =
  risk_hint :: ApprovalRiskHint
  recommended_classes :: "string list"

record PlanStep =
  ps_id :: nat
  ps_description :: string
  ps_tool :: "string option"
  ps_status :: string

record ActivePlan =
  ap_goal :: string
  ap_steps :: "PlanStep list"
  ap_status :: string
  ap_advisory :: "Context1Advisory option"

record CarryoverPlan =
  co_plan :: ActivePlan
  co_done :: "bool list"
  continuations_used :: nat
  co_turn :: string

text \<open>Where a turn's model tier came from, and the record of a session that fell back to another tier.\<close>

datatype SelectionSource = OperatorExplicit | ConfiguredDefault | CronPrimary | AutoFallback

record FallbackOverride =
  fo_origin :: string
  fo_active :: string
  fo_reason :: string
  fo_since :: nat
  fo_last_probe :: nat
  fo_notice_sent :: bool

text \<open>The parts of a role's \<open>TurnLoopConfig\<close> and of a \<open>ComponentExecutionRoute\<close> that choose a model.\<close>

record TurnLoopConfig =
  tl_tiers :: "string list"
  tl_bindings :: "(string \<times> string) list"

record ExecutionRoute =
  er_node :: string
  er_role :: string
  er_incarnation :: "string option"
  er_explicit :: bool

record WorkingTurn =
  wt_task :: "128 word"
  wt_id :: string
  wt_content :: string
  wt_phase :: TurnPhase
  wt_iteration :: nat
  wt_pending_tool :: "ToolCall option"
  wt_pending_approval :: "ApprovalRequest option"
  wt_history :: "(ToolCall \<times> ToolResult) list"
  wt_plan :: "ActivePlan option"
  wt_failures :: nat
  wt_streak :: nat
  wt_repair_note :: "string option"
  wt_repair_attempts :: nat
  wt_text_reply :: "string option"
  wt_awaiting_transcription :: bool
  wt_script :: "ScriptedLoopExecutor option"
  wt_paracrine_origin :: "string option"
  wt_plan_confirmed :: bool
  wt_plan_note :: "string option"
  wt_tier :: nat
  wt_tier0 :: bool
  wt_stream_retries :: nat
  wt_source :: SelectionSource

abbreviation wt_scripted :: "WorkingTurn \<Rightarrow> bool" where
  "wt_scripted t \<equiv> wt_script t \<noteq> None"

record TurnRecord =
  rec_turn :: string
  rec_user :: string
  rec_assistant :: "string option"
  rec_at :: nat

subsection \<open>Policy, threads and session\<close>

record ApprovalPolicy =
  auto_approve_all :: bool
  preapproved_names :: "string list"
  preapproved_classes :: "string list"

datatype ParacrineThreadStatus = ThreadOpen | ThreadCompleted | Superseded | Cancelled | Expired | Escalated | BudgetExhausted

record ParacrineThread =
  pt_id :: string
  pt_origin :: string
  pt_role :: string
  pt_goal :: string
  pt_status :: ParacrineThreadStatus
  pt_opened :: nat
  pt_closed :: "nat option"
  pt_signal :: "string option"
  pt_result :: "string option"
  pt_reason :: "string option"

text \<open>A queued task is its id, payload and time of arrival. \<open>ss_requires\<close> is the \<open>approval_required\<close> annotation of
  the tools in the assembly, \<open>ss_model_tools\<close> and \<open>ss_toolset\<close> the enabled tools, \<open>ss_routes\<close> the execution mode and
  availability of each routed tool. \<open>ss_pinned\<close> is the operator's tier, \<open>ss_override\<close> the fallback in effect, \<open>ss_role\<close> the
  active role with its loop configuration, \<open>ss_exec_route\<close> the hotel's route of a capability, \<open>ss_bound\<close> the session's
  component routes with their implementation and \<open>ss_controller\<close> the legacy model controller.\<close>

record SessionState =
  ss_policy :: ApprovalPolicy
  ss_turn :: "WorkingTurn option"
  ss_parked_approval :: "WorkingTurn option"
  ss_parked_approval_since :: "nat option"
  ss_parked_plan :: "WorkingTurn option"
  ss_parked_plan_since :: "nat option"
  ss_waiting_since :: "nat option"
  ss_queue :: "(128 word \<times> InboundTask \<times> nat) list"
  ss_status :: string
  ss_recent :: "TurnRecord list"
  ss_window :: nat
  ss_threads :: "ParacrineThread list"
  ss_success :: "string \<Rightarrow> nat"
  ss_thresholds :: "string \<Rightarrow> nat option"
  ss_carryover :: "CarryoverPlan option"
  ss_cap :: nat
  ss_stall :: nat
  ss_requires :: "string list"
  ss_model_tools :: "string list"
  ss_toolset :: "string list"
  ss_routes :: "(string \<times> string \<times> string) list"
  ss_pinned :: "string option"
  ss_override :: "FallbackOverride option"
  ss_role :: "(string \<times> TurnLoopConfig option) option"
  ss_exec_route :: "string \<Rightarrow> ExecutionRoute option"
  ss_bound :: "(string \<times> string option) list"
  ss_controller :: "string option"

definition on_turn :: "(WorkingTurn \<Rightarrow> WorkingTurn) \<Rightarrow> SessionState \<Rightarrow> SessionState" where
  "on_turn f s = s\<lparr>ss_turn := map_option f (ss_turn s)\<rparr>"

definition start_turn :: "WorkingTurn \<Rightarrow> SessionState \<Rightarrow> SessionState" where
  "start_turn t s = s\<lparr>ss_turn := Some t\<rparr>"

definition is_turn_active :: "SessionState \<Rightarrow> bool" where
  "is_turn_active s \<longleftrightarrow> ss_turn s \<noteq> None"

definition enqueue_user_task :: "128 word \<Rightarrow> InboundTask \<Rightarrow> nat \<Rightarrow> SessionState \<Rightarrow> SessionState" where
  "enqueue_user_task tid task now s = s\<lparr>ss_queue := ss_queue s @ [(tid, task, now)]\<rparr>"

definition prepend_user_task :: "128 word \<Rightarrow> InboundTask \<Rightarrow> nat \<Rightarrow> SessionState \<Rightarrow> SessionState" where
  "prepend_user_task tid task now s = s\<lparr>ss_queue := (tid, task, now) # ss_queue s\<rparr>"

definition dequeue_user_task :: "SessionState \<Rightarrow> (128 word \<times> InboundTask) option \<times> SessionState" where
  "dequeue_user_task s =
     (case ss_queue s of
        [] \<Rightarrow> (None, s)
      | (tid, task, at) # rest \<Rightarrow> (Some (tid, task), s\<lparr>ss_queue := rest\<rparr>))"

definition evict_stale_queued_tasks :: "nat \<Rightarrow> nat \<Rightarrow> SessionState \<Rightarrow> nat \<times> SessionState" where
  "evict_stale_queued_tasks max_age now s =
     (let keep = filter (\<lambda>(tid, task, at). now - at < max_age) (ss_queue s)
      in (length (ss_queue s) - length keep, s\<lparr>ss_queue := keep\<rparr>))"

definition set_active_turn_phase :: "TurnPhase \<Rightarrow> nat \<Rightarrow> SessionState \<Rightarrow> SessionState" where
  "set_active_turn_phase ph now s =
     (on_turn (\<lambda>t. t\<lparr>wt_phase := ph\<rparr>) s)
       \<lparr>ss_waiting_since := (if ph \<in> {WaitingModel, WaitingTool, WaitingVoice} then Some now else None)\<rparr>"

definition bump_active_turn_iteration :: "SessionState \<Rightarrow> SessionState" where
  "bump_active_turn_iteration = on_turn (\<lambda>t. t\<lparr>wt_iteration := wt_iteration t + 1\<rparr>)"

definition set_pending_tool_call :: "ToolCall \<Rightarrow> SessionState \<Rightarrow> SessionState" where
  "set_pending_tool_call c = on_turn (\<lambda>t. t\<lparr>wt_pending_tool := Some c\<rparr>)"

definition clear_pending_tool_call :: "SessionState \<Rightarrow> SessionState" where
  "clear_pending_tool_call = on_turn (\<lambda>t. t\<lparr>wt_pending_tool := None\<rparr>)"

subsection \<open>Paracrine threads\<close>

definition MAX_RETAINED_CLOSED_PARACRINE_THREADS :: nat where "MAX_RETAINED_CLOSED_PARACRINE_THREADS = 32"

definition thread_closed :: "ParacrineThread \<Rightarrow> bool" where
  "thread_closed th \<longleftrightarrow> pt_status th \<noteq> ThreadOpen"

fun drop_closed :: "nat \<Rightarrow> ParacrineThread list \<Rightarrow> ParacrineThread list" where
  "drop_closed n [] = []"
| "drop_closed n (th # ths) =
     (if n > 0 \<and> thread_closed th then drop_closed (n - 1) ths else th # drop_closed n ths)"

definition prune_paracrine_threads :: "SessionState \<Rightarrow> SessionState" where
  "prune_paracrine_threads s =
     (let closed_total = length (filter thread_closed (ss_threads s)) in
      if closed_total \<le> MAX_RETAINED_CLOSED_PARACRINE_THREADS then s
      else s\<lparr>ss_threads := drop_closed (closed_total - MAX_RETAINED_CLOSED_PARACRINE_THREADS) (ss_threads s)\<rparr>)"

definition open_paracrine_thread :: "string \<Rightarrow> string \<Rightarrow> string \<Rightarrow> nat \<Rightarrow> SessionState \<Rightarrow> SessionState" where
  "open_paracrine_thread tid role gl now s =
     prune_paracrine_threads
       (s\<lparr>ss_threads := ss_threads s @
          [\<lparr>pt_id = tid, pt_origin = (case ss_turn s of Some t \<Rightarrow> wt_id t | None \<Rightarrow> []), pt_role = role, pt_goal = gl,
            pt_status = ThreadOpen, pt_opened = now, pt_closed = None, pt_signal = None, pt_result = None, pt_reason = None\<rparr>]\<rparr>)"

fun modify_first :: "('a \<Rightarrow> bool) \<Rightarrow> ('a \<Rightarrow> 'a) \<Rightarrow> 'a list \<Rightarrow> 'a list" where
  "modify_first P f [] = []"
| "modify_first P f (x # xs) = (if P x then f x # xs else x # modify_first P f xs)"

definition close_paracrine_thread ::
  "string \<Rightarrow> ParacrineThreadStatus \<Rightarrow> string option \<Rightarrow> string option \<Rightarrow> nat \<Rightarrow> SessionState \<Rightarrow> SessionState" where
  "close_paracrine_thread tid st result reason now s =
     prune_paracrine_threads
       (s\<lparr>ss_threads := modify_first (\<lambda>th. pt_id th = tid)
          (\<lambda>th. th\<lparr>pt_status := st, pt_closed := Some now, pt_signal := reason, pt_result := result, pt_reason := reason\<rparr>)
          (ss_threads s)\<rparr>)"

definition signal_paracrine_thread :: "string \<Rightarrow> string \<Rightarrow> SessionState \<Rightarrow> SessionState" where
  "signal_paracrine_thread tid sig s =
     s\<lparr>ss_threads := modify_first (\<lambda>th. pt_id th = tid) (\<lambda>th. th\<lparr>pt_signal := Some sig\<rparr>) (ss_threads s)\<rparr>"

subsection \<open>Approvals and parking\<close>

definition set_pending_approval :: "ApprovalRequest \<Rightarrow> SessionState \<Rightarrow> SessionState" where
  "set_pending_approval a = on_turn (\<lambda>t. t\<lparr>wt_pending_approval := Some a\<rparr>)"

definition clear_pending_approval :: "SessionState \<Rightarrow> SessionState" where
  "clear_pending_approval = on_turn (\<lambda>t. t\<lparr>wt_pending_approval := None\<rparr>)"

definition park_active_turn_for_approval :: "nat \<Rightarrow> SessionState \<Rightarrow> SessionState" where
  "park_active_turn_for_approval now s =
     s\<lparr>ss_parked_approval_since := Some now, ss_parked_approval := ss_turn s, ss_turn := None\<rparr>"

definition restore_parked_approval_turn :: "SessionState \<Rightarrow> bool \<times> SessionState" where
  "restore_parked_approval_turn s =
     (case ss_parked_approval s of
        Some t \<Rightarrow> (True, s\<lparr>ss_parked_approval := None, ss_parked_approval_since := None, ss_turn := Some t\<rparr>)
      | None \<Rightarrow> (False, s))"

definition park_active_turn_for_plan :: "nat \<Rightarrow> SessionState \<Rightarrow> SessionState" where
  "park_active_turn_for_plan now s = s\<lparr>ss_parked_plan_since := Some now, ss_parked_plan := ss_turn s, ss_turn := None\<rparr>"

definition restore_parked_plan_turn :: "string option \<Rightarrow> SessionState \<Rightarrow> bool \<times> SessionState" where
  "restore_parked_plan_turn note s =
     (case ss_parked_plan s of
        Some t \<Rightarrow> (True, s\<lparr>ss_parked_plan := None, ss_parked_plan_since := None,
                          ss_turn := Some (t\<lparr>wt_plan_confirmed := True, wt_plan_note := note\<rparr>)\<rparr>)
      | None \<Rightarrow> (False, s))"

definition set_active_plan :: "ActivePlan \<Rightarrow> SessionState \<Rightarrow> SessionState" where
  "set_active_plan p = on_turn (\<lambda>t. t\<lparr>wt_plan := Some p\<rparr>)"

definition increment_step_failures :: "SessionState \<Rightarrow> nat \<times> SessionState" where
  "increment_step_failures s =
     (case ss_turn s of
        Some t \<Rightarrow> (wt_failures t + 1, s\<lparr>ss_turn := Some (t\<lparr>wt_failures := wt_failures t + 1\<rparr>)\<rparr>)
      | None \<Rightarrow> (0, s))"

definition reset_step_failures :: "SessionState \<Rightarrow> SessionState" where
  "reset_step_failures = on_turn (\<lambda>t. t\<lparr>wt_failures := 0\<rparr>)"

definition push_tool_history :: "ToolCall \<Rightarrow> ToolResult \<Rightarrow> SessionState \<Rightarrow> SessionState" where
  "push_tool_history c r = on_turn (\<lambda>t. t\<lparr>wt_history := wt_history t @ [(c, r)]\<rparr>)"

definition set_provider_repair_note :: "string \<Rightarrow> SessionState \<Rightarrow> SessionState" where
  "set_provider_repair_note note = on_turn (\<lambda>t. t\<lparr>wt_repair_note := Some note\<rparr>)"

definition provider_repair_attempts :: "SessionState \<Rightarrow> nat" where
  "provider_repair_attempts s = (case ss_turn s of Some t \<Rightarrow> wt_repair_attempts t | None \<Rightarrow> 0)"

definition increment_provider_repair_attempts :: "SessionState \<Rightarrow> nat \<times> SessionState" where
  "increment_provider_repair_attempts s =
     (case ss_turn s of
        Some t \<Rightarrow> (wt_repair_attempts t + 1, s\<lparr>ss_turn := Some (t\<lparr>wt_repair_attempts := wt_repair_attempts t + 1\<rparr>)\<rparr>)
      | None \<Rightarrow> (0, s))"

text \<open>\<open>sanitize\<close> is \<open>sanitize_turn_content_for_history\<close>, with the JSON parser as \<open>parse\<close>.\<close>

definition sanitize_turn_content_for_history :: "(string \<Rightarrow> json option) \<Rightarrow> string \<Rightarrow> string" where
  "sanitize_turn_content_for_history parse content =
     (if length content > 500
      then (case parse content of
              Some (JObj fs) \<Rightarrow> if map_of fs ''audio_base64'' \<noteq> None then ''[voice message]'' else content
            | _ \<Rightarrow> content)
      else content)"

definition complete_active_turn ::
  "(string \<Rightarrow> json option) \<Rightarrow> string \<Rightarrow> nat \<Rightarrow> SessionState \<Rightarrow> WorkingTurn option \<times> SessionState" where
  "complete_active_turn parse reply now s =
     (let s1 = s\<lparr>ss_waiting_since := None\<rparr> in
      case ss_turn s1 of
        None \<Rightarrow> (None, s1)
      | Some t \<Rightarrow>
          let recent = ss_recent s1 @
                [\<lparr>rec_turn = wt_id t, rec_user = sanitize_turn_content_for_history parse (wt_content t),
                  rec_assistant = Some reply, rec_at = now\<rparr>];
              window = max (ss_window s1) 1
          in (Some t, s1\<lparr>ss_turn := None,
                 ss_recent := (if length recent > window then drop (length recent - window) recent else recent)\<rparr>))"

subsection \<open>The approval policy\<close>

definition context1_preapproval_classes :: "string list" where
  "context1_preapproval_classes = [''utility'', ''workspace'']"

text \<open>\<open>cls\<close> is \<open>tool_class\<close>, the class of a tool in the built-in catalogue.\<close>

definition approval_policy_allows :: "(string \<Rightarrow> string option) \<Rightarrow> ToolCall option \<Rightarrow> SessionState \<Rightarrow> bool" where
  "approval_policy_allows cls tool s =
     (if auto_approve_all (ss_policy s) then True
      else (case tool of
              None \<Rightarrow> False
            | Some c \<Rightarrow>
                if tc_name c \<in> set (preapproved_names (ss_policy s)) then True
                else (case cls (tc_name c) of
                        None \<Rightarrow> False
                      | Some k \<Rightarrow>
                          if k \<in> set (preapproved_classes (ss_policy s)) then True
                          else (case Option.bind (ss_turn s) wt_plan of
                                  None \<Rightarrow> False
                                | Some p \<Rightarrow>
                                    if ap_status p = ''planning''
                                    then (case ap_advisory p of
                                            None \<Rightarrow> False
                                          | Some adv \<Rightarrow> risk_hint adv = RiskLow \<and> k \<in> set context1_preapproval_classes
                                              \<and> k \<in> set (recommended_classes adv))
                                    else False))))"

definition set_preapprove_this_session :: "SessionState \<Rightarrow> SessionState" where
  "set_preapprove_this_session s = s\<lparr>ss_policy := (ss_policy s)\<lparr>auto_approve_all := True\<rparr>\<rparr>"

definition reset_approval_policy :: "SessionState \<Rightarrow> SessionState" where
  "reset_approval_policy s = s\<lparr>ss_policy := (ss_policy s)\<lparr>preapproved_names := [], preapproved_classes := []\<rparr>\<rparr>"

definition push_unique :: "string \<Rightarrow> string list \<Rightarrow> string list" where
  "push_unique x xs = (if x \<in> set xs then xs else xs @ [x])"

definition preapprove_tool :: "string \<Rightarrow> SessionState \<Rightarrow> SessionState" where
  "preapprove_tool nm s = s\<lparr>ss_policy := (ss_policy s)\<lparr>preapproved_names := push_unique nm (preapproved_names (ss_policy s))\<rparr>\<rparr>"

text \<open>The streaks and thresholds are \<open>u32\<close>: the counter wraps, and the number in a request (3 when there is none) is cast.\<close>

definition requested_successes :: "json option \<Rightarrow> nat" where
  "requested_successes raw = (case raw of Some (JNum n) \<Rightarrow> n | _ \<Rightarrow> 3) mod 2 ^ 32"

definition register_standing_preapproval :: "string \<Rightarrow> nat \<Rightarrow> SessionState \<Rightarrow> SessionState" where
  "register_standing_preapproval nm required s =
     (if ss_success s nm \<ge> required then preapprove_tool nm s
      else s\<lparr>ss_thresholds := (ss_thresholds s)(nm \<mapsto> required)\<rparr>)"

definition record_tool_streak_success :: "string \<Rightarrow> SessionState \<Rightarrow> SessionState" where
  "record_tool_streak_success nm s =
     (let streak = (ss_success s nm + 1) mod 2 ^ 32; s1 = s\<lparr>ss_success := (ss_success s)(nm := streak)\<rparr> in
      case ss_thresholds s1 nm of
        Some threshold \<Rightarrow>
          if streak \<ge> threshold then preapprove_tool nm (s1\<lparr>ss_thresholds := (ss_thresholds s1)(nm := None)\<rparr>) else s1
      | None \<Rightarrow> s1)"

definition record_tool_streak_failure :: "string \<Rightarrow> SessionState \<Rightarrow> SessionState" where
  "record_tool_streak_failure nm s = s\<lparr>ss_success := (ss_success s)(nm := 0)\<rparr>"

definition APPROVAL_CLASSES :: "string list" where
  "APPROVAL_CLASSES = [''session'', ''workspace'', ''utility'', ''capability'', ''config'', ''handoff'']"

definition preapprove_by_name :: "string \<Rightarrow> SessionState \<Rightarrow> SessionState" where
  "preapprove_by_name nm s =
     (if nm \<in> set APPROVAL_CLASSES
      then s\<lparr>ss_policy := (ss_policy s)\<lparr>preapproved_classes := push_unique nm (preapproved_classes (ss_policy s))\<rparr>\<rparr>
      else preapprove_tool nm s)"

subsection \<open>Paracrine threads stay bounded\<close>

lemma drop_closed_counts:
  "length (filter thread_closed (drop_closed n ths)) = length (filter thread_closed ths) - n"
  "filter (\<lambda>th. \<not> thread_closed th) (drop_closed n ths) = filter (\<lambda>th. \<not> thread_closed th) ths"
  by (induction n ths rule: drop_closed.induct) auto

lemma prune_spec:
  "length (filter thread_closed (ss_threads (prune_paracrine_threads s))) \<le> MAX_RETAINED_CLOSED_PARACRINE_THREADS"
  "filter (\<lambda>th. \<not> thread_closed th) (ss_threads (prune_paracrine_threads s)) = filter (\<lambda>th. \<not> thread_closed th) (ss_threads s)"
  by (auto simp: prune_paracrine_threads_def Let_def drop_closed_counts)

text \<open>However many delegations a session makes, at most 32 closed threads are kept, and no thread is dropped while it is
  open: closing one takes exactly that thread out of the open ones.\<close>

lemma paracrine_threads_bounded:
  "length (filter thread_closed (ss_threads (open_paracrine_thread tid role gl now s))) \<le> 32"
  "map pt_id (filter (\<lambda>th. \<not> thread_closed th) (ss_threads (open_paracrine_thread tid role gl now s))) =
     map pt_id (filter (\<lambda>th. \<not> thread_closed th) (ss_threads s)) @ [tid]"
  "length (filter thread_closed (ss_threads (close_paracrine_thread tid st result reason now s))) \<le> 32"
  using prune_spec unfolding open_paracrine_thread_def close_paracrine_thread_def
  by (auto simp: MAX_RETAINED_CLOSED_PARACRINE_THREADS_def thread_closed_def)

subsection \<open>Standing approvals\<close>

text \<open>Results of tools and the agent's requests for standing approval, as a history; the streak of a tool is the number
  of successes since its last failure.\<close>

datatype streak_event = ToolSucceeded string | ToolFailed string | AskedStanding string "json option"

fun streak_step :: "SessionState \<Rightarrow> streak_event \<Rightarrow> SessionState" where
  "streak_step s (ToolSucceeded nm) = record_tool_streak_success nm s"
| "streak_step s (ToolFailed nm) = record_tool_streak_failure nm s"
| "streak_step s (AskedStanding nm raw) = register_standing_preapproval nm (requested_successes raw) s"

fun outcome_of :: "string \<Rightarrow> streak_event \<Rightarrow> bool option" where
  "outcome_of nm (ToolSucceeded t) = (if t = nm then Some True else None)"
| "outcome_of nm (ToolFailed t) = (if t = nm then Some False else None)"
| "outcome_of nm (AskedStanding t k) = None"

definition trailing_successes :: "string \<Rightarrow> streak_event list \<Rightarrow> nat" where
  "trailing_successes nm es = length (takeWhile id (rev (List.map_filter (outcome_of nm) es)))"

lemma trailing_snoc:
  "trailing_successes nm (es @ [e]) =
     (case outcome_of nm e of None \<Rightarrow> trailing_successes nm es
      | Some ok \<Rightarrow> if ok then trailing_successes nm es + 1 else 0)"
  by (simp add: trailing_successes_def List.map_filter_def split: option.splits)

lemma push_unique_set [simp]: "set (push_unique x xs) = insert x (set xs)"
  by (auto simp: push_unique_def)

lemma streak_tracks:
  "(\<forall>nm. ss_success s nm = 0) \<Longrightarrow> ss_success (foldl streak_step s es) nm = trailing_successes nm es mod 2 ^ 32"
proof (induction es rule: rev_induct)
  case (snoc e es)
  then show ?case
    by (cases e) (auto simp: trailing_snoc record_tool_streak_success_def record_tool_streak_failure_def
        register_standing_preapproval_def preapprove_tool_def Let_def mod_Suc_eq split: option.splits)
qed (simp add: trailing_successes_def List.map_filter_def)

definition asked :: "string \<Rightarrow> nat \<Rightarrow> streak_event list \<Rightarrow> bool" where
  "asked nm k es \<longleftrightarrow> (\<exists>raw. AskedStanding nm raw \<in> set es \<and> k = requested_successes raw)"

definition earned :: "string \<Rightarrow> streak_event list \<Rightarrow> bool" where
  "earned nm es \<longleftrightarrow> (\<exists>n\<le>length es. \<exists>k. asked nm k (take n es) \<and> k \<le> trailing_successes nm (take n es))"

lemma earned_snoc: "earned nm es \<Longrightarrow> earned nm (es @ [e])"
  unfolding earned_def by (metis (no_types, lifting) append_Nil2 diff_is_0_eq le_SucI length_append_singleton take_0 take_append)

lemma thresholds_asked:
  "ss_thresholds s = Map.empty \<Longrightarrow> ss_thresholds (foldl streak_step s es) nm = Some k \<Longrightarrow> asked nm k es"
proof (induction es rule: rev_induct)
  case (snoc e es)
  then show ?case
    by (cases e) (auto simp: asked_def record_tool_streak_success_def record_tool_streak_failure_def
        register_standing_preapproval_def preapprove_tool_def Let_def split: option.splits if_splits)
qed simp

lemma earned_here: "asked nm k es \<Longrightarrow> k \<le> trailing_successes nm es \<Longrightarrow> earned nm es"
  unfolding earned_def by (metis order_refl take_all)


definition demo_session :: SessionState where
  "demo_session = \<lparr>ss_policy = \<lparr>auto_approve_all = False, preapproved_names = [], preapproved_classes = []\<rparr>, ss_turn = None,
     ss_parked_approval = None, ss_parked_approval_since = None, ss_parked_plan = None, ss_parked_plan_since = None,
     ss_waiting_since = None, ss_queue = [], ss_status = ''active'', ss_recent = [], ss_window = 10, ss_threads = [], ss_success = (\<lambda>nm. 0),
     ss_thresholds = Map.empty, ss_carryover = None, ss_cap = 10, ss_stall = 3, ss_requires = [''bash.exec''],
     ss_model_tools = [''bash.exec'', ''rule.propose'', ''approval.request_standing''], ss_toolset = [],
     ss_routes = [(''bash.exec'', ''local_agent'', ''live''), (''rule.propose'', ''local_agent'', ''live''),
       (''approval.request_standing'', ''local_agent'', ''live'')],
     ss_pinned = None, ss_override = None, ss_role = None, ss_exec_route = (\<lambda>c. None), ss_bound = [], ss_controller = None\<rparr>"

definition demo_streak :: "streak_event list" where
  "demo_streak = [AskedStanding ''bash.exec'' (Some (JNum 2)), ToolSucceeded ''bash.exec'', ToolSucceeded ''bash.exec'']"


text \<open>The number of successes is the agent's own choice, and zero is accepted, also as \<open>2^32\<close>: any tool can be put on the list at once.
  A later failure resets the streak but leaves the preapproval in place, and resetting the policy leaves the session-wide
  approval on.\<close>

lemma zero_successes_suffice: "nm \<in> set (preapproved_names (ss_policy (register_standing_preapproval nm 0 s)))"
  by (simp add: register_standing_preapproval_def preapprove_tool_def)

lemma cast_to_zero: "requested_successes (Some (JNum (2 ^ 32))) = 0"
  by (simp add: requested_successes_def)

lemma failure_keeps_preapproval:
  "preapproved_names (ss_policy (record_tool_streak_failure nm s)) = preapproved_names (ss_policy s)"
  by (simp add: record_tool_streak_failure_def)

lemma reset_keeps_session_approval: "auto_approve_all (ss_policy (reset_approval_policy s)) = auto_approve_all (ss_policy s)"
  by (simp add: reset_approval_policy_def)

subsection \<open>The window of recent turns\<close>

lemma recent_bounded:
  "length (ss_recent s) \<le> max (ss_window s) 1 \<Longrightarrow>
     length (ss_recent (snd (complete_active_turn parse reply now s))) \<le> max (ss_window s) 1"
  by (cases "ss_turn s") (auto simp: complete_active_turn_def Let_def max_def)

lemma completed_turn_recorded:
  "ss_turn s = Some t \<Longrightarrow> rec_turn (last (ss_recent (snd (complete_active_turn parse reply now s)))) = wt_id t"
  by (simp add: complete_active_turn_def Let_def)

end
