(* ===== verification/PlanEval.thy ===== *)
theory PlanEval
  imports AgentSession Tables
begin

section \<open>Plan evaluation and continuation\<close>

text \<open>
  Models \<^verbatim>\<open>crates/philote/src/plan_eval.rs\<close> and the plan follow-up of \<^verbatim>\<open>turn_loop.rs\<close>: the verdict on a turn's plan, the
  carry-over of an unfinished plan, and the continuation turns the agent starts by itself within a budget. Unicode
  lower-casing and classes and the printing of a tool's arguments are parameters.
\<close>

record text_lib =
  tl_lower :: "string \<Rightarrow> string"
  tl_alnum :: "string \<Rightarrow> bool"
  tl_json :: "json \<Rightarrow> string"

subsection \<open>Evaluation\<close>

definition DEFAULT_PLAN_CONTINUATION_BUDGET :: nat where "DEFAULT_PLAN_CONTINUATION_BUDGET = 3"

definition plan_continuation_disabled :: "(string \<Rightarrow> string option) \<Rightarrow> bool" where
  "plan_continuation_disabled env =
     (case env ''PHILOTIC_DISABLE_PLAN_CONTINUATION'' of
        Some v \<Rightarrow> trim v = ''1'' \<or> eq_ignore_ascii_case (trim v) ''true'' \<or> eq_ignore_ascii_case (trim v) ''yes''
      | None \<Rightarrow> False)"

datatype PlanEvalVerdict = PlanComplete | PlanContinue | PlanBlocked

datatype PlanEvalBasis = ModelReported | Heuristic

record PlanEvalOutcome =
  steps_total :: nat
  steps_done :: nat
  steps_done_flags :: "bool list"
  uncertain_step_ids :: "nat list"
  verdict :: PlanEvalVerdict
  basis :: PlanEvalBasis

definition tool_result_looks_ok :: "text_lib \<Rightarrow> ToolResult \<Rightarrow> bool" where
  \<open>tool_result_looks_ok lib r =
     (let trimmed = to_lowercase (tl_lower lib) (trim_start (tr_content r))
      in \<not> (starts_with ''error'' trimmed \<or> starts_with ''{"error"'' trimmed \<or> starts_with ''tool execution failed'' trimmed))\<close>

definition STOPWORDS :: "string list" where
  "STOPWORDS = [''with'', ''from'', ''then'', ''that'', ''this'', ''into'', ''step'', ''using'', ''each'', ''their'', ''them'',
     ''over'', ''about'', ''after'', ''before'', ''call'', ''check'']"

definition is_alphanumeric :: "text_lib \<Rightarrow> string \<Rightarrow> bool" where
  "is_alphanumeric lib ch = (case ch of [c] \<Rightarrow> is_ascii_alphanumeric c | _ \<Rightarrow> tl_alnum lib ch)"

definition significant_tokens :: "text_lib \<Rightarrow> string \<Rightarrow> string list" where
  "significant_tokens lib text =
     filter (\<lambda>t. length t \<ge> 4 \<and> t \<notin> set STOPWORDS)
       (split_chars (\<lambda>c. \<not> is_alphanumeric lib c) (utf8_chars (to_lowercase (tl_lower lib) text)))"

definition call_haystack :: "text_lib \<Rightarrow> ToolCall \<Rightarrow> string" where
  "call_haystack lib c =
     to_lowercase (tl_lower lib)
       (map (\<lambda>x. if x = CHR ''.'' \<or> x = CHR ''_'' \<or> x = CHR ''-'' then CHR '' '' else x) (tc_name c) @ '' '' @ tl_json lib (tc_args c))"

definition tokens_match :: "text_lib \<Rightarrow> PlanStep \<Rightarrow> (ToolCall \<times> ToolResult) list \<Rightarrow> bool" where
  "tokens_match lib st hist =
     (let toks = significant_tokens lib (ps_description st) in
      toks \<noteq> [] \<and> list_ex (\<lambda>(c, r). tool_result_looks_ok lib r
        \<and> (let matched = length (filter (\<lambda>t. contains_sub t (call_haystack lib c)) toks)
           in matched \<ge> 2 \<or> (length toks = 1 \<and> matched = 1))) hist)"

definition heuristic_step_done :: "text_lib \<Rightarrow> PlanStep \<Rightarrow> (ToolCall \<times> ToolResult) list \<Rightarrow> bool" where
  "heuristic_step_done lib st hist =
     (case ps_tool st of
        Some tool \<Rightarrow> if tool \<noteq> [] then list_ex (\<lambda>(c, r). tc_name c = tool \<and> tool_result_looks_ok lib r) hist
                     else tokens_match lib st hist
      | None \<Rightarrow> tokens_match lib st hist)"

definition flag_at :: "bool list \<Rightarrow> nat \<Rightarrow> bool" where
  "flag_at fs i \<longleftrightarrow> i < length fs \<and> fs ! i"

text \<open>The flag of one step, and whether it came from the heuristic.\<close>

definition step_flag ::
  "text_lib \<Rightarrow> ActivePlan \<Rightarrow> bool list option \<Rightarrow> (ToolCall \<times> ToolResult) list \<Rightarrow> nat \<times> PlanStep \<Rightarrow> bool \<times> bool" where
  "step_flag lib plan prior hist ist =
     (case ist of (i, st) \<Rightarrow>
        let (flag, unsure) =
              (if ps_status st = ''done'' then (True, False)
               else if ps_status st = ''failed'' then (False, False)
               else if ap_status plan = ''done'' then (True, False)
               else if heuristic_step_done lib st hist then (True, True)
               else (False, False))
        in (flag \<or> (case prior of Some fs \<Rightarrow> flag_at fs i | None \<Rightarrow> False), unsure))"

definition evaluate_plan ::
  "text_lib \<Rightarrow> ActivePlan \<Rightarrow> bool list option \<Rightarrow> (ToolCall \<times> ToolResult) list \<Rightarrow> PlanEvalOutcome" where
  "evaluate_plan lib plan prior hist =
     (let total = length (ap_steps plan);
          declared_done = (ap_status plan = ''done'');
          declared_failed = (ap_status plan = ''failed'');
          engaged = (declared_done \<or> declared_failed
                     \<or> list_ex (\<lambda>st. ps_status st = ''done'' \<or> ps_status st = ''failed'') (ap_steps plan));
          marks = map (step_flag lib plan prior hist) (enumerate 0 (ap_steps plan));
          flags = map fst marks;
          uncertain = map (ps_id \<circ> fst) (filter (snd \<circ> snd) (zip (ap_steps plan) marks));
          any_failed = list_ex (\<lambda>st. ps_status st = ''failed'') (ap_steps plan);
          n = length (filter id flags);
          vd = (if declared_failed then PlanBlocked
                else if total > 0 \<and> n = total then PlanComplete
                else if declared_done then PlanComplete
                else if any_failed \<and> list_all (\<lambda>(fl, st). fl \<or> ps_status st = ''failed'') (zip flags (ap_steps plan)) then PlanBlocked
                else (case prior of
                        Some fs \<Rightarrow> if n \<le> length (filter id fs) then PlanBlocked else PlanContinue
                      | None \<Rightarrow> PlanContinue))
      in \<lparr>steps_total = total, steps_done = n, steps_done_flags = flags, uncertain_step_ids = uncertain, verdict = vd,
          basis = (if engaged then ModelReported else Heuristic)\<rparr>)"

subsection \<open>Follow-up\<close>

datatype PlanFollowup =
    Settled PlanEvalOutcome
  | StopPlan "PlanEvalOutcome option" CarryoverPlan string
  | ContinuePlan "PlanEvalOutcome option"

definition plan_followup_after_turn ::
  "text_lib \<Rightarrow> bool \<Rightarrow> WorkingTurn \<Rightarrow> nat \<Rightarrow> SessionState \<Rightarrow> PlanFollowup option \<times> SessionState" where
  "plan_followup_after_turn lib disabled t budget s =
     (if wt_scripted t \<or> wt_paracrine_origin t \<noteq> None then (None, s)
      else (case wt_plan t of
              Some plan \<Rightarrow>
                if ap_steps plan = [] then (None, s\<lparr>ss_carryover := None\<rparr>)
                else
                  let (prior, used, origin) =
                        (case ss_carryover s of
                           Some c \<Rightarrow> if ap_goal (co_plan c) = ap_goal plan then (Some (co_done c), continuations_used c, co_turn c)
                                     else (None, 0, wt_id t)
                         | None \<Rightarrow> (None, 0, wt_id t));
                      outcome = evaluate_plan lib plan prior (wt_history t);
                      carry = \<lparr>co_plan = plan, co_done = steps_done_flags outcome, continuations_used = used, co_turn = origin\<rparr>
                  in (case verdict outcome of
                        PlanComplete \<Rightarrow> (Some (Settled outcome), s\<lparr>ss_carryover := None\<rparr>)
                      | PlanBlocked \<Rightarrow> (Some (StopPlan (Some outcome) carry ''a step failed or no forward progress was made''),
                                        s\<lparr>ss_carryover := None\<rparr>)
                      | PlanContinue \<Rightarrow>
                          if disabled then (Some (Settled outcome), s\<lparr>ss_carryover := None\<rparr>)
                          else if used \<ge> budget
                          then (Some (StopPlan (Some outcome) carry ''auto-continuation budget exhausted''), s\<lparr>ss_carryover := None\<rparr>)
                          else (Some (ContinuePlan (Some outcome)), s\<lparr>ss_carryover := Some carry\<rparr>))
            | None \<Rightarrow>
                (case ss_carryover s of
                   None \<Rightarrow> (None, s)
                 | Some c \<Rightarrow>
                     if disabled then (None, s\<lparr>ss_carryover := None\<rparr>)
                     else if continuations_used c \<ge> budget
                     then (Some (StopPlan None c ''auto-continuation budget exhausted''), s\<lparr>ss_carryover := None\<rparr>)
                     else (Some (ContinuePlan None), s))))"

definition step_list :: "ActivePlan \<Rightarrow> bool list \<Rightarrow> bool \<Rightarrow> string" where
  "step_list plan fs is_done =
     join [CHR 0x0A] (map (\<lambda>(i, st). ''- step '' @ dec_of_nat (ps_id st) @ '': '' @ ps_description st)
       (filter (\<lambda>(i, st). flag_at fs i = is_done) (enumerate 0 (ap_steps plan))))"

definition plan_continuation_brief :: "CarryoverPlan \<Rightarrow> nat \<Rightarrow> string" where
  "plan_continuation_brief c budget =
     (let done_list = step_list (co_plan c) (co_done c) True
      in ''[Plan continuation '' @ dec_of_nat (continuations_used c + 1) @ ''/'' @ dec_of_nat budget
         @ ''] Continue executing your existing plan. Goal: '' @ ap_goal (co_plan c) @ [CHR 0x0A]
         @ (if done_list \<noteq> [] then ''Completed steps:'' @ [CHR 0x0A] @ done_list @ [CHR 0x0A] else [])
         @ ''Remaining steps:'' @ [CHR 0x0A] @ step_list (co_plan c) (co_done c) False @ [CHR 0x0A]
         @ ''Pick up at the first remaining step. Do not re-plan or repeat completed work. Update step statuses in active_plan as you execute; when every step is done, deliver a final summary of the whole plan to the user.'')"

definition plan_stop_notice :: "CarryoverPlan \<Rightarrow> string \<Rightarrow> string" where
  "plan_stop_notice c reason =
     (let remaining = step_list (co_plan c) (co_done c) False
      in ''*(Plan paused: '' @ reason @ ''. Goal: '' @ ap_goal (co_plan c) @ ''. ''
         @ dec_of_nat (length (filter id (co_done c))) @ ''/'' @ dec_of_nat (length (ap_steps (co_plan c))) @ '' steps done. Remaining:''
         @ [CHR 0x0A] @ (if remaining = [] then ''(none)'' else remaining) @ [CHR 0x0A]
         @ ''Send a message to keep going manually, or /plan drop to discard.)*'')"

text \<open>Whether a continuation turn is queued, and the session; \<open>drained\<close> says that a task of the session already waits
  for dispatch.\<close>

definition dispatch_plan_followup :: "bool \<Rightarrow> PlanFollowup \<Rightarrow> SessionState \<Rightarrow> bool \<times> SessionState" where
  "dispatch_plan_followup waiting f s =
     (case f of
        ContinuePlan ev \<Rightarrow>
          if ss_queue s \<noteq> [] \<or> waiting then (False, s)
          else (case ss_carryover s of
                  None \<Rightarrow> (False, s)
                | Some c \<Rightarrow> (True, s\<lparr>ss_carryover := Some (c\<lparr>continuations_used := continuations_used c + 1\<rparr>)\<rparr>))
      | _ \<Rightarrow> (False, s))"

subsection \<open>What the verdict means\<close>

lemma flags_length: "length (steps_done_flags (evaluate_plan lib plan prior hist)) = length (ap_steps plan)"
  by (simp add: evaluate_plan_def Let_def)

lemma flags_nth:
  "i < length (ap_steps plan) \<Longrightarrow> steps_done_flags (evaluate_plan lib plan prior hist) ! i =
     fst (step_flag lib plan prior hist (i, ap_steps plan ! i))"
  by (simp add: evaluate_plan_def Let_def nth_enumerate_eq)

lemma prior_stays_done:
  "i < length (ap_steps plan) \<Longrightarrow> flag_at fs i \<Longrightarrow> steps_done_flags (evaluate_plan lib plan (Some fs) hist) ! i"
  by (simp add: flags_nth step_flag_def split: prod.split)

lemma steps_done_count: "steps_done (evaluate_plan lib plan prior hist) = length (filter id (steps_done_flags (evaluate_plan lib plan prior hist)))"
  by (simp add: evaluate_plan_def Let_def)

lemma continue_cases:
  assumes "verdict (evaluate_plan lib plan prior hist) = PlanContinue"
  shows "ap_status plan \<notin> {''done'', ''failed''}"
    "length (ap_steps plan) = 0 \<or> steps_done (evaluate_plan lib plan prior hist) \<noteq> length (ap_steps plan)"
    "prior = Some fs \<Longrightarrow> length (filter id fs) < steps_done (evaluate_plan lib plan prior hist)"
  using assms by (auto simp: evaluate_plan_def Let_def split: if_splits option.splits)

lemma filter_id_all: "length (filter id fs) = length fs \<longleftrightarrow> (\<forall>i<length fs. fs ! i)"
  by (metis filter_id_conv id_apply length_filter_less nth_mem in_set_conv_nth less_irrefl)

text \<open>A plan is continued only if the model declared it neither done nor failed and some step is not done; a
  continuation turn must have completed at least one more step than before, and a step once done stays done.\<close>

theorem plan_continues_with_progress:
  assumes "verdict (evaluate_plan lib plan prior hist) = PlanContinue" "ap_steps plan \<noteq> []"
  shows "ap_status plan \<notin> {''done'', ''failed''}
    \<and> (\<exists>i<length (ap_steps plan). \<not> steps_done_flags (evaluate_plan lib plan prior hist) ! i)
    \<and> (case prior of None \<Rightarrow> True
       | Some fs \<Rightarrow> length (filter id fs) < steps_done (evaluate_plan lib plan prior hist)
           \<and> list_all (\<lambda>i. flag_at fs i \<longrightarrow> steps_done_flags (evaluate_plan lib plan prior hist) ! i) [0..<length (ap_steps plan)])"
proof -
  note c = continue_cases [OF assms(1)]
  have "\<not> (\<forall>i<length (ap_steps plan). steps_done_flags (evaluate_plan lib plan prior hist) ! i)"
    using c(2) assms(2) filter_id_all [of "steps_done_flags (evaluate_plan lib plan prior hist)"]
    by (simp add: steps_done_count flags_length)
  then show ?thesis using c(1,3) prior_stays_done by (auto simp: list_all_iff split: option.split)
qed

subsection \<open>Autonomous continuations are bounded\<close>

text \<open>What happens to a session's plan: a turn ends (and other work may be waiting then), or the plan is dropped
  (\<open>/plan drop\<close>, or a new proposal).\<close>

datatype plan_event = TurnEnds WorkingTurn bool | PlanDropped

definition plan_step :: "text_lib \<Rightarrow> bool \<Rightarrow> nat \<Rightarrow> SessionState \<Rightarrow> plan_event \<Rightarrow> bool \<times> SessionState" where
  "plan_step lib disabled budget s e =
     (case e of
        TurnEnds t waiting \<Rightarrow>
          (case plan_followup_after_turn lib disabled t budget s of
             (None, s1) \<Rightarrow> (False, s1)
           | (Some f, s1) \<Rightarrow> dispatch_plan_followup waiting f s1)
      | PlanDropped \<Rightarrow> (False, s\<lparr>ss_carryover := None\<rparr>))"

text \<open>The continuation turns the agent starts in a history.\<close>

fun started :: "text_lib \<Rightarrow> bool \<Rightarrow> nat \<Rightarrow> SessionState \<Rightarrow> plan_event list \<Rightarrow> nat" where
  "started lib disabled budget s [] = 0"
| "started lib disabled budget s (e # es) =
     (case plan_step lib disabled budget s e of (cont, s2) \<Rightarrow> (if cont then 1 else 0) + started lib disabled budget s2 es)"

text \<open>A plan that is carried over is given up when it is completed, stopped or dropped, or when another goal takes its place.\<close>

definition gives_up :: "SessionState \<Rightarrow> SessionState \<Rightarrow> bool" where
  "gives_up s s' \<longleftrightarrow>
     (case ss_carryover s of
        None \<Rightarrow> False
      | Some c \<Rightarrow> (case ss_carryover s' of None \<Rightarrow> True | Some c' \<Rightarrow> ap_goal (co_plan c') \<noteq> ap_goal (co_plan c)))"

fun given_up :: "text_lib \<Rightarrow> bool \<Rightarrow> nat \<Rightarrow> SessionState \<Rightarrow> plan_event list \<Rightarrow> nat" where
  "given_up lib disabled budget s [] = 0"
| "given_up lib disabled budget s (e # es) =
     (case plan_step lib disabled budget s e of
        (cont, s2) \<Rightarrow> (if gives_up s s2 then 1 else 0) + given_up lib disabled budget s2 es)"

definition used_so_far :: "SessionState \<Rightarrow> nat" where
  "used_so_far s = (case ss_carryover s of Some c \<Rightarrow> continuations_used c | None \<Rightarrow> 0)"

definition carries_goal :: "string \<Rightarrow> SessionState \<Rightarrow> bool" where
  "carries_goal g s \<longleftrightarrow> (case ss_carryover s of Some c \<Rightarrow> ap_goal (co_plan c) = g | None \<Rightarrow> True)"

text \<open>Following up on a turn leaves what was used, unless the plan is given up; a continuation needs budget.\<close>

lemma followup_budget:
  assumes "plan_followup_after_turn lib disabled t budget s = (r, s1)"
  shows "budget - used_so_far s1 \<le> (budget - used_so_far s) + (if gives_up s s1 then budget else 0)"
    and "r = Some (ContinuePlan ev) \<Longrightarrow> used_so_far s1 < budget"
  using assms
  by (auto simp: plan_followup_after_turn_def used_so_far_def gives_up_def Let_def
      split: if_splits option.splits PlanEvalVerdict.splits prod.splits)

lemma plan_step_budget:
  assumes "plan_step lib disabled budget s e = (cont, s2)"
  shows "(if cont then 1 else 0) + (budget - used_so_far s2) \<le> (budget - used_so_far s) + (if gives_up s s2 then budget else 0)"
proof (cases e)
  case (TurnEnds t waiting)
  obtain r s1 where f: "plan_followup_after_turn lib disabled t budget s = (r, s1)" by fastforce
  note b = followup_budget [OF f]
  show ?thesis
  proof (cases cont)
    case False
    then have "s2 = s1"
      using assms f TurnEnds
      by (auto simp: plan_step_def dispatch_plan_followup_def split: option.splits PlanFollowup.splits if_splits)
    then show ?thesis using b(1) False by simp
  next
    case True
    then obtain ev c where c: "r = Some (ContinuePlan ev)" "ss_carryover s1 = Some c"
        "s2 = s1\<lparr>ss_carryover := Some (c\<lparr>continuations_used := continuations_used c + 1\<rparr>)\<rparr>"
      using assms f TurnEnds
      by (auto simp: plan_step_def dispatch_plan_followup_def split: option.splits PlanFollowup.splits if_splits)
    then have "used_so_far s2 = Suc (used_so_far s1)" "gives_up s s2 = gives_up s s1"
      by (simp_all add: used_so_far_def gives_up_def split: option.split)
    then show ?thesis using b(1) b(2) [OF c(1)] True by simp
  qed
next
  case PlanDropped
  then show ?thesis using assms by (auto simp: plan_step_def used_so_far_def gives_up_def split: option.splits)
qed

text \<open>C20. Self-started continuation turns are bounded: over any history of ended turns and dropped plans, whatever the
  turns do and whatever else waits, the agent starts at most as many continuation turns as the budget of the plan it
  carries still allows, plus one full budget for every plan that was given up on the way: completed, stopped (a failed
  step, no progress, the budget used up), dropped, or replaced by one with another goal. So while a plan keeps its goal and
  is not given up, it gets no more than its budget, however its turns are interleaved with others; a plan that was stopped
  and is taken up again gets a fresh one.\<close>

theorem plan_continuations_bounded:
  "started lib disabled budget s es \<le> (budget - used_so_far s) + budget * given_up lib disabled budget s es"
proof (induction es arbitrary: s)
  case (Cons e es)
  obtain cont s2 where p: "plan_step lib disabled budget s e = (cont, s2)" by fastforce
  show ?case using plan_step_budget [OF p] Cons.IH [of s2] p by (simp split: if_splits)
qed simp

definition demo_turn :: "string \<Rightarrow> WorkingTurn" where
  "demo_turn g = \<lparr>wt_task = 0, wt_id = ''t'', wt_content = ''c'', wt_phase = Thinking, wt_iteration = 0, wt_pending_tool = None,
     wt_pending_approval = None, wt_history = [],
     wt_plan = Some \<lparr>ap_goal = g, ap_steps = [\<lparr>ps_id = 1, ps_description = ''x'', ps_tool = None, ps_status = ''pending''\<rparr>],
       ap_status = ''executing'', ap_advisory = None\<rparr>,
     wt_failures = 0, wt_streak = 0, wt_repair_note = None, wt_repair_attempts = 0, wt_text_reply = None,
     wt_awaiting_transcription = False, wt_script = None, wt_paracrine_origin = None, wt_plan_confirmed = False, wt_plan_note = None,
     wt_tier = 0, wt_tier0 = False, wt_stream_retries = 0, wt_source = ConfiguredDefault\<rparr>"

definition demo_text :: text_lib where
  "demo_text = \<lparr>tl_lower = (\<lambda>s. s), tl_alnum = (\<lambda>c. True), tl_json = (\<lambda>j. [])\<rparr>"

lemma demo_eval:
  "verdict (evaluate_plan lib (the (wt_plan (demo_turn g))) prior []) =
     (case prior of None \<Rightarrow> PlanContinue | Some fs \<Rightarrow> if flag_at fs 0 then PlanComplete else PlanBlocked)"
  by (auto simp: evaluate_plan_def demo_turn_def step_flag_def heuristic_step_done_def tokens_match_def Let_def split: option.split)

lemma demo_followup:
  assumes "carries_goal g s \<longrightarrow> ss_carryover s = None"
  shows "\<exists>ev c. plan_followup_after_turn lib False (demo_turn g) (Suc b) s = (Some (ContinuePlan ev), s\<lparr>ss_carryover := Some c\<rparr>)
    \<and> continuations_used c = 0 \<and> ap_goal (co_plan c) = g"
proof -
  obtain p where p: "wt_plan (demo_turn g) = Some p" "ap_goal p = g" "ap_steps p \<noteq> []"
    by (simp add: demo_turn_def)
  have v: "verdict (evaluate_plan lib p None (wt_history (demo_turn g))) = PlanContinue"
    using demo_eval [of lib g None] p(1) by (simp add: demo_turn_def)
  have "(case ss_carryover s of Some c \<Rightarrow> if ap_goal (co_plan c) = ap_goal p then (Some (co_done c), continuations_used c, co_turn c)
      else (None, 0, wt_id (demo_turn g)) | None \<Rightarrow> (None, 0, wt_id (demo_turn g))) = (None, 0, wt_id (demo_turn g))"
    using assms p(2) by (auto simp: carries_goal_def split: option.split)
  moreover have "\<not> wt_scripted (demo_turn g)" "wt_paracrine_origin (demo_turn g) = None" by (simp_all add: demo_turn_def)
  ultimately have "plan_followup_after_turn lib False (demo_turn g) (Suc b) s =
      (Some (ContinuePlan (Some (evaluate_plan lib p None (wt_history (demo_turn g))))),
       s\<lparr>ss_carryover := Some \<lparr>co_plan = p, co_done = steps_done_flags (evaluate_plan lib p None (wt_history (demo_turn g))),
         continuations_used = 0, co_turn = wt_id (demo_turn g)\<rparr>\<rparr>)"
    using p v by (simp add: plan_followup_after_turn_def Let_def)
  then show ?thesis using p(2) by (intro exI conjI) (assumption, simp_all)
qed

theorem plan_continues_with_progress_witness:
  "\<exists>i<1. \<not> steps_done_flags (evaluate_plan demo_text (the (wt_plan (demo_turn ''g''))) None []) ! i"
proof -
  have "verdict (evaluate_plan demo_text (the (wt_plan (demo_turn ''g''))) None []) = PlanContinue"
    by (simp add: demo_eval)
  moreover have "ap_steps (the (wt_plan (demo_turn ''g''))) \<noteq> []" "length (ap_steps (the (wt_plan (demo_turn ''g'')))) = 1"
    by (simp_all add: demo_turn_def)
  ultimately show ?thesis
    using plan_continues_with_progress [of demo_text "the (wt_plan (demo_turn ''g''))" None "[]"] by metis
qed

text \<open>The budget follows the plan's goal, which the model writes: a plan whose goal changes from turn to turn is continued
  without end and without any step being done.\<close>

lemma changing_goals_unbounded:
  assumes "ss_queue s = []"
  shows "\<exists>ts. length ts = n \<and> started lib False (Suc b) (s\<lparr>ss_carryover := None\<rparr>) (map (\<lambda>t. TurnEnds t False) ts) = n"
proof -
  let ?turn = "\<lambda>k. demo_turn (replicate k (CHR ''a''))"
  have "started lib False (Suc b) s' (map (\<lambda>k. TurnEnds (?turn k) False) [k..<k + n]) = n"
    if "ss_queue s' = []" "\<forall>i\<ge>k. carries_goal (replicate i (CHR ''a'')) s' \<longrightarrow> ss_carryover s' = None" for s' k
    using that
  proof (induction n arbitrary: k s')
    case (Suc n)
    obtain ev c where f: "plan_followup_after_turn lib False (?turn k) (Suc b) s' = (Some (ContinuePlan ev), s'\<lparr>ss_carryover := Some c\<rparr>)"
        "continuations_used c = 0" "ap_goal (co_plan c) = replicate k (CHR ''a'')"
      using demo_followup [of "replicate k (CHR ''a'')" s' lib b] Suc.prems(2) by auto
    let ?s2 = "s'\<lparr>ss_carryover := Some (c\<lparr>continuations_used := 1\<rparr>)\<rparr>"
    have "plan_step lib False (Suc b) s' (TurnEnds (?turn k) False) = (True, ?s2)"
      using Suc.prems(1) f by (simp add: plan_step_def dispatch_plan_followup_def)
    moreover have "started lib False (Suc b) ?s2 (map (\<lambda>k. TurnEnds (?turn k) False) [Suc k..<Suc k + n]) = n"
      by (rule Suc.IH) (use Suc.prems(1) f(3) in \<open>auto simp: carries_goal_def\<close>)
    moreover have "[k..<k + Suc n] = k # [Suc k..<Suc k + n]" by (simp add: upt_conv_Cons)
    ultimately show ?case by simp
  qed simp
  from this [of "s\<lparr>ss_carryover := None\<rparr>" 0] assms show ?thesis
    by (intro exI [of _ "map ?turn [0..<n]"]) (simp add: comp_def)
qed

end
