(* ===== verification/ToolGate.thy ===== *)
theory ToolGate
  imports PlanEval
begin

section \<open>The tool gate and the turn loop\<close>

text \<open>
  Models how an agent's turn runs tools (\<^verbatim>\<open>crates/philote/src/tool_exec.rs\<close>, \<^verbatim>\<open>turn_loop.rs\<close>, \<^verbatim>\<open>runtime.rs\<close>): the gates in front
  of a tool call, approval requests, parking and the operator's commands, tool results with the iteration cap, the
  stop conditions and the stall detection, and the end of a turn. One session is modelled. Requests to the hotel
  succeed; a failing one ends its handler after the state change and before the effect. Where a handler of a scripted turn
  goes on with \<open>scripted_dispatch_after_advance\<close>, the model marks the executor as due and takes that as the next step
  (\<open>ScriptStep\<close>). Left out are voice, the provenance stamping, the special answer to the result of a \<open>life.observe\<close> call, the
  texts shown to people, and the runtime's own messages to the LifeGraph service (the recall before a prompt, the automatic
  capture after a turn, the attention observer), which are sent beside the turns and answer no tool call of the model, the
  script or the operator.
\<close>

text \<open>What a handler is given besides its input: the class of a tool, text functions, the JSON parser, the switch and budget of
  plan continuations, fresh identifiers, the loop script of the active role, the network state, the text of a model's result
  (\<open>ge_raw\<close>), and the arguments the parser of \<^verbatim>\<open>memory_integration.rs\<close>
  takes from the text of a direct \<open>life.observe\<close> command (\<open>ge_observe\<close>, for which any function may stand; which texts reach
  it is modelled).\<close>

record gate_env =
  ge_class :: "string \<Rightarrow> string option"
  ge_text :: text_lib
  ge_parse :: "string \<Rightarrow> json option"
  ge_disabled :: bool
  ge_budget :: nat
  ge_fresh :: string
  ge_task :: "128 word"
  ge_script :: "LoopScript option"
  ge_offline :: bool
  ge_raw :: string
  ge_observe :: "InboundTask \<Rightarrow> string \<Rightarrow> json option"

datatype effect =
    Dispatched ToolCall
  | AskOperator ApprovalRequest "ToolCall option"
  | Replied string
  | ModelAsked bool
  | TurnFailed string

text \<open>\<open>ga_drained\<close> is \<open>pending_drains\<close>: tasks the main loop dispatches before it receives again.\<close>

record gate =
  ga_session :: SessionState
  ga_log :: "effect list"
  ga_drained :: "(128 word \<times> InboundTask) list"

definition on_session :: "(SessionState \<Rightarrow> SessionState) \<Rightarrow> gate \<Rightarrow> gate" where
  "on_session f g = g\<lparr>ga_session := f (ga_session g)\<rparr>"

definition emit :: "effect \<Rightarrow> gate \<Rightarrow> gate" where
  "emit e g = g\<lparr>ga_log := ga_log g @ [e]\<rparr>"

subsection \<open>The end of a turn\<close>

definition drain_next_user_task :: "gate \<Rightarrow> gate" where
  "drain_next_user_task g =
     (case dequeue_user_task (ga_session g) of
        (Some tk, s) \<Rightarrow> g\<lparr>ga_session := s, ga_drained := ga_drained g @ [tk]\<rparr>
      | (None, s) \<Rightarrow> g\<lparr>ga_session := s\<rparr>)"

definition continuation_task :: "gate_env \<Rightarrow> CarryoverPlan option \<Rightarrow> InboundTask" where
  "continuation_task env carry =
     default_task\<lparr>it_action := Some ''plan_continuation'', it_turn := Some (ge_fresh env),
       it_content := map_option (\<lambda>c. plan_continuation_brief c (ge_budget env)) carry\<rparr>"

definition deliver_text_reply :: "gate_env \<Rightarrow> nat \<Rightarrow> string \<Rightarrow> gate \<Rightarrow> gate" where
  "deliver_text_reply env now content g =
     (case complete_active_turn (ge_parse env) content now (ga_session g) of
        (None, s) \<Rightarrow> g\<lparr>ga_session := s\<rparr>
      | (Some t, s) \<Rightarrow>
          let (followup, s1) = plan_followup_after_turn (ge_text env) (ge_disabled env) t (ge_budget env)
                                 (set_active_turn_phase Completed now s);
              g1 = drain_next_user_task (emit (Replied content) (g\<lparr>ga_session := s1\<rparr>))
          in (case followup of
                None \<Rightarrow> g1
              | Some f \<Rightarrow>
                  let (started, s2) = dispatch_plan_followup (ga_drained g1 \<noteq> []) f (ga_session g1)
                  in g1\<lparr>ga_session := s2,
                        ga_drained := ga_drained g1 @ (if started then [(ge_task env, continuation_task env (ss_carryover (ga_session g1)))] else [])\<rparr>))"

definition fail_active_turn :: "nat \<Rightarrow> string \<Rightarrow> gate \<Rightarrow> gate" where
  "fail_active_turn now msg g =
     (case ss_turn (ga_session g) of
        None \<Rightarrow> g
      | Some t \<Rightarrow>
          drain_next_user_task (emit (TurnFailed msg)
            (on_session (\<lambda>s. (set_active_turn_phase Failed now s)\<lparr>ss_turn := None, ss_waiting_since := None\<rparr>) g)))"

subsection \<open>The iteration cap\<close>

definition low_progress_tool_name :: "string \<Rightarrow> bool" where
  "low_progress_tool_name nm \<longleftrightarrow>
     nm \<in> set [''agent.graph.read'', ''hotel.logs'', ''hotel.status'', ''mcp.status'', ''memory.status'', ''role.list'',
               ''session.status'', ''skill.list'']"

definition duplicate_tool_skip :: "ToolResult \<Rightarrow> bool" where
  "duplicate_tool_skip r \<longleftrightarrow> starts_with ''[Duplicate call skipped]'' (tr_content r)"

definition recent_low_progress_tool_run :: "WorkingTurn \<Rightarrow> nat" where
  "recent_low_progress_tool_run t =
     length (takeWhile (\<lambda>(c, r). low_progress_tool_name (tc_name c) \<or> duplicate_tool_skip r) (rev (wt_history t)))"

definition STREAK_CAP_CEILING :: nat where "STREAK_CAP_CEILING = 50"

definition effective_iteration_cap :: "nat \<Rightarrow> WorkingTurn \<Rightarrow> nat" where
  "effective_iteration_cap cap t = min (sat_add32 cap (wt_streak t)) (max STREAK_CAP_CEILING cap)"

definition tool_step_earns_streak :: "WorkingTurn \<Rightarrow> ToolCall \<Rightarrow> ToolResult \<Rightarrow> bool \<Rightarrow> bool" where
  "tool_step_earns_streak t c r failed =
     (if failed \<or> low_progress_tool_name (tc_name c) \<or> duplicate_tool_skip r then False
      else \<not> list_ex (\<lambda>(p, _). tc_name p = tc_name c \<and> tc_args p = tc_args c) (wt_history t))"

definition loop_stop_reason :: "WorkingTurn \<Rightarrow> nat \<Rightarrow> string option" where
  "loop_stop_reason t cap =
     (let recent = recent_low_progress_tool_run t in
      if wt_iteration t \<ge> 4 \<and> recent \<ge> 4 then Some ''the last several tool calls only inspected status or repeated previous work''
      else if cap - wt_iteration t \<le> 1 \<and> recent \<ge> 2 then Some ''the turn is close to its iteration limit without new forward progress''
      else None)"

text \<open>A plan in a model's answer: it becomes the turn's plan and may raise the session's cap.\<close>

definition capture_plan :: "ActivePlan \<Rightarrow> SessionState \<Rightarrow> SessionState" where
  "capture_plan p s =
     (let s1 = set_active_plan p s;
          n = (case Option.bind (ss_turn s1) wt_plan of Some q \<Rightarrow> length (ap_steps q) | None \<Rightarrow> 0)
      in if n > 0
         then (let plan_cap = min (max (n * 4) (ss_cap s1)) 50
               in if plan_cap > ss_cap s1 then s1\<lparr>ss_cap := plan_cap\<rparr> else s1)
         else s1)"

subsection \<open>Tool results\<close>

definition plan_is_done :: "WorkingTurn \<Rightarrow> bool" where
  "plan_is_done t \<longleftrightarrow>
     (case wt_plan t of
        Some p \<Rightarrow> ap_status p = ''done''
          \<or> (ap_steps p \<noteq> [] \<and> list_all (\<lambda>st. ps_status st = ''done'' \<or> ps_status st = ''failed'') (ap_steps p))
      | None \<Rightarrow> False)"

definition MAX_ITERATIONS_REASON :: string where
  "MAX_ITERATIONS_REASON = ''the turn reached its maximum tool-iteration limit''"

definition result_recorded :: "ToolResult \<Rightarrow> bool \<Rightarrow> SessionState \<Rightarrow> nat \<times> SessionState" where
  "result_recorded r failed s =
     (let c = (case Option.bind (ss_turn s) wt_pending_tool of Some c \<Rightarrow> c | None \<Rightarrow> \<lparr>tc_name = tr_name r, tc_args = JObj []\<rparr>);
          earns = (case ss_turn s of Some t \<Rightarrow> tool_step_earns_streak t c r failed | None \<Rightarrow> False);
          s1 = clear_pending_tool_call (push_tool_history c r s);
          s2 = (if failed then record_tool_streak_failure (tc_name c) s1 else record_tool_streak_success (tc_name c) s1);
          (failures, s3) = (if failed then increment_step_failures s2 else (0, reset_step_failures s2))
      in (failures, on_turn (\<lambda>t. t\<lparr>wt_streak := (if earns then sat_add32 (wt_streak t) 1 else wt_streak t),
                                   wt_iteration := wt_iteration t + 1, wt_phase := WaitingModel\<rparr>) s3))"

text \<open>\<open>with_scripted_executor_mut\<close>, after which the executor is asked for its next decision.\<close>

definition on_script :: "(ScriptedLoopExecutor \<Rightarrow> ScriptedLoopExecutor) \<Rightarrow> SessionState \<Rightarrow> SessionState" where
  "on_script f s = on_turn (\<lambda>t. t\<lparr>wt_script := map_option (\<lambda>x. (f x)\<lparr>sx_due := True\<rparr>) (wt_script t)\<rparr>) s"

definition handle_tool_result :: "gate_env \<Rightarrow> nat \<Rightarrow> ToolResult \<Rightarrow> bool \<Rightarrow> gate \<Rightarrow> gate" where
  "handle_tool_result env now r failed g =
     (case ss_turn (ga_session g) of
        Some t0 \<Rightarrow>
          if wt_scripted t0
          then on_session (\<lambda>s. on_script (\<lambda>x. advance_tool_cursor (record_tool_result (JStr (tr_content r)) x))
                 (clear_pending_tool_call
                   (push_tool_history (case wt_pending_tool t0 of Some c \<Rightarrow> c | None \<Rightarrow> \<lparr>tc_name = tr_name r, tc_args = JObj []\<rparr>) r s))) g
          else
            let (failures, s1) = result_recorded r failed (ga_session g); g1 = g\<lparr>ga_session := s1\<rparr> in
            (case ss_turn s1 of
               None \<Rightarrow> g1
             | Some t \<Rightarrow>
                 let cap = effective_iteration_cap (ss_cap s1) t in
                 if failures \<ge> ss_stall s1 then fail_active_turn now ''Stall detected'' g1
                 else if loop_stop_reason t cap \<noteq> None then emit (ModelAsked True) g1
                 else if wt_iteration t = cap then emit (ModelAsked True) g1
                 else if wt_iteration t > cap then deliver_text_reply env now MAX_ITERATIONS_REASON g1
                 else if plan_is_done t then emit (ModelAsked True) g1
                 else emit (ModelAsked False) g1)
      | None \<Rightarrow> g\<lparr>ga_session := snd (result_recorded r failed (ga_session g))\<rparr>)"

subsection \<open>Gates in front of a tool call\<close>

definition arg_of :: "ToolCall \<Rightarrow> string \<Rightarrow> json option" where
  "arg_of c k = (case tc_args c of JObj fs \<Rightarrow> tbl_get fs k | _ \<Rightarrow> None)"

definition unconditional_approval_gate :: "ToolCall \<Rightarrow> string option" where
  "unconditional_approval_gate c =
     (if tc_name c = ''role.configure'' \<and> arg_of c ''is_admin'' = Some (JBool True) then Some ''admin_role_creation''
      else if tc_name c = ''rule.propose'' then Some ''rule_propose''
      else if tc_name c = ''routing.policy.propose'' then Some ''routing_policy_propose''
      else if tc_name c = ''skill.register'' then Some ''skill_register''
      else None)"

text \<open>\<open>cls\<close> is again the class of a tool in the catalogue; upstream MCP tools carry the prefix \<open>mcp:\<close>.\<close>

definition tool_requires_approval :: "(string \<Rightarrow> string option) \<Rightarrow> string \<Rightarrow> bool" where
  "tool_requires_approval cls nm =
     (if nm = ''handoff.to_role'' \<or> nm = ''handoff.back'' then False
      else if starts_with ''mcp:'' nm then True
      else cls nm = Some ''config'' \<or> cls nm = Some ''shell'')"

definition tool_is_enabled :: "string \<Rightarrow> SessionState \<Rightarrow> bool" where
  "tool_is_enabled nm s =
     (if nm \<in> set (ss_model_tools s) then True
      else if map_of (ss_routes s) nm \<noteq> None then True
      else ss_toolset s = [] \<or> nm \<in> set (ss_toolset s))"

definition execute_bound_tool :: "ToolCall \<Rightarrow> SessionState \<Rightarrow> string + (string \<times> string)" where
  "execute_bound_tool c s =
     (if \<not> tool_is_enabled (tc_name c) s then Inl ''not enabled for this session''
      else (case map_of (ss_routes s) (tc_name c) of
              None \<Rightarrow> Inl ''no assembled execution route''
            | Some (mode, avail) \<Rightarrow>
                if mode \<noteq> ''local_agent'' \<and> avail \<noteq> ''live'' then Inl ''requires runner materialization'' else Inr (mode, avail)))"

definition already_succeeded :: "text_lib \<Rightarrow> ToolCall \<Rightarrow> WorkingTurn \<Rightarrow> bool" where
  "already_succeeded lib c t \<longleftrightarrow>
     list_ex (\<lambda>(p, r). tc_name p = tc_name c \<and> tl_json lib (tc_args p) = tl_json lib (tc_args c)
       \<and> \<not> contains_sub ''error'' (to_lowercase (tl_lower lib) (tr_content r))
       \<and> \<not> contains_sub ''failed'' (to_lowercase (tl_lower lib) (tr_content r))) (wt_history t)"

definition requires_approval :: "ToolCall \<Rightarrow> SessionState \<Rightarrow> bool" where
  "requires_approval c s \<longleftrightarrow> tc_name c \<in> set (ss_requires s)"

definition force_approval :: "gate_env \<Rightarrow> ToolCall \<Rightarrow> SessionState \<Rightarrow> bool" where
  "force_approval env c s \<longleftrightarrow> requires_approval c s \<and> \<not> approval_policy_allows (ge_class env) (Some c) s"

subsection \<open>Running a tool\<close>

text \<open>The part of \<open>route_tool_call_execution\<close> behind the gates. Of the tools the agent runs itself, the request for a
  standing approval changes the session and is modelled; the others answer with a tool result later.\<close>

definition request_standing :: "gate_env \<Rightarrow> nat \<Rightarrow> ToolCall \<Rightarrow> gate \<Rightarrow> gate" where
  "request_standing env now c g =
     (let nm = (case arg_of c ''tool_name'' of Some (JStr x) \<Rightarrow> x | _ \<Rightarrow> []);
          required = requested_successes (arg_of c ''required_successes'')
      in if nm = [] then fail_active_turn now ''approval.request_standing: missing required argument'' g
         else handle_tool_result env now \<lparr>tr_name = tc_name c, tr_content = ''Standing approval''\<rparr> False
                (on_session (register_standing_preapproval nm required) g))"

definition execute_call :: "gate_env \<Rightarrow> nat \<Rightarrow> ToolCall \<Rightarrow> gate \<Rightarrow> gate" where
  "execute_call env now c g =
     (if (case ss_turn (ga_session g) of Some t \<Rightarrow> already_succeeded (ge_text env) c t | None \<Rightarrow> False)
      then handle_tool_result env now \<lparr>tr_name = tc_name c, tr_content = ''[Duplicate call skipped]''\<rparr> False
             (on_session (set_provider_repair_note ''already succeeded earlier in this turn'') g)
      else (case execute_bound_tool c (ga_session g) of
              Inl msg \<Rightarrow> fail_active_turn now msg g
            | Inr route \<Rightarrow>
                if ss_turn (ga_session g) = None then g
                else let g1 = emit (Dispatched c)
                       (on_session (\<lambda>s. set_active_turn_phase WaitingTool now (set_pending_tool_call c s)) g)
                     in if fst route = ''local_agent'' \<and> tc_name c = ''approval.request_standing''
                        then request_standing env now c g1 else g1))"

subsection \<open>Approval requests\<close>

definition normalize_approval_request :: "gate_env \<Rightarrow> ApprovalRequest \<Rightarrow> ApprovalRequest" where
  "normalize_approval_request env a =
     (if (case ar_id a of Some x \<Rightarrow> x | None \<Rightarrow> []) = [] then a\<lparr>ar_id := Some (ge_fresh env)\<rparr> else a)"

definition handle_approval_request :: "gate_env \<Rightarrow> nat \<Rightarrow> ApprovalRequest \<Rightarrow> bool \<Rightarrow> gate \<Rightarrow> gate" where
  "handle_approval_request env now a0 human g =
     (let a = normalize_approval_request env a0 in
      case ss_turn (ga_session g) of
        None \<Rightarrow> g
      | Some t \<Rightarrow>
          if \<not> human \<and> approval_policy_allows (ge_class env) (wt_pending_tool t) (ga_session g)
          then let g1 = emit (Replied (ar_response a))
                     (on_session (\<lambda>s. set_active_turn_phase Thinking now (clear_pending_approval s)) g)
               in (case wt_pending_tool t of
                     Some c \<Rightarrow> execute_call env now c g1
                   | None \<Rightarrow> deliver_text_reply env now (ar_response a) g1)
          else emit (AskOperator a (wt_pending_tool t))
                 (on_session (\<lambda>s. park_active_turn_for_approval now
                    (set_active_turn_phase WaitingApproval now (set_pending_approval a s))) g))"

definition route_tool_call :: "gate_env \<Rightarrow> nat \<Rightarrow> ToolCall \<Rightarrow> gate \<Rightarrow> gate" where
  "route_tool_call env now c g =
     (if unconditional_approval_gate c \<noteq> None \<or> force_approval env c (ga_session g)
      then handle_approval_request env now
             \<lparr>ar_id = Some (ge_fresh env), ar_reason = tc_name c @ '' requires approval'', ar_response = ''Executing '' @ tc_name c\<rparr>
             (unconditional_approval_gate c \<noteq> None) (on_session (set_pending_tool_call c) g)
      else execute_call env now c g)"

subsection \<open>The model's answer\<close>

datatype AgentAction =
    Respond string
  | CallTool ToolCall
  | RequestApproval ApprovalRequest
  | PlanProposal string
  | FailAction string

definition handle_plan_proposal :: "nat \<Rightarrow> string \<Rightarrow> gate \<Rightarrow> gate" where
  "handle_plan_proposal now summary g =
     (case ss_turn (ga_session g) of
        None \<Rightarrow> g
      | Some t \<Rightarrow>
          emit (Replied summary)
            (on_session (\<lambda>s. park_active_turn_for_plan now (set_active_turn_phase PlanningDiscussion now (s\<lparr>ss_carryover := None\<rparr>))) g))"

definition forced_stop :: "SessionState \<Rightarrow> WorkingTurn \<Rightarrow> string option" where
  "forced_stop s t =
     (let cap = effective_iteration_cap (ss_cap s) t
      in if wt_iteration t \<ge> cap then Some MAX_ITERATIONS_REASON else loop_stop_reason t cap)"

definition model_tool_call :: "gate_env \<Rightarrow> nat \<Rightarrow> ToolCall \<Rightarrow> gate \<Rightarrow> gate" where
  "model_tool_call env now c g =
     (case Option.bind (ss_turn (ga_session g)) (forced_stop (ga_session g)) of
        Some reason \<Rightarrow> deliver_text_reply env now reason g
      | None \<Rightarrow> route_tool_call env now c g)"

text \<open>An answer sets the phase and takes over the plan before it acts.\<close>

definition prepare_answer :: "nat \<Rightarrow> ActivePlan option \<Rightarrow> gate \<Rightarrow> gate" where
  "prepare_answer now plan g =
     on_session (\<lambda>s. let s1 = set_active_turn_phase Thinking now s in case plan of None \<Rightarrow> s1 | Some p \<Rightarrow> capture_plan p s1) g"

text \<open>The answer in a scripted turn is the output of the step: its text as JSON, or as a string.\<close>

definition answer_value :: "gate_env \<Rightarrow> json" where
  "answer_value env = (case ge_parse env (ge_raw env) of Some j \<Rightarrow> j | None \<Rightarrow> JStr (ge_raw env))"

definition handle_model_response :: "gate_env \<Rightarrow> nat \<Rightarrow> string \<Rightarrow> ActivePlan option \<Rightarrow> AgentAction \<Rightarrow> gate \<Rightarrow> gate" where
  "handle_model_response env now tid plan action g =
     (case ss_turn (ga_session g) of
        None \<Rightarrow> g
      | Some t \<Rightarrow>
          if wt_id t \<noteq> tid \<or> wt_phase t = WaitingVoice then g
          else let g1 = prepare_answer now plan g in
            if wt_awaiting_transcription t then g1
            else if wt_scripted t then on_session (on_script (record_step_output (answer_value env))) g1
            else (case action of
                    Respond content \<Rightarrow> deliver_text_reply env now content g1
                  | CallTool c \<Rightarrow> model_tool_call env now c g1
                  | RequestApproval a \<Rightarrow> handle_approval_request env now a False g1
                  | PlanProposal summary \<Rightarrow> handle_plan_proposal now summary g1
                  | FailAction msg \<Rightarrow> fail_active_turn now msg g1))"

subsection \<open>The operator's decision\<close>

definition resume_turn_with_steering :: "string \<Rightarrow> string \<Rightarrow> gate \<Rightarrow> gate" where
  "resume_turn_with_steering note label g =
     (case ss_turn (ga_session g) of
        None \<Rightarrow> g
      | Some t \<Rightarrow>
          emit (ModelAsked False)
            (on_session (on_turn (\<lambda>t. t\<lparr>wt_content := wt_content t @ [CHR 0x0A, CHR 0x0A] @ label @ [CHR 0x0A] @ note,
                                       wt_iteration := wt_iteration t + 1, wt_phase := WaitingModel\<rparr>)) g))"

definition scripted_gate :: "ApprovalRequest \<Rightarrow> bool" where
  "scripted_gate a \<longleftrightarrow> (case ar_id a of Some x \<Rightarrow> starts_with ''scripted_gate:'' x | None \<Rightarrow> False)"

definition restore_for_command :: "gate \<Rightarrow> gate" where
  "restore_for_command =
     on_session (\<lambda>s. if ss_parked_approval s \<noteq> None \<and> \<not> is_turn_active s then snd (restore_parked_approval_turn s) else s)"

definition pending_decision :: "SessionState \<Rightarrow> (ToolCall option \<times> ApprovalRequest) option" where
  "pending_decision s =
     (case ss_turn s of
        Some t \<Rightarrow> if wt_phase t = WaitingApproval then map_option (\<lambda>a. (wt_pending_tool t, a)) (wt_pending_approval t) else None
      | None \<Rightarrow> None)"

definition handle_approval_command :: "gate_env \<Rightarrow> nat \<Rightarrow> SlashCommand \<Rightarrow> gate \<Rightarrow> gate" where
  "handle_approval_command env now cmd g0 =
     (let g = restore_for_command g0 in
      case pending_decision (ga_session g) of
        None \<Rightarrow> emit (Replied ''No approval pending.'') g
      | Some (tool, a) \<Rightarrow>
          (case cmd of
             Approve note \<Rightarrow>
               let g1 = on_session (\<lambda>s. set_active_turn_phase Thinking now (clear_pending_approval s)) g in
               (case note of
                  Some n \<Rightarrow> resume_turn_with_steering n ''[User approval steering]'' g1
                | None \<Rightarrow>
                    let g2 = emit (Replied (ar_response a)) g1 in
                    if scripted_gate a then on_session (on_script (record_step_output (JObj [(''approved'', JBool True)]))) g2
                    else (case tool of Some c \<Rightarrow> execute_call env now c g2 | None \<Rightarrow> g2))
           | Deny note \<Rightarrow>
               let g1 = on_session (\<lambda>s. set_active_turn_phase (if note \<noteq> None then Thinking else Failed) now (clear_pending_approval s)) g in
               (case note of
                  Some n \<Rightarrow> resume_turn_with_steering n ''[User denied the proposed action. Do this instead]'' g1
                | None \<Rightarrow>
                    let g2 = emit (Replied (''Denied: '' @ ar_reason a)) g1 in
                    if scripted_gate a then fail_active_turn now (''Plan rejected: '' @ ar_reason a) g2 else g2)
           | _ \<Rightarrow> on_session clear_pending_approval g))"

definition should_defer_parked_approval_command :: "SessionState \<Rightarrow> bool" where
  "should_defer_parked_approval_command s \<longleftrightarrow>
     ss_parked_approval s \<noteq> None \<and> (case ss_turn s of Some t \<Rightarrow> wt_phase t \<noteq> WaitingApproval | None \<Rightarrow> False)"

definition handle_approval_clear :: "gate \<Rightarrow> gate" where
  "handle_approval_clear g =
     (case ss_parked_approval (ga_session g) of
        None \<Rightarrow> emit (Replied ''No parked approval to clear.'') g
      | Some t \<Rightarrow>
          emit (Replied ''Parked approval cleared.'')
            (on_session (\<lambda>s. s\<lparr>ss_parked_approval := None, ss_parked_approval_since := None\<rparr>) g))"

subsection \<open>Messages\<close>

definition complete_local_command :: "gate_env \<Rightarrow> nat \<Rightarrow> string \<Rightarrow> gate \<Rightarrow> gate" where
  "complete_local_command env now reply g =
     (case complete_active_turn (ge_parse env) reply now (ga_session g) of
        (None, s) \<Rightarrow> g\<lparr>ga_session := s\<rparr>
      | (Some t, s) \<Rightarrow> emit (Replied reply) (g\<lparr>ga_session := s\<rparr>))"

text \<open>The commands that run as a turn of their own. Those about roles, tools, skills, workspaces, voice and model
  presets change bindings outside this model and only answer here.\<close>

definition run_command :: "gate_env \<Rightarrow> nat \<Rightarrow> SlashCommand \<Rightarrow> gate \<Rightarrow> gate" where
  "run_command env now cmd g =
     complete_local_command env now ''ok''
       (on_session (\<lambda>s. case cmd of
            Pause \<Rightarrow> s\<lparr>ss_status := ''paused''\<rparr>
          | Resume \<Rightarrow> s\<lparr>ss_status := ''active''\<rparr>
          | PreapproveThisSession \<Rightarrow> set_preapprove_this_session s
          | Preapprove nm \<Rightarrow> preapprove_by_name nm s
          | ApprovalReset \<Rightarrow> reset_approval_policy s
          | Model tier \<Rightarrow> s\<lparr>ss_override := None, ss_pinned := tier\<rparr>
          | _ \<Rightarrow> s) g)"

definition QUEUE_DEPTH_CAP :: nat where "QUEUE_DEPTH_CAP = 3"

definition seeded_plan :: "InboundTask \<Rightarrow> SessionState \<Rightarrow> ActivePlan option" where
  "seeded_plan task s =
     (if it_action task = Some ''plan_continuation''
      then map_option (\<lambda>c. (co_plan c)
             \<lparr>ap_steps := map (\<lambda>(i, st). if flag_at (co_done c) i then st\<lparr>ps_status := ''done''\<rparr> else st)
                            (enumerate 0 (ap_steps (co_plan c))),
              ap_status := (if ap_status (co_plan c) = ''planning'' then ''executing'' else ap_status (co_plan c))\<rparr>) (ss_carryover s)
      else None)"

definition seed_cron_tools :: "InboundTask \<Rightarrow> SessionState \<Rightarrow> SessionState" where
  "seed_cron_tools task s =
     (if it_cron_job task \<noteq> None
      then s\<lparr>ss_policy := (ss_policy s)\<lparr>preapproved_names := foldl (\<lambda>xs x. push_unique x xs) (preapproved_names (ss_policy s)) (it_cron_tools task)\<rparr>\<rparr>
      else s)"

definition new_turn :: "gate_env \<Rightarrow> 128 word \<Rightarrow> InboundTask \<Rightarrow> string \<Rightarrow> SessionState \<Rightarrow> WorkingTurn" where
  "new_turn env tid task content s =
     \<lparr>wt_task = tid, wt_id = (case it_turn task of Some x \<Rightarrow> x | None \<Rightarrow> ge_fresh env), wt_content = content, wt_phase = Queued,
      wt_iteration = 0, wt_pending_tool = None, wt_pending_approval = None, wt_history = [], wt_plan = seeded_plan task s,
      wt_failures = 0, wt_streak = 0, wt_repair_note = None, wt_repair_attempts = 0, wt_text_reply = None,
      wt_awaiting_transcription = False, wt_script = map_option new_executor (ge_script env), wt_paracrine_origin = it_paracrine_id task,
      wt_plan_confirmed = seeded_plan task s \<noteq> None, wt_plan_note = None,
      wt_tier = (if ge_offline env then 1 else 0), wt_tier0 = False, wt_stream_retries = 0,
      wt_source = (if it_cron_job task \<noteq> None then CronPrimary
                   else if ss_pinned s \<noteq> None then OperatorExplicit
                   else if ss_override s \<noteq> None then AutoFallback
                   else ConfiguredDefault)\<rparr>"

definition ask_model :: "nat \<Rightarrow> gate \<Rightarrow> gate" where
  "ask_model now g =
     emit (ModelAsked False) (on_session (\<lambda>s. set_active_turn_phase WaitingModel now (bump_active_turn_iteration s)) g)"

definition begin_turn :: "gate_env \<Rightarrow> nat \<Rightarrow> 128 word \<Rightarrow> InboundTask \<Rightarrow> string \<Rightarrow> SlashCommand option \<Rightarrow> gate \<Rightarrow> gate" where
  "begin_turn env now tid task content cmd g0 =
     (let g = on_session (\<lambda>s. set_active_turn_phase LoadingContext now
                (start_turn (new_turn env tid task content s) (seed_cron_tools task s))) g0
      in if it_requires_approval task
         then let a = \<lparr>ar_id = Some (''mcp-gate:'' @ (case it_turn task of Some x \<Rightarrow> x | None \<Rightarrow> ge_fresh env)),
                       ar_reason = ''requires operator approval'', ar_response = ''Executing''\<rparr>
              in emit (AskOperator a None)
                   (on_session (\<lambda>s. park_active_turn_for_approval now
                      (set_active_turn_phase WaitingApproval now (set_pending_approval a s))) g)
         else (case cmd of
                 Some c \<Rightarrow> run_command env now c g
               | None \<Rightarrow>
                   if ss_status (ga_session g) = ''paused''
                   then complete_local_command env now ''Session is paused. Use /resume to continue.'' g
                   else ask_model now g))"

definition confirmation_note :: "gate_env \<Rightarrow> string \<Rightarrow> string option" where
  "confirmation_note env content =
     (if to_lowercase (tl_lower (ge_text env)) (trim content) \<in> set [''yes'', ''proceed'', ''go'', ''ok''] then None else Some content)"

definition deny_or_cancel :: "SlashCommand option \<Rightarrow> bool" where
  "deny_or_cancel cmd = (case cmd of Some (Deny n) \<Rightarrow> True | Some (Abandon r) \<Rightarrow> True | _ \<Rightarrow> False)"

definition enter_message :: "gate_env \<Rightarrow> nat \<Rightarrow> 128 word \<Rightarrow> InboundTask \<Rightarrow> string \<Rightarrow> SlashCommand option \<Rightarrow> gate \<Rightarrow> gate" where
  "enter_message env now tid task content cmd g =
     (let s = ga_session g in
      if ss_parked_plan s \<noteq> None \<and> \<not> is_turn_active s
      then if \<not> deny_or_cancel cmd
           then emit (ModelAsked False)
                  (on_session (\<lambda>s. set_active_turn_phase WaitingModel now (snd (restore_parked_plan_turn (confirmation_note env content) s))) g)
           else fail_active_turn now ''Plan cancelled by operator.''
                  (on_session (\<lambda>s. s\<lparr>ss_turn := ss_parked_plan s, ss_parked_plan := None, ss_parked_plan_since := None\<rparr>) g)
      else if it_action task \<noteq> Some ''paracrine_request'' \<and> is_turn_active s
      then if length (ss_queue s) \<ge> QUEUE_DEPTH_CAP then emit (Replied ''busy'') g
           else on_session (enqueue_user_task tid task now) g
      else begin_turn env now tid task content cmd g)"

text \<open>A direct \<open>life.observe\<close> command of the operator: it goes to the tool without a question, in a turn of its own that takes the
  place of the active one and is complete at once.\<close>

definition observe_call :: "json \<Rightarrow> ToolCall" where
  "observe_call args = \<lparr>tc_name = ''life.observe'', tc_args = args\<rparr>"

definition handle_direct_life_observe :: "gate_env \<Rightarrow> nat \<Rightarrow> 128 word \<Rightarrow> InboundTask \<Rightarrow> string \<Rightarrow> json \<Rightarrow> gate \<Rightarrow> gate" where
  "handle_direct_life_observe env now tid task content args g =
     (if \<not> tool_is_enabled ''life.observe'' (ga_session g) \<or> map_of (ss_routes (ga_session g)) ''life.observe'' = None
      then emit (Replied ''life.observe is not enabled for this session'') g
      else complete_local_command env now ''Recorded''
             (emit (Dispatched (observe_call args))
               (on_session (\<lambda>s. start_turn ((new_turn env tid task content s)\<lparr>wt_content := ''life.observe direct command'',
                    wt_phase := WaitingTool, wt_pending_tool := Some (observe_call args), wt_plan := None, wt_script := None,
                    wt_paracrine_origin := None, wt_plan_confirmed := False, wt_source := ConfiguredDefault\<rparr>) s) g)))"

text \<open>Which tasks are such a command: not one a scheduler or another loop made, short, and with the tool's name in front or a
  request to record something near it. Only then the parser is asked for the call's arguments.\<close>

definition inbound_task_from_synthetic_source :: "InboundTask \<Rightarrow> bool" where
  "inbound_task_from_synthetic_source task \<longleftrightarrow>
     it_cron_job task \<noteq> None \<or> it_transport task = Some ''cron'' \<or> it_source task = Some ''cron-ticker'' \<or> it_paracrine_signal task"

definition DIRECT_LIFE_OBSERVE_ANCHOR_WINDOW :: nat where
  "DIRECT_LIFE_OBSERVE_ANCHOR_WINDOW = 24"

definition DIRECT_LIFE_OBSERVE_MAX_CHARS :: nat where
  "DIRECT_LIFE_OBSERVE_MAX_CHARS = 300"

definition triggers_life_observe :: "(string \<Rightarrow> string) \<Rightarrow> string \<Rightarrow> bool" where
  "triggers_life_observe tbl content \<longleftrightarrow>
     (let trimmed = trim content; lower = to_lowercase tbl trimmed;
          anchored = (\<lambda>phrase. case find_sub phrase lower of Some i \<Rightarrow> i \<le> DIRECT_LIFE_OBSERVE_ANCHOR_WINDOW | None \<Rightarrow> False)
      in trimmed \<noteq> [] \<and> length (utf8_chars trimmed) \<le> DIRECT_LIFE_OBSERVE_MAX_CHARS
         \<and> (starts_with ''life.observe'' lower \<or> anchored ''record this'' \<or> anchored ''record an open loop''))"

definition direct_life_observe_command_for_task :: "gate_env \<Rightarrow> InboundTask \<Rightarrow> string \<Rightarrow> json option" where
  "direct_life_observe_command_for_task env task content =
     (if inbound_task_from_synthetic_source task \<or> \<not> triggers_life_observe (tl_lower (ge_text env)) content then None
      else ge_observe env task content)"

definition enter_or_observe :: "gate_env \<Rightarrow> nat \<Rightarrow> 128 word \<Rightarrow> InboundTask \<Rightarrow> string \<Rightarrow> SlashCommand option \<Rightarrow> gate \<Rightarrow> gate" where
  "enter_or_observe env now tid task content cmd g =
     (case direct_life_observe_command_for_task env task content of
        Some args \<Rightarrow> handle_direct_life_observe env now tid task content args g
      | None \<Rightarrow> enter_message env now tid task content cmd g)"

text \<open>The handler of a message. The queue arbiter and transcript corrections are left out.\<close>

definition handle_user_message :: "gate_env \<Rightarrow> nat \<Rightarrow> 128 word \<Rightarrow> InboundTask \<Rightarrow> gate \<Rightarrow> gate" where
  "handle_user_message env now tid task g =
     (case normalized_user_content task of
        None \<Rightarrow> g
      | Some content \<Rightarrow>
          if it_action task = Some ''plan_continuation''
             \<and> \<not> (ss_carryover (ga_session g) \<noteq> None \<and> ss_parked_plan (ga_session g) = None)
          then g
          else (case parse_slash_command (tl_lower (ge_text env)) content of
                  None \<Rightarrow> enter_or_observe env now tid task content None g
                | Some cmd \<Rightarrow>
                    if command_bypasses_turn_start cmd then emit (Replied ''status'') g
                    else (case cmd of
                            ApprovalClear r \<Rightarrow> handle_approval_clear g
                          | Plan drop_it \<Rightarrow>
                              emit (Replied ''plan'') (on_session (\<lambda>s. if drop_it then s\<lparr>ss_carryover := None\<rparr> else s) g)
                          | Correct t x \<Rightarrow> g
                          | _ \<Rightarrow>
                              if (case cmd of Approve n \<Rightarrow> True | Deny n \<Rightarrow> True | _ \<Rightarrow> False)
                              then if should_defer_parked_approval_command (ga_session g)
                                   then on_session (prepend_user_task tid task now) g
                                   else handle_approval_command env now cmd
                                          (if it_callback task = Some ''trust'' then on_session set_preapprove_this_session g else g)
                              else enter_or_observe env now tid task content (Some cmd) g)))"

subsection \<open>Scripted turns\<close>

text \<open>What the executor wants next. Its tool calls skip the gates (\<open>bypass_approval\<close>); its approval gate is a request the
  policy may grant.\<close>

definition plan_text :: "gate_env \<Rightarrow> ScriptedLoopExecutor \<Rightarrow> string" where
  "plan_text env x =
     (case resolve_input x (case Option.bind (current_step x) sl_input of Some p \<Rightarrow> p | None \<Rightarrow> []) of
        Some v \<Rightarrow> tl_json (ge_text env) v
      | None \<Rightarrow> ''Plan ready for review.'')"

definition final_text :: "gate_env \<Rightarrow> json \<Rightarrow> string" where
  "final_text env v = (case v of JStr s \<Rightarrow> s | JNull \<Rightarrow> [] | _ \<Rightarrow> tl_json (ge_text env) v)"

definition scripted_park_for_approval :: "gate_env \<Rightarrow> nat \<Rightarrow> string \<Rightarrow> ScriptedLoopExecutor \<Rightarrow> gate \<Rightarrow> gate" where
  "scripted_park_for_approval env now gt x g =
     handle_approval_request env now
       \<lparr>ar_id = Some (''scripted_gate:'' @ gt), ar_reason = plan_text env x, ar_response = ''Plan approved. Executing now.''\<rparr> False g"

definition scripted_dispatch_next_tool :: "gate_env \<Rightarrow> nat \<Rightarrow> ToolCall \<Rightarrow> gate \<Rightarrow> gate" where
  "scripted_dispatch_next_tool env now c g = execute_call env now c (on_session (set_pending_tool_call c) g)"

definition scripted_emit_model_call :: "gate \<Rightarrow> gate" where
  "scripted_emit_model_call g =
     emit (ModelAsked False) (on_session (on_turn (\<lambda>t. t\<lparr>wt_iteration := wt_iteration t + 1, wt_phase := WaitingModel\<rparr>)) g)"

definition carry_out :: "gate_env \<Rightarrow> nat \<Rightarrow> ScriptedLoopExecutor \<Rightarrow> gate \<Rightarrow> gate" where
  "carry_out env now x g =
     (case advance_script x of
        EmitModelCall phase schema \<Rightarrow> scripted_emit_model_call g
      | ParkForApproval gt surface reject \<Rightarrow> scripted_park_for_approval env now gt x g
      | ExecuteNextTool nm args \<Rightarrow> scripted_dispatch_next_tool env now \<lparr>tc_name = nm, tc_args = args\<rparr> g
      | ToolSequenceComplete \<Rightarrow> on_session (on_script advance_past_tool_sequence) g
      | ForceCheckpoint \<Rightarrow> on_session (on_script (record_step_output JNull)) g
      | ScriptComplete v \<Rightarrow> deliver_text_reply env now (final_text env v) g
      | ScriptFail reason \<Rightarrow> fail_active_turn now reason g)"

definition due_script :: "SessionState \<Rightarrow> ScriptedLoopExecutor option" where
  "due_script s = (case Option.bind (ss_turn s) wt_script of Some x \<Rightarrow> if sx_due x then Some x else None | None \<Rightarrow> None)"

definition script_asked :: "gate \<Rightarrow> gate" where
  "script_asked g = on_session (on_turn (\<lambda>t. t\<lparr>wt_script := map_option (\<lambda>x. x\<lparr>sx_due := False\<rparr>) (wt_script t)\<rparr>)) g"

definition scripted_dispatch_after_advance :: "gate_env \<Rightarrow> nat \<Rightarrow> gate \<Rightarrow> gate" where
  "scripted_dispatch_after_advance env now g =
     (case due_script (ga_session g) of None \<Rightarrow> g | Some x \<Rightarrow> carry_out env now x (script_asked g))"

subsection \<open>The main loop\<close>

text \<open>What the loop handles: a message, an answer of the model, a tool result, a queued task taken for dispatch, and the
  next decision of a loop script.\<close>

datatype loop_event =
    MessageArrives "128 word" InboundTask
  | ModelAnswers string "ActivePlan option" AgentAction
  | ToolAnswers ToolResult bool
  | DrainNext
  | ScriptStep

definition loop_step :: "gate_env \<Rightarrow> nat \<Rightarrow> loop_event \<Rightarrow> gate \<Rightarrow> gate" where
  "loop_step env now e g =
     (case e of
        MessageArrives tid task \<Rightarrow> handle_user_message env now tid task g
      | ModelAnswers tid plan action \<Rightarrow> handle_model_response env now tid plan action g
      | ToolAnswers r failed \<Rightarrow> handle_tool_result env now r failed g
      | ScriptStep \<Rightarrow> scripted_dispatch_after_advance env now g
      | DrainNext \<Rightarrow>
          (case ga_drained g of
             [] \<Rightarrow> g
           | (tid, task) # rest \<Rightarrow> handle_user_message env now tid task (g\<lparr>ga_drained := rest\<rparr>)))"

subsection \<open>Which calls leave the agent\<close>

definition dispatched_calls :: "gate \<Rightarrow> ToolCall list" where
  "dispatched_calls g = List.map_filter (\<lambda>e. case e of Dispatched c \<Rightarrow> Some c | _ \<Rightarrow> None) (ga_log g)"

definition asked_operator :: "ToolCall \<Rightarrow> gate \<Rightarrow> bool" where
  "asked_operator c g \<longleftrightarrow> (\<exists>a. AskOperator a (Some c) \<in> set (ga_log g))"

text \<open>The calls that wait in the turns the model drives; those of a scripted turn never met a gate.\<close>

definition pending_calls :: "SessionState \<Rightarrow> ToolCall set" where
  "pending_calls s =
     {c. \<exists>t. (ss_turn s = Some t \<or> ss_parked_approval s = Some t \<or> ss_parked_plan s = Some t) \<and> wt_script t = None
            \<and> wt_pending_tool t = Some c}"

definition clean :: "SessionState \<Rightarrow> bool" where
  "clean s \<longleftrightarrow> (\<forall>t. ss_turn s = Some t \<or> ss_parked_plan s = Some t \<longrightarrow> wt_pending_approval t = None)"

text \<open>A change of the session that adds no pending call and no pending approval.\<close>

definition settles :: "SessionState \<Rightarrow> SessionState \<Rightarrow> bool" where
  "settles s s' \<longleftrightarrow> pending_calls s' \<subseteq> pending_calls s \<and> ss_parked_approval s' \<in> {None, ss_parked_approval s} \<and> (clean s \<longrightarrow> clean s')"

text \<open>A step that sends no call and settles the session.\<close>

definition quiet :: "gate \<Rightarrow> gate \<Rightarrow> bool" where
  "quiet g g' \<longleftrightarrow> dispatched_calls g' = dispatched_calls g \<and> set (ga_log g) \<subseteq> set (ga_log g')
     \<and> settles (ga_session g) (ga_session g')"

lemma settles_refl [simp]: "settles s s"
  by (simp add: settles_def)

lemma settles_trans: "settles s s' \<Longrightarrow> settles s' s'' \<Longrightarrow> settles s s''"
  unfolding settles_def by auto

lemma quiet_refl [simp]: "quiet g g"
  by (simp add: quiet_def)

lemma quiet_trans: "quiet g g' \<Longrightarrow> quiet g' g'' \<Longrightarrow> quiet g g''"
  unfolding quiet_def using settles_trans by (metis (no_types, lifting) subset_trans)

lemma quiet_emit: "quiet g g' \<Longrightarrow> (\<And>c. e \<noteq> Dispatched c) \<Longrightarrow> quiet g (emit e g')"
  by (cases e) (auto simp: quiet_def emit_def dispatched_calls_def List.map_filter_def)

lemma quiet_session: "quiet g g' \<Longrightarrow> settles (ga_session g') (f (ga_session g')) \<Longrightarrow> quiet g (on_session f g')"
  using settles_trans by (auto simp: quiet_def on_session_def dispatched_calls_def)

lemma quiet_update: "quiet g g' \<Longrightarrow> settles (ga_session g') s \<Longrightarrow> quiet g (g'\<lparr>ga_session := s\<rparr>)"
  using settles_trans by (auto simp: quiet_def dispatched_calls_def)

lemma quiet_drained [simp]: "quiet g (g'\<lparr>ga_drained := ds\<rparr>) \<longleftrightarrow> quiet g g'" "quiet (g\<lparr>ga_drained := ds\<rparr>) g' \<longleftrightarrow> quiet g g'"
  by (simp_all add: quiet_def dispatched_calls_def)

lemma settles_on_turn:
  assumes "\<And>t. wt_pending_tool (f t) = wt_pending_tool t \<or> wt_pending_tool (f t) = None"
    "\<And>t. wt_pending_approval (f t) = wt_pending_approval t \<or> wt_pending_approval (f t) = None"
    "\<And>t. wt_script (f t) = None \<longleftrightarrow> wt_script t = None"
  shows "settles s (on_turn f s)"
proof -
  have "pending_calls (on_turn f s) \<subseteq> pending_calls s"
  proof
    fix c
    assume "c \<in> pending_calls (on_turn f s)"
    then obtain t where t: "ss_turn (on_turn f s) = Some t \<or> ss_parked_approval s = Some t \<or> ss_parked_plan s = Some t"
      "wt_pending_tool t = Some c" "wt_script t = None" by (auto simp: pending_calls_def on_turn_def)
    show "c \<in> pending_calls s"
    proof (cases "ss_turn (on_turn f s) = Some t")
      case True
      then obtain u where "ss_turn s = Some u" "t = f u" by (auto simp: on_turn_def)
      then show ?thesis using t(2,3) assms(1) [of u] assms(3) [of u] by (auto simp: pending_calls_def)
    next
      case False
      then show ?thesis using t by (auto simp: pending_calls_def)
    qed
  qed
  moreover have "clean (on_turn f s)" if "clean s"
    using that assms(2) by (cases "ss_turn s") (auto simp: clean_def on_turn_def, metis)
  ultimately show ?thesis by (simp add: settles_def on_turn_def)
qed

lemma settles_cong:
  "ss_turn s' = ss_turn s \<Longrightarrow> ss_parked_approval s' = ss_parked_approval s \<Longrightarrow> ss_parked_plan s' = ss_parked_plan s \<Longrightarrow>
     settles s s'"
  by (simp add: settles_def pending_calls_def clean_def)

lemma settles_waiting [simp]: "settles s (s'\<lparr>ss_waiting_since := w\<rparr>) = settles s s'"
  by (simp add: settles_def pending_calls_def clean_def)

lemma settles_phase: "settles s (set_active_turn_phase ph now s)"
  using settles_on_turn [of "\<lambda>t. t\<lparr>wt_phase := ph\<rparr>" s] by (simp add: set_active_turn_phase_def)

lemma settles_ops:
  "settles s (clear_pending_approval s)"
  "settles s (clear_pending_tool_call s)"
  "settles s (push_tool_history c r s)"
  "settles s (bump_active_turn_iteration s)"
  "settles s (set_provider_repair_note n s)"
  "settles s (set_active_plan p s)"
  "settles s (reset_step_failures s)"
  unfolding clear_pending_approval_def clear_pending_tool_call_def push_tool_history_def
    bump_active_turn_iteration_def set_provider_repair_note_def set_active_plan_def reset_step_failures_def
  by (rule settles_on_turn; simp)+

lemma settles_script: "settles s (on_script f s)"
  unfolding on_script_def by (rule settles_on_turn) simp_all

lemma quiet_on_script: "quiet g g' \<Longrightarrow> quiet g (on_session (on_script f) g')"
  by (rule quiet_session) (simp_all add: settles_script)

lemma settles_policy [simp]:
  "settles s (preapprove_tool nm s)"
  "settles s (preapprove_by_name nm s)"
  "settles s (set_preapprove_this_session s)"
  "settles s (reset_approval_policy s)"
  "settles s (register_standing_preapproval nm k s)"
  "settles s (record_tool_streak_success nm s)"
  "settles s (record_tool_streak_failure nm s)"
  "settles s (seed_cron_tools task s)"
  "settles s (s\<lparr>ss_carryover := c\<rparr>)"
  "settles s (s\<lparr>ss_queue := q\<rparr>)"
  "settles s (s\<lparr>ss_status := st\<rparr>)"
  "settles s (s\<lparr>ss_cap := n\<rparr>)"
  "settles s (s\<lparr>ss_override := ov, ss_pinned := pin\<rparr>)"
  by (rule settles_cong; simp add: preapprove_tool_def preapprove_by_name_def set_preapprove_this_session_def
      reset_approval_policy_def register_standing_preapproval_def record_tool_streak_success_def
      record_tool_streak_failure_def seed_cron_tools_def Let_def split: option.split)+

lemma settles_plan_park:
  "settles s (park_active_turn_for_plan now s)"
  "settles s (snd (restore_parked_plan_turn note s))"
  by (auto simp: park_active_turn_for_plan_def restore_parked_plan_turn_def pending_calls_def clean_def settles_def
      split: option.splits)

lemma settles_completed: "complete_active_turn parse reply now s = (r, s') \<Longrightarrow> settles s s'"
  by (auto simp: complete_active_turn_def Let_def pending_calls_def clean_def settles_def split: option.splits)

lemma settles_followup: "plan_followup_after_turn lib dis t b s = (f, s') \<Longrightarrow> settles s s'"
  by (auto simp: plan_followup_after_turn_def Let_def
      split: if_splits option.splits prod.splits PlanEvalVerdict.splits)

lemma settles_dispatch_followup: "dispatch_plan_followup w f s = (b, s') \<Longrightarrow> settles s s'"
  by (auto simp: dispatch_plan_followup_def split: if_splits option.splits PlanFollowup.splits)

lemma quiet_drain: "quiet g g' \<Longrightarrow> quiet g (drain_next_user_task g')"
  by (auto simp: drain_next_user_task_def dequeue_user_task_def intro!: quiet_update split: list.split prod.split)

lemma quiet_deliver: "quiet g (deliver_text_reply env now content g)"
proof -
  obtain r s where cs: "complete_active_turn (ge_parse env) content now (ga_session g) = (r, s)" by fastforce
  have ps: "settles (ga_session g) s" by (rule settles_completed [OF cs])
  show ?thesis
  proof (cases r)
    case None
    with cs ps show ?thesis by (simp add: deliver_text_reply_def quiet_update)
  next
    case (Some t)
    obtain f s1 where fs: "plan_followup_after_turn (ge_text env) (ge_disabled env) t (ge_budget env)
        (set_active_turn_phase Completed now s) = (f, s1)" by fastforce
    have p1: "settles (ga_session g) s1"
      using settles_trans [OF ps settles_trans [OF settles_phase settles_followup [OF fs]]] .
    define g1 where "g1 = drain_next_user_task (emit (Replied content) (g\<lparr>ga_session := s1\<rparr>))"
    have q1: "quiet g g1"
      unfolding g1_def by (rule quiet_drain, rule quiet_emit, rule quiet_update) (use p1 in simp_all)
    show ?thesis
    proof (cases f)
      case None
      then show ?thesis using cs Some fs q1 by (simp add: deliver_text_reply_def g1_def)
    next
      case (Some f')
      obtain b s2 where ds: "dispatch_plan_followup (ga_drained g1 \<noteq> []) f' (ga_session g1) = (b, s2)" by fastforce
      have "quiet g (g1\<lparr>ga_session := s2\<rparr>)"
        by (rule quiet_update [OF q1]) (simp add: settles_dispatch_followup [OF ds])
      then show ?thesis
        using cs \<open>r = Some t\<close> fs Some ds
        by (simp add: deliver_text_reply_def g1_def [symmetric])
    qed
  qed
qed

lemma quiet_fail: "quiet g (fail_active_turn now msg g)"
proof -
  have "settles s ((set_active_turn_phase Failed now s)\<lparr>ss_turn := None, ss_waiting_since := None\<rparr>)" for s
    by (auto simp: settles_def pending_calls_def clean_def set_active_turn_phase_def on_turn_def)
  then show ?thesis
    unfolding fail_active_turn_def by (cases "ss_turn (ga_session g)") (simp_all add: quiet_drain quiet_emit quiet_session)
qed

lemma settles_increment: "increment_step_failures s = (n, s') \<Longrightarrow> settles s s'"
  using settles_on_turn [of "\<lambda>t. t\<lparr>wt_failures := wt_failures t + 1\<rparr>" s]
  by (cases "ss_turn s") (auto simp: increment_step_failures_def on_turn_def)

lemma settles_recorded: "result_recorded r failed s = (n, s') \<Longrightarrow> settles s s'"
proof -
  assume r: "result_recorded r failed s = (n, s')"
  define c where "c = (case Option.bind (ss_turn s) wt_pending_tool of Some c \<Rightarrow> c | None \<Rightarrow> \<lparr>tc_name = tr_name r, tc_args = JObj []\<rparr>)"
  define s2 where "s2 = (if failed then record_tool_streak_failure (tc_name c) (clear_pending_tool_call (push_tool_history c r s))
      else record_tool_streak_success (tc_name c) (clear_pending_tool_call (push_tool_history c r s)))"
  have p2: "settles s s2"
    using settles_trans [OF settles_trans [OF settles_ops(3) settles_ops(2)] settles_policy(6)]
      settles_trans [OF settles_trans [OF settles_ops(3) settles_ops(2)] settles_policy(7)] by (simp add: s2_def)
  obtain m s3 where s3: "(if failed then increment_step_failures s2 else (0, reset_step_failures s2)) = (m, s3)" by fastforce
  have p3: "settles s2 s3"
    using s3 settles_increment [of s2 m s3] settles_ops(7) [of s2] by (auto split: if_splits)
  have "settles s3 s'"
    using r unfolding result_recorded_def Let_def c_def [symmetric] s2_def [symmetric] s3
    by (auto intro!: settles_on_turn)
  with p2 p3 show ?thesis using settles_trans by blast
qed

lemma quiet_tool_result: "quiet g (handle_tool_result env now r failed g)"
proof -
  obtain n s1 where rs: "result_recorded r failed (ga_session g) = (n, s1)" by fastforce
  define g1 where "g1 = g\<lparr>ga_session := s1\<rparr>"
  have q: "quiet g g1" unfolding g1_def by (rule quiet_update) (simp_all add: settles_recorded [OF rs])
  have qe: "quiet g (emit (ModelAsked b) g1)" for b by (rule quiet_emit [OF q]) simp
  have qd: "quiet g (deliver_text_reply env now msg g1)" for msg by (rule quiet_trans [OF q quiet_deliver])
  have qf: "quiet g (fail_active_turn now msg g1)" for msg by (rule quiet_trans [OF q quiet_fail])
  have scr: "quiet g (on_session (\<lambda>s. on_script f (clear_pending_tool_call (push_tool_history c r s))) g)" for c f
    by (rule quiet_session) (simp_all add: settles_trans [OF settles_trans [OF settles_ops(3) settles_ops(2)] settles_script])
  show ?thesis
    unfolding handle_tool_result_def rs
    by (simp add: Let_def g1_def [symmetric] q qe qd qf scr split: option.split)
qed

text \<open>A step that sends exactly the call \<open>c\<close>.\<close>

definition sends :: "gate \<Rightarrow> ToolCall \<Rightarrow> gate \<Rightarrow> bool" where
  "sends g c g' \<longleftrightarrow> dispatched_calls g' = dispatched_calls g @ [c] \<and> set (ga_log g) \<subseteq> set (ga_log g')
     \<and> pending_calls (ga_session g') \<subseteq> insert c (pending_calls (ga_session g))
     \<and> ss_parked_approval (ga_session g') \<in> {None, ss_parked_approval (ga_session g)}
     \<and> (clean (ga_session g) \<longrightarrow> clean (ga_session g'))"

lemma quiet_sends: "quiet g g' \<Longrightarrow> sends g' c g'' \<Longrightarrow> sends g c g''"
  unfolding quiet_def sends_def settles_def by auto

lemma sends_quiet: "sends g c g' \<Longrightarrow> quiet g' g'' \<Longrightarrow> sends g c g''"
  unfolding quiet_def sends_def settles_def by auto

lemma sends_dispatch:
  "sends g c (emit (Dispatched c) (on_session (\<lambda>s. set_active_turn_phase WaitingTool now (set_pending_tool_call c s)) g))"
proof -
  let ?s = "set_pending_tool_call c (ga_session g)"
  have "pending_calls ?s \<subseteq> insert c (pending_calls (ga_session g))" "clean (ga_session g) \<longrightarrow> clean ?s"
    "ss_parked_approval ?s = ss_parked_approval (ga_session g)"
    by (auto simp: set_pending_tool_call_def on_turn_def pending_calls_def clean_def)
  then show ?thesis
    using settles_phase [of ?s WaitingTool now]
    by (auto simp: sends_def settles_def emit_def on_session_def dispatched_calls_def List.map_filter_def)
qed

lemma request_standing_quiet: "quiet g (request_standing env now c g)"
proof -
  have "quiet g (handle_tool_result env now r False (on_session (register_standing_preapproval nm k) g))" for r nm k
    by (rule quiet_trans [OF quiet_session quiet_tool_result]) simp_all
  then show ?thesis by (simp add: request_standing_def Let_def quiet_fail)
qed

lemma execute_call_cases: "quiet g (execute_call env now c g) \<or> sends g c (execute_call env now c g)"
proof -
  define g1 where "g1 = emit (Dispatched c) (on_session (\<lambda>s. set_active_turn_phase WaitingTool now (set_pending_tool_call c s)) g)"
  have s: "sends g c g1" "sends g c (request_standing env now c g1)"
    using sends_dispatch sends_quiet [OF sends_dispatch request_standing_quiet] by (auto simp: g1_def)
  have d: "quiet g (handle_tool_result env now r False (on_session (set_provider_repair_note n) g))" for r n
    by (rule quiet_trans [OF quiet_session quiet_tool_result]) (simp_all add: settles_ops)
  show ?thesis
    by (cases "case ss_turn (ga_session g) of Some t \<Rightarrow> already_succeeded (ge_text env) c t | None \<Rightarrow> False";
        cases "execute_bound_tool c (ga_session g)")
      (simp_all add: execute_call_def d quiet_fail s g1_def [symmetric] Let_def)
qed

text \<open>A step that sends \<open>c\<close> past the gates and leaves no call waiting in a turn the model drives.\<close>

definition slips :: "gate \<Rightarrow> ToolCall \<Rightarrow> gate \<Rightarrow> bool" where
  "slips g c g' \<longleftrightarrow> dispatched_calls g' = dispatched_calls g @ [c] \<and> set (ga_log g) \<subseteq> set (ga_log g')
     \<and> settles (ga_session g) (ga_session g')"

lemma quiet_slips: "quiet g g' \<Longrightarrow> slips g' c g'' \<Longrightarrow> slips g c g''"
  unfolding quiet_def slips_def using settles_trans by auto

lemma slips_quiet: "slips g c g' \<Longrightarrow> quiet g' g'' \<Longrightarrow> slips g c g''"
  unfolding quiet_def slips_def using settles_trans by auto

definition in_script :: "gate \<Rightarrow> bool" where
  "in_script g \<longleftrightarrow> (\<exists>t x. ss_turn (ga_session g) = Some t \<and> wt_script t = Some x)"

lemma settles_script_pending: "ss_turn s = Some t \<Longrightarrow> wt_script t = Some x \<Longrightarrow> settles s (set_pending_tool_call c s)"
  by (auto simp: settles_def set_pending_tool_call_def on_turn_def pending_calls_def clean_def)

text \<open>In a scripted turn a call that runs slips past the gates.\<close>

lemma scripted_execute:
  assumes "in_script g"
  shows "quiet g (execute_call env now c g) \<or> slips g c (execute_call env now c g)"
proof -
  define g1 where "g1 = emit (Dispatched c) (on_session (\<lambda>s. set_active_turn_phase WaitingTool now (set_pending_tool_call c s)) g)"
  have "settles (ga_session g) (set_active_turn_phase WaitingTool now (set_pending_tool_call c (ga_session g)))"
    using assms settles_trans [OF settles_script_pending settles_phase] by (auto simp: in_script_def)
  then have s: "slips g c g1"
    by (auto simp: slips_def g1_def emit_def on_session_def dispatched_calls_def List.map_filter_def)
  have d: "quiet g (handle_tool_result env now r False (on_session (set_provider_repair_note n) g))" for r n
    by (rule quiet_trans [OF quiet_session quiet_tool_result]) (simp_all add: settles_ops)
  show ?thesis
    by (cases "case ss_turn (ga_session g) of Some t \<Rightarrow> already_succeeded (ge_text env) c t | None \<Rightarrow> False";
        cases "execute_bound_tool c (ga_session g)")
      (simp_all add: execute_call_def d quiet_fail s slips_quiet [OF s request_standing_quiet] g1_def [symmetric] Let_def)
qed

subsection \<open>The invariant of the gate\<close>

definition gate_inv :: "gate \<Rightarrow> bool" where
  "gate_inv g \<longleftrightarrow> clean (ga_session g)
     \<and> (\<forall>t. ss_parked_approval (ga_session g) = Some t \<longrightarrow> wt_phase t = WaitingApproval
          \<and> (\<exists>a. wt_pending_approval t = Some a \<and> AskOperator a (wt_pending_tool t) \<in> set (ga_log g)))
     \<and> (\<forall>c\<in>pending_calls (ga_session g). unconditional_approval_gate c \<noteq> None \<longrightarrow> asked_operator c g)"

lemma asked_mono: "asked_operator c g \<Longrightarrow> set (ga_log g) \<subseteq> set (ga_log g') \<Longrightarrow> asked_operator c g'"
  by (auto simp: asked_operator_def)

lemma inv_transfer:
  assumes inv: "gate_inv g" and log: "set (ga_log g) \<subseteq> set (ga_log g')"
    and parked: "ss_parked_approval (ga_session g') \<in> {None, ss_parked_approval (ga_session g)}"
    and cl: "clean (ga_session g) \<longrightarrow> clean (ga_session g')"
    and pend: "\<And>c. c \<in> pending_calls (ga_session g') \<Longrightarrow> unconditional_approval_gate c \<noteq> None \<Longrightarrow>
      c \<in> pending_calls (ga_session g) \<or> asked_operator c g"
  shows "gate_inv g'"
  unfolding gate_inv_def
proof (intro conjI allI impI ballI)
  show "clean (ga_session g')" using inv cl by (simp add: gate_inv_def)
next
  fix t assume "ss_parked_approval (ga_session g') = Some t"
  then have t: "ss_parked_approval (ga_session g) = Some t" using parked by auto
  show "wt_phase t = WaitingApproval" using t inv by (simp add: gate_inv_def)
  show "\<exists>a. wt_pending_approval t = Some a \<and> AskOperator a (wt_pending_tool t) \<in> set (ga_log g')"
    using t inv log unfolding gate_inv_def by blast
next
  fix c assume "c \<in> pending_calls (ga_session g')" "unconditional_approval_gate c \<noteq> None"
  then have "asked_operator c g" using pend inv unfolding gate_inv_def by blast
  then show "asked_operator c g'" by (rule asked_mono [OF _ log])
qed

lemma quiet_inv: "quiet g g' \<Longrightarrow> gate_inv g \<Longrightarrow> gate_inv g'"
  by (rule inv_transfer [of g g']) (auto simp: quiet_def settles_def)

lemma sends_inv:
  "sends g c g' \<Longrightarrow> gate_inv g \<Longrightarrow> unconditional_approval_gate c = None \<or> asked_operator c g \<Longrightarrow> gate_inv g'"
  by (rule inv_transfer [of g g']) (auto simp: sends_def)

lemma slips_inv: "slips g c g' \<Longrightarrow> gate_inv g \<Longrightarrow> gate_inv g'"
  by (rule inv_transfer [of g g']) (auto simp: slips_def settles_def)

text \<open>Parking the active turn with a question to the operator.\<close>

definition parks :: "nat \<Rightarrow> ApprovalRequest \<Rightarrow> ToolCall option \<Rightarrow> gate \<Rightarrow> gate" where
  "parks now a tool g = emit (AskOperator a tool)
     (on_session (\<lambda>s. park_active_turn_for_approval now (set_active_turn_phase WaitingApproval now (set_pending_approval a s))) g)"

lemma parks_dispatched: "dispatched_calls (parks now a tool g) = dispatched_calls g"
  by (simp add: parks_def emit_def on_session_def dispatched_calls_def List.map_filter_def)

lemma parks_inv:
  assumes "clean (ga_session g)" "ss_turn (ga_session g) = Some t" "wt_pending_tool t = tool"
    and "\<And>c. c \<in> pending_calls (ga_session g) \<Longrightarrow> unconditional_approval_gate c \<noteq> None \<Longrightarrow> asked_operator c g \<or> tool = Some c"
  shows "gate_inv (parks now a tool g)"
proof -
  let ?s' = "ga_session (parks now a tool g)"
  have "clean ?s'"
    using assms(1) by (auto simp: parks_def emit_def on_session_def park_active_turn_for_approval_def clean_def
        set_active_turn_phase_def on_turn_def set_pending_approval_def)
  moreover have "pending_calls ?s' \<subseteq> pending_calls (ga_session g)"
    using assms(2) by (auto simp: parks_def emit_def on_session_def park_active_turn_for_approval_def pending_calls_def
        set_active_turn_phase_def on_turn_def set_pending_approval_def)
  moreover have "ss_parked_approval ?s' = Some (t\<lparr>wt_pending_approval := Some a, wt_phase := WaitingApproval\<rparr>)"
    using assms(2) by (simp add: parks_def emit_def on_session_def park_active_turn_for_approval_def
        set_active_turn_phase_def on_turn_def set_pending_approval_def)
  moreover have "set (ga_log (parks now a tool g)) = insert (AskOperator a tool) (set (ga_log g))"
    by (auto simp: parks_def emit_def on_session_def)
  ultimately show ?thesis
    using assms(3,4) unfolding gate_inv_def asked_operator_def by (auto, metis subsetD)
qed

subsection \<open>Requests and calls keep the invariant\<close>

lemma request_cases:
  assumes "ss_turn (ga_session g) = Some t"
  shows "handle_approval_request env now a human g = parks now (normalize_approval_request env a) (wt_pending_tool t) g
    \<or> (\<not> human \<and> approval_policy_allows (ge_class env) (wt_pending_tool t) (ga_session g)
       \<and> (quiet g (handle_approval_request env now a human g)
          \<or> (\<exists>c. wt_pending_tool t = Some c \<and> sends g c (handle_approval_request env now a human g))))"
proof (cases "\<not> human \<and> approval_policy_allows (ge_class env) (wt_pending_tool t) (ga_session g)")
  case True
  define g1 where "g1 = emit (Replied (ar_response (normalize_approval_request env a)))
    (on_session (\<lambda>s. set_active_turn_phase Thinking now (clear_pending_approval s)) g)"
  have q: "quiet g g1"
    unfolding g1_def by (intro quiet_emit quiet_session) (simp_all add: settles_trans [OF settles_ops(1) settles_phase])
  show ?thesis
  proof (cases "wt_pending_tool t")
    case None
    then show ?thesis
      using True assms quiet_trans [OF q quiet_deliver]
      by (simp add: handle_approval_request_def Let_def g1_def [symmetric])
  next
    case (Some c)
    then show ?thesis
      using True assms execute_call_cases [of g1 env now c] quiet_trans [OF q, of "execute_call env now c g1"]
        quiet_sends [OF q, of c "execute_call env now c g1"]
      by (auto simp: handle_approval_request_def Let_def g1_def [symmetric])
  qed
next
  case False
  then have "handle_approval_request env now a human g = parks now (normalize_approval_request env a) (wt_pending_tool t) g"
    using assms unfolding handle_approval_request_def Let_def parks_def by (simp only: option.case if_False)
  then show ?thesis by simp
qed

lemma request_no_turn: "ss_turn (ga_session g) = None \<Longrightarrow> handle_approval_request env now a human g = g"
  by (simp add: handle_approval_request_def Let_def)

lemma allows_set_pending:
  "approval_policy_allows cls tool (set_pending_tool_call c s) = approval_policy_allows cls tool s"
  by (cases "ss_turn s") (simp_all add: approval_policy_allows_def set_pending_tool_call_def on_turn_def split: option.split)

text \<open>A call of the model either runs, past both gates, or parks the turn with exactly this call.\<close>

lemma gated_parks:
  assumes gated: "unconditional_approval_gate c \<noteq> None \<or> force_approval env c (ga_session g)"
    and turn: "ss_turn (ga_session g) = Some t"
  shows "\<exists>a. route_tool_call env now c g = parks now a (Some c) (on_session (set_pending_tool_call c) g)"
proof -
  define g1 where "g1 = on_session (set_pending_tool_call c) g"
  define a where "a = \<lparr>ar_id = Some (ge_fresh env), ar_reason = tc_name c @ '' requires approval'', ar_response = ''Executing '' @ tc_name c\<rparr>"
  have r: "route_tool_call env now c g = handle_approval_request env now a (unconditional_approval_gate c \<noteq> None) g1"
    using gated by (simp add: route_tool_call_def g1_def a_def)
  have t1: "ss_turn (ga_session g1) = Some (t\<lparr>wt_pending_tool := Some c\<rparr>)"
    using turn by (simp add: g1_def on_session_def set_pending_tool_call_def on_turn_def)
  have "unconditional_approval_gate c \<noteq> None \<or> \<not> approval_policy_allows (ge_class env) (Some c) (ga_session g1)"
    using gated by (auto simp: force_approval_def g1_def on_session_def allows_set_pending)
  then show ?thesis
    using request_cases [OF t1, of env now a "unconditional_approval_gate c \<noteq> None"] r by (auto simp: g1_def)
qed

lemma route_cases:
  assumes "gate_inv g"
  shows "gate_inv (route_tool_call env now c g)
    \<and> (dispatched_calls (route_tool_call env now c g) = dispatched_calls g
       \<or> (dispatched_calls (route_tool_call env now c g) = dispatched_calls g @ [c]
          \<and> unconditional_approval_gate c = None \<and> \<not> force_approval env c (ga_session g)))"
proof (cases "unconditional_approval_gate c \<noteq> None \<or> force_approval env c (ga_session g)")
  case gated: True
  define g1 where "g1 = on_session (set_pending_tool_call c) g"
  show ?thesis
  proof (cases "ss_turn (ga_session g)")
    case None
    then have "g1 = g" by (simp add: g1_def on_session_def set_pending_tool_call_def on_turn_def)
    then have "route_tool_call env now c g = g" using gated None by (simp add: route_tool_call_def request_no_turn g1_def)
    then show ?thesis using assms by simp
  next
    case (Some t)
    have t1: "ss_turn (ga_session g1) = Some (t\<lparr>wt_pending_tool := Some c\<rparr>)"
      using Some by (simp add: g1_def on_session_def set_pending_tool_call_def on_turn_def)
    obtain a where p: "route_tool_call env now c g = parks now a (Some c) g1"
      using gated_parks [OF gated Some] unfolding g1_def by blast
    have g1: "clean (ga_session g1)" "dispatched_calls g1 = dispatched_calls g"
      "pending_calls (ga_session g1) \<subseteq> insert c (pending_calls (ga_session g))" "ga_log g1 = ga_log g"
      using assms by (auto simp: gate_inv_def g1_def on_session_def set_pending_tool_call_def on_turn_def clean_def
          pending_calls_def dispatched_calls_def)
    have "gate_inv (parks now a (Some c) g1)"
    proof (rule parks_inv [OF g1(1) t1])
      fix d assume "d \<in> pending_calls (ga_session g1)" "unconditional_approval_gate d \<noteq> None"
      then show "asked_operator d g1 \<or> Some c = Some d"
        using g1(3,4) assms by (auto simp: gate_inv_def asked_operator_def)
    qed simp
    then show ?thesis using p g1(2) by (simp add: parks_dispatched)
  qed
next
  case False
  then have r: "route_tool_call env now c g = execute_call env now c g" by (simp add: route_tool_call_def)
  from execute_call_cases [of g env now c] show ?thesis
  proof
    assume "quiet g (execute_call env now c g)"
    then show ?thesis using assms r by (simp add: quiet_inv) (simp add: quiet_def)
  next
    assume "sends g c (execute_call env now c g)"
    then show ?thesis using assms r False by (simp add: sends_inv) (simp add: sends_def)
  qed
qed

lemma quiet_steering: "quiet g (resume_turn_with_steering note label g)"
  by (cases "ss_turn (ga_session g)") (auto simp: resume_turn_with_steering_def intro!: quiet_emit quiet_session settles_on_turn)

lemma decided_settles:
  "settles (ga_session g) (set_active_turn_phase ph now (clear_pending_approval (ga_session (restore_for_command g))))"
proof (cases "ss_parked_approval (ga_session g) \<noteq> None \<and> \<not> is_turn_active (ga_session g)")
  case True
  then obtain t where t: "ss_parked_approval (ga_session g) = Some t" "ss_turn (ga_session g) = None"
    by (auto simp: is_turn_active_def)
  then show ?thesis
    by (auto simp: restore_for_command_def on_session_def is_turn_active_def restore_parked_approval_turn_def settles_def
        set_active_turn_phase_def clear_pending_approval_def on_turn_def pending_calls_def clean_def)
next
  case False
  then have "restore_for_command g = g" by (auto simp: restore_for_command_def on_session_def)
  then show ?thesis by (simp add: settles_trans [OF settles_ops(1) settles_phase])
qed

lemma quiet_decided:
  "quiet g (on_session (\<lambda>s. set_active_turn_phase ph now (clear_pending_approval s)) (restore_for_command g))"
  using decided_settles [of g ph now]
  by (auto simp: quiet_def on_session_def restore_for_command_def dispatched_calls_def)

lemma decision_cases:
  assumes "gate_inv g"
  shows "restore_for_command g = g \<and> pending_decision (ga_session g) = None
    \<or> (\<exists>t a. ss_parked_approval (ga_session g) = Some t \<and> wt_pending_approval t = Some a
        \<and> AskOperator a (wt_pending_tool t) \<in> set (ga_log g)
        \<and> pending_decision (ga_session (restore_for_command g)) = Some (wt_pending_tool t, a))"
proof (cases "ss_parked_approval (ga_session g) \<noteq> None \<and> \<not> is_turn_active (ga_session g)")
  case True
  then obtain t where t: "ss_parked_approval (ga_session g) = Some t" by auto
  with assms obtain a where "wt_phase t = WaitingApproval" "wt_pending_approval t = Some a"
    "AskOperator a (wt_pending_tool t) \<in> set (ga_log g)" unfolding gate_inv_def by blast
  then show ?thesis
    using True t by (auto simp: restore_for_command_def on_session_def restore_parked_approval_turn_def pending_decision_def)
next
  case False
  then have "restore_for_command g = g" by (auto simp: restore_for_command_def on_session_def)
  moreover have "pending_decision (ga_session g) = None"
    using assms by (auto simp: pending_decision_def gate_inv_def clean_def split: option.split)
  ultimately show ?thesis by simp
qed

text \<open>What the operator's decision sends: the call of the parked turn, shown to the operator, and only on \<open>/approve\<close>
  without a note.\<close>

lemma approval_command_cases:
  assumes "gate_inv g" "cmd = Approve note \<or> cmd = Deny note"
  shows "quiet g (handle_approval_command env now cmd g)
    \<or> (\<exists>t a c. cmd = Approve None \<and> ss_parked_approval (ga_session g) = Some t \<and> wt_pending_approval t = Some a
        \<and> wt_pending_tool t = Some c \<and> AskOperator a (Some c) \<in> set (ga_log g)
        \<and> sends g c (handle_approval_command env now cmd g))"
  using decision_cases [OF assms(1)]
proof (elim disjE exE conjE)
  assume "restore_for_command g = g" "pending_decision (ga_session g) = None"
  then show ?thesis by (simp add: handle_approval_command_def quiet_emit)
next
  fix t a
  assume t: "ss_parked_approval (ga_session g) = Some t" "wt_pending_approval t = Some a"
    "AskOperator a (wt_pending_tool t) \<in> set (ga_log g)"
    and d: "pending_decision (ga_session (restore_for_command g)) = Some (wt_pending_tool t, a)"
  define g1 where "g1 ph = on_session (\<lambda>s. set_active_turn_phase ph now (clear_pending_approval s)) (restore_for_command g)" for ph
  have q: "quiet g (g1 ph)" for ph unfolding g1_def by (rule quiet_decided)
  have qe: "quiet g (emit (Replied x) (g1 ph))" for x ph by (rule quiet_emit [OF q]) simp
  have qs: "quiet g (resume_turn_with_steering n l (g1 ph))" for n l ph by (rule quiet_trans [OF q quiet_steering])
  have qf: "quiet g (fail_active_turn now m (emit (Replied x) (g1 ph)))" for m x ph by (rule quiet_trans [OF qe quiet_fail])
  have qg: "quiet g (on_session (on_script f) (emit (Replied x) (g1 ph)))" for f x ph by (rule quiet_on_script [OF qe])
  show ?thesis
  proof (cases "cmd = Approve None \<and> \<not> scripted_gate a \<and> wt_pending_tool t \<noteq> None")
    case True
    then obtain c where c: "wt_pending_tool t = Some c" by auto
    have "handle_approval_command env now cmd g = execute_call env now c (emit (Replied (ar_response a)) (g1 Thinking))"
      using True c d by (simp add: handle_approval_command_def Let_def g1_def)
    moreover have "quiet g (execute_call env now c (emit (Replied (ar_response a)) (g1 Thinking)))
      \<or> sends g c (execute_call env now c (emit (Replied (ar_response a)) (g1 Thinking)))"
      using execute_call_cases [of "emit (Replied (ar_response a)) (g1 Thinking)" env now c] quiet_trans [OF qe] quiet_sends [OF qe]
      by blast
    ultimately show ?thesis using True t c by auto
  next
    case False
    then show ?thesis
      using assms(2) d
      by (cases "note"; cases "wt_pending_tool t"; cases "scripted_gate a"; elim disjE;
          simp add: handle_approval_command_def Let_def g1_def [symmetric] q qe qs qf qg)
  qed
qed

lemma quiet_local: "quiet g (complete_local_command env now reply g)"
proof -
  obtain r s where cs: "complete_active_turn (ge_parse env) reply now (ga_session g) = (r, s)" by fastforce
  have "quiet g (g\<lparr>ga_session := s\<rparr>)" by (rule quiet_update) (simp_all add: settles_completed [OF cs])
  then show ?thesis using cs quiet_emit by (cases r) (auto simp: complete_local_command_def)
qed

lemma quiet_command: "quiet g (run_command env now cmd g)"
  unfolding run_command_def
  by (rule quiet_trans [OF quiet_session quiet_local]) (auto split: SlashCommand.split)

lemma settles_start: "wt_pending_tool t = None \<Longrightarrow> wt_pending_approval t = None \<Longrightarrow> settles s (start_turn t s)"
  by (auto simp: settles_def start_turn_def pending_calls_def clean_def)

lemma begin_turn_inv:
  assumes "gate_inv g"
  shows "gate_inv (begin_turn env now tid task content cmd g) \<and> dispatched_calls (begin_turn env now tid task content cmd g) = dispatched_calls g"
proof -
  define g1 where "g1 = on_session (\<lambda>s. set_active_turn_phase LoadingContext now
    (start_turn (new_turn env tid task content s) (seed_cron_tools task s))) g"
  have "settles (ga_session g) (start_turn (new_turn env tid task content (ga_session g)) (seed_cron_tools task (ga_session g)))"
    by (rule settles_trans [OF settles_policy(8) settles_start]) (simp_all add: new_turn_def)
  then have q: "quiet g g1" unfolding g1_def by (intro quiet_session quiet_refl settles_trans [OF _ settles_phase])
  then have i1: "gate_inv g1" and d1: "dispatched_calls g1 = dispatched_calls g"
    using quiet_inv [OF q assms] by (simp_all add: quiet_def)
  obtain t where t: "ss_turn (ga_session g1) = Some t" "wt_pending_tool t = None"
    by (simp add: g1_def on_session_def set_active_turn_phase_def on_turn_def start_turn_def new_turn_def)
  have pk: "gate_inv (parks now a None g1) \<and> dispatched_calls (parks now a None g1) = dispatched_calls g" for a
    using parks_inv [of g1 t None now a] i1 t d1 by (simp add: gate_inv_def parks_dispatched)
  have am: "quiet g1 (ask_model now g1)"
    unfolding ask_model_def by (intro quiet_emit quiet_session) (simp_all add: settles_trans [OF settles_ops(4) settles_phase])
  have fin: "gate_inv h \<and> dispatched_calls h = dispatched_calls g" if "quiet g1 h" for h
    using quiet_inv [OF that i1] that d1 by (simp add: quiet_def)
  show ?thesis
  proof (cases "it_requires_approval task")
    case True
    then show ?thesis using pk by (simp add: begin_turn_def g1_def [symmetric] parks_def Let_def)
  next
    case False
    have "quiet g1 (begin_turn env now tid task content cmd g)"
      using False by (cases cmd) (simp_all add: begin_turn_def g1_def [symmetric] Let_def quiet_command quiet_local am)
    then show ?thesis by (rule fin)
  qed
qed

lemma enter_message_inv:
  assumes "gate_inv g"
  shows "gate_inv (enter_message env now tid task content cmd g) \<and> dispatched_calls (enter_message env now tid task content cmd g) = dispatched_calls g"
proof -
  have fin: "gate_inv h \<and> dispatched_calls h = dispatched_calls g" if "quiet g h" for h
    using quiet_inv [OF that assms] that by (simp add: quiet_def)
  have q1: "quiet g (emit (ModelAsked False) (on_session (\<lambda>s. set_active_turn_phase WaitingModel now
      (snd (restore_parked_plan_turn n s))) g))" for n
    by (intro quiet_emit quiet_session) (simp_all add: settles_trans [OF settles_plan_park(2) settles_phase])
  have q2: "quiet g (on_session (\<lambda>s. s\<lparr>ss_turn := ss_parked_plan s, ss_parked_plan := None, ss_parked_plan_since := None\<rparr>) g)"
    by (rule quiet_session) (auto simp: settles_def pending_calls_def clean_def)
  have q3: "quiet g (on_session (enqueue_user_task tid task now) g)"
    by (rule quiet_session) (simp_all add: enqueue_user_task_def)
  have q4: "quiet g (emit (Replied x) g)" for x by (rule quiet_emit) simp_all
  show ?thesis
    unfolding enter_message_def Let_def
    using begin_turn_inv [OF assms] fin [OF q1] fin [OF quiet_trans [OF q2 quiet_fail]] fin [OF q3] fin [OF q4]
    by (simp split: if_split)
qed

text \<open>A task that is a direct \<open>life.observe\<close> command, which the session can run, with exactly the call \<open>c\<close>.\<close>

definition observe_task :: "gate_env \<Rightarrow> InboundTask \<Rightarrow> SessionState \<Rightarrow> ToolCall \<Rightarrow> bool" where
  "observe_task env task s c \<longleftrightarrow>
     (\<exists>content args. normalized_user_content task = Some content \<and> \<not> inbound_task_from_synthetic_source task
        \<and> triggers_life_observe (tl_lower (ge_text env)) content \<and> ge_observe env task content = Some args
        \<and> c = observe_call args \<and> tool_is_enabled ''life.observe'' s \<and> map_of (ss_routes s) ''life.observe'' \<noteq> None)"

lemma completed_session:
  "complete_active_turn parse reply now s = (r, s') \<Longrightarrow>
     ss_turn s' = None \<and> ss_parked_approval s' = ss_parked_approval s \<and> ss_parked_plan s' = ss_parked_plan s"
  by (auto simp: complete_active_turn_def Let_def split: option.splits)

lemma local_slips:
  assumes "ss_parked_approval (f (ga_session g)) = ss_parked_approval (ga_session g)"
    "ss_parked_plan (f (ga_session g)) = ss_parked_plan (ga_session g)"
  shows "slips g c (complete_local_command env now reply (emit (Dispatched c) (on_session f g)))"
proof -
  obtain r s where cs: "complete_active_turn (ge_parse env) reply now (f (ga_session g)) = (r, s)" by fastforce
  have "settles (ga_session g) s"
    using completed_session [OF cs] assms by (auto simp: settles_def pending_calls_def clean_def)
  then show ?thesis
    using cs by (cases r) (auto simp: complete_local_command_def slips_def emit_def on_session_def dispatched_calls_def List.map_filter_def)
qed

lemma observe_inv:
  assumes "gate_inv g"
  shows "gate_inv (handle_direct_life_observe env now tid task content args g)
    \<and> (dispatched_calls (handle_direct_life_observe env now tid task content args g) = dispatched_calls g
       \<or> dispatched_calls (handle_direct_life_observe env now tid task content args g) = dispatched_calls g @ [observe_call args]
         \<and> tool_is_enabled ''life.observe'' (ga_session g) \<and> map_of (ss_routes (ga_session g)) ''life.observe'' \<noteq> None)"
proof (cases "tool_is_enabled ''life.observe'' (ga_session g) \<and> map_of (ss_routes (ga_session g)) ''life.observe'' \<noteq> None")
  case True
  have "slips g (observe_call args) (handle_direct_life_observe env now tid task content args g)"
    using True unfolding handle_direct_life_observe_def by (auto simp: local_slips start_turn_def)
  then show ?thesis using True slips_inv [OF _ assms] by (simp add: slips_def)
next
  case False
  then have "quiet g (handle_direct_life_observe env now tid task content args g)"
    unfolding handle_direct_life_observe_def by (auto intro!: quiet_emit)
  then show ?thesis using quiet_inv [OF _ assms] by (simp add: quiet_def)
qed

lemma enter_or_observe_inv:
  assumes "gate_inv g" "normalized_user_content task = Some content"
  shows "gate_inv (enter_or_observe env now tid task content cmd g)
    \<and> (dispatched_calls (enter_or_observe env now tid task content cmd g) = dispatched_calls g
       \<or> (\<exists>c. dispatched_calls (enter_or_observe env now tid task content cmd g) = dispatched_calls g @ [c]
            \<and> observe_task env task (ga_session g) c))"
proof (cases "direct_life_observe_command_for_task env task content")
  case None
  then show ?thesis using enter_message_inv [OF assms(1)] by (simp add: enter_or_observe_def)
next
  case (Some args)
  then show ?thesis
    using observe_inv [OF assms(1), of env now tid task content args] assms(2)
    by (auto simp: enter_or_observe_def observe_task_def direct_life_observe_command_for_task_def split: if_splits)
qed

text \<open>A task whose text is the operator's plain approval, and an event that handles such a task.\<close>

definition approve_task :: "gate_env \<Rightarrow> InboundTask \<Rightarrow> bool" where
  "approve_task env task \<longleftrightarrow>
     (case normalized_user_content task of
        Some content \<Rightarrow> parse_slash_command (tl_lower (ge_text env)) content = Some (Approve None)
      | None \<Rightarrow> False)"

definition approving :: "gate_env \<Rightarrow> loop_event \<Rightarrow> gate \<Rightarrow> bool" where
  "approving env e g =
     (case e of
        MessageArrives tid task \<Rightarrow> approve_task env task
      | DrainNext \<Rightarrow> (case ga_drained g of (tid, task) # rest \<Rightarrow> approve_task env task | [] \<Rightarrow> False)
      | _ \<Rightarrow> False)"

definition shown_and_parked :: "gate \<Rightarrow> ToolCall \<Rightarrow> bool" where
  "shown_and_parked g c \<longleftrightarrow> (\<exists>t a. ss_parked_approval (ga_session g) = Some t \<and> wt_pending_approval t = Some a
     \<and> wt_pending_tool t = Some c \<and> AskOperator a (Some c) \<in> set (ga_log g))"

text \<open>The session of a trust button, before the decision is carried out.\<close>

definition trusted :: "InboundTask \<Rightarrow> gate \<Rightarrow> gate" where
  "trusted task g = (if it_callback task = Some ''trust'' then on_session set_preapprove_this_session g else g)"

lemma message_decision:
  assumes inv: "gate_inv g" and cmd: "cmd = Approve n \<or> cmd = Deny n"
  shows "gate_inv (handle_approval_command env now cmd (trusted task g))
    \<and> (dispatched_calls (handle_approval_command env now cmd (trusted task g)) = dispatched_calls g
       \<or> (\<exists>c. dispatched_calls (handle_approval_command env now cmd (trusted task g)) = dispatched_calls g @ [c]
            \<and> cmd = Approve None \<and> shown_and_parked g c))"
proof -
  let ?h = "handle_approval_command env now cmd (trusted task g)"
  have qt: "quiet g (trusted task g)" by (simp add: trusted_def quiet_session)
  have gt: "gate_inv (trusted task g)" "ss_parked_approval (ga_session (trusted task g)) = ss_parked_approval (ga_session g)"
    "ga_log (trusted task g) = ga_log g"
    using quiet_inv [OF qt inv] by (simp_all add: trusted_def on_session_def set_preapprove_this_session_def)
  from approval_command_cases [OF gt(1) cmd, of env now] show ?thesis
  proof (elim disjE exE conjE)
    assume "quiet (trusted task g) ?h"
    then have "quiet g ?h" by (rule quiet_trans [OF qt])
    then show ?thesis using quiet_inv [OF _ inv] by (simp add: quiet_def)
  next
    fix t a c
    assume c: "cmd = Approve None" "ss_parked_approval (ga_session (trusted task g)) = Some t" "wt_pending_approval t = Some a"
      "wt_pending_tool t = Some c" "AskOperator a (Some c) \<in> set (ga_log (trusted task g))" "sends (trusted task g) c ?h"
    have s: "sends g c ?h" by (rule quiet_sends [OF qt c(6)])
    have "asked_operator c g" using c(5) gt(3) by (auto simp: asked_operator_def)
    then have "gate_inv ?h" using sends_inv [OF s inv] by blast
    moreover have "dispatched_calls ?h = dispatched_calls g @ [c]" using s by (simp add: sends_def)
    ultimately show ?thesis using c gt(2,3) unfolding shown_and_parked_def by auto
  qed
qed

lemma message_command:
  assumes "normalized_user_content task = Some content" "parse_slash_command (tl_lower (ge_text env)) content = Some cmd"
    "\<not> (it_action task = Some ''plan_continuation''
      \<and> \<not> (ss_carryover (ga_session g) \<noteq> None \<and> ss_parked_plan (ga_session g) = None))"
  shows "handle_user_message env now tid task g =
    (if command_bypasses_turn_start cmd then emit (Replied ''status'') g
     else (case cmd of
             ApprovalClear r \<Rightarrow> handle_approval_clear g
           | Plan drop_it \<Rightarrow> emit (Replied ''plan'') (on_session (\<lambda>s. if drop_it then s\<lparr>ss_carryover := None\<rparr> else s) g)
           | Correct t x \<Rightarrow> g
           | _ \<Rightarrow>
               if (case cmd of Approve n \<Rightarrow> True | Deny n \<Rightarrow> True | _ \<Rightarrow> False)
               then if should_defer_parked_approval_command (ga_session g) then on_session (prepend_user_task tid task now) g
                    else handle_approval_command env now cmd
                           (if it_callback task = Some ''trust'' then on_session set_preapprove_this_session g else g)
               else enter_or_observe env now tid task content (Some cmd) g))"
  unfolding handle_user_message_def assms(1) option.case assms(2) using assms(3) by (simp only: if_False)

lemma message_cases:
  assumes inv: "gate_inv g"
  shows "gate_inv (handle_user_message env now tid task g)
    \<and> (dispatched_calls (handle_user_message env now tid task g) = dispatched_calls g
       \<or> (\<exists>c. dispatched_calls (handle_user_message env now tid task g) = dispatched_calls g @ [c]
            \<and> (approve_task env task \<and> shown_and_parked g c \<or> observe_task env task (ga_session g) c)))"
proof -
  have fin: "gate_inv h \<and> dispatched_calls h = dispatched_calls g" if "quiet g h" for h
    using quiet_inv [OF that inv] that by (simp add: quiet_def)
  have q0: "quiet g (emit (Replied x) g)" for x by (rule quiet_emit) simp_all
  have qc: "quiet g (handle_approval_clear g)"
    by (cases "ss_parked_approval (ga_session g)")
      (auto simp: handle_approval_clear_def settles_def pending_calls_def clean_def intro!: quiet_emit quiet_session)
  have qp: "quiet g (emit (Replied x) (on_session (\<lambda>s. if b then s\<lparr>ss_carryover := None\<rparr> else s) g))" for x b
    by (intro quiet_emit quiet_session) simp_all
  have qd: "quiet g (on_session (prepend_user_task tid task now) g)"
    by (rule quiet_session) (simp_all add: prepend_user_task_def)
  have dec: "?thesis" if h: "handle_user_message env now tid task g = handle_approval_command env now cmd (trusted task g)"
    "cmd = Approve n \<or> cmd = Deny n" "cmd = Approve None \<longrightarrow> approve_task env task" for cmd n
    using message_decision [OF inv h(2), of env now task] h(1,3) by auto
  show ?thesis
  proof (cases "normalized_user_content task")
    case None
    then show ?thesis using inv by (simp add: handle_user_message_def)
  next
    case content: (Some content)
    show ?thesis
    proof (cases "it_action task = Some ''plan_continuation''
        \<and> \<not> (ss_carryover (ga_session g) \<noteq> None \<and> ss_parked_plan (ga_session g) = None)")
      case True
      then show ?thesis using inv content by (simp add: handle_user_message_def)
    next
      case cont: False
      show ?thesis
      proof (cases "parse_slash_command (tl_lower (ge_text env)) content")
        case None
        then have "handle_user_message env now tid task g = enter_or_observe env now tid task content None g"
          using content cont unfolding handle_user_message_def by (simp only: option.case if_False)
        then show ?thesis using enter_or_observe_inv [OF inv content, of env now tid None] by auto
      next
        case cmd: (Some cmd)
        note unfold = message_command [OF content cmd cont]
        show ?thesis
        proof (cases "\<exists>n. cmd = Approve n \<or> cmd = Deny n")
          case True
          then obtain n where n: "cmd = Approve n \<or> cmd = Deny n" by blast
          have "handle_user_message env now tid task g =
              (if should_defer_parked_approval_command (ga_session g) then on_session (prepend_user_task tid task now) g
               else handle_approval_command env now cmd (trusted task g))"
            using n unfolding unfold trusted_def [symmetric] by (elim disjE) (simp_all add: command_bypasses_turn_start_def)
          moreover have "cmd = Approve None \<longrightarrow> approve_task env task" using content cmd by (simp add: approve_task_def)
          ultimately show ?thesis using dec [OF _ n] fin [OF qd] by (simp split: if_splits)
        next
          case False
          then have "handle_user_message env now tid task g \<in>
              {emit (Replied ''status'') g, handle_approval_clear g, g, enter_or_observe env now tid task content (Some cmd) g}
              \<union> {emit (Replied ''plan'') (on_session (\<lambda>s. if b then s\<lparr>ss_carryover := None\<rparr> else s) g) | b. True}"
            unfolding unfold by (cases cmd) (auto simp: command_bypasses_turn_start_def)
          then show ?thesis
            using fin [OF q0] fin [OF qc] fin [OF qp] inv enter_or_observe_inv [OF inv content, of env now tid "Some cmd"] by auto
        qed
      qed
    qed
  qed
qed

subsection \<open>Every call that leaves the agent is authorised\<close>

lemma quiet_prepare: "quiet g (prepare_answer now plan g)"
proof -
  have cp: "settles s (capture_plan p s)" for p s
    unfolding capture_plan_def Let_def
    by (simp add: settles_ops(6) settles_trans [OF settles_ops(6) [of s p] settles_policy(12)])
  show ?thesis
    unfolding prepare_answer_def Let_def
    by (cases plan) (simp_all add: quiet_session settles_phase settles_trans [OF settles_phase cp])
qed

definition model_may_call :: "gate_env \<Rightarrow> SessionState \<Rightarrow> ToolCall \<Rightarrow> bool" where
  "model_may_call env s c \<longleftrightarrow> unconditional_approval_gate c = None
     \<and> (requires_approval c s \<longrightarrow> approval_policy_allows (ge_class env) (Some c) s)"

text \<open>The grounds on which a call may leave a turn the model drives: the operator approved the question that showed it; the
  model called it and no gate applies; or it was pending already and the model asked for an approval that the policy
  grants.\<close>

definition gated :: "gate_env \<Rightarrow> nat \<Rightarrow> loop_event \<Rightarrow> gate \<Rightarrow> ToolCall \<Rightarrow> bool" where
  "gated env now e g c \<longleftrightarrow>
     (unconditional_approval_gate c \<noteq> None \<longrightarrow> asked_operator c g)
     \<and> (approving env e g \<and> shown_and_parked g c
        \<or> (\<exists>tid plan. e = ModelAnswers tid plan (CallTool c) \<and> model_may_call env (ga_session (prepare_answer now plan g)) c)
        \<or> (\<exists>tid plan a t. e = ModelAnswers tid plan (RequestApproval a) \<and> ss_turn (ga_session g) = Some t
             \<and> wt_pending_tool t = Some c \<and> approval_policy_allows (ge_class env) (Some c) (ga_session (prepare_answer now plan g))))"

text \<open>The two ways around the gates. A loop script runs the next call of its tool sequence, or a gate of the script that the
  policy grants lets the turn's pending call go; and the operator's direct \<open>life.observe\<close> command runs at once.\<close>

definition scripted :: "gate_env \<Rightarrow> loop_event \<Rightarrow> gate \<Rightarrow> ToolCall \<Rightarrow> bool" where
  "scripted env e g c \<longleftrightarrow> e = ScriptStep
     \<and> (\<exists>x t. due_script (ga_session g) = Some x \<and> ss_turn (ga_session g) = Some t
          \<and> (advance_script x = ExecuteNextTool (tc_name c) (tc_args c)
             \<or> (\<exists>gt surface reject. advance_script x = ParkForApproval gt surface reject) \<and> wt_pending_tool t = Some c
               \<and> approval_policy_allows (ge_class env) (Some c) (ga_session g)))"

definition observes :: "gate_env \<Rightarrow> loop_event \<Rightarrow> gate \<Rightarrow> ToolCall \<Rightarrow> bool" where
  "observes env e g c \<longleftrightarrow>
     (case e of
        MessageArrives tid task \<Rightarrow> observe_task env task (ga_session g) c
      | DrainNext \<Rightarrow> (case ga_drained g of (tid, task) # rest \<Rightarrow> observe_task env task (ga_session g) c | [] \<Rightarrow> False)
      | _ \<Rightarrow> False)"

definition authorised :: "gate_env \<Rightarrow> nat \<Rightarrow> loop_event \<Rightarrow> gate \<Rightarrow> ToolCall \<Rightarrow> bool" where
  "authorised env now e g c \<longleftrightarrow> gated env now e g c \<or> scripted env e g c \<or> observes env e g c"

lemma model_call_cases:
  assumes "gate_inv g"
  shows "gate_inv (model_tool_call env now c g)
    \<and> (dispatched_calls (model_tool_call env now c g) = dispatched_calls g
       \<or> (dispatched_calls (model_tool_call env now c g) = dispatched_calls g @ [c] \<and> model_may_call env (ga_session g) c))"
proof (cases "Option.bind (ss_turn (ga_session g)) (forced_stop (ga_session g))")
  case None
  then show ?thesis
    using route_cases [OF assms, of env now c] by (auto simp: model_tool_call_def model_may_call_def force_approval_def)
next
  case (Some reason)
  then show ?thesis
    using quiet_deliver [of g env now reason] quiet_inv [OF _ assms] by (simp add: model_tool_call_def) (simp add: quiet_def)
qed

lemma prepared_turn:
  "ss_turn (ga_session g) = Some t \<Longrightarrow>
     \<exists>u. ss_turn (ga_session (prepare_answer now plan g)) = Some u \<and> wt_pending_tool u = wt_pending_tool t"
  by (cases plan) (auto simp: prepare_answer_def on_session_def Let_def set_active_turn_phase_def on_turn_def capture_plan_def
      set_active_plan_def)

lemma approval_request_step:
  fixes env :: gate_env and now :: nat and plan :: "ActivePlan option" and a :: ApprovalRequest
  assumes turn: "ss_turn (ga_session g) = Some t" "wt_script t = None" and inv: "gate_inv g"
  defines "g1 \<equiv> prepare_answer now plan g"
  defines "h \<equiv> handle_approval_request env now a False g1"
  shows "gate_inv h \<and> (dispatched_calls h = dispatched_calls g
    \<or> (\<exists>c. dispatched_calls h = dispatched_calls g @ [c] \<and> authorised env now (ModelAnswers tid plan (RequestApproval a)) g c))"
proof -
  have q: "quiet g g1" unfolding g1_def by (rule quiet_prepare)
  have i: "gate_inv g1" "dispatched_calls g1 = dispatched_calls g"
    using quiet_inv [OF q inv] q by (simp_all add: quiet_def)
  obtain u where u: "ss_turn (ga_session g1) = Some u" "wt_pending_tool u = wt_pending_tool t"
    using prepared_turn [OF turn(1)] unfolding g1_def by blast
  from request_cases [OF u(1), of env now a False] show ?thesis
  proof (elim disjE exE conjE)
    assume "handle_approval_request env now a False g1 = parks now (normalize_approval_request env a) (wt_pending_tool u) g1"
    moreover have "gate_inv (parks now (normalize_approval_request env a) (wt_pending_tool u) g1)"
      by (rule parks_inv [OF _ u(1)]) (use i(1) in \<open>auto simp: gate_inv_def\<close>)
    ultimately show ?thesis unfolding h_def using i(2) by (simp add: parks_dispatched)
  next
    assume s: "quiet g1 (handle_approval_request env now a False g1)"
    show ?thesis unfolding h_def using quiet_inv [OF s i(1)] s i(2) by (simp add: quiet_def)
  next
    fix c
    assume c: "approval_policy_allows (ge_class env) (wt_pending_tool u) (ga_session g1)" "wt_pending_tool u = Some c"
      "sends g1 c (handle_approval_request env now a False g1)"
    have "c \<in> pending_calls (ga_session g)" using turn u(2) c(2) by (auto simp: pending_calls_def)
    then have asked: "unconditional_approval_gate c \<noteq> None \<longrightarrow> asked_operator c g" using inv by (auto simp: gate_inv_def)
    then have "unconditional_approval_gate c = None \<or> asked_operator c g1" using asked_mono [of c g g1] q by (auto simp: quiet_def)
    then have "gate_inv h" unfolding h_def by (rule sends_inv [OF c(3) i(1)])
    moreover have "dispatched_calls h = dispatched_calls g @ [c]" using c(3) i(2) by (simp add: sends_def h_def)
    moreover have "authorised env now (ModelAnswers tid plan (RequestApproval a)) g c"
      using asked turn u(2) c(1,2) by (auto simp: authorised_def gated_def g1_def)
    ultimately show ?thesis by blast
  qed
qed

definition act :: "gate_env \<Rightarrow> nat \<Rightarrow> AgentAction \<Rightarrow> gate \<Rightarrow> gate" where
  "act env now action g =
     (case action of
        Respond content \<Rightarrow> deliver_text_reply env now content g
      | CallTool c \<Rightarrow> model_tool_call env now c g
      | RequestApproval a \<Rightarrow> handle_approval_request env now a False g
      | PlanProposal summary \<Rightarrow> handle_plan_proposal now summary g
      | FailAction msg \<Rightarrow> fail_active_turn now msg g)"

lemma model_response_act:
  "handle_model_response env now tid plan action g
     \<in> {g, prepare_answer now plan g, on_session (on_script (record_step_output (answer_value env))) (prepare_answer now plan g)}
   \<or> (\<exists>t. ss_turn (ga_session g) = Some t \<and> wt_script t = None
        \<and> handle_model_response env now tid plan action g = act env now action (prepare_answer now plan g))"
  by (cases "ss_turn (ga_session g)") (auto simp: handle_model_response_def act_def Let_def)

lemma act_cases:
  fixes env :: gate_env and now :: nat and plan :: "ActivePlan option" and action :: AgentAction
  assumes inv: "gate_inv g" and turn: "ss_turn (ga_session g) = Some t" "wt_script t = None"
  defines "h \<equiv> act env now action (prepare_answer now plan g)"
  shows "gate_inv h \<and> (dispatched_calls h = dispatched_calls g
    \<or> (\<exists>c. dispatched_calls h = dispatched_calls g @ [c] \<and> authorised env now (ModelAnswers tid plan action) g c))"
proof -
  let ?g1 = "prepare_answer now plan g"
  have q: "quiet g ?g1" by (rule quiet_prepare)
  have i: "gate_inv ?g1" "dispatched_calls ?g1 = dispatched_calls g"
    using quiet_inv [OF q inv] q by (simp_all add: quiet_def)
  have fin: "?thesis" if "quiet ?g1 h"
    using quiet_inv [OF that i(1)] that i(2) by (simp add: quiet_def)
  show ?thesis
  proof (cases action)
    case (CallTool c)
    have "authorised env now (ModelAnswers tid plan action) g c" if "model_may_call env (ga_session ?g1) c"
      using that CallTool by (simp add: authorised_def gated_def model_may_call_def)
    then show ?thesis using model_call_cases [OF i(1), of env now c] i(2) CallTool by (auto simp: h_def act_def)
  next
    case (RequestApproval a)
    then show ?thesis using approval_request_step [OF turn inv, of env now a plan tid] by (simp add: h_def act_def)
  next
    case (PlanProposal x)
    have "quiet ?g1 (handle_plan_proposal now x ?g1)"
      by (cases "ss_turn (ga_session ?g1)")
        (auto simp: handle_plan_proposal_def intro!: quiet_emit quiet_session settles_trans [OF _ settles_plan_park(1)]
          settles_trans [OF _ settles_phase])
    then show ?thesis using PlanProposal by (intro fin) (simp add: h_def act_def)
  qed (intro fin; simp add: h_def act_def quiet_deliver quiet_fail)+
qed

lemma model_response_cases:
  assumes inv: "gate_inv g"
  shows "gate_inv (handle_model_response env now tid plan action g)
    \<and> (dispatched_calls (handle_model_response env now tid plan action g) = dispatched_calls g
       \<or> (\<exists>c. dispatched_calls (handle_model_response env now tid plan action g) = dispatched_calls g @ [c]
            \<and> authorised env now (ModelAnswers tid plan action) g c))"
proof -
  have "gate_inv (prepare_answer now plan g)" "dispatched_calls (prepare_answer now plan g) = dispatched_calls g"
    using quiet_inv [OF quiet_prepare inv] quiet_prepare [of g now plan] by (simp_all add: quiet_def)
  moreover have "gate_inv h \<and> (dispatched_calls h = dispatched_calls g
      \<or> (\<exists>c. dispatched_calls h = dispatched_calls g @ [c] \<and> authorised env now (ModelAnswers tid plan action) g c))"
    if "\<exists>t. ss_turn (ga_session g) = Some t \<and> wt_script t = None \<and> h = act env now action (prepare_answer now plan g)" for h
    using act_cases [OF inv, of _ env now action plan tid] that by auto
  moreover have "gate_inv (on_session (on_script f) (prepare_answer now plan g))
      \<and> dispatched_calls (on_session (on_script f) (prepare_answer now plan g)) = dispatched_calls g" for f
    using quiet_on_script [OF quiet_prepare] quiet_inv [OF _ inv] by (auto simp: quiet_def)
  ultimately show ?thesis
    using model_response_act [of env now tid plan action g] inv by (elim disjE) (simp_all, elim disjE, simp_all)
qed

text \<open>The step of a loop script: it sends at most the call the script names next, or the pending one its gate lets go.\<close>

lemma quiet_asked: "quiet g (script_asked g)"
  unfolding script_asked_def by (intro quiet_session settles_on_turn) simp_all

lemma asked_turn:
  "ss_turn (ga_session g) = Some t \<Longrightarrow>
     ss_turn (ga_session (script_asked g)) = Some (t\<lparr>wt_script := map_option (\<lambda>x. x\<lparr>sx_due := False\<rparr>) (wt_script t)\<rparr>)"
  by (simp add: script_asked_def on_session_def on_turn_def)

lemma policy_asked:
  "approval_policy_allows cls tool (ga_session (script_asked g)) = approval_policy_allows cls tool (ga_session g)"
  by (cases "ss_turn (ga_session g)") (simp_all add: approval_policy_allows_def script_asked_def on_session_def on_turn_def split: option.split)

lemma scripted_gate_cases:
  assumes "gate_inv g" "ss_turn (ga_session g) = Some t" "wt_script t = Some y"
  shows "gate_inv (scripted_park_for_approval env now gt x g)
    \<and> (dispatched_calls (scripted_park_for_approval env now gt x g) = dispatched_calls g
       \<or> (\<exists>c. dispatched_calls (scripted_park_for_approval env now gt x g) = dispatched_calls g @ [c]
            \<and> wt_pending_tool t = Some c \<and> approval_policy_allows (ge_class env) (Some c) (ga_session g)))"
proof -
  define a where "a = \<lparr>ar_id = Some (''scripted_gate:'' @ gt), ar_reason = plan_text env x, ar_response = ''Plan approved. Executing now.''\<rparr>"
  have h: "scripted_park_for_approval env now gt x g = handle_approval_request env now a False g"
    by (simp add: scripted_park_for_approval_def a_def)
  show ?thesis
  proof (cases "approval_policy_allows (ge_class env) (wt_pending_tool t) (ga_session g)")
    case False
    have p: "handle_approval_request env now a False g = parks now (normalize_approval_request env a) (wt_pending_tool t) g"
      using request_cases [OF assms(2), of env now a False] False by simp
    have "gate_inv (parks now (normalize_approval_request env a) (wt_pending_tool t) g)"
      by (rule parks_inv [OF _ assms(2)]) (use assms(1) in \<open>auto simp: gate_inv_def\<close>)
    then show ?thesis using h p by (simp add: parks_dispatched)
  next
    case True
    define g1 where "g1 = emit (Replied (ar_response (normalize_approval_request env a)))
      (on_session (\<lambda>s. set_active_turn_phase Thinking now (clear_pending_approval s)) g)"
    have q: "quiet g g1"
      unfolding g1_def by (intro quiet_emit quiet_session) (simp_all add: settles_trans [OF settles_ops(1) settles_phase])
    have s1: "in_script g1"
      using assms(2,3) by (simp add: in_script_def g1_def emit_def on_session_def set_active_turn_phase_def clear_pending_approval_def on_turn_def)
    have fin: "gate_inv k \<and> dispatched_calls k = dispatched_calls g" if "quiet g k" for k
      using quiet_inv [OF that assms(1)] that by (simp add: quiet_def)
    show ?thesis
    proof (cases "wt_pending_tool t")
      case None
      then have "handle_approval_request env now a False g = deliver_text_reply env now (ar_response (normalize_approval_request env a)) g1"
        using True assms(2) by (simp add: handle_approval_request_def Let_def g1_def [symmetric])
      then show ?thesis using h fin [OF quiet_trans [OF q quiet_deliver]] by simp
    next
      case (Some c)
      then have e: "handle_approval_request env now a False g = execute_call env now c g1"
        using True assms(2) by (simp add: handle_approval_request_def Let_def g1_def [symmetric])
      from scripted_execute [OF s1, of env now c] show ?thesis
      proof
        assume "quiet g1 (execute_call env now c g1)"
        then show ?thesis using h e fin [OF quiet_trans [OF q]] by simp
      next
        assume "slips g1 c (execute_call env now c g1)"
        then have s: "slips g c (execute_call env now c g1)" by (rule quiet_slips [OF q])
        have "gate_inv (execute_call env now c g1)" by (rule slips_inv [OF s assms(1)])
        moreover have "dispatched_calls (execute_call env now c g1) = dispatched_calls g @ [c]" using s by (simp add: slips_def)
        ultimately show ?thesis using True unfolding h e Some by blast
      qed
    qed
  qed
qed

lemma carry_out_cases:
  assumes inv: "gate_inv g" and turn: "ss_turn (ga_session g) = Some t" "wt_script t = Some y"
  shows "gate_inv (carry_out env now x g)
    \<and> (dispatched_calls (carry_out env now x g) = dispatched_calls g
       \<or> (\<exists>c. dispatched_calls (carry_out env now x g) = dispatched_calls g @ [c]
            \<and> (advance_script x = ExecuteNextTool (tc_name c) (tc_args c)
               \<or> (\<exists>gt surface reject. advance_script x = ParkForApproval gt surface reject) \<and> wt_pending_tool t = Some c
                 \<and> approval_policy_allows (ge_class env) (Some c) (ga_session g))))"
proof -
  have fin: "gate_inv k \<and> dispatched_calls k = dispatched_calls g" if "quiet g k" for k
    using quiet_inv [OF that inv] that by (simp add: quiet_def)
  show ?thesis
  proof (cases "advance_script x")
    case (EmitModelCall ph schema)
    have "quiet g (scripted_emit_model_call g)"
      unfolding scripted_emit_model_call_def by (intro quiet_emit quiet_session settles_on_turn) simp_all
    from fin [OF this] show ?thesis using EmitModelCall by (simp add: carry_out_def)
  next
    case (ParkForApproval gt surface reject)
    then have e: "carry_out env now x g = scripted_park_for_approval env now gt x g" by (simp add: carry_out_def)
    have gate: "\<exists>gt surface reject. advance_script x = ParkForApproval gt surface reject" using ParkForApproval by (intro exI)
    show ?thesis unfolding e using scripted_gate_cases [OF inv turn, of env now gt x] by (elim conjE disjE exE) (simp_all add: gate)
  next
    case (ExecuteNextTool nm args)
    define c where "c = \<lparr>tc_name = nm, tc_args = args\<rparr>"
    define g1 where "g1 = on_session (set_pending_tool_call c) g"
    have q: "quiet g g1" unfolding g1_def by (rule quiet_session) (simp_all add: settles_script_pending [OF turn])
    have s1: "in_script g1"
      using turn by (simp add: in_script_def g1_def on_session_def set_pending_tool_call_def on_turn_def)
    have e: "carry_out env now x g = execute_call env now c g1"
      using ExecuteNextTool by (simp add: carry_out_def scripted_dispatch_next_tool_def c_def g1_def)
    from scripted_execute [OF s1, of env now c] show ?thesis
    proof
      assume "quiet g1 (execute_call env now c g1)"
      then show ?thesis using e fin [OF quiet_trans [OF q]] by simp
    next
      assume "slips g1 c (execute_call env now c g1)"
      then have s: "slips g c (execute_call env now c g1)" by (rule quiet_slips [OF q])
      have "gate_inv (execute_call env now c g1)" by (rule slips_inv [OF s inv])
      moreover have "dispatched_calls (execute_call env now c g1) = dispatched_calls g @ [c]" using s by (simp add: slips_def)
      moreover have "advance_script x = ExecuteNextTool (tc_name c) (tc_args c)" using ExecuteNextTool by (simp add: c_def)
      ultimately show ?thesis unfolding e by blast
    qed
  qed (simp_all add: carry_out_def fin [OF quiet_on_script [OF quiet_refl]] fin [OF quiet_deliver] fin [OF quiet_fail])
qed

lemma script_step_cases:
  assumes "gate_inv g"
  shows "gate_inv (scripted_dispatch_after_advance env now g)
    \<and> (dispatched_calls (scripted_dispatch_after_advance env now g) = dispatched_calls g
       \<or> (\<exists>c. dispatched_calls (scripted_dispatch_after_advance env now g) = dispatched_calls g @ [c] \<and> scripted env ScriptStep g c))"
proof (cases "due_script (ga_session g)")
  case None
  then show ?thesis using assms by (simp add: scripted_dispatch_after_advance_def)
next
  case (Some x)
  then obtain t where t: "ss_turn (ga_session g) = Some t" "wt_script t = Some x"
    by (auto simp: due_script_def bind_eq_Some_conv split: option.splits if_splits)
  have i: "gate_inv (script_asked g)" "dispatched_calls (script_asked g) = dispatched_calls g"
    using quiet_inv [OF quiet_asked assms] quiet_asked [of g] by (simp_all add: quiet_def)
  have e: "scripted_dispatch_after_advance env now g = carry_out env now x (script_asked g)"
    using Some by (simp add: scripted_dispatch_after_advance_def)
  define u where "u = t\<lparr>wt_script := map_option (\<lambda>x. x\<lparr>sx_due := False\<rparr>) (wt_script t)\<rparr>"
  have u: "ss_turn (ga_session (script_asked g)) = Some u" "wt_script u = Some (x\<lparr>sx_due := False\<rparr>)" "wt_pending_tool u = wt_pending_tool t"
    using asked_turn [OF t(1)] t(2) by (simp_all add: u_def)
  have "scripted env ScriptStep g c"
    if "advance_script x = ExecuteNextTool (tc_name c) (tc_args c)
      \<or> (\<exists>gt surface reject. advance_script x = ParkForApproval gt surface reject) \<and> wt_pending_tool u = Some c
        \<and> approval_policy_allows (ge_class env) (Some c) (ga_session (script_asked g))" for c
    using that Some t(1) unfolding scripted_def policy_asked u(3) by blast
  then show ?thesis
    using carry_out_cases [OF i(1) u(1,2), of env now x] unfolding e i(2) by blast
qed

text \<open>The gate over whole histories: every event comes with its environment and time.\<close>

definition gate_step :: "gate \<Rightarrow> gate_env \<times> nat \<times> loop_event \<Rightarrow> gate" where
  "gate_step g x = (case x of (env, now, e) \<Rightarrow> loop_step env now e g)"

definition start_gate :: "SessionState \<Rightarrow> gate" where
  "start_gate s = \<lparr>ga_session = s\<lparr>ss_turn := None, ss_parked_approval := None, ss_parked_plan := None\<rparr>, ga_log = [], ga_drained = []\<rparr>"

lemma start_gate_inv: "gate_inv (start_gate s)"
  by (simp add: gate_inv_def start_gate_def clean_def pending_calls_def)

lemma loop_step_cases:
  assumes inv: "gate_inv g"
  shows "gate_inv (loop_step env now e g)
    \<and> (dispatched_calls (loop_step env now e g) = dispatched_calls g
       \<or> (\<exists>c. dispatched_calls (loop_step env now e g) = dispatched_calls g @ [c] \<and> authorised env now e g c))"
proof -
  have shown: "authorised env now e g c" if "approving env e g" "shown_and_parked g c" for c
    using that by (auto simp: authorised_def gated_def shown_and_parked_def asked_operator_def)
  show ?thesis
  proof (cases e)
    case (MessageArrives tid task)
    then show ?thesis
      using message_cases [OF inv, of env now tid task] shown
      by (auto simp: loop_step_def approving_def observes_def authorised_def)
  next
    case (ModelAnswers tid plan action)
    then show ?thesis using model_response_cases [OF inv] by (simp add: loop_step_def)
  next
    case (ToolAnswers r failed)
    then show ?thesis
      using quiet_tool_result [of g env now r failed] quiet_inv [OF _ inv] by (simp add: loop_step_def) (simp add: quiet_def)
  next
    case DrainNext
    show ?thesis
    proof (cases "ga_drained g")
      case Nil
      then show ?thesis using DrainNext inv by (simp add: loop_step_def)
    next
      case (Cons x rest)
      obtain tid task where x: "x = (tid, task)" by fastforce
      let ?g = "g\<lparr>ga_drained := rest\<rparr>"
      have "gate_inv ?g" "dispatched_calls ?g = dispatched_calls g" "shown_and_parked ?g = shown_and_parked g"
        using inv by (auto simp: gate_inv_def asked_operator_def dispatched_calls_def shown_and_parked_def)
      then show ?thesis
        using message_cases [of ?g env now tid task] shown Cons x DrainNext
        by (auto simp: loop_step_def approving_def observes_def authorised_def)
    qed
  next
    case ScriptStep
    then show ?thesis using script_step_cases [OF inv, of env now] by (auto simp: loop_step_def authorised_def)
  qed
qed

interpretation gate: history gate_step gate_inv "\<lambda>x. True"
  using loop_step_cases by unfold_locales (auto simp: gate_step_def split: prod.split)

text \<open>C2. No tool call of a turn, and none of a direct command, leaves an agent without grounds: over any history of messages,
  answers of the model, tool results, drained tasks and steps of a loop script, a step sends at most one call, on one of
  three grounds (the runtime's own LifeGraph messages, which belong to no tool call, are not among them). In a turn the model
  drives: the step handled an \<open>/approve\<close> without a note, and the operator had been shown exactly this call in the question
  of the parked turn; or the model just called it, it is not one of the calls that always need the operator, and if its
  tool requires approval the policy grants it; or the model asked for an approval the policy grants while the call was
  still pending; and a call that always needs the operator does not leave before the operator was asked about it. In a
  scripted turn, where the source skips all of these gates: it is the call the loop script names next, or the turn's
  pending call at a gate of the script that the policy grants. Or the message is a direct \<open>life.observe\<close> command of an operator (no
  cron or paracrine task, at most 300 characters, with the tool's name in front or a request to record within its first 24
  bytes), the tool is enabled and has a route, and the call has the command's arguments.\<close>

theorem dispatch_is_authorised:
  "let g = foldl gate_step (start_gate s) es; g' = gate_step g (env, now, e)
   in dispatched_calls g' = dispatched_calls g
      \<or> (\<exists>c. dispatched_calls g' = dispatched_calls g @ [c] \<and> authorised env now e g c)"
proof -
  have "gate_inv (foldl gate_step (start_gate s) es)" by (rule gate.inv_run) (simp_all add: start_gate_inv list_all_iff)
  then show ?thesis using loop_step_cases by (auto simp: gate_step_def Let_def)
qed

subsection \<open>An unattended turn ends\<close>

text \<open>The turn loop with the model and the tools as arbitrary functions of everything that happened so far: the model
  answers, and a call that was sent gets its result.\<close>

definition waits_for_tool :: "gate \<Rightarrow> bool" where
  "waits_for_tool g \<longleftrightarrow> (case ss_turn (ga_session g) of Some t \<Rightarrow> wt_phase t = WaitingTool | None \<Rightarrow> False)"

definition turn_round ::
  "gate_env \<Rightarrow> nat \<Rightarrow> (gate \<Rightarrow> ActivePlan option \<times> AgentAction) \<Rightarrow> (gate \<Rightarrow> ToolResult \<times> bool) \<Rightarrow> WorkingTurn \<Rightarrow> gate \<Rightarrow> gate" where
  "turn_round env now model tool t g =
     (let g1 = handle_model_response env now (wt_id t) (fst (model g)) (snd (model g)) g
      in if waits_for_tool g1 then handle_tool_result env now (fst (tool g1)) (snd (tool g1)) g1 else g1)"

fun unattended ::
  "nat \<Rightarrow> gate_env \<Rightarrow> nat \<Rightarrow> (gate \<Rightarrow> ActivePlan option \<times> AgentAction) \<Rightarrow> (gate \<Rightarrow> ToolResult \<times> bool) \<Rightarrow> gate \<Rightarrow> gate" where
  "unattended 0 env now model tool g = g"
| "unattended (Suc n) env now model tool g =
     (case ss_turn (ga_session g) of
        None \<Rightarrow> g
      | Some t \<Rightarrow> unattended n env now model tool (turn_round env now model tool t g))"

definition plain :: "WorkingTurn \<Rightarrow> bool" where
  "plain t \<longleftrightarrow> wt_pending_tool t = None \<and> \<not> wt_scripted t \<and> \<not> wt_awaiting_transcription t \<and> wt_phase t \<noteq> WaitingVoice"

definition ended :: "gate \<Rightarrow> bool" where
  "ended g \<longleftrightarrow> ss_turn (ga_session g) = None"

text \<open>The turn goes on with the iteration count \<open>n\<close> and the cap \<open>m\<close>.\<close>

definition goes_on :: "nat \<Rightarrow> nat \<Rightarrow> gate \<Rightarrow> bool" where
  "goes_on n m g \<longleftrightarrow> (\<exists>t. ss_turn (ga_session g) = Some t \<and> plain t \<and> wt_phase t = WaitingModel \<and> wt_iteration t = n)
     \<and> ss_cap (ga_session g) = m"

lemma drain_turn [simp]:
  "ss_turn (ga_session (drain_next_user_task g)) = ss_turn (ga_session g)"
  by (simp add: drain_next_user_task_def dequeue_user_task_def split: list.split prod.split)

lemma followup_turn: "plan_followup_after_turn lib dis t b s = (f, s') \<Longrightarrow> ss_turn s' = ss_turn s"
  by (auto simp: plan_followup_after_turn_def Let_def
      split: if_splits option.splits prod.splits PlanEvalVerdict.splits)

lemma dispatch_followup_turn: "dispatch_plan_followup w f s = (b, s') \<Longrightarrow> ss_turn s' = ss_turn s"
  by (auto simp: dispatch_plan_followup_def split: if_splits option.splits PlanFollowup.splits)

lemma completed_turn: "complete_active_turn parse reply now s = (r, s') \<Longrightarrow> ss_turn s' = None"
  by (auto simp: complete_active_turn_def Let_def split: option.splits)

lemma deliver_ends: "ended (deliver_text_reply env now content g)"
proof -
  obtain r s where cs: "complete_active_turn (ge_parse env) content now (ga_session g) = (r, s)" by fastforce
  note n = completed_turn [OF cs]
  show ?thesis
  proof (cases r)
    case None
    then show ?thesis using cs n by (simp add: deliver_text_reply_def ended_def)
  next
    case (Some t)
    obtain f s1 where fs: "plan_followup_after_turn (ge_text env) (ge_disabled env) t (ge_budget env)
        (set_active_turn_phase Completed now s) = (f, s1)" by fastforce
    have n1: "ss_turn s1 = None" using followup_turn [OF fs] n by (simp add: set_active_turn_phase_def on_turn_def)
    then show ?thesis
      using cs Some fs
      by (auto simp: deliver_text_reply_def ended_def emit_def Let_def dest: dispatch_followup_turn split: option.split prod.split)
  qed
qed

lemma fail_ends: "ended (fail_active_turn now msg g)"
  by (cases "ss_turn (ga_session g)") (simp_all add: fail_active_turn_def ended_def emit_def on_session_def)

lemma parks_ends: "ended (parks now a tool g)"
  by (simp add: parks_def ended_def emit_def on_session_def park_active_turn_for_approval_def)

lemma result_recorded_turn:
  assumes "ss_turn s = Some t" "result_recorded r failed s = (n, s')"
  shows "\<exists>t'. ss_turn s' = Some t' \<and> wt_iteration t' = Suc (wt_iteration t) \<and> wt_phase t' = WaitingModel \<and> wt_pending_tool t' = None
    \<and> wt_scripted t' = wt_scripted t \<and> wt_awaiting_transcription t' = wt_awaiting_transcription t" "ss_cap s' = ss_cap s"
  using assms
  by (auto simp: result_recorded_def Let_def push_tool_history_def clear_pending_tool_call_def on_turn_def
      record_tool_streak_failure_def record_tool_streak_success_def preapprove_tool_def increment_step_failures_def
      reset_step_failures_def split: if_splits option.splits)

lemma tool_result_round:
  assumes "ss_turn (ga_session g) = Some t" "\<not> wt_scripted t" "\<not> wt_awaiting_transcription t"
  shows "ended (handle_tool_result env now r failed g)
    \<or> goes_on (Suc (wt_iteration t)) (ss_cap (ga_session g)) (handle_tool_result env now r failed g)"
proof -
  obtain n s1 where rs: "result_recorded r failed (ga_session g) = (n, s1)" by fastforce
  note rt = result_recorded_turn [OF assms(1) rs]
  then obtain u where u: "ss_turn s1 = Some u" "wt_iteration u = Suc (wt_iteration t)" "wt_phase u = WaitingModel" "plain u"
    using assms(2,3) by (auto simp: plain_def)
  have go: "goes_on (Suc (wt_iteration t)) (ss_cap (ga_session g)) (emit (ModelAsked b) (g\<lparr>ga_session := s1\<rparr>))" for b
    using u rt(2) by (simp add: goes_on_def emit_def)
  show ?thesis
    unfolding handle_tool_result_def rs
    using assms(1,2) u(1) by (simp add: Let_def go fail_ends deliver_ends)
qed

text \<open>What the answer of the model leaves behind: the turn is over, it goes on, or it waits for the result of a call that
  was sent below the cap.\<close>

definition sent_below :: "nat \<Rightarrow> nat \<Rightarrow> gate \<Rightarrow> bool" where
  "sent_below n m g \<longleftrightarrow> (\<exists>t. ss_turn (ga_session g) = Some t \<and> \<not> wt_scripted t \<and> \<not> wt_awaiting_transcription t
     \<and> wt_phase t = WaitingTool \<and> wt_iteration t = n) \<and> ss_cap (ga_session g) = m"

definition answered :: "nat \<Rightarrow> nat \<Rightarrow> gate \<Rightarrow> bool" where
  "answered n m g \<longleftrightarrow> ended g \<or> goes_on (Suc n) m g \<or> sent_below n m g"

lemma tool_result_answered:
  "ss_turn (ga_session g) = Some t \<Longrightarrow> \<not> wt_scripted t \<Longrightarrow> \<not> wt_awaiting_transcription t \<Longrightarrow> wt_iteration t = n \<Longrightarrow>
     ss_cap (ga_session g) = m \<Longrightarrow> answered n m (handle_tool_result env now r failed g)"
  using tool_result_round [of g t env now r failed] by (auto simp: answered_def)

lemma execute_call_round:
  assumes t: "ss_turn (ga_session g) = Some t" "\<not> wt_scripted t" "\<not> wt_awaiting_transcription t"
  shows "answered (wt_iteration t) (ss_cap (ga_session g)) (execute_call env now c g)"
proof -
  let ?ok = "answered (wt_iteration t) (ss_cap (ga_session g))"
  define g1 where "g1 = emit (Dispatched c) (on_session (\<lambda>s. set_active_turn_phase WaitingTool now (set_pending_tool_call c s)) g)"
  have s1: "ss_turn (ga_session g1) = Some (t\<lparr>wt_pending_tool := Some c, wt_phase := WaitingTool\<rparr>)" "ss_cap (ga_session g1) = ss_cap (ga_session g)"
    using t(1) by (simp_all add: g1_def emit_def on_session_def set_active_turn_phase_def set_pending_tool_call_def on_turn_def)
  then have sent: "?ok g1" using t by (simp add: answered_def sent_below_def)
  have dup: "?ok (handle_tool_result env now r False (on_session (set_provider_repair_note n) g))" for r n
    by (rule tool_result_answered [of _ "t\<lparr>wt_repair_note := Some n\<rparr>"])
      (use t in \<open>simp_all add: on_session_def set_provider_repair_note_def on_turn_def\<close>)
  have reg: "?ok (handle_tool_result env now r False (on_session (register_standing_preapproval nm k) g1))" for r nm k
    by (rule tool_result_answered [of _ "t\<lparr>wt_pending_tool := Some c, wt_phase := WaitingTool\<rparr>"])
      (use t s1 in \<open>simp_all add: on_session_def register_standing_preapproval_def preapprove_tool_def\<close>)
  have standing: "?ok (request_standing env now c g1)"
    using reg fail_ends by (simp add: request_standing_def Let_def answered_def)
  have failed: "?ok (fail_active_turn now msg g)" for msg using fail_ends by (simp add: answered_def)
  show ?thesis
    unfolding execute_call_def g1_def [symmetric] Let_def
    using t(1) by (cases "execute_bound_tool c (ga_session g)") (simp_all add: failed dup standing sent)
qed

lemma effective_cap_bound: "effective_iteration_cap cap t \<le> max STREAK_CAP_CEILING cap"
  by (simp add: effective_iteration_cap_def)

lemma capture_plan_cap: "max STREAK_CAP_CEILING (ss_cap (capture_plan p s)) = max STREAK_CAP_CEILING (ss_cap s)"
  by (auto simp: capture_plan_def Let_def STREAK_CAP_CEILING_def set_active_plan_def on_turn_def max_def min_def split: option.split)

lemma prepared_plain:
  assumes "ss_turn (ga_session g) = Some t" "plain t"
  shows "\<exists>u. ss_turn (ga_session (prepare_answer now plan g)) = Some u \<and> plain u \<and> wt_iteration u = wt_iteration t"
    "max STREAK_CAP_CEILING (ss_cap (ga_session (prepare_answer now plan g))) = max STREAK_CAP_CEILING (ss_cap (ga_session g))"
proof -
  have cp: "\<exists>u. ss_turn (capture_plan p s) = Some u \<and> plain u \<and> wt_iteration u = wt_iteration v"
    if "ss_turn s = Some v" "plain v" for p s v
    using that by (simp add: capture_plan_def Let_def set_active_plan_def on_turn_def plain_def)
  have ph: "ss_turn (set_active_turn_phase Thinking now (ga_session g)) = Some (t\<lparr>wt_phase := Thinking\<rparr>)"
    "plain (t\<lparr>wt_phase := Thinking\<rparr>)"
    using assms by (simp_all add: set_active_turn_phase_def on_turn_def plain_def)
  show "\<exists>u. ss_turn (ga_session (prepare_answer now plan g)) = Some u \<and> plain u \<and> wt_iteration u = wt_iteration t"
    using cp [OF ph] ph by (cases plan) (simp_all add: prepare_answer_def on_session_def)
  show "max STREAK_CAP_CEILING (ss_cap (ga_session (prepare_answer now plan g))) = max STREAK_CAP_CEILING (ss_cap (ga_session g))"
    by (cases plan) (simp_all add: prepare_answer_def on_session_def capture_plan_cap set_active_turn_phase_def on_turn_def)
qed

lemma route_round:
  assumes t: "ss_turn (ga_session g) = Some t" "plain t"
  shows "answered (wt_iteration t) (ss_cap (ga_session g)) (route_tool_call env now c g)"
proof (cases "unconditional_approval_gate c \<noteq> None \<or> force_approval env c (ga_session g)")
  case True
  then show ?thesis using gated_parks [OF True t(1), of now] parks_ends by (auto simp: answered_def)
next
  case False
  then show ?thesis using execute_call_round [OF t(1)] t(2) by (simp add: route_tool_call_def plain_def)
qed

lemma act_round:
  assumes t: "ss_turn (ga_session g) = Some t" "plain t"
  shows "ended (act env now action g)
    \<or> wt_iteration t < max STREAK_CAP_CEILING (ss_cap (ga_session g)) \<and> answered (wt_iteration t) (ss_cap (ga_session g)) (act env now action g)"
proof (cases action)
  case (CallTool c)
  show ?thesis
  proof (cases "forced_stop (ga_session g) t")
    case None
    then have "wt_iteration t < effective_iteration_cap (ss_cap (ga_session g)) t" by (simp add: forced_stop_def Let_def split: if_splits)
    then have "wt_iteration t < max STREAK_CAP_CEILING (ss_cap (ga_session g))"
      using effective_cap_bound [of "ss_cap (ga_session g)" t] by linarith
    then show ?thesis using route_round [OF t] CallTool None t(1) by (simp add: act_def model_tool_call_def)
  next
    case (Some reason)
    then show ?thesis using CallTool t(1) deliver_ends by (simp add: act_def model_tool_call_def)
  qed
next
  case (RequestApproval a)
  have "ended (handle_approval_request env now a False g)"
    using t deliver_ends parks_ends by (simp add: handle_approval_request_def Let_def plain_def parks_def)
  then show ?thesis using RequestApproval by (simp add: act_def)
next
  case (PlanProposal x)
  then show ?thesis
    using t(1) by (simp add: act_def handle_plan_proposal_def ended_def emit_def on_session_def park_active_turn_for_plan_def)
qed (simp_all add: act_def deliver_ends fail_ends)

lemma turn_round_progress:
  assumes t: "ss_turn (ga_session g) = Some t" "plain t"
  shows "ended (turn_round env now model tool t g)
    \<or> (\<exists>m. wt_iteration t < max STREAK_CAP_CEILING m \<and> max STREAK_CAP_CEILING m = max STREAK_CAP_CEILING (ss_cap (ga_session g))
         \<and> goes_on (Suc (wt_iteration t)) m (turn_round env now model tool t g))"
proof -
  let ?g1 = "prepare_answer now (fst (model g)) g"
  let ?h = "handle_model_response env now (wt_id t) (fst (model g)) (snd (model g)) g"
  obtain u where u: "ss_turn (ga_session ?g1) = Some u" "plain u" "wt_iteration u = wt_iteration t"
    using prepared_plain(1) [OF t] by blast
  have h: "?h = act env now (snd (model g)) ?g1"
    using t by (simp add: handle_model_response_def act_def plain_def Let_def)
  define m where "m = ss_cap (ga_session ?g1)"
  have m: "max STREAK_CAP_CEILING m = max STREAK_CAP_CEILING (ss_cap (ga_session g))"
    unfolding m_def by (rule prepared_plain(2) [OF t])
  from act_round [OF u(1,2), of env now "snd (model g)"] have "ended ?h
      \<or> wt_iteration t < max STREAK_CAP_CEILING m \<and> (goes_on (Suc (wt_iteration t)) m ?h \<or> sent_below (wt_iteration t) m ?h)"
    unfolding h u(3) m_def answered_def by blast
  then show ?thesis
  proof (elim disjE conjE)
    assume "ended ?h"
    then show ?thesis by (simp add: turn_round_def waits_for_tool_def ended_def)
  next
    assume lt: "wt_iteration t < max STREAK_CAP_CEILING m" and "goes_on (Suc (wt_iteration t)) m ?h"
    then have "goes_on (Suc (wt_iteration t)) m (turn_round env now model tool t g)"
      by (auto simp: turn_round_def waits_for_tool_def goes_on_def)
    then show ?thesis using lt m by blast
  next
    assume lt: "wt_iteration t < max STREAK_CAP_CEILING m" and s: "sent_below (wt_iteration t) m ?h"
    then obtain v where v: "ss_turn (ga_session ?h) = Some v" "\<not> wt_scripted v" "\<not> wt_awaiting_transcription v"
      "wt_phase v = WaitingTool" "wt_iteration v = wt_iteration t" "ss_cap (ga_session ?h) = m" by (auto simp: sent_below_def)
    then have "turn_round env now model tool t g = handle_tool_result env now (fst (tool ?h)) (snd (tool ?h)) ?h"
      by (simp add: turn_round_def waits_for_tool_def Let_def)
    then show ?thesis
      using tool_result_round [OF v(1,2,3), of env now "fst (tool ?h)" "snd (tool ?h)"] v(5,6) lt m by auto
  qed
qed

text \<open>C12. An agent left to itself finishes a turn that is neither scripted nor waiting for voice: whatever the model answers and whatever the tools return, also if they
  know everything that happened before, the turn is over -- answered, failed, or parked for the operator -- within 51
  rounds, or within one more round than the configured cap if that is above 50.\<close>

theorem unattended_turn_ends:
  assumes "ss_turn (ga_session g) = Some t" "plain t"
  shows "ended (unattended (Suc (max 50 (ss_cap (ga_session g)) - wt_iteration t)) env now model tool g)"
  using assms
proof (induction "max 50 (ss_cap (ga_session g)) - wt_iteration t" arbitrary: g t)
  case 0
  then show ?case
    using turn_round_progress [OF "0.prems", of env now model tool] by (auto simp: STREAK_CAP_CEILING_def)
next
  case (Suc n)
  let ?g = "turn_round env now model tool t g"
  from turn_round_progress [OF Suc.prems, of env now model tool] show ?case
  proof (elim disjE exE conjE)
    assume "ended ?g"
    then have "unattended k env now model tool ?g = ?g" for k by (cases k) (simp_all add: ended_def)
    then show ?case using \<open>ended ?g\<close> Suc.prems(1) by simp
  next
    fix m
    assume m: "max STREAK_CAP_CEILING m = max STREAK_CAP_CEILING (ss_cap (ga_session g))" "goes_on (Suc (wt_iteration t)) m ?g"
    then obtain u where u: "ss_turn (ga_session ?g) = Some u" "plain u" "wt_iteration u = Suc (wt_iteration t)"
      "ss_cap (ga_session ?g) = m" by (auto simp: goes_on_def)
    have n: "n = max 50 (ss_cap (ga_session ?g)) - wt_iteration u"
      using Suc.hyps(2) m(1) u(3,4) by (simp add: STREAK_CAP_CEILING_def)
    have "ended (unattended (Suc n) env now model tool ?g)" using Suc.hyps(1) [OF n u(1,2)] unfolding n [symmetric] .
    moreover have "unattended (Suc (Suc n)) env now model tool g = unattended (Suc n) env now model tool ?g"
      using Suc.prems(1) by (subst unattended.simps(2)) simp
    ultimately show ?case unfolding Suc.hyps(2) [symmetric] by simp
  qed
qed

definition demo_gate_env :: gate_env where
  "demo_gate_env = \<lparr>ge_class = (\<lambda>nm. None), ge_text = demo_text, ge_parse = (\<lambda>x. None), ge_disabled = False, ge_budget = 3,
     ge_fresh = ''id'', ge_task = 0, ge_script = None, ge_offline = False, ge_raw = [], ge_observe = (\<lambda>_ _. None)\<rparr>"

definition demo_gate :: gate where
  "demo_gate = \<lparr>ga_session = demo_session\<lparr>ss_turn := Some (demo_turn ''g'')\<rparr>, ga_log = [], ga_drained = []\<rparr>"

text \<open>A model that calls a tool whatever it is told.\<close>

definition demo_model :: "gate \<Rightarrow> ActivePlan option \<times> AgentAction" where
  "demo_model g = (None, CallTool \<lparr>tc_name = ''approval.request_standing'', tc_args = JObj [(''tool_name'', JStr ''x'')]\<rparr>)"

theorem unattended_turn_ends_witness:
  "ended (unattended 51 demo_gate_env 0 demo_model (\<lambda>g. (\<lparr>tr_name = ''x'', tr_content = ''ok''\<rparr>, False)) demo_gate)"
proof -
  have "ss_turn (ga_session demo_gate) = Some (demo_turn ''g'')" "plain (demo_turn ''g'')"
    "max 50 (ss_cap (ga_session demo_gate)) - wt_iteration (demo_turn ''g'') = 50"
    by (simp_all add: demo_gate_def demo_session_def demo_turn_def plain_def)
  then show ?thesis
    using unattended_turn_ends [of demo_gate "demo_turn ''g''" demo_gate_env 0 demo_model
        "\<lambda>g. (\<lparr>tr_name = ''x'', tr_content = ''ok''\<rparr>, False)"] by simp
qed

subsection \<open>What the gate leaves open\<close>

text \<open>A call that may run once it is decided: its tool is bound, it is not a repetition, and the agent does not run it on
  the spot.\<close>

definition runnable :: "gate_env \<Rightarrow> ToolCall \<Rightarrow> SessionState \<Rightarrow> WorkingTurn \<Rightarrow> bool" where
  "runnable env c s t \<longleftrightarrow> (\<exists>r. execute_bound_tool c s = Inr r) \<and> \<not> already_succeeded (ge_text env) c t
     \<and> tc_name c \<noteq> ''approval.request_standing''"

lemma runnable_cong:
  assumes "ss_routes s' = ss_routes s" "ss_model_tools s' = ss_model_tools s" "ss_toolset s' = ss_toolset s"
    "wt_history t' = wt_history t" "runnable env c s t"
  shows "runnable env c s' t'"
proof -
  have "execute_bound_tool c s' = execute_bound_tool c s"
    unfolding execute_bound_tool_def tool_is_enabled_def assms(1-3) ..
  moreover have "already_succeeded (ge_text env) c t' = already_succeeded (ge_text env) c t"
    by (simp add: already_succeeded_def assms(4))
  ultimately show ?thesis using assms(5) by (simp add: runnable_def)
qed

lemma execute_runnable:
  assumes "ss_turn (ga_session g) = Some t" "runnable env c (ga_session g) t"
  shows "dispatched_calls (execute_call env now c g) = dispatched_calls g @ [c]"
  using assms sends_dispatch [of g c now] by (auto simp: execute_call_def runnable_def Let_def sends_def)

text \<open>An approval runs the parked call, whoever sent the message.\<close>

lemma approval_runs_parked_call:
  assumes parked: "ss_parked_approval (ga_session g) = Some t" "ss_turn (ga_session g) = None" "wt_phase t = WaitingApproval"
    and a: "wt_pending_approval t = Some a" "\<not> scripted_gate a"
    and c: "wt_pending_tool t = Some c" "runnable env c (ga_session g) t"
  shows "dispatched_calls (handle_approval_command env now (Approve None) g) = dispatched_calls g @ [c]"
proof -
  define g1 where "g1 = emit (Replied (ar_response a))
    (on_session (\<lambda>s. set_active_turn_phase Thinking now (clear_pending_approval s)) (restore_for_command g))"
  have s1: "ss_turn (ga_session (restore_for_command g)) = Some t" "pending_decision (ga_session (restore_for_command g)) = Some (Some c, a)"
    using parked a(1) c(1) by (simp_all add: restore_for_command_def on_session_def is_turn_active_def restore_parked_approval_turn_def
        pending_decision_def)
  have "handle_approval_command env now (Approve None) g = execute_call env now c g1"
    using s1 a(2) by (simp add: handle_approval_command_def Let_def g1_def)
  moreover have "dispatched_calls g1 = dispatched_calls g"
    by (simp add: g1_def emit_def on_session_def restore_for_command_def dispatched_calls_def List.map_filter_def)
  moreover have "ss_turn (ga_session g1) = Some (t\<lparr>wt_pending_approval := None, wt_phase := Thinking\<rparr>)"
    using s1(1) by (simp add: g1_def emit_def on_session_def set_active_turn_phase_def clear_pending_approval_def on_turn_def)
  moreover have "runnable env c (ga_session g1) (t\<lparr>wt_pending_approval := None, wt_phase := Thinking\<rparr>)"
    by (rule runnable_cong [OF _ _ _ _ c(2)]) (simp_all add: g1_def emit_def on_session_def restore_for_command_def is_turn_active_def
        restore_parked_approval_turn_def set_active_turn_phase_def clear_pending_approval_def on_turn_def parked)
  ultimately show ?thesis using execute_runnable [of g1] by simp
qed

text \<open>A denial with a note keeps the call pending: if the model then asks for any approval and the session is
  pre-approved, the denied call runs, also one that always needs the operator.\<close>

lemma denied_call_runs:
  assumes parked: "ss_parked_approval (ga_session g) = Some t" "ss_turn (ga_session g) = None" "wt_phase t = WaitingApproval"
    and a: "wt_pending_approval t = Some a"
    and c: "wt_pending_tool t = Some c" "runnable env c (ga_session g) t" "plain (t\<lparr>wt_pending_tool := None\<rparr>)"
    and all: "auto_approve_all (ss_policy (ga_session g))"
  shows "dispatched_calls (handle_model_response env now' (wt_id t) None (RequestApproval r)
    (handle_approval_command env now (Deny (Some msg)) g)) = dispatched_calls g @ [c]"
proof -
  define g1 where "g1 = handle_approval_command env now (Deny (Some msg)) g"
  note defs = g1_def handle_approval_command_def Let_def restore_for_command_def on_session_def is_turn_active_def
    restore_parked_approval_turn_def pending_decision_def resume_turn_with_steering_def set_active_turn_phase_def
    clear_pending_approval_def on_turn_def emit_def dispatched_calls_def List.map_filter_def
  have "\<exists>x. ss_turn (ga_session g1) = Some (t\<lparr>wt_pending_approval := None, wt_content := x, wt_iteration := Suc (wt_iteration t), wt_phase := WaitingModel\<rparr>)"
    using parked a c(1) by (simp add: defs) (rule exI, rule refl)
  moreover have d1: "dispatched_calls g1 = dispatched_calls g"
    and p1: "ss_policy (ga_session g1) = ss_policy (ga_session g)" "ss_routes (ga_session g1) = ss_routes (ga_session g)"
      "ss_model_tools (ga_session g1) = ss_model_tools (ga_session g)" "ss_toolset (ga_session g1) = ss_toolset (ga_session g)"
    using parked a c(1) by (simp_all add: defs)
  ultimately obtain x where x: "ss_turn (ga_session g1) = Some (t\<lparr>wt_pending_approval := None, wt_content := x,
      wt_iteration := Suc (wt_iteration t), wt_phase := WaitingModel\<rparr>)" by blast
  define g2 where "g2 = emit (Replied (ar_response (normalize_approval_request env r)))
    (on_session (\<lambda>s. set_active_turn_phase Thinking now' (clear_pending_approval s)) (prepare_answer now' None g1))"
  have t2: "ss_turn (ga_session g2) = Some (t\<lparr>wt_pending_approval := None, wt_content := x,
      wt_iteration := Suc (wt_iteration t), wt_phase := Thinking\<rparr>)"
    using x by (simp add: g2_def emit_def on_session_def prepare_answer_def set_active_turn_phase_def clear_pending_approval_def on_turn_def)
  have "handle_model_response env now' (wt_id t) None (RequestApproval r) g1 = execute_call env now' c g2"
    using x c all p1(1)
    by (simp add: handle_model_response_def handle_approval_request_def Let_def approval_policy_allows_def prepare_answer_def
        on_session_def set_active_turn_phase_def on_turn_def plain_def g2_def)
  moreover have "dispatched_calls g2 = dispatched_calls g"
    using d1 by (simp add: g2_def emit_def on_session_def prepare_answer_def dispatched_calls_def List.map_filter_def)
  moreover have "runnable env c (ga_session g2) (t\<lparr>wt_pending_approval := None, wt_content := x,
      wt_iteration := Suc (wt_iteration t), wt_phase := Thinking\<rparr>)"
    by (rule runnable_cong [OF _ _ _ _ c(2)]) (simp_all add: g2_def emit_def on_session_def prepare_answer_def
        set_active_turn_phase_def clear_pending_approval_def on_turn_def p1)
  ultimately show ?thesis using execute_runnable [OF t2] by (simp add: g1_def)
qed

text \<open>\<open>/deny\<close> does not reach a parked plan: it is answered as a decision on an approval.\<close>

lemma deny_leaves_plan_parked:
  assumes "normalized_user_content task = Some content" "parse_slash_command (tl_lower (ge_text env)) content = Some (Deny n)"
    "it_action task \<noteq> Some ''plan_continuation''" "it_callback task \<noteq> Some ''trust''"
    "ss_parked_approval (ga_session g) = None" "ss_turn (ga_session g) = None"
  shows "handle_user_message env now tid task g = emit (Replied ''No approval pending.'') g"
  using assms message_command [OF assms(1,2), of g now tid]
  by (simp add: command_bypasses_turn_start_def should_defer_parked_approval_command_def handle_approval_command_def
      restore_for_command_def on_session_def pending_decision_def)

end
