(* ===== verification/AgentCron.thy ===== *)
theory AgentCron
  imports Cron ToolGate
begin

section \<open>From a cron job to an agent's session\<close>

text \<open>
  Puts the cron ticker of a hotel (\<open>Cron\<close>) and the session of an agent (\<open>ToolGate\<close>) together: what the task of a cron
  job brings into the session it reaches (\<open>InboundTaskPayload\<close> of \<^verbatim>\<open>crates/philote/src/protocol.rs\<close>, whose fields default
  when absent).
\<close>

definition inbound_of_json :: "json \<Rightarrow> InboundTask" where
  "inbound_of_json j =
     (let str = (\<lambda>k. Option.bind (jget j k) as_str) in
      \<lparr>it_action = str ''action'', it_turn = str ''turn_id'', it_chat = str ''chat_id'', it_chat_type = str ''chat_type'',
       it_first_name = str ''sender_first_name'', it_username = str ''sender_username'', it_message_kind = str ''message_kind'',
       it_content = str ''content'', it_attachments = [], it_command = str ''command'', it_callback = str ''callback_data'',
       it_paracrine_id = Option.bind (Option.bind (jget j ''exosome'') (\<lambda>x. jget x ''paracrine_id'')) as_str,
       it_requires_approval = (jget j ''requires_approval'' = Some (JBool True)), it_cron_job = str ''cron_job_id'',
       it_cron_tools = (case jget j ''cron_preapproved_tools'' of Some (JArr ts) \<Rightarrow> List.map_filter as_str ts | _ \<Rightarrow> []),
       it_transport = str ''transport'', it_source = str ''source'',
       it_paracrine_signal = (jget j ''paracrine_signal'' \<notin> {None, Some JNull})\<rparr>)"

lemma task_tools_operator: "created_by job \<noteq> Operator \<Longrightarrow> task_tools lib job data = []"
  by (cases "created_by job") (simp_all add: task_tools_def preapproved_tools_def split: option.split)

lemma cron_task_inbound:
  "it_cron_tools (inbound_of_json (build_cron_task lib job epoch node data)) = List.map_filter as_str (task_tools lib job data)"
  using build_routed [of lib job epoch node data]
  by (auto simp: inbound_of_json_def Let_def apply_cron_session_routing_def tbl_get_put List.map_filter_def split: if_splits)

text \<open>C35. From the job to the session: starting a turn for a cron task adds to the session's preapproved tools exactly the
  names the job's payload lists, and only if the operator created the job; everything else of the policy stays.\<close>

theorem cron_fire_seeds_operator_tools:
  "let task = inbound_of_json (build_cron_task lib job epoch node data); p = ss_policy s; p' = ss_policy (seed_cron_tools task s)
   in set (preapproved_names p') = set (preapproved_names p)
        \<union> (if created_by job = Operator \<and> it_cron_job task \<noteq> None then set (List.map_filter as_str (task_tools lib job data)) else {})
      \<and> auto_approve_all p' = auto_approve_all p \<and> preapproved_classes p' = preapproved_classes p"
proof -
  have push: "set (foldl (\<lambda>xs x. push_unique x xs) xs ys) = set xs \<union> set ys" for xs ys :: "string list"
    by (induction ys arbitrary: xs) auto
  show ?thesis
    using task_tools_operator [of job lib data]
    by (cases "created_by job = Operator") (simp_all add: Let_def seed_cron_tools_def cron_task_inbound push List.map_filter_def)
qed

text \<open>The text of a cron task is read like any other message: a job whose message is \<open>/approve\<close> decides the approval that is
  parked in its session, whoever created the job.\<close>

lemma copied_field:
  "k' \<noteq> k \<Longrightarrow> (\<exists>fs. obj = JObj fs) \<Longrightarrow> jget (copy_field src k' obj) k = jget obj k \<and> (\<exists>fs. copy_field src k' obj = JObj fs)"
  by (auto simp: copy_field_def tbl_get_put split: option.split)

lemma message_field:
  assumes "task_content pl = Some c" "k \<notin> {''source'', ''chat_id'', ''session_id'', ''cron_preapproved_tools''}"
  shows "jget (message_task job epoch data pl) k = jget (json_set ''content'' (JStr c) (base_task job epoch (JStr data))) k"
proof -
  let ?o = "json_set ''content'' (JStr c) (base_task job epoch (JStr data))"
  have o: "\<exists>fs. ?o = JObj fs" by (simp add: base_task_def json_object_def)
  note c1 = copied_field [of "''source''" k ?o pl, OF _ o]
  note c2 = copied_field [of "''chat_id''" k "copy_field pl ''source'' ?o" pl]
  note c3 = copied_field [of "''session_id''" k "copy_field pl ''chat_id'' (copy_field pl ''source'' ?o)" pl]
  have "jget (copy_field pl ''session_id'' (copy_field pl ''chat_id'' (copy_field pl ''source'' ?o))) k = jget ?o k
      \<and> (\<exists>fs. copy_field pl ''session_id'' (copy_field pl ''chat_id'' (copy_field pl ''source'' ?o)) = JObj fs)"
    using assms(2) c1 c2 c3 by auto
  then show ?thesis using assms by (auto simp: message_task_def Let_def tbl_get_put)
qed

lemma cron_task_approves:
  assumes "cl_parse lib data = Some pl" "jget pl ''paracrine_signal'' = None" "task_content pl = Some ''/approve''"
  shows "approve_task env (inbound_of_json (build_cron_task lib job epoch node data))"
proof -
  let ?m = "message_task job epoch data pl"
  have f: "jget (build_cron_task lib job epoch node data) k = jget ?m k" if "k \<noteq> ''session_id''" for k
    using assms(1,2) that
    by (cases ?m) (auto simp: build_cron_task_def apply_cron_session_routing_def tbl_get_put)
  have "jget ?m ''content'' = Some (JStr ''/approve'')" "jget ?m ''sender_first_name'' = None" "jget ?m ''sender_username'' = None"
    using message_field [OF assms(3)] by (simp_all add: base_task_def json_object_def tbl_get_put) (simp_all add: tbl_get_def)
  then have "it_content (inbound_of_json (build_cron_task lib job epoch node data)) = Some ''/approve''"
    "it_first_name (inbound_of_json (build_cron_task lib job epoch node data)) = None"
    "it_username (inbound_of_json (build_cron_task lib job epoch node data)) = None"
    by (simp_all add: inbound_of_json_def Let_def f)
  moreover have "trim ''/approve'' = ''/approve''"
    by (simp add: trim_def trim_start_def trim_end_def strip_front.simps match_front_def ws_seqs_def starts_with_def)
  ultimately have "normalized_user_content (inbound_of_json (build_cron_task lib job epoch node data)) = Some ''/approve''"
    by (simp add: normalized_user_content_def Let_def nonempty_def)
  then show ?thesis by (simp add: approve_task_def)
qed

end
