(* ===== verification/ModelOracle.thy ===== *)
theory ModelOracle
  imports Complex_Main HealQueue Histories Tables "HOL-Library.Product_Lexorder"
begin

section \<open>The model oracle\<close>

text \<open>
  Models the health-aware ranking of model providers (\<^verbatim>\<open>crates/ansible-mesh-core/src/model_oracle.rs\<close>), the profiles
  it ranks (\<^verbatim>\<open>graph.rs\<close>, \<^verbatim>\<open>domain/mod.rs\<close>), the hotel's handler of \<open>QueryModelRoute\<close> (\<^verbatim>\<open>crates/aiua/src/service/ipc.rs\<close>)
  and the check of the fallback ladders (\<^verbatim>\<open>model_routing.rs\<close>, \<^verbatim>\<open>crates/aiua/src/main.rs\<close>). Error rates and scores (\<open>f32\<close>)
  are exact rationals: rounding and not-a-number values are left out. The latency average is computed on integers, as
  the \<open>f64\<close> computation is exact below \<open>2^51\<close> milliseconds. What the graph answers (profiles, guests, role
  records) is an argument; a failing profile query is a branch of the handler.
\<close>

subsection \<open>Profiles\<close>

record ModelProfileRecord =
  mp_ref :: string
  mp_node :: string
  mp_provider :: string
  mp_task_kinds :: "string list"
  mp_trust :: string
  mp_max_context :: nat
  mp_latency :: nat
  mp_error :: rat
  mp_status :: string
  mp_last_healthy :: nat
  mp_updated :: nat
  mp_tools :: bool
  mp_structured :: bool
  mp_tier :: string
  mp_failures :: nat

definition default_profile :: ModelProfileRecord where
  "default_profile = \<lparr>mp_ref = [], mp_node = [], mp_provider = [], mp_task_kinds = [], mp_trust = [], mp_max_context = 0,
     mp_latency = 0, mp_error = 0, mp_status = ''healthy'', mp_last_healthy = 0, mp_updated = 0, mp_tools = True,
     mp_structured = True, mp_tier = [], mp_failures = 0\<rparr>"

subsection \<open>Switches read from the environment\<close>

definition DEFAULT_DEGRADE_THRESHOLD :: nat where "DEFAULT_DEGRADE_THRESHOLD = 3"
definition DEFAULT_DEGRADE_COOLOFF_SECS :: nat where "DEFAULT_DEGRADE_COOLOFF_SECS = 300"

definition positive_or :: "nat \<Rightarrow> nat \<Rightarrow> string option \<Rightarrow> nat" where
  "positive_or mx d v =
     (case Option.bind v (parse_unsigned mx) of Some n \<Rightarrow> if n > 0 then n else d | None \<Rightarrow> d)"

definition degrade_threshold_from_env :: "string option \<Rightarrow> nat" where
  "degrade_threshold_from_env = positive_or u32_max DEFAULT_DEGRADE_THRESHOLD"

definition degrade_cooloff_secs_from_env :: "string option \<Rightarrow> nat" where
  "degrade_cooloff_secs_from_env = positive_or u64_max DEFAULT_DEGRADE_COOLOFF_SECS"

definition routing_oracle_disabled :: "string option \<Rightarrow> bool" where
  "routing_oracle_disabled v \<longleftrightarrow> v \<in> set [Some ''1'', Some ''true'', Some ''TRUE'', Some ''yes'', Some ''YES'']"

definition shadow_oracle_agreement :: "(string \<times> string) option \<Rightarrow> string \<Rightarrow> string option \<times> bool option" where
  "shadow_oracle_agreement picked resolved =
     (case picked of
        Some (role, provider) \<Rightarrow> (Some (role @ '':'' @ provider), Some (role = resolved))
      | None \<Rightarrow> (None, None))"

subsection \<open>What a request needs\<close>

datatype LatencyClass = Interactive | Background

definition parse_latency_class :: "string \<Rightarrow> LatencyClass" where
  "parse_latency_class v = (if to_ascii_lowercase v = ''background'' then Background else Interactive)"

record RouteNeed =
  rn_class :: string
  rn_tools :: bool
  rn_structured :: bool
  rn_context :: nat
  rn_latency :: LatencyClass
  rn_ceiling :: string

record RankedModel =
  rm_provider :: string
  rm_ref :: string
  rm_node :: string
  rm_score :: rat
  rm_reasons :: "string list"

definition task_kind_for_request_class :: "string \<Rightarrow> string" where
  "task_kind_for_request_class c =
     (if c = ''embedding'' then ''text.embed'' else if c = ''synthesis'' then ''voice.synthesize'' else ''text.generate'')"

definition trust_tier_rank :: "string \<Rightarrow> nat" where
  "trust_tier_rank t = (if t = ''local_trusted'' then 0 else if t = ''local_experimental'' then 1 else 2)"

definition controller_role_for_provider :: "string \<Rightarrow> string" where
  "controller_role_for_provider p =
     (if p = ''gemini'' then ''model'' else if p = ''onnx'' then ''model.local'' else ''model.'' @ p)"

definition seed_capabilities_for_provider :: "string \<Rightarrow> bool \<times> bool" where
  "seed_capabilities_for_provider p =
     (if p \<in> set [''anthropic'', ''gemini'', ''openai'', ''openrouter''] then (True, True) else (False, False))"

subsection \<open>Ranking\<close>

text \<open>The hard filters: the first scoring notes of an admitted profile, or \<open>None\<close>.\<close>

definition admit :: "RouteNeed \<Rightarrow> nat \<Rightarrow> nat \<Rightarrow> ModelProfileRecord \<Rightarrow> string list option" where
  "admit need now cooloff p =
     (if mp_status p \<in> set [''retired'', ''unavailable''] then None
      else if mp_status p = ''degraded'' \<and> now - mp_updated p < cooloff then None
      else if mp_task_kinds p \<noteq> [] \<and> task_kind_for_request_class (rn_class need) \<notin> set (mp_task_kinds p) then None
      else if trust_tier_rank (mp_trust p) > trust_tier_rank (rn_ceiling need) then None
      else if rn_context need > 0 \<and> mp_max_context p > 0 \<and> rn_context need > mp_max_context p then None
      else if rn_tools need \<and> \<not> mp_tools p then None
      else if rn_structured need \<and> \<not> mp_structured p then None
      else Some (if mp_status p = ''degraded'' then [''degraded_probe''] else []))"

definition recency :: "nat \<Rightarrow> ModelProfileRecord \<Rightarrow> rat \<times> string list" where
  "recency now p =
     (if mp_last_healthy p = 0 then (8/10, [''never_observed_healthy''])
      else let since = now - mp_last_healthy p in
        if since \<le> 600 then (1, []) else if since \<le> 3600 then (9/10, []) else (7/10, [''stale_health'']))"

definition latency_fit :: "LatencyClass \<Rightarrow> nat \<Rightarrow> rat" where
  "latency_fit c p50 =
     (if p50 = 0 then 7/10
      else 1 / (1 + of_nat p50 / (case c of Interactive \<Rightarrow> 2000 | Background \<Rightarrow> 20000)))"

definition tier_fit :: "LatencyClass \<Rightarrow> string \<Rightarrow> rat" where
  "tier_fit c t =
     (case c of
        Interactive \<Rightarrow> if t = ''fast'' then 1 else if t = ''heavy'' then 1/2 else 3/4
      | Background \<Rightarrow> if t = ''heavy'' then 1 else if t = ''fast'' then 85/100 else 3/4)"

definition clamp01 :: "rat \<Rightarrow> rat" where
  "clamp01 x = (if x < 0 then 0 else if x > 1 then 1 else x)"

definition rank_one :: "RouteNeed \<Rightarrow> nat \<Rightarrow> nat \<Rightarrow> ModelProfileRecord \<Rightarrow> RankedModel option" where
  "rank_one need now cooloff p =
     (case admit need now cooloff p of
        None \<Rightarrow> None
      | Some reasons0 \<Rightarrow>
          let (rec, note) = recency now p;
              reasons = reasons0 @ note;
              health = clamp01 (1 - mp_error p) * rec;
              score0 = 1/2 * health + 3/10 * latency_fit (rn_latency need) (mp_latency p)
                       + 2/10 * tier_fit (rn_latency need) (mp_tier p);
              score = (if ''degraded_probe'' \<in> set reasons then score0 * (1/2) else score0)
          in Some \<lparr>rm_provider = mp_provider p, rm_ref = mp_ref p, rm_node = mp_node p, rm_score = score, rm_reasons = reasons\<rparr>)"

definition rank_key :: "RankedModel \<Rightarrow> rat \<times> string \<times> string" where
  "rank_key r = (- rm_score r, rm_provider r, rm_ref r)"

definition rank_models_with :: "ModelProfileRecord list \<Rightarrow> RouteNeed \<Rightarrow> nat \<Rightarrow> nat \<Rightarrow> RankedModel list" where
  "rank_models_with candidates need now cooloff =
     sort_key rank_key (List.map_filter (rank_one need now cooloff) candidates)"

definition rank_models :: "ModelProfileRecord list \<Rightarrow> RouteNeed \<Rightarrow> nat \<Rightarrow> RankedModel list" where
  "rank_models candidates need now = rank_models_with candidates need now DEFAULT_DEGRADE_COOLOFF_SECS"

subsection \<open>The health state machine\<close>

definition apply_model_outcome :: "nat \<Rightarrow> bool \<Rightarrow> nat \<Rightarrow> nat \<Rightarrow> ModelProfileRecord \<Rightarrow> ModelProfileRecord" where
  "apply_model_outcome latency success now threshold p =
     (let q = p\<lparr>mp_latency := (3 * mp_latency p + latency) div 4,
               mp_error := 9/10 * mp_error p + 1/10 * (if success then 0 else 1)\<rparr>;
          r = (if success
               then q\<lparr>mp_failures := 0, mp_last_healthy := now, mp_status := ''healthy''\<rparr>
               else let n = sat_add32 (mp_failures q) 1 in
                 q\<lparr>mp_failures := n,
                   mp_status := (if n \<ge> max threshold 1 \<or> mp_error q > 1/2 then ''degraded'' else mp_status q)\<rparr>)
      in r\<lparr>mp_updated := now\<rparr>)"

subsection \<open>The profile table\<close>

type_synonym profile_table = "(string \<times> ModelProfileRecord) list"

definition model_profile_key :: "string \<Rightarrow> string \<Rightarrow> string" where
  "model_profile_key ref node = ''model_profile:'' @ ref @ '':'' @ node"

definition upsert_model_profile :: "ModelProfileRecord \<Rightarrow> profile_table \<Rightarrow> profile_table" where
  "upsert_model_profile p t = tbl_put (model_profile_key (mp_ref p) (mp_node p)) p t"

definition get_model_profile :: "string \<Rightarrow> string \<Rightarrow> profile_table \<Rightarrow> ModelProfileRecord option" where
  "get_model_profile ref node t = tbl_get t (model_profile_key ref node)"

definition list_model_profiles :: "profile_table \<Rightarrow> ModelProfileRecord list" where
  "list_model_profiles t = map snd t"

definition observe_model_outcome ::
  "string option \<Rightarrow> string \<Rightarrow> string \<Rightarrow> nat \<Rightarrow> bool \<Rightarrow> nat \<Rightarrow> profile_table \<Rightarrow> profile_table" where
  "observe_model_outcome env ref node latency success now t =
     (let p = (case get_model_profile ref node t of
                 Some p \<Rightarrow> p
               | None \<Rightarrow>
                   let (tools, structured) = seed_capabilities_for_provider ref in
                   default_profile\<lparr>mp_ref := ref, mp_node := node, mp_provider := ref, mp_latency := latency,
                     mp_updated := now, mp_tools := tools, mp_structured := structured\<rparr>)
      in upsert_model_profile (apply_model_outcome latency success now (degrade_threshold_from_env env) p) t)"

definition best_model_for :: "string \<Rightarrow> string \<Rightarrow> profile_table \<Rightarrow> ModelProfileRecord list" where
  "best_model_for task node t =
     sort_key (\<lambda>p. (mp_status p \<noteq> ''healthy'', mp_latency p))
       (filter (\<lambda>p. mp_task_kinds p = [] \<or> task \<in> set (mp_task_kinds p))
         (filter (\<lambda>p. mp_node p = node) (list_model_profiles t)))"

subsection \<open>The hotel's handler\<close>

text \<open>A query of the oracle, and what the hotel knows when it answers: the switches, the profiles in the graph, its node
  and the roles of the live guests of the local hotel.\<close>

record route_query =
  rq_class :: string
  rq_tools :: bool
  rq_structured :: bool
  rq_context :: nat
  rq_latency :: string
  rq_ceiling :: string
  rq_exclude :: "string list"

record hotel_routing =
  hr_disabled :: "string option"
  hr_cooloff :: "string option"
  hr_profiles :: "string + ModelProfileRecord list"
  hr_node :: string
  hr_roles :: "string list"
  hr_now :: nat

record route_entry =
  re_role :: string
  re_provider :: string
  re_ref :: string
  re_score :: rat
  re_reasons :: "string list"

datatype route_reply = RouteRefused string | RouteRanked "route_entry list" bool

fun route_entries :: "string list \<Rightarrow> string list \<Rightarrow> RankedModel list \<Rightarrow> route_entry list" where
  "route_entries roles seen [] = []"
| "route_entries roles seen (r # rs) =
     (let role = controller_role_for_provider (rm_provider r) in
      if role \<notin> set roles \<or> role \<in> set seen then route_entries roles seen rs
      else \<lparr>re_role = role, re_provider = rm_provider r, re_ref = rm_ref r, re_score = rm_score r, re_reasons = rm_reasons r\<rparr>
           # route_entries roles (role # seen) rs)"

definition route_candidates :: "string \<Rightarrow> ModelProfileRecord list \<Rightarrow> ModelProfileRecord list" where
  "route_candidates node profiles =
     (let here = filter (\<lambda>p. mp_node p = node) profiles in if here = [] then profiles else here)"

definition need_of_query :: "route_query \<Rightarrow> RouteNeed" where
  "need_of_query rq = \<lparr>rn_class = rq_class rq, rn_tools = rq_tools rq, rn_structured = rq_structured rq,
     rn_context = rq_context rq, rn_latency = parse_latency_class (rq_latency rq), rn_ceiling = rq_ceiling rq\<rparr>"

definition ranked_entries :: "hotel_routing \<Rightarrow> route_query \<Rightarrow> ModelProfileRecord list \<Rightarrow> route_entry list" where
  "ranked_entries h rq profiles =
     take 3 (route_entries (hr_roles h) []
       (filter (\<lambda>r. rm_provider r \<notin> set (rq_exclude rq))
         (rank_models_with (route_candidates (hr_node h) profiles) (need_of_query rq) (hr_now h)
            (degrade_cooloff_secs_from_env (hr_cooloff h)))))"

definition reroute_text :: "route_query \<Rightarrow> string \<Rightarrow> string" where
  "reroute_text rq target =
     ''[model-oracle] reroute '' @ join '','' (rq_exclude rq) @ '' -> '' @ target
     @ '' (fallback ladder exhausted, request_class='' @ rq_class rq @ '')''"

text \<open>A heal queue that cannot store the entry leaves the answer as it is.\<close>

definition note_reroute :: "(string \<Rightarrow> string) \<Rightarrow> string \<Rightarrow> hotel_routing \<Rightarrow> route_query \<Rightarrow> string \<Rightarrow> heal_queue \<Rightarrow> heal_queue" where
  "note_reroute tbl fresh h rq target q =
     (case push_error_at tbl q ''model-oracle'' (reroute_text rq target) (int (hr_now h)) fresh of
        Inl e \<Rightarrow> q
      | Inr (q', rid) \<Rightarrow> update_triage q' rid ''info'' ''oracle_reroute'' ''oracle_reroute'')"

definition handle_query_model_route ::
  "(string \<Rightarrow> string) \<Rightarrow> string \<Rightarrow> hotel_routing \<Rightarrow> route_query \<Rightarrow> heal_queue option \<Rightarrow> route_reply \<times> heal_queue option" where
  "handle_query_model_route tbl fresh h rq hq =
     (if routing_oracle_disabled (hr_disabled h) then (RouteRanked [] True, hq)
      else case hr_profiles h of
        Inl e \<Rightarrow> (RouteRefused ''STORAGE_ERROR'', hq)
      | Inr profiles \<Rightarrow>
          let entries = ranked_entries h rq profiles in
          (RouteRanked entries False,
           (case entries of
              e # es \<Rightarrow> if rq_exclude rq \<noteq> [] then map_option (note_reroute tbl fresh h rq (re_provider e)) hq else hq
            | [] \<Rightarrow> hq)))"

text \<open>The answer on the wire. The scores are left out: no client reads them.\<close>

definition entry_json :: "route_entry \<Rightarrow> json" where
  "entry_json e = JObj [(''role'', JStr (re_role e)), (''provider'', JStr (re_provider e)), (''model_ref'', JStr (re_ref e)),
     (''reasons'', JArr (map JStr (re_reasons e)))]"

fun reply_data :: "route_reply \<Rightarrow> json option" where
  "reply_data (RouteRefused code) = None"
| "reply_data (RouteRanked es disabled) = Some (JObj [(''ranked'', JArr (map entry_json es)), (''disabled'', JBool disabled)])"

subsection \<open>Fallback ladders\<close>

definition DEFAULT_FALLBACK_TIERS :: "string list" where
  "DEFAULT_FALLBACK_TIERS = [''model'', ''model.openrouter'', ''model.ollama'']"

record UnreachableTier =
  ut_ladder :: string
  ut_role :: string

fun unreachable_tiers :: "string list \<Rightarrow> (string \<times> string) list \<Rightarrow> (string \<times> string) list \<Rightarrow> UnreachableTier list" where
  "unreachable_tiers live seen [] = []"
| "unreachable_tiers live seen ((label, tier) # rest) =
     (if tier \<in> set live \<or> (label, tier) \<in> set seen then unreachable_tiers live seen rest
      else \<lparr>ut_ladder = label, ut_role = tier\<rparr> # unreachable_tiers live ((label, tier) # seen) rest)"

definition validate_fallback_ladders :: "string list \<Rightarrow> (string \<times> string list) list \<Rightarrow> UnreachableTier list" where
  "validate_fallback_ladders live ladders =
     unreachable_tiers live [] (concat (map (\<lambda>(label, tiers). map (Pair label) tiers) ladders))"

text \<open>The ladders in play: the default one and the configured ones of the role records (agent, role, tiers); a failing
  query of the records leaves the default ladder.\<close>

definition fallback_ladders :: "(string \<times> string \<times> string list) list option \<Rightarrow> (string \<times> string list) list" where
  "fallback_ladders recs =
     (''default fallback ladder'', DEFAULT_FALLBACK_TIERS)
     # map (\<lambda>(agent, role, tiers). (''role:'' @ agent @ '':'' @ role, tiers))
         (filter (\<lambda>(agent, role, tiers). tiers \<noteq> []) (case recs of Some rs \<Rightarrow> rs | None \<Rightarrow> []))"

definition quoted :: "string \<Rightarrow> string" where
  "quoted x = CHR 0x27 # x @ [CHR 0x27]"

definition em_dash :: string where
  "em_dash = [CHR 0x20, CHR 0xE2, CHR 0x80, CHR 0x94, CHR 0x20]"

definition ladder_gap_text :: "string \<Rightarrow> UnreachableTier \<Rightarrow> string" where
  "ladder_gap_text hotel u =
     ''model-routing: fallback ladder '' @ quoted (ut_ladder u) @ '' names tier '' @ quoted (ut_role u)
     @ '' with no seeded+active controller on hotel '' @ quoted hotel @ em_dash
     @ ''turns escalating to this tier target a void (seed a controller or remove the tier)''"

text \<open>The check at startup: one entry of the heal queue per unreachable tier. \<open>fresh\<close> gives the row ids.\<close>

definition push_gap :: "(string \<Rightarrow> string) \<Rightarrow> string \<Rightarrow> nat \<Rightarrow> heal_queue \<Rightarrow> UnreachableTier \<times> string \<Rightarrow> heal_queue" where
  "push_gap tbl hotel now q f =
     (case push_error_at tbl q ''model-routing-validation'' (ladder_gap_text hotel (fst f)) (int now) (snd f) of
        Inl e \<Rightarrow> q | Inr (q', rid) \<Rightarrow> q')"

definition validate_hotel_fallback_ladders ::
  "(string \<Rightarrow> string) \<Rightarrow> (nat \<Rightarrow> string) \<Rightarrow> string \<Rightarrow> nat \<Rightarrow> string list option \<Rightarrow> (string \<times> string \<times> string list) list option
   \<Rightarrow> heal_queue option \<Rightarrow> UnreachableTier list \<times> heal_queue option" where
  "validate_hotel_fallback_ladders tbl fresh hotel now guests recs hq =
     (case guests of
        None \<Rightarrow> ([], hq)
      | Some live \<Rightarrow>
          let fs = validate_fallback_ladders live (fallback_ladders recs)
          in (fs, map_option (\<lambda>q. foldl (push_gap tbl hotel now) q (zip fs (map fresh [0..<length fs]))) hq))"

subsection \<open>The ranking\<close>

lemma clamp01_range: "0 \<le> clamp01 x" "clamp01 x \<le> 1"
  by (simp_all add: clamp01_def)

lemma recency_range: "0 \<le> fst (recency now p)" "fst (recency now p) \<le> 1"
  by (simp_all add: recency_def Let_def)

lemma latency_fit_range: "0 \<le> latency_fit c n" "latency_fit c n \<le> 1"
  by (cases c; simp add: latency_fit_def divide_simps)+

lemma tier_fit_range: "0 \<le> tier_fit c t" "tier_fit c t \<le> 1"
  by (cases c; simp add: tier_fit_def)+

lemma rank_one_SomeD:
  assumes "rank_one need now cooloff p = Some r"
  shows "admit need now cooloff p \<noteq> None \<and> rm_provider r = mp_provider p \<and> rm_ref r = mp_ref p \<and> rm_node r = mp_node p
    \<and> 0 \<le> rm_score r \<and> rm_score r \<le> 1"
proof -
  obtain a x n where a: "admit need now cooloff p = Some a" and x: "recency now p = (x, n)"
    using assms by (cases "recency now p") (auto simp: rank_one_def split: option.splits)
  define h where "h = clamp01 (1 - mp_error p) * x"
  have "0 \<le> x" "x \<le> 1"
    using recency_range [of now p] x by simp_all
  then have h: "0 \<le> h" "h \<le> 1"
    using clamp01_range [of "1 - mp_error p"] by (simp_all add: h_def mult_le_one)
  then show ?thesis
    using assms a x latency_fit_range [of "rn_latency need" "mp_latency p"] tier_fit_range [of "rn_latency need" "mp_tier p"]
    by (auto simp: rank_one_def Let_def h_def [symmetric] split: if_splits)
qed

lemma rank_one_None: "rank_one need now cooloff p = None \<longleftrightarrow> admit need now cooloff p = None"
  by (auto simp: rank_one_def Let_def split: option.splits prod.splits)

lemma set_map_filter_iff: "r \<in> set (List.map_filter f xs) \<longleftrightarrow> (\<exists>x \<in> set xs. f x = Some r)"
  by (force simp: List.map_filter_def)

lemma set_ranked:
  "r \<in> set (rank_models_with ps need now cooloff) \<longleftrightarrow> (\<exists>p \<in> set ps. rank_one need now cooloff p = Some r)"
  by (simp add: rank_models_with_def set_map_filter_iff)

lemma length_ranked: "length (rank_models_with ps need now cooloff) = length (filter (\<lambda>p. admit need now cooloff p \<noteq> None) ps)"
  by (simp add: rank_models_with_def List.map_filter_def o_def rank_one_None del: not_None_eq)

text \<open>The ranking holds one entry per profile that passes the hard filters, each with a score between 0 and 1, in
  descending order of score with ties in the order of provider and model.\<close>

theorem ranking_is_sound:
  "sorted (map rank_key (rank_models_with ps need now cooloff))
   \<and> length (rank_models_with ps need now cooloff) = length (filter (\<lambda>p. admit need now cooloff p \<noteq> None) ps)
   \<and> list_all (\<lambda>r. 0 \<le> rm_score r \<and> rm_score r \<le> 1
        \<and> list_ex (\<lambda>p. admit need now cooloff p \<noteq> None \<and> mp_provider p = rm_provider r \<and> mp_ref p = rm_ref r) ps)
      (rank_models_with ps need now cooloff)"
proof (intro conjI)
  show "sorted (map rank_key (rank_models_with ps need now cooloff))"
    by (simp add: rank_models_with_def)
  show "length (rank_models_with ps need now cooloff) = length (filter (\<lambda>p. admit need now cooloff p \<noteq> None) ps)"
    by (rule length_ranked)
  show "list_all (\<lambda>r. 0 \<le> rm_score r \<and> rm_score r \<le> 1
        \<and> list_ex (\<lambda>p. admit need now cooloff p \<noteq> None \<and> mp_provider p = rm_provider r \<and> mp_ref p = rm_ref r) ps)
      (rank_models_with ps need now cooloff)"
    using rank_one_SomeD by (fastforce simp: list_all_iff list_ex_iff set_ranked)
qed

subsection \<open>Health\<close>

type_synonym dispatch_outcome = "nat \<times> bool \<times> nat"

fun health_step :: "nat \<Rightarrow> ModelProfileRecord \<Rightarrow> dispatch_outcome \<Rightarrow> ModelProfileRecord" where
  "health_step threshold p (latency, success, t) = apply_model_outcome latency success t threshold p"

definition failed_outcome :: "dispatch_outcome \<Rightarrow> bool" where
  "failed_outcome e \<longleftrightarrow> \<not> fst (snd e)"

lemma outcome_failure:
  "mp_failures (apply_model_outcome l False t k p) = sat_add32 (mp_failures p) 1"
  "mp_updated (apply_model_outcome l s t k p) = t"
  "max k 1 \<le> sat_add32 (mp_failures p) 1 \<Longrightarrow> mp_status (apply_model_outcome l False t k p) = ''degraded''"
  by (simp_all add: apply_model_outcome_def Let_def)

lemma sat_add32_grow: "min u32_max n \<le> a \<Longrightarrow> min u32_max (Suc n) \<le> sat_add32 a 1"
  by (auto simp: sat_add32_def)

lemma failures_counted:
  "list_all failed_outcome fs \<Longrightarrow> min u32_max (length fs) \<le> mp_failures (foldl (health_step k) p fs)"
proof (induction fs rule: rev_induct)
  case (snoc e fs)
  obtain l s t where e: "e = (l, s, t)" by (cases e)
  have "min u32_max (length fs) \<le> mp_failures (foldl (health_step k) p fs)"
    using snoc by simp
  then show ?case
    using snoc.prems sat_add32_grow by (simp add: e failed_outcome_def outcome_failure)
qed simp

lemma failing_run:
  assumes "list_all failed_outcome fs" "max k 1 \<le> length fs" "k \<le> u32_max"
  shows "mp_status (foldl (health_step k) p fs) = ''degraded''"
    and "mp_updated (foldl (health_step k) p fs) = snd (snd (List.last fs))"
proof -
  obtain es e where fs: "fs = es @ [e]"
    using assms(2) by (cases fs rule: rev_cases) auto
  obtain l s t where e: "e = (l, s, t)" by (cases e)
  have "min u32_max (length es) \<le> mp_failures (foldl (health_step k) p es)"
    using assms(1) fs by (intro failures_counted) simp
  then have "min u32_max (length fs) \<le> sat_add32 (mp_failures (foldl (health_step k) p es)) 1"
    using sat_add32_grow fs by simp
  then have "max k 1 \<le> sat_add32 (mp_failures (foldl (health_step k) p es)) 1"
    using assms(2,3) by (auto simp: min_def split: if_splits)
  then show "mp_status (foldl (health_step k) p fs) = ''degraded''"
    "mp_updated (foldl (health_step k) p fs) = snd (snd (List.last fs))"
    using assms(1) by (simp_all add: fs e failed_outcome_def outcome_failure)
qed

text \<open>Once a provider's last outcomes are as many failures as the threshold, whatever went before, the oracle does not
  rank its profile until the cool-off since the last failure has passed; the first success afterwards makes the
  profile healthy again and resets the count.\<close>

theorem failing_provider_leaves_ranking:
  assumes "list_all failed_outcome fs" "max threshold 1 \<le> length fs" "threshold \<le> u32_max"
  shows "(admit need now cooloff (foldl (health_step threshold) p (es @ fs)) = None
          \<or> cooloff \<le> now - snd (snd (List.last fs)))
    \<and> mp_status (health_step threshold (foldl (health_step threshold) p (es @ fs)) (l, True, t)) = ''healthy''
    \<and> mp_failures (health_step threshold (foldl (health_step threshold) p (es @ fs)) (l, True, t)) = 0"
  using failing_run [OF assms, of "foldl (health_step threshold) p es"]
  by (auto simp: admit_def apply_model_outcome_def Let_def)

theorem failing_provider_leaves_ranking_witness:
  "admit \<lparr>rn_class = ''cognitive'', rn_tools = True, rn_structured = True, rn_context = 0, rn_latency = Interactive,
      rn_ceiling = ''remote_cloud''\<rparr> 400 300
     (foldl (health_step 2) default_profile ([(10, True, 100)] @ [(10, False, 200), (10, False, 300)])) = None"
  using failing_provider_leaves_ranking [of "[(10, False, 200), (10, False, 300)]" 2
      "\<lparr>rn_class = ''cognitive'', rn_tools = True, rn_structured = True, rn_context = 0, rn_latency = Interactive,
        rn_ceiling = ''remote_cloud''\<rparr>" 400 300 default_profile "[(10, True, 100)]" 10 0]
  by (simp add: failed_outcome_def)

subsection \<open>The profile table keeps its form\<close>

definition profile_ok :: "string \<times> ModelProfileRecord \<Rightarrow> bool" where
  "profile_ok kp \<longleftrightarrow> fst kp = model_profile_key (mp_ref (snd kp)) (mp_node (snd kp))
     \<and> 0 \<le> mp_error (snd kp) \<and> mp_error (snd kp) \<le> 1 \<and> mp_failures (snd kp) \<le> u32_max"

definition profiles_wf :: "profile_table \<Rightarrow> bool" where
  "profiles_wf t \<longleftrightarrow> tbl_wf t \<and> list_all profile_ok t"

lemma tbl_put_rows: "set (tbl_put k n t) \<subseteq> insert (k, n) (set t)"
  by (induction k n t rule: tbl_put.induct) auto

lemma outcome_keeps [simp]:
  "mp_ref (apply_model_outcome l s t k p) = mp_ref p" "mp_node (apply_model_outcome l s t k p) = mp_node p"
  by (simp_all add: apply_model_outcome_def Let_def)

lemma profile_ok_outcome: "profile_ok (key, p) \<Longrightarrow> profile_ok (key, apply_model_outcome l s t k p)"
  by (auto simp: profile_ok_def apply_model_outcome_def Let_def)

lemma profiles_wf_upsert:
  "profiles_wf t \<Longrightarrow> profile_ok (model_profile_key (mp_ref p) (mp_node p), p) \<Longrightarrow> profiles_wf (upsert_model_profile p t)"
  using tbl_put_rows [of "model_profile_key (mp_ref p) (mp_node p)" p t]
  by (auto simp: profiles_wf_def upsert_model_profile_def tbl_wf_put list_all_iff)

lemma profile_found:
  assumes "profiles_wf t" "get_model_profile ref node t = Some p"
  shows "profile_ok (model_profile_key (mp_ref p) (mp_node p), p)"
proof -
  have "(model_profile_key ref node, p) \<in> set t"
    using assms(2) by (auto simp: get_model_profile_def tbl_get_def dest: map_of_SomeD)
  then show ?thesis
    using assms(1) by (auto simp: profiles_wf_def list_all_iff profile_ok_def)
qed

lemma profiles_wf_observe:
  assumes "profiles_wf t"
  shows "profiles_wf (observe_model_outcome env ref node l s now t)"
proof -
  define p where "p = (case get_model_profile ref node t of
                 Some p \<Rightarrow> p
               | None \<Rightarrow>
                   let (tools, structured) = seed_capabilities_for_provider ref in
                   default_profile\<lparr>mp_ref := ref, mp_node := node, mp_provider := ref, mp_latency := l,
                     mp_updated := now, mp_tools := tools, mp_structured := structured\<rparr>)"
  have "profile_ok (model_profile_key (mp_ref p) (mp_node p), p)"
    using profile_found [OF assms]
    by (auto simp: p_def profile_ok_def default_profile_def seed_capabilities_for_provider_def Let_def split: option.splits)
  then show ?thesis
    using assms by (auto simp: observe_model_outcome_def p_def [symmetric] Let_def intro!: profiles_wf_upsert profile_ok_outcome)
qed

datatype observation = Observed string string nat bool nat

fun observe_step :: "string option \<Rightarrow> profile_table \<Rightarrow> observation \<Rightarrow> profile_table" where
  "observe_step env t (Observed ref node l s now) = observe_model_outcome env ref node l s now t"

interpretation health: history "observe_step env" profiles_wf "\<lambda>e. True"
proof
  fix t e assume "profiles_wf t"
  then show "profiles_wf (observe_step env t e)"
    by (cases e) (simp add: profiles_wf_observe)
qed

text \<open>C40. Whatever outcomes the router reports, the profile table stays well formed: its rows are in key order without
  duplicates, each row is stored under the key of its own model and node, every error rate is between 0 and 1 and every
  failure count fits its 32 bits.\<close>

theorem profile_table_well_formed: "profiles_wf (foldl (observe_step env) [] obs)"
  by (rule health.inv_run) (simp_all add: profiles_wf_def tbl_wf_def list_all_iff)

subsection \<open>The answer to a query\<close>

lemma route_entries_spec:
  "e \<in> set (route_entries roles seen rs) \<Longrightarrow>
     re_role e \<in> set roles \<and> re_role e = controller_role_for_provider (re_provider e) \<and> re_provider e \<in> rm_provider ` set rs"
proof (induction rs arbitrary: seen)
  case (Cons r rs)
  show ?case
  proof (cases "e \<in> (\<Union>s. set (route_entries roles s rs))")
    case True
    then obtain s where "e \<in> set (route_entries roles s rs)" by blast
    from Cons.IH [OF this] show ?thesis by auto
  next
    case False
    then show ?thesis using Cons.prems by (auto simp: Let_def split: if_splits)
  qed
qed simp

lemma route_entries_distinct:
  "distinct (map re_role (route_entries roles seen rs)) \<and> re_role ` set (route_entries roles seen rs) \<inter> set seen = {}"
proof (induction rs arbitrary: seen)
  case (Cons r rs)
  let ?role = "controller_role_for_provider (rm_provider r)"
  show ?case using Cons.IH [of seen] Cons.IH [of "?role # seen"] by (auto simp: Let_def)
qed simp

lemma ranked_entries_spec:
  assumes "e \<in> set (ranked_entries h rq ps)"
  shows "re_role e \<in> set (hr_roles h)" "re_role e = controller_role_for_provider (re_provider e)"
    "re_provider e \<notin> set (rq_exclude rq)"
    "\<exists>p \<in> set ps. mp_provider p = re_provider e \<and> admit (need_of_query rq) (hr_now h) (degrade_cooloff_secs_from_env (hr_cooloff h)) p \<noteq> None"
proof -
  let ?rs = "rank_models_with (route_candidates (hr_node h) ps) (need_of_query rq) (hr_now h) (degrade_cooloff_secs_from_env (hr_cooloff h))"
  have "e \<in> set (route_entries (hr_roles h) [] (filter (\<lambda>r. rm_provider r \<notin> set (rq_exclude rq)) ?rs))"
    using assms by (auto simp: ranked_entries_def dest: in_set_takeD)
  note spec = route_entries_spec [OF this]
  then have e: "re_role e \<in> set (hr_roles h)" "re_role e = controller_role_for_provider (re_provider e)"
    by blast+
  have "re_provider e \<in> rm_provider ` set (filter (\<lambda>r. rm_provider r \<notin> set (rq_exclude rq)) ?rs)"
    using spec by blast
  then obtain r where r: "r \<in> set ?rs" "rm_provider r = re_provider e" and x: "re_provider e \<notin> set (rq_exclude rq)"
    by auto
  show "re_role e \<in> set (hr_roles h)" "re_role e = controller_role_for_provider (re_provider e)"
    "re_provider e \<notin> set (rq_exclude rq)"
    by (fact e x)+
  obtain p where "p \<in> set (route_candidates (hr_node h) ps)"
    "rank_one (need_of_query rq) (hr_now h) (degrade_cooloff_secs_from_env (hr_cooloff h)) p = Some r"
    using r by (auto simp: set_ranked)
  then show "\<exists>p \<in> set ps. mp_provider p = re_provider e \<and> admit (need_of_query rq) (hr_now h) (degrade_cooloff_secs_from_env (hr_cooloff h)) p \<noteq> None"
    using rank_one_SomeD r(2) by (fastforce simp: route_candidates_def Let_def split: if_splits)
qed

lemma ranked_entries_few: "length (ranked_entries h rq ps) \<le> 3" "distinct (map re_role (ranked_entries h rq ps))"
  using route_entries_distinct by (auto simp: ranked_entries_def take_map [symmetric] intro: distinct_take)

subsection \<open>Ladders\<close>

lemma unreachable_iff:
  "u \<in> set (unreachable_tiers live seen ts) \<longleftrightarrow>
     (ut_ladder u, ut_role u) \<in> set ts \<and> ut_role u \<notin> set live \<and> (ut_ladder u, ut_role u) \<notin> set seen"
  by (induction live seen ts rule: unreachable_tiers.induct) auto

lemma unreachable_distinct: "distinct (unreachable_tiers live seen ts)"
  by (induction live seen ts rule: unreachable_tiers.induct) (auto simp: unreachable_iff)

text \<open>The startup check names every tier of every ladder in play that no live guest serves, each once, and nothing
  else.\<close>

theorem ladder_check_exact:
  "distinct (validate_fallback_ladders live ladders)
   \<and> (u \<in> set (validate_fallback_ladders live ladders) \<longleftrightarrow>
        (\<exists>tiers. (ut_ladder u, tiers) \<in> set ladders \<and> ut_role u \<in> set tiers) \<and> ut_role u \<notin> set live)"
  by (fastforce simp: validate_fallback_ladders_def unreachable_iff unreachable_distinct)

end
