(* ===== verification/ModelCatalog.thy ===== *)
theory ModelCatalog
  imports ModelOracle
begin

section \<open>The model catalogue\<close>

text \<open>
  Models the discovery of a provider's models (\<^verbatim>\<open>crates/ansible-mesh-core/src/model_catalog_discovery.rs\<close>: the OpenRouter
  listing and the difference of two snapshots), the mapping of a change onto the routing (\<^verbatim>\<open>model_routing.rs\<close>) and one
  pass of the hotel's catalogue sync (\<^verbatim>\<open>crates/aiua/src/service/model_catalog_sync.rs\<close>). The listing arrives deserialised,
  as the typed records of the source; the costs per million tokens, which no decision reads, are left out.
\<close>

subsection \<open>Discovered models\<close>

record OpenRouterModel =
  or_id :: string
  or_name :: "string option"
  or_context :: "nat option"
  or_arch :: "(string list \<times> string list) option"
  or_parameters :: "string list"
  or_reasoning :: "bool option option"

record DiscoveredModel =
  dm_provider :: string
  dm_family :: string
  dm_ref :: string
  dm_provider_ref :: string
  dm_name :: "string option"
  dm_context :: "nat option"
  dm_modalities :: "string list"
  dm_reasoning :: "bool option"
  dm_tools :: "bool option"
  dm_task_kinds :: "string list"
  dm_hint :: "string option"
  dm_source :: string
  dm_fetched :: "nat option"

definition dm_key :: "DiscoveredModel \<Rightarrow> string \<times> string" where
  "dm_key m = (dm_provider m, dm_ref m)"

definition output_has :: "OpenRouterModel \<Rightarrow> string \<Rightarrow> bool" where
  "output_has m k = (case or_arch m of Some (ins, outs) \<Rightarrow> k \<in> set outs | None \<Rightarrow> False)"

definition discovered :: "nat option \<Rightarrow> OpenRouterModel \<Rightarrow> DiscoveredModel" where
  "discovered fetched m =
     \<lparr>dm_provider = ''openrouter'', dm_family = ''openrouter-hosted'', dm_ref = or_id m, dm_provider_ref = or_id m,
      dm_name = or_name m, dm_context = or_context m,
      dm_modalities = (case or_arch m of
          Some (ins, outs) \<Rightarrow> foldl (\<lambda>xs x. if x \<in> set xs then xs else xs @ [x]) [] (ins @ outs) | None \<Rightarrow> []),
      dm_reasoning = (case Option.bind (or_reasoning m) (\<lambda>r. r) of
          Some v \<Rightarrow> Some v
        | None \<Rightarrow> if ''reasoning'' \<in> set (or_parameters m) then Some False else None),
      dm_tools = (if or_parameters m = [] then None else Some (''tools'' \<in> set (or_parameters m))),
      dm_task_kinds = (if output_has m ''text'' then [''text.generate''] else [])
                      @ (if output_has m ''image'' then [''image.generate''] else []),
      dm_hint = None, dm_source = ''https://openrouter.ai/api/v1/models'', dm_fetched = fetched\<rparr>"

definition parse_openrouter_models :: "OpenRouterModel list option \<Rightarrow> nat option \<Rightarrow> DiscoveredModel list option" where
  "parse_openrouter_models body fetched = map_option (map (discovered fetched)) body"

subsection \<open>Differences\<close>

datatype CatalogDiffKind = Added | Removed | ReasoningChanged | ContextChanged

text \<open>The event without its free text \<open>detail\<close>.\<close>

record CatalogDiffEvent =
  ce_kind :: CatalogDiffKind
  ce_provider :: string
  ce_ref :: string
  ce_reasoning :: "bool option"

definition diff_event :: "CatalogDiffKind \<Rightarrow> bool option \<Rightarrow> DiscoveredModel \<Rightarrow> CatalogDiffEvent" where
  "diff_event k reasoning m = \<lparr>ce_kind = k, ce_provider = dm_provider m, ce_ref = dm_ref m, ce_reasoning = reasoning\<rparr>"

text \<open>The hash map collected from a listing keeps the last model of a key.\<close>

definition key_map :: "DiscoveredModel list \<Rightarrow> string \<times> string \<Rightarrow> DiscoveredModel option" where
  "key_map ms = map_of (rev (map (\<lambda>m. (dm_key m, m)) ms))"

definition listed_event :: "DiscoveredModel list \<Rightarrow> DiscoveredModel \<Rightarrow> CatalogDiffEvent list" where
  "listed_event old m =
     (case key_map old (dm_key m) of
        None \<Rightarrow> [diff_event Added (dm_reasoning m) m]
      | Some p \<Rightarrow> (if dm_reasoning p \<noteq> dm_reasoning m then [diff_event ReasoningChanged (dm_reasoning m) m] else [])
                  @ (if dm_context p \<noteq> dm_context m then [diff_event ContextChanged (dm_reasoning m) m] else []))"

definition diff_catalog :: "DiscoveredModel list \<Rightarrow> DiscoveredModel list \<Rightarrow> CatalogDiffEvent list" where
  "diff_catalog old new =
     concat (map (listed_event old) new)
     @ concat (map (\<lambda>m. if key_map new (dm_key m) = None then [diff_event Removed None m] else []) old)"

subsection \<open>Impact on routing\<close>

record ProviderRouting =
  pv_provider :: string
  pv_roles :: "string list"
  pv_default :: "string option"

record RoutingImpact =
  im_provider :: string
  im_matched :: string
  im_ladders :: "string list"

definition model_ref_matches :: "string \<Rightarrow> string \<Rightarrow> bool" where
  "model_ref_matches a b \<longleftrightarrow> a = b \<or> List.last (split_on (CHR ''/'') a) = List.last (split_on (CHR ''/'') b)"

definition routing_impact_for_model ::
  "string \<Rightarrow> ProviderRouting list \<Rightarrow> (string \<times> string list) list \<Rightarrow> RoutingImpact list" where
  "routing_impact_for_model changed providers ladders =
     List.map_filter (\<lambda>p. case pv_default p of
         None \<Rightarrow> None
       | Some d \<Rightarrow>
           if \<not> model_ref_matches d changed then None
           else Some \<lparr>im_provider = pv_provider p, im_matched = d,
                      im_ladders = map fst (filter (\<lambda>(label, tiers). \<exists>tier \<in> set tiers. tier \<in> set (pv_roles p)) ladders)\<rparr>)
       providers"

definition routing_relevant :: "CatalogDiffEvent \<Rightarrow> bool" where
  "routing_relevant ev \<longleftrightarrow> ce_kind ev = Removed \<or> (ce_kind ev = ReasoningChanged \<and> ce_reasoning ev = Some True)"

definition heal_text :: "CatalogDiffEvent \<Rightarrow> string option" where
  "heal_text ev =
     (case ce_kind ev of
        Removed \<Rightarrow> Some (''model-catalog: provider '' @ quoted (ce_provider ev) @ '' RETIRED model '' @ quoted (ce_ref ev)
                     @ em_dash @ ''any routing or config referencing it will now fail'')
      | ReasoningChanged \<Rightarrow>
          if ce_reasoning ev = Some True
          then Some (''model-catalog: model '' @ quoted (ce_provider ev @ ''/'' @ ce_ref ev) @ '' now reasons by default (thinking)''
                     @ em_dash @ ''verify the controller handles thinking streams before routing text turns to it'')
          else None
      | _ \<Rightarrow> None)"

definition routing_impact_text :: "CatalogDiffEvent \<Rightarrow> RoutingImpact \<Rightarrow> string" where
  "routing_impact_text ev im =
     ''model-catalog ROUTING IMPACT: provider '' @ quoted (ce_provider ev) @ '' ''
     @ (if ce_kind ev = Removed then ''RETIRED'' else ''flipped to thinking-by-default for'') @ '' '' @ quoted (ce_ref ev)
     @ '', which is the configured default_model for '' @ quoted (im_matched im) @ em_dash @ ''affects ''
     @ (if im_ladders im = [] then ''no configured fallback ladder (default_model only)''
        else ''fallback ladder(s): ['' @ join '', '' (im_ladders im) @ '']'')
     @ ''. Turns routing there will escalate into the next tier (or a void) until reconfigured.''"

text \<open>A value of the configuration: the string it holds as JSON, or the raw text. \<open>parse\<close> is \<open>serde_json::from_str\<close>.\<close>

definition config_string :: "(string \<Rightarrow> json option) \<Rightarrow> string option \<Rightarrow> string option" where
  "config_string parse raw =
     Option.bind raw (\<lambda>r.
       let v = trim (case Option.bind (parse r) as_str of Some x \<Rightarrow> x | None \<Rightarrow> r)
       in if v = [] then None else Some v)"

record ProviderKeySpec =
  pk_provider :: string
  pk_roles :: "string list"
  pk_model_key :: "string option"
  pk_model :: "string option"

definition provider_routings :: "(string \<Rightarrow> json option) \<Rightarrow> (string \<Rightarrow> string option) \<Rightarrow> ProviderKeySpec list \<Rightarrow> ProviderRouting list" where
  "provider_routings parse config specs =
     map (\<lambda>sp. \<lparr>pv_provider = pk_provider sp, pv_roles = pk_roles sp,
                pv_default = (case Option.bind (pk_model_key sp) (\<lambda>k. config_string parse (config k)) of
                                Some d \<Rightarrow> Some d | None \<Rightarrow> pk_model sp)\<rparr>) specs"

subsection \<open>One pass of the sync\<close>

definition event_texts :: "ProviderRouting list \<Rightarrow> (string \<times> string list) list \<Rightarrow> CatalogDiffEvent \<Rightarrow> string list" where
  "event_texts providers ladders ev =
     (case heal_text ev of
        None \<Rightarrow> []
      | Some text \<Rightarrow>
          text # (if routing_relevant ev then map (routing_impact_text ev) (routing_impact_for_model (ce_ref ev) providers ladders) else []))"

definition alert_texts ::
  "ProviderRouting list \<Rightarrow> (string \<times> string list) list \<Rightarrow> DiscoveredModel list \<Rightarrow> DiscoveredModel list \<Rightarrow> string list" where
  "alert_texts providers ladders old new =
     (if old = [] then [] else concat (map (event_texts providers ladders) (diff_catalog old new)))"

definition compact_entry :: "DiscoveredModel \<Rightarrow> json" where
  "compact_entry m =
     JObj ([(''id'', JStr (dm_ref m))]
       @ (case dm_name m of Some n \<Rightarrow> [(''name'', JStr n)] | None \<Rightarrow> [])
       @ (case dm_tools m of Some b \<Rightarrow> [(''tools'', JBool b)] | None \<Rightarrow> [])
       @ (case dm_context m of Some n \<Rightarrow> [(''ctx'', JNum n)] | None \<Rightarrow> [])
       @ (case dm_reasoning m of Some b \<Rightarrow> [(''think'', JBool b)] | None \<Rightarrow> []))"

text \<open>The sync's state: the stored snapshot, the catalogue for the guests and the heal queue. A snapshot that does not
  parse counts as none.\<close>

record catalog_sync =
  cs_snapshot :: "DiscoveredModel list"
  cs_catalog :: "json list"
  cs_heal :: "heal_queue option"

definition push_alert :: "(string \<Rightarrow> string) \<Rightarrow> nat \<Rightarrow> heal_queue \<Rightarrow> string \<times> string \<Rightarrow> heal_queue" where
  "push_alert tbl now q a =
     (case push_error_at tbl q ''model-catalog-sync'' (fst a) (int now) (snd a) of Inl e \<Rightarrow> q | Inr (q', rid) \<Rightarrow> q')"

definition run_once ::
  "(string \<Rightarrow> string) \<Rightarrow> (nat \<Rightarrow> string) \<Rightarrow> nat \<Rightarrow> ProviderRouting list \<Rightarrow> (string \<times> string list) list \<Rightarrow> OpenRouterModel list option
   \<Rightarrow> catalog_sync \<Rightarrow> catalog_sync" where
  "run_once tbl fresh now providers ladders body cs =
     (case parse_openrouter_models body (Some now) of
        None \<Rightarrow> cs
      | Some new \<Rightarrow>
          let texts = alert_texts providers ladders (cs_snapshot cs) new
          in \<lparr>cs_snapshot = new, cs_catalog = map compact_entry new,
              cs_heal = map_option (\<lambda>q. foldl (push_alert tbl now) q (zip texts (map fresh [0..<length texts]))) (cs_heal cs)\<rparr>)"

subsection \<open>What the difference reports\<close>

lemma key_map_None: "key_map ms k = None \<longleftrightarrow> k \<notin> dm_key ` set ms"
  by (auto simp: key_map_def map_of_eq_None_iff image_image)

lemma key_map_distinct:
  assumes "distinct (map dm_key ms)" "m \<in> set ms"
  shows "key_map ms (dm_key m) = Some m"
  unfolding key_map_def rev_map
  by (rule map_of_is_SomeI) (use assms in \<open>auto simp: o_def rev_map [symmetric]\<close>)

lemma listed_events:
  "ev \<in> set (listed_event old m) \<longleftrightarrow>
     (dm_key m \<notin> dm_key ` set old \<and> ev = diff_event Added (dm_reasoning m) m)
   \<or> (\<exists>p. key_map old (dm_key m) = Some p \<and>
        (dm_reasoning p \<noteq> dm_reasoning m \<and> ev = diff_event ReasoningChanged (dm_reasoning m) m
         \<or> dm_context p \<noteq> dm_context m \<and> ev = diff_event ContextChanged (dm_reasoning m) m))"
  unfolding key_map_None [symmetric] by (cases "key_map old (dm_key m)") (auto simp: listed_event_def)

lemma diff_events:
  "ev \<in> set (diff_catalog old new) \<longleftrightarrow>
     (\<exists>m \<in> set new. ev \<in> set (listed_event old m))
   \<or> (\<exists>m \<in> set old. dm_key m \<notin> dm_key ` set new \<and> ev = diff_event Removed None m)"
  by (auto simp: diff_catalog_def key_map_None split: if_splits)

lemma diff_event_kind [simp]: "ce_kind (diff_event k r m) = k" "ce_ref (diff_event k r m) = dm_ref m"
  by (simp_all add: diff_event_def)

lemma diff_same: "distinct (map dm_key ms) \<Longrightarrow> diff_catalog ms ms = []"
  by (auto simp: diff_catalog_def listed_event_def key_map_distinct)

text \<open>A difference names a model as added exactly when only the new snapshot lists it and as retired exactly when only
  the old one does; for a model listed in both it reports a changed thinking default exactly when that differs from the
  old entry's, and it never reports anything about a model that neither lists.\<close>

theorem catalog_diff_exact:
  "(ev \<in> set (diff_catalog old new) \<and> ce_kind ev = Removed
      \<longleftrightarrow> (\<exists>m. m \<in> set old \<and> dm_key m \<notin> dm_key ` set new \<and> ev = diff_event Removed None m))
   \<and> (ev \<in> set (diff_catalog old new) \<and> ce_kind ev = Added
      \<longleftrightarrow> (\<exists>m. m \<in> set new \<and> dm_key m \<notin> dm_key ` set old \<and> ev = diff_event Added (dm_reasoning m) m))
   \<and> (ev \<in> set (diff_catalog old new) \<and> ce_kind ev = ReasoningChanged
      \<longleftrightarrow> (\<exists>m p. m \<in> set new \<and> key_map old (dm_key m) = Some p \<and> dm_reasoning p \<noteq> dm_reasoning m
                \<and> ev = diff_event ReasoningChanged (dm_reasoning m) m))"
proof (intro conjI)
  show "ev \<in> set (diff_catalog old new) \<and> ce_kind ev = Removed
      \<longleftrightarrow> (\<exists>m. m \<in> set old \<and> dm_key m \<notin> dm_key ` set new \<and> ev = diff_event Removed None m)"
    unfolding diff_events listed_events by fastforce
  show "ev \<in> set (diff_catalog old new) \<and> ce_kind ev = Added
      \<longleftrightarrow> (\<exists>m. m \<in> set new \<and> dm_key m \<notin> dm_key ` set old \<and> ev = diff_event Added (dm_reasoning m) m)"
    unfolding diff_events listed_events by fastforce
  show "ev \<in> set (diff_catalog old new) \<and> ce_kind ev = ReasoningChanged
      \<longleftrightarrow> (\<exists>m p. m \<in> set new \<and> key_map old (dm_key m) = Some p \<and> dm_reasoning p \<noteq> dm_reasoning m
                \<and> ev = diff_event ReasoningChanged (dm_reasoning m) m)"
    unfolding diff_events listed_events by fastforce
qed

subsection \<open>What the sync reports\<close>

text \<open>A listing the provider repeats reports nothing: the snapshot was stored before.\<close>

lemma discovered_key: "dm_key (discovered t m) = (''openrouter'', or_id m)"
  by (simp add: dm_key_def discovered_def)

lemma diff_refetched:
  assumes "distinct (map or_id ms)"
  shows "diff_catalog (map (discovered t) ms) (map (discovered u) ms) = []"
proof -
  have keys: "key_map (map (discovered v) ms) (''openrouter'', or_id m) = Some (discovered v m)" if "m \<in> set ms" for m v
    using key_map_distinct [of "map (discovered v) ms" "discovered v m"] that assms
    by (simp add: o_def discovered_key distinct_map [of _ ms] inj_on_def)
  then show ?thesis
    by (auto simp: diff_catalog_def listed_event_def discovered_key keys) (simp_all add: discovered_def)
qed

text \<open>Two passes of the sync over the same listing alert at most once: after a pass the snapshot is that listing, and
  a second pass leaves the heal queue as it is. A listing that cannot be fetched changes nothing.\<close>

theorem catalog_sync_alerts_once:
  assumes "distinct (map or_id ms)"
  shows "cs_heal (run_once tbl fresh' now' pv' ld' (Some ms) (run_once tbl fresh now pv ld (Some ms) cs))
         = cs_heal (run_once tbl fresh now pv ld (Some ms) cs)
    \<and> run_once tbl fresh now pv ld None cs = cs"
  using diff_refetched [OF assms]
  by (simp add: run_once_def parse_openrouter_models_def Let_def alert_texts_def option.map_ident)

theorem catalog_sync_alerts_once_witness:
  "cs_heal (run_once id (\<lambda>n. ''b'') 9 [] [] (Some [\<lparr>or_id = ''a/m'', or_name = None, or_context = Some 8, or_arch = None,
       or_parameters = [''tools''], or_reasoning = None\<rparr>])
     (run_once id (\<lambda>n. ''a'') 5 [] [] (Some [\<lparr>or_id = ''a/m'', or_name = None, or_context = Some 8, or_arch = None,
       or_parameters = [''tools''], or_reasoning = None\<rparr>]) \<lparr>cs_snapshot = [], cs_catalog = [], cs_heal = Some []\<rparr>)) = Some []"
proof -
  let ?ms = "[\<lparr>or_id = ''a/m'', or_name = None, or_context = Some 8, or_arch = None,
       or_parameters = [''tools''], or_reasoning = None\<rparr>]"
  have "cs_heal (run_once id (\<lambda>n. ''a'') 5 [] [] (Some ?ms) \<lparr>cs_snapshot = [], cs_catalog = [], cs_heal = Some []\<rparr>) = Some []"
    by (simp add: run_once_def parse_openrouter_models_def alert_texts_def)
  then show ?thesis
    using catalog_sync_alerts_once [of ?ms id "\<lambda>n. ''b''" 9 "[]" "[]" "\<lambda>n. ''a''" 5 "[]" "[]"
        "\<lparr>cs_snapshot = [], cs_catalog = [], cs_heal = Some []\<rparr>"] by simp
qed

end
