(* ===== verification/Fallback.thy ===== *)
theory Fallback
  imports ToolGate ModelRouter ModelOracle
begin

section \<open>Provider failures: the fallback ladder and the turn watchdog\<close>

text \<open>
  Models what an agent does when its model does not answer (\<^verbatim>\<open>crates/philote/src/runtime.rs\<close>, \<^verbatim>\<open>turn_loop.rs\<close>): the class
  of a provider error, the target of a model request, the retry on the same tier, the walk down the fallback ladder
  with the routing oracle beneath it, the sticky fallback of a session with its probes, and the watchdog that evicts
  stuck turns. One session is modelled. Requests to the hotel succeed; the oracle's answer is an argument. The voice
  path (a turn in \<open>WaitingVoice\<close>) and the texts of the prompts are left out. Instants are milliseconds of one clock,
  \<open>wall\<close> is the time since the epoch.
\<close>

subsection \<open>Provider errors\<close>

definition labelled :: "string \<Rightarrow> string option \<Rightarrow> string list" where
  "labelled l x = (case x of Some v \<Rightarrow> [l @ ''='' @ v] | None \<Rightarrow> [])"

definition display_message :: "TaskErrorPayload \<Rightarrow> string" where
  "display_message e =
     join '' | '' ([te_message e, ''kind='' @ te_kind e] @ labelled ''code'' (te_code e) @ labelled ''component'' (te_component e)
       @ labelled ''provider'' (te_provider e) @ labelled ''capability'' (te_capability e)
       @ labelled ''retryable'' (map_option (\<lambda>b. if b then ''true'' else ''false'') (te_retryable e))
       @ labelled ''status'' (map_option dec_of_nat (te_status e)) @ labelled ''error_class'' (te_error_class e))"

definition should_attempt_provider_repair :: "TaskErrorPayload \<Rightarrow> SessionState \<Rightarrow> bool" where
  "should_attempt_provider_repair e s \<longleftrightarrow>
     te_kind e = ''provider_failure'' \<and> te_retryable e = Some True \<and> te_capability e = Some ''text.generate''
     \<and> provider_repair_attempts s < 1"

definition is_content_error :: "TaskErrorPayload \<Rightarrow> bool" where
  "is_content_error e \<longleftrightarrow> te_sub_kind e = Some ''content_error'' \<or> te_code e = Some ''MODEL_INVALID_TOOL_CALL''"

datatype ProviderErrorClass = RetrySameProvider | SwitchProvider | Fatal | ContentBlocked | Unclassified

definition class_of_label :: "string option \<Rightarrow> ProviderErrorClass option" where
  "class_of_label l =
     (if l = Some ''fatal'' then Some Fatal
      else if l = Some ''content_blocked'' then Some ContentBlocked
      else if l = Some ''switch_provider'' then Some SwitchProvider
      else if l = Some ''retry_same_provider'' then Some RetrySameProvider
      else None)"

definition class_of_sub_kind :: "string option \<Rightarrow> ProviderErrorClass option" where
  "class_of_sub_kind k =
     (if k = Some ''provider_auth'' then Some Fatal
      else if k = Some ''content_policy_block'' then Some ContentBlocked
      else if k \<in> {Some ''network_error'', Some ''streaming_timeout'', Some ''provider_error''} then Some RetrySameProvider
      else if k \<in> {Some ''rate_limit'', Some ''invalid_request''} then Some SwitchProvider
      else None)"

definition class_of_status :: "nat \<Rightarrow> ProviderErrorClass" where
  "class_of_status n =
     (if n \<in> {401, 403} then Fatal else if 400 \<le> n \<and> n \<le> 499 then SwitchProvider else RetrySameProvider)"

definition classify_provider_error :: "TaskErrorPayload \<Rightarrow> ProviderErrorClass" where
  "classify_provider_error e =
     (case class_of_label (te_error_class e) of Some c \<Rightarrow> c | None \<Rightarrow>
      (case class_of_sub_kind (te_sub_kind e) of Some c \<Rightarrow> c | None \<Rightarrow>
        if te_kind e \<noteq> ''provider_failure'' then Unclassified
        else (case te_status e of
                Some n \<Rightarrow> class_of_status n
              | None \<Rightarrow> if te_capability e \<in> {None, Some ''text.generate''} then SwitchProvider else Unclassified)))"

definition provider_repair_note :: "TaskErrorPayload \<Rightarrow> string" where
  "provider_repair_note e =
     ''The previous '' @ (case te_provider e of Some p \<Rightarrow> p | None \<Rightarrow> ''the model'')
     @ '' response attempted a tool call but returned an invalid tool payload. If you call a tool, output a complete tool_call object with a non-empty arguments object containing every required field. If no tool is needed, reply with structured JSON containing display_text, spoken_text, and memory_candidate''"

subsection \<open>Roles of model controllers\<close>

definition DEFAULT_TEXT_MODEL_ROLE :: string where "DEFAULT_TEXT_MODEL_ROLE = ''model''"

definition implementation_to_model_role :: "string \<Rightarrow> string" where
  "implementation_to_model_role impl =
     (let n = to_ascii_lowercase (trim impl) in
      if starts_with ''model.'' n then n
      else let sep = [CHR ''.'', CHR ''-'', CHR ''@'', CHR ''/''];
               seg = (case find (\<lambda>x. x \<noteq> []) (split_on (CHR ''.'') (map (\<lambda>c. if c \<in> set sep then CHR ''.'' else c) n)) of
                        Some x \<Rightarrow> x | None \<Rightarrow> ''gemini'')
           in if seg = ''gemini'' then ''model''
              else if seg \<in> set [''onnx'', ''kokoro'', ''local''] then ''model.local''
              else ''model.'' @ seg)"

definition provider_for_role :: "string \<Rightarrow> string option" where
  "provider_for_role role =
     (if role = ''model'' then Some ''gemini'' else if role = ''model.local'' then Some ''onnx'' else strip_prefix ''model.'' role)"

definition role_for_tier :: "string list \<Rightarrow> nat \<Rightarrow> string" where
  "role_for_tier tiers tier =
     (if tiers \<noteq> [] then if tier < length tiers then tiers ! tier else List.last tiers
      else if tier < length DEFAULT_FALLBACK_TIERS then DEFAULT_FALLBACK_TIERS ! tier else ''model.ollama'')"

subsection \<open>The target of a model request\<close>

type_synonym model_target = "string \<times> string \<times> string option"

definition text_capability :: "string \<Rightarrow> bool" where
  "text_capability c \<longleftrightarrow> c \<in> set [''text.generate'', ''response.generate'']"

definition pre_ladder_dispatch_target :: "string \<Rightarrow> SessionState \<Rightarrow> string \<Rightarrow> string \<Rightarrow> model_target option" where
  "pre_ladder_dispatch_target node s cap fallback =
     (let bound = (case Option.bind (map_of (ss_bound s) cap) (\<lambda>x. x) of
                     Some impl \<Rightarrow> Some (node, implementation_to_model_role impl, None) | None \<Rightarrow> None)
      in case ss_exec_route s cap of
           Some r \<Rightarrow> if fallback \<noteq> DEFAULT_TEXT_MODEL_ROLE \<or> er_node r \<noteq> node \<or> er_explicit r
                     then Some (er_node r, er_role r, er_incarnation r) else bound
         | None \<Rightarrow> bound)"

definition role_ladder_tiers :: "SessionState \<Rightarrow> string list option" where
  "role_ladder_tiers s =
     (case Option.bind (ss_role s) snd of Some c \<Rightarrow> if tl_tiers c \<noteq> [] then Some (tl_tiers c) else None | None \<Rightarrow> None)"

definition role_model_binding :: "SessionState \<Rightarrow> string \<Rightarrow> string option" where
  "role_model_binding s role = Option.bind (Option.bind (ss_role s) snd) (\<lambda>c. map_of (tl_bindings c) role)"

definition ladder_primary_role :: "SessionState \<Rightarrow> string \<Rightarrow> string option" where
  "ladder_primary_role s fallback =
     (if fallback \<noteq> DEFAULT_TEXT_MODEL_ROLE then None else map_option hd (role_ladder_tiers s))"

definition preferred_component_implementation :: "SessionState \<Rightarrow> string \<Rightarrow> string option" where
  "preferred_component_implementation s cap =
     (case Option.bind (map_of (ss_bound s) cap) (\<lambda>x. x) of
        Some impl \<Rightarrow> Some impl
      | None \<Rightarrow> if cap = ''text.generate'' then ss_controller s else None)"

definition resolve_model_execution_target :: "string \<Rightarrow> SessionState \<Rightarrow> string \<Rightarrow> string \<Rightarrow> model_target" where
  "resolve_model_execution_target node s cap fallback =
     (if text_capability cap \<and> ss_pinned s \<noteq> None then (node, the (ss_pinned s), None)
      else if text_capability cap \<and> ss_override s \<noteq> None then (node, fo_active (the (ss_override s)), None)
      else case pre_ladder_dispatch_target node s cap fallback of
        Some target \<Rightarrow> target
      | None \<Rightarrow>
          (case (if text_capability cap then ladder_primary_role s fallback else None) of
             Some role \<Rightarrow> (node, role, None)
           | None \<Rightarrow>
               (case preferred_component_implementation s cap of
                  Some impl \<Rightarrow> (node, implementation_to_model_role impl, None)
                | None \<Rightarrow> (node, fallback, None))))"

definition primary_dispatch_used_ladder :: "string \<Rightarrow> SessionState \<Rightarrow> string \<Rightarrow> bool" where
  "primary_dispatch_used_ladder node s cap \<longleftrightarrow>
     text_capability cap \<and> pre_ladder_dispatch_target node s cap DEFAULT_TEXT_MODEL_ROLE = None \<and> role_ladder_tiers s \<noteq> None"

subsection \<open>The policy for a model that does not answer\<close>

datatype NoResponseClass = ProviderFailure | ProviderContractFailure | WatchdogTimeout
datatype NoResponseAction = EscalateTier | EvictTurn

definition decide_no_response_action :: "NoResponseClass \<Rightarrow> bool \<Rightarrow> NoResponseAction" where
  "decide_no_response_action c tiers_remaining =
     (case c of
        ProviderFailure \<Rightarrow> if tiers_remaining then EscalateTier else EvictTurn
      | ProviderContractFailure \<Rightarrow> if tiers_remaining then EscalateTier else EvictTurn
      | WatchdogTimeout \<Rightarrow> if tiers_remaining then EscalateTier else EvictTurn)"

definition no_response_reason_str :: "NoResponseClass \<Rightarrow> string" where
  "no_response_reason_str c =
     (case c of ProviderFailure \<Rightarrow> ''provider_failure'' | ProviderContractFailure \<Rightarrow> ''provider_contract_failure''
      | WatchdogTimeout \<Rightarrow> ''model_timeout'')"

subsection \<open>The ladder walk\<close>

text \<open>Tiers are \<open>u8\<close> with saturating addition. The skip loop stops at the first tier of another provider or past the
  ladder; on a ladder whose last index is 255 it may never stop.\<close>

definition sat_add8 :: "nat \<Rightarrow> nat \<Rightarrow> nat" where
  "sat_add8 a b = min 255 (a + b)"

partial_function (option) skip_tiers :: "string list \<Rightarrow> nat \<Rightarrow> string \<Rightarrow> nat \<Rightarrow> nat option" where
  "skip_tiers tiers mx failed next =
     (if next \<le> mx \<and> provider_for_role (role_for_tier tiers next) = Some failed
      then skip_tiers tiers mx failed (sat_add8 next 1) else Some next)"

definition next_ladder_tier :: "string list \<Rightarrow> nat option \<Rightarrow> nat \<Rightarrow> string option \<Rightarrow> bool \<Rightarrow> nat option" where
  "next_ladder_tier tiers last_tier mx failed skip =
     (let next = (case last_tier of None \<Rightarrow> 0 | Some t \<Rightarrow> sat_add8 t 1) in
      if skip then (case failed of Some f \<Rightarrow> skip_tiers tiers mx f next | None \<Rightarrow> Some next) else Some next)"

definition MAX_ORACLE_EXTRA_TIERS :: nat where "MAX_ORACLE_EXTRA_TIERS = 2"

definition max_tier_of :: "string list \<Rightarrow> nat" where
  "max_tier_of tiers = (if tiers \<noteq> [] then (length tiers - 1) mod 256 else length DEFAULT_FALLBACK_TIERS - 1)"

fun as_array :: "json \<Rightarrow> json list option" where
  "as_array (JArr xs) = Some xs"
| "as_array x = None"

definition oracle_entry :: "string list \<Rightarrow> json \<Rightarrow> (string \<times> string) option" where
  "oracle_entry tried entry =
     Option.bind (Option.bind (jget entry ''role'') as_str) (\<lambda>role.
       if role \<in> set tried then None
       else Some (role, (case Option.bind (jget entry ''provider'') as_str of Some p \<Rightarrow> p | None \<Rightarrow> ''unknown'')))"

definition pick_oracle_role :: "json \<Rightarrow> string list \<Rightarrow> (string \<times> string) option" where
  "pick_oracle_role data tried = Option.bind (Option.bind (jget data ''ranked'') as_array) (find_map (oracle_entry tried))"

text \<open>What a handler is given: the node's id, the oracle's kill switch, the hotel's answer to a query with a list of
  excluded providers (the data of a successful response), and a fresh probe id.\<close>

record fallback_env =
  fe_node :: string
  fe_oracle_off :: bool
  fe_oracle :: "string list \<Rightarrow> json option"
  fe_probe :: string

definition ladder_of :: "string list \<Rightarrow> string list" where
  "ladder_of tiers = (if tiers = [] then DEFAULT_FALLBACK_TIERS else tiers)"

definition oracle_excludes :: "string list \<Rightarrow> string option \<Rightarrow> string list" where
  "oracle_excludes tiers failed =
     (let ex = List.map_filter provider_for_role (ladder_of tiers)
      in case failed of Some p \<Rightarrow> if p \<in> set ex then ex else ex @ [p] | None \<Rightarrow> ex)"

definition consult_routing_oracle :: "fallback_env \<Rightarrow> string list \<Rightarrow> nat \<Rightarrow> nat \<Rightarrow> string option \<Rightarrow> string option" where
  "consult_routing_oracle fe tiers current mx failed =
     (if fe_oracle_off fe then None
      else if current \<ge> sat_add8 mx MAX_ORACLE_EXTRA_TIERS then None
      else Option.bind (fe_oracle fe (oracle_excludes tiers failed))
             (\<lambda>data. map_option fst (pick_oracle_role data (ladder_of tiers))))"

subsection \<open>The agent\<close>

text \<open>The effects beside those of the gate: a request sent to a model controller (node, role, guest, bound model), heal
  events, turn events, the failed task of an evicted turn and the notice to its user.\<close>

datatype fallback_effect =
    AskedModel string string "string option" "string option"
  | HealPushed string
  | TurnEvent string
  | TaskFailed "128 word"
  | Unblocked string
  | ProbeSent string "string option"

text \<open>\<open>ag_configured\<close> holds the roles configured at run time, \<open>ag_probe\<close> the probe in flight, \<open>ag_since\<close>, \<open>ag_seen\<close> and
  \<open>ag_signature\<close> the watchdog's \<open>total_active_since\<close>, \<open>stuck_turn_first_seen\<close> and \<open>stuck_turn_signature\<close>.\<close>

record agent =
  ag_gate :: gate
  ag_configured :: "string \<Rightarrow> TurnLoopConfig option"
  ag_probe :: "string option"
  ag_since :: "nat option"
  ag_seen :: "nat option"
  ag_signature :: "string option"
  ag_out :: "fallback_effect list"

definition ag_session :: "agent \<Rightarrow> SessionState" where
  "ag_session a = ga_session (ag_gate a)"

definition on_gate :: "(gate \<Rightarrow> gate) \<Rightarrow> agent \<Rightarrow> agent" where
  "on_gate f a = a\<lparr>ag_gate := f (ag_gate a)\<rparr>"

definition put :: "fallback_effect list \<Rightarrow> agent \<Rightarrow> agent" where
  "put es a = a\<lparr>ag_out := ag_out a @ es\<rparr>"

definition ladder_config :: "agent \<Rightarrow> TurnLoopConfig option" where
  "ladder_config a =
     (case Option.bind (ss_role (ag_session a)) (\<lambda>r. ag_configured a (fst r)) of
        Some c \<Rightarrow> Some c
      | None \<Rightarrow> Option.bind (ss_role (ag_session a)) snd)"

definition configured_tiers :: "agent \<Rightarrow> string list" where
  "configured_tiers a = (case ladder_config a of Some c \<Rightarrow> tl_tiers c | None \<Rightarrow> [])"

definition configured_binding :: "agent \<Rightarrow> string \<Rightarrow> string option" where
  "configured_binding a role = Option.bind (ladder_config a) (\<lambda>c. map_of (tl_bindings c) role)"

definition current_turn :: "agent \<Rightarrow> WorkingTurn option" where
  "current_turn a = ss_turn (ag_session a)"

definition current_tier :: "agent \<Rightarrow> nat" where
  "current_tier a = (case current_turn a of Some t \<Rightarrow> wt_tier t | None \<Rightarrow> 0)"

definition last_ladder_tier :: "fallback_env \<Rightarrow> agent \<Rightarrow> nat option" where
  "last_ladder_tier fe a =
     (if configured_tiers a \<noteq> [] \<and> current_tier a = 0
         \<and> \<not> (case current_turn a of Some t \<Rightarrow> wt_tier0 t | None \<Rightarrow> False)
         \<and> \<not> primary_dispatch_used_ladder (fe_node fe) (ag_session a) ''text.generate''
      then None else Some (current_tier a))"

subsection \<open>The first request of a turn\<close>

text \<open>The request of \<open>handle_user_message\<close> for a text turn: while the network is offline it goes to the last tier of the
  ladder configured for the active role, whatever the session resolves to.\<close>

definition offline_role :: "agent \<Rightarrow> string" where
  "offline_role a =
     List.last (ladder_of (case Option.bind (ss_role (ag_session a)) (\<lambda>r. ag_configured a (fst r)) of Some c \<Rightarrow> tl_tiers c | None \<Rightarrow> []))"

definition dispatch_first_request :: "fallback_env \<Rightarrow> bool \<Rightarrow> agent \<Rightarrow> agent" where
  "dispatch_first_request fe offline a =
     (let (node, role, guest) = resolve_model_execution_target (fe_node fe) (ag_session a) ''text.generate'' DEFAULT_TEXT_MODEL_ROLE;
          local_role = (if offline then offline_role a else role)
      in put [AskedModel node local_role guest (role_model_binding (ag_session a) local_role)] a)"

subsection \<open>Retry and escalation\<close>

definition retry_active_turn_after_provider_failure :: "fallback_env \<Rightarrow> string option \<Rightarrow> agent \<Rightarrow> agent" where
  "retry_active_turn_after_provider_failure fe nt a =
     (let a1 = on_gate (on_session (\<lambda>s.
            on_turn (\<lambda>t. t\<lparr>wt_iteration := wt_iteration t + 1, wt_phase := WaitingModel\<rparr>)
              (snd (increment_provider_repair_attempts (case nt of Some n \<Rightarrow> set_provider_repair_note n s | None \<Rightarrow> s))))) a
      in if current_turn a1 = None then a1
         else let (node, role, guest) = resolve_model_execution_target (fe_node fe) (ag_session a1) ''text.generate'' DEFAULT_TEXT_MODEL_ROLE
              in put [TurnEvent ''loop_recovering'', AskedModel node role guest (role_model_binding (ag_session a1) role)] a1)"

text \<open>The override of a session that falls back, and whether the user is told.\<close>

definition degrade :: "NoResponseClass \<Rightarrow> string \<Rightarrow> string \<Rightarrow> nat \<Rightarrow> SessionState \<Rightarrow> bool \<times> SessionState" where
  "degrade c origin role wall s =
     (case ss_override s of
        Some ov \<Rightarrow> (\<not> fo_notice_sent ov,
                    s\<lparr>ss_override := Some (ov\<lparr>fo_active := role, fo_reason := no_response_reason_str c, fo_notice_sent := True\<rparr>)\<rparr>)
      | None \<Rightarrow> (True,
                 s\<lparr>ss_override := Some \<lparr>fo_origin = origin, fo_active = role, fo_reason = no_response_reason_str c,
                     fo_since = wall, fo_last_probe = wall, fo_notice_sent = True\<rparr>\<rparr>))"

definition escalated :: "nat \<Rightarrow> bool \<Rightarrow> WorkingTurn \<Rightarrow> WorkingTurn" where
  "escalated tier oracle t =
     t\<lparr>wt_tier := tier, wt_tier0 := (wt_tier0 t \<or> \<not> oracle), wt_phase := WaitingModel, wt_iteration := wt_iteration t + 1,
       wt_source := AutoFallback\<rparr>"

definition dispatch_tier ::
  "NoResponseClass \<Rightarrow> string option \<Rightarrow> nat \<Rightarrow> nat \<Rightarrow> string \<Rightarrow> bool \<Rightarrow> string \<Rightarrow> agent \<Rightarrow> agent" where
  "dispatch_tier c failed wall tier role oracle node a =
     (let (notify, s) = degrade c (role_for_tier (configured_tiers a) 0) role wall (on_turn (escalated tier oracle) (ag_session a));
          a1 = on_gate (on_session (\<lambda>_. s)) a
      in if ss_turn s = None then a1
         else put ([TurnEvent ''loop_recovering'', TurnEvent ''provider_switch'',
                    HealPushed (''provider_fallback:'' @ (case failed of Some p \<Rightarrow> p | None \<Rightarrow> ''unknown''))]
                   @ (if notify then [TurnEvent ''model_fallback''] else [])
                   @ [AskedModel node role None (configured_binding a role)]) a1)"

text \<open>The oracle is asked once the ladder is exhausted; a turn ends when neither has a tier left.\<close>

definition oracle_pick :: "fallback_env \<Rightarrow> string option \<Rightarrow> nat \<Rightarrow> agent \<Rightarrow> string option" where
  "oracle_pick fe failed n a =
     (if n \<le> max_tier_of (configured_tiers a) then None
      else consult_routing_oracle fe (configured_tiers a) (current_tier a) (max_tier_of (configured_tiers a)) failed)"

definition exhausted :: "string option \<Rightarrow> nat \<Rightarrow> agent \<Rightarrow> agent" where
  "exhausted failed now a =
     on_gate (fail_active_turn now ''All model providers failed. Please try again later.'')
       (put [HealPushed (''fallback_exhausted:'' @ (case failed of Some p \<Rightarrow> p | None \<Rightarrow> ''unknown''))] a)"

definition next_tier :: "string option \<Rightarrow> nat \<Rightarrow> agent \<Rightarrow> nat" where
  "next_tier pick n a = (if pick \<noteq> None then sat_add8 (current_tier a) 1 else n)"

definition next_role :: "string option \<Rightarrow> nat \<Rightarrow> agent \<Rightarrow> string" where
  "next_role pick n a = (case pick of Some r \<Rightarrow> r | None \<Rightarrow> role_for_tier (configured_tiers a) (next_tier pick n a))"

definition ladder_next :: "fallback_env \<Rightarrow> NoResponseClass \<Rightarrow> string option \<Rightarrow> agent \<Rightarrow> nat option" where
  "ladder_next fe c failed a =
     next_ladder_tier (configured_tiers a) (last_ladder_tier fe a) (max_tier_of (configured_tiers a)) failed (c = ProviderContractFailure)"

definition advance_turn_to_next_fallback_tier ::
  "fallback_env \<Rightarrow> nat \<Rightarrow> nat \<Rightarrow> NoResponseClass \<Rightarrow> string option \<Rightarrow> string \<Rightarrow> agent \<Rightarrow> agent option" where
  "advance_turn_to_next_fallback_tier fe now wall c failed trigger a =
     (if (case current_turn a of Some t \<Rightarrow> wt_source t | None \<Rightarrow> ConfiguredDefault) = OperatorExplicit
      then Some (on_gate (fail_active_turn now trigger) a)
      else (case ladder_next fe c failed a of
              None \<Rightarrow> None
            | Some n \<Rightarrow>
                let pick = oracle_pick fe failed n a in
                if pick = None \<and> decide_no_response_action c (n \<le> max_tier_of (configured_tiers a)) = EvictTurn
                then Some (exhausted failed now a)
                else Some (dispatch_tier c failed wall (next_tier pick n a) (next_role pick n a) (pick \<noteq> None) (fe_node fe) a)))"

subsection \<open>A model error\<close>

definition provider_name :: "TaskErrorPayload \<Rightarrow> string" where
  "provider_name e = (case te_provider e of Some p \<Rightarrow> p | None \<Rightarrow> ''unknown'')"

definition auth_failure_text :: "string \<Rightarrow> string" where
  "auth_failure_text p =
     ''Model provider '' @ p @ '' rejected its credentials (auth/key error). An operator needs to fix the key.''"

definition content_blocked_text :: "string \<Rightarrow> string" where
  "content_blocked_text p =
     ''content_blocked: The model provider ('' @ p @ '') declined to respond due to its content/safety filter. No fallback provider was tried''
     @ em_dash @ ''ask again, or rephrase, or check the agent'' @ [CHR 0x27] @ ''s content_policy setting.''"

definition streaming_retry :: "TaskErrorPayload \<Rightarrow> WorkingTurn \<Rightarrow> bool" where
  "streaming_retry e t \<longleftrightarrow> te_sub_kind e = Some ''streaming_timeout'' \<and> wt_stream_retries t < 1"

text \<open>The part of \<open>handle_model_response\<close> that handles an error payload for the active turn.\<close>

definition provider_error :: "fallback_env \<Rightarrow> nat \<Rightarrow> nat \<Rightarrow> TaskErrorPayload \<Rightarrow> WorkingTurn \<Rightarrow> agent \<Rightarrow> agent option" where
  "provider_error fe now wall e t a =
     (if is_content_error e \<and> should_attempt_provider_repair e (ag_session a)
      then Some (retry_active_turn_after_provider_failure fe (Some (provider_repair_note e)) a)
      else case classify_provider_error e of
        RetrySameProvider \<Rightarrow>
          if streaming_retry e t
          then Some (retry_active_turn_after_provider_failure fe None
                 (on_gate (on_session (on_turn (\<lambda>t. t\<lparr>wt_stream_retries := wt_stream_retries t + 1\<rparr>))) a))
          else advance_turn_to_next_fallback_tier fe now wall ProviderFailure (te_provider e) (te_message e) a
      | SwitchProvider \<Rightarrow> advance_turn_to_next_fallback_tier fe now wall ProviderContractFailure (te_provider e) (te_message e) a
      | Fatal \<Rightarrow>
          Some (on_gate (fail_active_turn now (auth_failure_text (provider_name e)))
                 (put [HealPushed (''provider_auth:'' @ provider_name e)] a))
      | ContentBlocked \<Rightarrow>
          Some (on_gate (fail_active_turn now (content_blocked_text (provider_name e)))
                 (put [HealPushed (''content_blocked:'' @ provider_name e)] a))
      | Unclassified \<Rightarrow> Some (on_gate (fail_active_turn now (''Model failed: '' @ display_message e)) a))"

definition handle_fallback_probe_response :: "bool \<Rightarrow> agent \<Rightarrow> agent" where
  "handle_fallback_probe_response failed a0 =
     (let a = a0\<lparr>ag_probe := None\<rparr> in
      if failed then a
      else case ss_override (ag_session a) of
        None \<Rightarrow> a
      | Some ov \<Rightarrow>
          put (if fo_notice_sent ov then [TurnEvent ''model_fallback_cleared''] else [])
            (on_gate (on_session (\<lambda>s. s\<lparr>ss_override := None\<rparr>)) a))"

text \<open>A failed model response: an answer to the probe in flight, a response for another turn, one for a turn that waits
  for its voice (left out), or an error of the active turn.\<close>

definition handle_model_error :: "fallback_env \<Rightarrow> nat \<Rightarrow> nat \<Rightarrow> string \<Rightarrow> TaskErrorPayload \<Rightarrow> agent \<Rightarrow> agent option" where
  "handle_model_error fe now wall tid e a =
     (if ag_probe a = Some tid then Some (handle_fallback_probe_response True a)
      else case current_turn a of
        None \<Rightarrow> Some a
      | Some t \<Rightarrow> if wt_id t \<noteq> tid \<or> wt_phase t = WaitingVoice then Some a else provider_error fe now wall e t a)"

subsection \<open>The watchdog\<close>

definition WAITING_MODEL_SECS :: nat where "WAITING_MODEL_SECS = 300"
definition THINKING_SECS :: nat where "THINKING_SECS = 90"
definition WAITING_TOOL_SECS :: nat where "WAITING_TOOL_SECS = 90"
definition WAITING_VOICE_SECS :: nat where "WAITING_VOICE_SECS = 60"
definition WAITING_APPROVAL_SECS :: nat where "WAITING_APPROVAL_SECS = 300"
definition PARACRINE_WHISPER_WAIT_SECS :: nat where "PARACRINE_WHISPER_WAIT_SECS = 660"
definition MAX_TOTAL_ACTIVE_SECS :: nat where "MAX_TOTAL_ACTIVE_SECS = 600"
definition QUEUE_STALE_SECS :: nat where "QUEUE_STALE_SECS = 120"
definition PROBE_INTERVAL_MS :: nat where "PROBE_INTERVAL_MS = 300000"

definition phase_name :: "TurnPhase \<Rightarrow> string" where
  "phase_name ph =
     (case ph of Queued \<Rightarrow> ''Queued'' | LoadingContext \<Rightarrow> ''LoadingContext'' | WaitingModel \<Rightarrow> ''WaitingModel'' | Thinking \<Rightarrow> ''Thinking''
      | WaitingTool \<Rightarrow> ''WaitingTool'' | WaitingApproval \<Rightarrow> ''WaitingApproval'' | PlanningDiscussion \<Rightarrow> ''PlanningDiscussion''
      | WaitingVoice \<Rightarrow> ''WaitingVoice'' | Completed \<Rightarrow> ''Completed'' | Failed \<Rightarrow> ''Failed'')"

definition elapsed_secs :: "nat \<Rightarrow> nat \<Rightarrow> nat" where
  "elapsed_secs since now = (now - since) div 1000"

definition wait_signature :: "SessionState \<Rightarrow> string option" where
  "wait_signature s =
     (let parked = (case ss_parked_approval s of
                      Some t \<Rightarrow> Some (''parked_approval:'' @ wt_id t)
                    | None \<Rightarrow> (case ss_parked_plan s of Some t \<Rightarrow> Some (''parked_plan:'' @ wt_id t) | None \<Rightarrow> None))
      in case ss_turn s of
           Some t \<Rightarrow>
             if wt_phase t \<in> {WaitingModel, Thinking, WaitingTool, WaitingVoice}
             then Some (''active:'' @ wt_id t @ '':'' @ phase_name (wt_phase t) @ '':'' @ dec_of_nat (wt_iteration t) @ '':''
                        @ (case wt_pending_tool t of Some c \<Rightarrow> tc_name c | None \<Rightarrow> ''-''))
             else parked
         | None \<Rightarrow> parked)"

text \<open>Steps 0 and 1: the clock of the active turn and the clock of what the session waits for.\<close>

definition watch_turns :: "nat \<Rightarrow> agent \<Rightarrow> agent" where
  "watch_turns now a =
     (let since = (if current_turn a \<noteq> None then (case ag_since a of Some t \<Rightarrow> Some t | None \<Rightarrow> Some now) else None)
      in case wait_signature (ag_session a) of
           Some sg \<Rightarrow>
             if ag_signature a \<noteq> Some sg then a\<lparr>ag_since := since, ag_seen := Some now, ag_signature := Some sg\<rparr>
             else a\<lparr>ag_since := since, ag_seen := (case ag_seen a of Some t \<Rightarrow> Some t | None \<Rightarrow> Some now)\<rparr>
         | None \<Rightarrow> a\<lparr>ag_since := since, ag_seen := None, ag_signature := None\<rparr>)"

definition whispering :: "WorkingTurn \<Rightarrow> bool" where
  "whispering t \<longleftrightarrow> wt_phase t = WaitingTool
     \<and> (case wt_pending_tool t of Some c \<Rightarrow> tc_name c = ''delegate.whisper'' | None \<Rightarrow> False)"

definition phase_limit :: "WorkingTurn \<Rightarrow> nat option" where
  "phase_limit t =
     (case wt_phase t of
        WaitingModel \<Rightarrow> Some WAITING_MODEL_SECS
      | Thinking \<Rightarrow> Some THINKING_SECS
      | WaitingTool \<Rightarrow> Some (if whispering t then PARACRINE_WHISPER_WAIT_SECS else WAITING_TOOL_SECS)
      | WaitingVoice \<Rightarrow> Some WAITING_VOICE_SECS
      | _ \<Rightarrow> None)"

text \<open>Steps 2 and 2b: the turn that timed out and the phase it is reported with.\<close>

definition timed_out :: "nat \<Rightarrow> agent \<Rightarrow> (WorkingTurn \<times> string) option" where
  "timed_out now a =
     (case ag_seen a of
        None \<Rightarrow> None
      | Some since \<Rightarrow>
          let elapsed = elapsed_secs since now; s = ag_session a in
          (case ss_parked_approval s of
             Some t \<Rightarrow> if elapsed \<ge> WAITING_APPROVAL_SECS then Some (t, ''WaitingApproval(parked)'') else None
           | None \<Rightarrow>
               (case ss_parked_plan s of
                  Some t \<Rightarrow> if elapsed \<ge> WAITING_APPROVAL_SECS then Some (t, ''PlanningDiscussion(parked)'') else None
                | None \<Rightarrow>
                    (case ss_turn s of
                       None \<Rightarrow> None
                     | Some t \<Rightarrow>
                         (case phase_limit t of
                            None \<Rightarrow> None
                          | Some limit \<Rightarrow> if elapsed < limit then None else Some (t, phase_name (wt_phase t)))))))"

definition catch_all :: "nat \<Rightarrow> agent \<Rightarrow> (WorkingTurn \<times> string) option" where
  "catch_all now a =
     (case ag_since a of
        None \<Rightarrow> None
      | Some since \<Rightarrow>
          let elapsed = elapsed_secs since now in
          if elapsed < MAX_TOTAL_ACTIVE_SECS then None
          else (case current_turn a of
                  None \<Rightarrow> None
                | Some t \<Rightarrow>
                    if whispering t \<and> elapsed < PARACRINE_WHISPER_WAIT_SECS then None
                    else Some (t, ''CatchAll('' @ phase_name (wt_phase t) @ '')'')))"

text \<open>Step 3: a model that stays silent is replaced, everything else is evicted.\<close>

definition evict_stuck :: "WorkingTurn \<Rightarrow> string \<Rightarrow> agent \<Rightarrow> agent" where
  "evict_stuck t phase a =
     put [TaskFailed (wt_task t), HealPushed (''stuck_turn_evicted:'' @ phase), Unblocked (wt_id t)]
       (on_gate (on_session (\<lambda>s. s\<lparr>ss_turn := None, ss_parked_approval := None, ss_parked_approval_since := None, ss_waiting_since := None\<rparr>))
         (a\<lparr>ag_seen := None, ag_signature := None, ag_since := None\<rparr>))"

definition escalate_or_evict :: "fallback_env \<Rightarrow> nat \<Rightarrow> nat \<Rightarrow> (WorkingTurn \<times> string) option \<Rightarrow> agent \<Rightarrow> agent option" where
  "escalate_or_evict fe now wall x a =
     (case x of
        None \<Rightarrow> Some a
      | Some (t, phase) \<Rightarrow>
          if phase = ''WaitingModel''
          then advance_turn_to_next_fallback_tier fe now wall WatchdogTimeout None
                 ''The model did not respond before the turn timeout.'' (a\<lparr>ag_seen := None, ag_signature := None\<rparr>)
          else Some (evict_stuck t phase a))"

text \<open>Step 5: one probe of the origin tier at a time, while no turn is active.\<close>

definition probe_degraded_sessions :: "fallback_env \<Rightarrow> nat \<Rightarrow> agent \<Rightarrow> agent" where
  "probe_degraded_sessions fe wall a =
     (if current_turn a \<noteq> None \<or> ag_probe a \<noteq> None then a
      else case ss_override (ag_session a) of
        None \<Rightarrow> a
      | Some ov \<Rightarrow>
          if wall - fo_last_probe ov < PROBE_INTERVAL_MS then a
          else put [ProbeSent (fo_origin ov) (role_model_binding (ag_session a) (fo_origin ov))]
                 ((on_gate (on_session (\<lambda>s. s\<lparr>ss_override := Some (ov\<lparr>fo_last_probe := wall\<rparr>)\<rparr>)) a)\<lparr>ag_probe := Some (fe_probe fe)\<rparr>))"

definition evict_timed_out_turns :: "fallback_env \<Rightarrow> nat \<Rightarrow> nat \<Rightarrow> agent \<Rightarrow> agent option" where
  "evict_timed_out_turns fe now wall a0 =
     (let a = watch_turns now a0;
          x = (case timed_out now a of Some y \<Rightarrow> Some y | None \<Rightarrow> catch_all now a)
      in map_option (\<lambda>b. probe_degraded_sessions fe wall
            (on_gate (on_session (\<lambda>s. snd (evict_stale_queued_tasks (QUEUE_STALE_SECS * 1000) now s))) b))
           (escalate_or_evict fe now wall x a))"

subsection \<open>The ladder walk returns\<close>

lemma provider_role_inverse: "p \<noteq> ''local'' \<Longrightarrow> provider_for_role (controller_role_for_provider p) = Some p"
  by (auto simp: provider_for_role_def controller_role_for_provider_def starts_with_def)

lemma max_tier_default: "max_tier_of [] = 2"
  by (simp add: max_tier_of_def DEFAULT_FALLBACK_TIERS_def)

lemma sat_add8_Suc: "t < 255 \<Longrightarrow> sat_add8 t (Suc 0) = Suc t"
  by (simp add: sat_add8_def)

text \<open>On a ladder whose last index is below 255 the skip returns a tier that is past the ladder or belongs to another
  provider.\<close>

lemma skip_returns:
  assumes "mx < 255" "next \<le> 255"
  shows "\<exists>n. skip_tiers tiers mx failed next = Some n \<and> next \<le> n \<and> n \<le> 255
    \<and> (mx < n \<or> provider_for_role (role_for_tier tiers n) \<noteq> Some failed)"
  using assms(2)
proof (induction "256 - next" arbitrary: "next" rule: less_induct)
  case less
  show ?case
  proof (cases "next \<le> mx \<and> provider_for_role (role_for_tier tiers next) = Some failed")
    case True
    then have "next < 255" using assms(1) by simp
    then obtain n where "skip_tiers tiers mx failed (Suc next) = Some n" "Suc next \<le> n" "n \<le> 255"
      "mx < n \<or> provider_for_role (role_for_tier tiers n) \<noteq> Some failed"
      using less.hyps [of "Suc next"] by fastforce
    then show ?thesis
      using True \<open>next < 255\<close> by (subst skip_tiers.simps) (auto simp: sat_add8_Suc)
  next
    case False
    then show ?thesis using less.prems by (subst skip_tiers.simps) auto
  qed
qed

lemma next_tier_returns:
  assumes "mx < 255"
  shows "\<exists>n. next_ladder_tier tiers lt mx failed skip = Some n
    \<and> (case lt of None \<Rightarrow> 0 | Some t \<Rightarrow> sat_add8 t 1) \<le> n
    \<and> (skip \<and> n \<le> mx \<longrightarrow> (case failed of Some f \<Rightarrow> provider_for_role (role_for_tier tiers n) \<noteq> Some f | None \<Rightarrow> True))"
proof -
  define nx where "nx = (case lt of None \<Rightarrow> 0 | Some t \<Rightarrow> sat_add8 t 1)"
  have "nx \<le> 255" by (auto simp: nx_def sat_add8_def split: option.splits)
  from skip_returns [OF assms this] show ?thesis
    by (cases failed) (fastforce simp: next_ladder_tier_def nx_def [symmetric] Let_def)+
qed

subsection \<open>A turn without an answer ends\<close>

lemma drain_keeps [simp]:
  "ss_role (ga_session (drain_next_user_task g)) = ss_role (ga_session g)"
  "ss_override (ga_session (drain_next_user_task g)) = ss_override (ga_session g)"
  "ss_pinned (ga_session (drain_next_user_task g)) = ss_pinned (ga_session g)"
  by (auto simp: drain_next_user_task_def dequeue_user_task_def split: list.splits prod.splits option.splits)

lemma fail_keeps [simp]:
  "ss_turn (ga_session (fail_active_turn now m g)) = None"
  "ss_role (ga_session (fail_active_turn now m g)) = ss_role (ga_session g)"
  "ss_override (ga_session (fail_active_turn now m g)) = ss_override (ga_session g)"
  "ss_pinned (ga_session (fail_active_turn now m g)) = ss_pinned (ga_session g)"
  by (auto simp: fail_active_turn_def emit_def on_session_def set_active_turn_phase_def on_turn_def split: option.splits)

lemmas agent_simps = ag_session_def on_gate_def put_def current_turn_def on_session_def

lemma degrade_keeps:
  "degrade c origin role wall s = (b, s') \<Longrightarrow>
     ss_turn s' = ss_turn s \<and> ss_role s' = ss_role s \<and> ss_pinned s' = ss_pinned s \<and> ss_parked_approval s' = ss_parked_approval s
     \<and> ss_parked_plan s' = ss_parked_plan s"
  by (auto simp: degrade_def split: option.splits)

text \<open>The parts of the agent that an escalation leaves alone: what chooses the ladder, the probe and the watchdog's clocks.\<close>

definition same_ladder :: "agent \<Rightarrow> agent \<Rightarrow> bool" where
  "same_ladder a b \<longleftrightarrow> ag_configured b = ag_configured a \<and> ss_role (ag_session b) = ss_role (ag_session a) \<and> ag_probe b = ag_probe a
     \<and> ag_since b = ag_since a \<and> ag_seen b = ag_seen a \<and> ag_signature b = ag_signature a"

lemma tiers_cong:
  "ag_configured b = ag_configured a \<Longrightarrow> ss_role (ag_session b) = ss_role (ag_session a) \<Longrightarrow> configured_tiers b = configured_tiers a"
  unfolding configured_tiers_def ladder_config_def by presburger

lemma same_ladder_tiers: "same_ladder a b \<Longrightarrow> configured_tiers b = configured_tiers a"
  by (rule tiers_cong) (simp_all add: same_ladder_def)

lemma dispatch_tier_turn:
  "current_turn (dispatch_tier c failed wall tier role orc node a) = map_option (escalated tier orc) (current_turn a)
   \<and> same_ladder a (dispatch_tier c failed wall tier role orc node a)"
  by (auto simp: dispatch_tier_def Let_def agent_simps on_turn_def same_ladder_def split: prod.splits dest!: degrade_keeps)

definition tier_budget :: "nat \<Rightarrow> WorkingTurn \<Rightarrow> nat" where
  "tier_budget mx t = (mx + 2 - wt_tier t) + (if wt_tier t = 0 \<and> \<not> wt_tier0 t then 1 else 0)"

lemma escalation_spends:
  assumes "wt_tier t < n" "n \<le> mx + 2 \<or> orc = False \<and> n \<le> mx"
  shows "tier_budget mx (escalated n orc t) < tier_budget mx t"
  using assms by (auto simp: tier_budget_def escalated_def)

lemma advance_pinned:
  "current_turn a = Some t \<Longrightarrow> wt_source t = OperatorExplicit \<Longrightarrow>
     advance_turn_to_next_fallback_tier fe now wall c failed msg a = Some (on_gate (fail_active_turn now msg) a)"
  by (simp add: advance_turn_to_next_fallback_tier_def)

lemma evict_iff: "decide_no_response_action c b = EvictTurn \<longleftrightarrow> \<not> b"
  by (cases c) (simp_all add: decide_no_response_action_def)

lemma advance_walks:
  assumes "current_turn a = Some t" "wt_source t \<noteq> OperatorExplicit" "ladder_next fe c failed a = Some n"
  shows "advance_turn_to_next_fallback_tier fe now wall c failed msg a =
    Some (let pick = oracle_pick fe failed n a in
          if pick = None \<and> \<not> n \<le> max_tier_of (configured_tiers a) then exhausted failed now a
          else dispatch_tier c failed wall (next_tier pick n a) (next_role pick n a) (pick \<noteq> None) (fe_node fe) a)"
  using assms by (simp add: advance_turn_to_next_fallback_tier_def evict_iff Let_def)

lemma exhausted_turn: "current_turn (exhausted failed now a) = None" "same_ladder a (exhausted failed now a)"
  by (simp_all add: exhausted_def same_ladder_def agent_simps)

lemma failed_turn: "current_turn (on_gate (fail_active_turn now msg) a) = None" "same_ladder a (on_gate (fail_active_turn now msg) a)"
  by (simp_all add: same_ladder_def agent_simps)

lemma walk_spends:
  assumes t: "current_turn a = Some t" and mx: "max_tier_of (configured_tiers a) < 255"
    and n: "ladder_next fe c failed a = Some n" and live: "oracle_pick fe failed n a \<noteq> None \<or> n \<le> max_tier_of (configured_tiers a)"
  shows "tier_budget (max_tier_of (configured_tiers a))
      (escalated (next_tier (oracle_pick fe failed n a) n a) (oracle_pick fe failed n a \<noteq> None) t)
    < tier_budget (max_tier_of (configured_tiers a)) t"
proof (cases "oracle_pick fe failed n a")
  case None
  have tier: "current_tier a = wt_tier t" using t by (simp add: current_tier_def)
  have "(case last_ladder_tier fe a of None \<Rightarrow> 0 | Some k \<Rightarrow> sat_add8 k 1) \<le> n"
    using next_tier_returns [OF mx, of "configured_tiers a" "last_ladder_tier fe a" failed "c = ProviderContractFailure"] n
    by (auto simp: ladder_next_def)
  moreover have "last_ladder_tier fe a = None \<and> wt_tier t = 0 \<and> \<not> wt_tier0 t \<or> last_ladder_tier fe a = Some (wt_tier t)"
    using t tier by (auto simp: last_ladder_tier_def)
  ultimately show ?thesis
    using None live mx by (auto simp: tier_budget_def escalated_def next_tier_def sat_add8_def min_def split: if_splits)
next
  case (Some r)
  then have "wt_tier t < sat_add8 (max_tier_of (configured_tiers a)) MAX_ORACLE_EXTRA_TIERS"
    using t by (auto simp: oracle_pick_def consult_routing_oracle_def current_tier_def split: if_splits)
  then have "wt_tier t < 255" "wt_tier t < max_tier_of (configured_tiers a) + 2"
    by (simp_all add: sat_add8_def MAX_ORACLE_EXTRA_TIERS_def)
  then show ?thesis
    using Some t by (intro escalation_spends) (simp_all add: next_tier_def current_tier_def sat_add8_Suc)
qed

lemma advance_outcome:
  assumes "current_turn a = Some t" "max_tier_of (configured_tiers a) < 255"
  shows "\<exists>b. advance_turn_to_next_fallback_tier fe now wall c failed msg a = Some b \<and> same_ladder a b
    \<and> (current_turn b = None
       \<or> (\<exists>n orc. current_turn b = Some (escalated n orc t)
            \<and> tier_budget (max_tier_of (configured_tiers a)) (escalated n orc t) < tier_budget (max_tier_of (configured_tiers a)) t))"
proof (cases "wt_source t = OperatorExplicit")
  case True
  then show ?thesis using assms failed_turn by (simp add: advance_pinned)
next
  case False
  obtain n where n: "ladder_next fe c failed a = Some n"
    using next_tier_returns [OF assms(2)] unfolding ladder_next_def by blast
  note walk = advance_walks [OF assms(1) False n, of now wall msg]
  show ?thesis
  proof (cases "oracle_pick fe failed n a = None \<and> \<not> n \<le> max_tier_of (configured_tiers a)")
    case True
    then show ?thesis using walk exhausted_turn by (simp add: Let_def)
  next
    case live: False
    then show ?thesis
      using walk walk_spends [OF assms n] dispatch_tier_turn assms(1) by (fastforce simp: Let_def)
  qed
qed

text \<open>What a turn gets instead of an answer: an error of the provider or silence until the watchdog fires.\<close>

datatype no_answer = Errored TaskErrorPayload | Silent

fun failing_step :: "agent \<Rightarrow> fallback_env \<times> nat \<times> nat \<times> no_answer \<Rightarrow> agent option" where
  "failing_step a (fe, now, wall, x) =
     (case current_turn a of
        None \<Rightarrow> Some a
      | Some t \<Rightarrow>
          (case x of
             Errored e \<Rightarrow> handle_model_error fe now wall (wt_id t) e a
           | Silent \<Rightarrow> advance_turn_to_next_fallback_tier fe now wall WatchdogTimeout None
                         ''The model did not respond before the turn timeout.'' a))"

definition retry_budget :: "WorkingTurn \<Rightarrow> nat" where
  "retry_budget t = (1 - wt_repair_attempts t) + (1 - wt_stream_retries t)"

definition answer_budget :: "agent \<Rightarrow> nat" where
  "answer_budget a =
     (case current_turn a of None \<Rightarrow> 0 | Some t \<Rightarrow> tier_budget (max_tier_of (configured_tiers a)) t + retry_budget t)"

definition waits_for_answer :: "agent \<Rightarrow> bool" where
  "waits_for_answer a \<longleftrightarrow> max_tier_of (configured_tiers a) < 255
     \<and> (case current_turn a of None \<Rightarrow> True | Some t \<Rightarrow> wt_phase t \<noteq> WaitingVoice \<and> ag_probe a \<noteq> Some (wt_id t))"

lemma retry_turn:
  assumes "current_turn a = Some t"
  shows "\<exists>t'. current_turn (retry_active_turn_after_provider_failure fe nt a) = Some t' \<and> wt_id t' = wt_id t
      \<and> wt_phase t' = WaitingModel \<and> wt_tier t' = wt_tier t \<and> wt_tier0 t' = wt_tier0 t \<and> wt_stream_retries t' = wt_stream_retries t
      \<and> wt_repair_attempts t' = Suc (wt_repair_attempts t) \<and> wt_source t' = wt_source t"
    and "same_ladder a (retry_active_turn_after_provider_failure fe nt a)"
    and "ss_pinned (ag_session (retry_active_turn_after_provider_failure fe nt a)) = ss_pinned (ag_session a)"
  using assms
  by (auto simp: retry_active_turn_after_provider_failure_def agent_simps on_turn_def increment_provider_repair_attempts_def
      set_provider_repair_note_def same_ladder_def Let_def split: option.splits prod.splits)

lemma waits_same:
  "waits_for_answer a \<Longrightarrow> same_ladder a b \<Longrightarrow> (\<And>t. current_turn b = Some t \<Longrightarrow> wt_phase t \<noteq> WaitingVoice \<and> ag_probe b \<noteq> Some (wt_id t))
   \<Longrightarrow> waits_for_answer b"
  using same_ladder_tiers [of a b] by (auto simp: waits_for_answer_def split: option.splits)

lemma escalated_simps [simp]:
  "wt_id (escalated n orc t) = wt_id t" "wt_phase (escalated n orc t) = WaitingModel" "wt_source (escalated n orc t) = AutoFallback"
  "retry_budget (escalated n orc t) = retry_budget t"
  by (simp_all add: escalated_def retry_budget_def)

text \<open>What one unanswered request does: the turn ends, or a budget shrinks.\<close>

definition moves_on :: "agent \<Rightarrow> agent option \<Rightarrow> bool" where
  "moves_on a r \<longleftrightarrow> (\<exists>b. r = Some b \<and> waits_for_answer b \<and> (current_turn b = None \<or> answer_budget b < answer_budget a))"

lemma moves_on_advance:
  assumes "waits_for_answer a" "current_turn a = Some t"
  shows "moves_on a (advance_turn_to_next_fallback_tier fe now wall c failed msg a)"
proof -
  have mx: "max_tier_of (configured_tiers a) < 255" and p: "ag_probe a \<noteq> Some (wt_id t)"
    using assms by (simp_all add: waits_for_answer_def)
  obtain b where b: "advance_turn_to_next_fallback_tier fe now wall c failed msg a = Some b" "same_ladder a b"
    and out: "current_turn b = None \<or> (\<exists>n orc. current_turn b = Some (escalated n orc t)
            \<and> tier_budget (max_tier_of (configured_tiers a)) (escalated n orc t) < tier_budget (max_tier_of (configured_tiers a)) t)"
    using advance_outcome [OF assms(2) mx] by blast
  have "ag_probe b = ag_probe a" using b(2) by (simp add: same_ladder_def)
  then have "waits_for_answer b"
    using out p by (intro waits_same [OF assms(1) b(2)]) auto
  then show ?thesis
    using b out assms(2) same_ladder_tiers [OF b(2)] by (auto simp: moves_on_def answer_budget_def)
qed

lemma moves_on_retry:
  assumes "waits_for_answer a" "current_turn a = Some t" "same_ladder a b" "current_turn b = Some t'"
    "wt_id t' = wt_id t" "wt_phase t' = WaitingModel" "wt_tier t' = wt_tier t" "wt_tier0 t' = wt_tier0 t" "retry_budget t' < retry_budget t"
  shows "moves_on a (Some b)"
proof -
  have "waits_for_answer b"
    using assms by (intro waits_same [OF assms(1,3)]) (auto simp: waits_for_answer_def same_ladder_def)
  then show ?thesis
    using assms same_ladder_tiers [OF assms(3)] by (auto simp: moves_on_def answer_budget_def tier_budget_def)
qed

lemma moves_on_end: "waits_for_answer a \<Longrightarrow> same_ladder a b \<Longrightarrow> current_turn b = None \<Longrightarrow> moves_on a (Some b)"
  using waits_same [of a b] by (simp add: moves_on_def)

lemma put_keeps [simp]: "current_turn (put es a) = current_turn a" "same_ladder a (put es b) = same_ladder a b"
  "ag_session (put es a) = ag_session a"
  by (simp_all add: same_ladder_def agent_simps)

lemma fail_with_heal: "current_turn (on_gate (fail_active_turn now msg) (put es a)) = None" "same_ladder a (on_gate (fail_active_turn now msg) (put es a))"
  by (simp_all add: same_ladder_def agent_simps)

lemma moves_on_error:
  assumes "waits_for_answer a" "current_turn a = Some t"
  shows "moves_on a (provider_error fe now wall e t a)"
proof (cases "is_content_error e \<and> should_attempt_provider_repair e (ag_session a)")
  case True
  then have r: "wt_repair_attempts t = 0"
    using assms(2) by (simp add: should_attempt_provider_repair_def provider_repair_attempts_def current_turn_def)
  show ?thesis
    using True r retry_turn [OF assms(2), of fe "Some (provider_repair_note e)"]
    by (auto simp: provider_error_def retry_budget_def intro!: moves_on_retry [OF assms])
next
  case False
  note skip = this
  show ?thesis
  proof (cases "classify_provider_error e")
    case RetrySameProvider
    show ?thesis
    proof (cases "streaming_retry e t")
      case True
      define a1 where "a1 = on_gate (on_session (on_turn (\<lambda>t. t\<lparr>wt_stream_retries := wt_stream_retries t + 1\<rparr>))) a"
      have a1: "current_turn a1 = Some (t\<lparr>wt_stream_retries := wt_stream_retries t + 1\<rparr>)" "same_ladder a a1"
        using assms(2) by (simp_all add: a1_def agent_simps on_turn_def same_ladder_def)
      obtain t' where t': "current_turn (retry_active_turn_after_provider_failure fe None a1) = Some t'" "wt_id t' = wt_id t"
        "wt_phase t' = WaitingModel" "wt_tier t' = wt_tier t" "wt_tier0 t' = wt_tier0 t" "wt_stream_retries t' = Suc (wt_stream_retries t)"
        "wt_repair_attempts t' = Suc (wt_repair_attempts t)"
        using retry_turn(1) [OF a1(1), of fe None] by auto
      have "same_ladder a (retry_active_turn_after_provider_failure fe None a1)"
        using retry_turn(2) [OF a1(1)] a1(2) by (simp add: same_ladder_def)
      then have "moves_on a (Some (retry_active_turn_after_provider_failure fe None a1))"
        using t' True by (intro moves_on_retry [OF assms, of _ t']) (auto simp: retry_budget_def streaming_retry_def)
      moreover have "provider_error fe now wall e t a = Some (retry_active_turn_after_provider_failure fe None a1)"
        using RetrySameProvider skip True unfolding a1_def by (auto simp: provider_error_def)
      ultimately show ?thesis by simp
    next
      case False
      then show ?thesis
        using RetrySameProvider skip moves_on_advance [OF assms] by (auto simp: provider_error_def)
    qed
  next
    case SwitchProvider
    then show ?thesis using skip moves_on_advance [OF assms] by (auto simp: provider_error_def)
  next
    case Fatal
    then show ?thesis using skip moves_on_end [OF assms(1) fail_with_heal(2,1)] by (auto simp: provider_error_def)
  next
    case ContentBlocked
    then show ?thesis using skip moves_on_end [OF assms(1) fail_with_heal(2,1)] by (auto simp: provider_error_def)
  next
    case Unclassified
    then show ?thesis using skip moves_on_end [OF assms(1) failed_turn(2,1)] by (auto simp: provider_error_def)
  qed
qed

lemma failing_step_moves:
  assumes "waits_for_answer a"
  shows "moves_on a (failing_step a ev) \<or> current_turn a = None \<and> failing_step a ev = Some a"
proof (cases "current_turn a")
  case (Some t)
  obtain fe now wall x where ev: "ev = (fe, now, wall, x)" by (cases ev)
  have "wt_phase t \<noteq> WaitingVoice" "ag_probe a \<noteq> Some (wt_id t)"
    using assms Some by (simp_all add: waits_for_answer_def)
  then show ?thesis
    using moves_on_error [OF assms Some] moves_on_advance [OF assms Some] Some
    by (cases x) (simp_all add: ev handle_model_error_def)
qed (cases ev; simp)

interpretation unanswered: dwindling failing_step waits_for_answer "\<lambda>a. current_turn a = None" answer_budget
proof
  fix a ev assume "waits_for_answer a"
  from failing_step_moves [OF this, of ev] this
  show "\<exists>b. failing_step a ev = Some b \<and> waits_for_answer b
      \<and> (current_turn b = None \<or> \<not> current_turn a = None \<and> answer_budget b < answer_budget a)"
    by (auto simp: moves_on_def answer_budget_def)
qed

lemma ladder_short: "length (configured_tiers a) \<le> 255 \<Longrightarrow> max_tier_of (configured_tiers a) < 255"
  by (cases "configured_tiers a = []") (auto simp: max_tier_of_def DEFAULT_FALLBACK_TIERS_def)

lemma answer_budget_bound: "current_turn a = Some t \<Longrightarrow> answer_budget a \<le> max_tier_of (configured_tiers a) + 5"
proof -
  have "tier_budget (max_tier_of (configured_tiers a)) t \<le> max_tier_of (configured_tiers a) + 3" "retry_budget t \<le> 2"
    by (auto simp: tier_budget_def retry_budget_def)
  then show "current_turn a = Some t \<Longrightarrow> answer_budget a \<le> max_tier_of (configured_tiers a) + 5"
    by (simp add: answer_budget_def)
qed

text \<open>C15. A turn whose model never gives an answer, whatever errors its providers return, however long they stay silent and
  whatever the oracle suggests, comes to an end: on a ladder of at most 255 tiers every handler returns, and after the
  index of the last tier plus six unanswered requests no turn is active.\<close>

theorem unanswered_turn_ends:
  assumes "current_turn a = Some t" "wt_phase t \<noteq> WaitingVoice" "ag_probe a \<noteq> Some (wt_id t)"
    "length (configured_tiers a) \<le> 255" "max_tier_of (configured_tiers a) + 5 < length evs"
  shows "\<exists>b. run_opt failing_step a evs = Some b \<and> current_turn b = None"
proof -
  have "waits_for_answer a"
    using assms ladder_short by (simp add: waits_for_answer_def)
  then show ?thesis
    using unanswered.run_over [of a evs] answer_budget_bound [OF assms(1)] assms(5) by fastforce
qed

definition demo_fallback_env :: fallback_env where
  "demo_fallback_env = \<lparr>fe_node = ''n'', fe_oracle_off = False, fe_oracle = (\<lambda>ex. None), fe_probe = ''probe-1''\<rparr>"

definition demo_agent :: agent where
  "demo_agent = \<lparr>ag_gate = demo_gate, ag_configured = (\<lambda>r. None), ag_probe = None, ag_since = None, ag_seen = None,
     ag_signature = None, ag_out = []\<rparr>"

lemma demo_agent_turn: "current_turn demo_agent = Some (demo_turn ''g'')"
  by (simp add: demo_agent_def current_turn_def ag_session_def demo_gate_def)

lemma demo_agent_tiers: "configured_tiers demo_agent = []"
  by (simp add: demo_agent_def configured_tiers_def ladder_config_def ag_session_def demo_gate_def demo_session_def)

lemma demo_agent_probe: "ag_probe demo_agent = None"
  by (simp add: demo_agent_def)

theorem unanswered_turn_ends_witness:
  "\<exists>b. run_opt failing_step demo_agent (replicate 8 (demo_fallback_env, 0, 0, Silent)) = Some b \<and> current_turn b = None"
  using unanswered_turn_ends [OF demo_agent_turn, of "replicate 8 (demo_fallback_env, 0, 0, Silent)"]
  by (simp add: demo_agent_tiers demo_agent_probe max_tier_default demo_turn_def)

subsection \<open>A rejected request goes to another provider\<close>

text \<open>The agent's query of the oracle and the hotel's answer to it.\<close>

definition philote_query :: "string list \<Rightarrow> route_query" where
  "philote_query ex = \<lparr>rq_class = ''cognitive'', rq_tools = True, rq_structured = True, rq_context = 0, rq_latency = ''interactive'',
     rq_ceiling = ''remote_cloud'', rq_exclude = ex\<rparr>"

definition hotel_answer :: "(string \<Rightarrow> string) \<Rightarrow> string \<Rightarrow> hotel_routing \<Rightarrow> heal_queue option \<Rightarrow> string list \<Rightarrow> json option" where
  "hotel_answer tbl fresh h hq ex = reply_data (fst (handle_query_model_route tbl fresh h (philote_query ex) hq))"

lemma pick_from_entries:
  assumes "pick_oracle_role (JObj [(''ranked'', JArr (map entry_json es)), (''disabled'', d)]) tried = Some (role, p)"
  shows "\<exists>e \<in> set es. role = re_role e \<and> role \<notin> set tried"
proof -
  have "find_map (oracle_entry tried) (map entry_json es) = Some (role, p)"
    using assms by (simp add: pick_oracle_role_def tbl_get_def)
  then obtain i where "i < length es" "oracle_entry tried (entry_json (es ! i)) = Some (role, p)"
    by (auto dest!: find_map_SomeD)
  then show ?thesis
    by (intro bexI [of _ "es ! i"]) (auto simp: oracle_entry_def entry_json_def tbl_get_def split: if_splits)
qed

lemma oracle_reroute:
  assumes "hr_profiles h = Inr ps" "list_all (\<lambda>p. mp_provider p \<noteq> ''local'') ps" "fe_oracle fe = hotel_answer tbl fresh h hq"
    and "consult_routing_oracle fe tiers k mx failed = Some role"
  shows "role \<in> set (hr_roles h) \<and> role \<notin> set (ladder_of tiers)
    \<and> (\<exists>q. provider_for_role role = Some q \<and> q \<notin> set (oracle_excludes tiers failed))"
proof -
  let ?rq = "philote_query (oracle_excludes tiers failed)"
  obtain prov data where data: "hotel_answer tbl fresh h hq (oracle_excludes tiers failed) = Some data"
      "pick_oracle_role data (ladder_of tiers) = Some (role, prov)"
    using assms(3,4) by (auto simp: consult_routing_oracle_def split: if_splits bind_splits)
  obtain es d where es: "data = JObj [(''ranked'', JArr (map entry_json es)), (''disabled'', d)]" "es = [] \<or> es = ranked_entries h ?rq ps"
    using data(1) assms(1)
    by (auto simp: hotel_answer_def handle_query_model_route_def Let_def split: if_splits)
  obtain e where e: "e \<in> set es" "role = re_role e" "role \<notin> set (ladder_of tiers)"
    using pick_from_entries data(2) es(1) by blast
  then have "e \<in> set (ranked_entries h ?rq ps)" using es(2) by auto
  note spec = ranked_entries_spec [OF this]
  then have "re_provider e \<noteq> ''local''" using assms(2) by (auto simp: list_all_iff)
  then have "provider_for_role role = Some (re_provider e)"
    using spec(2) provider_role_inverse e(2) by simp
  then show ?thesis using spec e by (simp add: philote_query_def)
qed

definition asks_only :: "(string \<Rightarrow> bool) \<Rightarrow> fallback_effect \<Rightarrow> bool" where
  "asks_only P eff = (case eff of AskedModel node role guest model \<Rightarrow> P role | _ \<Rightarrow> True)"

lemma dispatch_tier_out:
  "\<exists>new. ag_out (dispatch_tier c failed wall tier role orc node a) = ag_out a @ new \<and> (P role \<longrightarrow> list_all (asks_only P) new)"
  by (auto simp: dispatch_tier_def Let_def agent_simps asks_only_def split: prod.splits)

lemma tier_in_ladder: "n \<le> max_tier_of tiers \<Longrightarrow> role_for_tier tiers n \<in> set (ladder_of tiers)"
proof -
  assume n: "n \<le> max_tier_of tiers"
  show "role_for_tier tiers n \<in> set (ladder_of tiers)"
  proof (cases "tiers = []")
    case True
    then have "n = 0 \<or> n = 1 \<or> n = 2" using n by (auto simp: max_tier_default)
    then show ?thesis using True by (auto simp: role_for_tier_def ladder_of_def DEFAULT_FALLBACK_TIERS_def)
  next
    case False
    then show ?thesis by (auto simp: role_for_tier_def ladder_of_def)
  qed
qed

lemma excluded_failed: "p \<in> set (oracle_excludes tiers (Some p))"
  by (simp add: oracle_excludes_def Let_def)

text \<open>C17. After a named provider rejected a request (\<open>ProviderContractFailure\<close>), the agent's escalation and the hotel's oracle
  together do not send the turn back to that provider: every model request this escalation makes goes to a role of another
  provider, and that role is a tier of the ladder or is served by a live guest. (No stored profile is of a provider called
  \<open>local\<close>, whose role the agent reads as \<open>onnx\<close>.)\<close>

theorem contract_failure_leaves_provider:
  assumes "hr_profiles h = Inr ps" "list_all (\<lambda>p. mp_provider p \<noteq> ''local'') ps" "fe_oracle fe = hotel_answer tbl fresh h hq"
    and "current_turn a = Some t" "length (configured_tiers a) \<le> 255"
  shows "\<exists>b new. advance_turn_to_next_fallback_tier fe now wall ProviderContractFailure (Some p) msg a = Some b
    \<and> ag_out b = ag_out a @ new
    \<and> list_all (asks_only (\<lambda>role. provider_for_role role \<noteq> Some p
         \<and> (role \<in> set (ladder_of (configured_tiers a)) \<or> role \<in> set (hr_roles h)))) new"
proof (cases "wt_source t = OperatorExplicit")
  case True
  then show ?thesis using assms(4) by (simp add: advance_pinned agent_simps)
next
  case False
  let ?P = "\<lambda>role. provider_for_role role \<noteq> Some p \<and> (role \<in> set (ladder_of (configured_tiers a)) \<or> role \<in> set (hr_roles h))"
  let ?c = ProviderContractFailure and ?mx = "max_tier_of (configured_tiers a)"
  obtain n where n: "ladder_next fe ?c (Some p) a = Some n" and other: "n \<le> ?mx \<longrightarrow> provider_for_role (role_for_tier (configured_tiers a) n) \<noteq> Some p"
    using next_tier_returns [OF ladder_short [OF assms(5)], of "configured_tiers a" "last_ladder_tier fe a" "Some p" True]
    by (auto simp: ladder_next_def)
  note walk = advance_walks [OF assms(4) False n, of now wall msg]
  show ?thesis
  proof (cases "oracle_pick fe (Some p) n a = None \<and> \<not> n \<le> ?mx")
    case True
    then show ?thesis using walk by (simp add: Let_def exhausted_def agent_simps asks_only_def)
  next
    case live: False
    have "?P (next_role (oracle_pick fe (Some p) n a) n a)"
    proof (cases "oracle_pick fe (Some p) n a")
      case None
      then show ?thesis using live other tier_in_ladder by (simp add: next_role_def next_tier_def)
    next
      case (Some r)
      then have "consult_routing_oracle fe (configured_tiers a) (current_tier a) ?mx (Some p) = Some r"
        by (auto simp: oracle_pick_def split: if_splits)
      then show ?thesis
        using oracle_reroute [OF assms(1-3)] excluded_failed Some by (fastforce simp: next_role_def)
    qed
    moreover define b where "b = dispatch_tier ?c (Some p) wall (next_tier (oracle_pick fe (Some p) n a) n a)
          (next_role (oracle_pick fe (Some p) n a) n a) (oracle_pick fe (Some p) n a \<noteq> None) (fe_node fe) a"
    ultimately obtain new where "ag_out b = ag_out a @ new" "list_all (asks_only ?P) new"
      using dispatch_tier_out [of ?c "Some p" wall _ _ _ "fe_node fe" a ?P] by blast
    moreover have "advance_turn_to_next_fallback_tier fe now wall ?c (Some p) msg a = Some b"
      unfolding walk b_def Let_def using live by auto
    ultimately show ?thesis by blast
  qed
qed

definition demo_hotel :: hotel_routing where
  "demo_hotel = \<lparr>hr_disabled = None, hr_cooloff = None, hr_profiles = Inr [default_profile\<lparr>mp_provider := ''anthropic''\<rparr>],
     hr_node = ''n'', hr_roles = [''model.anthropic''], hr_now = 1000\<rparr>"

theorem contract_failure_leaves_provider_witness:
  "\<exists>b new. advance_turn_to_next_fallback_tier (demo_fallback_env\<lparr>fe_oracle := hotel_answer id ''r'' demo_hotel None\<rparr>) 0 0
      ProviderContractFailure (Some ''gemini'') ''x'' demo_agent = Some b
    \<and> ag_out b = ag_out demo_agent @ new
    \<and> list_all (asks_only (\<lambda>role. provider_for_role role \<noteq> Some ''gemini''
         \<and> (role \<in> set (ladder_of (configured_tiers demo_agent)) \<or> role \<in> set (hr_roles demo_hotel)))) new"
  using contract_failure_leaves_provider [of demo_hotel "[default_profile\<lparr>mp_provider := ''anthropic''\<rparr>]"
      "demo_fallback_env\<lparr>fe_oracle := hotel_answer id ''r'' demo_hotel None\<rparr>" id "''r''" None demo_agent "demo_turn ''g''" 0 0 "''gemini''" "''x''"]
  by (simp add: demo_hotel_def demo_agent_turn demo_agent_tiers)

subsection \<open>The watchdog frees the session\<close>

lemma turn_after_stale [simp]:
  "ss_turn (snd (evict_stale_queued_tasks k now s)) = ss_turn s"
  "ss_parked_approval (snd (evict_stale_queued_tasks k now s)) = ss_parked_approval s"
  "ss_parked_plan (snd (evict_stale_queued_tasks k now s)) = ss_parked_plan s"
  "ss_override (snd (evict_stale_queued_tasks k now s)) = ss_override s"
  "ss_role (snd (evict_stale_queued_tasks k now s)) = ss_role s"
  by (simp_all add: evict_stale_queued_tasks_def Let_def)

lemma turn_after_probe [simp]:
  "current_turn (probe_degraded_sessions fe wall a) = current_turn a"
  "ag_since (probe_degraded_sessions fe wall a) = ag_since a"
  "ag_seen (probe_degraded_sessions fe wall a) = ag_seen a"
  "ag_signature (probe_degraded_sessions fe wall a) = ag_signature a"
  "ag_configured (probe_degraded_sessions fe wall a) = ag_configured a"
  "ss_role (ag_session (probe_degraded_sessions fe wall a)) = ss_role (ag_session a)"
  by (simp_all add: probe_degraded_sessions_def agent_simps Let_def split: option.splits)

definition after_tick :: "fallback_env \<Rightarrow> nat \<Rightarrow> nat \<Rightarrow> agent \<Rightarrow> agent" where
  "after_tick fe now wall b = probe_degraded_sessions fe wall
     (on_gate (on_session (\<lambda>s. snd (evict_stale_queued_tasks (QUEUE_STALE_SECS * 1000) now s))) b)"

lemma stale_keeps:
  "current_turn (on_gate (on_session (\<lambda>s. snd (evict_stale_queued_tasks k now s))) b) = current_turn b"
  "ss_role (ag_session (on_gate (on_session (\<lambda>s. snd (evict_stale_queued_tasks k now s))) b)) = ss_role (ag_session b)"
  by (simp_all add: agent_simps)

lemma on_gate_keeps [simp]:
  "ag_since (on_gate f a) = ag_since a" "ag_seen (on_gate f a) = ag_seen a" "ag_signature (on_gate f a) = ag_signature a"
  "ag_configured (on_gate f a) = ag_configured a" "ag_probe (on_gate f a) = ag_probe a" "ag_out (on_gate f a) = ag_out a"
  by (simp_all add: on_gate_def)

lemma after_tick_keeps [simp]:
  "current_turn (after_tick fe now wall b) = current_turn b"
  "ag_since (after_tick fe now wall b) = ag_since b"
  "ag_signature (after_tick fe now wall b) = ag_signature b"
  "configured_tiers (after_tick fe now wall b) = configured_tiers b"
  by (auto simp: after_tick_def stale_keeps intro: tiers_cong)

lemma tick_eq:
  "evict_timed_out_turns fe now wall a = map_option (after_tick fe now wall)
     (escalate_or_evict fe now wall
        (case timed_out now (watch_turns now a) of Some y \<Rightarrow> Some y | None \<Rightarrow> catch_all now (watch_turns now a)) (watch_turns now a))"
  by (simp add: evict_timed_out_turns_def after_tick_def [abs_def] Let_def)

lemma watch_turns_keeps [simp]:
  "ag_gate (watch_turns now a) = ag_gate a" "ag_session (watch_turns now a) = ag_session a" "current_turn (watch_turns now a) = current_turn a"
  "configured_tiers (watch_turns now a) = configured_tiers a" "ag_configured (watch_turns now a) = ag_configured a"
  by (auto simp: watch_turns_def Let_def agent_simps intro!: tiers_cong split: option.splits)

lemma evict_turn [simp]: "current_turn (evict_stuck t ph a) = None" "configured_tiers (evict_stuck t ph a) = configured_tiers a"
  by (auto simp: evict_stuck_def agent_simps intro!: tiers_cong)

lemma phase_name_model: "phase_name ph = ''WaitingModel'' \<longleftrightarrow> ph = WaitingModel"
  by (cases ph) (simp_all add: phase_name_def)

text \<open>A turn that the watchdog hands to another model is the active one and waits for its model.\<close>

lemma silent_turn:
  "timed_out now a = Some (t, ''WaitingModel'') \<Longrightarrow> current_turn a = Some t \<and> wt_phase t = WaitingModel"
  by (auto simp: timed_out_def Let_def phase_name_model current_turn_def split: option.splits if_splits)

lemma catch_all_phase: "catch_all now a = Some (t, ph) \<Longrightarrow> ph \<noteq> ''WaitingModel''"
  by (auto simp: catch_all_def Let_def split: option.splits if_splits)

lemma catch_all_fires:
  "current_turn a = Some t \<Longrightarrow> ag_since a = Some s \<Longrightarrow> 660 \<le> elapsed_secs s now \<Longrightarrow> catch_all now a \<noteq> None"
  by (auto simp: catch_all_def Let_def MAX_TOTAL_ACTIVE_SECS_def PARACRINE_WHISPER_WAIT_SECS_def)

lemma watch_turns_since: "current_turn a = Some t \<Longrightarrow> ag_since a = Some s \<Longrightarrow> ag_since (watch_turns now a) = Some s"
  by (auto simp: watch_turns_def Let_def split: option.splits)

lemma watch_turns_fresh:
  "ag_signature a = None \<Longrightarrow> ag_seen (watch_turns now a) = None \<or> ag_seen (watch_turns now a) = Some now"
  by (auto simp: watch_turns_def Let_def split: option.splits)

lemma fresh_not_timed_out: "ag_seen a = None \<or> ag_seen a = Some now \<Longrightarrow> timed_out now a = None"
  by (auto simp: timed_out_def Let_def elapsed_secs_def WAITING_APPROVAL_SECS_def phase_limit_def WAITING_MODEL_SECS_def THINKING_SECS_def
      WAITING_TOOL_SECS_def WAITING_VOICE_SECS_def PARACRINE_WHISPER_WAIT_SECS_def split: option.splits TurnPhase.splits if_splits)

lemma tick_idle:
  assumes "current_turn a = None"
  shows "\<exists>b. evict_timed_out_turns fe now wall a = Some b \<and> current_turn b = None"
proof -
  let ?a = "watch_turns now a"
  have "catch_all now ?a = None" using assms by (simp add: catch_all_def Let_def split: option.split)
  moreover have "timed_out now ?a \<noteq> Some (t, ''WaitingModel'')" for t
    using silent_turn [of now ?a t] assms by auto
  ultimately have "\<exists>b. escalate_or_evict fe now wall (case timed_out now ?a of Some y \<Rightarrow> Some y | None \<Rightarrow> catch_all now ?a) ?a = Some b
      \<and> current_turn b = None"
    using assms by (auto simp: escalate_or_evict_def split: option.split)
  then show ?thesis by (auto simp: tick_eq)
qed

lemma tick_overdue:
  assumes "current_turn a = Some t" "ag_since a = Some s" "660 \<le> elapsed_secs s now" "max_tier_of (configured_tiers a) < 255"
  shows "\<exists>b. evict_timed_out_turns fe now wall a = Some b
    \<and> (current_turn b = None
       \<or> timed_out now (watch_turns now a) \<noteq> None \<and> current_turn b \<noteq> None \<and> ag_since b = Some s \<and> ag_signature b = None)"
proof -
  let ?a = "watch_turns now a"
  have due: "catch_all now ?a \<noteq> None"
    using catch_all_fires assms watch_turns_since by simp
  show ?thesis
  proof (cases "\<exists>u. timed_out now ?a = Some (u, ''WaitingModel'')")
    case True
    then obtain u where u: "timed_out now ?a = Some (u, ''WaitingModel'')" by blast
    have turn: "current_turn (?a\<lparr>ag_seen := None, ag_signature := None\<rparr>) = Some t"
      using assms(1) watch_turns_keeps(3) [of now a] by (simp add: current_turn_def ag_session_def)
    have tiers: "configured_tiers (?a\<lparr>ag_seen := None, ag_signature := None\<rparr>) = configured_tiers a"
      by (rule tiers_cong) (simp_all add: ag_session_def)
    obtain b where b: "advance_turn_to_next_fallback_tier fe now wall WatchdogTimeout None
        ''The model did not respond before the turn timeout.'' (?a\<lparr>ag_seen := None, ag_signature := None\<rparr>) = Some b"
      "same_ladder (?a\<lparr>ag_seen := None, ag_signature := None\<rparr>) b"
      using advance_outcome [OF turn, of fe now wall WatchdogTimeout None] assms(4) unfolding tiers by blast
    have "ag_since b = Some s" "ag_signature b = None"
      using b(2) watch_turns_since [OF assms(1,2)] by (simp_all add: same_ladder_def)
    then show ?thesis
      using b(1) u by (auto simp: tick_eq escalate_or_evict_def)
  next
    case False
    then have "\<exists>u ph. (case timed_out now ?a of Some y \<Rightarrow> Some y | None \<Rightarrow> catch_all now ?a) = Some (u, ph) \<and> ph \<noteq> ''WaitingModel''"
      using due catch_all_phase [of now ?a] by (cases "timed_out now ?a") auto
    then show ?thesis by (auto simp: tick_eq escalate_or_evict_def)
  qed
qed

text \<open>C16. The watchdog frees a session: once a turn has been active for 660 seconds, whatever its phase, the next two ticks
  leave no active turn, even when the first of them hands the turn to another model.\<close>

theorem watchdog_frees_session:
  assumes "current_turn a = Some t" "ag_since a = Some s" "660 \<le> elapsed_secs s now" "now \<le> later"
    "length (configured_tiers a) \<le> 255"
  shows "\<exists>b c. evict_timed_out_turns fe now wall a = Some b \<and> evict_timed_out_turns fe' later wall' b = Some c
    \<and> current_turn c = None"
proof -
  obtain b where b: "evict_timed_out_turns fe now wall a = Some b"
    "current_turn b = None \<or> current_turn b \<noteq> None \<and> ag_since b = Some s \<and> ag_signature b = None"
    using tick_overdue [OF assms(1-3) ladder_short [OF assms(5)]] by blast
  show ?thesis
  proof (cases "current_turn b")
    case None
    then show ?thesis using b(1) tick_idle by blast
  next
    case (Some u)
    then have since: "ag_since b = Some s" and sg: "ag_signature b = None" using b(2) by auto
    have "660 \<le> elapsed_secs s later"
      using assms(3,4) div_le_mono [of "now - s" "later - s" 1000] by (simp add: elapsed_secs_def)
    then have "catch_all later (watch_turns later b) \<noteq> None"
      using catch_all_fires Some since watch_turns_since by simp
    moreover have "timed_out later (watch_turns later b) = None"
      using fresh_not_timed_out watch_turns_fresh [OF sg] by blast
    ultimately have "\<exists>c. evict_timed_out_turns fe' later wall' b = Some c \<and> current_turn c = None"
      using catch_all_phase [of later "watch_turns later b"] by (auto simp: tick_eq escalate_or_evict_def)
    then show ?thesis using b(1) by blast
  qed
qed

theorem watchdog_frees_session_witness:
  "\<exists>b c. evict_timed_out_turns demo_fallback_env 700000 0 (demo_agent\<lparr>ag_since := Some 0\<rparr>) = Some b
    \<and> evict_timed_out_turns demo_fallback_env 705000 5000 b = Some c \<and> current_turn c = None"
proof -
  have "current_turn (demo_agent\<lparr>ag_since := Some 0\<rparr>) = Some (demo_turn ''g'')" "configured_tiers (demo_agent\<lparr>ag_since := Some 0\<rparr>) = []"
    using demo_agent_turn demo_agent_tiers tiers_cong [of "demo_agent\<lparr>ag_since := Some 0\<rparr>" demo_agent]
    by (simp_all add: current_turn_def ag_session_def)
  then show ?thesis
    using watchdog_frees_session [of "demo_agent\<lparr>ag_since := Some 0\<rparr>" "demo_turn ''g''" 0 700000 705000] by (simp add: elapsed_secs_def)
qed

subsection \<open>A pinned turn stays on its tier\<close>

definition pinned_to :: "string \<Rightarrow> fallback_effect list \<Rightarrow> agent \<Rightarrow> bool" where
  "pinned_to r out a \<longleftrightarrow> waits_for_answer a
     \<and> (case current_turn a of None \<Rightarrow> True | Some t \<Rightarrow> wt_source t = OperatorExplicit \<and> ss_pinned (ag_session a) = Some r)
     \<and> (\<exists>new. ag_out a = out @ new \<and> list_all (asks_only (\<lambda>role. role = r)) new)"

lemma pinned_target: "ss_pinned s = Some r \<Longrightarrow> resolve_model_execution_target node s ''text.generate'' fallback = (node, r, None)"
  by (simp add: resolve_model_execution_target_def text_capability_def)

lemma retry_out:
  assumes "current_turn a = Some t" "ss_pinned (ag_session a) = Some r"
  shows "\<exists>m. ag_out (retry_active_turn_after_provider_failure fe nt a) = ag_out a @ [TurnEvent ''loop_recovering'', AskedModel (fe_node fe) r None m]"
proof -
  define a1 where "a1 = on_gate (on_session (\<lambda>s.
            on_turn (\<lambda>t. t\<lparr>wt_iteration := wt_iteration t + 1, wt_phase := WaitingModel\<rparr>)
              (snd (increment_provider_repair_attempts (case nt of Some n \<Rightarrow> set_provider_repair_note n s | None \<Rightarrow> s))))) a"
  have "current_turn a1 \<noteq> None" "ss_pinned (ag_session a1) = Some r" "ag_out a1 = ag_out a"
    using assms by (auto simp: a1_def agent_simps on_turn_def increment_provider_repair_attempts_def set_provider_repair_note_def
        split: option.splits)
  then show ?thesis
    unfolding retry_active_turn_after_provider_failure_def a1_def [symmetric] Let_def by (simp add: pinned_target put_def)
qed

lemma pinned_ended:
  assumes "pinned_to r out a" "list_all (asks_only (\<lambda>role. role = r)) es"
  shows "pinned_to r out (on_gate (fail_active_turn now msg) (put es a))"
proof -
  let ?b = "on_gate (fail_active_turn now msg) (put es a)"
  obtain new where new: "ag_out a = out @ new" "list_all (asks_only (\<lambda>role. role = r)) new" "waits_for_answer a"
    using assms(1) by (auto simp: pinned_to_def)
  have "waits_for_answer ?b"
    using fail_with_heal(1) [of now msg es a] by (intro waits_same [OF new(3) fail_with_heal(2)]) simp
  moreover have "ag_out ?b = out @ (new @ es)" "list_all (asks_only (\<lambda>role. role = r)) (new @ es)"
    using new assms(2) by (simp_all add: put_def)
  ultimately show ?thesis
    unfolding pinned_to_def fail_with_heal(1) by auto
qed

lemma put_Nil: "put [] a = a"
  by (simp add: put_def)

lemma pinned_failed: "pinned_to r out a \<Longrightarrow> pinned_to r out (on_gate (fail_active_turn now msg) a)"
  using pinned_ended [of r out a "[]" now msg] by (simp add: put_Nil)

lemma pinned_retry:
  assumes "pinned_to r out a" "current_turn a = Some t"
  shows "pinned_to r out (retry_active_turn_after_provider_failure fe nt a)"
proof -
  have p: "ss_pinned (ag_session a) = Some r" "wt_source t = OperatorExplicit" "waits_for_answer a"
    using assms by (simp_all add: pinned_to_def)
  let ?b = "retry_active_turn_after_provider_failure fe nt a"
  obtain t' where t': "current_turn ?b = Some t'" "wt_id t' = wt_id t" "wt_phase t' = WaitingModel" "wt_source t' = wt_source t"
    using retry_turn(1) [OF assms(2)] by blast
  have "waits_for_answer ?b"
    using retry_turn(2) [OF assms(2)] t' p(3) assms(2)
    by (intro waits_same [OF p(3)]) (auto simp: same_ladder_def waits_for_answer_def)
  then show ?thesis
    using retry_out [OF assms(2) p(1), of fe nt] retry_turn(3) [OF assms(2)] t' p assms(1)
    by (auto simp: pinned_to_def asks_only_def)
qed

lemma pinned_error:
  assumes "pinned_to r out a" "current_turn a = Some t"
  shows "\<exists>b. provider_error fe now wall e t a = Some b \<and> pinned_to r out b"
proof -
  define a1 where "a1 = on_gate (on_session (on_turn (\<lambda>t. t\<lparr>wt_stream_retries := wt_stream_retries t + 1\<rparr>))) a"
  have a1: "current_turn a1 = Some (t\<lparr>wt_stream_retries := wt_stream_retries t + 1\<rparr>)" "same_ladder a a1" "ag_out a1 = ag_out a"
    "ss_pinned (ag_session a1) = ss_pinned (ag_session a)"
    using assms(2) by (simp_all add: a1_def agent_simps on_turn_def same_ladder_def)
  then have "pinned_to r out a1"
    using assms waits_same [OF _ a1(2)] by (auto simp: pinned_to_def waits_for_answer_def same_ladder_def)
  then have s: "pinned_to r out (retry_active_turn_after_provider_failure fe None a1)"
    using pinned_retry a1(1) by blast
  have adv: "advance_turn_to_next_fallback_tier fe now wall c failed msg a = Some (on_gate (fail_active_turn now msg) a)" for c failed msg
    using assms by (intro advance_pinned [OF assms(2)]) (simp add: pinned_to_def)
  show ?thesis
    unfolding provider_error_def a1_def [symmetric] adv
    using pinned_retry [OF assms] s pinned_ended [OF assms(1)] pinned_failed [OF assms(1)]
    by (cases "classify_provider_error e") (auto simp: asks_only_def)
qed

interpretation pinned: returning failing_step "pinned_to r out"
proof
  fix a and ev :: "fallback_env \<times> nat \<times> nat \<times> no_answer"
  assume a: "pinned_to r out a"
  obtain fe now wall x where ev: "ev = (fe, now, wall, x)" by (cases ev)
  show "\<exists>b. failing_step a ev = Some b \<and> pinned_to r out b"
  proof (cases "current_turn a")
    case None
    then show ?thesis using a by (simp add: ev)
  next
    case (Some t)
    have "wt_source t = OperatorExplicit" "wt_phase t \<noteq> WaitingVoice" "ag_probe a \<noteq> Some (wt_id t)"
      using a Some by (simp_all add: pinned_to_def waits_for_answer_def)
    then show ?thesis
      using Some pinned_error [OF a Some] pinned_failed [OF a] by (cases x) (simp_all add: ev handle_model_error_def advance_pinned)
  qed
qed


definition demo_pinned :: agent where
  "demo_pinned = demo_agent\<lparr>ag_gate := demo_gate\<lparr>ga_session := demo_session\<lparr>ss_pinned := Some ''model.mlx'',
     ss_turn := Some ((demo_turn ''g'')\<lparr>wt_source := OperatorExplicit\<rparr>)\<rparr>\<rparr>\<rparr>"


text \<open>While the network is offline the first request ignores the pin, and a retry of the same turn goes to the pinned role
  although the network is still offline.\<close>

lemma offline_overrides_pin:
  "ag_out (retry_active_turn_after_provider_failure demo_fallback_env None (dispatch_first_request demo_fallback_env True demo_pinned))
     = [AskedModel (fe_node demo_fallback_env) ''model.ollama'' None None, TurnEvent ''loop_recovering'',
        AskedModel (fe_node demo_fallback_env) ''model.mlx'' None None]"
  by code_simp

subsection \<open>One notice per degraded stretch\<close>

text \<open>What the agent handles about its models: an error of a model, a tick of the watchdog and an answer to the probe.\<close>

datatype model_event = ModelErrored string TaskErrorPayload | Ticked | ProbeAnswered

fun model_step :: "agent \<Rightarrow> fallback_env \<times> nat \<times> nat \<times> model_event \<Rightarrow> agent option" where
  "model_step a (fe, now, wall, ev) =
     (case ev of
        ModelErrored tid e \<Rightarrow> handle_model_error fe now wall tid e a
      | Ticked \<Rightarrow> evict_timed_out_turns fe now wall a
      | ProbeAnswered \<Rightarrow> Some (if ag_probe a \<noteq> None then handle_fallback_probe_response False a else a))"

definition announced :: "string \<Rightarrow> fallback_effect list \<Rightarrow> nat" where
  "announced k es = length (filter (\<lambda>e. e = TurnEvent k) es)"

lemma announced_append [simp]: "announced k (xs @ ys) = announced k xs + announced k ys" "announced k [] = 0"
  "announced k (e # es) = (if e = TurnEvent k then 1 else 0) + announced k es"
  by (simp_all add: announced_def)

definition notices_match :: "SessionState \<Rightarrow> fallback_effect list \<Rightarrow> bool" where
  "notices_match s es \<longleftrightarrow>
     (case ss_override s of
        None \<Rightarrow> announced ''model_fallback'' es = announced ''model_fallback_cleared'' es
      | Some ov \<Rightarrow> fo_notice_sent ov \<and> announced ''model_fallback'' es = Suc (announced ''model_fallback_cleared'' es))"

definition notice_inv :: "agent \<Rightarrow> bool" where
  "notice_inv a \<longleftrightarrow> max_tier_of (configured_tiers a) < 255 \<and> notices_match (ag_session a) (ag_out a)"

text \<open>Steps that change neither the override nor the notices.\<close>

definition unnoticed :: "agent \<Rightarrow> agent \<Rightarrow> bool" where
  "unnoticed a b \<longleftrightarrow> configured_tiers b = configured_tiers a \<and> ss_override (ag_session b) = ss_override (ag_session a)
     \<and> (\<exists>new. ag_out b = ag_out a @ new \<and> announced ''model_fallback'' new = 0 \<and> announced ''model_fallback_cleared'' new = 0)"

lemma unnoticed_inv: "notice_inv a \<Longrightarrow> unnoticed a b \<Longrightarrow> notice_inv b"
  by (auto simp: notice_inv_def unnoticed_def notices_match_def split: option.splits)

lemma unnoticed_trans: "unnoticed a b \<Longrightarrow> unnoticed b c \<Longrightarrow> unnoticed a c"
  by (auto simp: unnoticed_def)

lemma unnoticed_put: "announced ''model_fallback'' es = 0 \<Longrightarrow> announced ''model_fallback_cleared'' es = 0 \<Longrightarrow> unnoticed a (put es a)"
  by (auto simp: unnoticed_def put_def ag_session_def intro: tiers_cong)

lemma unnoticed_gate:
  "ss_role (ga_session (f (ag_gate a))) = ss_role (ga_session (ag_gate a)) \<Longrightarrow>
   ss_override (ga_session (f (ag_gate a))) = ss_override (ga_session (ag_gate a)) \<Longrightarrow> unnoticed a (on_gate f a)"
  using tiers_cong [of "on_gate f a" a] by (simp add: unnoticed_def ag_session_def on_gate_def)

lemma unnoticed_session:
  "ss_role (f (ag_session a)) = ss_role (ag_session a) \<Longrightarrow> ss_override (f (ag_session a)) = ss_override (ag_session a) \<Longrightarrow>
   unnoticed a (on_gate (on_session f) a)"
  by (rule unnoticed_gate) (simp_all add: on_session_def ag_session_def)

lemma unnoticed_clock:
  "ag_gate b = ag_gate a \<Longrightarrow> ag_configured b = ag_configured a \<Longrightarrow> ag_out b = ag_out a \<Longrightarrow> unnoticed a b"
  using tiers_cong [of b a] by (simp add: unnoticed_def ag_session_def)

lemma unnoticed_fail: "unnoticed a (on_gate (fail_active_turn now msg) a)"
  by (rule unnoticed_gate) simp_all

lemma unnoticed_retry: "unnoticed a (retry_active_turn_after_provider_failure fe nt a)"
proof -
  define a1 where "a1 = on_gate (on_session (\<lambda>s.
            on_turn (\<lambda>t. t\<lparr>wt_iteration := wt_iteration t + 1, wt_phase := WaitingModel\<rparr>)
              (snd (increment_provider_repair_attempts (case nt of Some n \<Rightarrow> set_provider_repair_note n s | None \<Rightarrow> s))))) a"
  have "unnoticed a a1"
    unfolding a1_def by (rule unnoticed_session)
      (auto simp: on_turn_def increment_provider_repair_attempts_def set_provider_repair_note_def split: option.splits)
  then show ?thesis
    unfolding retry_active_turn_after_provider_failure_def a1_def [symmetric] Let_def
    by (auto split: prod.splits intro!: unnoticed_trans [OF _ unnoticed_put])
qed

lemma dispatch_notice:
  assumes "notice_inv a" "current_turn a = Some t"
  shows "notice_inv (dispatch_tier c failed wall tier role orc node a)"
proof -
  let ?b = "dispatch_tier c failed wall tier role orc node a"
  have "configured_tiers ?b = configured_tiers a"
    using dispatch_tier_turn same_ladder_tiers by blast
  moreover have "notices_match (ag_session ?b) (ag_out ?b)"
    using assms
    by (auto simp: dispatch_tier_def degrade_def notice_inv_def notices_match_def agent_simps on_turn_def Let_def split: option.splits)
  ultimately show ?thesis using assms(1) by (simp add: notice_inv_def)
qed

lemma advance_notice:
  assumes "notice_inv a" "current_turn a = Some t"
  shows "\<exists>b. advance_turn_to_next_fallback_tier fe now wall c failed msg a = Some b \<and> notice_inv b"
proof (cases "wt_source t = OperatorExplicit")
  case True
  then show ?thesis using assms unnoticed_inv [OF assms(1) unnoticed_fail] by (simp add: advance_pinned)
next
  case False
  have mx: "max_tier_of (configured_tiers a) < 255" using assms(1) by (simp add: notice_inv_def)
  obtain n where n: "ladder_next fe c failed a = Some n"
    using next_tier_returns [OF mx] unfolding ladder_next_def by blast
  have "unnoticed a (exhausted failed now a)"
    unfolding exhausted_def by (rule unnoticed_trans [OF unnoticed_put unnoticed_fail]) simp_all
  then show ?thesis
    unfolding advance_walks [OF assms(2) False n] Let_def
    using dispatch_notice [OF assms] unnoticed_inv [OF assms(1)] by auto
qed

lemma error_notice:
  assumes "notice_inv a" "current_turn a = Some t"
  shows "\<exists>b. provider_error fe now wall e t a = Some b \<and> notice_inv b"
proof -
  define a1 where "a1 = on_gate (on_session (on_turn (\<lambda>t. t\<lparr>wt_stream_retries := wt_stream_retries t + 1\<rparr>))) a"
  have "unnoticed a a1"
    unfolding a1_def by (rule unnoticed_session) (simp_all add: on_turn_def)
  then have s: "notice_inv (retry_active_turn_after_provider_failure fe None a1)"
    using unnoticed_inv [OF assms(1)] unnoticed_trans unnoticed_retry by blast
  have f: "notice_inv (on_gate (fail_active_turn now msg) (put [HealPushed tag] a))" "notice_inv (on_gate (fail_active_turn now msg) a)" for msg tag
    by (intro unnoticed_inv [OF assms(1)] unnoticed_trans [OF unnoticed_put unnoticed_fail] unnoticed_fail; simp)+
  show ?thesis
    unfolding provider_error_def a1_def [symmetric]
    using s f advance_notice [OF assms] unnoticed_inv [OF assms(1) unnoticed_retry]
    by (cases "classify_provider_error e") auto
qed

lemma after_tick_notice: "notice_inv b \<Longrightarrow> notice_inv (after_tick fe now wall b)"
proof -
  assume b: "notice_inv b"
  let ?c = "on_gate (on_session (\<lambda>s. snd (evict_stale_queued_tasks (QUEUE_STALE_SECS * 1000) now s))) b"
  have c: "notice_inv ?c"
    by (rule unnoticed_inv [OF b unnoticed_session]) simp_all
  have "configured_tiers (probe_degraded_sessions fe wall ?c) = configured_tiers ?c"
    by (rule tiers_cong) simp_all
  moreover have "notices_match (ag_session (probe_degraded_sessions fe wall ?c)) (ag_out (probe_degraded_sessions fe wall ?c))"
    using c by (auto simp: probe_degraded_sessions_def notice_inv_def notices_match_def agent_simps split: option.splits)
  ultimately show "notice_inv (after_tick fe now wall b)"
    using c by (simp add: after_tick_def notice_inv_def)
qed

lemma tick_notice:
  assumes "notice_inv a"
  shows "\<exists>b. evict_timed_out_turns fe now wall a = Some b \<and> notice_inv b"
proof -
  let ?a = "watch_turns now a" and ?c = "(watch_turns now a)\<lparr>ag_seen := None, ag_signature := None\<rparr>"
  define x where "x = (case timed_out now ?a of Some y \<Rightarrow> Some y | None \<Rightarrow> catch_all now ?a)"
  have rec: "unnoticed a ?a"
    by (rule unnoticed_clock) (auto simp: watch_turns_def Let_def split: option.splits)
  have c: "notice_inv ?c"
    by (rule unnoticed_inv [OF assms unnoticed_trans [OF rec unnoticed_clock]]) simp_all
  have e: "notice_inv (evict_stuck t ph ?a)" for t ph
    unfolding evict_stuck_def
    by (intro unnoticed_inv [OF assms] unnoticed_trans [OF rec] unnoticed_trans [OF unnoticed_clock unnoticed_trans [OF unnoticed_session unnoticed_put]])
      simp_all
  have "\<exists>b. escalate_or_evict fe now wall x ?a = Some b \<and> notice_inv b"
  proof (cases x)
    case None
    then show ?thesis using unnoticed_inv [OF assms rec] by (simp add: escalate_or_evict_def)
  next
    case (Some y)
    obtain t ph where y: "y = (t, ph)" by (cases y)
    show ?thesis
    proof (cases "ph = ''WaitingModel''")
      case True
      then have "current_turn ?a = Some t"
        using Some y silent_turn [of now ?a t] catch_all_phase [of now ?a t ph] by (auto simp: x_def split: option.splits)
      then have "current_turn ?c = Some t" by (simp add: current_turn_def ag_session_def)
      then show ?thesis using advance_notice [OF c] True Some y by (simp add: escalate_or_evict_def)
    next
      case False
      then show ?thesis using e Some y by (simp add: escalate_or_evict_def)
    qed
  qed
  then show ?thesis
    unfolding tick_eq x_def [symmetric] using after_tick_notice by auto
qed

lemma probe_notice: "notice_inv a \<Longrightarrow> notice_inv (handle_fallback_probe_response failed a)"
proof -
  assume a: "notice_inv a"
  have "configured_tiers (handle_fallback_probe_response failed a) = configured_tiers a"
    by (rule tiers_cong) (auto simp: handle_fallback_probe_response_def Let_def agent_simps split: option.splits)
  moreover have "notices_match (ag_session (handle_fallback_probe_response failed a)) (ag_out (handle_fallback_probe_response failed a))"
    using a by (auto simp: handle_fallback_probe_response_def notice_inv_def notices_match_def Let_def agent_simps split: option.splits)
  ultimately show "notice_inv (handle_fallback_probe_response failed a)" using a by (simp add: notice_inv_def)
qed

interpretation notices: returning model_step notice_inv
proof
  fix a and ev :: "fallback_env \<times> nat \<times> nat \<times> model_event"
  assume a: "notice_inv a"
  obtain fe now wall x where ev: "ev = (fe, now, wall, x)" by (cases ev)
  show "\<exists>b. model_step a ev = Some b \<and> notice_inv b"
    using a tick_notice [OF a] probe_notice [OF a] error_notice [OF a]
    by (cases x) (auto simp: ev handle_model_error_def split: option.split)
qed

text \<open>However often a session walks its ladder, the user hears of a fallback once per degraded stretch: starting from a
  session without a fallback, every history of model errors, watchdog ticks and probe answers returns, and at its end
  the notices of a fallback exceed those of a recovery by one exactly while a fallback is in effect.\<close>

theorem one_notice_per_stretch:
  assumes "ss_override (ag_session a) = None" "ag_out a = []" "length (configured_tiers a) \<le> 255"
  shows "\<exists>b. run_opt model_step a evs = Some b
    \<and> announced ''model_fallback'' (ag_out b)
      = announced ''model_fallback_cleared'' (ag_out b) + (if ss_override (ag_session b) = None then 0 else 1)"
proof -
  have "notice_inv a"
    using assms ladder_short by (simp add: notice_inv_def notices_match_def)
  then obtain b where "run_opt model_step a evs = Some b" "notice_inv b"
    using notices.run_returns by blast
  then show ?thesis
    by (auto simp: notice_inv_def notices_match_def split: option.splits)
qed

theorem one_notice_per_stretch_witness:
  "\<exists>b. run_opt model_step demo_agent (replicate 4 (demo_fallback_env, 400000, 0, Ticked)) = Some b
    \<and> announced ''model_fallback'' (ag_out b)
      = announced ''model_fallback_cleared'' (ag_out b) + (if ss_override (ag_session b) = None then 0 else 1)"
  using one_notice_per_stretch [of demo_agent "replicate 4 (demo_fallback_env, 400000, 0, Ticked)"]
  by (simp add: demo_agent_def ag_session_def demo_gate_def demo_session_def configured_tiers_def ladder_config_def)

subsection \<open>What the handlers leave open\<close>

lemma after_tick_keeps_plan:
  "set (ag_out b) \<subseteq> set (ag_out (after_tick fe now wall b)) \<and> ss_parked_plan (ag_session (after_tick fe now wall b)) = ss_parked_plan (ag_session b)"
proof -
  define c where "c = on_gate (on_session (\<lambda>s. snd (evict_stale_queued_tasks (QUEUE_STALE_SECS * 1000) now s))) b"
  have "ag_out c = ag_out b" "ss_parked_plan (ag_session c) = ss_parked_plan (ag_session b)"
    by (simp_all add: c_def agent_simps evict_stale_queued_tasks_def Let_def)
  then show ?thesis
    unfolding after_tick_def c_def [symmetric]
    by (cases "ss_override (ag_session c)") (auto simp: probe_degraded_sessions_def agent_simps)
qed

text \<open>An evicted plan stays parked: the watchdog fails the same task again after every further waiting time.\<close>

lemma parked_plan_evicted_again:
  assumes "current_turn a = None" "ss_parked_approval (ag_session a) = None" "ss_parked_plan (ag_session a) = Some t"
    "ag_signature a = Some (''parked_plan:'' @ wt_id t)" "ag_seen a = Some s" "300 \<le> elapsed_secs s now"
  shows "\<exists>b. evict_timed_out_turns fe now wall a = Some b \<and> TaskFailed (wt_task t) \<in> set (ag_out b) \<and> ss_parked_plan (ag_session b) = Some t"
proof -
  have "wait_signature (ag_session a) = Some (''parked_plan:'' @ wt_id t)"
    using assms by (simp add: wait_signature_def current_turn_def)
  then have r: "ag_seen (watch_turns now a) = Some s"
    using assms by (simp add: watch_turns_def Let_def)
  have "timed_out now (watch_turns now a) = Some (t, ''PlanningDiscussion(parked)'')"
    using assms r by (simp add: timed_out_def Let_def WAITING_APPROVAL_SECS_def)
  then have r: "evict_timed_out_turns fe now wall a
      = Some (after_tick fe now wall (evict_stuck t ''PlanningDiscussion(parked)'' (watch_turns now a)))"
    by (simp add: tick_eq escalate_or_evict_def)
  have "TaskFailed (wt_task t) \<in> set (ag_out (evict_stuck t ''PlanningDiscussion(parked)'' (watch_turns now a)))"
    "ss_parked_plan (ag_session (evict_stuck t ''PlanningDiscussion(parked)'' (watch_turns now a))) = Some t"
    using assms(3) watch_turns_keeps(2) [of now a] by (simp_all add: evict_stuck_def agent_simps)
  then show ?thesis
    using r after_tick_keeps_plan [of "evict_stuck t ''PlanningDiscussion(parked)'' (watch_turns now a)" fe now wall] by auto
qed

text \<open>After a silent model the oracle is asked the same question each time: it does not know which of its picks failed.\<close>

lemma silent_oracle_repeats:
  "k < sat_add8 mx MAX_ORACLE_EXTRA_TIERS \<Longrightarrow> k' < sat_add8 mx MAX_ORACLE_EXTRA_TIERS \<Longrightarrow>
     consult_routing_oracle fe tiers k mx None = consult_routing_oracle fe tiers k' mx None"
  by (simp add: consult_routing_oracle_def)

text \<open>A turn of a cron job in a pinned session is not marked as pinned, so its failures escalate.\<close>

lemma pinned_cron_turn_escalates:
  "it_cron_job task \<noteq> None \<Longrightarrow> wt_source (new_turn env tid task content (s\<lparr>ss_pinned := Some r\<rparr>)) = CronPrimary"
  by (simp add: new_turn_def)

text \<open>In a session that fell back to the second tier, a new turn goes to that tier; when it fails there, the walk starts
  from the first tier and sends the turn to the second one again.\<close>

lemma degraded_turn_repeats_tier:
  assumes "current_turn a = Some t" "wt_tier t = 0" "configured_tiers a = []" "ss_pinned (ag_session a) = None"
    "ss_override (ag_session a) = Some ov" "fo_active ov = ''model.openrouter''"
  shows "resolve_model_execution_target node (ag_session a) ''text.generate'' DEFAULT_TEXT_MODEL_ROLE = (node, ''model.openrouter'', None)"
    and "ladder_next fe ProviderFailure failed a = Some 1 \<and> next_role None 1 a = ''model.openrouter''"
  using assms
  by (simp_all add: resolve_model_execution_target_def text_capability_def ladder_next_def next_ladder_tier_def last_ladder_tier_def
      current_tier_def sat_add8_def next_role_def next_tier_def role_for_tier_def DEFAULT_FALLBACK_TIERS_def)

text \<open>On a ladder of 256 tiers of the failed provider the skip never returns.\<close>

lemma skip_diverges:
  assumes "\<And>n. n \<le> 255 \<Longrightarrow> provider_for_role (role_for_tier tiers n) = Some failed" "k \<le> 255"
  shows "skip_tiers tiers 255 failed k = None"
proof -
  have "mx \<noteq> 255 \<or> \<not> j \<le> 255 \<or> ts \<noteq> tiers \<or> f \<noteq> failed" if "skip_tiers ts mx f j = Some y" for ts mx f j y
    using that
  proof (rule skip_tiers.raw_induct [where P = "\<lambda>ts mx f j y. mx \<noteq> 255 \<or> \<not> j \<le> 255 \<or> ts \<noteq> tiers \<or> f \<noteq> failed", rotated])
    fix skip ts mx f j y
    assume IH: "\<And>ts mx f j y. skip ts mx f j = Some y \<Longrightarrow> mx \<noteq> 255 \<or> \<not> j \<le> 255 \<or> ts \<noteq> tiers \<or> f \<noteq> failed"
      and body: "(if j \<le> mx \<and> provider_for_role (role_for_tier ts j) = Some f then skip ts mx f (sat_add8 j 1) else Some j) = Some y"
    show "mx \<noteq> 255 \<or> \<not> j \<le> 255 \<or> ts \<noteq> tiers \<or> f \<noteq> failed"
    proof (rule ccontr)
      assume neg: "\<not> (mx \<noteq> 255 \<or> \<not> j \<le> 255 \<or> ts \<noteq> tiers \<or> f \<noteq> failed)"
      then have "skip ts mx f (sat_add8 j 1) = Some y" using body assms(1) by simp
      from IH [OF this] neg show False by (simp add: sat_add8_def)
    qed
  qed
  from this [of tiers 255 failed k] assms(2) show ?thesis by (cases "skip_tiers tiers 255 failed k") auto
qed

subsection \<open>Errors no other provider can help with\<close>

lemma fail_log:
  assumes "current_turn a = Some t"
  shows "ga_log (ag_gate (on_gate (fail_active_turn now msg) (put es a))) = ga_log (ag_gate a) @ [TurnFailed msg]"
proof -
  have "ga_log (drain_next_user_task g) = ga_log g" for g
    by (auto simp: drain_next_user_task_def split: prod.splits option.splits)
  then show ?thesis
    using assms by (simp add: fail_active_turn_def emit_def agent_simps)
qed

text \<open>C38. An error that no other provider can help with - rejected credentials, a content filter, a failure that is not the
  provider's - ends the turn at once with a failure the user sees, and no model is asked again, whatever the ladder and
  the oracle still offer.\<close>

theorem hopeless_error_fails_turn:
  assumes "current_turn a = Some t" "\<not> is_content_error e" "classify_provider_error e \<in> {Fatal, ContentBlocked, Unclassified}"
  shows "\<exists>b msg new. provider_error fe now wall e t a = Some b \<and> current_turn b = None
    \<and> ga_log (ag_gate b) = ga_log (ag_gate a) @ [TurnFailed msg]
    \<and> ag_out b = ag_out a @ new \<and> list_all (asks_only (\<lambda>role. False)) new"
proof -
  have "\<exists>msg es. provider_error fe now wall e t a = Some (on_gate (fail_active_turn now msg) (put es a)) \<and> list_all (asks_only (\<lambda>role. False)) es"
  proof (cases "classify_provider_error e = Unclassified")
    case True
    then show ?thesis
      using assms(2) by (intro exI [of _ "''Model failed: '' @ display_message e"] exI [of _ "[]"]) (simp add: provider_error_def put_Nil)
  next
    case False
    then show ?thesis
      using assms(2,3) by (fastforce simp: provider_error_def asks_only_def)
  qed
  then obtain msg es where b: "provider_error fe now wall e t a = Some (on_gate (fail_active_turn now msg) (put es a))"
    "list_all (asks_only (\<lambda>role. False)) es" by blast
  then show ?thesis
    using fail_log [OF assms(1), of now msg es] fail_with_heal(1) [of now msg es a]
    by (intro exI [of _ "on_gate (fail_active_turn now msg) (put es a)"] exI [of _ msg] exI [of _ es]) (simp add: put_def)
qed

definition demo_error :: TaskErrorPayload where
  "demo_error = \<lparr>te_kind = ''provider_failure'', te_message = ''no'', te_code = None, te_component = None, te_provider = Some ''gemini'',
     te_capability = None, te_retryable = None, te_sub_kind = None, te_status = Some 401, te_error_class = None\<rparr>"

theorem hopeless_error_fails_turn_witness:
  "\<exists>b msg new. provider_error demo_fallback_env 0 0 demo_error (demo_turn ''g'') demo_agent = Some b \<and> current_turn b = None
    \<and> ga_log (ag_gate b) = ga_log (ag_gate demo_agent) @ [TurnFailed msg]
    \<and> ag_out b = ag_out demo_agent @ new \<and> list_all (asks_only (\<lambda>role. False)) new"
  by (rule hopeless_error_fails_turn [OF demo_agent_turn])
     (simp_all add: demo_error_def is_content_error_def classify_provider_error_def class_of_label_def class_of_sub_kind_def class_of_status_def)

subsection \<open>The router's classes reach the agent\<close>

definition labelled_or_plain :: "TaskErrorPayload \<Rightarrow> bool" where
  "labelled_or_plain e \<longleftrightarrow>
     te_error_class e \<in> {Some ''fatal'', Some ''content_blocked'', Some ''switch_provider'', Some ''retry_same_provider''}
   \<or> te_error_class e = None \<and> te_sub_kind e = None \<and> te_kind e = ''provider_failure'' \<and> te_capability e = Some ''text.generate''"

lemma labelled_label:
  "cls \<in> set [''fatal'', ''content_blocked'', ''switch_provider'', ''retry_same_provider''] \<Longrightarrow> labelled_or_plain (failed_as p sub retry cls)"
  by (auto simp: labelled_or_plain_def failed_as_def)

lemma labelled_code: "labelled_or_plain e \<Longrightarrow> labelled_or_plain (e\<lparr>te_code := c\<rparr>)"
  by (simp add: labelled_or_plain_def)

lemma labelled_plain: "labelled_or_plain ((provider_failure source (Some ''text.generate'') p msg)\<lparr>te_status := st\<rparr>)"
  by (simp add: labelled_or_plain_def provider_failure_def)

lemma labelled_if: "labelled_or_plain x \<Longrightarrow> labelled_or_plain y \<Longrightarrow> labelled_or_plain (if c then x else y)"
  by simp

lemma router_labels: "labelled_or_plain (classify_provider_failure tbl (Some ''text.generate'') provider message)"
  unfolding classify_provider_failure_def Let_def
  by (rule labelled_if, rule labelled_code, rule labelled_label, simp, rule labelled_if, rule labelled_code, rule labelled_label, simp,
      (rule labelled_if, rule labelled_label, simp)+, rule labelled_plain)

lemma classify_labelled: "te_error_class e = Some l \<Longrightarrow> class_of_label (Some l) = Some c \<Longrightarrow> classify_provider_error e = c"
  by (simp add: classify_provider_error_def)

lemma labels_known: "l \<in> {''fatal'', ''content_blocked'', ''switch_provider'', ''retry_same_provider''} \<Longrightarrow> \<exists>c. class_of_label (Some l) = Some c"
  by (auto simp: class_of_label_def)

lemma classify_plain:
  assumes "te_error_class e = None" "te_sub_kind e = None" "te_kind e = ''provider_failure''" "te_capability e = Some ''text.generate''"
  shows "classify_provider_error e \<noteq> Unclassified"
proof -
  have "class_of_label None = None" "class_of_sub_kind None = None" "class_of_status n \<noteq> Unclassified" for n
    by (simp_all add: class_of_label_def class_of_sub_kind_def class_of_status_def)
  then show ?thesis
    using assms by (simp add: classify_provider_error_def split: option.split)
qed

text \<open>The agent acts on every failure of a text request as the router classified it: a label the router sets is the class
  the agent uses, and a failure the router could not label still leaves its provider or is fatal, by the status in its
  message, instead of failing the turn as unclassified.\<close>

theorem router_classes_reach_agent:
  "case te_error_class (classify_provider_failure tbl (Some ''text.generate'') provider message) of
     Some label \<Rightarrow> class_of_label (Some label)
       = Some (classify_provider_error (classify_provider_failure tbl (Some ''text.generate'') provider message))
   | None \<Rightarrow> classify_provider_error (classify_provider_failure tbl (Some ''text.generate'') provider message) \<noteq> Unclassified"
proof -
  define e where "e = classify_provider_failure tbl (Some ''text.generate'') provider message"
  have "labelled_or_plain e"
    unfolding e_def by (rule router_labels)
  then show ?thesis
    unfolding e_def [symmetric]
  proof (cases "te_error_class e")
    case None
    then show "case te_error_class e of Some label \<Rightarrow> class_of_label (Some label) = Some (classify_provider_error e)
        | None \<Rightarrow> classify_provider_error e \<noteq> Unclassified"
      using \<open>labelled_or_plain e\<close> classify_plain [of e] by (simp add: labelled_or_plain_def)
  next
    case (Some l)
    then have "\<exists>c. class_of_label (Some l) = Some c"
      using \<open>labelled_or_plain e\<close> by (intro labels_known) (simp add: labelled_or_plain_def)
    then show "case te_error_class e of Some label \<Rightarrow> class_of_label (Some label) = Some (classify_provider_error e)
        | None \<Rightarrow> classify_provider_error e \<noteq> Unclassified"
      using classify_labelled [OF Some] Some by auto
  qed
qed

end
