(* ===== verification/NodeRegistry.thy ===== *)
theory NodeRegistry
  imports ModelOracle Perimeter "HOL-Library.AList" "HOL-Library.Sublist"
begin

section \<open>The node registry\<close>

text \<open>
  Models what a hotel knows about the other nodes of the mesh (\<^verbatim>\<open>crates/ansible-mesh-core/src/registry.rs\<close>) and how
  a node makes itself known (\<^verbatim>\<open>heartbeat.rs\<close>): heartbeats, capability syncs cut into chunks and put together again,
  hotel-state syncs cut to the size of a datagram. Instants are natural numbers of nanoseconds; \<open>elapsed\<close> is the
  truncated difference. Percentages (\<open>f32\<close>) are rationals. The length of a JSON encoding is an argument of the
  definitions that measure it, and no theorem assumes anything of it.
\<close>

subsection \<open>Nodes\<close>

datatype NodeRole = PersonalDevice | BatteryConstrained | ModelNode | McpNode | StorageNode | ModelManagerNode
  | AnsibleNode | InfraController | OtherNode string

record NodeConstraints =
  nk_max_jobs :: "nat option"
  nk_latency_hint :: "nat option"
  nk_trust_level :: "string option"

record NodeCapabilities =
  nc_node :: string
  nc_roles :: "NodeRole list"
  nc_models :: "string list"
  nc_tools :: "string list"
  nc_constraints :: NodeConstraints

record NodeHealthSnapshot =
  nh_guest_count :: "nat option"
  nh_disk_free :: "rat option"
  nh_mem_free :: "rat option"
  nh_load_avg :: "rat option"
  nh_perimeter :: "PerimeterSnapshot option"

record CapabilityAdvertisement =
  ca_hotel :: string
  ca_node :: string
  ca_incarnation :: string
  ca_role :: string
  ca_availability :: string
  ca_hint :: "string option"
  ca_latency_hint :: "nat option"
  ca_max_jobs :: "nat option"
  ca_active_jobs :: nat
  ca_queue_depth :: nat

record ExecutionReachability =
  er_protocol :: string
  er_host :: string
  er_port :: nat

record NodeStatus =
  ns_capabilities :: NodeCapabilities
  ns_advertisements :: "CapabilityAdvertisement list"
  ns_reachability :: "ExecutionReachability option"
  ns_health :: "NodeHealthSnapshot option"
  ns_last_seen :: nat

type_synonym chunks = "(nat \<times> CapabilityAdvertisement list) list"

record PendingCapabilitySync =
  pc_capabilities :: NodeCapabilities
  pc_reachability :: "ExecutionReachability option"
  pc_health :: "NodeHealthSnapshot option"
  pc_total :: nat
  pc_chunks :: chunks
  pc_started :: nat

record HotelStateSyncGuest =
  hg_guest :: string
  hg_role :: string
  hg_active :: bool

record HotelStateSyncAgent =
  ha_agent :: string
  ha_persona :: string

record RemoteHotelState =
  rh_hotel :: string
  rh_node :: string
  rh_guests :: "HotelStateSyncGuest list"
  rh_agents :: "HotelStateSyncAgent list"
  rh_last_seen :: nat

type_synonym sync_key = "string \<times> 128 word"

record NodeRegistry =
  nr_nodes :: "(string \<times> NodeStatus) list"
  nr_pending :: "sync_key \<rightharpoonup> PendingCapabilitySync"
  nr_remote :: "(string \<times> RemoteHotelState) list"

definition new_registry :: NodeRegistry where
  "new_registry = \<lparr>nr_nodes = [], nr_pending = (\<lambda>_. None), nr_remote = []\<rparr>"

definition nanos_per_sec :: nat where
  "nanos_per_sec = 1000000000"

definition DEFAULT_NODE_TTL :: nat where
  "DEFAULT_NODE_TTL = 15 * nanos_per_sec"

definition PENDING_SYNC_TTL :: nat where
  "PENDING_SYNC_TTL = 30 * nanos_per_sec"

subsection \<open>Observations\<close>

definition is_fresh :: "nat \<Rightarrow> NodeStatus \<Rightarrow> bool" where
  "is_fresh now s \<longleftrightarrow> now - ns_last_seen s \<le> DEFAULT_NODE_TTL"

definition get_node_status :: "string \<Rightarrow> NodeRegistry \<Rightarrow> NodeStatus option" where
  "get_node_status node r = tbl_get (nr_nodes r) node"

definition is_node_stale :: "nat \<Rightarrow> string \<Rightarrow> NodeRegistry \<Rightarrow> bool" where
  "is_node_stale now node r = (case get_node_status node r of Some s \<Rightarrow> \<not> is_fresh now s | None \<Rightarrow> True)"

definition observe_heartbeat ::
  "nat \<Rightarrow> NodeCapabilities \<Rightarrow> ExecutionReachability option \<Rightarrow> NodeHealthSnapshot option \<Rightarrow> NodeRegistry \<Rightarrow> NodeRegistry" where
  "observe_heartbeat now caps reach health r =
     (let node = nc_node caps
      in case get_node_status node r of
           Some s \<Rightarrow> r\<lparr>nr_nodes := tbl_put node
             (s\<lparr>ns_capabilities := caps, ns_reachability := reach, ns_health := health, ns_last_seen := now\<rparr>) (nr_nodes r)\<rparr>
         | None \<Rightarrow> r\<lparr>nr_nodes := tbl_put node
             \<lparr>ns_capabilities = caps, ns_advertisements = [], ns_reachability = reach, ns_health = health, ns_last_seen = now\<rparr>
             (nr_nodes r)\<rparr>)"

definition prune_pending_syncs :: "nat \<Rightarrow> NodeRegistry \<Rightarrow> NodeRegistry" where
  "prune_pending_syncs now r =
     r\<lparr>nr_pending := (\<lambda>k. case nr_pending r k of
         Some p \<Rightarrow> if now - pc_started p \<le> PENDING_SYNC_TTL then Some p else None | None \<Rightarrow> None)\<rparr>"

text \<open>The chunks with indices \<open>0..total\<close>, if all are there, one after the other. The index and the total are \<open>u32\<close>.\<close>

definition merge_chunks :: "nat \<Rightarrow> chunks \<Rightarrow> CapabilityAdvertisement list option" where
  "merge_chunks amount cs =
     (if length cs mod 2 ^ 32 \<noteq> amount then None else map_option concat (those (map (map_of cs) [0..<amount])))"

definition pending_with ::
  "nat \<Rightarrow> NodeCapabilities \<Rightarrow> ExecutionReachability option \<Rightarrow> NodeHealthSnapshot option \<Rightarrow> nat \<Rightarrow> nat
   \<Rightarrow> CapabilityAdvertisement list \<Rightarrow> PendingCapabilitySync option \<Rightarrow> PendingCapabilitySync" where
  "pending_with now caps reach health idx amount ads old =
     (let p = (case old of Some p \<Rightarrow> p
               | None \<Rightarrow> \<lparr>pc_capabilities = caps, pc_reachability = reach, pc_health = health, pc_total = amount, pc_chunks = [],
                    pc_started = now\<rparr>)
      in p\<lparr>pc_capabilities := caps, pc_reachability := reach, pc_health := health, pc_total := amount,
           pc_chunks := AList.update idx ads (pc_chunks p)\<rparr>)"

definition observe_capability_sync_chunk ::
  "nat \<Rightarrow> NodeCapabilities \<Rightarrow> ExecutionReachability option \<Rightarrow> NodeHealthSnapshot option \<Rightarrow> 128 word \<Rightarrow> nat \<Rightarrow> nat
   \<Rightarrow> CapabilityAdvertisement list \<Rightarrow> NodeRegistry \<Rightarrow> NodeRegistry" where
  "observe_capability_sync_chunk now caps reach health sid idx amount ads r =
     (let r1 = prune_pending_syncs now r;
          key = (nc_node caps, sid);
          p = pending_with now caps reach health idx amount ads (nr_pending r1 key)
      in case merge_chunks (pc_total p) (pc_chunks p) of
           None \<Rightarrow> r1\<lparr>nr_pending := (nr_pending r1)(key \<mapsto> p)\<rparr>
         | Some merged \<Rightarrow>
             r1\<lparr>nr_pending := (nr_pending r1)(key := None),
                nr_nodes := tbl_put (nc_node caps)
                  \<lparr>ns_capabilities = pc_capabilities p, ns_advertisements = merged, ns_reachability = pc_reachability p,
                   ns_health = pc_health p, ns_last_seen = now\<rparr> (nr_nodes r1)\<rparr>)"

definition update_node ::
  "nat \<Rightarrow> 128 word \<Rightarrow> NodeCapabilities \<Rightarrow> CapabilityAdvertisement list \<Rightarrow> ExecutionReachability option
   \<Rightarrow> NodeHealthSnapshot option \<Rightarrow> NodeRegistry \<Rightarrow> NodeRegistry" where
  "update_node now sid caps ads reach health r = observe_capability_sync_chunk now caps reach None sid 0 1 ads r"

definition observe_hotel_state ::
  "nat \<Rightarrow> string \<Rightarrow> string \<Rightarrow> HotelStateSyncGuest list \<Rightarrow> HotelStateSyncAgent list \<Rightarrow> NodeRegistry \<Rightarrow> NodeRegistry" where
  "observe_hotel_state now node hotel guests agents r =
     r\<lparr>nr_remote := tbl_put node \<lparr>rh_hotel = hotel, rh_node = node, rh_guests = guests, rh_agents = agents, rh_last_seen = now\<rparr>
         (nr_remote r)\<rparr>"

subsection \<open>Queries\<close>

definition is_node_healthy :: "nat \<Rightarrow> string \<Rightarrow> NodeRegistry \<Rightarrow> bool" where
  "is_node_healthy now node r =
     (case get_node_status node r of
        None \<Rightarrow> False
      | Some s \<Rightarrow> is_fresh now s \<and>
          (case ns_health s of
             None \<Rightarrow> True
           | Some h \<Rightarrow> (case nh_disk_free h of None \<Rightarrow> True | Some v \<Rightarrow> v > 10) \<and> (case nh_mem_free h of None \<Rightarrow> True | Some v \<Rightarrow> v > 5)
               \<and> (case nh_load_avg h of None \<Rightarrow> True | Some v \<Rightarrow> v < 16)))"

definition active_nodes :: "nat \<Rightarrow> NodeRegistry \<Rightarrow> NodeStatus list" where
  "active_nodes now r = filter (is_fresh now) (map snd (nr_nodes r))"

definition remote_hotel_states :: "NodeRegistry \<Rightarrow> RemoteHotelState list" where
  "remote_hotel_states r = map snd (nr_remote r)"

definition find_nodes_with_tool :: "nat \<Rightarrow> string \<Rightarrow> NodeRegistry \<Rightarrow> NodeStatus list" where
  "find_nodes_with_tool now tool r = filter (\<lambda>s. tool \<in> set (nc_tools (ns_capabilities s))) (active_nodes now r)"

definition find_nodes_with_role :: "nat \<Rightarrow> NodeRole \<Rightarrow> NodeRegistry \<Rightarrow> NodeStatus list" where
  "find_nodes_with_role now role r = filter (\<lambda>s. role \<in> set (nc_roles (ns_capabilities s))) (active_nodes now r)"

definition advertisements_for_role :: "nat \<Rightarrow> string \<Rightarrow> NodeRegistry \<Rightarrow> CapabilityAdvertisement list" where
  "advertisements_for_role now role r =
     concat (map (\<lambda>s. filter (\<lambda>ad. ca_role ad = role) (ns_advertisements s)) (active_nodes now r))"

definition find_node_for_incarnation :: "nat \<Rightarrow> string \<Rightarrow> NodeRegistry \<Rightarrow> NodeStatus option" where
  "find_node_for_incarnation now guest r =
     find (\<lambda>s. is_fresh now s \<and> list_ex (\<lambda>ad. ca_incarnation ad = guest) (ns_advertisements s)) (map snd (nr_nodes r))"

definition find_node_id_for_guest :: "nat \<Rightarrow> string \<Rightarrow> NodeRegistry \<Rightarrow> string option" where
  "find_node_id_for_guest now guest r =
     (case find_node_for_incarnation now guest r of
        Some s \<Rightarrow> Some (nc_node (ns_capabilities s))
      | None \<Rightarrow> map_option rh_node
          (find (\<lambda>h. list_ex (\<lambda>g. hg_guest g = guest) (rh_guests h))
            (filter (\<lambda>h. now - rh_last_seen h \<le> DEFAULT_NODE_TTL) (remote_hotel_states r))))"

text \<open>\<open>resolve_guest_home_node\<close>: where the registry knows nothing, the home node of the guest's first role record; \<open>homes\<close>
  is what the graph lists for the guest.\<close>

definition resolve_guest_home_node :: "nat \<Rightarrow> (string \<Rightarrow> string option list) \<Rightarrow> NodeRegistry \<Rightarrow> string \<Rightarrow> string option" where
  "resolve_guest_home_node now homes r guest =
     (case find_node_id_for_guest now guest r of
        Some n \<Rightarrow> Some n
      | None \<Rightarrow> (case homes guest of [] \<Rightarrow> None | h # _ \<Rightarrow> h))"

subsection \<open>What a node sends\<close>

record HeartbeatPayload =
  hb_capabilities :: NodeCapabilities
  hb_reachability :: "ExecutionReachability option"
  hb_health :: "NodeHealthSnapshot option"

record CapabilitySyncPayload =
  cs_capabilities :: NodeCapabilities
  cs_reachability :: "ExecutionReachability option"
  cs_advertisements :: "CapabilityAdvertisement list"
  cs_sync :: "128 word"
  cs_index :: nat
  cs_total :: nat

record HotelStateSyncPayload =
  hs_node :: string
  hs_hotel :: string
  hs_guests :: "HotelStateSyncGuest list"
  hs_agents :: "HotelStateSyncAgent list"
  hs_profiles :: "ModelProfileRecord list"

definition MAX_SYNC_PAYLOAD_BYTES :: nat where
  "MAX_SYNC_PAYLOAD_BYTES = 900"

definition MAX_HOTEL_STATE_WIRE_BYTES :: nat where
  "MAX_HOTEL_STATE_WIRE_BYTES = 9000"

text \<open>The greedy loop over the advertisements: \<open>len\<close> is the length of the encoded payload, \<open>None\<close> a failed encoding, and
  only a batch that already has an advertisement is measured.\<close>

fun chunk_loop :: "(CapabilityAdvertisement list \<Rightarrow> nat option) \<Rightarrow> CapabilityAdvertisement list \<Rightarrow> CapabilityAdvertisement list
    \<Rightarrow> CapabilityAdvertisement list list option" where
  "chunk_loop len current [] = Some (if current = [] then [] else [current])"
| "chunk_loop len current (a # ads) =
     (if current = [] then chunk_loop len [a] ads
      else case len (current @ [a]) of
             None \<Rightarrow> None
           | Some n \<Rightarrow> if n > MAX_SYNC_PAYLOAD_BYTES then map_option ((#) current) (chunk_loop len [a] ads)
                       else chunk_loop len (current @ [a]) ads)"

definition chunk_advertisements ::
  "(CapabilitySyncPayload \<Rightarrow> nat option) \<Rightarrow> NodeCapabilities \<Rightarrow> CapabilityAdvertisement list \<Rightarrow> ExecutionReachability option
   \<Rightarrow> CapabilityAdvertisement list list option" where
  "chunk_advertisements json_len caps ads reach =
     (if ads = [] then Some [[]]
      else chunk_loop (\<lambda>candidate. json_len \<lparr>cs_capabilities = caps, cs_reachability = reach, cs_advertisements = candidate,
             cs_sync = 0, cs_index = 0, cs_total = 1\<rparr>) [] ads)"

definition emit_capability_sync ::
  "(CapabilitySyncPayload \<Rightarrow> nat option) \<Rightarrow> 128 word \<Rightarrow> NodeCapabilities \<Rightarrow> CapabilityAdvertisement list
   \<Rightarrow> ExecutionReachability option \<Rightarrow> CapabilitySyncPayload list option" where
  "emit_capability_sync json_len sid caps ads reach =
     map_option (\<lambda>chunks. map (\<lambda>(i, chunk). \<lparr>cs_capabilities = caps, cs_reachability = reach, cs_advertisements = chunk,
           cs_sync = sid, cs_index = i mod 2 ^ 32, cs_total = length chunks mod 2 ^ 32\<rparr>) (enumerate 0 chunks))
       (chunk_advertisements json_len caps ads reach)"

text \<open>The hotel state: the roster rides every datagram, the profiles are packed. \<open>wire\<close> is \<open>hotel_state_wire_len\<close>, the length
  of the signed message; \<open>None\<close> is a failed encoding.\<close>

type_synonym wire_len = "HotelStateSyncPayload \<Rightarrow> nat option"

definition over_budget :: "nat \<Rightarrow> bool" where
  "over_budget n \<longleftrightarrow> n > MAX_HOTEL_STATE_WIRE_BYTES"

text \<open>The batch so far and a further profile: the finished batches and the new one.\<close>

definition pack_profile ::
  "(ModelProfileRecord list \<Rightarrow> nat option) \<Rightarrow> ModelProfileRecord list \<Rightarrow> ModelProfileRecord
   \<Rightarrow> (ModelProfileRecord list list \<times> ModelProfileRecord list) option" where
  "pack_profile len current p =
     Option.bind (len (current @ [p])) (\<lambda>n.
       if \<not> over_budget n then Some ([], current @ [p])
       else if current = [] then Some ([], current)
       else Option.bind (len [p]) (\<lambda>m. Some ([current], if over_budget m then [] else [p])))"

fun pack_profiles ::
  "(ModelProfileRecord list \<Rightarrow> nat option) \<Rightarrow> ModelProfileRecord list \<Rightarrow> ModelProfileRecord list
   \<Rightarrow> (ModelProfileRecord list list \<times> ModelProfileRecord list) option" where
  "pack_profiles len current [] = Some ([], current)"
| "pack_profiles len current (p # ps) =
     Option.bind (pack_profile len current p) (\<lambda>(out, current').
       map_option (\<lambda>(outs, rest). (out @ outs, rest)) (pack_profiles len current' ps))"

definition chunk_hotel_state_payloads :: "wire_len \<Rightarrow> HotelStateSyncPayload \<Rightarrow> HotelStateSyncPayload list option" where
  "chunk_hotel_state_payloads wire payload =
     Option.bind (wire payload) (\<lambda>n.
       if \<not> over_budget n then Some [payload]
       else let with_profiles = (\<lambda>ps. payload\<lparr>hs_profiles := ps\<rparr>) in
         Option.bind (wire (with_profiles [])) (\<lambda>base.
           if over_budget base then Some [payload]
           else map_option (\<lambda>(out, rest). map with_profiles (out @ (if rest \<noteq> [] \<or> out = [] then [rest] else [])))
                  (pack_profiles (\<lambda>ps. wire (with_profiles ps)) [] (hs_profiles payload))))"

subsection \<open>Histories of observations\<close>

datatype sighting =
    SawHeartbeat HeartbeatPayload
  | SawChunk CapabilitySyncPayload
  | SawHotelState HotelStateSyncPayload
  | Seeded "128 word" NodeCapabilities "CapabilityAdvertisement list"

fun observe :: "NodeRegistry \<Rightarrow> nat \<times> sighting \<Rightarrow> NodeRegistry" where
  "observe r (now, SawHeartbeat h) = observe_heartbeat now (hb_capabilities h) (hb_reachability h) (hb_health h) r"
| "observe r (now, SawChunk c) =
     observe_capability_sync_chunk now (cs_capabilities c) (cs_reachability c) None (cs_sync c) (cs_index c) (cs_total c)
       (cs_advertisements c) r"
| "observe r (now, SawHotelState h) = observe_hotel_state now (hs_node h) (hs_hotel h) (hs_guests h) (hs_agents h) r"
| "observe r (now, Seeded sid caps ads) = update_node now sid caps ads None None r"

lemmas registry_defs = get_node_status_def observe_heartbeat_def prune_pending_syncs_def observe_capability_sync_chunk_def update_node_def
  observe_hotel_state_def Let_def

subsection \<open>Cutting and putting together\<close>

lemma chunk_loop_concat: "chunk_loop len current ads = Some cs \<Longrightarrow> concat cs = current @ ads \<and> [] \<notin> set cs"
  by (induction len current ads arbitrary: cs rule: chunk_loop.induct) (auto split: if_splits option.splits)

lemma nonempty_parts: "[] \<notin> set cs \<Longrightarrow> length cs \<le> length (concat cs)"
proof (induction cs)
  case (Cons c cs)
  moreover have "Suc 0 \<le> length c" using Cons.prems by (cases c) auto
  ultimately show ?case by auto
qed simp

lemma chunk_advertisements_parts:
  assumes "chunk_advertisements json_len caps ads reach = Some cs"
  shows "concat cs = ads" "0 < length cs" "length cs \<le> Suc (length ads)" "ads \<noteq> [] \<Longrightarrow> length cs \<le> length ads"
proof -
  have *: "concat cs = ads \<and> 0 < length cs \<and> length cs \<le> Suc (length ads) \<and> (ads \<noteq> [] \<longrightarrow> length cs \<le> length ads)"
  proof (cases "ads = []")
    case False
    then have "concat cs = ads" "[] \<notin> set cs"
      using assms chunk_loop_concat [of _ "[]" ads cs] by (auto simp: chunk_advertisements_def)
    then show ?thesis using False nonempty_parts [of cs] by (cases cs) auto
  qed (use assms in \<open>auto simp: chunk_advertisements_def\<close>)
  then show "concat cs = ads" "0 < length cs" "length cs \<le> Suc (length ads)" "ads \<noteq> [] \<Longrightarrow> length cs \<le> length ads" by auto
qed

text \<open>Chunks received so far, as a part of what was sent.\<close>

definition part_of :: "CapabilityAdvertisement list list \<Rightarrow> chunks \<Rightarrow> bool" where
  "part_of cs al \<longleftrightarrow> distinct (map fst al) \<and> (\<forall>(i, c) \<in> set al. i < length cs \<and> c = cs ! i)"

lemma part_of_keys: "part_of cs al \<Longrightarrow> fst ` set al \<subseteq> {..<length cs}"
  by (auto simp: part_of_def)

lemma part_of_length: "part_of cs al \<Longrightarrow> length al = card (fst ` set al)"
  by (metis part_of_def distinct_card length_map list.set_map)

lemma part_of_whole:
  assumes "part_of cs al"
  shows "length al \<le> length cs" "length al = length cs \<longleftrightarrow> fst ` set al = {..<length cs}"
proof -
  have fin: "finite {..<length cs}" by simp
  show "length al \<le> length cs"
    using card_mono [OF fin part_of_keys [OF assms]] part_of_length [OF assms] by simp
  show "length al = length cs \<longleftrightarrow> fst ` set al = {..<length cs}"
    using card_subset_eq [OF fin part_of_keys [OF assms]] part_of_length [OF assms] by auto
qed

lemma part_of_update: "part_of cs al \<Longrightarrow> i < length cs \<Longrightarrow> part_of cs (AList.update i (cs ! i) al)"
proof -
  assume p: "part_of cs al" "i < length cs"
  have "set (AList.update i (cs ! i) al) \<subseteq> insert (i, cs ! i) (set al)"
    using p(1) by (induction al) (auto simp: part_of_def)
  then show ?thesis using p distinct_update [of al i "cs ! i"] by (auto simp: part_of_def)
qed

lemma those_Some: "those (map Some xs) = Some xs"
  by (induction xs) auto

lemma part_of_merge:
  assumes "part_of cs al" "length cs < 2 ^ 32"
  shows "merge_chunks (length cs) al = (if length al = length cs then Some (concat cs) else None)"
proof (cases "length al = length cs")
  case True
  have "map_of al i = Some (cs ! i)" if "i < length cs" for i
  proof -
    have "i \<in> fst ` set al" using that True part_of_whole(2) [OF assms(1)] by auto
    then obtain c where "(i, c) \<in> set al" by auto
    then show ?thesis using assms(1) by (auto simp: part_of_def)
  qed
  then have "map (map_of al) [0..<length cs] = map Some (map ((!) cs) [0..<length cs])" by simp
  then have "those (map (map_of al) [0..<length cs]) = Some cs"
    by (simp only: map_nth those_Some)
  then show ?thesis using True assms(2) by (simp add: merge_chunks_def)
next
  case False
  then show ?thesis using part_of_whole(1) [OF assms(1)] assms(2) by (simp add: merge_chunks_def)
qed

definition chunks_at :: "sync_key \<Rightarrow> NodeRegistry \<Rightarrow> chunks" where
  "chunks_at key r = (case nr_pending r key of Some p \<Rightarrow> pc_chunks p | None \<Rightarrow> [])"

definition advertised :: "string \<Rightarrow> NodeRegistry \<Rightarrow> CapabilityAdvertisement list option" where
  "advertised node r = map_option ns_advertisements (get_node_status node r)"

text \<open>A sync on its way: what is pending is a proper part of what was sent and not older than the window.\<close>

definition under_way :: "nat \<Rightarrow> CapabilityAdvertisement list list \<Rightarrow> sync_key \<Rightarrow> NodeRegistry \<Rightarrow> bool" where
  "under_way t0 cs key r \<longleftrightarrow> part_of cs (chunks_at key r) \<and> length (chunks_at key r) < length cs
     \<and> (case nr_pending r key of Some p \<Rightarrow> t0 \<le> pc_started p | None \<Rightarrow> True)"

lemma prune_keeps:
  assumes "case nr_pending r key of Some p \<Rightarrow> t0 \<le> pc_started p | None \<Rightarrow> True" "t \<le> t0 + PENDING_SYNC_TTL"
  shows "nr_pending (prune_pending_syncs t r) key = nr_pending r key"
  using assms by (auto simp: prune_pending_syncs_def split: option.splits)

lemma prune_nodes [simp]: "nr_nodes (prune_pending_syncs t r) = nr_nodes r"
  by (simp add: prune_pending_syncs_def)

lemma pending_with_chunks [simp]:
  "pc_chunks (pending_with now caps reach health idx amount ads old) = AList.update idx ads (case old of Some p \<Rightarrow> pc_chunks p | None \<Rightarrow> [])"
  "pc_total (pending_with now caps reach health idx amount ads old) = amount"
  "pc_started (pending_with now caps reach health idx amount ads old) = (case old of Some p \<Rightarrow> pc_started p | None \<Rightarrow> now)"
  "pc_capabilities (pending_with now caps reach health idx amount ads old) = caps"
  by (simp_all add: pending_with_def Let_def split: option.splits)

lemma prune_advertised [simp]: "advertised node (prune_pending_syncs t r) = advertised node r"
  by (simp add: advertised_def get_node_status_def)

text \<open>What a chunk does to the pending syncs and to the nodes.\<close>

lemma chunk_effect:
  fixes t caps reach health sid i n ads r
  defines "key \<equiv> (nc_node caps, sid)"
    and "r1 \<equiv> prune_pending_syncs t r"
    and "r' \<equiv> observe_capability_sync_chunk t caps reach health sid i n ads r"
  defines "al \<equiv> AList.update i ads (chunks_at key r1)"
  shows "chunks_at k r' = (if k = key then (if merge_chunks n al = None then al else []) else chunks_at k r1)"
    and "k \<noteq> key \<Longrightarrow> nr_pending r' k = nr_pending r1 k"
    and "map_option pc_started (nr_pending r' key) =
           (if merge_chunks n al = None then Some (case nr_pending r1 key of Some p \<Rightarrow> pc_started p | None \<Rightarrow> t) else None)"
    and "advertised node r' = (if node = nc_node caps \<and> merge_chunks n al \<noteq> None then merge_chunks n al else advertised node r)"
proof -
  define p where "p = pending_with t caps reach health i n ads (nr_pending r1 key)"
  have p: "pc_chunks p = al" "pc_total p = n" "pc_started p = (case nr_pending r1 key of Some p \<Rightarrow> pc_started p | None \<Rightarrow> t)"
    by (simp_all add: p_def al_def chunks_at_def)
  have r': "r' = (case merge_chunks n al of None \<Rightarrow> r1\<lparr>nr_pending := (nr_pending r1)(key \<mapsto> p)\<rparr>
     | Some merged \<Rightarrow> r1\<lparr>nr_pending := (nr_pending r1)(key := None), nr_nodes := tbl_put (nc_node caps)
         \<lparr>ns_capabilities = pc_capabilities p, ns_advertisements = merged, ns_reachability = pc_reachability p,
          ns_health = pc_health p, ns_last_seen = t\<rparr> (nr_nodes r1)\<rparr>)"
    unfolding r'_def observe_capability_sync_chunk_def Let_def key_def [symmetric] r1_def [symmetric] p_def [symmetric] p ..
  have node: "tbl_get (nr_nodes r1) node = tbl_get (nr_nodes r) node" by (simp add: r1_def)
  show "chunks_at k r' = (if k = key then (if merge_chunks n al = None then al else []) else chunks_at k r1)"
    by (cases "merge_chunks n al") (simp_all add: r' chunks_at_def p)
  show "k \<noteq> key \<Longrightarrow> nr_pending r' k = nr_pending r1 k"
    by (cases "merge_chunks n al") (simp_all add: r')
  show "map_option pc_started (nr_pending r' key) =
      (if merge_chunks n al = None then Some (case nr_pending r1 key of Some p \<Rightarrow> pc_started p | None \<Rightarrow> t) else None)"
    by (cases "merge_chunks n al") (simp_all add: r' p)
  show "advertised node r' = (if node = nc_node caps \<and> merge_chunks n al \<noteq> None then merge_chunks n al else advertised node r)"
    by (cases "merge_chunks n al") (simp_all add: r' node advertised_def get_node_status_def tbl_get_put)
qed

lemma under_way_pruned:
  assumes "under_way t0 cs key r" "t \<le> t0 + PENDING_SYNC_TTL"
  shows "nr_pending (prune_pending_syncs t r) key = nr_pending r key" "chunks_at key (prune_pending_syncs t r) = chunks_at key r"
proof -
  show *: "nr_pending (prune_pending_syncs t r) key = nr_pending r key"
    using assms by (intro prune_keeps) (auto simp: under_way_def)
  show "chunks_at key (prune_pending_syncs t r) = chunks_at key r" unfolding chunks_at_def * ..
qed

lemma own_chunk:
  fixes reach health
  assumes "under_way t0 cs (nc_node caps, sid) r" "t0 \<le> t" "t \<le> t0 + PENDING_SYNC_TTL" "i < length cs" "length cs < 2 ^ 32"
  defines "r' \<equiv> observe_capability_sync_chunk t caps reach health sid i (length cs) (cs ! i) r"
    and "al \<equiv> AList.update i (cs ! i) (chunks_at (nc_node caps, sid) r)"
  shows "under_way t0 cs (nc_node caps, sid) r'"
    "length al = length cs \<Longrightarrow> advertised (nc_node caps) r' = Some (concat cs)"
    "length al \<noteq> length cs \<Longrightarrow> chunks_at (nc_node caps, sid) r' = al \<and> advertised (nc_node caps) r' = advertised (nc_node caps) r"
proof -
  let ?key = "(nc_node caps, sid)"
  note pruned = under_way_pruned [OF assms(1,3)]
  note effect = chunk_effect [where t = t and caps = caps and reach = reach and health = health and sid = sid and i = i and n = "length cs"
      and ads = "cs ! i" and r = r, folded r'_def, unfolded pruned, folded al_def]
  have al: "part_of cs al" using assms(1,4) by (simp add: under_way_def part_of_update al_def)
  have le: "length al \<le> length cs" by (rule part_of_whole(1) [OF al])
  have start: "t0 \<le> (case nr_pending r ?key of Some p \<Rightarrow> pc_started p | None \<Rightarrow> t)"
    using assms(1,2) by (auto simp: under_way_def split: option.splits)
  have merge: "merge_chunks (length cs) al = (if length al = length cs then Some (concat cs) else None)"
    by (rule part_of_merge [OF al assms(5)])
  have ne: "0 < length cs" using assms(4) by auto
  have pend: "case nr_pending r' ?key of Some p \<Rightarrow> t0 \<le> pc_started p | None \<Rightarrow> True"
    using effect(3) start by (cases "nr_pending r' ?key") (auto split: if_splits)
  show "under_way t0 cs ?key r'"
  proof (cases "length al = length cs")
    case True
    then have "chunks_at ?key r' = []" using effect(1) [of ?key] merge by simp
    then show ?thesis using ne pend by (simp add: under_way_def part_of_def)
  next
    case False
    then have "chunks_at ?key r' = al" using effect(1) [of ?key] merge by simp
    then show ?thesis using al le False pend by (simp add: under_way_def)
  qed
  show "length al = length cs \<Longrightarrow> advertised (nc_node caps) r' = Some (concat cs)"
    using effect(4) [of "nc_node caps"] merge by simp
  show "length al \<noteq> length cs \<Longrightarrow> chunks_at ?key r' = al \<and> advertised (nc_node caps) r' = advertised (nc_node caps) r"
    using effect(1) [of ?key] effect(4) [of "nc_node caps"] merge by simp
qed

text \<open>Observations that say nothing about the advertisements of the node.\<close>

definition unrelated :: "string \<Rightarrow> sighting \<Rightarrow> bool" where
  "unrelated node ob = (case ob of SawHeartbeat _ \<Rightarrow> True | SawHotelState _ \<Rightarrow> True
     | SawChunk c \<Rightarrow> nc_node (cs_capabilities c) \<noteq> node | Seeded _ caps _ \<Rightarrow> nc_node caps \<noteq> node)"

lemma unrelated_step:
  assumes "under_way t0 cs (node, sid) r" "t \<le> t0 + PENDING_SYNC_TTL" "unrelated node ob"
  shows "nr_pending (observe r (t, ob)) (node, sid) = nr_pending r (node, sid)"
    "advertised node r \<noteq> None \<Longrightarrow> advertised node (observe r (t, ob)) = advertised node r"
proof -
  note pruned = under_way_pruned(1) [OF assms(1,2)]
  have chunk: "nr_pending (observe_capability_sync_chunk t caps reach health s i n ads r) (node, sid) = nr_pending r (node, sid)"
    "advertised node (observe_capability_sync_chunk t caps reach health s i n ads r) = advertised node r" if "nc_node caps \<noteq> node"
    for caps reach health s i n ads
    using that pruned chunk_effect(2) [where k = "(node, sid)" and caps = caps and sid = s and t = t and reach = reach and health = health
        and i = i and n = n and ads = ads and r = r]
      chunk_effect(4) [where node = node and caps = caps and sid = s and t = t and reach = reach and health = health and i = i and n = n
        and ads = ads and r = r]
    by auto
  show "nr_pending (observe r (t, ob)) (node, sid) = nr_pending r (node, sid)"
    using assms(3) by (cases ob) (auto simp: unrelated_def chunk update_node_def observe_heartbeat_def observe_hotel_state_def Let_def
        split: option.splits)
  show "advertised node r \<noteq> None \<Longrightarrow> advertised node (observe r (t, ob)) = advertised node r"
    using assms(3) by (cases ob) (auto simp: unrelated_def chunk update_node_def observe_heartbeat_def observe_hotel_state_def Let_def
        advertised_def get_node_status_def tbl_get_put chunk [unfolded advertised_def get_node_status_def] split: option.splits)
qed

definition sync_payload ::
  "NodeCapabilities \<Rightarrow> ExecutionReachability option \<Rightarrow> 128 word \<Rightarrow> CapabilityAdvertisement list list \<Rightarrow> nat \<Rightarrow> CapabilitySyncPayload" where
  "sync_payload caps reach sid cs i = \<lparr>cs_capabilities = caps, cs_reachability = reach, cs_advertisements = cs ! i, cs_sync = sid,
     cs_index = i, cs_total = length cs\<rparr>"

lemma emitted_payloads:
  assumes "emit_capability_sync json_len sid caps ads reach = Some ps" "length ads < 2 ^ 32 - 1"
  obtains cs where "concat cs = ads" "0 < length cs" "length cs < 2 ^ 32" "ps = map (sync_payload caps reach sid cs) [0..<length cs]"
proof -
  from assms(1) obtain cs where cs: "chunk_advertisements json_len caps ads reach = Some cs"
    and ps: "ps = map (\<lambda>(i, chunk). \<lparr>cs_capabilities = caps, cs_reachability = reach, cs_advertisements = chunk,
           cs_sync = sid, cs_index = i mod 2 ^ 32, cs_total = length cs mod 2 ^ 32\<rparr>) (enumerate 0 cs)"
    by (auto simp: emit_capability_sync_def)
  note parts = chunk_advertisements_parts [OF cs]
  have small: "length cs < 2 ^ 32" using parts(3) assms(2) by simp
  have "ps = map (sync_payload caps reach sid cs) [0..<length cs]"
    unfolding ps
  proof (rule nth_equalityI)
    fix i
    assume "i < length (map (\<lambda>(i, chunk). \<lparr>cs_capabilities = caps, cs_reachability = reach, cs_advertisements = chunk,
           cs_sync = sid, cs_index = i mod 2 ^ 32, cs_total = length cs mod 2 ^ 32\<rparr>) (enumerate 0 cs))"
    then have i: "i < length cs" by simp
    have "i mod 2 ^ 32 = i" "length cs mod 2 ^ 32 = length cs" using i small by (auto intro: mod_less less_trans)
    then show "map (\<lambda>(i, chunk). \<lparr>cs_capabilities = caps, cs_reachability = reach, cs_advertisements = chunk,
           cs_sync = sid, cs_index = i mod 2 ^ 32, cs_total = length cs mod 2 ^ 32\<rparr>) (enumerate 0 cs) ! i
      = map (sync_payload caps reach sid cs) [0..<length cs] ! i"
      using i by (simp add: nth_enumerate_eq sync_payload_def del: One_nat_def)
  qed simp
  then show thesis using that [of cs] parts(1,2) small by blast
qed

text \<open>Every chunk is received or still to come, until the node is advertised.\<close>

definition arriving :: "(nat \<Rightarrow> CapabilitySyncPayload) \<Rightarrow> CapabilityAdvertisement list list \<Rightarrow> sync_key \<Rightarrow> NodeRegistry
    \<Rightarrow> (nat \<times> sighting) list \<Rightarrow> bool" where
  "arriving payload_of cs key r evs \<longleftrightarrow> advertised (fst key) r = Some (concat cs)
     \<or> (\<forall>i < length cs. i \<in> fst ` set (chunks_at key r) \<or> SawChunk (payload_of i) \<in> snd ` set evs)"

lemma arriving_step:
  assumes "under_way t0 cs (nc_node caps, sid) r" "t0 \<le> t" "t \<le> t0 + PENDING_SYNC_TTL" "length cs < 2 ^ 32"
    and ob: "unrelated (nc_node caps) ob \<or> (\<exists>i < length cs. ob = SawChunk (sync_payload caps reach sid cs i))"
    and "arriving (sync_payload caps reach sid cs) cs (nc_node caps, sid) r ((t, ob) # evs)"
  shows "under_way t0 cs (nc_node caps, sid) (observe r (t, ob))
       \<and> arriving (sync_payload caps reach sid cs) cs (nc_node caps, sid) (observe r (t, ob)) evs"
  using ob
proof
  assume u: "unrelated (nc_node caps) ob"
  note step = unrelated_step [OF assms(1,3) u]
  have "\<And>i. ob \<noteq> SawChunk (sync_payload caps reach sid cs i)" using u by (auto simp: unrelated_def sync_payload_def)
  moreover have "chunks_at (nc_node caps, sid) (observe r (t, ob)) = chunks_at (nc_node caps, sid) r"
    unfolding chunks_at_def step(1) ..
  ultimately show ?thesis using step assms(1,6) unfolding under_way_def arriving_def by fastforce
next
  assume "\<exists>i < length cs. ob = SawChunk (sync_payload caps reach sid cs i)"
  then obtain i where i: "i < length cs" "ob = SawChunk (sync_payload caps reach sid cs i)" by auto
  define r' where "r' = observe r (t, ob)"
  define al where "al = AList.update i (cs ! i) (chunks_at (nc_node caps, sid) r)"
  have r': "r' = observe_capability_sync_chunk t caps reach None sid i (length cs) (cs ! i) r"
    by (simp add: r'_def i(2) sync_payload_def)
  note own = own_chunk [OF assms(1-3) i(1) assms(4), of reach None, folded r' al_def]
  have keys: "fst ` set al = insert i (fst ` set (chunks_at (nc_node caps, sid) r))"
    unfolding al_def by (metis list.set_map update_keys set_append list.simps(15) insert_absorb Un_insert_right empty_set sup_bot.right_neutral)
  have inj: "j = i" if "sync_payload caps reach sid cs j = sync_payload caps reach sid cs i" for j
    using that by (simp add: sync_payload_def)
  have "arriving (sync_payload caps reach sid cs) cs (nc_node caps, sid) r' evs"
  proof (cases "length al = length cs")
    case False
    then show ?thesis using own(3) assms(6) keys inj unfolding arriving_def i(2) by auto
  qed (use own(2) in \<open>simp add: arriving_def\<close>)
  then show ?thesis using own(1) by (simp add: r'_def)
qed

lemma arriving_run:
  assumes "under_way t0 cs (nc_node caps, sid) r" "length cs < 2 ^ 32"
    and "list_all (\<lambda>(t, ob). t0 \<le> t \<and> t \<le> t0 + PENDING_SYNC_TTL
           \<and> (unrelated (nc_node caps) ob \<or> (\<exists>i < length cs. ob = SawChunk (sync_payload caps reach sid cs i)))) evs"
    and "arriving (sync_payload caps reach sid cs) cs (nc_node caps, sid) r evs"
  shows "advertised (nc_node caps) (foldl observe r evs) = Some (concat cs)"
  using assms(1,3,4)
proof (induction evs arbitrary: r)
  case Nil
  have "\<not> {..<length cs} \<subseteq> fst ` set (chunks_at (nc_node caps, sid) r)"
  proof
    assume "{..<length cs} \<subseteq> fst ` set (chunks_at (nc_node caps, sid) r)"
    then have "length (chunks_at (nc_node caps, sid) r) = length cs"
      using Nil.prems(1) part_of_keys part_of_whole(2) unfolding under_way_def by blast
    then show False using Nil.prems(1) by (simp add: under_way_def)
  qed
  then show ?case using Nil.prems(3) by (auto simp: arriving_def)
next
  case (Cons e evs)
  obtain t ob where e: "e = (t, ob)" by force
  from Cons.prems e arriving_step [OF Cons.prems(1) _ _ assms(2), of t ob reach evs]
  have "under_way t0 cs (nc_node caps, sid) (observe r e)
      \<and> arriving (sync_payload caps reach sid cs) cs (nc_node caps, sid) (observe r e) evs" by simp
  then show ?case using Cons.IH [of "observe r e"] Cons.prems(2) by simp
qed

text \<open>C13. A capability sync arrives whole. Whatever the encoder measures, the chunks of a sync, delivered in any order
  and any number of times, among heartbeats, hotel states and the syncs of other nodes (but no other sync of the same
  node), within 30 seconds, make the receiver hold exactly the advertisements that were sent.\<close>

theorem capability_sync_roundtrip:
  assumes "emit_capability_sync json_len sid caps ads reach = Some ps" "length ads < 2 ^ 32 - 1"
    and "nr_pending r (nc_node caps, sid) = None"
    and "list_all (\<lambda>(t, ob). t0 \<le> t \<and> t \<le> t0 + PENDING_SYNC_TTL \<and> (unrelated (nc_node caps) ob \<or> ob \<in> SawChunk ` set ps)) evs"
    and "SawChunk ` set ps \<subseteq> snd ` set evs"
  shows "advertised (nc_node caps) (foldl observe r evs) = Some ads"
proof -
  obtain cs where cs: "concat cs = ads" "0 < length cs" "length cs < 2 ^ 32"
      and ps: "ps = map (sync_payload caps reach sid cs) [0..<length cs]"
    using emitted_payloads [OF assms(1,2)] by blast
  have "under_way t0 cs (nc_node caps, sid) r"
    using cs(2) assms(3) by (simp add: under_way_def chunks_at_def part_of_def)
  moreover have "list_all (\<lambda>(t, ob). t0 \<le> t \<and> t \<le> t0 + PENDING_SYNC_TTL
           \<and> (unrelated (nc_node caps) ob \<or> (\<exists>i < length cs. ob = SawChunk (sync_payload caps reach sid cs i)))) evs"
    using assms(4) unfolding list_all_iff ps by fastforce
  moreover have "arriving (sync_payload caps reach sid cs) cs (nc_node caps, sid) r evs"
    using assms(5) unfolding arriving_def ps by (simp add: image_subset_iff)
  ultimately show ?thesis using arriving_run [OF _ cs(3)] cs(1) by blast
qed

text \<open>Two chunks in the wrong order, one of them twice, with a heartbeat in between.\<close>

definition demo_caps :: "string \<Rightarrow> NodeCapabilities" where
  "demo_caps node = \<lparr>nc_node = node, nc_roles = [AnsibleNode], nc_models = [], nc_tools = [],
     nc_constraints = \<lparr>nk_max_jobs = None, nk_latency_hint = None, nk_trust_level = None\<rparr>\<rparr>"

definition demo_ad :: "string \<Rightarrow> CapabilityAdvertisement" where
  "demo_ad guest = \<lparr>ca_hotel = ''mac'', ca_node = ''mac-01'', ca_incarnation = guest, ca_role = ''agent'', ca_availability = ''live'',
     ca_hint = None, ca_latency_hint = None, ca_max_jobs = None, ca_active_jobs = 0, ca_queue_depth = 0\<rparr>"

definition demo_len :: "CapabilitySyncPayload \<Rightarrow> nat option" where
  "demo_len p = Some (500 * length (cs_advertisements p))"

definition demo_chunk :: "nat \<Rightarrow> CapabilitySyncPayload" where
  "demo_chunk = sync_payload (demo_caps ''mac-01'') None 7 [[demo_ad ''alice''], [demo_ad ''bob'']]"

definition demo_arrivals :: "(nat \<times> sighting) list" where
  "demo_arrivals = [(5, SawChunk (demo_chunk 1)), (6, SawHeartbeat \<lparr>hb_capabilities = demo_caps ''mac-01'', hb_reachability = None, hb_health = None\<rparr>),
     (7, SawChunk (demo_chunk 1)), (9, SawChunk (demo_chunk 0))]"

lemma demo_emitted:
  "emit_capability_sync demo_len 7 (demo_caps ''mac-01'') [demo_ad ''alice'', demo_ad ''bob''] None = Some [demo_chunk 0, demo_chunk 1]"
  by (simp add: emit_capability_sync_def chunk_advertisements_def demo_len_def MAX_SYNC_PAYLOAD_BYTES_def demo_chunk_def sync_payload_def)

lemma demo_registry:
  "advertised ''mac-01'' (foldl observe new_registry demo_arrivals) = Some [demo_ad ''alice'', demo_ad ''bob'']"
  by (simp add: demo_arrivals_def demo_chunk_def sync_payload_def demo_caps_def new_registry_def registry_defs pending_with_def
      merge_chunks_def tbl_get_def advertised_def PENDING_SYNC_TTL_def nanos_per_sec_def upt_rec)

theorem capability_sync_roundtrip_witness:
  "advertised ''mac-01'' (foldl observe new_registry demo_arrivals) = Some [demo_ad ''alice'', demo_ad ''bob'']"
proof -
  have "advertised (nc_node (demo_caps ''mac-01'')) (foldl observe new_registry demo_arrivals) = Some [demo_ad ''alice'', demo_ad ''bob'']"
    by (rule capability_sync_roundtrip [OF demo_emitted, where ?t0.0 = 5])
      (auto simp: new_registry_def demo_arrivals_def PENDING_SYNC_TTL_def nanos_per_sec_def unrelated_def)
  then show ?thesis by (simp add: demo_caps_def)
qed

subsection \<open>Never a mix of syncs\<close>

fun as_chunk :: "sighting \<Rightarrow> (sync_key \<times> nat \<times> nat \<times> CapabilityAdvertisement list) option" where
  "as_chunk (SawChunk c) = Some ((nc_node (cs_capabilities c), cs_sync c), cs_index c, cs_total c, cs_advertisements c)"
| "as_chunk (Seeded sid caps ads) = Some ((nc_node caps, sid), 0, 1, ads)"
| "as_chunk _ = None"

definition chunk_arrived :: "(nat \<times> sighting) list \<Rightarrow> sync_key \<Rightarrow> nat \<Rightarrow> nat \<Rightarrow> CapabilityAdvertisement list \<Rightarrow> bool" where
  "chunk_arrived evs key i n c \<longleftrightarrow> Some (key, i, n, c) \<in> (as_chunk \<circ> snd) ` set evs"

definition one_sync :: "(nat \<times> sighting) list \<Rightarrow> string \<Rightarrow> CapabilityAdvertisement list \<Rightarrow> bool" where
  "one_sync evs node ads \<longleftrightarrow> (\<exists>sid cs. ads = concat cs \<and> (\<forall>i < length cs. \<exists>n. chunk_arrived evs (node, sid) i n (cs ! i))
     \<and> (\<exists>i c. chunk_arrived evs (node, sid) i (length cs) c))"

definition sourced :: "(nat \<times> sighting) list \<Rightarrow> NodeRegistry \<Rightarrow> bool" where
  "sourced evs r \<longleftrightarrow> (\<forall>key. \<forall>(i, c) \<in> set (chunks_at key r). \<exists>n. chunk_arrived evs key i n c)
     \<and> (\<forall>node. case advertised node r of None \<Rightarrow> True | Some ads \<Rightarrow> ads = [] \<or> one_sync evs node ads)"

lemma prune_chunks: "set (chunks_at key (prune_pending_syncs t r)) \<subseteq> set (chunks_at key r)"
  by (auto simp: chunks_at_def prune_pending_syncs_def split: option.splits if_splits)

lemma update_set: "set (AList.update k v al) \<subseteq> insert (k, v) (set al)"
  by (induction al) auto

lemma those_nth: "those xs = Some ys \<Longrightarrow> length ys = length xs \<and> (\<forall>i < length ys. xs ! i = Some (ys ! i))"
proof (induction xs arbitrary: ys)
  case (Cons x xs)
  then obtain z zs where z: "x = Some z" "those xs = Some zs" "ys = z # zs" by (auto split: option.splits)
  then show ?case using Cons.IH [OF z(2)] by (auto simp: nth_Cons split: nat.splits)
qed simp

lemma merged_sourced:
  assumes "merge_chunks amount al = Some ads" "\<forall>(i, c) \<in> set al. \<exists>n. chunk_arrived evs (node, sid) i n c"
    "chunk_arrived evs (node, sid) i amount c"
  shows "one_sync evs node ads"
proof -
  from assms(1) obtain cs where cs: "those (map (map_of al) [0..<amount]) = Some cs" "ads = concat cs"
    by (auto simp: merge_chunks_def split: if_splits)
  have nth: "length cs = amount" "\<And>i. i < amount \<Longrightarrow> map_of al i = Some (cs ! i)" using those_nth [OF cs(1)] by auto
  then have "\<exists>n. chunk_arrived evs (node, sid) j n (cs ! j)" if "j < amount" for j
    using assms(2) map_of_SomeD [OF nth(2) [OF that]] by auto
  then show ?thesis using cs(2) nth(1) assms(3) unfolding one_sync_def by blast
qed

lemma sourced_chunk:
  assumes "sourced evs r" "chunk_arrived evs (nc_node caps, sid) i n ads"
  shows "sourced evs (observe_capability_sync_chunk t caps reach health sid i n ads r)"
proof -
  let ?key = "(nc_node caps, sid)"
  let ?r1 = "prune_pending_syncs t r"
  let ?r' = "observe_capability_sync_chunk t caps reach health sid i n ads r"
  define al where "al = AList.update i ads (chunks_at ?key ?r1)"
  note effect = chunk_effect [where t = t and caps = caps and reach = reach and health = health and sid = sid and i = i and n = n and ads = ads and r = r,
      folded al_def]
  have old: "\<forall>(j, c) \<in> set (chunks_at key ?r1). \<exists>n. chunk_arrived evs key j n c" for key
    using assms(1) prune_chunks [of key t r] unfolding sourced_def by blast
  have al: "\<forall>(j, c) \<in> set al. \<exists>n. chunk_arrived evs ?key j n c"
    using old [of ?key] assms(2) update_set [of i ads "chunks_at ?key ?r1"] unfolding al_def by blast
  have "\<forall>(j, c) \<in> set (chunks_at key ?r'). \<exists>n. chunk_arrived evs key j n c" for key
    using old [of key] al unfolding effect(1) by (cases "key = ?key") auto
  moreover have "case advertised node ?r' of None \<Rightarrow> True | Some ads \<Rightarrow> ads = [] \<or> one_sync evs node ads" for node
  proof (cases "node = nc_node caps \<and> merge_chunks n al \<noteq> None")
    case True
    then obtain merged where "merge_chunks n al = Some merged" by auto
    then show ?thesis using True merged_sourced [OF _ al assms(2)] unfolding effect(4) by simp
  next
    case False
    then show ?thesis using assms(1) unfolding effect(4) sourced_def by simp
  qed
  ultimately show ?thesis unfolding sourced_def by blast
qed

interpretation syncs: history observe "sourced evs" "\<lambda>e. e \<in> set evs"
proof
  fix r and e :: "nat \<times> sighting"
  assume r: "sourced evs r" and e: "e \<in> set evs"
  obtain t ob where ob: "e = (t, ob)" by force
  have arrived: "as_chunk ob = Some (key, i, n, c) \<Longrightarrow> chunk_arrived evs key i n c" for key i n c
    using e ob by (force simp: chunk_arrived_def)
  show "sourced evs (observe r e)"
  proof (cases ob)
    case (SawHeartbeat h)
    define r' where "r' = observe r e"
    have "chunks_at key r' = chunks_at key r"
      "advertised node r' = (if node = nc_node (hb_capabilities h) then Some (case advertised node r of Some ads \<Rightarrow> ads | None \<Rightarrow> [])
         else advertised node r)" for key node
      by (auto simp: r'_def ob SawHeartbeat observe_heartbeat_def Let_def chunks_at_def advertised_def get_node_status_def tbl_get_put
          split: option.splits)
    then show ?thesis using r unfolding r'_def [symmetric] by (auto simp: sourced_def split: option.splits)
  next
    case (SawHotelState h)
    then show ?thesis using r by (simp add: ob observe_hotel_state_def sourced_def chunks_at_def advertised_def get_node_status_def)
  qed (auto simp: ob update_node_def intro!: sourced_chunk r arrived)
qed

text \<open>C27. What a registry holds of a node comes from one sync of that node. Over every history of observations, from an
  empty registry, the advertisements of a node are empty or the chunks \<open>0..total\<close> of one sync identifier, each of which arrived
  for this node, and the total is the one an arrived chunk named: syncs that overlap, lose chunks or are repeated
  never mix.\<close>

theorem advertisements_from_one_sync:
  assumes "advertised node (foldl observe new_registry evs) = Some ads" "ads \<noteq> []"
  shows "one_sync evs node ads"
proof -
  have "sourced evs new_registry" by (simp add: sourced_def new_registry_def chunks_at_def advertised_def get_node_status_def tbl_get_def)
  then have "sourced evs (foldl observe new_registry evs)" by (rule syncs.inv_run) (simp add: list_all_iff)
  then have "case advertised node (foldl observe new_registry evs) of None \<Rightarrow> True | Some ads \<Rightarrow> ads = [] \<or> one_sync evs node ads"
    unfolding sourced_def by blast
  then show ?thesis using assms by simp
qed

theorem advertisements_from_one_sync_witness: "one_sync demo_arrivals ''mac-01'' [demo_ad ''alice'', demo_ad ''bob'']"
  by (rule advertisements_from_one_sync [OF demo_registry]) simp

subsection \<open>Hotel states\<close>

definition fits :: "('a \<Rightarrow> nat option) \<Rightarrow> 'a \<Rightarrow> bool" where
  "fits len x = (case len x of Some n \<Rightarrow> \<not> over_budget n | None \<Rightarrow> False)"

lemma pack_profile_spec:
  assumes "pack_profile len current p = Some (out, next)" "current = [] \<or> fits len current"
  shows "list_all (fits len) out" "next = [] \<or> fits len next" "[] \<notin> set out"
    "subseq (concat out @ next) (current @ [p])" "subseq (current @ filter (\<lambda>q. fits len [q]) [p]) (concat out @ next)"
  using assms by (auto simp: pack_profile_def fits_def bind_eq_Some_conv split: if_splits)

lemma pack_profiles_spec:
  "pack_profiles len current ps = Some (out, rest) \<Longrightarrow> current = [] \<or> fits len current \<Longrightarrow>
     list_all (fits len) out \<and> (rest = [] \<or> fits len rest) \<and> [] \<notin> set out
     \<and> subseq (concat out @ rest) (current @ ps) \<and> subseq (current @ filter (\<lambda>q. fits len [q]) ps) (concat out @ rest)"
proof (induction ps arbitrary: current out)
  case (Cons p ps)
  from Cons.prems(1) obtain o1 c1 o2 where o: "pack_profile len current p = Some (o1, c1)" "pack_profiles len c1 ps = Some (o2, rest)"
      "out = o1 @ o2"
    by (auto simp: bind_eq_Some_conv)
  note one = pack_profile_spec [OF o(1) Cons.prems(2)]
  note more = Cons.IH [OF o(2) one(2)]
  let ?f = "filter (\<lambda>q. fits len [q])"
  have "subseq (concat out @ rest) (concat o1 @ c1 @ ps)"
    using more unfolding o(3) by (simp add: subseq_append')
  moreover have "subseq (concat o1 @ c1 @ ps) (current @ p # ps)"
    using list_emb_append_mono [OF one(4), of ps ps] by simp
  moreover have "subseq (current @ ?f (p # ps)) (concat o1 @ c1 @ ?f ps)"
    using list_emb_append_mono [OF one(5), of "?f ps" "?f ps"] by (cases "fits len [p]") simp_all
  moreover have "subseq (concat o1 @ c1 @ ?f ps) (concat out @ rest)"
    using more unfolding o(3) by (simp add: subseq_append')
  ultimately show ?case using one(1,3) more o(3) by (auto intro: subseq_order.order_trans)
qed simp

lemma chunk_spec:
  assumes "chunk_hotel_state_payloads wire payload = Some chunks" "fits wire (payload\<lparr>hs_profiles := []\<rparr>)"
  shows "chunks \<noteq> [] \<and> list_all (fits wire) chunks \<and> list_all (\<lambda>c. c\<lparr>hs_profiles := hs_profiles payload\<rparr> = payload) chunks
    \<and> subseq (concat (map hs_profiles chunks)) (hs_profiles payload)
    \<and> subseq (filter (\<lambda>p. fits wire (payload\<lparr>hs_profiles := [p]\<rparr>)) (hs_profiles payload)) (concat (map hs_profiles chunks))"
proof -
  let ?with = "\<lambda>ps. payload\<lparr>hs_profiles := ps\<rparr>"
  let ?len = "\<lambda>ps. wire (?with ps)"
  show ?thesis
  proof (cases "chunks = [payload] \<and> fits wire payload")
    case False
    then obtain out rest where pack: "pack_profiles ?len [] (hs_profiles payload) = Some (out, rest)"
        and chunks: "chunks = map ?with (out @ (if rest \<noteq> [] \<or> out = [] then [rest] else []))"
      using assms by (auto simp: chunk_hotel_state_payloads_def Let_def bind_eq_Some_conv fits_def split: if_splits)
    note spec = pack_profiles_spec [OF pack, simplified]
    have "list_all (fits wire) (map ?with out)" using spec by (auto simp: list_all_iff fits_def)
    moreover have "fits wire (?with rest)" using spec assms(2) by (auto simp: fits_def)
    moreover have "concat (map hs_profiles chunks) = concat out @ rest" by (simp add: chunks comp_def)
    ultimately show ?thesis using spec by (auto simp: chunks list_all_iff fits_def)
  qed (auto simp: subseq_filter_left)
qed

text \<open>C29. Every datagram of a hotel state can be sent. When the roster alone fits the 9000 bytes, every chunk fits,
  every chunk carries the whole roster, and the profiles of the chunks, in their order, are the sender's, less at
  most those that do not fit beside the roster on their own.\<close>

theorem hotel_state_chunks_fit:
  assumes "chunk_hotel_state_payloads wire payload = Some chunks" "fits wire (payload\<lparr>hs_profiles := []\<rparr>)"
  shows "chunks \<noteq> [] \<and> list_all (fits wire) chunks \<and> list_all (\<lambda>c. c\<lparr>hs_profiles := hs_profiles payload\<rparr> = payload) chunks
    \<and> subseq (concat (map hs_profiles chunks)) (hs_profiles payload)
    \<and> subseq (filter (\<lambda>p. fits wire (payload\<lparr>hs_profiles := [p]\<rparr>)) (hs_profiles payload)) (concat (map hs_profiles chunks))"
  by (rule chunk_spec [OF assms])

definition demo_profile :: "string \<Rightarrow> nat \<Rightarrow> ModelProfileRecord" where
  "demo_profile ref bytes = default_profile\<lparr>mp_ref := ref, mp_node := ''mac-01'', mp_latency := bytes\<rparr>"

definition demo_wire_len :: wire_len where
  "demo_wire_len p = Some (1000 + sum_list (map mp_latency (hs_profiles p)))"

definition demo_state :: HotelStateSyncPayload where
  "demo_state = \<lparr>hs_node = ''mac-01'', hs_hotel = ''mac'', hs_guests = [\<lparr>hg_guest = ''alice'', hg_role = ''agent'', hg_active = True\<rparr>],
     hs_agents = [], hs_profiles = [demo_profile ''a'' 3000, demo_profile ''b'' 6000, demo_profile ''huge'' 20000, demo_profile ''d'' 4000]\<rparr>"

definition demo_datagram :: "string \<Rightarrow> nat \<Rightarrow> HotelStateSyncPayload" where
  "demo_datagram ref bytes = demo_state\<lparr>hs_profiles := [demo_profile ref bytes]\<rparr>"

lemma demo_chunks:
  "chunk_hotel_state_payloads demo_wire_len demo_state = Some [demo_datagram ''a'' 3000, demo_datagram ''b'' 6000, demo_datagram ''d'' 4000]"
  by (simp add: chunk_hotel_state_payloads_def demo_wire_len_def demo_state_def over_budget_def MAX_HOTEL_STATE_WIRE_BYTES_def
      pack_profile_def demo_datagram_def demo_profile_def)

theorem hotel_state_chunks_fit_witness:
  "list_all (fits demo_wire_len) [demo_datagram ''a'' 3000, demo_datagram ''b'' 6000, demo_datagram ''d'' 4000]
   \<and> subseq (filter (\<lambda>p. fits demo_wire_len (demo_state\<lparr>hs_profiles := [p]\<rparr>)) (hs_profiles demo_state))
        [demo_profile ''a'' 3000, demo_profile ''b'' 6000, demo_profile ''d'' 4000]"
proof -
  have "fits demo_wire_len (demo_state\<lparr>hs_profiles := []\<rparr>)"
    by (simp add: fits_def demo_wire_len_def over_budget_def MAX_HOTEL_STATE_WIRE_BYTES_def)
  from hotel_state_chunks_fit [OF demo_chunks this] show ?thesis by (simp add: demo_datagram_def)
qed

subsection \<open>Looking up guests\<close>

lemma find_found: "find P xs = Some x \<Longrightarrow> x \<in> set xs \<and> P x"
  by (induction xs) (auto split: if_splits)

text \<open>Where a guest is found, a fresh node really advertised it or a fresh hotel lists it; where it is not found, none does.\<close>

lemma guest_lookup_exact:
  "case find_node_id_for_guest now guest r of
     Some n \<Rightarrow> (\<exists>s \<in> set (active_nodes now r). nc_node (ns_capabilities s) = n \<and> guest \<in> ca_incarnation ` set (ns_advertisements s))
       \<or> (\<exists>h \<in> set (remote_hotel_states r). rh_node h = n \<and> now - rh_last_seen h \<le> DEFAULT_NODE_TTL \<and> guest \<in> hg_guest ` set (rh_guests h))
   | None \<Rightarrow> (\<forall>s \<in> set (active_nodes now r). guest \<notin> ca_incarnation ` set (ns_advertisements s))
       \<and> (\<forall>h \<in> set (remote_hotel_states r). now - rh_last_seen h \<le> DEFAULT_NODE_TTL \<longrightarrow> guest \<notin> hg_guest ` set (rh_guests h))"
proof (cases "find_node_for_incarnation now guest r")
  case (Some s)
  then have "s \<in> set (active_nodes now r) \<and> guest \<in> ca_incarnation ` set (ns_advertisements s)"
    unfolding find_node_for_incarnation_def by (auto dest!: find_found simp: active_nodes_def list_ex_iff)
  then show ?thesis using Some by (auto simp: find_node_id_for_guest_def)
next
  case None
  let ?find = "find (\<lambda>h. list_ex (\<lambda>g. hg_guest g = guest) (rh_guests h)) (filter (\<lambda>h. now - rh_last_seen h \<le> DEFAULT_NODE_TTL) (remote_hotel_states r))"
  from None have none: "\<forall>s \<in> set (active_nodes now r). guest \<notin> ca_incarnation ` set (ns_advertisements s)"
    unfolding find_node_for_incarnation_def by (auto simp: find_None_iff active_nodes_def list_ex_iff)
  show ?thesis
  proof (cases ?find)
    case (Some h)
    then have "h \<in> set (remote_hotel_states r) \<and> now - rh_last_seen h \<le> DEFAULT_NODE_TTL \<and> guest \<in> hg_guest ` set (rh_guests h)"
      by (auto dest!: find_found simp: list_ex_iff)
    then show ?thesis using None Some by (auto simp: find_node_id_for_guest_def)
  next
    case F: None
    then have "\<forall>h \<in> set (remote_hotel_states r). now - rh_last_seen h \<le> DEFAULT_NODE_TTL \<longrightarrow> guest \<notin> hg_guest ` set (rh_guests h)"
      by (auto simp: find_None_iff list_ex_iff)
    then show ?thesis using None F none by (simp add: find_node_id_for_guest_def)
  qed
qed

subsection \<open>Vitals that get lost\<close>

text \<open>\<open>update_node\<close> takes the vitals of a node and drops them; a capability sync from the mesh forgets the vitals the last
  heartbeat brought, so a node whose disk is full counts as healthy until its next heartbeat.\<close>

lemma update_node_drops_health: "update_node now sid caps ads reach health r = update_node now sid caps ads reach None r"
  by (simp add: update_node_def)

lemma sync_forgets_vitals:
  assumes "nr_pending r (nc_node caps, sid) = None"
  shows "is_node_healthy t (nc_node caps) (observe_capability_sync_chunk t caps reach None sid 0 1 ads r)"
proof -
  have "nr_pending (prune_pending_syncs t r) (nc_node caps, sid) = None" using assms by (simp add: prune_pending_syncs_def)
  then show ?thesis
    by (simp add: observe_capability_sync_chunk_def Let_def pending_with_def merge_chunks_def is_node_healthy_def get_node_status_def tbl_get_put is_fresh_def)
qed

end
