(* ===== verification/MeshDirectory.thy ===== *)
theory MeshDirectory
  imports NodeRegistry MeshAuth
begin

section \<open>The mesh directory\<close>

text \<open>
  Models the beacon daemon of a hotel behind its admission check (\<open>handle_packet\<close> and \<open>dispatch_message\<close> of
  \<^verbatim>\<open>crates/ansible-mesh-core/src/beacon.rs\<close>): what heartbeats, capability syncs, peer catalogues and hotel states change in
  the registry, in the directory of hotels and in the replicated model profiles, and the handshake with a peer that comes
  back; what a hotel advertises and when (\<^verbatim>\<open>crates/aiua/src/main.rs\<close>, \<^verbatim>\<open>service/mesh_runtime.rs\<close>); and the choice
  of the best place to run (\<^verbatim>\<open>service/ipc.rs\<close>). A message is given decoded (\<open>inbound\<close>): the JSON decoder is not modelled.
  Whether a listing or a write of the graph goes through is an argument.
\<close>

subsection \<open>The directory of hotels\<close>

record HotelRecord =
  hr_name :: string
  hr_capabilities :: NodeCapabilities
  hr_host :: "string option"
  hr_port :: nat
  hr_blob_port :: nat
  hr_execution_port :: nat
  hr_socket :: string
  hr_pid :: "string option"

type_synonym hotel_table = "(string \<times> HotelRecord) list"

definition hotel_key :: "string \<Rightarrow> string" where
  "hotel_key name = ''hotel:'' @ name"

definition upsert_hotel :: "HotelRecord \<Rightarrow> hotel_table \<Rightarrow> hotel_table" where
  "upsert_hotel h t = tbl_put (hotel_key (hr_name h)) h t"

definition list_hotels :: "hotel_table \<Rightarrow> HotelRecord list" where
  "list_hotels t = map snd t"

definition node_of :: "HotelRecord \<Rightarrow> string" where
  "node_of h = nc_node (hr_capabilities h)"

definition hotel_of_node :: "string \<Rightarrow> hotel_table \<Rightarrow> HotelRecord option" where
  "hotel_of_node node t = find (\<lambda>h. node_of h = node) (list_hotels t)"

subsection \<open>The beacon daemon\<close>

record MeshPeerEntry =
  me_node :: string
  me_hotel :: string
  me_host :: "string option"
  me_port :: nat

record daemon =
  dm_registry :: NodeRegistry
  dm_hotels :: hotel_table
  dm_profiles :: profile_table

record daemon_env =
  de_capabilities :: NodeCapabilities
  de_key :: key_of
  de_list :: bool
  de_write :: "HotelRecord \<Rightarrow> bool"
  de_upsert :: "ModelProfileRecord \<Rightarrow> bool"
  de_state :: "HotelStateSyncPayload option"
  de_wire :: wire_len

text \<open>A decoded message, and what the daemon sends back to the source of a message or into the hotel's inbox.\<close>

datatype inbound =
    InHeartbeat HeartbeatPayload
  | InCapabilitySync CapabilitySyncPayload
  | InCatalogSync "MeshPeerEntry list"
  | InHotelState HotelStateSyncPayload
  | InUndecodable MsgType
  | InPlain MsgType

datatype emission = EmitHeartbeat HeartbeatPayload | EmitCatalog "MeshPeerEntry list" | EmitHotelState HotelStateSyncPayload | ToInbox

definition on_registry :: "(NodeRegistry \<Rightarrow> NodeRegistry) \<Rightarrow> daemon \<Rightarrow> daemon" where
  "on_registry f d = d\<lparr>dm_registry := f (dm_registry d)\<rparr>"

text \<open>The port a heartbeat came from, against the port on record.\<close>

definition reconcile_port :: "daemon_env \<Rightarrow> string \<Rightarrow> nat \<Rightarrow> daemon \<Rightarrow> bool \<times> daemon" where
  "reconcile_port env peer port d =
     (case (if de_list env then hotel_of_node peer (dm_hotels d) else None) of
        None \<Rightarrow> (False, d)
      | Some h \<Rightarrow>
          if hr_port h = port then (False, d)
          else let h' = h\<lparr>hr_port := port\<rparr>
               in (True, if de_write env h' then d\<lparr>dm_hotels := upsert_hotel h' (dm_hotels d)\<rparr> else d))"

definition peer_directory :: "daemon_env \<Rightarrow> string \<Rightarrow> daemon \<Rightarrow> MeshPeerEntry list" where
  "peer_directory env peer d =
     map (\<lambda>h. \<lparr>me_node = node_of h, me_hotel = hr_name h, me_host = hr_host h, me_port = hr_port h\<rparr>)
       (filter (\<lambda>h. node_of h \<noteq> nc_node (de_capabilities env) \<and> node_of h \<noteq> peer) (list_hotels (dm_hotels d)))"

definition anchor_reply :: "daemon_env \<Rightarrow> string \<Rightarrow> daemon \<Rightarrow> emission list" where
  "anchor_reply env peer d =
     [EmitHeartbeat \<lparr>hb_capabilities = de_capabilities env, hb_reachability = None, hb_health = None\<rparr>]
     @ (if de_list env \<and> peer_directory env peer d \<noteq> [] then [EmitCatalog (peer_directory env peer d)] else [])
     @ (case de_state env of
          None \<Rightarrow> []
        | Some st \<Rightarrow> (case chunk_hotel_state_payloads (de_wire env) st of None \<Rightarrow> [] | Some cs \<Rightarrow> map EmitHotelState cs))"

definition handle_heartbeat :: "daemon_env \<Rightarrow> nat \<Rightarrow> nat \<Rightarrow> HeartbeatPayload \<Rightarrow> daemon \<Rightarrow> daemon \<times> emission list" where
  "handle_heartbeat env now port h d =
     (let peer = nc_node (hb_capabilities h);
          was_stale = is_node_stale now peer (dm_registry d);
          d1 = on_registry (observe_heartbeat now (hb_capabilities h) (hb_reachability h) (hb_health h)) d;
          (port_changed, d2) = reconcile_port env peer port d1
      in (d2, if port_changed \<or> was_stale
              then (case de_key env peer of Inr (Some _) \<Rightarrow> anchor_reply env peer d2 | _ \<Rightarrow> [])
              else []))"

text \<open>A peer of a catalogue against the hotels listed before the loop.\<close>

definition with_peer :: "MeshPeerEntry \<Rightarrow> HotelRecord \<Rightarrow> HotelRecord" where
  "with_peer p h =
     (let h1 = h\<lparr>hr_port := me_port p\<rparr>
      in if (case hr_host h of Some s \<Rightarrow> s = [] | None \<Rightarrow> True)
         then (case me_host p of Some s \<Rightarrow> if s \<noteq> [] then h1\<lparr>hr_host := Some s\<rparr> else h1 | None \<Rightarrow> h1)
         else h1)"

definition apply_peer :: "daemon_env \<Rightarrow> HotelRecord list \<Rightarrow> hotel_table \<Rightarrow> MeshPeerEntry \<Rightarrow> hotel_table" where
  "apply_peer env hotels t p =
     (if me_node p = nc_node (de_capabilities env) then t
      else case find (\<lambda>h. node_of h = me_node p) hotels of
             None \<Rightarrow> t
           | Some h \<Rightarrow> if with_peer p h \<noteq> h \<and> de_write env (with_peer p h) then upsert_hotel (with_peer p h) t else t)"

definition handle_catalog :: "daemon_env \<Rightarrow> MeshPeerEntry list \<Rightarrow> daemon \<Rightarrow> daemon" where
  "handle_catalog env peers d =
     (if de_list env then d\<lparr>dm_hotels := foldl (apply_peer env (list_hotels (dm_hotels d))) (dm_hotels d) peers\<rparr> else d)"

definition handle_hotel_state :: "daemon_env \<Rightarrow> nat \<Rightarrow> HotelStateSyncPayload \<Rightarrow> daemon \<Rightarrow> daemon" where
  "handle_hotel_state env now st d =
     (if hs_node st = nc_node (de_capabilities env) then d
      else let d1 = on_registry (observe_hotel_state now (hs_node st) (hs_hotel st) (hs_guests st) (hs_agents st)) d
           in d1\<lparr>dm_profiles := foldl (\<lambda>t p. if de_upsert env p then upsert_model_profile p t else t) (dm_profiles d1)
                 (filter (\<lambda>p. mp_node p = hs_node st) (hs_profiles st))\<rparr>)"

definition forwarded :: "MsgType \<Rightarrow> bool" where
  "forwarded ty \<longleftrightarrow> ty \<in> {MeshEventBatch, MeshEventAck, MeshMembershipAccept, MeshMembershipSync, WebRtcSignal}"

fun dispatch_message :: "daemon_env \<Rightarrow> nat \<Rightarrow> nat \<Rightarrow> inbound \<Rightarrow> daemon \<Rightarrow> daemon \<times> emission list" where
  "dispatch_message env now port (InHeartbeat h) d = (let (d', es) = handle_heartbeat env now port h d in (d', es @ [ToInbox]))"
| "dispatch_message env now port (InCapabilitySync c) d =
     (on_registry (observe_capability_sync_chunk now (cs_capabilities c) (cs_reachability c) None (cs_sync c) (cs_index c) (cs_total c)
        (cs_advertisements c)) d, [ToInbox])"
| "dispatch_message env now port (InCatalogSync peers) d = (handle_catalog env peers d, [ToInbox])"
| "dispatch_message env now port (InHotelState st) d = (handle_hotel_state env now st d, [])"
| "dispatch_message env now port (InUndecodable ty) d = (d, if ty \<in> {Heartbeat, CapabilitySync, MeshCatalogSync} then [ToInbox] else [])"
| "dispatch_message env now port (InPlain ty) d = (d, if forwarded ty then [ToInbox] else [])"

definition handle_packet ::
  "mac \<Rightarrow> bool \<Rightarrow> bool option \<Rightarrow> 64 word \<Rightarrow> (BeaconMessage \<Rightarrow> inbound) \<Rightarrow> daemon_env \<Rightarrow> nat \<Rightarrow> nat \<Rightarrow> BeaconMessage \<Rightarrow> daemon \<times> nonces
   \<Rightarrow> (daemon \<times> nonces) \<times> emission list" where
  "handle_packet mac auth tracker wall decode env now port msg s =
     (case beacon_admit mac (de_key env) (nc_node (de_capabilities env)) auth tracker wall msg (snd s) of
        (False, ns) \<Rightarrow> ((fst s, ns), [])
      | (True, ns) \<Rightarrow> (let (d, es) = dispatch_message env now port (decode msg) (fst s) in ((d, ns), es)))"

subsection \<open>The handshake of a peer that comes back\<close>

text \<open>A heartbeat of one daemon arrives at another, whose reply, if it has one, arrives at the first, and so on. \<open>arr k\<close> is
  the instant at which message number \<open>k\<close> arrives; the result counts the messages.\<close>

partial_function (option) exchange ::
  "(nat \<Rightarrow> nat) \<Rightarrow> daemon_env \<Rightarrow> daemon_env \<Rightarrow> nat \<Rightarrow> nat \<Rightarrow> daemon \<Rightarrow> daemon \<Rightarrow> HeartbeatPayload \<Rightarrow> nat \<Rightarrow> (daemon \<times> daemon \<times> nat) option" where
  "exchange arr ea eb pa pb a b h k =
     (let (a', es) = dispatch_message ea (arr k) pb (InHeartbeat h) a
      in case es of EmitHeartbeat h' # _ \<Rightarrow> exchange arr eb ea pb pa b a' h' (Suc k) | _ \<Rightarrow> Some (a', b, Suc k))"

definition hotels_wf :: "hotel_table \<Rightarrow> bool" where
  "hotels_wf t \<longleftrightarrow> tbl_wf t \<and> list_all (\<lambda>(k, h). k = hotel_key (hr_name h)) t"

lemma find_put:
  assumes "tbl_wf t" "list_all (\<lambda>(k, x). k = f x) t" "find P (map snd t) = Some h" "P h'" "f h' = f h"
  shows "find P (map snd (tbl_put (f h) h' t)) = Some h'"
  using assms(1-3)
proof (induction t)
  case (Cons r t)
  obtain k x where r: "r = (k, x)" by force
  show ?case
  proof (cases "k = f h")
    case False
    then have "\<not> P x" "find P (map snd t) = Some h" using Cons.prems r assms(5) by (auto split: if_splits)
    moreover have "k < f h"
    proof -
      have "h \<in> set (map snd t)" using \<open>find P (map snd t) = Some h\<close> find_found by fast
      then have "(f h, h) \<in> set t" using Cons.prems(2) by (auto simp: list_all_iff)
      then show ?thesis using Cons.prems(1) r by (force simp: tbl_wf_def)
    qed
    moreover have "tbl_wf t" using Cons.prems(1) by (simp add: tbl_wf_def)
    ultimately show ?thesis using Cons.IH Cons.prems(2) r by auto
  qed (use r assms(4) in simp)
qed simp

lemma hotel_of_node_put:
  assumes "hotels_wf t" "hotel_of_node node t = Some h"
  shows "hotel_of_node node (upsert_hotel (h\<lparr>hr_port := port\<rparr>) t) = Some (h\<lparr>hr_port := port\<rparr>)"
proof -
  have "find (\<lambda>h. node_of h = node) (map snd (tbl_put (hotel_key (hr_name h)) (h\<lparr>hr_port := port\<rparr>) t)) = Some (h\<lparr>hr_port := port\<rparr>)"
    using assms find_put [of t "\<lambda>h. hotel_key (hr_name h)" "\<lambda>h. node_of h = node" h "h\<lparr>hr_port := port\<rparr>"]
      find_found [of "\<lambda>h. node_of h = node" "list_hotels t" h]
    by (simp add: hotels_wf_def hotel_of_node_def list_hotels_def node_of_def)
  then show ?thesis by (simp add: hotel_of_node_def list_hotels_def upsert_hotel_def)
qed

text \<open>What the daemon knows of a peer just after its heartbeat.\<close>

definition settled :: "daemon_env \<Rightarrow> nat \<Rightarrow> string \<Rightarrow> nat \<Rightarrow> daemon \<Rightarrow> bool" where
  "settled env t peer port d \<longleftrightarrow> (\<exists>s. get_node_status peer (dm_registry d) = Some s \<and> ns_last_seen s = t)
     \<and> (de_list env \<longrightarrow> (case hotel_of_node peer (dm_hotels d) of Some h \<Rightarrow> hr_port h = port | None \<Rightarrow> True))"

lemma observe_heartbeat_seen: "\<exists>s. get_node_status (nc_node caps) (observe_heartbeat t caps reach health r) = Some s \<and> ns_last_seen s = t"
  by (simp add: observe_heartbeat_def get_node_status_def tbl_get_put Let_def split: option.splits)

lemma heartbeat_settles:
  assumes "handle_heartbeat env t port h d = (d', es)" "hotels_wf (dm_hotels d)" "\<And>h. de_write env h"
  shows "settled env t (nc_node (hb_capabilities h)) port d'"
proof -
  let ?peer = "nc_node (hb_capabilities h)"
  let ?d1 = "on_registry (observe_heartbeat t (hb_capabilities h) (hb_reachability h) (hb_health h)) d"
  have d': "d' = snd (reconcile_port env ?peer port ?d1)"
    using assms(1) by (auto simp: handle_heartbeat_def Let_def split: prod.splits)
  have reg: "dm_registry d' = dm_registry ?d1"
    unfolding d' by (simp add: reconcile_port_def Let_def split: option.splits)
  have hotels: "dm_hotels ?d1 = dm_hotels d" by (simp add: on_registry_def)
  have "case hotel_of_node ?peer (dm_hotels d') of Some h \<Rightarrow> hr_port h = port | None \<Rightarrow> True" if "de_list env"
  proof (cases "hotel_of_node ?peer (dm_hotels d)")
    case (Some x)
    then show ?thesis
      using that assms(3) hotel_of_node_put [OF assms(2) Some, of port]
      unfolding d' by (cases "hr_port x = port") (simp_all add: reconcile_port_def hotels Let_def)
  qed (use that in \<open>simp add: d' reconcile_port_def hotels\<close>)
  then show ?thesis
    using observe_heartbeat_seen unfolding settled_def reg by (simp add: on_registry_def)
qed

lemma settled_is_quiet:
  assumes "settled env t (nc_node (hb_capabilities h)) port d" "t' - t \<le> DEFAULT_NODE_TTL"
  shows "snd (handle_heartbeat env t' port h d) = []"
proof -
  let ?d1 = "on_registry (observe_heartbeat t' (hb_capabilities h) (hb_reachability h) (hb_health h)) d"
  have "\<not> is_node_stale t' (nc_node (hb_capabilities h)) (dm_registry d)"
    using assms by (auto simp: settled_def is_node_stale_def is_fresh_def)
  moreover have "fst (reconcile_port env (nc_node (hb_capabilities h)) port ?d1) = False"
    using assms(1) by (auto simp: settled_def reconcile_port_def on_registry_def split: option.splits)
  ultimately show ?thesis by (auto simp: handle_heartbeat_def Let_def split: prod.splits)
qed

text \<open>The reply to a heartbeat, if there is one, is a heartbeat of the replying node, and nothing follows it but messages of other kinds.\<close>

lemma handshake_reply:
  assumes "snd (dispatch_message env t port (InHeartbeat h) d) = EmitHeartbeat h' # es"
  shows "hb_capabilities h' = de_capabilities env"
  using assms by (auto simp: handle_heartbeat_def anchor_reply_def Let_def split: prod.splits if_splits sum.splits option.splits)

lemma exchange_replies:
  "dispatch_message ea (arr k) pb (InHeartbeat h) a = (a', EmitHeartbeat h' # es) \<Longrightarrow>
     exchange arr ea eb pa pb a b h k = exchange arr eb ea pb pa b a' h' (Suc k)"
  by (subst exchange.simps) simp

lemma exchange_stops:
  assumes "\<And>h' es. snd (dispatch_message ea (arr k) pb (InHeartbeat h) a) \<noteq> EmitHeartbeat h' # es"
  shows "\<exists>a'. exchange arr ea eb pa pb a b h k = Some (a', b, Suc k)"
proof -
  obtain a' es where d: "dispatch_message ea (arr k) pb (InHeartbeat h) a = (a', es)" by force
  then have "\<And>h' es'. es \<noteq> EmitHeartbeat h' # es'" using assms by auto
  then show ?thesis using d by (subst exchange.simps) (auto split: list.splits emission.splits)
qed

lemma exchange_cases:
  obtains (stops) a' where "exchange arr ea eb pa pb a b h k = Some (a', b, Suc k)"
  | (replies) a' h' es where "dispatch_message ea (arr k) pb (InHeartbeat h) a = (a', EmitHeartbeat h' # es)"
      "exchange arr ea eb pa pb a b h k = exchange arr eb ea pb pa b a' h' (Suc k)"
      "hb_capabilities h' = de_capabilities ea"
proof (cases "\<exists>h' es. snd (dispatch_message ea (arr k) pb (InHeartbeat h) a) = EmitHeartbeat h' # es")
  case True
  then obtain h' es where e: "snd (dispatch_message ea (arr k) pb (InHeartbeat h) a) = EmitHeartbeat h' # es" by auto
  then have "dispatch_message ea (arr k) pb (InHeartbeat h) a
      = (fst (dispatch_message ea (arr k) pb (InHeartbeat h) a), EmitHeartbeat h' # es)"
    by (metis prod.collapse)
  from replies [OF this exchange_replies [where ea = ea and arr = arr and k = k and pb = pb and h = h and a = a, OF this]
      handshake_reply [OF e]] show thesis .
next
  case False
  then have "\<exists>a'. exchange arr ea eb pa pb a b h k = Some (a', b, Suc k)" by (intro exchange_stops) blast
  then show thesis using stops by blast
qed

text \<open>C14. The handshake ends. When a heartbeat arrives at a hotel that can write its directory, and the messages of the
  exchange arrive within 15 seconds, then whatever the two hotels know of each other, and whatever the other one can store, at most two replies follow:
  the peer's heartbeat is settled, and its next one within 15 seconds is not answered.\<close>

theorem reconnect_handshake_ends:
  assumes "hotels_wf (dm_hotels a)" "de_write ea = (\<lambda>_. True)" "hb_capabilities h = de_capabilities eb"
    "arr 2 - arr 0 \<le> DEFAULT_NODE_TTL"
  shows "\<exists>x y n. exchange arr ea eb pa pb a b h 0 = Some (x, y, n) \<and> n \<le> 3"
proof (cases rule: exchange_cases [of arr ea eb pa pb a b h 0])
  case (stops a')
  then show ?thesis by auto
next
  case 1: (replies a1 h1 es1)
  have peer: "nc_node (hb_capabilities h) = nc_node (de_capabilities eb)" using assms(3) by simp
  have "settled ea (arr 0) (nc_node (de_capabilities eb)) pb a1"
    using heartbeat_settles [of ea "arr 0" pb h a a1] 1(1) assms(1,2) peer by (auto split: prod.splits)
  note settled = this
  show ?thesis
  proof (cases rule: exchange_cases [of arr eb ea pb pa b a1 h1 "Suc 0"])
    case (stops b')
    then show ?thesis using 1(2) by auto
  next
    case 2: (replies b1 h2 es2)
    have "snd (handle_heartbeat ea (arr 2) pb h2 a1) = []"
      using settled_is_quiet [of ea "arr 0" h2 pb a1 "arr 2"] settled 2(3) assms(4) by simp
    then have "\<And>h' es. snd (dispatch_message ea (arr 2) pb (InHeartbeat h2) a1) \<noteq> EmitHeartbeat h' # es"
      by (auto split: prod.splits)
    then obtain a' where "exchange arr ea eb pa pb a1 b1 h2 2 = Some (a', b1, 3)"
      using exchange_stops [of ea arr 2 pb h2 a1 eb pa b1] by (auto simp: numeral_eq_Suc)
    then show ?thesis using 1(2) 2(2) by (simp add: numeral_eq_Suc)
  qed
qed

text \<open>A hotel that has just come up, and one that still has its old port.\<close>

definition demo_beacon :: "string \<Rightarrow> daemon_env" where
  "demo_beacon node = \<lparr>de_capabilities = demo_caps node, de_key = (\<lambda>_. Inr (Some ''psk'')), de_list = True, de_write = (\<lambda>_. True),
     de_upsert = (\<lambda>_. True), de_state = None, de_wire = demo_wire_len\<rparr>"

definition demo_directory_hotel :: "string \<Rightarrow> string \<Rightarrow> nat \<Rightarrow> HotelRecord" where
  "demo_directory_hotel name node port = \<lparr>hr_name = name, hr_capabilities = demo_caps node, hr_host = Some ''100.64.0.1'', hr_port = port,
     hr_blob_port = port + 1, hr_execution_port = port + 2, hr_socket = ''/tmp/a.sock'', hr_pid = None\<rparr>"

definition demo_daemon :: "HotelRecord \<Rightarrow> daemon" where
  "demo_daemon h = \<lparr>dm_registry = new_registry, dm_hotels = upsert_hotel h [], dm_profiles = []\<rparr>"

definition demo_beat :: "string \<Rightarrow> HeartbeatPayload" where
  "demo_beat node = \<lparr>hb_capabilities = demo_caps node, hb_reachability = None, hb_health = None\<rparr>"

theorem reconnect_handshake_ends_witness:
  "\<exists>x y n. exchange (\<lambda>k. 100 + k) (demo_beacon ''vps-01'') (demo_beacon ''mbp-01'') 9000 9200 (demo_daemon (demo_directory_hotel ''mbp'' ''mbp-01'' 9100))
     (demo_daemon (demo_directory_hotel ''vps'' ''vps-01'' 9000)) (demo_beat ''mbp-01'') 0 = Some (x, y, n) \<and> n \<le> 3"
  by (rule reconnect_handshake_ends)
    (simp_all add: demo_daemon_def hotels_wf_def upsert_hotel_def tbl_wf_def demo_beacon_def demo_beat_def DEFAULT_NODE_TTL_def nanos_per_sec_def)

text \<open>Two hotels that cannot write their directories and have each other's old ports answer each other for ever.\<close>

definition stuck_port :: "daemon_env \<Rightarrow> daemon_env \<Rightarrow> nat \<Rightarrow> daemon \<Rightarrow> bool" where
  "stuck_port ea eb pb a \<longleftrightarrow> de_list ea \<and> de_write ea = (\<lambda>_. False) \<and> (\<exists>k. de_key ea (nc_node (de_capabilities eb)) = Inr (Some k))
     \<and> (case hotel_of_node (nc_node (de_capabilities eb)) (dm_hotels a) of Some x \<Rightarrow> hr_port x \<noteq> pb | None \<Rightarrow> False)"

lemma stuck_reply:
  assumes "stuck_port ea eb pb a" "hb_capabilities h = de_capabilities eb"
  obtains a' h' es where "dispatch_message ea t pb (InHeartbeat h) a = (a', EmitHeartbeat h' # es)" "stuck_port ea eb pb a'"
    "hb_capabilities h' = de_capabilities ea"
proof -
  let ?peer = "nc_node (de_capabilities eb)"
  define d1 where "d1 = on_registry (observe_heartbeat t (de_capabilities eb) (hb_reachability h) (hb_health h)) a"
  have hotels: "dm_hotels d1 = dm_hotels a" by (simp add: d1_def on_registry_def)
  have rec: "reconcile_port ea ?peer pb d1 = (True, d1)"
    using assms(1) by (auto simp: reconcile_port_def stuck_port_def hotels Let_def split: option.splits)
  have st: "stuck_port ea eb pb d1" using assms(1) by (simp add: stuck_port_def hotels)
  obtain k where "de_key ea ?peer = Inr (Some k)" using assms(1) by (auto simp: stuck_port_def)
  then have "dispatch_message ea t pb (InHeartbeat h) a = (d1, anchor_reply ea ?peer d1 @ [ToInbox])"
    using rec assms(2) by (simp add: handle_heartbeat_def Let_def d1_def [symmetric])
  then show thesis using that [of d1 "\<lparr>hb_capabilities = de_capabilities ea, hb_reachability = None, hb_health = None\<rparr>"] st
    by (simp add: anchor_reply_def)
qed

lemma heartbeat_storm:
  assumes "stuck_port ea eb pb a" "stuck_port eb ea pa b" "hb_capabilities h = de_capabilities eb"
  shows "exchange arr ea eb pa pb a b h k = None"
proof -
  let ?stuck = "\<lambda>ea eb pa pb a b h. stuck_port ea eb pb a \<and> stuck_port eb ea pa b \<and> hb_capabilities h = de_capabilities eb"
  have "\<not> ?stuck ea eb pa pb a b h" if "exchange arr ea eb pa pb a b h k = Some y" for arr ea eb pa pb a b h k y
    using that
  proof (rule exchange.raw_induct [where P = "\<lambda>arr ea eb pa pb a b h k y. \<not> ?stuck ea eb pa pb a b h", rotated])
    fix ex arr ea eb pa pb a b h k y
    assume IH: "\<And>arr ea eb pa pb a b h k y. ex arr ea eb pa pb a b h k = Some y \<Longrightarrow> \<not> ?stuck ea eb pa pb a b h"
      and body: "(let (a', es) = dispatch_message ea (arr k) pb (InHeartbeat h) a
        in case es of EmitHeartbeat h' # _ \<Rightarrow> ex arr eb ea pb pa b a' h' (Suc k) | _ \<Rightarrow> Some (a', b, Suc k)) = Some y"
    show "\<not> ?stuck ea eb pa pb a b h"
    proof
      assume stuck: "?stuck ea eb pa pb a b h"
      then obtain a' h' es where r: "dispatch_message ea (arr k) pb (InHeartbeat h) a = (a', EmitHeartbeat h' # es)"
          "stuck_port ea eb pb a'" "hb_capabilities h' = de_capabilities ea"
        using stuck_reply by metis
      have "ex arr eb ea pb pa b a' h' (Suc k) = Some y" using body r(1) by simp
      from IH [OF this] stuck r show False by simp
    qed
  qed
  then show ?thesis using assms by (cases "exchange arr ea eb pa pb a b h k") auto
qed

subsection \<open>A hotel state that arrives\<close>

definition receive_state :: "daemon_env \<Rightarrow> daemon \<Rightarrow> nat \<times> HotelStateSyncPayload \<Rightarrow> daemon" where
  "receive_state env d m = fst (dispatch_message env (fst m) 0 (InHotelState (snd m)) d)"

definition profile_key :: "ModelProfileRecord \<Rightarrow> string" where
  "profile_key p = model_profile_key (mp_ref p) (mp_node p)"

lemma upserts_last:
  assumes "inj_on profile_key (set ps)" "p \<in> set ps"
  shows "tbl_get (foldl (\<lambda>t p. upsert_model_profile p t) t ps) (profile_key p) = Some p"
  using assms
proof (induction ps rule: rev_induct)
  case (snoc q ps)
  have "tbl_get (foldl (\<lambda>t p. upsert_model_profile p t) t (ps @ [q])) (profile_key p)
      = (if profile_key p = profile_key q then Some q else tbl_get (foldl (\<lambda>t p. upsert_model_profile p t) t ps) (profile_key p))"
    by (simp add: upsert_model_profile_def tbl_get_put profile_key_def)
  moreover have "p = q" if "profile_key p = profile_key q" using that snoc.prems by (auto simp: inj_on_def)
  moreover have "inj_on profile_key (set ps)" using snoc.prems(1) by (simp add: inj_on_def)
  ultimately show ?case using snoc by auto
qed simp

lemma received_profiles:
  assumes "de_upsert env = (\<lambda>_. True)" "list_all (\<lambda>m. hs_node (snd m) = node) ms" "node \<noteq> nc_node (de_capabilities env)"
  shows "dm_profiles (foldl (receive_state env) d ms)
    = foldl (\<lambda>t p. upsert_model_profile p t) (dm_profiles d) (concat (map (\<lambda>m. filter (\<lambda>p. mp_node p = node) (hs_profiles (snd m))) ms))"
  using assms(2)
proof (induction ms arbitrary: d)
  case (Cons m ms)
  then show ?case using assms(1,3) by (simp add: receive_state_def handle_hotel_state_def on_registry_def Let_def)
qed simp

lemma received_roster:
  assumes "list_all (\<lambda>m. hs_node (snd m) = node \<and> hs_hotel (snd m) = hotel \<and> hs_guests (snd m) = guests \<and> hs_agents (snd m) = agents) ms"
    "ms \<noteq> []" "node \<noteq> nc_node (de_capabilities env)"
  shows "tbl_get (nr_remote (dm_registry (foldl (receive_state env) d ms))) node
    = Some \<lparr>rh_hotel = hotel, rh_node = node, rh_guests = guests, rh_agents = agents, rh_last_seen = fst (last ms)\<rparr>"
  using assms(2,1)
proof (cases ms rule: rev_cases)
  case (snoc init m)
  then show ?thesis using assms(1,3)
    by (simp add: receive_state_def handle_hotel_state_def on_registry_def observe_hotel_state_def Let_def tbl_get_put)
qed simp

text \<open>C28. A hotel state arrives. When the roster fits a datagram and the receiver can store the profiles, the datagrams of a hotel state, received in any order and any
  number of times, leave the receiver with the sender's whole roster and with every model profile of the sender that
  fits a datagram beside the roster; whatever the receiver held before.\<close>

theorem hotel_state_roundtrip:
  assumes "chunk_hotel_state_payloads wire payload = Some chunks" "fits wire (payload\<lparr>hs_profiles := []\<rparr>)"
    and "snd ` set ms = set chunks" "hs_node payload \<noteq> nc_node (de_capabilities env)" "de_upsert env = (\<lambda>_. True)"
    and "distinct (map profile_key (hs_profiles payload))"
  shows "tbl_get (nr_remote (dm_registry (foldl (receive_state env) d ms))) (hs_node payload)
      = Some \<lparr>rh_hotel = hs_hotel payload, rh_node = hs_node payload, rh_guests = hs_guests payload, rh_agents = hs_agents payload,
          rh_last_seen = fst (last ms)\<rparr>
    \<and> list_all (\<lambda>p. get_model_profile (mp_ref p) (mp_node p) (dm_profiles (foldl (receive_state env) d ms)) = Some p)
        (filter (\<lambda>p. mp_node p = hs_node payload \<and> fits wire (payload\<lparr>hs_profiles := [p]\<rparr>)) (hs_profiles payload))"
proof
  have spec: "chunks \<noteq> []" "list_all (\<lambda>c. c\<lparr>hs_profiles := hs_profiles payload\<rparr> = payload) chunks"
      "subseq (concat (map hs_profiles chunks)) (hs_profiles payload)"
      "subseq (filter (\<lambda>p. fits wire (payload\<lparr>hs_profiles := [p]\<rparr>)) (hs_profiles payload)) (concat (map hs_profiles chunks))"
    using chunk_spec [OF assms(1,2)] by blast+
  have same: "hs_node c = hs_node payload \<and> hs_hotel c = hs_hotel payload \<and> hs_guests c = hs_guests payload \<and> hs_agents c = hs_agents payload"
    if "c \<in> set chunks" for c
  proof -
    have "c\<lparr>hs_profiles := hs_profiles payload\<rparr> = payload" using spec(2) that by (simp add: list_all_iff)
    then show ?thesis by (metis HotelStateSyncPayload.select_convs(1-4) HotelStateSyncPayload.surjective HotelStateSyncPayload.update_convs(5))
  qed
  have ms: "list_all (\<lambda>m. hs_node (snd m) = hs_node payload \<and> hs_hotel (snd m) = hs_hotel payload \<and> hs_guests (snd m) = hs_guests payload
      \<and> hs_agents (snd m) = hs_agents payload) ms"
    using same assms(3) by (force simp: list_all_iff)
  have "ms \<noteq> []" using assms(3) spec(1) by (cases chunks) auto
  from received_roster [OF ms this assms(4)]
  show "tbl_get (nr_remote (dm_registry (foldl (receive_state env) d ms))) (hs_node payload)
      = Some \<lparr>rh_hotel = hs_hotel payload, rh_node = hs_node payload, rh_guests = hs_guests payload, rh_agents = hs_agents payload,
          rh_last_seen = fst (last ms)\<rparr>" .
  let ?ps = "concat (map (\<lambda>m. filter (\<lambda>p. mp_node p = hs_node payload) (hs_profiles (snd m))) ms)"
  have "p \<in> set ?ps \<longleftrightarrow> (\<exists>c \<in> snd ` set ms. p \<in> set (hs_profiles c) \<and> mp_node p = hs_node payload)" for p by auto
  then have set_ps: "set ?ps = {p \<in> set (concat (map hs_profiles chunks)). mp_node p = hs_node payload}"
    unfolding assms(3) by auto
  have all: "set (concat (map hs_profiles chunks)) \<subseteq> set (hs_profiles payload)"
    using list_emb_set [OF spec(3)] by blast
  have "set ?ps \<subseteq> set (hs_profiles payload)" using all unfolding set_ps by blast
  then have inj: "inj_on profile_key (set ?ps)" using assms(6) by (meson distinct_map inj_on_subset)
  have "get_model_profile (mp_ref p) (mp_node p) (dm_profiles (foldl (receive_state env) d ms)) = Some p"
    if p: "p \<in> set (hs_profiles payload)" "mp_node p = hs_node payload" "fits wire (payload\<lparr>hs_profiles := [p]\<rparr>)" for p
  proof -
    have "p \<in> set (filter (\<lambda>p. fits wire (payload\<lparr>hs_profiles := [p]\<rparr>)) (hs_profiles payload))" using p by simp
    then have "p \<in> set (concat (map hs_profiles chunks))" using list_emb_set [OF spec(4)] by blast
    then have "p \<in> set ?ps" using p(2) unfolding set_ps by simp
    from upserts_last [OF inj this] show ?thesis
      using received_profiles [of env "hs_node payload" ms d] assms(4,5) ms
      by (simp add: get_model_profile_def profile_key_def list_all_iff)
  qed
  then show "list_all (\<lambda>p. get_model_profile (mp_ref p) (mp_node p) (dm_profiles (foldl (receive_state env) d ms)) = Some p)
        (filter (\<lambda>p. mp_node p = hs_node payload \<and> fits wire (payload\<lparr>hs_profiles := [p]\<rparr>)) (hs_profiles payload))"
    by (simp add: list_all_iff)
qed

theorem hotel_state_roundtrip_witness:
  "tbl_get (nr_remote (dm_registry (foldl (receive_state (demo_beacon ''vps-01'')) (demo_daemon (demo_directory_hotel ''mac'' ''mac-01'' 9000))
      [(1, demo_datagram ''d'' 4000), (2, demo_datagram ''a'' 3000), (3, demo_datagram ''d'' 4000), (4, demo_datagram ''b'' 6000)]))) ''mac-01''
    = Some \<lparr>rh_hotel = ''mac'', rh_node = ''mac-01'', rh_guests = hs_guests demo_state, rh_agents = [], rh_last_seen = 4\<rparr>"
proof -
  let ?ms = "[(1, demo_datagram ''d'' 4000), (2, demo_datagram ''a'' 3000), (3, demo_datagram ''d'' 4000), (4, demo_datagram ''b'' 6000)]"
  have f: "fits demo_wire_len (demo_state\<lparr>hs_profiles := []\<rparr>)"
    by (simp add: fits_def demo_wire_len_def over_budget_def MAX_HOTEL_STATE_WIRE_BYTES_def)
  have s: "snd ` set ?ms = set [demo_datagram ''a'' 3000, demo_datagram ''b'' 6000, demo_datagram ''d'' 4000]" by auto
  have n: "hs_node demo_state \<noteq> nc_node (de_capabilities (demo_beacon ''vps-01''))" by (simp add: demo_state_def demo_beacon_def demo_caps_def)
  have d: "distinct (map profile_key (hs_profiles demo_state))"
    by (simp add: demo_state_def profile_key_def model_profile_key_def demo_profile_def)
  have u: "de_upsert (demo_beacon ''vps-01'') = (\<lambda>_. True)" by (simp add: demo_beacon_def)
  from hotel_state_roundtrip [OF demo_chunks f s n u d] show ?thesis by (simp add: demo_state_def)
qed

subsection \<open>Catalogues of other hotels\<close>

lemma with_peer_fields:
  "hr_name (with_peer p h) = hr_name h" "hr_capabilities (with_peer p h) = hr_capabilities h" "hr_port (with_peer p h) = me_port p"
  by (simp_all add: with_peer_def Let_def split: option.splits)

text \<open>What a catalogue may have made of a record: nothing, or what one of its peers says.\<close>

definition catalogued :: "daemon_env \<Rightarrow> MeshPeerEntry list \<Rightarrow> HotelRecord \<Rightarrow> HotelRecord \<Rightarrow> bool" where
  "catalogued env peers h h' \<longleftrightarrow> h' = h
     \<or> node_of h \<noteq> nc_node (de_capabilities env) \<and> list_ex (\<lambda>p. me_node p = node_of h \<and> h' = with_peer p h) peers"

definition catalogue_inv :: "daemon_env \<Rightarrow> MeshPeerEntry list \<Rightarrow> hotel_table \<Rightarrow> hotel_table \<Rightarrow> bool" where
  "catalogue_inv env peers t u \<longleftrightarrow> (\<forall>key. case tbl_get t key of None \<Rightarrow> tbl_get u key = None
     | Some h \<Rightarrow> (case tbl_get u key of None \<Rightarrow> False | Some h' \<Rightarrow> catalogued env peers h h'))"

lemma apply_peer_inv:
  assumes "hotels_wf t" "catalogue_inv env peers t u" "p \<in> set peers"
  shows "catalogue_inv env peers t (apply_peer env (list_hotels t) u p)"
proof (cases "apply_peer env (list_hotels t) u p = u")
  case False
  then obtain h where h: "find (\<lambda>h. node_of h = me_node p) (list_hotels t) = Some h" "me_node p \<noteq> nc_node (de_capabilities env)"
      and u': "apply_peer env (list_hotels t) u p = upsert_hotel (with_peer p h) u"
    by (auto simp: apply_peer_def split: option.splits if_splits)
  have hn: "h \<in> set (map snd t)" "node_of h = me_node p" using find_found [OF h(1)] by (auto simp: list_hotels_def)
  then have "(hotel_key (hr_name h), h) \<in> set t" using assms(1) by (auto simp: hotels_wf_def list_all_iff)
  then have get: "tbl_get t (hotel_key (hr_name h)) = Some h" using assms(1) tbl.rows_get [of t "hotel_key (hr_name h)" h] by (simp add: hotels_wf_def)
  have "catalogued env peers h (with_peer p h)"
    using hn(2) h(2) assms(3) by (auto simp: catalogued_def list_ex_iff)
  moreover have "tbl_get (upsert_hotel (with_peer p h) u) k = (if k = hotel_key (hr_name h) then Some (with_peer p h) else tbl_get u k)" for k
    by (simp add: upsert_hotel_def tbl_get_put with_peer_fields)
  ultimately have "case tbl_get t k of None \<Rightarrow> tbl_get (upsert_hotel (with_peer p h) u) k = None
     | Some h0 \<Rightarrow> (case tbl_get (upsert_hotel (with_peer p h) u) k of None \<Rightarrow> False | Some h' \<Rightarrow> catalogued env peers h0 h')" for k
    using assms(2) [unfolded catalogue_inv_def, rule_format, of k] get by (cases "k = hotel_key (hr_name h)"; cases "tbl_get t k") simp_all
  then show ?thesis unfolding u' catalogue_inv_def by blast
qed (use assms(2) in simp)

lemma apply_peers_inv:
  "hotels_wf t \<Longrightarrow> catalogue_inv env peers t u \<Longrightarrow> set ps \<subseteq> set peers \<Longrightarrow> catalogue_inv env peers t (foldl (apply_peer env (list_hotels t)) u ps)"
  by (induction ps arbitrary: u) (auto simp: apply_peer_inv)

lemma with_peer_host: "(case hr_host h of Some s \<Rightarrow> s \<noteq> [] | None \<Rightarrow> False) \<Longrightarrow> hr_host (with_peer p h) = hr_host h"
  by (cases "hr_host h") (simp_all add: with_peer_def Let_def)

lemma with_peer_back: "(with_peer p h)\<lparr>hr_port := hr_port h, hr_host := hr_host h\<rparr> = h"
  by (simp add: with_peer_def Let_def split: option.splits)

lemma catalogued_keeps:
  assumes "catalogued env peers h h'"
  shows "h'\<lparr>hr_port := hr_port h, hr_host := hr_host h\<rparr> = h"
    "(case hr_host h of Some s \<Rightarrow> s \<noteq> [] | None \<Rightarrow> False) \<Longrightarrow> hr_host h' = hr_host h"
    "node_of h = nc_node (de_capabilities env) \<Longrightarrow> h' = h"
    "hr_port h' = hr_port h \<or> (\<exists>p \<in> set peers. me_node p = node_of h \<and> me_port p = hr_port h')"
proof -
  consider "h' = h" | p where "p \<in> set peers" "me_node p = node_of h" "h' = with_peer p h" "node_of h \<noteq> nc_node (de_capabilities env)"
    using assms by (auto simp: catalogued_def list_ex_iff)
  then show "h'\<lparr>hr_port := hr_port h, hr_host := hr_host h\<rparr> = h"
    "(case hr_host h of Some s \<Rightarrow> s \<noteq> [] | None \<Rightarrow> False) \<Longrightarrow> hr_host h' = hr_host h"
    "node_of h = nc_node (de_capabilities env) \<Longrightarrow> h' = h"
    "hr_port h' = hr_port h \<or> (\<exists>p \<in> set peers. me_node p = node_of h \<and> me_port p = hr_port h')"
    by (cases; auto simp: with_peer_back with_peer_host with_peer_fields)+
qed

text \<open>C31. Gossip is conservative. Whatever a catalogue says, the hotels on record stay the same ones; a record changes
  only in its port, to one the catalogue names for that node, and in its host, if it had none; and the hotel's own
  record stays as it is.\<close>

theorem catalog_sync_conservative:
  assumes "hotels_wf (dm_hotels d)" "tbl_get (dm_hotels d) key = Some h"
  shows "\<exists>h'. tbl_get (dm_hotels (handle_catalog env peers d)) key = Some h' \<and> h'\<lparr>hr_port := hr_port h, hr_host := hr_host h\<rparr> = h
     \<and> ((case hr_host h of Some s \<Rightarrow> s \<noteq> [] | None \<Rightarrow> False) \<longrightarrow> hr_host h' = hr_host h)
     \<and> (node_of h = nc_node (de_capabilities env) \<longrightarrow> h' = h)
     \<and> (hr_port h' = hr_port h \<or> (\<exists>p \<in> set peers. me_node p = node_of h \<and> me_port p = hr_port h'))"
proof -
  have "catalogue_inv env peers (dm_hotels d) (dm_hotels d)" by (simp add: catalogue_inv_def catalogued_def split: option.splits)
  then have "catalogue_inv env peers (dm_hotels d) (dm_hotels (handle_catalog env peers d))"
    using apply_peers_inv [OF assms(1), of env peers "dm_hotels d" peers] by (simp add: handle_catalog_def)
  then obtain h' where h': "tbl_get (dm_hotels (handle_catalog env peers d)) key = Some h'" "catalogued env peers h h'"
    using assms(2) unfolding catalogue_inv_def by (auto split: option.splits dest!: spec [of _ key])
  show ?thesis using h'(1) catalogued_keeps [OF h'(2)] by blast
qed

theorem catalog_sync_conservative_witness:
  "\<exists>h'. tbl_get (dm_hotels (handle_catalog (demo_beacon ''vps-01'')
        [\<lparr>me_node = ''mbp-01'', me_hotel = ''mbp'', me_host = Some ''10.0.0.9'', me_port = 9300\<rparr>]
        (demo_daemon (demo_directory_hotel ''mbp'' ''mbp-01'' 9100)))) (hotel_key ''mbp'') = Some h' \<and> hr_host h' = Some ''100.64.0.1''"
proof -
  let ?d = "demo_daemon (demo_directory_hotel ''mbp'' ''mbp-01'' 9100)"
  have wf: "hotels_wf (dm_hotels ?d)" by (simp add: demo_daemon_def hotels_wf_def upsert_hotel_def tbl_wf_def)
  have get: "tbl_get (dm_hotels ?d) (hotel_key ''mbp'') = Some (demo_directory_hotel ''mbp'' ''mbp-01'' 9100)"
    by (simp add: demo_daemon_def upsert_hotel_def tbl_get_def demo_directory_hotel_def)
  have host: "hr_host (demo_directory_hotel ''mbp'' ''mbp-01'' 9100) = Some ''100.64.0.1''" by (simp add: demo_directory_hotel_def)
  from catalog_sync_conservative [OF wf get, of "demo_beacon ''vps-01''"
      "[\<lparr>me_node = ''mbp-01'', me_hotel = ''mbp'', me_host = Some ''10.0.0.9'', me_port = 9300\<rparr>]"]
  show ?thesis by (auto simp: host)
qed

text \<open>Each peer is held against the listing made before the loop: of two entries for one node the second undoes the host the
  first brought.\<close>

lemma second_entry_undoes_first:
  assumes "hotel_of_node node t = Some h" "hr_host h = None" "hr_port h \<noteq> q" "node \<noteq> nc_node (de_capabilities env)" "de_write env = (\<lambda>_. True)"
  shows "tbl_get (foldl (apply_peer env (list_hotels t)) t
      [\<lparr>me_node = node, me_hotel = n, me_host = Some ''10.0.0.9'', me_port = p\<rparr>, \<lparr>me_node = node, me_hotel = n, me_host = None, me_port = q\<rparr>])
      (hotel_key (hr_name h)) = Some (h\<lparr>hr_port := q\<rparr>)"
proof -
  have "h\<lparr>hr_port := q\<rparr> \<noteq> h" using assms(3) by (metis HotelRecord.select_convs(4) HotelRecord.surjective HotelRecord.update_convs(4))
  then show ?thesis
    using assms by (simp add: apply_peer_def hotel_of_node_def with_peer_def upsert_hotel_def tbl_get_put Let_def)
qed

subsection \<open>Whose word it is\<close>

text \<open>The daemon authenticates the node in the envelope and then goes by the node in the payload: a peer whose own messages
  are admitted can speak for any other node.\<close>

lemma heartbeat_for_another_node:
  assumes "beacon_admit mac (de_key env) (nc_node (de_capabilities env)) auth tracker wall msg ns = (True, ns')"
    "decode msg = InHeartbeat h"
  shows "\<exists>s. get_node_status (nc_node (hb_capabilities h)) (dm_registry (fst (fst (handle_packet mac auth tracker wall decode env now port msg (d, ns)))))
      = Some s \<and> ns_reachability s = hb_reachability h"
proof -
  let ?d1 = "on_registry (observe_heartbeat now (hb_capabilities h) (hb_reachability h) (hb_health h)) d"
  have "dm_registry (snd (reconcile_port env (nc_node (hb_capabilities h)) port ?d1)) = dm_registry ?d1"
    by (simp add: reconcile_port_def Let_def split: option.splits)
  then have "dm_registry (fst (fst (handle_packet mac auth tracker wall decode env now port msg (d, ns)))) = dm_registry ?d1"
    using assms by (cases "reconcile_port env (nc_node (hb_capabilities h)) port ?d1") (simp add: handle_packet_def handle_heartbeat_def Let_def)
  then show ?thesis
    by (simp add: on_registry_def observe_heartbeat_def get_node_status_def tbl_get_put Let_def split: option.splits)
qed

text \<open>The reply to a peer that comes back says nothing of how the replying node is reached, and the peer forgets what it knew.\<close>

lemma reply_forgets_reachability:
  assumes "anchor_reply env peer d = EmitHeartbeat h # es"
  shows "map_option ns_reachability (get_node_status (nc_node (de_capabilities env)) (observe r (t, SawHeartbeat h))) = Some None"
proof -
  have "h = \<lparr>hb_capabilities = de_capabilities env, hb_reachability = None, hb_health = None\<rparr>"
    using assms unfolding anchor_reply_def by simp
  then show ?thesis by (simp add: observe_heartbeat_def get_node_status_def tbl_get_put Let_def split: option.splits)
qed

end
