(* ===== verification/Placement.thy ===== *)
theory Placement
  imports MeshDirectory
begin

section \<open>What a hotel advertises, and where work is placed\<close>

text \<open>
  Models the sending half of the mesh (\<^verbatim>\<open>crates/aiua/src/main.rs\<close>, \<^verbatim>\<open>service/mesh_runtime.rs\<close>): the targets, the
  advertisements of a hotel and the periodic capability sync; and the choice of the best place to run
  (\<open>best_place_to_run_view\<close> in \<^verbatim>\<open>crates/aiua/src/service/ipc.rs\<close>), which reads the registry. What the graph lists
  (guests, role records, abstract tools) and the fingerprint (SHA-256 of the JSON text) are arguments; a listing that fails
  is \<open>None\<close>.
\<close>

subsection \<open>Targets and advertisements\<close>

definition mesh_host_for_hotel :: "HotelRecord \<Rightarrow> string" where
  "mesh_host_for_hotel h = (case hr_host h of Some s \<Rightarrow> if trim s \<noteq> [] then s else ''127.0.0.1'' | None \<Rightarrow> ''127.0.0.1'')"

definition mesh_targets_for_graph :: "HotelRecord list \<Rightarrow> string \<Rightarrow> (string \<times> string) list" where
  "mesh_targets_for_graph hotels local_node =
     map (\<lambda>h. (node_of h, mesh_host_for_hotel h @ '':'' @ dec_of_nat (hr_port h))) (filter (\<lambda>h. node_of h \<noteq> local_node) hotels)"

record GuestRecord =
  gr_hotel :: string
  gr_guest :: string
  gr_role :: string
  gr_config :: string
  gr_active :: bool
  gr_pid :: "string option"
  gr_last_active :: "nat option"

definition list_guests :: "(string \<times> GuestRecord) list \<Rightarrow> string \<Rightarrow> bool \<Rightarrow> GuestRecord list" where
  "list_guests rows hotel active_only =
     filter (\<lambda>g. \<not> active_only \<or> gr_active g)
       (map snd (filter (\<lambda>(key, _). starts_with (''guest:'' @ hotel @ '':'') key) rows))"

definition advertise :: "HotelRecord \<Rightarrow> GuestRecord \<Rightarrow> string \<Rightarrow> CapabilityAdvertisement" where
  "advertise hotel g role =
     (let k = nc_constraints (hr_capabilities hotel)
      in \<lparr>ca_hotel = hr_name hotel, ca_node = node_of hotel, ca_incarnation = gr_guest g, ca_role = role,
          ca_availability = (if gr_pid g \<noteq> None then ''live'' else ''materialization_required''),
          ca_hint = Some (if gr_pid g \<noteq> None then ''local_live_preferred'' else ''local_materialization_required''),
          ca_latency_hint = nk_latency_hint k, ca_max_jobs = nk_max_jobs k, ca_active_jobs = 0, ca_queue_depth = 0\<rparr>)"

text \<open>\<open>tools\<close>: what the registry of tool runners lists for a guest.\<close>

definition local_capability_advertisements ::
  "(string \<Rightarrow> string list option) \<Rightarrow> (string \<times> GuestRecord) list \<Rightarrow> HotelRecord \<Rightarrow> CapabilityAdvertisement list" where
  "local_capability_advertisements tools rows hotel =
     concat (map (\<lambda>g. case (if gr_role g = ''tool'' then tools (gr_guest g) else None) of
                        Some ts \<Rightarrow> map (\<lambda>t. advertise hotel g (''tool.'' @ t)) ts
                      | None \<Rightarrow> [advertise hotel g (gr_role g)])
            (list_guests rows (hr_name hotel) True))"

subsection \<open>The capability sync\<close>

record sync_state =
  sy_fingerprint :: "string option"
  sy_last_full :: nat

record sync_env =
  se_targets :: "(string \<times> string) list option"
  se_advertisements :: "CapabilityAdvertisement list option"
  se_reachability :: ExecutionReachability
  se_capabilities :: NodeCapabilities
  se_fingerprint :: "CapabilityAdvertisement list \<Rightarrow> ExecutionReachability \<Rightarrow> string"
  se_parses :: "string \<Rightarrow> bool"
  se_key :: "string \<Rightarrow> bool"
  se_len :: "CapabilitySyncPayload \<Rightarrow> nat option"
  se_sync_id :: "string \<Rightarrow> 128 word"

definition FULL_SYNC_INTERVAL :: nat where
  "FULL_SYNC_INTERVAL = 3600 * nanos_per_sec"

text \<open>The messages for one target: none if its address does not parse or it has no key.\<close>

definition sync_target :: "sync_env \<Rightarrow> CapabilityAdvertisement list \<Rightarrow> string \<times> string \<Rightarrow> (string \<times> CapabilitySyncPayload) list" where
  "sync_target e ads t =
     (if se_parses e (snd t) \<and> se_key e (fst t)
      then (case emit_capability_sync (se_len e) (se_sync_id e (fst t)) (se_capabilities e) ads (Some (se_reachability e)) of
              Some ps \<Rightarrow> map (Pair (fst t)) ps | None \<Rightarrow> [])
      else [])"

definition capability_tick :: "sync_env \<Rightarrow> nat \<Rightarrow> sync_state \<Rightarrow> sync_state \<times> (string \<times> CapabilitySyncPayload) list" where
  "capability_tick e now s =
     (case se_targets e of
        None \<Rightarrow> (s, [])
      | Some ts \<Rightarrow>
          if ts = [] then (s, [])
          else case se_advertisements e of
                 None \<Rightarrow> (s, [])
               | Some ads \<Rightarrow>
                   let f = se_fingerprint e ads (se_reachability e) in
                   if \<not> (sy_fingerprint s \<noteq> Some f \<or> now - sy_last_full s \<ge> FULL_SYNC_INTERVAL) then (s, [])
                   else (\<lparr>sy_fingerprint = Some f, sy_last_full = now\<rparr>, concat (map (sync_target e ads) ts)))"

subsection \<open>The best place to run\<close>

record candidate =
  cd_node :: string
  cd_hotel :: string
  cd_score :: int
  cd_healthy :: bool
  cd_tool_match :: bool

record placement =
  pv_node :: string
  pv_hotel :: string
  pv_basis :: string
  pv_markers :: "string list"
  pv_candidates :: "candidate list"

record place_query =
  pq_agent :: "string option"
  pq_role :: "string option"
  pq_tool :: "string option"
  pq_markers :: "string list"
  pq_prefer_locality :: bool

text \<open>What the graph answers: the hotels, if they can be listed; the role record's home node (\<open>None\<close> is a failing query,
  \<open>Some None\<close> no record or no home); the markers of an abstract tool.\<close>

record place_env =
  pe_hotels :: "hotel_table option"
  pe_home :: "string \<Rightarrow> string \<Rightarrow> string option option"
  pe_tool :: "string \<Rightarrow> string list option option"

definition target_hotel_name :: "place_env \<Rightarrow> NodeStatus \<Rightarrow> string \<Rightarrow> string" where
  "target_hotel_name pe s source =
     (case ns_advertisements s of
        ad # _ \<Rightarrow> ca_hotel ad
      | [] \<Rightarrow> (case Option.bind (pe_hotels pe) (hotel_of_node (nc_node (ns_capabilities s))) of Some h \<Rightarrow> hr_name h | None \<Rightarrow> source))"

definition score :: "bool \<Rightarrow> bool \<Rightarrow> bool \<Rightarrow> bool \<Rightarrow> bool \<Rightarrow> bool \<Rightarrow> int" where
  "score reachable healthy tool role_match local_preferred battery =
     (if reachable then 25 else 0) + (if healthy then 20 else - 50) + (if tool then 35 else 0) + (if role_match then 20 else 0)
     + (if local_preferred then 25 else 0) + (if battery then - 10 else 0)"

definition remote_candidate :: "place_env \<Rightarrow> nat \<Rightarrow> place_query \<Rightarrow> string \<Rightarrow> string \<Rightarrow> NodeRegistry \<Rightarrow> NodeStatus \<Rightarrow> candidate" where
  "remote_candidate pe now q local_node source r s =
     (let node = nc_node (ns_capabilities s);
          healthy = is_node_healthy now node r;
          tool = (case pq_tool q of None \<Rightarrow> True | Some t \<Rightarrow> t \<in> set (nc_tools (ns_capabilities s)));
          role = (case pq_role q of None \<Rightarrow> False | Some n \<Rightarrow> list_ex (\<lambda>ad. ca_role ad = n) (ns_advertisements s))
      in \<lparr>cd_node = node, cd_hotel = target_hotel_name pe s source,
          cd_score = score (ns_reachability s \<noteq> None) healthy tool role (pq_prefer_locality q \<and> node = local_node)
            (BatteryConstrained \<in> set (nc_roles (ns_capabilities s))),
          cd_healthy = healthy, cd_tool_match = tool\<rparr>)"

definition local_candidate :: "place_query \<Rightarrow> string \<Rightarrow> string \<Rightarrow> candidate" where
  "local_candidate q local_node source =
     \<lparr>cd_node = local_node, cd_hotel = source, cd_score = (if pq_prefer_locality q then 35 else 10), cd_healthy = True,
      cd_tool_match = (pq_tool q = None)\<rparr>"

definition ranked_candidates :: "place_env \<Rightarrow> nat \<Rightarrow> place_query \<Rightarrow> string \<Rightarrow> string \<Rightarrow> NodeRegistry \<Rightarrow> candidate list" where
  "ranked_candidates pe now q local_node source r =
     sort_key (\<lambda>c. - cd_score c) (local_candidate q local_node source # map (remote_candidate pe now q local_node source r) (active_nodes now r))"

definition needed_markers :: "place_env \<Rightarrow> place_query \<Rightarrow> string list option" where
  "needed_markers pe q =
     map_option (\<lambda>extra. remdups_adj (sort (pq_markers q @ extra)))
       (case pq_tool q of None \<Rightarrow> Some []
        | Some t \<Rightarrow> map_option (\<lambda>found. case found of Some ms \<Rightarrow> ms | None \<Rightarrow> []) (pe_tool pe t))"

text \<open>The home a role is pinned to: \<open>None\<close> is a failing query.\<close>

definition pinned_home :: "place_env \<Rightarrow> place_query \<Rightarrow> string option option" where
  "pinned_home pe q = (case (pq_agent q, pq_role q) of (Some a, Some n) \<Rightarrow> pe_home pe a n | _ \<Rightarrow> Some None)"

text \<open>The answer for a role without a pin, from the markers and the ranked candidates.\<close>

definition unpinned_placement :: "string \<Rightarrow> string \<Rightarrow> string list \<Rightarrow> candidate list \<Rightarrow> placement" where
  "unpinned_placement local_node source markers cs =
     (if list_ex (\<lambda>m. m = ''local_only'' \<or> m = ''desktop_bound'') markers
      then \<lparr>pv_node = local_node, pv_hotel = source, pv_basis = ''local_marker_policy'', pv_markers = [],
          pv_candidates = [\<lparr>cd_node = local_node, cd_hotel = source, cd_score = 100, cd_healthy = True, cd_tool_match = True\<rparr>]\<rparr>
      else \<lparr>pv_node = (case cs of c # _ \<Rightarrow> cd_node c | [] \<Rightarrow> local_node),
          pv_hotel = (case cs of c # _ \<Rightarrow> cd_hotel c | [] \<Rightarrow> source),
          pv_basis = ''registry_health_and_locality'', pv_markers = markers, pv_candidates = cs\<rparr>)"

definition best_place_to_run :: "place_env \<Rightarrow> nat \<Rightarrow> string \<Rightarrow> place_query \<Rightarrow> NodeRegistry \<Rightarrow> placement option" where
  "best_place_to_run pe now local_node q r =
     Option.bind (Option.bind (pe_hotels pe) (hotel_of_node local_node)) (\<lambda>src.
     Option.bind (pinned_home pe q) (\<lambda>pin.
       case pin of
         Some home \<Rightarrow> Some \<lparr>pv_node = home,
             pv_hotel = (case Option.bind (pe_hotels pe) (hotel_of_node home) of Some h \<Rightarrow> hr_name h | None \<Rightarrow> hr_name src),
             pv_basis = ''role_home_pin'', pv_markers = [], pv_candidates = []\<rparr>
       | None \<Rightarrow>
           map_option (\<lambda>markers. unpinned_placement local_node (hr_name src) markers (ranked_candidates pe now q local_node (hr_name src) r))
             (needed_markers pe q)))"

subsection \<open>Placement\<close>

lemma ranked_head:
  "\<exists>c cs. ranked_candidates pe now q local_node source r = c # cs \<and> list_all (\<lambda>d. cd_score d \<le> cd_score c) (c # cs)
     \<and> (c = local_candidate q local_node source \<or> (\<exists>s. c = remote_candidate pe now q local_node source r s))"
proof -
  let ?cs = "local_candidate q local_node source # map (remote_candidate pe now q local_node source r) (active_nodes now r)"
  let ?ranked = "ranked_candidates pe now q local_node source r"
  have ranked: "?ranked = sort_key (\<lambda>c. - cd_score c) ?cs" by (simp add: ranked_candidates_def)
  have "length ?ranked = length ?cs" unfolding ranked by (rule length_sort)
  then obtain c cs where c: "?ranked = c # cs" by (cases ?ranked) auto
  have "sorted (map (\<lambda>c. - cd_score c) (c # cs))" using sorted_sort_key [of "\<lambda>c. - cd_score c" ?cs] unfolding c [symmetric] ranked .
  then have "list_all (\<lambda>d. cd_score d \<le> cd_score c) (c # cs)" by (auto simp: list_all_iff)
  moreover have "set ?ranked = set ?cs" unfolding ranked by (rule set_sort)
  then have "c \<in> set ?cs" unfolding c by auto
  ultimately show ?thesis using c by auto
qed

text \<open>A node that is not healthy scores at most 30, less than the 35 of the local hotel under the locality preference.\<close>

lemma unhealthy_scores_low:
  assumes "cd_score (remote_candidate pe now q local_node source r s) \<ge> 35" "cd_node (remote_candidate pe now q local_node source r s) \<noteq> local_node"
  shows "is_node_healthy now (cd_node (remote_candidate pe now q local_node source r s)) r"
  using assms by (auto simp: remote_candidate_def score_def Let_def split: if_splits)

lemma unpinned_answer:
  assumes "best_place_to_run pe now local_node q r = Some v" "pinned_home pe q = Some None"
  shows "\<exists>(src :: HotelRecord) markers. needed_markers pe q = Some markers
    \<and> v = unpinned_placement local_node (hr_name src) markers (ranked_candidates pe now q local_node (hr_name src) r)"
proof -
  obtain src where src: "Option.bind (pe_hotels pe) (hotel_of_node local_node) = Some src"
    using assms(1) by (cases "Option.bind (pe_hotels pe) (hotel_of_node local_node)") (simp_all add: best_place_to_run_def)
  obtain markers where markers: "needed_markers pe q = Some markers"
    using assms src by (cases "needed_markers pe q") (simp_all add: best_place_to_run_def)
  have "v = unpinned_placement local_node (hr_name src) markers (ranked_candidates pe now q local_node (hr_name src) r)"
    using assms src markers by (simp add: best_place_to_run_def)
  then show ?thesis using markers by blast
qed

text \<open>C30. Where work is placed. A role that is pinned to a home goes there, whatever else is asked; work marked as
  local stays, when no pin speaks against it; otherwise no candidate scores higher than the recommended one, and with
  the preference for locality a node that is not healthy is never recommended over the local hotel.\<close>

theorem placement_sound:
  assumes "best_place_to_run pe now local_node q r = Some v"
  shows "case pinned_home pe q of
      Some (Some home) \<Rightarrow> pv_node v = home
    | _ \<Rightarrow> (if list_ex (\<lambda>m. m = ''local_only'' \<or> m = ''desktop_bound'') (pq_markers q) then pv_node v = local_node
           else (\<exists>c \<in> set (pv_candidates v). cd_node c = pv_node v \<and> list_all (\<lambda>d. cd_score d \<le> cd_score c) (pv_candidates v))
             \<and> (pq_prefer_locality q \<longrightarrow> pv_node v = local_node \<or> is_node_healthy now (pv_node v) r))"
proof (cases "pinned_home pe q")
  case (Some pin)
  show ?thesis
  proof (cases pin)
    case home: (Some home)
    then show ?thesis using assms Some by (cases "Option.bind (pe_hotels pe) (hotel_of_node local_node)") (auto simp: best_place_to_run_def)
  next
    case None
    then obtain src :: HotelRecord and markers where m: "needed_markers pe q = Some markers"
        and v: "v = unpinned_placement local_node (hr_name src) markers (ranked_candidates pe now q local_node (hr_name src) r)"
      using unpinned_answer [OF assms] Some by blast
    have sub: "set (pq_markers q) \<subseteq> set markers" using m by (auto simp: needed_markers_def)
    show ?thesis
    proof (cases "list_ex (\<lambda>m. m = ''local_only'' \<or> m = ''desktop_bound'') markers")
      case True
      then show ?thesis using Some None v by (auto simp: unpinned_placement_def)
    next
      case False
      then have no: "\<not> list_ex (\<lambda>m. m = ''local_only'' \<or> m = ''desktop_bound'') (pq_markers q)"
        using sub by (auto simp: list_ex_iff)
      obtain c cs where c: "ranked_candidates pe now q local_node (hr_name src) r = c # cs"
          "list_all (\<lambda>d. cd_score d \<le> cd_score c) (c # cs)"
          "c = local_candidate q local_node (hr_name src) \<or> (\<exists>s. c = remote_candidate pe now q local_node (hr_name src) r s)"
        using ranked_head by meson
      have vc: "pv_node v = cd_node c" "pv_candidates v = c # cs" using v False c(1) by (simp_all add: unpinned_placement_def)
      have "cd_node c = local_node \<or> is_node_healthy now (cd_node c) r" if "pq_prefer_locality q"
      proof -
        have "local_candidate q local_node (hr_name src) \<in> set (c # cs)"
          unfolding c(1) [symmetric] by (simp add: ranked_candidates_def set_insort_key)
        then have high: "35 \<le> cd_score c" using c(2) that by (force simp: list_all_iff local_candidate_def)
        from c(3) show ?thesis
        proof
          assume "\<exists>s. c = remote_candidate pe now q local_node (hr_name src) r s"
          then obtain s where s: "c = remote_candidate pe now q local_node (hr_name src) r s" ..
          show ?thesis using unhealthy_scores_low [of pe now q local_node "hr_name src" r s] high unfolding s by blast
        qed (simp add: local_candidate_def)
      qed
      then show ?thesis using Some None no vc c(2) by auto
    qed
  qed
qed (use assms in \<open>simp add: best_place_to_run_def\<close>)

text \<open>The remote node has the tool and is reached, but its disk is full.\<close>

definition demo_status :: "rat \<Rightarrow> NodeStatus" where
  "demo_status disk = \<lparr>ns_capabilities = (demo_caps ''vps-01'')\<lparr>nc_tools := [''grep'']\<rparr>, ns_advertisements = [],
     ns_reachability = Some \<lparr>er_protocol = ''tcp-framed-v1'', er_host = ''100.64.0.2'', er_port = 9002\<rparr>,
     ns_health = Some \<lparr>nh_guest_count = None, nh_disk_free = Some disk, nh_mem_free = None, nh_load_avg = None, nh_perimeter = None\<rparr>,
     ns_last_seen = 100\<rparr>"

definition demo_mesh :: "rat \<Rightarrow> NodeRegistry" where
  "demo_mesh disk = new_registry\<lparr>nr_nodes := [(''vps-01'', demo_status disk)]\<rparr>"

definition demo_place :: place_env where
  "demo_place = \<lparr>pe_hotels = Some (upsert_hotel (demo_directory_hotel ''mac'' ''mac-01'' 9000) []), pe_home = (\<lambda>_ _. Some None), pe_tool = (\<lambda>_. Some None)\<rparr>"

definition demo_query :: "bool \<Rightarrow> place_query" where
  "demo_query prefer = \<lparr>pq_agent = None, pq_role = None, pq_tool = Some ''grep'', pq_markers = [''gpu''], pq_prefer_locality = prefer\<rparr>"

lemmas demo_place_defs = best_place_to_run_def demo_place_def demo_query_def demo_mesh_def demo_status_def demo_directory_hotel_def demo_caps_def
  upsert_hotel_def hotel_of_node_def list_hotels_def node_of_def pinned_home_def needed_markers_def unpinned_placement_def
  ranked_candidates_def local_candidate_def remote_candidate_def active_nodes_def new_registry_def is_fresh_def DEFAULT_NODE_TTL_def
  nanos_per_sec_def score_def is_node_healthy_def get_node_status_def tbl_get_def target_hotel_name_def Let_def

lemma demo_placement: "map_option pv_node (best_place_to_run demo_place 200 ''mac-01'' (demo_query True) (demo_mesh 50)) = Some ''vps-01''"
  by (simp add: demo_place_defs)

theorem placement_sound_witness: "is_node_healthy 200 ''vps-01'' (demo_mesh 50)"
proof -
  obtain v where v: "best_place_to_run demo_place 200 ''mac-01'' (demo_query True) (demo_mesh 50) = Some v" "pv_node v = ''vps-01''"
    using demo_placement by auto
  from placement_sound [OF v(1)] v(2) show ?thesis
    by (simp add: pinned_home_def demo_query_def)
qed

text \<open>Without the preference for locality the penalty does not keep work off such a node: reached and with the tool, it scores
  as much as the healthy local hotel, which is listed first; with a role as well it wins.\<close>

lemma unhealthy_node_wins:
  assumes "cd_healthy (remote_candidate pe now q local_node source r s) = False" "\<not> pq_prefer_locality q" "ns_reachability s \<noteq> None"
    "cd_tool_match (remote_candidate pe now q local_node source r s)" "pq_role q = Some n" "n \<in> ca_role ` set (ns_advertisements s)"
    "BatteryConstrained \<notin> set (nc_roles (ns_capabilities s))"
  shows "cd_score (remote_candidate pe now q local_node source r s) > cd_score (local_candidate q local_node source)"
  using assms by (auto simp: remote_candidate_def local_candidate_def score_def Let_def list_ex_iff)

subsection \<open>From the guest to the lookup\<close>

text \<open>An active guest of a hotel is found by every node that holds the hotel's advertisements and has heard of it in time.\<close>

lemma active_guest_is_found:
  assumes "advertised node r = Some (local_capability_advertisements tools rows hotel)" "\<not> is_node_stale now node r"
    and "g \<in> set (list_guests rows (hr_name hotel) True)" "gr_role g \<noteq> ''tool''"
  shows "find_node_id_for_guest now (gr_guest g) r \<noteq> None"
proof
  assume none: "find_node_id_for_guest now (gr_guest g) r = None"
  obtain s where s: "get_node_status node r = Some s" "ns_advertisements s = local_capability_advertisements tools rows hotel" "is_fresh now s"
    using assms(1,2) by (auto simp: advertised_def is_node_stale_def)
  have "advertise hotel g (gr_role g) \<in> set (ns_advertisements s)"
    using assms(3,4) unfolding s(2) local_capability_advertisements_def by force
  then have "gr_guest g \<in> ca_incarnation ` set (ns_advertisements s)"
    by (rule rev_image_eqI) (simp add: advertise_def Let_def)
  moreover have "s \<in> set (active_nodes now r)"
    using s(1,3) by (force simp: active_nodes_def get_node_status_def tbl_get_def dest: map_of_SomeD)
  ultimately show False using guest_lookup_exact [where now = now and guest = "gr_guest g" and r = r] none by auto
qed

text \<open>A pass records its fingerprint whatever became of its messages: a peer without a key yet is not served
  again before the advertisements change or the hour is over.\<close>

lemma keyless_peer_waits:
  assumes "se_targets e = Some [t]" "se_advertisements e = Some ads" "\<not> se_key e (fst t)" "sy_fingerprint s = None"
    "later - now < FULL_SYNC_INTERVAL"
  shows "capability_tick (e\<lparr>se_key := (\<lambda>_. True)\<rparr>) later (fst (capability_tick e now s)) = (fst (capability_tick e now s), [])"
    and "snd (capability_tick e now s) = []"
  using assms by (simp_all add: capability_tick_def sync_target_def Let_def)

end
