(* ===== verification/Spec2Isabelle.thy ===== *)
theory Spec2Isabelle
  imports Prelude Tables Autonomy HealQueue NodeStore TrustLedger Leases LeaseHandlers LeaseService LeaseDriver
    Subagents MeshAuth MeshLedger CredentialPool ModelRouter Perimeter McpMembrane McpHotel Histories Delivery Cron
    Commands ScriptedLoop AgentSession PlanEval ToolGate AgentCron ModelOracle ModelCatalog Fallback NodeRegistry MeshDirectory Placement
begin

text \<open>
  A verification library for philotic-stack, a mesh of ``hotels'' (the \<^verbatim>\<open>aiua\<close> service) that host
  agents (``guests''), reach people through ``membranes'' (Telegram, Discord, desktop, MCP), share a
  context graph, and heal themselves under earned autonomy. The library follows the Rust sources
  under \<^verbatim>\<open>src/crates\<close>; definitions keep the names of the functions and types they translate.

  \<^bold>\<open>The parts, and which theory models which.\<close>

  \<^item> \<open>Prelude\<close>: machine integers at their width (\<open>u64_add\<close> wraps, \<open>u32_max\<close>), strings as the code
    measures and cuts them (UTF-8 length and \<open>truncate\<close> at character boundaries, trimming, number
    parsing), JSON values, and the list lemmas the components share. \<open>Tables\<close>: the ordered keyed
    table behind the SQLite \<^verbatim>\<open>graph_nodes\<close> rows and the registries' \<open>HashMap\<close>s, as the locale
    \<open>keyed_table\<close> and its implementation.
  \<^item> \<open>Autonomy\<close> (\<^verbatim>\<open>ansible-mesh-core/src/autonomy.rs\<close>, \<^verbatim>\<open>provenance.rs\<close>): lanes, the kill switch, the
    posture state machine of a grant (proposal-only, confirm-first, auto-with-audit), the daily action budget, the
    freeze, audit records and the status report. Postures are earned: the theorems give the exact
    conditions for each move, the budget bound, and that a killed lane never acts.
  \<^item> \<open>HealQueue\<close> (\<^verbatim>\<open>heal_queue.rs\<close>, \<^verbatim>\<open>heal-dispatcher/src/recurrence.rs\<close>): the error queue with
    deduplication, rate bounds and retention, the evidence capping, the classifier and action table,
    and the sliding-window recurrence tracker with its refinement to a count over the window.
  \<^item> \<open>NodeStore\<close> and \<open>TrustLedger\<close> (\<^verbatim>\<open>storage.rs\<close>, \<^verbatim>\<open>sqlite_storage.rs\<close>, \<^verbatim>\<open>domain/mod.rs\<close>,
    \<^verbatim>\<open>aiua/src/service/ipc.rs\<close>, \<^verbatim>\<open>aiua/src/autonomy_sweep.rs\<close>): the graph-backed ledger of grants, audits and
    heal work items, the IPC handlers that file, consume and review, and the outcome sweep, over a
    store whose calls may fail at any point: the ledger theorems hold for every failure schedule.
  \<^item> \<open>Leases\<close>, \<open>LeaseHandlers\<close>, \<open>LeaseService\<close> (\<^verbatim>\<open>aiua/src/service/lease.rs\<close>,
    \<^verbatim>\<open>lease_handlers.rs\<close>, the lease arms of \<^verbatim>\<open>ipc.rs\<close>): the runtime lease registry with its epochs, the
    lease requests of the four membrane transports with their authority checks, and the hotel as a
    server of whole histories of requests. The locale \<open>lease_provider\<close> derives fencing from what a
    registry promises; the locale \<open>lease_service\<close> derives the single-owner rule for any server that
    moves its registry by lease steps; both are interpreted on the code's definitions.
  \<^item> \<open>LeaseDriver\<close> (\<^verbatim>\<open>membrane/src/lease.rs\<close>, the adapters in \<^verbatim>\<open>membrane-telegram/src/lib.rs\<close> and
    \<^verbatim>\<open>membrane-discord/src/lease.rs\<close>): the state machine a seat runs to keep its lease. The locale
    \<open>sound_backend\<close> is interpreted on both adapters running against the hotel of \<open>LeaseService\<close> over a
    connection that loses requests and replies: what a seat believes is what the hotel recorded.
  \<^item> \<open>Subagents\<close> (the subagent half of \<^verbatim>\<open>lease_handlers.rs\<close> and \<^verbatim>\<open>ipc.rs\<close>): workers spawned on behalf of a
    persona agent, their leases, hooks and tasks, with every refusal; a second interpretation of
    \<open>lease_service\<close>.
  \<^item> \<open>MeshAuth\<close> (\<^verbatim>\<open>ansible-mesh-core/src/authz.rs\<close>, \<^verbatim>\<open>aiua/src/service/execution_transport.rs\<close>, the admission
    check of \<^verbatim>\<open>beacon.rs\<close>): signing and validation of mesh messages and the nonce table; what a
    signature covers, and that, with authentication enabled and a clock that runs forward, a packet not dated into the
    future is never accepted twice.
  \<^item> \<open>MeshLedger\<close> (\<^verbatim>\<open>sqlite_storage.rs\<close>, the writer thread of \<^verbatim>\<open>aiua/src/main.rs\<close>,
    \<^verbatim>\<open>mesh_dispatcher.rs\<close>, \<^verbatim>\<open>mesh_runtime.rs\<close>, the delivery claims of \<^verbatim>\<open>ipc.rs\<close>): the durable outbound
    ledger with its cursors under failing storage calls. Events are kept until acknowledged, numbers are
    never reused, what is dispatched validates, and an acknowledgement covers everything before it.
  \<^item> \<open>CredentialPool\<close> and \<open>ModelRouter\<close> (\<^verbatim>\<open>model-router/src/credential_pool.rs\<close>, \<^verbatim>\<open>runtime.rs\<close>,
    \<^verbatim>\<open>controller.rs\<close>): the pool of provider keys with cooldowns, pin and rotation, the choice of a provider with its
    fallback, the classification of failures, the retry loop of a dispatch, the time budgets and the refresh of the pool
    from the vault. Rotation is specified exactly, a pool recovers after 300 seconds, and a dispatch makes a bounded
    number of calls, each rotation on another key.
  \<^item> \<open>Perimeter\<close> (\<^verbatim>\<open>perimeter-core\<close>, \<^verbatim>\<open>aiua/src/service/perimeter.rs\<close>, \<^verbatim>\<open>egress.rs\<close>, \<^verbatim>\<open>aiua/src/vault.rs\<close>): the exposure
    tier of a bind address, the ceiling a hotel derives from its listeners, the ingress fence, the egress decision, the
    access rules of the vault and the injection of credentials.
  \<^item> \<open>McpMembrane\<close> (\<^verbatim>\<open>membrane-mcp\<close>, \<^verbatim>\<open>ansible-mesh-core/src/mcp_route.rs\<close>, \<^verbatim>\<open>mcp_endpoint.rs\<close>): the server of one MCP
    endpoint: bearer authentication with its hash cache and allotments, the routing tables, the JSON transforms, the
    dispatcher, parked calls and the listener. A call leaves the membrane only behind the fence and the scheme that
    guards its tool; listing and calling agree; the listener never outgrows the perimeter.
  \<^item> \<open>McpHotel\<close> (the MCP arms of \<^verbatim>\<open>aiua/src/service/ipc.rs\<close>): provisioning, token grants, revocation and routes, with
    the pushes to the membranes by role. Endpoints stay guarded and owned over every history of requests. The pushes of
    a configuration or a revocation name a role no membrane subscribes to, so a running membrane keeps the configuration it
    started with, which is what the theorem states of it.
  \<^item> \<open>Delivery\<close> (the delivery half of \<^verbatim>\<open>aiua/src/service/ipc.rs\<close>, \<^verbatim>\<open>role_materialization.rs\<close>): the counted channel of a
    connection and its write task, inboxes, delivery with its write-confirmation watcher, re-parking, the flush at
    registration and mesh envelopes for dormant guests. The read of the send counter behind a send is a step of its own,
    as the code takes it outside the lock: over every history no task is written more often than it was handed out, but for
    the watchers that read late, and a lost task reaches the guest's next connection.
  \<^item> \<open>Cron\<close> (\<^verbatim>\<open>ansible-mesh-core/src/cron.rs\<close>, \<^verbatim>\<open>aiua/src/service/cron_ticker.rs\<close>, the broadcast handlers of
    \<^verbatim>\<open>aiua/src/main.rs\<close>, the cron arms of \<^verbatim>\<open>ipc.rs\<close>): scheduled jobs, what a fire sends, the gates for replicated jobs,
    recovery, announcements and silent replies. The epochs of a job go out in increasing order over every history in which
    the ticker's writes of it succeed and it is neither rewritten nor re-enabled after its last run; the conditions are shown
    to be needed.
  \<^item> \<open>Histories\<close>: the locales \<open>history\<close> and \<open>increasing_log\<close> for components that are folds of a step over events,
    interpreted on the cron hotel, the agent's gate, the health of model profiles and the node registry; and \<open>returning\<close> and
    \<open>dwindling\<close> for steps that may not return, interpreted on an agent without a model.
  \<^item> \<open>Commands\<close> (\<^verbatim>\<open>philote/src/commands.rs\<close>, \<^verbatim>\<open>protocol.rs\<close>): inbound messages, the slash commands with their parser, and
    the model presets.
  \<^item> \<open>ScriptedLoop\<close> (\<^verbatim>\<open>philote/src/scripted_loop.rs\<close>): the executor of a role's loop script, with its cursors, outputs and
    decisions.
  \<^item> \<open>AgentSession\<close> (\<^verbatim>\<open>philote/src/session\<close>): the state an agent keeps per conversation: turns, queue, parked turns,
    approval policy, success streaks, paracrine threads. Standing approvals are earned, by as many successes as the request
    names in 32 bits.
  \<^item> \<open>PlanEval\<close> (\<^verbatim>\<open>philote/src/plan_eval.rs\<close>, the follow-up in \<^verbatim>\<open>turn_loop.rs\<close>): the verdict on a plan and the continuation
    turns an agent starts by itself, which make progress and number at most one budget per plan that was given up, plus
    what is left of the current one.
  \<^item> \<open>ToolGate\<close> (\<^verbatim>\<open>philote/src/tool_exec.rs\<close>, \<^verbatim>\<open>turn_loop.rs\<close>, \<^verbatim>\<open>runtime.rs\<close>): the turn loop with the gates in front of a
    tool call, approvals, the operator's decisions, tool results and the iteration cap, the turns that run a loop script
    (which skip the gates) and the direct \<open>life.observe\<close> command. The relations \<open>quiet\<close>, \<open>sends\<close>, \<open>slips\<close>
    and the invariant \<open>gate_inv\<close> carry the proof that every call that leaves a turn has its grounds, over every history; with the
    model and the tools as arbitrary functions a turn ends after at most 51 rounds.
  \<^item> \<open>AgentCron\<close>: a cron job of the hotel and the session of the agent it reaches, put together.

  \<^item> \<open>ModelOracle\<close> (\<^verbatim>\<open>ansible-mesh-core/src/model_oracle.rs\<close>, \<^verbatim>\<open>model_routing.rs\<close>, the query handler in \<^verbatim>\<open>ipc.rs\<close>): model
    profiles with their health state machine, the ranking of models and the check of the fallback ladders. The profile
    table stays well formed under any outcomes.
  \<^item> \<open>ModelCatalog\<close> (\<^verbatim>\<open>model_catalog_discovery.rs\<close>, \<^verbatim>\<open>aiua/src/service/model_catalog_sync.rs\<close>): the listing of models, the
    difference of two snapshots and one pass of the sync, which alerts once.
  \<^item> \<open>Fallback\<close> (\<^verbatim>\<open>philote/src/turn_loop.rs\<close>, \<^verbatim>\<open>runtime.rs\<close>): what an agent does when its model fails or stays silent: error
    classes, the target of a turn's first request (online and offline), the ladder of tiers, the oracle's further tiers, retries, pinned turns, probes, and the watchdog. A turn that
    nobody answers ends, the session is freed, and a provider that broke its contract is left.
  \<^item> \<open>NodeRegistry\<close> (\<^verbatim>\<open>ansible-mesh-core/src/registry.rs\<close>, \<^verbatim>\<open>heartbeat.rs\<close>): what a hotel knows of the other nodes, and the
    chunking of capability and hotel-state syncs. A sync arrives whole or not at all, syncs never mix, and every datagram
    fits.
  \<^item> \<open>MeshDirectory\<close> (\<^verbatim>\<open>beacon.rs\<close> behind the admission of \<open>MeshAuth\<close>): the beacon daemon with the directory of hotels, the
    replicated profiles and the handshake of a peer that comes back, which ends after two replies; what the loop needs for that
    is shown to be needed (\<open>heartbeat_storm\<close>).
  \<^item> \<open>Placement\<close> (\<^verbatim>\<open>aiua/src/main.rs\<close>, \<^verbatim>\<open>service/mesh_runtime.rs\<close>, \<open>best_place_to_run_view\<close> of \<^verbatim>\<open>ipc.rs\<close>): what a hotel advertises
    and when, and where work is placed.

  \<^bold>\<open>How state and effects are rendered.\<close> A struct is a \<open>record\<close>, an enum a \<open>datatype\<close>, a method a
  function from the old to the new state; a \<open>Result\<close> is a sum, a panic the value \<open>None\<close>. Each mutex
  guards one request, so a request is one transition; interleavings are sequences of requests. Clocks
  (\<open>unix_ts()\<close>, \<open>Instant::now()\<close>) and fresh identifiers are arguments. Log lines and the wording of
  error messages are left out; error codes are kept. Integers that the code lets wrap do so in the
  model; where a theorem needs that a \<open>u64\<close> counter does not run out, it says so as a bound.

  \<^bold>\<open>Parameters.\<close> The lower-casing of non-ASCII characters (Unicode tables of the standard library), the
  existence of a process, HMAC-SHA256, the key of a peer, the JSON encoding of an event, the arguments
  read from the text of a \<open>life.observe\<close> command, the answers of a model provider, of the operating system's address probes and of a socket's \<open>bind\<close>, BLAKE3, the vault's cipher, the cron parser and JSON text are
  arguments of the definitions that use them, as are the answer of the routing oracle to an agent and the length of an
  encoded message. No theorem assumes anything of them (where the MAC or a hash matters, a collision is one of the conclusions), but that the cipher opens what it sealed where a secret is read back, and that
  the cron parser's next occurrence lies after the given time.

  \<^bold>\<open>Bounds and fuel.\<close> Only \<open>unattended\<close>, the turn loop against arbitrary models, counts rounds, and its theorem
  says how many are enough. The walk down a fallback ladder and the
  exchange of reconnect heartbeats are partial functions, since the code's loops need not return: the theorems give the conditions
  under which they do (a ladder of at most 255 tiers, whose last index bounds the unanswered requests of a turn, plus six; a hotel that
  can write its directory), and companion lemmas show runs that do not. The other loops run over lists, the eviction of
  delivery claims and the retry loop of a dispatch have their termination proofs, and every other function is total. The single-owner theorem covers histories of up to \<open>2^64 - 1\<close> inputs, the point
  at which the epoch counter itself would wrap.

  \<^bold>\<open>Not modelled.\<close> Spawning and supervising processes, model calls, an agent's prompts, voice and role switching,
  the LifeGraph messages an agent's runtime sends by itself beside its turns, the memory and datasource services, the web and desktop surfaces, sockets and wire encodings, and the formatting of
  messages are outside this library: they are I/O around third-party services or await modelling. Of the parts named above the rounding
  of \<open>f32\<close> scores, the listings of other providers than OpenRouter, the voice path of the fallback, the sampling of
  a node's vitals and the membership exchange (third-party cryptography) are left out. The sandbox policy and the execution guard rest on
  third-party glob and regular-expression engines.
\<close>

end
